(* ===== verification/Prelude.thy ===== *)
theory Prelude
  imports Main
begin

text \<open>
  What every component of the development shares: the exceptions of the Python code as values,
  the result type of a fallible function and its sequencing, Python's slices and integer helpers,
  and the generic lemmas on them.

  A Python function that may raise is a function into \<open>py_error + 'a\<close>: \<open>Inl\<close> is the exception
  that leaves the function, \<open>Inr\<close> the value it returns. A method that may raise after it has
  changed its object returns the pair of that result and the object's state. The texts of the
  exceptions and of the log lines are not modelled; the class of the exception is.

  Python's unbounded integers are \<open>int\<close>. A check \<open>type(x) is int\<close> of the source is the type of
  the model's argument and leaves no branch; every other check is a branch.
\<close>

datatype py_error =
    ValueError | RuntimeError | AssertionError | KeyError | IndexError | TypeError
  | RequestRefused \<comment> \<open>the subclass of ValueError that ends one request and not the engine\<close>
  | CallbackError \<comment> \<open>an exception raised by a callback or device operation the code is given\<close>

type_synonym 'a result = "py_error + 'a"

definition rbind :: "'e + 'a \<Rightarrow> ('a \<Rightarrow> 'e + 'b) \<Rightarrow> 'e + 'b" where
  "rbind m k = (case m of Inl e \<Rightarrow> Inl e | Inr x \<Rightarrow> k x)"

lemma rbind_simps [simp]:
  "rbind (Inl e) k = Inl e"
  "rbind (Inr x) k = k x"
  by (simp_all add: rbind_def)

lemma rbind_Inr_iff: "rbind m k = Inr y \<longleftrightarrow> (\<exists>x. m = Inr x \<and> k x = Inr y)"
  by (cases m) auto

lemma rbind_InrE [elim]:
  assumes "rbind m k = Inr y"
  obtains x where "m = Inr x" and "k x = Inr y"
  using assms by (cases m) auto

lemma sum_Inr_of_not_Inl: "(\<And>e. r \<noteq> Inl e) \<Longrightarrow> \<exists>x. r = Inr x"
  by (cases r) auto

text \<open>Whether a result is a value (the call returned) or an exception.\<close>

definition returned :: "'e + 'a \<Rightarrow> bool" where
  "returned r = (case r of Inl _ \<Rightarrow> False | Inr _ \<Rightarrow> True)"

lemma returned_simps [simp]: "returned (Inr x)" "\<not> returned (Inl e)"
  by (simp_all add: returned_def)

lemma returned_iff: "returned r \<longleftrightarrow> (\<exists>x. r = Inr x)"
  by (cases r) auto

lemma returned_projr: "returned r \<Longrightarrow> r = Inr (projr r)"
  by (cases r) auto

subsection \<open>Slices\<close>

text \<open>\<open>xs[-n:]\<close> for a positive \<open>n\<close>: the last \<open>n\<close> elements, all of them when there are fewer.\<close>

definition last_n :: "int \<Rightarrow> 'a list \<Rightarrow> 'a list" where
  "last_n n xs = drop (nat (int (length xs) - n)) xs"

lemma length_last_n: "0 \<le> n \<Longrightarrow> int (length (last_n n xs)) = min n (int (length xs))"
  by (auto simp: last_n_def)

lemma last_n_all: "int (length xs) \<le> n \<Longrightarrow> last_n n xs = xs"
  by (simp add: last_n_def)

lemma set_last_n: "set (last_n n xs) \<subseteq> set xs"
  by (simp add: last_n_def set_drop_subset)

lemma last_n_of_nat: "last_n (int m) xs = drop (length xs - m) xs"
  by (auto simp: last_n_def nat_diff_distrib')

lemma last_n_append: "0 \<le> n \<Longrightarrow> last_n n (last_n n xs @ ys) = last_n n (xs @ ys)"
proof -
  assume "0 \<le> n"
  then obtain m where "n = int m" by (rule nonneg_int_cases)
  then show ?thesis
    by (cases "m \<le> length xs") (auto simp: last_n_of_nat add.commute)
qed

text \<open>\<open>xs[a:b]\<close> for bounds that are not negative.\<close>

definition slice :: "nat \<Rightarrow> nat \<Rightarrow> 'a list \<Rightarrow> 'a list" where
  "slice a b xs = take (b - a) (drop a xs)"

lemma length_slice: "length (slice a b xs) = min (b - a) (length xs - a)"
  by (auto simp: slice_def)

lemma set_slice: "set (slice a b xs) \<subseteq> set xs"
  by (auto simp: slice_def dest: in_set_takeD in_set_dropD)

lemma last_take_nth: "0 < n \<Longrightarrow> n \<le> length xs \<Longrightarrow> last (take n xs) = xs ! (n - 1)"
  by (subst last_conv_nth) (auto simp: min_absorb2)

lemma ball_take_nth: "(\<forall>x \<in> set (take k xs). P x) \<longleftrightarrow> (\<forall>i < k. i < length xs \<longrightarrow> P (xs ! i))"
  by (auto simp: all_set_conv_all_nth)

lemma slice_nth: "i < length (slice a b xs) \<Longrightarrow> slice a b xs ! i = xs ! (a + i)"
  by (auto simp: slice_def)

text \<open>\<open>xs[0:n]\<close> for any integer \<open>n\<close>: a negative bound counts from the end.\<close>

definition py_prefix :: "int \<Rightarrow> 'a list \<Rightarrow> 'a list" where
  "py_prefix n xs = (if 0 \<le> n then take (nat n) xs else take (nat (int (length xs) + n)) xs)"

lemma py_prefix_pos: "0 \<le> n \<Longrightarrow> py_prefix n xs = take (nat n) xs"
  by (simp add: py_prefix_def)

lemma py_prefix_append: "0 \<le> n \<Longrightarrow> int (length (py_prefix n xs)) = n \<Longrightarrow> py_prefix n (xs @ ys) = py_prefix n xs"
proof -
  assume n: "0 \<le> n" "int (length (py_prefix n xs)) = n"
  then have "nat n \<le> length xs" by (simp add: py_prefix_def split: if_splits)
  with n(1) show ?thesis by (simp add: py_prefix_def)
qed

subsection \<open>Dictionaries with their insertion order\<close>

text \<open>A Python dictionary whose order is read is an association list with distinct keys:
  \<open>d[k] = v\<close> keeps the place of a key that is there and appends one that is not.\<close>

fun dict_set :: "'k \<Rightarrow> 'v \<Rightarrow> ('k \<times> 'v) list \<Rightarrow> ('k \<times> 'v) list" where
  "dict_set k v [] = [(k, v)]"
| "dict_set k v ((k', v') # d) = (if k' = k then (k, v) # d else (k', v') # dict_set k v d)"

definition dict_del :: "'k \<Rightarrow> ('k \<times> 'v) list \<Rightarrow> ('k \<times> 'v) list" where
  "dict_del k d = filter (\<lambda>(k', _). k' \<noteq> k) d"

definition dict_ok :: "('k \<times> 'v) list \<Rightarrow> bool" where
  "dict_ok d \<longleftrightarrow> distinct (map fst d)"

lemma map_of_dict_set: "map_of (dict_set k v d) = (map_of d)(k \<mapsto> v)"
  by (induction d) auto

lemma keys_dict_set: "fst ` set (dict_set k v d) = insert k (fst ` set d)"
proof (induction d)
  case (Cons p d)
  obtain k' v' where p: "p = (k', v')" by (cases p)
  show ?case
  proof (cases "k' = k")
    case True
    with p show ?thesis by simp
  next
    case False
    with p Cons show ?thesis by (simp add: insert_commute)
  qed
qed simp

lemma dict_ok_set [simp]: "dict_ok d \<Longrightarrow> dict_ok (dict_set k v d)"
proof (induction d)
  case Nil
  then show ?case by (simp add: dict_ok_def)
next
  case (Cons p d)
  then show ?case
    by (cases p) (auto simp: dict_ok_def keys_dict_set)
qed

lemma dict_ok_filter [simp]: "dict_ok d \<Longrightarrow> dict_ok (filter P d)"
  by (auto simp: dict_ok_def distinct_map inj_on_def)

lemma dict_ok_del [simp]: "dict_ok d \<Longrightarrow> dict_ok (dict_del k d)"
  by (simp add: dict_del_def)

lemma dict_ok_Nil [simp]: "dict_ok []"
  by (simp add: dict_ok_def)

lemma map_of_dict_del: "map_of (dict_del k d) = (map_of d)(k := None)"
  by (induction d) (auto simp: dict_del_def)

lemma set_dict_del: "set (dict_del k d) = {p \<in> set d. fst p \<noteq> k}"
  by (auto simp: dict_del_def)

lemma set_dict_set: "dict_ok d \<Longrightarrow> set (dict_set k v d) = insert (k, v) {p \<in> set d. fst p \<noteq> k}"
proof (induction d)
  case Nil
  then show ?case by simp
next
  case (Cons p d)
  obtain k' v' where p: "p = (k', v')" by (cases p)
  with Cons.prems have d: "dict_ok d" and "k' \<notin> fst ` set d" by (auto simp: dict_ok_def)
  then have "\<And>q. q \<in> set d \<Longrightarrow> fst q \<noteq> k'" by auto
  with Cons.IH [OF d] p show ?case by auto
qed

lemma dict_memD: "dict_ok d \<Longrightarrow> (k, v) \<in> set d \<longleftrightarrow> map_of d k = Some v"
  by (simp add: dict_ok_def)

lemma dict_set_new: "k \<notin> fst ` set d \<Longrightarrow> dict_set k v d = d @ [(k, v)]"
  by (induction d) (auto simp: image_iff)

lemma sum_list_dict_del:
  fixes f :: "'k \<times> 'v \<Rightarrow> int"
  assumes "dict_ok d" and "map_of d k = Some v"
  shows "sum_list (map f (dict_del k d)) = sum_list (map f d) - f (k, v)"
  using assms
proof (induction d)
  case Nil
  then show ?case by simp
next
  case (Cons p d)
  obtain k' v' where p: "p = (k', v')" by (cases p)
  from Cons.prems(1) p have d: "dict_ok d" "k' \<notin> fst ` set d" by (auto simp: dict_ok_def)
  show ?case
  proof (cases "k' = k")
    case True
    have "dict_del k d = d" using d(2) True by (force simp: dict_del_def filter_id_conv)
    with p True Cons.prems show ?thesis by (simp add: dict_del_def)
  next
    case False
    with p Cons.IH [OF d(1)] Cons.prems show ?thesis by (simp add: dict_del_def)
  qed
qed

lemma keys_dict_del: "fst ` set (dict_del k d) = fst ` set d - {k}"
  by (auto simp: set_dict_del)

lemma dict_ok_append:
  "dict_ok (d @ e) \<longleftrightarrow> dict_ok d \<and> dict_ok e \<and> fst ` set d \<inter> fst ` set e = {}"
  by (auto simp: dict_ok_def)

lemma map_of_None_keys: "map_of d k = None \<longleftrightarrow> k \<notin> fst ` set d"
  by (induction d) auto

lemma dict_del_simps:
  "dict_del k [] = []"
  "dict_del k ((k', v) # d) = (if k' = k then dict_del k d else (k', v) # dict_del k d)"
  "dict_del k (d @ e) = dict_del k d @ dict_del k e"
  by (simp_all add: dict_del_def)

lemma dict_del_absent: "k \<notin> fst ` set d \<Longrightarrow> dict_del k d = d"
  by (force simp: dict_del_def filter_id_conv)

text \<open>\<open>range(a, b, step)\<close> for a positive step.\<close>

definition py_range :: "int \<Rightarrow> int \<Rightarrow> int \<Rightarrow> int list" where
  "py_range a b step = map (\<lambda>i. a + int i * step) [0..<nat ((b - a + step - 1) div step)]"

text \<open>\<open>xs[i]\<close> for an index that is not negative.\<close>

definition py_index :: "'a list \<Rightarrow> nat \<Rightarrow> 'a result" where
  "py_index xs i = (if i < length xs then Inr (xs ! i) else Inl IndexError)"

text \<open>The results of a list of calls, up to the first that raises; the first answer of a list of
  questions.\<close>

fun those_results :: "'a result list \<Rightarrow> 'a list result" where
  "those_results [] = Inr []"
| "those_results (r # rs) = rbind r (\<lambda>x. rbind (those_results rs) (\<lambda>xs. Inr (x # xs)))"

lemma those_results_Inr: "those_results rs = Inr xs \<longleftrightarrow> rs = map Inr xs"
  by (induction rs arbitrary: xs) (auto simp: rbind_Inr_iff)

fun first_some :: "('a \<Rightarrow> 'b option) \<Rightarrow> 'a list \<Rightarrow> 'b option" where
  "first_some f [] = None"
| "first_some f (x # xs) = (case f x of None \<Rightarrow> first_some f xs | Some y \<Rightarrow> Some y)"

lemma first_some_None: "first_some f xs = None \<longleftrightarrow> (\<forall>x \<in> set xs. f x = None)"
  by (induction xs) (auto split: option.splits)

lemma first_some_Some: "first_some f xs = Some y \<Longrightarrow> \<exists>x \<in> set xs. f x = Some y"
  by (induction xs) (auto split: option.splits)

end
