(* ===== verification/GreedyVerify.thy ===== *)
theory GreedyVerify
  imports Prelude
begin

text \<open>
  Greedy prefix selection, \<open>speculative-decoding/harness/greedy_verify.py\<close>: the target model's
  argmax rows decide how many draft tokens of a block are accepted and which token the target
  emits after them. The rows consume the block \<open>[seed, *proposals]\<close>; row \<open>i\<close> predicts the
  successor of the block's first \<open>i + 1\<close> tokens.
\<close>

record decision =
  d_emitted :: "int list"
  d_accepted :: nat
  d_state_rows :: nat
  d_next_input :: "int option"
  d_finished :: bool

text \<open>The loop over \<open>zip(proposals, target_argmax)\<close>: how many proposals agree with their
  prediction up to the first mismatch, and whether it stopped at an accepted terminal token.\<close>

fun accept_scan :: "int list \<Rightarrow> (int \<times> int) list \<Rightarrow> nat \<Rightarrow> nat \<times> bool" where
  "accept_scan eos [] acc = (acc, False)"
| "accept_scan eos ((proposed, predicted) # rest) acc =
     (if proposed \<noteq> predicted then (acc, False)
      else if proposed \<in> set eos then (Suc acc, True)
      else accept_scan eos rest (Suc acc))"

definition tokens_ok :: "int \<Rightarrow> int list \<Rightarrow> bool" where
  "tokens_ok vocab ts = list_all (\<lambda>t. 0 \<le> t \<and> t < vocab) ts"

definition select_prefix ::
  "int list \<Rightarrow> int list \<Rightarrow> int \<Rightarrow> int list \<Rightarrow> int \<Rightarrow> decision result" where
  "select_prefix proposals target_argmax vocab_size eos_ids max_proposals =
     (if vocab_size < 1 then Inl ValueError
      else if max_proposals \<noteq> 15 \<and> max_proposals \<noteq> 31 then Inl ValueError
      else if int (length proposals) > max_proposals
              \<or> length target_argmax \<noteq> length proposals + 1 then Inl ValueError
      else if \<not> tokens_ok vocab_size (proposals @ target_argmax @ eos_ids) then Inl ValueError
      else
        (let (accepted, eos) = accept_scan eos_ids (zip proposals target_argmax) 0 in
         if eos then
           Inr \<lparr>d_emitted = take accepted proposals, d_accepted = accepted,
                d_state_rows = accepted, d_next_input = None, d_finished = True\<rparr>
         else
           (let correction = target_argmax ! accepted;
                finished = correction \<in> set eos_ids in
            Inr \<lparr>d_emitted = take accepted proposals @ [correction], d_accepted = accepted,
                 d_state_rows = accepted + 1,
                 d_next_input = (if finished then None else Some correction),
                 d_finished = finished\<rparr>)))"

subsection \<open>The scan\<close>

lemma tokens_ok_simps [simp]:
  "tokens_ok v []"
  "tokens_ok v (t # ts) \<longleftrightarrow> 0 \<le> t \<and> t < v \<and> tokens_ok v ts"
  "tokens_ok v (ts @ us) \<longleftrightarrow> tokens_ok v ts \<and> tokens_ok v us"
  by (simp_all add: tokens_ok_def)

lemma tokens_ok_subset: "tokens_ok v ts \<Longrightarrow> set us \<subseteq> set ts \<Longrightarrow> tokens_ok v us"
  by (auto simp: tokens_ok_def list_all_iff)

lemma tokens_ok_take [simp]: "tokens_ok v ts \<Longrightarrow> tokens_ok v (take n ts)"
  by (rule tokens_ok_subset) (auto dest: in_set_takeD)

lemma tokens_ok_drop [simp]: "tokens_ok v ts \<Longrightarrow> tokens_ok v (drop n ts)"
  by (rule tokens_ok_subset) (auto dest: in_set_dropD)

lemma tokens_ok_nth: "tokens_ok v ts \<Longrightarrow> i < length ts \<Longrightarrow> 0 \<le> ts ! i \<and> ts ! i < v"
  by (simp add: tokens_ok_def list_all_length)

lemma tokens_ok_upd: "tokens_ok v (last_n n ts)" if "tokens_ok v ts"
  using that by (simp add: last_n_def)

text \<open>The scan counts the common prefix of the proposals and the predictions, cut after the first
  terminal token in it.\<close>

lemma accept_scan_ge: "accept_scan eos zs acc = (n, e) \<Longrightarrow> acc \<le> n"
  by (induction eos zs acc rule: accept_scan.induct) (auto split: if_splits)

lemma accept_scan_spec:
  assumes "accept_scan eos (zip ps ts) acc = (acc + n, e)"
  shows "n \<le> length ps \<and> n \<le> length ts
    \<and> (\<forall>i < n. ps ! i = ts ! i)
    \<and> (e \<longrightarrow> 0 < n \<and> ps ! (n - 1) \<in> set eos)
    \<and> (\<forall>i < (if e then n - 1 else n). ps ! i \<notin> set eos)
    \<and> (\<not> e \<longrightarrow> n < length ps \<longrightarrow> n < length ts \<longrightarrow> ps ! n \<noteq> ts ! n)"
  using assms
proof (induction ps arbitrary: ts acc n)
  case Nil
  then show ?case by simp
next
  case (Cons p ps)
  show ?case
  proof (cases ts)
    case Nil
    with Cons.prems show ?thesis by simp
  next
    case (Cons t ts')
    show ?thesis
    proof (cases "p \<noteq> t \<or> p \<in> set eos")
      case True
      with Cons Cons.prems show ?thesis by (auto split: if_splits)
    next
      case False
      with Cons Cons.prems have scan: "accept_scan eos (zip ps ts') (Suc acc) = (acc + n, e)" by simp
      then have "Suc acc \<le> acc + n" by (rule accept_scan_ge)
      then obtain k where k: "n = Suc k" by (cases n) auto
      with scan Cons.IH [of ts' "Suc acc" k] False Cons show ?thesis
        by (auto simp: nth_Cons' split: if_splits)
    qed
  qed
qed

subsection \<open>The decision\<close>

lemma select_prefix_InrE:
  assumes "select_prefix ps ts v eos m = Inr d"
  obtains (eos) n where "accept_scan eos (zip ps ts) 0 = (n, True)"
      and "d = \<lparr>d_emitted = take n ps, d_accepted = n, d_state_rows = n, d_next_input = None,
                d_finished = True\<rparr>"
      and "length ts = length ps + 1" and "tokens_ok v (ps @ ts @ eos)"
      and "int (length ps) \<le> m"
    | (row) n where "accept_scan eos (zip ps ts) 0 = (n, False)"
      and "d = \<lparr>d_emitted = take n ps @ [ts ! n], d_accepted = n, d_state_rows = n + 1,
                d_next_input = (if ts ! n \<in> set eos then None else Some (ts ! n)),
                d_finished = (ts ! n \<in> set eos)\<rparr>"
      and "length ts = length ps + 1" and "tokens_ok v (ps @ ts @ eos)"
      and "int (length ps) \<le> m"
proof (cases "accept_scan eos (zip ps ts) 0")
  case (Pair n e)
  show ?thesis
  proof (cases e)
    case True
    with assms Pair show ?thesis
      by (intro eos) (auto simp: select_prefix_def Let_def split: if_splits)
  next
    case False
    with assms Pair show ?thesis
      by (intro row) (auto simp: select_prefix_def Let_def split: if_splits)
  qed
qed

text \<open>Where the decision returns: every refusal is one of the four guards.\<close>

lemma select_prefix_returns_iff:
  "returned (select_prefix ps ts v eos m) \<longleftrightarrow>
     1 \<le> v \<and> (m = 15 \<or> m = 31) \<and> int (length ps) \<le> m \<and> length ts = length ps + 1
     \<and> tokens_ok v (ps @ ts @ eos)"
  by (auto simp: select_prefix_def Let_def split: prod.splits)

lemma select_prefix_bounds:
  assumes "select_prefix ps ts v eos m = Inr d"
  shows "1 \<le> length (d_emitted d)" and "length (d_emitted d) \<le> length ps + 1"
    and "d_state_rows d = length (d_emitted d)" and "d_accepted d \<le> length ps"
    and "tokens_ok v (d_emitted d)"
    and "d_next_input d = (if d_finished d then None else Some (last (d_emitted d)))"
    and "d_finished d \<longleftrightarrow> last (d_emitted d) \<in> set eos"
    and "\<forall>t \<in> set (butlast (d_emitted d)). t \<notin> set eos"
proof -
  have "1 \<le> length (d_emitted d) \<and> length (d_emitted d) \<le> length ps + 1
    \<and> d_state_rows d = length (d_emitted d) \<and> d_accepted d \<le> length ps
    \<and> tokens_ok v (d_emitted d)
    \<and> d_next_input d = (if d_finished d then None else Some (last (d_emitted d)))
    \<and> (d_finished d \<longleftrightarrow> last (d_emitted d) \<in> set eos)
    \<and> (\<forall>t \<in> set (butlast (d_emitted d)). t \<notin> set eos)"
    using assms
  proof (cases rule: select_prefix_InrE)
    case (eos n)
    with accept_scan_spec [of eos ps ts 0 n True] show ?thesis
      by (auto simp: last_take_nth butlast_take ball_take_nth)
  next
    case (row n)
    with accept_scan_spec [of eos ps ts 0 n False] show ?thesis
      by (auto simp: tokens_ok_nth butlast_append ball_take_nth)
  qed
  then show "1 \<le> length (d_emitted d)" "length (d_emitted d) \<le> length ps + 1"
    "d_state_rows d = length (d_emitted d)" "d_accepted d \<le> length ps"
    "tokens_ok v (d_emitted d)"
    "d_next_input d = (if d_finished d then None else Some (last (d_emitted d)))"
    "d_finished d \<longleftrightarrow> last (d_emitted d) \<in> set eos"
    "\<forall>t \<in> set (butlast (d_emitted d)). t \<notin> set eos"
    by auto
qed

lemma select_prefix_accepted:
  "select_prefix ps ts v eos m = Inr d \<Longrightarrow>
     d_accepted d \<le> length (d_emitted d) \<and> length (d_emitted d) \<le> d_accepted d + 1"
  by (erule select_prefix_InrE)
    (use accept_scan_spec [of eos ps ts 0] in \<open>force simp: min_def\<close>)+

subsection \<open>Serial greedy decoding, and the rows of a verified block\<close>

text \<open>
  The target model is a function \<open>f\<close> from a context to the argmax of its next-token scores; it
  is not code of the repository, so it stays a parameter. \<open>serial\<close> is what decoding one token at
  a time emits: at most \<open>n\<close> tokens, stopping at the first terminal one. \<open>target_rows\<close> is what one
  forward pass over a block predicts: row \<open>i\<close> sees the context and the block's first \<open>i + 1\<close> tokens.
\<close>

fun serial :: "(int list \<Rightarrow> int) \<Rightarrow> int list \<Rightarrow> int list \<Rightarrow> nat \<Rightarrow> int list" where
  "serial f eos ctx 0 = []"
| "serial f eos ctx (Suc n) =
     (let t = f ctx in t # (if t \<in> set eos then [] else serial f eos (ctx @ [t]) n))"

definition target_rows :: "(int list \<Rightarrow> int) \<Rightarrow> int list \<Rightarrow> int list \<Rightarrow> int list" where
  "target_rows f ctx block = map (\<lambda>i. f (ctx @ take (Suc i) block)) [0..<length block]"

lemma length_target_rows [simp]: "length (target_rows f ctx block) = length block"
  by (simp add: target_rows_def)

lemma nth_target_rows:
  "i < length block \<Longrightarrow> target_rows f ctx block ! i = f (ctx @ take (Suc i) block)"
  by (simp add: target_rows_def)

lemma length_serial: "length (serial f eos ctx n) \<le> n"
  by (induction n arbitrary: ctx) (auto simp: Let_def)

text \<open>A list is the serial continuation of a context as soon as each of its tokens is the target's
  choice after the ones before it, and none but the last is terminal.\<close>

lemma serial_eqI:
  assumes "\<And>i. i < length xs \<Longrightarrow> xs ! i = f (ctx @ take i xs)"
    and "\<forall>x \<in> set (butlast xs). x \<notin> set eos"
  shows "serial f eos ctx (length xs) = xs"
  using assms
proof (induction xs arbitrary: ctx)
  case Nil
  then show ?case by simp
next
  case (Cons x xs)
  have x: "f ctx = x" using Cons.prems(1) [of 0] by simp
  show ?case
  proof (cases xs)
    case Nil
    with x show ?thesis by (simp add: Let_def)
  next
    case (Cons y ys)
    have "xs ! i = f ((ctx @ [x]) @ take i xs)" if "i < length xs" for i
      using Cons.prems(1) [of "Suc i"] that by simp
    moreover have "\<forall>x \<in> set (butlast xs). x \<notin> set eos"
      using Cons.prems(2) Cons by auto
    ultimately have "serial f eos (ctx @ [x]) (length xs) = xs" by (rule Cons.IH)
    moreover have "x \<notin> set eos" using Cons.prems(2) Cons by simp
    ultimately show ?thesis using x by (simp add: Let_def)
  qed
qed

lemma serial_append:
  assumes "serial f eos ctx (length xs) = xs" and "\<forall>x \<in> set xs. x \<notin> set eos"
    and "serial f eos (ctx @ xs) (length ys) = ys"
  shows "serial f eos ctx (length (xs @ ys)) = xs @ ys"
  using assms
proof (induction xs arbitrary: ctx)
  case Nil
  then show ?case by simp
next
  case (Cons x xs)
  then show ?case by (auto simp: Let_def)
qed

lemma serial_extend:
  assumes "xs \<noteq> []" and "last xs \<in> set eos" and "serial f eos ctx (length xs) = xs"
    and "length xs \<le> n"
  shows "serial f eos ctx n = xs"
  using assms
proof (induction xs arbitrary: ctx n)
  case Nil
  then show ?case by simp
next
  case (Cons x xs)
  from Cons.prems obtain m where m: "n = Suc m" by (cases n) auto
  show ?case
  proof (cases "xs = []")
    case True
    with Cons.prems m show ?thesis by (auto simp: Let_def)
  next
    case False
    with Cons.prems m Cons.IH [of "ctx @ [x]" m] show ?thesis
      by (auto simp: Let_def split: if_splits)
  qed
qed

text \<open>What the decision emits for a block the target really evaluated is what serial decoding
  emits after the block's seed.\<close>

lemma select_prefix_serial:
  assumes sel: "select_prefix ps (take (Suc (length ps)) (target_rows f ctx (seed # ps @ qs))) v eos m
      = Inr d"
  shows "serial f eos (ctx @ [seed]) (length (d_emitted d)) = d_emitted d"
proof (rule serial_eqI)
  let ?ts = "take (Suc (length ps)) (target_rows f ctx (seed # ps @ qs))"
  have row_eq: "?ts ! i = f (ctx @ seed # take i ps)" if "i \<le> length ps" for i
    using that by (simp add: nth_target_rows)
  have acc: "n \<le> length ps \<and> (\<forall>i < n. ps ! i = f (ctx @ seed # take i ps))"
    if "accept_scan eos (zip ps ?ts) 0 = (n, e)" for n e
    using accept_scan_spec [of eos ps ?ts 0 n e] that row_eq by simp
  show "d_emitted d ! i = f ((ctx @ [seed]) @ take i (d_emitted d))" if i: "i < length (d_emitted d)" for i
    using sel
  proof (cases rule: select_prefix_InrE)
    case (eos n)
    with i acc [OF eos(1)] show ?thesis by (simp add: min_absorb2)
  next
    case (row n)
    note n = acc [OF row(1)]
    show ?thesis
    proof (cases "i < n")
      case True
      with row n show ?thesis by (simp add: nth_append)
    next
      case False
      with i row n have "i = n" by simp
      with row(2) n row_eq [of n] show ?thesis by (simp add: nth_append)
    qed
  qed
  show "\<forall>x \<in> set (butlast (d_emitted d)). x \<notin> set eos"
    using select_prefix_bounds(8) [OF sel] .
qed

end
