(* ===== verification/LookupDraft.thy ===== *)
theory LookupDraft
  imports GreedyVerify
begin

text \<open>
  Request-local prompt lookup, \<open>speculative-decoding/harness/lookup_draft.py\<close>: the draft after a
  history is what followed the longest earlier occurrence of the history's suffix. The record is
  the class's object; the check \<open>request_id != self.request_id\<close> is \<open>lookup_owner\<close>.
\<close>

record lookup =
  l_request_id :: string
  l_history_limit :: int
  l_match_limit :: int
  l_max_proposals :: int
  l_prefer_full_suffix :: bool
  l_closed :: bool
  l_history :: "int list"

definition lookup_owner :: "lookup \<Rightarrow> string \<Rightarrow> bool" where
  "lookup_owner l request_id \<longleftrightarrow> \<not> l_closed l \<and> request_id = l_request_id l"

definition lookup_commit :: "lookup \<Rightarrow> string \<Rightarrow> int list \<Rightarrow> lookup result" where
  "lookup_commit l request_id accepted_tokens =
     (if \<not> lookup_owner l request_id then Inl ValueError
      else if \<exists>t \<in> set accepted_tokens. t < 0 then Inl ValueError
      else Inr (l\<lparr>l_history := last_n (l_history_limit l) (l_history l @ accepted_tokens)\<rparr>))"

definition lookup_init ::
  "string \<Rightarrow> int list \<Rightarrow> int \<Rightarrow> int \<Rightarrow> int \<Rightarrow> bool \<Rightarrow> lookup result" where
  "lookup_init request_id prompt history_limit match_limit max_proposals prefer_full_suffix =
     (if request_id = [] then Inl ValueError
      else if history_limit < 2 then Inl ValueError
      else if match_limit < 1 then Inl ValueError
      else if max_proposals \<noteq> 15 \<and> max_proposals \<noteq> 31 then Inl ValueError
      else lookup_commit
        \<lparr>l_request_id = request_id, l_history_limit = history_limit,
         l_match_limit = match_limit, l_max_proposals = max_proposals,
         l_prefer_full_suffix = prefer_full_suffix, l_closed = False, l_history = []\<rparr>
        request_id prompt)"

text \<open>The inner \<open>while\<close>: how far the history's suffix agrees with the one ending at \<open>e\<close>, up to
  \<open>limit\<close>. \<open>history[-1 - length]\<close> is counted from the end.\<close>

function match_length :: "int list \<Rightarrow> nat \<Rightarrow> nat \<Rightarrow> nat \<Rightarrow> nat" where
  "match_length h limit e len =
     (if len < min limit (e + 1) \<and> h ! (e - len) = h ! (length h - 1 - len)
      then match_length h limit e (len + 1) else len)"
  by pat_completeness auto
termination
  by (relation "measure (\<lambda>(h, limit, e, len). limit - len)") auto

declare match_length.simps [simp del]

text \<open>The outer loop, for \<open>end\<close> from \<open>k - 1\<close> down to 0, with the best length and end so far.\<close>

fun lookup_scan ::
  "int list \<Rightarrow> bool \<Rightarrow> nat \<Rightarrow> nat \<Rightarrow> nat \<Rightarrow> nat \<times> nat option \<Rightarrow> nat \<times> nat option" where
  "lookup_scan h pfs count limit 0 best = best"
| "lookup_scan h pfs count limit (Suc e) (best_length, best_end) =
     (if h ! e \<noteq> h ! (length h - 1) then lookup_scan h pfs count limit e (best_length, best_end)
      else
        (let len = match_length h limit e 1;
             longer_suffix = (pfs \<and> len = best_length \<and>
               (case best_end of None \<Rightarrow> False
                | Some b \<Rightarrow> min count (length h - e - 1) > min count (length h - b - 1)))
         in if len > best_length \<or> longer_suffix then
              (if len = limit \<and> (\<not> pfs \<or> length h - e - 1 \<ge> count) then (len, Some e)
               else lookup_scan h pfs count limit e (len, Some e))
            else lookup_scan h pfs count limit e (best_length, best_end)))"

definition propose_with_match :: "lookup \<Rightarrow> string \<Rightarrow> int \<Rightarrow> (int list \<times> nat) result" where
  "propose_with_match l request_id count =
     (if \<not> lookup_owner l request_id then Inl ValueError
      else if \<not> (1 \<le> count \<and> count \<le> l_max_proposals l) then Inl ValueError
      else
        (let h = l_history l in
         if length h < 2 then Inr ([], 0)
         else
           (let limit = nat (min (l_match_limit l) (int (length h) - 1)) in
            case lookup_scan h (l_prefer_full_suffix l) (nat count) limit (length h - 1) (0, None) of
              (best_length, None) \<Rightarrow> Inr ([], 0)
            | (best_length, Some best_end) \<Rightarrow>
                Inr (slice (best_end + 1) (best_end + 1 + nat count) h, best_length))))"

definition lookup_propose :: "lookup \<Rightarrow> string \<Rightarrow> int \<Rightarrow> int list result" where
  "lookup_propose l request_id count =
     rbind (propose_with_match l request_id count) (\<lambda>(tokens, _). Inr tokens)"

definition lookup_close :: "lookup \<Rightarrow> string \<Rightarrow> lookup result" where
  "lookup_close l request_id =
     (if \<not> lookup_owner l request_id then Inl ValueError
      else Inr (l\<lparr>l_history := [], l_closed := True\<rparr>))"

subsection \<open>The match length\<close>

text \<open>\<open>suffix_match h e len\<close>: the \<open>len\<close> tokens ending at \<open>e\<close> are the history's last \<open>len\<close>.\<close>

definition suffix_match :: "int list \<Rightarrow> nat \<Rightarrow> nat \<Rightarrow> bool" where
  "suffix_match h e len \<longleftrightarrow> len \<le> e + 1 \<and> (\<forall>i < len. h ! (e - i) = h ! (length h - 1 - i))"

lemma suffix_match_le: "suffix_match h e n \<Longrightarrow> m \<le> n \<Longrightarrow> suffix_match h e m"
  by (auto simp: suffix_match_def)

lemma suffix_match_Suc:
  "suffix_match h e (Suc n) \<longleftrightarrow>
     suffix_match h e n \<and> n < e + 1 \<and> h ! (e - n) = h ! (length h - 1 - n)"
  by (auto simp: suffix_match_def less_Suc_eq)

lemma match_length_max:
  assumes "suffix_match h e len" and "len \<le> limit"
  shows "suffix_match h e (match_length h limit e len) \<and> len \<le> match_length h limit e len
    \<and> match_length h limit e len \<le> limit
    \<and> (\<forall>n \<le> limit. suffix_match h e n \<longrightarrow> n \<le> match_length h limit e len)"
  using assms
proof (induction h limit e len rule: match_length.induct)
  case (1 h limit e len)
  show ?case
  proof (cases "len < min limit (e + 1) \<and> h ! (e - len) = h ! (length h - 1 - len)")
    case True
    with 1 have "suffix_match h e (Suc len)" by (simp add: suffix_match_Suc)
    with 1 True show ?thesis by (simp add: match_length.simps [of h limit e len])
  next
    case False
    have "n \<le> len" if n: "n \<le> limit" "suffix_match h e n" for n
    proof (rule ccontr)
      assume "\<not> n \<le> len"
      with n have "suffix_match h e (Suc len)" by (auto intro: suffix_match_le)
      with False n \<open>\<not> n \<le> len\<close> show False by (auto simp: suffix_match_Suc)
    qed
    with 1 False show ?thesis by (auto simp: match_length.simps [of h limit e len])
  qed
qed

text \<open>The longest match ending at \<open>e\<close>, 0 where the last token does not occur there.\<close>

definition best_at :: "int list \<Rightarrow> nat \<Rightarrow> nat \<Rightarrow> nat" where
  "best_at h limit e = (if h ! e = h ! (length h - 1) then match_length h limit e 1 else 0)"

lemma best_at_max:
  assumes "1 \<le> limit"
  shows "suffix_match h e (best_at h limit e) \<and> best_at h limit e \<le> limit
    \<and> (\<forall>n \<le> limit. suffix_match h e n \<longrightarrow> n \<le> best_at h limit e)
    \<and> (best_at h limit e = 0 \<longleftrightarrow> h ! e \<noteq> h ! (length h - 1))"
proof (cases "h ! e = h ! (length h - 1)")
  case True
  then have "suffix_match h e 1" by (simp add: suffix_match_def)
  from match_length_max [OF this assms] True show ?thesis
    by (auto simp: best_at_def)
next
  case False
  have "n = 0" if "suffix_match h e n" for n
    using that False by (cases n) (auto simp: suffix_match_def)
  with False show ?thesis by (auto simp: best_at_def suffix_match_def)
qed

subsection \<open>The scan finds a longest match\<close>

text \<open>\<open>best_from h limit pfs count k best\<close>: \<open>best\<close> is the scan's choice among the ends from \<open>k\<close> up
  to the last but one. Among the longest matches the code keeps the latest, or, with
  \<open>prefer_full_suffix\<close>, one with the most tokens after it (up to \<open>count\<close>).\<close>

definition better :: "int list \<Rightarrow> bool \<Rightarrow> nat \<Rightarrow> nat \<Rightarrow> nat \<Rightarrow> bool" where
  "better h pfs count b e =
     (if pfs then min count (length h - e - 1) \<le> min count (length h - b - 1) else e \<le> b)"

definition best_from ::
  "int list \<Rightarrow> nat \<Rightarrow> bool \<Rightarrow> nat \<Rightarrow> nat \<Rightarrow> nat \<times> nat option \<Rightarrow> bool" where
  "best_from h limit pfs count k best =
     (case best of
        (bl, None) \<Rightarrow> bl = 0 \<and> (\<forall>e. k \<le> e \<and> e < length h - 1 \<longrightarrow> best_at h limit e = 0)
      | (bl, Some b) \<Rightarrow> k \<le> b \<and> b < length h - 1 \<and> bl = best_at h limit b \<and> 1 \<le> bl
          \<and> (\<forall>e. k \<le> e \<and> e < length h - 1 \<longrightarrow> best_at h limit e \<le> bl
               \<and> (best_at h limit e = bl \<longrightarrow> better h pfs count b e)))"

lemma ends_from_Suc:
  "(\<forall>e. k \<le> e \<and> e < n \<longrightarrow> P e) \<longleftrightarrow> (k < n \<longrightarrow> P k) \<and> (\<forall>e. Suc k \<le> e \<and> e < n \<longrightarrow> P e)"
  for k n :: nat
  by (metis Suc_le_eq le_eq_less_or_eq le_less_trans nat_less_le)

lemma best_from_cong:
  assumes "best_from h limit pfs count (Suc k) (bl, be)" and "k < length h - 1"
    and "best_at h limit k < bl \<or> best_at h limit k = 0
      \<or> (best_at h limit k = bl \<and> (\<exists>b. be = Some b \<and> better h pfs count b k))"
  shows "best_from h limit pfs count k (bl, be)"
proof (cases be)
  case None
  with assms show ?thesis
    by (auto simp: best_from_def ends_from_Suc [of k])
next
  case (Some b)
  with assms show ?thesis
    by (auto simp: best_from_def ends_from_Suc [of k])
qed

lemma best_from_take:
  assumes "best_from h limit pfs count (Suc k) (bl, be)" and "k < length h - 1"
    and "best_at h limit k = len" and "1 \<le> len"
    and "bl < len \<or> (bl = len \<and> pfs \<and> (\<exists>b. be = Some b
           \<and> min count (length h - b - 1) < min count (length h - k - 1)))"
  shows "best_from h limit pfs count k (len, Some k)"
proof -
  have "best_at h limit e \<le> len \<and> (best_at h limit e = len \<longrightarrow> better h pfs count k e)"
    if "k \<le> e" "e < length h - 1" for e
  proof (cases "e = k")
    case True
    with assms show ?thesis by (simp add: better_def)
  next
    case False
    with that have "Suc k \<le> e" by simp
    with assms that show ?thesis
      by (cases be) (fastforce simp: best_from_def better_def)+
  qed
  with assms show ?thesis by (simp add: best_from_def)
qed

lemma lookup_scan_best:
  assumes "best_from h limit pfs count k best" and "1 \<le> limit" and "k \<le> length h - 1"
  shows "best_from h limit pfs count 0 (lookup_scan h pfs count limit k best)"
  using assms
proof (induction h pfs count limit k best rule: lookup_scan.induct)
  case (1 h pfs count limit best)
  then show ?case by simp
next
  case (2 h pfs count limit e bl be)
  define len where "len = best_at h limit e"
  note max = best_at_max [OF "2.prems"(2)] and pre = "2.prems"(1)
  have e: "e < length h - 1" using "2.prems"(3) by simp
  show ?case
  proof (cases "h ! e = h ! (length h - 1)")
    case False
    then have "best_from h limit pfs count e (bl, be)"
      using best_from_cong [OF pre e] max by (auto simp: best_at_def)
    with False "2.IH"(1) "2.prems" show ?thesis by simp
  next
    case True
    then have ml: "match_length h limit e 1 = len" by (simp add: len_def best_at_def)
    have "1 \<le> len" using max True len_def by (metis One_nat_def Suc_leI not_gr_zero)
    let ?longer = "pfs \<and> len = bl \<and> (case be of None \<Rightarrow> False
        | Some b \<Rightarrow> min count (length h - e - 1) > min count (length h - b - 1))"
    show ?thesis
    proof (cases "len > bl \<or> ?longer")
      case upd: True
      have from_e: "best_from h limit pfs count e (len, Some e)"
        using upd \<open>1 \<le> len\<close> e
        by (intro best_from_take [OF pre]) (auto simp: len_def split: option.splits)
      show ?thesis
      proof (cases "len = limit \<and> (\<not> pfs \<or> length h - e - 1 \<ge> count)")
        case True
        have "best_from h limit pfs count 0 (len, Some e)"
          using from_e True max
          by (auto simp: best_from_def better_def) (metis nat_le_linear)+
        with \<open>h ! e = _\<close> upd True ml show ?thesis by (simp add: Let_def)
      next
        case False
        with \<open>h ! e = _\<close> upd ml from_e "2.IH"(2) "2.prems" show ?thesis by (auto simp: Let_def)
      qed
    next
      case keep: False
      have "best_from h limit pfs count e (bl, be)"
      proof (rule best_from_cong [OF pre e])
        show "best_at h limit e < bl \<or> best_at h limit e = 0 \<or> (best_at h limit e = bl
            \<and> (\<exists>b. be = Some b \<and> better h pfs count b e))"
          using keep pre \<open>1 \<le> len\<close> unfolding len_def [symmetric]
          by (cases be) (auto simp: best_from_def better_def not_less)
      qed
      with True keep ml "2.IH"(3) "2.prems" show ?thesis by (auto simp: Let_def)
    qed
  qed
qed

subsection \<open>Well-formedness, and what every operation keeps of it\<close>

definition lookup_wf :: "lookup \<Rightarrow> bool" where
  "lookup_wf l \<longleftrightarrow> 2 \<le> l_history_limit l \<and> 1 \<le> l_match_limit l
     \<and> (l_max_proposals l = 15 \<or> l_max_proposals l = 31)
     \<and> int (length (l_history l)) \<le> l_history_limit l \<and> (\<forall>t \<in> set (l_history l). 0 \<le> t)"

lemma lookup_commit_wf: "lookup_commit l r ts = Inr l' \<Longrightarrow> lookup_wf l \<Longrightarrow> lookup_wf l'"
  using set_last_n [of "l_history_limit l" "l_history l @ ts"]
  by (fastforce simp: lookup_commit_def lookup_wf_def subset_iff not_less length_last_n split: if_splits)

lemma lookup_init_wf: "lookup_init r p hl ml mp pfs = Inr l \<Longrightarrow> lookup_wf l"
  using set_last_n [of hl p]
  by (auto simp: lookup_init_def lookup_commit_def lookup_wf_def subset_iff not_less length_last_n split: if_splits)

lemma lookup_close_wf: "lookup_close l r = Inr l' \<Longrightarrow> lookup_wf l \<Longrightarrow> lookup_wf l'"
  by (auto simp: lookup_close_def lookup_wf_def split: if_splits)

lemma lookup_commit_history:
  "lookup_commit l r ts = Inr l' \<Longrightarrow>
     l_history l' = last_n (l_history_limit l) (l_history l @ ts)
     \<and> l_history_limit l' = l_history_limit l \<and> l_max_proposals l' = l_max_proposals l
     \<and> l_request_id l' = l_request_id l \<and> l_closed l' = l_closed l \<and> r = l_request_id l"
  by (auto simp: lookup_commit_def lookup_owner_def split: if_splits)

text \<open>After a close every call is refused: no draft leaks out of a finished request.\<close>

lemma lookup_closed_refuses:
  assumes "lookup_close l r = Inr l'"
  shows "propose_with_match l' r' n = Inl ValueError" and "lookup_commit l' r' ts = Inl ValueError"
    and "lookup_close l' r' = Inl ValueError" and "l_history l' = []"
  using assms
  by (auto simp: lookup_close_def propose_with_match_def lookup_commit_def lookup_owner_def
      split: if_splits)

subsection \<open>What a proposal is\<close>

text \<open>The scan's limit for a history of at least two tokens.\<close>

abbreviation scan_limit :: "lookup \<Rightarrow> nat" where
  "scan_limit l \<equiv> nat (min (l_match_limit l) (int (length (l_history l)) - 1))"

lemma propose_with_match_cases:
  assumes "propose_with_match l r count = Inr (toks, len)" and "lookup_wf l"
  obtains (none) "toks = []" and "len = 0"
      and "\<forall>e < length (l_history l) - 1. l_history l ! e \<noteq> l_history l ! (length (l_history l) - 1)"
    | (found) b where "b < length (l_history l) - 1" and "1 \<le> len"
      and "toks = slice (b + 1) (b + 1 + nat count) (l_history l)"
      and "best_from (l_history l) (scan_limit l) (l_prefer_full_suffix l) (nat count) 0 (len, Some b)"
proof -
  let ?h = "l_history l" and ?pfs = "l_prefer_full_suffix l"
  show ?thesis
  proof (cases "length ?h < 2")
    case True
    with assms none show ?thesis
      by (auto simp: propose_with_match_def Let_def split: if_splits)
  next
    case False
    with assms(2) have lim: "1 \<le> scan_limit l" by (auto simp: lookup_wf_def)
    have start: "best_from ?h (scan_limit l) ?pfs (nat count) (length ?h - 1) (0, None)"
      by (auto simp: best_from_def)
    obtain bl be where scan:
      "lookup_scan ?h ?pfs (nat count) (scan_limit l) (length ?h - 1) (0, None) = (bl, be)"
      by fastforce
    from lookup_scan_best [OF start lim] scan
    have best: "best_from ?h (scan_limit l) ?pfs (nat count) 0 (bl, be)" by simp
    show ?thesis
    proof (cases be)
      case None
      with assms False scan have "toks = []" "len = 0"
        by (auto simp: propose_with_match_def Let_def split: if_splits)
      moreover have "\<forall>e < length ?h - 1. ?h ! e \<noteq> ?h ! (length ?h - 1)"
        using best None best_at_max [OF lim] by (auto simp: best_from_def)
      ultimately show ?thesis by (rule none)
    next
      case (Some b)
      with assms False scan have "toks = slice (b + 1) (b + 1 + nat count) ?h" "len = bl"
        by (auto simp: propose_with_match_def Let_def split: if_splits)
      with best Some found show ?thesis by (auto simp: best_from_def)
    qed
  qed
qed

lemma propose_with_match_bounds:
  assumes "propose_with_match l r count = Inr (toks, len)" and "lookup_wf l"
  shows "length toks \<le> nat count" and "set toks \<subseteq> set (l_history l)" and "toks = [] \<longleftrightarrow> len = 0"
    and "1 \<le> count \<and> count \<le> l_max_proposals l" and "int len \<le> l_match_limit l"
proof -
  show count: "1 \<le> count \<and> count \<le> l_max_proposals l"
    using assms(1) by (auto simp: propose_with_match_def split: if_splits)
  have "length toks \<le> nat count \<and> set toks \<subseteq> set (l_history l) \<and> (toks = [] \<longleftrightarrow> len = 0)
    \<and> int len \<le> l_match_limit l"
    using assms
  proof (cases rule: propose_with_match_cases)
    case none
    with assms(2) show ?thesis by (auto simp: lookup_wf_def)
  next
    case (found b)
    define limit where "limit = scan_limit l"
    have ml: "1 \<le> l_match_limit l" using assms(2) by (simp add: lookup_wf_def)
    then have lim: "1 \<le> limit" "int limit \<le> l_match_limit l"
      using found(1) by (simp_all add: limit_def)
    have "len = best_at (l_history l) limit b"
      using found(4) by (simp add: best_from_def limit_def)
    then have "len \<le> limit"
      using best_at_max [OF lim(1), of "l_history l" b] by simp
    with lim(2) have "int len \<le> l_match_limit l" by linarith
    moreover have "toks \<noteq> []"
      using count found(1,3) by (auto simp: slice_def)
    ultimately show ?thesis
      using found(2,3) set_slice [of "b + 1" "b + 1 + nat count" "l_history l"]
      by (auto simp: length_slice)
  qed
  then show "length toks \<le> nat count" "set toks \<subseteq> set (l_history l)" "toks = [] \<longleftrightarrow> len = 0"
    "int len \<le> l_match_limit l"
    by auto
qed

lemma propose_with_match_returns:
  "lookup_owner l r \<Longrightarrow> 1 \<le> count \<Longrightarrow> count \<le> l_max_proposals l
    \<Longrightarrow> \<exists>toks len. propose_with_match l r count = Inr (toks, len)"
  by (auto simp: propose_with_match_def Let_def split: prod.splits option.splits)

end
