(* ===== verification/HybridDraft.thy ===== *)
theory HybridDraft
  imports LookupDraft
begin

text \<open>
  Lookup-first draft routing, \<open>speculative-decoding/harness/hybrid_draft.py\<close>. A neural adapter
  is device code given to the class as a callable, so it is a parameter: a function of the request,
  the bounded history and the requested count that returns tokens or raises. \<open>h_neural\<close> is the
  class's dictionary of them.
\<close>

type_synonym adapter = "string \<Rightarrow> int list \<Rightarrow> int \<Rightarrow> int list result"

record proposal =
  p_source :: string
  p_tokens :: "int list"
  p_match_length :: nat

record hybrid =
  h_lookup_enabled :: bool
  h_vocab_size :: int
  h_neural :: "string \<rightharpoonup> adapter"
  h_lookup :: lookup

definition hybrid_validate :: "int \<Rightarrow> int list \<Rightarrow> int list result" where
  "hybrid_validate vocab_size tokens =
     (if \<not> tokens_ok vocab_size tokens then Inl ValueError else Inr tokens)"

text \<open>The constructor; \<open>lookup_options\<close> are the keyword arguments it forwards to the lookup.\<close>

definition hybrid_init ::
  "string \<Rightarrow> int list \<Rightarrow> int \<Rightarrow> (string \<rightharpoonup> adapter) \<Rightarrow> bool \<Rightarrow> int \<Rightarrow> int \<Rightarrow> int \<Rightarrow> bool \<Rightarrow> hybrid result" where
  "hybrid_init request_id prompt vocab_size neural lookup_enabled
     history_limit match_limit max_proposals prefer_full_suffix =
     (if vocab_size < 1 then Inl ValueError
      else if neural [] \<noteq> None \<or> neural ''lookup'' \<noteq> None \<or> neural ''target'' \<noteq> None
        then Inl ValueError
      else
        rbind (hybrid_validate vocab_size prompt) (\<lambda>tokens.
        rbind (lookup_init request_id tokens history_limit match_limit max_proposals
                 prefer_full_suffix) (\<lambda>l.
        Inr \<lparr>h_lookup_enabled = lookup_enabled, h_vocab_size = vocab_size, h_neural = neural,
             h_lookup = l\<rparr>)))"

definition target_proposal :: proposal where
  "target_proposal = \<lparr>p_source = ''target'', p_tokens = [], p_match_length = 0\<rparr>"

definition hybrid_propose ::
  "hybrid \<Rightarrow> string \<Rightarrow> int \<Rightarrow> bool \<Rightarrow> bool \<Rightarrow> string option \<Rightarrow> proposal result" where
  "hybrid_propose h request_id count greedy verifier_ready selected =
     (if \<not> lookup_owner (h_lookup h) request_id then Inl ValueError
      else if \<not> (1 \<le> count \<and> count \<le> l_max_proposals (h_lookup h)) then Inl ValueError
      else if \<not> greedy \<or> \<not> verifier_ready then Inr target_proposal
      else
        rbind (if h_lookup_enabled h then propose_with_match (h_lookup h) request_id count
               else Inr ([], 0)) (\<lambda>(tokens, match_length).
        if tokens \<noteq> [] then
          Inr \<lparr>p_source = ''lookup'', p_tokens = tokens, p_match_length = match_length\<rparr>
        else
          (case Option.bind selected (h_neural h) of
             None \<Rightarrow> Inr target_proposal
           | Some adapter \<Rightarrow>
               rbind (adapter request_id (l_history (h_lookup h)) count) (\<lambda>raw.
               rbind (hybrid_validate (h_vocab_size h) raw) (\<lambda>tokens.
               if int (length tokens) > count then Inl ValueError
               else if tokens \<noteq> [] then
                 Inr \<lparr>p_source = the selected, p_tokens = tokens, p_match_length = 0\<rparr>
               else Inr target_proposal)))))"

definition hybrid_commit_verified :: "hybrid \<Rightarrow> string \<Rightarrow> int list \<Rightarrow> hybrid result" where
  "hybrid_commit_verified h request_id tokens =
     (if \<not> lookup_owner (h_lookup h) request_id then Inl ValueError
      else
        rbind (hybrid_validate (h_vocab_size h) tokens) (\<lambda>tokens.
        rbind (lookup_commit (h_lookup h) request_id tokens) (\<lambda>l.
        Inr (h\<lparr>h_lookup := l\<rparr>))))"

definition hybrid_close :: "hybrid \<Rightarrow> string \<Rightarrow> hybrid result" where
  "hybrid_close h request_id =
     rbind (lookup_close (h_lookup h) request_id) (\<lambda>l.
     Inr (h\<lparr>h_lookup := l, h_neural := Map.empty\<rparr>))"

subsection \<open>The invariant\<close>

definition hybrid_wf :: "hybrid \<Rightarrow> bool" where
  "hybrid_wf h \<longleftrightarrow> 1 \<le> h_vocab_size h \<and> lookup_wf (h_lookup h)
     \<and> tokens_ok (h_vocab_size h) (l_history (h_lookup h))"

lemma hybrid_validate_iff [simp]:
  "hybrid_validate v ts = Inr us \<longleftrightarrow> tokens_ok v ts \<and> us = ts"
  "hybrid_validate v ts = Inl e \<longleftrightarrow> \<not> tokens_ok v ts \<and> e = ValueError"
  by (auto simp: hybrid_validate_def)

lemma tokens_ok_last_n [simp]: "tokens_ok v ts \<Longrightarrow> tokens_ok v (last_n n ts)"
  by (rule tokens_ok_upd)

lemma hybrid_init_wf:
  assumes "hybrid_init r p v neural le hl ml mp pfs = Inr h"
  shows "hybrid_wf h" and "l_history (h_lookup h) = last_n hl p"
    and "l_history_limit (h_lookup h) = hl" and "l_request_id (h_lookup h) = r"
    and "l_max_proposals (h_lookup h) = mp" and "\<not> l_closed (h_lookup h)"
    and "h_vocab_size h = v" and "h_neural h = neural" and "h_lookup_enabled h = le"
  using assms lookup_init_wf [of r p hl ml mp pfs]
  by (auto simp: hybrid_init_def hybrid_wf_def rbind_Inr_iff lookup_init_def lookup_commit_def
      split: if_splits)

lemma hybrid_commit_verified_Inr:
  assumes "hybrid_commit_verified h r ts = Inr h'"
  shows "tokens_ok (h_vocab_size h) ts" and "h_vocab_size h' = h_vocab_size h"
    and "h_neural h' = h_neural h" and "h_lookup_enabled h' = h_lookup_enabled h"
    and "l_history (h_lookup h') = last_n (l_history_limit (h_lookup h)) (l_history (h_lookup h) @ ts)"
    and "l_history_limit (h_lookup h') = l_history_limit (h_lookup h)"
    and "l_max_proposals (h_lookup h') = l_max_proposals (h_lookup h)"
    and "l_request_id (h_lookup h') = l_request_id (h_lookup h)"
    and "l_closed (h_lookup h') = l_closed (h_lookup h)"
    and "hybrid_wf h \<Longrightarrow> hybrid_wf h'"
  using assms
  by (auto simp: hybrid_commit_verified_def hybrid_wf_def rbind_Inr_iff lookup_commit_history
      lookup_commit_wf split: if_splits)

lemma hybrid_commit_verified_returns:
  assumes "lookup_owner (h_lookup h) r" and "tokens_ok (h_vocab_size h) ts"
  shows "\<exists>h'. hybrid_commit_verified h r ts = Inr h'"
proof -
  have "\<not> t < 0" if "t \<in> set ts" for t
    using assms(2) that by (auto simp: tokens_ok_def list_all_iff)
  with assms show ?thesis
    by (auto simp: hybrid_commit_verified_def lookup_commit_def hybrid_validate_def)
qed

text \<open>Every proposal fits the requested count and the vocabulary, whatever the adapters return.\<close>

lemma hybrid_propose_bounds:
  assumes "hybrid_propose h r count g vr sel = Inr p" and "hybrid_wf h"
  shows "int (length (p_tokens p)) \<le> count" and "tokens_ok (h_vocab_size h) (p_tokens p)"
    and "p_source p = ''target'' \<Longrightarrow> h_neural h ''target'' = None \<Longrightarrow> p_tokens p = []"
proof -
  have look: "int (length toks) \<le> count \<and> tokens_ok (h_vocab_size h) toks"
    if "propose_with_match (h_lookup h) r count = Inr (toks, len)" for toks len
  proof -
    from assms(2) have wf: "lookup_wf (h_lookup h)"
      and ok: "tokens_ok (h_vocab_size h) (l_history (h_lookup h))"
      by (simp_all add: hybrid_wf_def)
    from propose_with_match_bounds [OF that wf] tokens_ok_subset [OF ok] show ?thesis by auto
  qed
  have "int (length (p_tokens p)) \<le> count \<and> tokens_ok (h_vocab_size h) (p_tokens p)
    \<and> (p_source p = ''target'' \<longrightarrow> h_neural h ''target'' = None \<longrightarrow> p_tokens p = [])"
    using assms(1) look
    by (auto simp: hybrid_propose_def target_proposal_def rbind_Inr_iff bind_eq_Some_conv
        split: if_splits option.splits)
  then show "int (length (p_tokens p)) \<le> count" "tokens_ok (h_vocab_size h) (p_tokens p)"
    "p_source p = ''target'' \<Longrightarrow> h_neural h ''target'' = None \<Longrightarrow> p_tokens p = []"
    by auto
qed

text \<open>Only a neural adapter can make a well-formed proposal fail.\<close>

lemma hybrid_propose_returns:
  assumes "lookup_owner (h_lookup h) r" and "1 \<le> count" and "count \<le> l_max_proposals (h_lookup h)"
    and "Option.bind sel (h_neural h) = None"
  shows "\<exists>p. hybrid_propose h r count g vr sel = Inr p"
  using propose_with_match_returns [OF assms(1-3)] assms
  by (auto simp: hybrid_propose_def)

end
