(* ===== verification/GreedySession.thy ===== *)
theory GreedySession
  imports HybridDraft
begin

text \<open>
  The request-scoped host coordinator of speculative decoding,
  \<open>speculative-decoding/harness/greedy_session.py\<close>: one live block ticket at a time, proposed by
  the drafter, verified by the device, and committed or aborted here.

  A method returns its result and the session after the call, since Python keeps the changes a
  method made before it raised. Python compares tickets by identity (\<open>ticket is not self.pending\<close>);
  \<open>t_ref\<close> is that identity, taken from the counter \<open>s_alloc\<close> at each \<open>BlockTicket(...)\<close>, so a copy
  made elsewhere with the same contents is a different ticket here too.
\<close>

datatype phase = Idle | Preparing | Drafting | Pending | Committing | Failed | Closed

record block_ticket =
  t_ref :: nat
  t_request_id :: string
  t_epoch :: nat
  t_position :: nat
  t_tokens :: "int list"
  t_source :: string
  t_match_length :: nat

record session =
  s_request_id :: string
  s_vocab_size :: int
  s_max_new_tokens :: nat
  s_eos_ids :: "int list"
  s_verifier_rows :: nat
  s_drafter :: hybrid
  s_position :: nat
  s_seed :: "int option"
  s_emitted :: "int list"
  s_finished :: bool
  s_phase :: phase
  s_epoch :: nat
  s_pending :: "block_ticket option"
  s_block_proposals :: nat
  s_accepted_proposals :: nat
  s_committed_blocks :: nat
  s_decode_tokens :: nat
  s_aborted_blocks :: nat
  s_alloc :: nat

text \<open>What a callback given to the session does: return None, return another value, or raise.\<close>

datatype callback = Returns_None | Returns_Value | Raises

definition verifier_widths :: "nat list" where
  "verifier_widths = [1, 2, 4, 8, 16, 32]"

text \<open>The constructor. \<open>HybridDraft\<close> gets the default history and match limits of the lookup.\<close>

definition session_init ::
  "string \<Rightarrow> int list \<Rightarrow> int \<Rightarrow> int \<Rightarrow> int \<Rightarrow> int list \<Rightarrow> (string \<rightharpoonup> adapter) \<Rightarrow> int \<Rightarrow> bool \<Rightarrow> bool
     \<Rightarrow> session result" where
  "session_init request_id prompt seed vocab_size max_new_tokens eos_ids neural verifier_rows
     prefer_full_suffix lookup_enabled =
     (if max_new_tokens < 1 then Inl ValueError
      else if verifier_rows \<noteq> 16 \<and> verifier_rows \<noteq> 32 then Inl ValueError
      else
        rbind (select_prefix [] [seed] vocab_size eos_ids 15) (\<lambda>_.
        rbind (hybrid_init request_id prompt vocab_size neural lookup_enabled 32768 128
                 (verifier_rows - 1) prefer_full_suffix) (\<lambda>drafter.
        rbind (hybrid_commit_verified drafter request_id [seed]) (\<lambda>drafter.
        Inr \<lparr>s_request_id = request_id, s_vocab_size = vocab_size,
             s_max_new_tokens = nat max_new_tokens, s_eos_ids = eos_ids,
             s_verifier_rows = nat verifier_rows, s_drafter = drafter,
             s_position = length prompt, s_seed = Some seed, s_emitted = [seed],
             s_finished = (seed \<in> set eos_ids \<or> max_new_tokens = 1), s_phase = Idle,
             s_epoch = 0, s_pending = None, s_block_proposals = 0, s_accepted_proposals = 0,
             s_committed_blocks = 0, s_decode_tokens = 0, s_aborted_blocks = 0, s_alloc = 0\<rparr>))))"

definition session_owner :: "session \<Rightarrow> string \<Rightarrow> bool" where
  "session_owner s request_id \<longleftrightarrow>
     \<not> (request_id \<noteq> s_request_id s \<or> s_phase s \<in> {Failed, Closed})"

definition begin_preparation :: "session \<Rightarrow> string \<Rightarrow> unit result \<times> session" where
  "begin_preparation s request_id =
     (if \<not> session_owner s request_id then (Inl ValueError, s)
      else if s_phase s \<noteq> Idle \<or> s_pending s \<noteq> None \<or> s_finished s then (Inl ValueError, s)
      else (Inr (), s\<lparr>s_phase := Preparing\<rparr>))"

definition finish_preparation :: "session \<Rightarrow> string \<Rightarrow> unit result \<times> session" where
  "finish_preparation s request_id =
     (if \<not> session_owner s request_id then (Inl ValueError, s)
      else if s_phase s \<noteq> Preparing then (Inl ValueError, s)
      else (Inr (), s\<lparr>s_phase := Idle\<rparr>))"

definition fail_preparation :: "session \<Rightarrow> string \<Rightarrow> unit result \<times> session" where
  "fail_preparation s request_id =
     (if \<not> session_owner s request_id then (Inl ValueError, s)
      else if s_phase s \<noteq> Preparing then (Inl ValueError, s)
      else (Inr (), s\<lparr>s_phase := Failed\<rparr>))"

text \<open>\<open>max(width in (1, ..., 32) if width <= bound)\<close>: None stands for \<open>max\<close> of nothing.\<close>

definition widest :: "int \<Rightarrow> nat option" where
  "widest bound = (case filter (\<lambda>w. int w \<le> bound) verifier_widths of
     [] \<Rightarrow> None | ws \<Rightarrow> Some (last ws))"

text \<open>\<open>remaining\<close> and \<open>limit\<close> are Python integers, so a spent budget is negative here too. The seed
  of an unfinished session is a token (\<open>session_inv\<close> below), so the empty block is never built.\<close>

definition session_propose ::
  "session \<Rightarrow> string \<Rightarrow> int \<Rightarrow> string option \<Rightarrow> block_ticket result \<times> session" where
  "session_propose s request_id max_rows selected =
     (if \<not> session_owner s request_id then (Inl ValueError, s)
      else if s_phase s \<noteq> Idle \<or> s_finished s then (Inl ValueError, s)
      else if max_rows \<notin> int ` set verifier_widths \<or> max_rows > int (s_verifier_rows s)
        then (Inl ValueError, s)
      else
        (let remaining = int (s_max_new_tokens s) - int (length (s_emitted s));
             limit = min max_rows remaining;
             s1 = s\<lparr>s_phase := Drafting\<rparr>
         in case (if limit > 1
                  then hybrid_propose (s_drafter s) request_id (limit - 1) True True selected
                  else Inr target_proposal) of
              Inl e \<Rightarrow> (Inl e, s1\<lparr>s_phase := Failed\<rparr>)
            | Inr proposal \<Rightarrow>
                (let tokens = p_tokens proposal in
                 case widest (min limit (int (length tokens) + 1)) of
                   None \<Rightarrow> (Inl ValueError, s1)
                 | Some rows \<Rightarrow>
                     (let ticket = \<lparr>t_ref = s_alloc s, t_request_id = request_id,
                        t_epoch = s_epoch s + 1, t_position = s_position s,
                        t_tokens = (case s_seed s of None \<Rightarrow> [] | Some t \<Rightarrow> [t]) @ take (rows - 1) tokens,
                        t_source = (if rows > 1 then p_source proposal else ''target''),
                        t_match_length = (if rows > 1 then p_match_length proposal else 0)\<rparr>
                      in (Inr ticket,
                          s1\<lparr>s_epoch := s_epoch s + 1, s_pending := Some ticket,
                             s_phase := Pending, s_alloc := s_alloc s + 1\<rparr>)))))"

definition ticket_live :: "session \<Rightarrow> string \<Rightarrow> block_ticket \<Rightarrow> bool" where
  "ticket_live s request_id ticket \<longleftrightarrow> session_owner s request_id
     \<and> \<not> (s_phase s \<noteq> Pending \<or> s_pending s \<noteq> Some ticket)"

definition session_narrow ::
  "session \<Rightarrow> string \<Rightarrow> block_ticket \<Rightarrow> int \<Rightarrow> block_ticket result \<times> session" where
  "session_narrow s request_id ticket rows =
     (if \<not> ticket_live s request_id ticket then (Inl ValueError, s)
      else if rows \<notin> int ` set verifier_widths \<or> rows > int (length (t_tokens ticket))
        then (Inl ValueError, s)
      else
        (let narrowed = \<lparr>t_ref = s_alloc s, t_request_id = request_id, t_epoch = s_epoch s + 1,
               t_position = t_position ticket, t_tokens = take (nat rows) (t_tokens ticket),
               t_source = (if rows > 1 then t_source ticket else ''target''),
               t_match_length = (if rows > 1 then min (t_match_length ticket) (nat rows - 1) else 0)\<rparr>
         in (Inr narrowed,
             s\<lparr>s_epoch := s_epoch s + 1, s_pending := Some narrowed, s_phase := Pending,
               s_alloc := s_alloc s + 1\<rparr>)))"

definition session_commit ::
  "session \<Rightarrow> string \<Rightarrow> block_ticket \<Rightarrow> int list \<Rightarrow> (nat \<Rightarrow> callback) \<Rightarrow> int option
     \<Rightarrow> decision result \<times> session" where
  "session_commit s request_id ticket predictions publish max_rows =
     (if \<not> ticket_live s request_id ticket then (Inl ValueError, s)
      else if (case max_rows of None \<Rightarrow> False
               | Some m \<Rightarrow> \<not> (1 \<le> m \<and> m \<le> int (length (t_tokens ticket)))) then (Inl ValueError, s)
      else
        (let (proposals, targets) =
           (case max_rows of
              None \<Rightarrow> (tl (t_tokens ticket), predictions)
            | Some m \<Rightarrow> (slice 1 (nat m) (t_tokens ticket), take (nat m) predictions))
         in case select_prefix proposals targets (s_vocab_size s) (s_eos_ids s)
                   (int (s_verifier_rows s) - 1) of
              Inl e \<Rightarrow> (Inl e, s)
            | Inr decision \<Rightarrow>
                (let failed = s\<lparr>s_phase := Failed\<rparr> in
                 case publish (d_state_rows decision) of
                   Raises \<Rightarrow> (Inl CallbackError, failed)
                 | Returns_Value \<Rightarrow> (Inl RuntimeError, failed)
                 | Returns_None \<Rightarrow>
                     (case hybrid_commit_verified (s_drafter s) request_id (d_emitted decision) of
                        Inl e \<Rightarrow> (Inl e, failed)
                      | Inr drafter \<Rightarrow>
                          (Inr decision,
                           s\<lparr>s_drafter := drafter,
                             s_position := s_position s + d_state_rows decision,
                             s_seed := d_next_input decision,
                             s_emitted := s_emitted s @ d_emitted decision,
                             s_block_proposals := s_block_proposals s + (length (t_tokens ticket) - 1),
                             s_accepted_proposals := s_accepted_proposals s + d_accepted decision,
                             s_committed_blocks := s_committed_blocks s + 1,
                             s_decode_tokens := s_decode_tokens s + length (d_emitted decision),
                             s_finished := (d_finished decision
                               \<or> length (s_emitted s @ d_emitted decision) = s_max_new_tokens s),
                             s_pending := None, s_phase := Idle\<rparr>)))))"

definition session_abort ::
  "session \<Rightarrow> string \<Rightarrow> block_ticket \<Rightarrow> (nat \<Rightarrow> callback) \<Rightarrow> unit result \<times> session" where
  "session_abort s request_id ticket restore =
     (if \<not> ticket_live s request_id ticket then (Inl ValueError, s)
      else
        (case restore 0 of
           Raises \<Rightarrow> (Inl CallbackError, s\<lparr>s_phase := Failed\<rparr>)
         | Returns_Value \<Rightarrow> (Inl RuntimeError, s\<lparr>s_phase := Failed\<rparr>)
         | Returns_None \<Rightarrow>
             (Inr (), s\<lparr>s_aborted_blocks := s_aborted_blocks s + 1, s_pending := None,
                        s_phase := Idle\<rparr>)))"

definition fail_verification :: "session \<Rightarrow> string \<Rightarrow> block_ticket \<Rightarrow> unit result \<times> session" where
  "fail_verification s request_id ticket =
     (if \<not> ticket_live s request_id ticket then (Inl ValueError, s)
      else (Inr (), s\<lparr>s_phase := Failed\<rparr>))"

definition session_close :: "session \<Rightarrow> string \<Rightarrow> unit result \<times> session" where
  "session_close s request_id =
     (if request_id \<noteq> s_request_id s \<or> s_phase s \<notin> {Idle, Failed} then (Inl ValueError, s)
      else
        (case hybrid_close (s_drafter s) request_id of
           Inl e \<Rightarrow> (Inl e, s)
         | Inr drafter \<Rightarrow>
             (Inr (), s\<lparr>s_drafter := drafter, s_emitted := [], s_seed := None, s_pending := None,
                        s_phase := Closed\<rparr>)))"

end
