(* ===== verification/SessionInvariant.thy ===== *)
theory SessionInvariant
  imports GreedySession
begin

text \<open>
  The session's invariant, that every method keeps it, and what the sessions that follow the
  target's predictions have emitted: the tokens serial greedy decoding emits.
\<close>

definition ticket_ok :: "session \<Rightarrow> block_ticket \<Rightarrow> bool" where
  "ticket_ok s t \<longleftrightarrow> t_ref t < s_alloc s \<and> t_request_id t = s_request_id s
     \<and> t_epoch t \<le> s_epoch s \<and> t_position t = s_position s \<and> \<not> s_finished s
     \<and> t_tokens t \<noteq> [] \<and> hd (t_tokens t) = last (s_emitted s)
     \<and> length (t_tokens t) \<in> set verifier_widths \<and> length (t_tokens t) \<le> s_verifier_rows s
     \<and> length (s_emitted s) + length (t_tokens t) \<le> s_max_new_tokens s
     \<and> tokens_ok (s_vocab_size s) (t_tokens t)"

definition drafter_ok :: "int list \<Rightarrow> session \<Rightarrow> bool" where
  "drafter_ok prompt s \<longleftrightarrow> hybrid_wf (s_drafter s) \<and> h_vocab_size (s_drafter s) = s_vocab_size s
     \<and> l_request_id (h_lookup (s_drafter s)) = s_request_id s
     \<and> \<not> l_closed (h_lookup (s_drafter s))
     \<and> l_max_proposals (h_lookup (s_drafter s)) = int (s_verifier_rows s) - 1
     \<and> l_history (h_lookup (s_drafter s))
         = last_n (l_history_limit (h_lookup (s_drafter s))) (prompt @ s_emitted s)"

definition counters_ok :: "session \<Rightarrow> bool" where
  "counters_ok s \<longleftrightarrow> s_decode_tokens s + 1 = length (s_emitted s)
     \<and> s_accepted_proposals s \<le> s_block_proposals s
     \<and> s_accepted_proposals s \<le> s_decode_tokens s
     \<and> s_committed_blocks s \<le> s_decode_tokens s
     \<and> s_decode_tokens s \<le> s_accepted_proposals s + s_committed_blocks s"

definition emitted_ok :: "int list \<Rightarrow> int \<Rightarrow> session \<Rightarrow> bool" where
  "emitted_ok prompt seed0 s \<longleftrightarrow> s_emitted s \<noteq> [] \<and> hd (s_emitted s) = seed0
     \<and> s_position s + 1 = length prompt + length (s_emitted s)
     \<and> length (s_emitted s) \<le> s_max_new_tokens s
     \<and> (s_finished s \<longleftrightarrow> last (s_emitted s) \<in> set (s_eos_ids s)
          \<or> length (s_emitted s) = s_max_new_tokens s)
     \<and> (\<forall>t \<in> set (butlast (s_emitted s)). t \<notin> set (s_eos_ids s))
     \<and> (\<not> s_finished s \<longrightarrow> s_seed s = Some (last (s_emitted s)))
     \<and> tokens_ok (s_vocab_size s) (s_emitted s)"

definition session_inv :: "int list \<Rightarrow> int \<Rightarrow> session \<Rightarrow> bool" where
  "session_inv prompt seed0 s \<longleftrightarrow>
     (if s_phase s = Closed then s_emitted s = [] \<and> s_pending s = None \<and> s_seed s = None
        \<and> l_closed (h_lookup (s_drafter s))
      else drafter_ok prompt s \<and> counters_ok s \<and> emitted_ok prompt seed0 s
        \<and> (s_verifier_rows s = 16 \<or> s_verifier_rows s = 32)
        \<and> s_phase s \<noteq> Drafting \<and> s_phase s \<noteq> Committing
        \<and> (case s_pending s of None \<Rightarrow> s_phase s \<noteq> Pending
           | Some t \<Rightarrow> (s_phase s = Pending \<or> s_phase s = Failed) \<and> ticket_ok s t))"

lemma session_init_inv:
  assumes "session_init r prompt seed v mx eos neural vr pfs le = Inr s"
  shows "session_inv prompt seed s" and "s_request_id s = r" and "s_eos_ids s = eos"
    and "s_max_new_tokens s = nat mx" and "s_phase s = Idle" and "s_emitted s = [seed]"
    and "s_vocab_size s = v"
proof -
  from assms obtain h h' where h: "hybrid_init r prompt v neural le 32768 128 (vr - 1) pfs = Inr h"
    and h': "hybrid_commit_verified h r [seed] = Inr h'"
    and sel: "returned (select_prefix [] [seed] v eos 15)"
    and vr: "vr = 16 \<or> vr = 32" "1 \<le> mx" and s: "s_drafter s = h'"
    by (auto simp: session_init_def rbind_Inr_iff split: if_splits)
  note hi = hybrid_init_wf [OF h] and hc = hybrid_commit_verified_Inr [OF h']
  have "drafter_ok prompt s"
    using assms vr hi hc s
    by (auto simp: drafter_ok_def session_init_def rbind_Inr_iff last_n_append split: if_splits)
  with assms vr sel show "session_inv prompt seed s" "s_request_id s = r" "s_eos_ids s = eos"
    "s_max_new_tokens s = nat mx" "s_phase s = Idle" "s_emitted s = [seed]" "s_vocab_size s = v"
    by (auto simp: session_inv_def counters_ok_def emitted_ok_def session_init_def rbind_Inr_iff
        select_prefix_returns_iff split: if_splits)
qed

lemma widest_Some:
  assumes "widest b = Some w"
  shows "w \<in> set verifier_widths" and "int w \<le> b"
proof -
  let ?ws = "filter (\<lambda>w. int w \<le> b) verifier_widths"
  from assms have "?ws \<noteq> [] \<and> w = last ?ws" by (auto simp: widest_def split: list.splits)
  then have "w \<in> set ?ws" using last_in_set by blast
  then show "w \<in> set verifier_widths" "int w \<le> b" by auto
qed

lemma widest_pos: "1 \<le> b \<Longrightarrow> \<exists>w. widest b = Some w"
  by (auto simp: widest_def verifier_widths_def split: list.splits)

lemma widest_ge_1: "widest b = Some w \<Longrightarrow> 1 \<le> w"
  using widest_Some [of b w] by (auto simp: verifier_widths_def)

text \<open>Control fields the parts of the invariant do not read.\<close>

lemma parts_control [simp]:
  "drafter_ok p (s\<lparr>s_phase := ph\<rparr>) = drafter_ok p s"
  "drafter_ok p (s\<lparr>s_pending := pt\<rparr>) = drafter_ok p s"
  "drafter_ok p (s\<lparr>s_epoch := ep\<rparr>) = drafter_ok p s"
  "drafter_ok p (s\<lparr>s_alloc := al\<rparr>) = drafter_ok p s"
  "drafter_ok p (s\<lparr>s_aborted_blocks := ab\<rparr>) = drafter_ok p s"
  "counters_ok (s\<lparr>s_phase := ph\<rparr>) = counters_ok s"
  "counters_ok (s\<lparr>s_pending := pt\<rparr>) = counters_ok s"
  "counters_ok (s\<lparr>s_epoch := ep\<rparr>) = counters_ok s"
  "counters_ok (s\<lparr>s_alloc := al\<rparr>) = counters_ok s"
  "counters_ok (s\<lparr>s_aborted_blocks := ab\<rparr>) = counters_ok s"
  "emitted_ok p z (s\<lparr>s_phase := ph\<rparr>) = emitted_ok p z s"
  "emitted_ok p z (s\<lparr>s_pending := pt\<rparr>) = emitted_ok p z s"
  "emitted_ok p z (s\<lparr>s_epoch := ep\<rparr>) = emitted_ok p z s"
  "emitted_ok p z (s\<lparr>s_alloc := al\<rparr>) = emitted_ok p z s"
  "emitted_ok p z (s\<lparr>s_aborted_blocks := ab\<rparr>) = emitted_ok p z s"
  "ticket_ok (s\<lparr>s_phase := ph\<rparr>) t = ticket_ok s t"
  "ticket_ok (s\<lparr>s_pending := pt\<rparr>) t = ticket_ok s t"
  by (simp_all add: drafter_ok_def counters_ok_def emitted_ok_def ticket_ok_def)

lemma preparation_inv:
  assumes "session_inv prompt seed0 s"
  shows "session_inv prompt seed0 (snd (begin_preparation s r))"
    and "session_inv prompt seed0 (snd (finish_preparation s r))"
    and "session_inv prompt seed0 (snd (fail_preparation s r))"
  using assms
  by (auto simp: begin_preparation_def finish_preparation_def fail_preparation_def session_inv_def
      split: option.splits)

lemma fail_verification_inv:
  "session_inv prompt seed0 s \<Longrightarrow> session_inv prompt seed0 (snd (fail_verification s r t))"
  by (auto simp: fail_verification_def ticket_live_def session_inv_def split: option.splits)

lemma session_abort_inv:
  "session_inv prompt seed0 s \<Longrightarrow> session_inv prompt seed0 (snd (session_abort s r t restore))"
  by (cases "restore 0") (auto simp: session_abort_def ticket_live_def session_inv_def split: option.splits)

lemma session_close_inv:
  assumes "session_inv prompt seed0 s"
  shows "session_inv prompt seed0 (snd (session_close s r))"
proof (cases "r \<noteq> s_request_id s \<or> s_phase s \<notin> {Idle, Failed}")
  case True
  with assms show ?thesis by (simp add: session_close_def)
next
  case False
  with assms have "\<exists>h. hybrid_close (s_drafter s) r = Inr h \<and> l_closed (h_lookup h)"
    by (auto simp: session_inv_def drafter_ok_def hybrid_close_def lookup_close_def lookup_owner_def)
  with False show ?thesis by (auto simp: session_close_def session_inv_def)
qed

lemma session_narrow_inv:
  assumes "session_inv prompt seed0 s"
  shows "session_inv prompt seed0 (snd (session_narrow s r t rows))"
proof (cases "ticket_live s r t \<and> rows \<in> int ` set verifier_widths \<and> rows \<le> int (length (t_tokens t))")
  case True
  then obtain w where w: "rows = int w" "w \<in> set verifier_widths" "w \<le> length (t_tokens t)" by auto
  then have "1 \<le> w" by (auto simp: verifier_widths_def)
  from True have live: "s_phase s = Pending" "s_pending s = Some t" "r = s_request_id s"
    by (auto simp: ticket_live_def session_owner_def)
  with assms have t: "ticket_ok s t" by (auto simp: session_inv_def)
  from True obtain t' where t': "session_narrow s r t rows = (Inr t', s\<lparr>s_epoch := s_epoch s + 1,
      s_pending := Some t', s_phase := Pending, s_alloc := s_alloc s + 1\<rparr>)"
    and f: "t_ref t' = s_alloc s" "t_epoch t' = s_epoch s + 1" "t_request_id t' = r"
      "t_position t' = t_position t" "t_tokens t' = take w (t_tokens t)"
    using w by (auto simp: session_narrow_def Let_def)
  from t f w live \<open>1 \<le> w\<close> have "ticket_ok (s\<lparr>s_epoch := s_epoch s + 1, s_alloc := s_alloc s + 1\<rparr>) t'"
    by (auto simp: ticket_ok_def min_absorb2 hd_take)
  with assms live t' show ?thesis by (auto simp: session_inv_def ticket_ok_def)
next
  case False
  with assms show ?thesis by (auto simp: session_narrow_def)
qed

lemma session_propose_ticket:
  assumes "session_inv prompt seed0 s" and "session_propose s r mr sel = (Inr t, s')"
  shows "ticket_ok s' t" and "s' = s\<lparr>s_phase := Pending, s_epoch := s_epoch s + 1,
      s_pending := Some t, s_alloc := s_alloc s + 1\<rparr>"
    and "int (length (t_tokens t)) \<le> mr" and "s_phase s = Idle" and "\<not> s_finished s"
    and "session_owner s r"
proof -
  let ?rem = "int (s_max_new_tokens s) - int (length (s_emitted s))"
  let ?limit = "min mr ?rem"
  from assms(2) have guard: "session_owner s r" "s_phase s = Idle" "\<not> s_finished s"
    "mr \<in> int ` set verifier_widths" "mr \<le> int (s_verifier_rows s)"
    by (auto simp: session_propose_def split: if_splits)
  from assms(2) guard obtain p w where
    p: "(if ?limit > 1 then hybrid_propose (s_drafter s) r (?limit - 1) True True sel
         else Inr target_proposal) = Inr p"
    and w: "widest (min ?limit (int (length (p_tokens p)) + 1)) = Some w"
    and s': "s' = s\<lparr>s_phase := Pending, s_epoch := s_epoch s + 1, s_pending := Some t,
               s_alloc := s_alloc s + 1\<rparr>"
    and t: "t_ref t = s_alloc s" "t_epoch t = s_epoch s + 1" "t_request_id t = r"
      "t_position t = s_position s"
      "t_tokens t = (case s_seed s of None \<Rightarrow> [] | Some x \<Rightarrow> [x]) @ take (w - 1) (p_tokens p)"
    by (auto simp: session_propose_def Let_def split: if_splits sum.splits option.splits)
  from assms(1) guard(2) have inv: "drafter_ok prompt s" "emitted_ok prompt seed0 s"
    "s_verifier_rows s = 16 \<or> s_verifier_rows s = 32"
    by (auto simp: session_inv_def)
  with guard(3) have seed: "s_seed s = Some (last (s_emitted s))" and em: "s_emitted s \<noteq> []"
    "tokens_ok (s_vocab_size s) (s_emitted s)"
    by (auto simp: emitted_ok_def)
  have pt: "tokens_ok (s_vocab_size s) (p_tokens p)"
  proof (cases "?limit > 1")
    case True
    with p inv(1) hybrid_propose_bounds(2) show ?thesis by (force simp: drafter_ok_def)
  next
    case False
    with p show ?thesis by (auto simp: target_proposal_def)
  qed
  note ws = widest_Some [OF w] and w1 = widest_ge_1 [OF w]
  have toks: "t_tokens t = last (s_emitted s) # take (w - 1) (p_tokens p)"
    using t(5) seed by simp
  have "w - 1 \<le> length (p_tokens p)" using ws by linarith
  then have len: "length (t_tokens t) = w" using toks w1 by (simp add: min_absorb2)
  have "tokens_ok (s_vocab_size s) (t_tokens t)"
    using toks pt em tokens_ok_nth [of _ "s_emitted s" "length (s_emitted s) - 1"]
    by (simp add: last_conv_nth)
  with t toks len ws guard s' show "ticket_ok s' t"
    by (auto simp: ticket_ok_def session_owner_def)
  show "s' = s\<lparr>s_phase := Pending, s_epoch := s_epoch s + 1, s_pending := Some t,
      s_alloc := s_alloc s + 1\<rparr>" by (rule s')
  show "int (length (t_tokens t)) \<le> mr" using len ws by simp
  show "s_phase s = Idle" "\<not> s_finished s" "session_owner s r" using guard by auto
qed

text \<open>A proposal that raises leaves the session failed: the branch of \<open>max\<close> over no width is never
  reached, because an unfinished session has budget left.\<close>

lemma session_propose_Inl:
  assumes "session_inv prompt seed0 s" and "session_propose s r mr sel = (Inl e, s')"
  shows "s' = s \<or> (s' = s\<lparr>s_phase := Failed\<rparr> \<and> s_phase s = Idle)"
proof -
  let ?rem = "int (s_max_new_tokens s) - int (length (s_emitted s))"
  have "\<exists>w. widest (min (min mr ?rem) (int n + 1)) = Some w"
    if "s_phase s = Idle" "\<not> s_finished s" "mr \<in> int ` set verifier_widths" for n
  proof (rule widest_pos)
    from assms(1) that have "length (s_emitted s) < s_max_new_tokens s"
      by (auto simp: session_inv_def emitted_ok_def)
    moreover from that(3) have "1 \<le> mr" by (auto simp: verifier_widths_def)
    ultimately show "1 \<le> min (min mr ?rem) (int n + 1)" by simp
  qed
  then have "widest (min (min mr ?rem) (int n + 1)) \<noteq> None"
    if "s_phase s = Idle" "\<not> s_finished s" "mr \<in> int ` set verifier_widths" for n
    using that by auto
  with assms(2) show ?thesis
    by (auto simp: session_propose_def Let_def split: if_splits sum.splits option.splits)
      (metis option.distinct(1))
qed

lemma session_propose_inv:
  assumes "session_inv prompt seed0 s"
  shows "session_inv prompt seed0 (snd (session_propose s r mr sel))"
proof (cases "session_propose s r mr sel")
  case (Pair res s')
  show ?thesis
  proof (cases res)
    case (Inl e)
    with session_propose_Inl [OF assms, of r mr sel e s'] Pair assms show ?thesis
      by (auto simp: session_inv_def split: option.splits)
  next
    case (Inr t)
    with Pair have "session_propose s r mr sel = (Inr t, s')" by simp
    note props = session_propose_ticket [OF assms this]
    with assms Pair show ?thesis by (auto simp: session_inv_def)
  qed
qed

subsection \<open>Committing a block\<close>

text \<open>The proposals and predictions a commit decides on.\<close>

definition commit_inputs :: "block_ticket \<Rightarrow> int list \<Rightarrow> int option \<Rightarrow> int list \<times> int list" where
  "commit_inputs ticket predictions max_rows =
     (case max_rows of
        None \<Rightarrow> (tl (t_tokens ticket), predictions)
      | Some m \<Rightarrow> (slice 1 (nat m) (t_tokens ticket), take (nat m) predictions))"

text \<open>A commit that returns: the decision taken, the publication at its prefix, and the state.\<close>

lemma session_commit_Inr:
  assumes "session_commit s r t preds publish mr = (Inr d, s')"
  shows "ticket_live s r t" and "publish (d_state_rows d) = Returns_None"
    and "select_prefix (fst (commit_inputs t preds mr)) (snd (commit_inputs t preds mr))
           (s_vocab_size s) (s_eos_ids s) (int (s_verifier_rows s) - 1) = Inr d"
    and "\<exists>h. hybrid_commit_verified (s_drafter s) r (d_emitted d) = Inr h
      \<and> s' = s\<lparr>s_drafter := h, s_position := s_position s + d_state_rows d,
          s_seed := d_next_input d, s_emitted := s_emitted s @ d_emitted d,
          s_block_proposals := s_block_proposals s + (length (t_tokens t) - 1),
          s_accepted_proposals := s_accepted_proposals s + d_accepted d,
          s_committed_blocks := s_committed_blocks s + 1,
          s_decode_tokens := s_decode_tokens s + length (d_emitted d),
          s_finished := (d_finished d \<or> length (s_emitted s @ d_emitted d) = s_max_new_tokens s),
          s_pending := None, s_phase := Idle\<rparr>"
    and "\<And>m. mr = Some m \<Longrightarrow> 1 \<le> m \<and> m \<le> int (length (t_tokens t))"
  using assms
  by (auto simp: session_commit_def commit_inputs_def Let_def
      split: if_splits sum.splits callback.splits option.splits)

lemma session_commit_Inl:
  assumes "session_commit s r t preds publish mr = (Inl e, s')"
  shows "s' = s \<or> (s' = s\<lparr>s_phase := Failed\<rparr> \<and> ticket_live s r t)"
  using assms
  by (auto simp: session_commit_def Let_def
      split: if_splits sum.splits callback.splits option.splits)

text \<open>The seed and the proposals a commit considers are the ticket's leading tokens.\<close>

lemma commit_inputs_block:
  assumes "t_tokens t \<noteq> []" and "\<And>m. mr = Some m \<Longrightarrow> 1 \<le> m \<and> m \<le> int (length (t_tokens t))"
  shows "\<exists>qs. t_tokens t = hd (t_tokens t) # fst (commit_inputs t preds mr) @ qs"
proof (cases mr)
  case None
  with assms(1) show ?thesis by (intro exI [of _ "[]"]) (simp add: commit_inputs_def)
next
  case (Some m)
  with assms(1) show ?thesis
    by (intro exI [of _ "drop (nat m - 1) (tl (t_tokens t))"])
      (simp add: commit_inputs_def slice_def drop_Suc)
qed

lemma commit_inputs_rows:
  assumes "t_tokens t \<noteq> []" and "\<And>m. mr = Some m \<Longrightarrow> 1 \<le> m \<and> m \<le> int (length (t_tokens t))"
    and "length preds = length (t_tokens t)"
  shows "snd (commit_inputs t preds mr) = take (Suc (length (fst (commit_inputs t preds mr)))) preds"
proof (cases mr)
  case None
  with assms show ?thesis by (simp add: commit_inputs_def)
next
  case (Some m)
  with assms(2) have "Suc (nat m - 1) = nat m" "nat m \<le> length (t_tokens t)" by auto
  with Some assms show ?thesis by (simp add: commit_inputs_def length_slice min_absorb2)
qed

lemma session_commit_inv:
  assumes inv: "session_inv prompt seed0 s"
    and com: "session_commit s r t preds publish mr = (Inr d, s')"
  shows "session_inv prompt seed0 s'"
proof -
  note c = session_commit_Inr [OF com]
  from c(1) have live: "s_phase s = Pending" "s_pending s = Some t" "r = s_request_id s"
    by (auto simp: ticket_live_def session_owner_def)
  with inv have t: "ticket_ok s t" and dr: "drafter_ok prompt s" and co: "counters_ok s"
    and em: "emitted_ok prompt seed0 s" and vr: "s_verifier_rows s = 16 \<or> s_verifier_rows s = 32"
    by (auto simp: session_inv_def)
  from c(4) obtain h where h: "hybrid_commit_verified (s_drafter s) r (d_emitted d) = Inr h"
    and s': "s' = s\<lparr>s_drafter := h, s_position := s_position s + d_state_rows d,
          s_seed := d_next_input d, s_emitted := s_emitted s @ d_emitted d,
          s_block_proposals := s_block_proposals s + (length (t_tokens t) - 1),
          s_accepted_proposals := s_accepted_proposals s + d_accepted d,
          s_committed_blocks := s_committed_blocks s + 1,
          s_decode_tokens := s_decode_tokens s + length (d_emitted d),
          s_finished := (d_finished d \<or> length (s_emitted s @ d_emitted d) = s_max_new_tokens s),
          s_pending := None, s_phase := Idle\<rparr>" by blast
  note b = select_prefix_bounds [OF c(3)] and hc = hybrid_commit_verified_Inr [OF h]
  from t have "t_tokens t \<noteq> []" by (simp add: ticket_ok_def)
  from commit_inputs_block [OF this c(5), where preds = preds] obtain qs where
    block: "t_tokens t = hd (t_tokens t) # fst (commit_inputs t preds mr) @ qs" by blast
  have "length (t_tokens t) = Suc (length (fst (commit_inputs t preds mr)) + length qs)"
    by (subst block) simp
  then have len: "length (fst (commit_inputs t preds mr)) + 1 \<le> length (t_tokens t)" by simp
  have ne: "d_emitted d \<noteq> []" using b(1) by auto
  have "drafter_ok prompt s'"
    using dr hc s' by (auto simp: drafter_ok_def last_n_append hybrid_wf_def lookup_wf_def)
  moreover have "counters_ok s'"
    using co b len s' select_prefix_accepted [OF c(3)] by (auto simp: counters_ok_def)
  moreover have "emitted_ok prompt seed0 s'"
  proof -
    have "last (s_emitted s) \<notin> set (s_eos_ids s)" "s_emitted s \<noteq> []"
      using em t by (auto simp: emitted_ok_def ticket_ok_def)
    with em have "\<forall>x \<in> set (s_emitted s). x \<notin> set (s_eos_ids s)"
      by (cases "s_emitted s" rule: rev_cases) (auto simp: emitted_ok_def)
    moreover have "length (s_emitted s @ d_emitted d) \<le> s_max_new_tokens s"
      using t b(2) len by (auto simp: ticket_ok_def)
    ultimately show ?thesis
      using em b ne s' by (auto simp: emitted_ok_def butlast_append)
  qed
  ultimately show ?thesis using s' vr by (simp add: session_inv_def)
qed

subsection \<open>Every reachable session\<close>

text \<open>The methods other than \<open>commit\<close>, and a run of the session: any method, with any arguments, at
  any time. \<open>session_run prompt seed0 s0 ok s\<close> is the sessions reachable from \<open>s0\<close> when every commit's
  predictions satisfy \<open>ok\<close> in the session that makes it.\<close>

inductive quiet_step :: "session \<Rightarrow> session \<Rightarrow> bool" where
  begin_p: "quiet_step s (snd (begin_preparation s r))"
| finish_p: "quiet_step s (snd (finish_preparation s r))"
| fail_p: "quiet_step s (snd (fail_preparation s r))"
| propose: "quiet_step s (snd (session_propose s r mr sel))"
| narrow: "quiet_step s (snd (session_narrow s r t rows))"
| abort: "quiet_step s (snd (session_abort s r t restore))"
| fail_v: "quiet_step s (snd (fail_verification s r t))"
| close: "quiet_step s (snd (session_close s r))"
| rewire: "quiet_step s (s\<lparr>s_drafter := (s_drafter s)\<lparr>h_neural := adapters\<rparr>\<rparr>)"
| poison: "s_phase s \<noteq> Closed \<Longrightarrow> quiet_step s (s\<lparr>s_phase := Failed\<rparr>)"
| discard: "s_phase s = Pending \<Longrightarrow> quiet_step s (s\<lparr>s_pending := None, s_phase := Idle\<rparr>)"

inductive session_run ::
  "(session \<Rightarrow> block_ticket \<Rightarrow> int option \<Rightarrow> int list \<Rightarrow> bool) \<Rightarrow> session \<Rightarrow> session \<Rightarrow> bool"
  for ok :: "session \<Rightarrow> block_ticket \<Rightarrow> int option \<Rightarrow> int list \<Rightarrow> bool" and s0 :: session where
  start: "session_run ok s0 s0"
| quiet: "session_run ok s0 s \<Longrightarrow> quiet_step s s' \<Longrightarrow> session_run ok s0 s'"
| commit: "session_run ok s0 s \<Longrightarrow> ok s t mr preds \<Longrightarrow>
     session_run ok s0 (snd (session_commit s r t preds publish mr))"

lemma rewire_inv [simp]:
  "session_inv prompt seed0 (s\<lparr>s_drafter := (s_drafter s)\<lparr>h_neural := adapters\<rparr>\<rparr>) = session_inv prompt seed0 s"
  by (simp add: session_inv_def drafter_ok_def hybrid_wf_def counters_ok_def emitted_ok_def ticket_ok_def
      cong: option.case_cong)

lemma poison_inv: "s_phase s \<noteq> Closed \<Longrightarrow> session_inv prompt seed0 s \<Longrightarrow>
    session_inv prompt seed0 (s\<lparr>s_phase := Failed\<rparr>)"
  by (auto simp: session_inv_def split: option.splits)

lemma discard_inv: "s_phase s = Pending \<Longrightarrow> session_inv prompt seed0 s \<Longrightarrow>
    session_inv prompt seed0 (s\<lparr>s_pending := None, s_phase := Idle\<rparr>)"
  by (auto simp: session_inv_def drafter_ok_def counters_ok_def emitted_ok_def split: option.splits)

lemma quiet_step_inv: "quiet_step s s' \<Longrightarrow> session_inv prompt seed0 s \<Longrightarrow> session_inv prompt seed0 s'"
  by (induction rule: quiet_step.induct)
    (simp_all add: preparation_inv session_propose_inv session_narrow_inv session_abort_inv
      fail_verification_inv session_close_inv poison_inv discard_inv)

lemma commit_step_inv:
  assumes "session_inv prompt seed0 s"
  shows "session_inv prompt seed0 (snd (session_commit s r t preds publish mr))"
proof (cases "session_commit s r t preds publish mr")
  case (Pair res s')
  show ?thesis
  proof (cases res)
    case (Inl e)
    with Pair session_commit_Inl [of s r t preds publish mr e s'] assms show ?thesis
      by (auto simp: session_inv_def ticket_live_def)
  next
    case (Inr d)
    with Pair session_commit_inv [OF assms, of r t preds publish mr d s'] show ?thesis by simp
  qed
qed

lemma session_run_inv:
  "session_run ok s0 s \<Longrightarrow> session_inv prompt seed0 s0 \<Longrightarrow> session_inv prompt seed0 s"
  by (induction rule: session_run.induct) (auto intro: quiet_step_inv commit_step_inv)

text \<open>Fields no method but \<open>commit\<close> and \<open>close\<close> writes.\<close>

lemma quiet_step_frame:
  "quiet_step s s' \<Longrightarrow> (s_emitted s' = s_emitted s \<or> s_phase s' = Closed)
     \<and> s_eos_ids s' = s_eos_ids s \<and> s_max_new_tokens s' = s_max_new_tokens s
     \<and> s_vocab_size s' = s_vocab_size s \<and> s_verifier_rows s' = s_verifier_rows s
     \<and> (s_finished s' = s_finished s) \<and> (s_phase s = Closed \<longrightarrow> s_phase s' = Closed)"
  by (induction rule: quiet_step.induct)
    (auto simp: begin_preparation_def finish_preparation_def fail_preparation_def
      session_propose_def session_narrow_def session_abort_def fail_verification_def
      session_close_def session_owner_def ticket_live_def Let_def
      split: sum.splits option.splits callback.splits)

lemma commit_step_frame:
  "s_eos_ids (snd (session_commit s r t preds publish mr)) = s_eos_ids s
   \<and> s_max_new_tokens (snd (session_commit s r t preds publish mr)) = s_max_new_tokens s
   \<and> s_vocab_size (snd (session_commit s r t preds publish mr)) = s_vocab_size s
   \<and> (s_phase s = Closed \<longrightarrow> session_commit s r t preds publish mr = (Inl ValueError, s))"
  by (auto simp: session_commit_def ticket_live_def session_owner_def Let_def
      split: sum.splits option.splits callback.splits)

subsection \<open>Speculative decoding emits what serial decoding emits\<close>

text \<open>The verifier evaluated the block after the request's committed tokens: the seed is the block's
  first token, so the context is everything before it. Under a row cap only the capped rows are
  asked to be the target's.\<close>

definition trusted_rows :: "block_ticket \<Rightarrow> int option \<Rightarrow> nat" where
  "trusted_rows t mr = (case mr of None \<Rightarrow> length (t_tokens t) | Some m \<Rightarrow> nat m)"

definition target_verified ::
  "(int list \<Rightarrow> int) \<Rightarrow> int list \<Rightarrow> session \<Rightarrow> block_ticket \<Rightarrow> int option \<Rightarrow> int list \<Rightarrow> bool" where
  "target_verified f prompt s t mr preds \<longleftrightarrow> length preds = length (t_tokens t)
     \<and> take (trusted_rows t mr) preds
         = take (trusted_rows t mr) (target_rows f (prompt @ butlast (s_emitted s)) (t_tokens t))"

lemma commit_inputs_trusted:
  assumes "t_tokens t \<noteq> []" and "\<And>m. mr = Some m \<Longrightarrow> 1 \<le> m \<and> m \<le> int (length (t_tokens t))"
  shows "Suc (length (fst (commit_inputs t preds mr))) = trusted_rows t mr"
proof (cases mr)
  case (Some m)
  with assms(2) have "1 \<le> m" "nat m \<le> length (t_tokens t)" by auto
  with Some show ?thesis by (simp add: commit_inputs_def trusted_rows_def length_slice)
qed (use assms(1) in \<open>simp add: commit_inputs_def trusted_rows_def\<close>)

lemma target_verified_whole:
  "preds = target_rows f (prompt @ butlast (s_emitted s)) (t_tokens t) \<Longrightarrow> target_verified f prompt s t mr preds"
  by (simp add: target_verified_def)

definition serial_so_far :: "(int list \<Rightarrow> int) \<Rightarrow> int list \<Rightarrow> int \<Rightarrow> session \<Rightarrow> bool" where
  "serial_so_far f prompt seed0 s \<longleftrightarrow> s_phase s = Closed
     \<or> serial f (s_eos_ids s) (prompt @ [seed0]) (length (s_emitted s) - 1) = tl (s_emitted s)"

lemma commit_serial:
  assumes inv: "session_inv prompt seed0 s" and so_far: "serial_so_far f prompt seed0 s"
    and ver: "target_verified f prompt s t mr preds"
    and com: "session_commit s r t preds publish mr = (Inr d, s')"
  shows "serial_so_far f prompt seed0 s'"
proof -
  note c = session_commit_Inr [OF com]
  from c(1) have live: "s_phase s = Pending" "s_pending s = Some t"
    by (auto simp: ticket_live_def session_owner_def)
  with inv have t: "ticket_ok s t" and em: "emitted_ok prompt seed0 s"
    by (auto simp: session_inv_def)
  let ?ctx = "prompt @ butlast (s_emitted s)" and ?ps = "fst (commit_inputs t preds mr)"
  from t have tne: "t_tokens t \<noteq> []" and seed: "hd (t_tokens t) = last (s_emitted s)"
    by (auto simp: ticket_ok_def)
  from em have ne: "s_emitted s \<noteq> []" and hd: "hd (s_emitted s) = seed0"
    by (auto simp: emitted_ok_def)
  from commit_inputs_block [OF tne c(5), where preds = preds] seed obtain qs where
    block: "t_tokens t = last (s_emitted s) # ?ps @ qs" by metis
  have rows: "snd (commit_inputs t preds mr)
      = take (Suc (length ?ps)) (target_rows f ?ctx (last (s_emitted s) # ?ps @ qs))"
  proof -
    have "snd (commit_inputs t preds mr) = take (Suc (length ?ps)) preds"
      by (rule commit_inputs_rows [OF tne c(5)]) (use ver in \<open>auto simp: target_verified_def\<close>)
    moreover have "take (Suc (length ?ps)) preds = take (Suc (length ?ps)) (target_rows f ?ctx (t_tokens t))"
      using ver commit_inputs_trusted [OF tne c(5), where preds = preds] by (simp add: target_verified_def)
    ultimately show ?thesis using block by simp
  qed
  from select_prefix_serial [OF c(3) [unfolded rows]]
  have new: "serial f (s_eos_ids s) (prompt @ s_emitted s) (length (d_emitted d)) = d_emitted d"
    using ne by simp
  from em t have "\<forall>x \<in> set (s_emitted s). x \<notin> set (s_eos_ids s)"
    by (cases "s_emitted s" rule: rev_cases) (auto simp: emitted_ok_def ticket_ok_def)
  then have no_eos: "\<forall>x \<in> set (tl (s_emitted s)). x \<notin> set (s_eos_ids s)"
    by (cases "s_emitted s") auto
  have old: "serial f (s_eos_ids s) (prompt @ [seed0]) (length (tl (s_emitted s))) = tl (s_emitted s)"
    using so_far live by (simp add: serial_so_far_def)
  have "prompt @ s_emitted s = (prompt @ [seed0]) @ tl (s_emitted s)"
    using ne hd by (cases "s_emitted s") auto
  with serial_append [OF old no_eos] new
  have "serial f (s_eos_ids s) (prompt @ [seed0]) (length (tl (s_emitted s) @ d_emitted d))
    = tl (s_emitted s) @ d_emitted d" by simp
  with c(4) ne show ?thesis
    by (cases "s_emitted s") (auto simp: serial_so_far_def)
qed

lemma session_run_serial:
  assumes "session_run (target_verified f prompt) s0 s" and "session_inv prompt seed0 s0"
    and "serial_so_far f prompt seed0 s0"
  shows "session_inv prompt seed0 s \<and> serial_so_far f prompt seed0 s
    \<and> s_eos_ids s = s_eos_ids s0 \<and> s_max_new_tokens s = s_max_new_tokens s0"
  using assms
proof (induction rule: session_run.induct)
  case start
  then show ?case by simp
next
  case (quiet s s')
  then have "session_inv prompt seed0 s'" by (auto intro: quiet_step_inv)
  with quiet quiet_step_frame [OF quiet.hyps(2)] show ?case
    by (auto simp: serial_so_far_def)
next
  case (commit s t mr preds r publish)
  let ?res = "session_commit s r t preds publish mr"
  have inv: "session_inv prompt seed0 (snd ?res)" using commit by (auto intro: commit_step_inv)
  have "serial_so_far f prompt seed0 (snd ?res)"
  proof (cases ?res)
    case (Pair res s')
    show ?thesis
    proof (cases res)
      case (Inl e)
      with Pair commit session_commit_Inl [of s r t preds publish mr e s'] show ?thesis
        by (auto simp: serial_so_far_def ticket_live_def)
    next
      case (Inr d)
      with Pair commit commit_serial [of prompt seed0 s f t mr preds r publish d s'] show ?thesis
        by simp
    qed
  qed
  with inv commit commit_step_frame show ?case by auto
qed

lemma session_run_text:
  assumes "session_init r prompt seed v mx eos neural vr pfs le = Inr s0"
    and "session_run (target_verified f prompt) s0 s" and "s_phase s \<noteq> Closed"
  shows "s_emitted s = seed # serial f eos (prompt @ [seed]) (length (s_emitted s) - 1)
    \<and> length (s_emitted s) \<le> nat mx
    \<and> (s_finished s \<and> seed \<notin> set eos \<longrightarrow>
         s_emitted s = seed # serial f eos (prompt @ [seed]) (nat mx - 1))"
proof -
  note i = session_init_inv [OF assms(1)]
  have "serial_so_far f prompt seed s0" using i by (simp add: serial_so_far_def)
  from session_run_serial [OF assms(2) i(1) this] i
  have inv: "session_inv prompt seed s" and ser: "serial_so_far f prompt seed s"
    and par: "s_eos_ids s = eos" "s_max_new_tokens s = nat mx" by auto
  from inv assms(3) have em: "emitted_ok prompt seed s" by (simp add: session_inv_def)
  then obtain ts where ts: "s_emitted s = seed # ts" by (cases "s_emitted s") (auto simp: emitted_ok_def)
  from ser assms(3) ts par have tail: "serial f eos (prompt @ [seed]) (length ts) = ts"
    by (simp add: serial_so_far_def)
  have "serial f eos (prompt @ [seed]) (nat mx - 1) = ts" if "s_finished s" "seed \<notin> set eos"
  proof (cases "length (s_emitted s) = nat mx")
    case True
    with ts have "nat mx - 1 = length ts" by simp
    with tail show ?thesis by simp
  next
    case False
    with em that ts par have "ts \<noteq> []" "last ts \<in> set eos" "length ts \<le> nat mx - 1"
      by (auto simp: emitted_ok_def split: if_splits)
    from serial_extend [OF this(1,2) tail this(3)] show ?thesis .
  qed
  with tail ts em par show ?thesis by (auto simp: emitted_ok_def)
qed

text \<open>C1: speculative decoding is exact. Take any run of a session (any interleaving of preparations,
  proposals from lookup or from any neural adapter, narrowings, commits capped or not, aborts and
  failures, with any arguments) in which every committed block was verified by the target \<open>f\<close>, its
  rows below the commit's cap at least. The
  tokens the session has emitted are the seed and the tokens serial greedy decoding of \<open>f\<close> emits
  after it, never more than the budget; and a finished session has emitted all of them.\<close>

theorem speculative_is_serial:
  assumes "session_init r prompt seed v mx eos neural vr pfs le = Inr s0"
    and "session_run (target_verified f prompt) s0 s" and "s_phase s \<noteq> Closed"
  shows "s_emitted s = seed # serial f eos (prompt @ [seed]) (length (s_emitted s) - 1)
    \<and> length (s_emitted s) \<le> nat mx
    \<and> (s_finished s \<and> seed \<notin> set eos \<longrightarrow>
         s_emitted s = seed # serial f eos (prompt @ [seed]) (nat mx - 1))"
  by (rule session_run_text [OF assms])

text \<open>The witness: one drafted block, looked up in the prompt and accepted whole.\<close>

definition mod3 :: "int list \<Rightarrow> int" where
  "mod3 ctx = (last ctx + 1) mod 3"

definition demo_start :: session where
  "demo_start = projr (session_init ''r'' [0, 1, 2, 0, 1, 2] 0 100 8 [] Map.empty 16 False True)"

definition demo_proposed :: "block_ticket result \<times> session" where
  "demo_proposed = session_propose demo_start ''r'' 4 None"

definition demo_committed :: "decision result \<times> session" where
  "demo_committed = session_commit (snd demo_proposed) ''r'' (projr (fst demo_proposed))
     [1, 2, 0, 1] (\<lambda>_. Returns_None) None"

lemma demo_init:
  "session_init ''r'' [0, 1, 2, 0, 1, 2] 0 100 8 [] Map.empty 16 False True = Inr demo_start"
  unfolding demo_start_def by (rule returned_projr) code_simp

lemma demo_values:
  "t_tokens (projr (fst demo_proposed)) = [0, 1, 2, 0]"
  "s_emitted (snd demo_proposed) = [0]" "s_phase (snd demo_committed) = Idle"
  "s_emitted (snd demo_committed) = [0, 1, 2, 0, 1]"
  by code_simp+

theorem speculative_is_serial_witness:
  "s_emitted (snd demo_committed) = 0 # serial mod3 [] [0, 1, 2, 0, 1, 2, 0] 4"
proof -
  have rows: "target_verified mod3 [0, 1, 2, 0, 1, 2] (snd demo_proposed)
      (projr (fst demo_proposed)) None [1, 2, 0, 1]"
    by (simp add: target_verified_def trusted_rows_def demo_values target_rows_def mod3_def upt_rec)
  have "session_run (target_verified mod3 [0, 1, 2, 0, 1, 2]) demo_start (snd demo_proposed)"
    unfolding demo_proposed_def by (rule session_run.quiet [OF session_run.start]) (rule quiet_step.propose)
  from session_run.commit [OF this rows]
  have "session_run (target_verified mod3 [0, 1, 2, 0, 1, 2]) demo_start (snd demo_committed)"
    unfolding demo_committed_def .
  from speculative_is_serial [OF demo_init this] show ?thesis
    by (simp add: demo_values numeral_eq_Suc)
qed

subsection \<open>Tickets\<close>

text \<open>C13: whatever its verifier answered, every session is well-typed. A live ticket is the request's own,
  stands at the session's frontier and begins with its seed; it has a verifier's width, within the
  session's rows and the budget left; and its tokens, like all the session emitted, are ids of the
  vocabulary.\<close>

theorem session_is_well_typed:
  assumes "session_init r prompt seed v mx eos neural vr pfs le = Inr s0"
    and "session_run ok s0 s" and "s_phase s \<noteq> Closed"
  shows "tokens_ok (s_vocab_size s) (s_emitted s) \<and> s_position s + 1 = length prompt + length (s_emitted s)
    \<and> (case s_pending s of None \<Rightarrow> s_phase s \<noteq> Pending
       | Some t \<Rightarrow> t_request_id t = s_request_id s \<and> t_position t = s_position s
           \<and> t_tokens t \<noteq> [] \<and> hd (t_tokens t) = last (s_emitted s)
           \<and> length (t_tokens t) \<in> set verifier_widths \<and> length (t_tokens t) \<le> s_verifier_rows s
           \<and> length (s_emitted s) + length (t_tokens t) \<le> s_max_new_tokens s
           \<and> tokens_ok (s_vocab_size s) (t_tokens t))"
proof -
  have "session_inv prompt seed s" by (rule session_run_inv [OF assms(2) session_init_inv(1) [OF assms(1)]])
  then show ?thesis using assms(3) by (auto simp: session_inv_def emitted_ok_def ticket_ok_def split: option.splits)
qed

theorem session_is_well_typed_witness:
  "length (t_tokens (the (s_pending (snd demo_proposed)))) \<in> set verifier_widths"
proof -
  have "session_run (\<lambda>_ _ _ _. True) demo_start (snd demo_proposed)"
    unfolding demo_proposed_def by (rule session_run.quiet [OF session_run.start]) (rule quiet_step.propose)
  moreover have "s_phase (snd demo_proposed) \<noteq> Closed" "s_phase (snd demo_proposed) = Pending" by code_simp+
  ultimately show ?thesis
    using session_is_well_typed [OF demo_init, of "\<lambda>_ _ _ _. True" "snd demo_proposed"]
    by (auto split: option.splits)
qed

end
