(* ===== verification/LookupScore.thy ===== *)
theory LookupScore
  imports SessionInvariant
begin

text \<open>
  Offline scoring of a recorded greedy run, \<open>score_lookup\<close> of
  \<open>speculative-decoding/harness/lookup_acceptance.py\<close>: the session of \<open>GreedySession\<close> replays a
  tape of native tokens, block by block, and must consume exactly the tape. The loop is a
  \<open>partial_function\<close>, so a loop that did not end would be \<open>None\<close>.
\<close>

record block_report =
  b_rows :: nat
  b_match_length :: nat
  b_source :: string
  b_accepted :: nat
  b_committed :: nat
  b_position :: nat

record score =
  sc_max_rows :: int
  sc_minimum_match :: int
  sc_prefer_full_suffix :: bool
  sc_accepted :: nat
  sc_proposed :: nat
  sc_committed :: nat
  sc_blocks :: "block_report list"
  sc_mean :: "(nat \<times> nat) option" \<comment> \<open>the quotient's two operands\<close>

text \<open>The native predictions of a block of \<open>rows\<close> tokens, padded with zeros past the tape's end.\<close>

definition tape_rows :: "int list \<Rightarrow> nat \<Rightarrow> nat \<Rightarrow> int list" where
  "tape_rows emitted cursor rows =
     (let predictions = slice cursor (cursor + rows) emitted
      in predictions @ replicate (rows - length predictions) 0)"

text \<open>The body of the \<open>while\<close> loop.\<close>

definition score_block ::
  "int list \<Rightarrow> int \<Rightarrow> int \<Rightarrow> int \<Rightarrow> session \<Rightarrow> block_report result \<times> session" where
  "score_block emitted max_new_tokens max_rows minimum_match s =
     (let cursor = length (s_emitted s);
          limit = min max_rows (max_new_tokens - int cursor)
      in case (if limit > 1
               then propose_with_match (h_lookup (s_drafter s)) (s_request_id s) (limit - 1)
               else Inr ([], 0)) of
           Inl e \<Rightarrow> (Inl e, s)
         | Inr (_, matched) \<Rightarrow>
             (let selected_rows = (if int matched \<ge> minimum_match then max_rows else 1)
              in case session_propose s (s_request_id s) selected_rows None of
                   (Inl e, s1) \<Rightarrow> (Inl e, s1)
                 | (Inr ticket, s1) \<Rightarrow>
                     (case session_commit s1 (s_request_id s1) ticket
                             (tape_rows emitted cursor (length (t_tokens ticket)))
                             (\<lambda>_. Returns_None) None of
                        (Inl e, s2) \<Rightarrow> (Inl e, s2)
                      | (Inr decision, s2) \<Rightarrow>
                          if s_emitted s2 \<noteq> take (length (s_emitted s2)) emitted
                          then (Inl AssertionError, s2)
                          else (Inr \<lparr>b_rows = length (t_tokens ticket),
                                  b_match_length = matched, b_source = t_source ticket,
                                  b_accepted = d_accepted decision,
                                  b_committed = length (d_emitted decision),
                                  b_position = t_position ticket\<rparr>, s2))))"

partial_function (option) score_loop ::
  "int list \<Rightarrow> int \<Rightarrow> int \<Rightarrow> int \<Rightarrow> session \<Rightarrow> block_report list
     \<Rightarrow> (block_report list result \<times> session) option" where
  "score_loop emitted max_new_tokens max_rows minimum_match s blocks =
     (if s_finished s then Some (Inr blocks, s)
      else (case score_block emitted max_new_tokens max_rows minimum_match s of
              (Inl e, s') \<Rightarrow> Some (Inl e, s')
            | (Inr b, s') \<Rightarrow>
                score_loop emitted max_new_tokens max_rows minimum_match s' (blocks @ [b])))"

definition score_guards ::
  "int list \<Rightarrow> int list \<Rightarrow> int \<Rightarrow> int \<Rightarrow> int list \<Rightarrow> int \<Rightarrow> int \<Rightarrow> bool" where
  "score_guards prompt emitted vocab_size max_new_tokens eos_ids max_rows minimum_match \<longleftrightarrow>
     1 \<le> minimum_match \<and> max_rows \<in> {1, 2, 4, 8, 16, 32} \<and> 1 \<le> vocab_size
     \<and> 1 \<le> max_new_tokens \<and> emitted \<noteq> [] \<and> int (length emitted) \<le> max_new_tokens
     \<and> tokens_ok vocab_size (prompt @ emitted @ eos_ids)
     \<and> \<not> (\<exists>token \<in> set (butlast emitted). token \<in> set eos_ids)
     \<and> \<not> (int (length emitted) \<noteq> max_new_tokens \<and> last emitted \<notin> set eos_ids)"

text \<open>The guards, the \<open>try\<close> and its \<open>finally\<close>: an exception of the closing call replaces the result.\<close>

definition score_lookup ::
  "int list \<Rightarrow> int list \<Rightarrow> int \<Rightarrow> int \<Rightarrow> int list \<Rightarrow> int \<Rightarrow> int \<Rightarrow> bool \<Rightarrow> score result option" where
  "score_lookup prompt emitted vocab_size max_new_tokens eos_ids max_rows minimum_match
     prefer_full_suffix =
     (if \<not> score_guards prompt emitted vocab_size max_new_tokens eos_ids max_rows minimum_match
      then Some (Inl ValueError)
      else
        (case session_init ''offline-lookup'' prompt (hd emitted) vocab_size max_new_tokens eos_ids
                Map.empty 32 prefer_full_suffix True of
           Inl e \<Rightarrow> Some (Inl e)
         | Inr s0 \<Rightarrow>
             map_option (\<lambda>(outcome, s).
               let result = rbind outcome (\<lambda>blocks.
                     if s_emitted s \<noteq> emitted then Inl AssertionError
                     else Inr \<lparr>sc_max_rows = max_rows, sc_minimum_match = minimum_match,
                       sc_prefer_full_suffix = prefer_full_suffix,
                       sc_accepted = s_accepted_proposals s, sc_proposed = s_block_proposals s,
                       sc_committed = s_decode_tokens s, sc_blocks = blocks,
                       sc_mean = (if blocks \<noteq> [] then Some (s_decode_tokens s, length blocks)
                                  else None)\<rparr>)
               in (case session_close s (s_request_id s) of
                     (Inl e, _) \<Rightarrow> Inl e
                   | (Inr _, _) \<Rightarrow> result))
             (score_loop emitted max_new_tokens max_rows minimum_match s0 [])))"

subsection \<open>The tape as a target\<close>

text \<open>The tape is a target model whose choice depends on the context's length only. A block's native
  predictions are that target's rows, also past the tape's end.\<close>

definition tape_target :: "int list \<Rightarrow> int list \<Rightarrow> int list \<Rightarrow> int" where
  "tape_target prompt tape ctx =
     (let i = length ctx - length prompt in if i < length tape then tape ! i else 0)"

lemma length_tape_rows [simp]: "length (tape_rows tape c n) = n"
  by (simp add: tape_rows_def Let_def length_slice)

lemma tape_rows_nth:
  "i < n \<Longrightarrow> tape_rows tape c n ! i = (if c + i < length tape then tape ! (c + i) else 0)"
  by (auto simp: tape_rows_def Let_def nth_append slice_nth length_slice)

lemma tape_rows_ok:
  assumes "tokens_ok v tape" and "1 \<le> v"
  shows "tokens_ok v (tape_rows tape c n)"
  using assms set_slice [of c "c + n" tape]
  by (auto simp: tape_rows_def tokens_ok_def list_all_iff Let_def)

lemma tape_rows_target:
  assumes "em \<noteq> []"
  shows "target_rows (tape_target prompt tape) (prompt @ butlast em) block
    = tape_rows tape (length em) (length block)"
proof (rule nth_equalityI)
  fix i assume "i < length (target_rows (tape_target prompt tape) (prompt @ butlast em) block)"
  then have i: "i < length block" by simp
  have "length em - 1 + Suc i = length em + i" using assms by (cases em) auto
  with i show "target_rows (tape_target prompt tape) (prompt @ butlast em) block ! i
      = tape_rows tape (length em) (length block) ! i"
    by (simp add: nth_target_rows tape_target_def tape_rows_nth Let_def min_absorb2)
qed simp

text \<open>What serial decoding of the tape has emitted is a prefix of the tape.\<close>

lemma serial_nth:
  "i < length (serial f eos ctx n) \<Longrightarrow>
     serial f eos ctx n ! i = f (ctx @ take i (serial f eos ctx n))"
proof (induction n arbitrary: ctx i)
  case 0
  then show ?case by simp
next
  case (Suc n)
  then show ?case by (cases i) (auto simp: Let_def)
qed

lemma serial_tape_prefix:
  assumes "serial (tape_target prompt tape) eos (prompt @ [hd tape]) (length ts) = ts"
    and "length ts < length tape"
  shows "hd tape # ts = take (Suc (length ts)) tape"
proof (rule nth_equalityI)
  fix i assume i: "i < length (hd tape # ts)"
  show "(hd tape # ts) ! i = take (Suc (length ts)) tape ! i"
  proof (cases i)
    case 0
    with assms(2) show ?thesis by (cases tape) auto
  next
    case (Suc j)
    with i have "j < length (serial (tape_target prompt tape) eos (prompt @ [hd tape]) (length ts))"
      using assms(1) by simp
    from serial_nth [OF this] Suc i assms show ?thesis by (simp add: tape_target_def min_absorb2)
  qed
qed (use assms(2) in simp)

subsection \<open>Calls the replay makes return\<close>

lemma session_init_returns:
  assumes "1 \<le> v" and "1 \<le> mx" and "tokens_ok v prompt" and "tokens_ok v (seed # eos)"
    and "r \<noteq> []" and "vr = 16 \<or> vr = 32"
  shows "\<exists>s. session_init r prompt seed v mx eos Map.empty vr pfs le = Inr s"
proof -
  have "\<forall>t \<in> set prompt. \<not> t < 0" using assms(3) by (auto simp: tokens_ok_def list_all_iff)
  then obtain h where h: "hybrid_init r prompt v Map.empty le 32768 128 (vr - 1) pfs = Inr h"
    using assms by (auto simp: hybrid_init_def hybrid_validate_def lookup_init_def lookup_commit_def
        lookup_owner_def)
  note wf = hybrid_init_wf [OF h]
  have "\<exists>h'. hybrid_commit_verified h r [seed] = Inr h'"
    by (rule hybrid_commit_verified_returns) (use wf assms in \<open>auto simp: lookup_owner_def\<close>)
  moreover have "returned (select_prefix [] [seed] v eos 15)"
    unfolding select_prefix_returns_iff using assms by auto
  ultimately show ?thesis using assms h by (auto simp: session_init_def returned_iff)
qed

lemma session_propose_returns:
  assumes "session_inv prompt seed0 s" and "s_phase s = Idle" and "\<not> s_finished s"
    and "mr \<in> int ` set verifier_widths" and "mr \<le> int (s_verifier_rows s)"
  shows "\<exists>t s'. session_propose s (s_request_id s) mr None = (Inr t, s')"
proof -
  let ?h = "s_drafter s" and ?rem = "int (s_max_new_tokens s) - int (length (s_emitted s))"
  let ?limit = "min mr ?rem"
  from assms(1,2) have d: "drafter_ok prompt s" and e: "emitted_ok prompt seed0 s"
    by (auto simp: session_inv_def)
  from assms(4) have "1 \<le> mr" by (auto simp: verifier_widths_def)
  with e assms(3) have lim: "1 \<le> ?limit" by (auto simp: emitted_ok_def)
  have "\<exists>p. (if ?limit > 1 then hybrid_propose ?h (s_request_id s) (?limit - 1) True True None
    else Inr target_proposal) = Inr p"
  proof (cases "?limit > 1")
    case True
    have "?limit - 1 \<le> l_max_proposals (h_lookup ?h)"
      using d assms(5) by (auto simp: drafter_ok_def)
    with True d hybrid_propose_returns [of ?h "s_request_id s" "?limit - 1" None] show ?thesis
      by (auto simp: drafter_ok_def lookup_owner_def)
  qed auto
  then obtain p where p: "(if ?limit > 1 then hybrid_propose ?h (s_request_id s) (?limit - 1) True True None
    else Inr target_proposal) = Inr p" ..
  have "1 \<le> min ?limit (int (length (p_tokens p)) + 1)" using lim by simp
  then obtain w where "widest (min ?limit (int (length (p_tokens p)) + 1)) = Some w"
    using widest_pos by blast
  with p assms show ?thesis
    by (simp add: session_propose_def session_owner_def Let_def)
qed

lemma session_commit_returns:
  assumes "session_inv prompt seed0 s" and "s_pending s = Some t" and "s_phase s = Pending"
    and "length preds = length (t_tokens t)" and "tokens_ok (s_vocab_size s) preds"
    and "tokens_ok (s_vocab_size s) (s_eos_ids s)" and "\<And>n. publish n = Returns_None"
  shows "\<exists>d s'. session_commit s (s_request_id s) t preds publish None = (Inr d, s')"
proof -
  from assms have t: "ticket_ok s t" and d: "drafter_ok prompt s"
    and vr: "s_verifier_rows s = 16 \<or> s_verifier_rows s = 32"
    by (auto simp: session_inv_def)
  from t have block: "t_tokens t \<noteq> []" "tokens_ok (s_vocab_size s) (tl (t_tokens t))"
    "length (t_tokens t) \<le> s_verifier_rows s"
    by (cases "t_tokens t"; auto simp: ticket_ok_def)+
  have "returned (select_prefix (tl (t_tokens t)) preds (s_vocab_size s) (s_eos_ids s)
    (int (s_verifier_rows s) - 1))"
    unfolding select_prefix_returns_iff
    using vr block d assms(4-6)
    by (cases "t_tokens t") (auto simp: drafter_ok_def hybrid_wf_def)
  then obtain dec where dec: "select_prefix (tl (t_tokens t)) preds (s_vocab_size s) (s_eos_ids s)
    (int (s_verifier_rows s) - 1) = Inr dec" by (auto simp: returned_iff)
  have "\<exists>h. hybrid_commit_verified (s_drafter s) (s_request_id s) (d_emitted dec) = Inr h"
    using d select_prefix_bounds(5) [OF dec]
    by (intro hybrid_commit_verified_returns) (auto simp: drafter_ok_def lookup_owner_def)
  with dec assms show ?thesis
    by (auto simp: session_commit_def ticket_live_def session_owner_def)
qed

subsection \<open>The replay\<close>

text \<open>The loop's invariant: an idle session that has emitted a prefix of the tape, and the reports of
  the blocks that did it.\<close>

definition replay_ok :: "int list \<Rightarrow> int list \<Rightarrow> int \<Rightarrow> int \<Rightarrow> int list \<Rightarrow> session \<Rightarrow> block_report list \<Rightarrow> bool"
  where
  "replay_ok prompt tape v mx eos s blocks \<longleftrightarrow>
     session_inv prompt (hd tape) s \<and> s_phase s = Idle \<and> s_pending s = None
     \<and> serial_so_far (tape_target prompt tape) prompt (hd tape) s
     \<and> s_emitted s = take (length (s_emitted s)) tape
     \<and> s_vocab_size s = v \<and> int (s_max_new_tokens s) = mx \<and> s_eos_ids s = eos
     \<and> s_verifier_rows s = 32
     \<and> sum_list (map b_committed blocks) = s_decode_tokens s
     \<and> length blocks = s_committed_blocks s"

lemma emitted_prefix:
  assumes inv: "session_inv prompt (hd tape) s" and "s_phase s \<noteq> Closed"
    and ser: "serial_so_far (tape_target prompt tape) prompt (hd tape) s"
    and tape: "tape \<noteq> []" "length tape \<noteq> s_max_new_tokens s \<longrightarrow> last tape \<in> set (s_eos_ids s)"
  shows "s_emitted s = take (length (s_emitted s)) tape"
proof -
  from inv assms(2) have em: "emitted_ok prompt (hd tape) s" by (simp add: session_inv_def)
  then obtain ts where ts: "s_emitted s = hd tape # ts"
    by (cases "s_emitted s") (auto simp: emitted_ok_def)
  with ser assms(2)
  have ser': "serial (tape_target prompt tape) (s_eos_ids s) (prompt @ [hd tape]) (length ts) = ts"
    by (simp add: serial_so_far_def)
  have "length ts < length tape"
  proof (rule ccontr)
    assume over: "\<not> length ts < length tape"
    then have "length tape \<noteq> s_max_new_tokens s" using em ts by (auto simp: emitted_ok_def)
    with tape have stop: "last tape \<in> set (s_eos_ids s)" by simp
    define k where "k = length tape - 1"
    from over tape(1) have k: "k < length (butlast (s_emitted s))" "Suc k = length tape"
      using ts by (cases tape; auto simp: k_def)+
    have "(hd tape # ts) ! k = last tape"
    proof (cases k)
      case 0
      with k tape(1) show ?thesis by (cases tape) auto
    next
      case (Suc j)
      then have "j < length ts" using over k by simp
      with serial_nth [of j "tape_target prompt tape" "s_eos_ids s" "prompt @ [hd tape]" "length ts"]
      have "ts ! j = tape ! k" using ser' Suc k by (simp add: tape_target_def min_absorb2)
      with Suc tape(1) show ?thesis by (simp add: last_conv_nth k_def)
    qed
    then have "last tape \<in> set (butlast (s_emitted s))"
      using k(1) ts by (metis nth_butlast nth_mem)
    with em stop show False by (auto simp: emitted_ok_def)
  qed
  from serial_tape_prefix [OF ser' this] ts
  have "s_emitted s = take (Suc (length ts)) tape" by metis
  moreover have "Suc (length ts) = length (s_emitted s)" using ts by simp
  ultimately show ?thesis by metis
qed

lemma score_block_step:
  assumes ok: "replay_ok prompt tape v mx eos s blocks" and nf: "\<not> s_finished s"
    and g: "score_guards prompt tape v mx eos mr mm"
  shows "\<exists>b s'. score_block tape mx mr mm s = (Inr b, s')
    \<and> replay_ok prompt tape v mx eos s' (blocks @ [b])
    \<and> length (s_emitted s) < length (s_emitted s')"
proof -
  from ok have inv: "session_inv prompt (hd tape) s" and idle: "s_phase s = Idle"
    and vr: "s_verifier_rows s = 32" and par: "s_vocab_size s = v" "int (s_max_new_tokens s) = mx"
      "s_eos_ids s = eos"
    by (simp_all add: replay_ok_def)
  from g have mr: "mr \<in> int ` set verifier_widths" "1 \<in> int ` set verifier_widths" "mr \<le> 32" "1 \<le> mr"
    and tape: "tape \<noteq> []" "length tape \<noteq> s_max_new_tokens s \<longrightarrow> last tape \<in> set eos"
    and toks: "tokens_ok v tape" "tokens_ok v eos" "1 \<le> v"
    using par by (auto simp: score_guards_def verifier_widths_def)
  let ?lim = "min mr (mx - int (length (s_emitted s)))"
  have "\<exists>m. (if ?lim > 1 then propose_with_match (h_lookup (s_drafter s)) (s_request_id s) (?lim - 1)
    else Inr ([], 0)) = Inr m"
  proof (cases "?lim > 1")
    case True
    with inv idle vr mr propose_with_match_returns [of "h_lookup (s_drafter s)" "s_request_id s" "?lim - 1"]
    show ?thesis by (fastforce simp: session_inv_def drafter_ok_def lookup_owner_def)
  qed auto
  then obtain ts m where m: "(if ?lim > 1 then propose_with_match (h_lookup (s_drafter s))
    (s_request_id s) (?lim - 1) else Inr ([], 0)) = Inr (ts, m)" by auto
  define sel where "sel = (if int m \<ge> mm then mr else 1)"
  have "sel \<in> int ` set verifier_widths" "sel \<le> int (s_verifier_rows s)"
    using mr vr by (auto simp: sel_def)
  from session_propose_returns [OF inv idle nf this] obtain t s1 where
    t: "session_propose s (s_request_id s) sel None = (Inr t, s1)" by blast
  note pt = session_propose_ticket [OF inv t]
  from session_propose_inv [OF inv, of "s_request_id s" sel None] t
  have inv1: "session_inv prompt (hd tape) s1" by simp
  have f1: "s_request_id s1 = s_request_id s" "s_pending s1 = Some t" "s_phase s1 = Pending"
    "s_emitted s1 = s_emitted s" "s_vocab_size s1 = v" "s_eos_ids s1 = eos" "s_verifier_rows s1 = 32"
    "s_max_new_tokens s1 = s_max_new_tokens s" "s_decode_tokens s1 = s_decode_tokens s"
    "s_committed_blocks s1 = s_committed_blocks s"
    using pt(2) par vr by simp_all
  let ?preds = "tape_rows tape (length (s_emitted s)) (length (t_tokens t))"
  have "\<exists>d s2. session_commit s1 (s_request_id s1) t ?preds (\<lambda>_. Returns_None) None = (Inr d, s2)"
    by (rule session_commit_returns [OF inv1 f1(2,3)]) (use f1 toks in \<open>simp_all add: tape_rows_ok\<close>)
  then obtain d s2 where
    d: "session_commit s1 (s_request_id s1) t ?preds (\<lambda>_. Returns_None) None = (Inr d, s2)" by blast
  note c = session_commit_Inr [OF d] and inv2 = session_commit_inv [OF inv1 d]
  have ne: "s_emitted s \<noteq> []" using inv idle by (auto simp: session_inv_def emitted_ok_def)
  have ver: "target_verified (tape_target prompt tape) prompt s1 t None ?preds"
    using f1 tape_rows_target [OF ne] by (intro target_verified_whole) simp
  have "serial_so_far (tape_target prompt tape) prompt (hd tape) s1"
    using ok idle f1 by (auto simp: serial_so_far_def replay_ok_def)
  note ser2 = commit_serial [OF inv1 this ver d]
  have f2: "s_phase s2 = Idle" "s_pending s2 = None" "s_vocab_size s2 = v" "s_eos_ids s2 = eos"
    "s_verifier_rows s2 = 32" "s_max_new_tokens s2 = s_max_new_tokens s"
    "s_emitted s2 = s_emitted s @ d_emitted d"
    "s_decode_tokens s2 = s_decode_tokens s + length (d_emitted d)"
    "s_committed_blocks s2 = Suc (s_committed_blocks s)"
    using c(4) f1 by auto
  have pre: "s_emitted s2 = take (length (s_emitted s2)) tape"
    by (rule emitted_prefix [OF inv2 _ ser2 tape(1)]) (use f2(1,4,6) tape(2) in simp_all)
  define b where "b = \<lparr>b_rows = length (t_tokens t), b_match_length = m, b_source = t_source t,
    b_accepted = d_accepted d, b_committed = length (d_emitted d), b_position = t_position t\<rparr>"
  have "score_block tape mx mr mm s = (Inr b, s2)"
    using m t d pre unfolding score_block_def Let_def sel_def [symmetric] b_def
    by (simp add: sel_def)
  moreover have "replay_ok prompt tape v mx eos s2 (blocks @ [b])"
  proof -
    have "int (s_max_new_tokens s2) = mx" "length (blocks @ [b]) = s_committed_blocks s2"
      "sum_list (map b_committed (blocks @ [b])) = s_decode_tokens s2"
      using ok f2(6,8,9) par(2) by (simp_all add: replay_ok_def b_def)
    with inv2 ser2 f2(1-5) pre show ?thesis unfolding replay_ok_def by blast
  qed
  moreover have "length (s_emitted s) < length (s_emitted s2)"
    using f2 select_prefix_bounds(1) [OF c(3)] by auto
  ultimately show ?thesis by blast
qed

lemma score_loop_returns:
  assumes "replay_ok prompt tape v mx eos s blocks" and "score_guards prompt tape v mx eos mr mm"
  shows "\<exists>bs s'. score_loop tape mx mr mm s blocks = Some (Inr bs, s')
    \<and> replay_ok prompt tape v mx eos s' bs \<and> s_finished s'"
  using assms(1)
proof (induction "nat mx - length (s_emitted s)" arbitrary: s blocks rule: less_induct)
  case less
  show ?case
  proof (cases "s_finished s")
    case True
    with less.prems show ?thesis by (simp add: score_loop.simps [of _ _ _ _ s])
  next
    case False
    from score_block_step [OF less.prems False assms(2)] obtain b s' where
      b: "score_block tape mx mr mm s = (Inr b, s')" "replay_ok prompt tape v mx eos s' (blocks @ [b])"
      "length (s_emitted s) < length (s_emitted s')" by blast
    have "length (s_emitted s') \<le> nat mx"
      using b(2) by (auto simp: replay_ok_def session_inv_def emitted_ok_def)
    with b(3) have "nat mx - length (s_emitted s') < nat mx - length (s_emitted s)" by simp
    from less.hyps [OF this b(2)] b(1) False show ?thesis
      by (simp add: score_loop.simps [of _ _ _ _ s])
  qed
qed

lemma replay_finished:
  assumes "replay_ok prompt tape v mx eos s blocks" and "s_finished s"
    and "score_guards prompt tape v mx eos mr mm"
  shows "s_emitted s = tape"
proof -
  let ?n = "length (s_emitted s)"
  from assms have em: "emitted_ok prompt (hd tape) s" and pre: "s_emitted s = take ?n tape"
    and mx: "int (s_max_new_tokens s) = mx" "s_eos_ids s = eos"
    by (auto simp: replay_ok_def session_inv_def)
  have "\<not> ?n < length tape"
  proof
    assume less: "?n < length tape"
    from assms(3) have tape: "int (length tape) \<le> mx" "\<forall>t \<in> set (butlast tape). t \<notin> set eos"
      by (auto simp: score_guards_def)
    with less mx em assms(2) have "last (s_emitted s) \<in> set eos" "s_emitted s \<noteq> []"
      by (auto simp: emitted_ok_def)
    moreover have "set (s_emitted s) \<subseteq> set (butlast tape)"
    proof -
      have "butlast tape = take (length tape - 1) tape" by (simp add: butlast_conv_take)
      moreover have "set (take ?n tape) \<subseteq> set (take (length tape - 1) tape)"
        using less by (intro set_take_subset_set_take) simp
      ultimately show ?thesis using pre by metis
    qed
    ultimately show False using tape(2) last_in_set by blast
  qed
  with pre show ?thesis by simp
qed

text \<open>C26: scoring a recorded run never fails. For every tape that passes the guards, every bucket and
  every match threshold, the loop ends, no call of the session raises, neither assertion fires, the
  whole tape is consumed, and the report adds up: every token after the seed is committed by exactly
  one reported block, and the accepted drafts and the one correction per block account for them.\<close>

theorem score_lookup_complete:
  assumes "score_guards prompt tape v mx eos mr mm"
  shows "\<exists>sc. score_lookup prompt tape v mx eos mr mm pfs = Some (Inr sc)
    \<and> sc_committed sc = length tape - 1
    \<and> sum_list (map b_committed (sc_blocks sc)) = sc_committed sc
    \<and> sc_accepted sc \<le> sc_proposed sc \<and> sc_accepted sc \<le> sc_committed sc
    \<and> sc_committed sc \<le> sc_accepted sc + length (sc_blocks sc)
    \<and> length (sc_blocks sc) \<le> sc_committed sc"
proof -
  from assms have g: "1 \<le> v" "1 \<le> mx" "tape \<noteq> []" "tokens_ok v (prompt @ tape @ eos)"
    "int (length tape) \<le> mx"
    by (auto simp: score_guards_def)
  then have hd: "tokens_ok v [hd tape]" "hd tape # tl tape = tape" by (cases tape; auto)+
  from session_init_returns [OF g(1,2), of prompt "hd tape" eos "''offline-lookup''" 32 pfs True] g(4) hd(1)
  obtain s0 where s0:
    "session_init ''offline-lookup'' prompt (hd tape) v mx eos Map.empty 32 pfs True = Inr s0" by auto
  note i = session_init_inv [OF s0]
  have i2: "s_pending s0 = None" "s_verifier_rows s0 = 32" "s_decode_tokens s0 = 0"
    "s_committed_blocks s0 = 0"
    using s0 by (auto simp: session_init_def rbind_Inr_iff split: if_splits)
  have "replay_ok prompt tape v mx eos s0 []"
    using i i2 g hd by (cases tape) (auto simp: replay_ok_def serial_so_far_def)
  from score_loop_returns [OF this assms] obtain bs s where
    loop: "score_loop tape mx mr mm s0 [] = Some (Inr bs, s)"
    and ok: "replay_ok prompt tape v mx eos s bs" and fin: "s_finished s" by blast
  have em: "s_emitted s = tape" by (rule replay_finished [OF ok fin assms])
  from ok have co: "counters_ok s" and idle: "s_phase s = Idle" and inv: "session_inv prompt (hd tape) s"
    by (auto simp: replay_ok_def session_inv_def)
  have "\<exists>s'. session_close s (s_request_id s) = (Inr (), s')"
    using inv idle
    by (auto simp: session_close_def session_inv_def drafter_ok_def hybrid_close_def
        lookup_close_def lookup_owner_def)
  with s0 loop em assms co ok show ?thesis
    by (auto simp: score_lookup_def counters_ok_def replay_ok_def)
qed

theorem score_lookup_complete_witness:
  "\<exists>sc. score_lookup [5, 6, 5] [6, 5, 6, 9] 10 32 [9] 4 1 False = Some (Inr sc) \<and> sc_committed sc = 3"
  using score_lookup_complete [of "[5, 6, 5]" "[6, 5, 6, 9]" 10 32 "[9]" 4 1 False]
  by (auto simp: score_guards_def)

end
