(* ===== verification/Transition.thy ===== *)
theory Transition
  imports Prelude
begin

text \<open>
  Transition systems: the states reachable from the initial ones, and the interfaces through which
  the components' invariants and latches are used. A component gives its steps as an inductive
  relation, shows what each operation keeps, and interprets a locale; what holds in every
  reachable state then comes from the locale.
\<close>

inductive reachable :: "('s \<Rightarrow> bool) \<Rightarrow> ('s \<Rightarrow> 's \<Rightarrow> bool) \<Rightarrow> 's \<Rightarrow> bool"
  for init :: "'s \<Rightarrow> bool" and step :: "'s \<Rightarrow> 's \<Rightarrow> bool" where
  initial: "init s \<Longrightarrow> reachable init step s"
| step: "reachable init step s \<Longrightarrow> step s s' \<Longrightarrow> reachable init step s'"

inductive steps :: "('s \<Rightarrow> 's \<Rightarrow> bool) \<Rightarrow> 's \<Rightarrow> 's \<Rightarrow> bool" for step :: "'s \<Rightarrow> 's \<Rightarrow> bool" where
  none: "steps step s s"
| more: "steps step s s' \<Longrightarrow> step s' s'' \<Longrightarrow> steps step s s''"

lemma steps_one: "step s s' \<Longrightarrow> steps step s s'"
  by (rule steps.more [OF steps.none])

lemma steps_trans: "steps step s s' \<Longrightarrow> steps step s' s'' \<Longrightarrow> steps step s s''"
  by (rotate_tac, induction rule: steps.induct) (auto intro: steps.more)

lemma reachable_steps: "reachable init step s \<Longrightarrow> steps step s s' \<Longrightarrow> reachable init step s'"
  by (rotate_tac, induction rule: steps.induct) (auto intro: reachable.step)

text \<open>A system with an invariant.\<close>

locale invariant_system =
  fixes init :: "'s \<Rightarrow> bool" and step :: "'s \<Rightarrow> 's \<Rightarrow> bool" and inv :: "'s \<Rightarrow> bool"
  assumes inv_init: "init s \<Longrightarrow> inv s"
    and inv_step: "inv s \<Longrightarrow> step s s' \<Longrightarrow> inv s'"
begin

lemma inv_reachable: "reachable init step s \<Longrightarrow> inv s"
  by (induction rule: reachable.induct) (auto intro: inv_init inv_step)

lemma inv_steps: "steps step s s' \<Longrightarrow> inv s \<Longrightarrow> inv s'"
  by (induction rule: steps.induct) (auto intro: inv_step)

end

text \<open>A system in which a condition, once it holds, holds for good.\<close>

locale latched_system = invariant_system +
  fixes latch :: "'s \<Rightarrow> bool"
  assumes latch_step: "inv s \<Longrightarrow> step s s' \<Longrightarrow> latch s \<Longrightarrow> latch s'"
begin

lemma latch_steps: "steps step s s' \<Longrightarrow> inv s \<Longrightarrow> latch s \<Longrightarrow> latch s'"
proof (induction rule: steps.induct)
  case none
  then show ?case by simp
next
  case (more s s' s'')
  have "inv s'" using more.hyps(1) more.prems(1) by (rule inv_steps)
  with more show ?case by (auto intro: latch_step)
qed

lemma latch_reachable: "reachable init step s \<Longrightarrow> steps step s s' \<Longrightarrow> latch s \<Longrightarrow> latch s'"
  by (auto intro: latch_steps inv_reachable)

end

end
