(* ===== verification/PrefixRegistry.thy ===== *)
theory PrefixRegistry
  imports Transition
begin

text \<open>
  The checkpoint registry of conversation prefix reuse, \<open>scripts/ci/qwen_prefix_registry.py\<close>: an
  LRU of model states saved at 2048-token boundaries, bounded by bytes, and the ledger of the grants
  that let an admission restore one of them.

  Python's checkpoints are objects that the LRU and the grants share, so they live in the heap
  \<open>r_heap\<close>, at their \<open>serial\<close> (unique per process); entries and grants hold references. A saved
  model state (\<open>rec\<close> and \<open>carry\<close>) is a value of a type parameter: the device tensors are not read
  here. Grants are held by one dictionary at a time and are values. The stats are the counters of
  \<open>STAT_NAMES\<close> but for the two sums of floating-point milliseconds.
\<close>

definition CHUNK :: int where "CHUNK = 2048"
definition BLOCK :: int where "BLOCK = 64"
definition CHECKPOINT_NBYTES :: int where
  "CHECKPOINT_NBYTES = 2 * 48 * (24 * 128 * 128 * 4 + 3 * 5120 * 2)"

datatype stat =
    St_attempts | St_staged | St_dropped_attempts | St_commit_mismatch | St_admissions | St_grants
  | St_grant_tokens | St_trim_loss_tokens | St_kv_hit_without_checkpoint | St_orphans
  | St_same_step_rejects | St_token_checks | St_token_mismatches | St_unsalted_denied
  | St_session_denied | St_killed_denied | St_publish_capped | St_captures | St_capture_replaced
  | St_capture_kept_pinned | St_capture_failures | St_capture_wrong_position
  | St_capture_skipped_budget | St_capture_disabled | St_mid_loop_unplanned | St_evicted_lru
  | St_evicted_coupled | St_dropped | St_clears | St_reset_kept | St_freed_requests | St_restores
  | St_dropped_hits | St_program_growth

type_synonym block_hash = nat
type_synonym req_id = string

definition floor_chunk :: "int \<Rightarrow> int" where
  "floor_chunk tokens = (tokens div CHUNK) * CHUNK"

record 's checkpoint =
  c_key :: block_hash
  c_pos :: int
  c_token_ids :: "int list"
  c_rec :: "'s option"
  c_carry :: "'s option"
  c_nbytes :: int
  c_pins :: nat
  c_serial :: nat

definition checkpoint_matches :: "'s checkpoint \<Rightarrow> int list \<Rightarrow> bool" where
  "checkpoint_matches c tokens \<longleftrightarrow> int (length tokens) = c_pos c \<and> c_token_ids c = tokens"

text \<open>A grant's \<open>request\<close> is the reference whose \<open>all_token_ids\<close> the commit reads: here the id, looked
  up among the requests' tokens at the commit.\<close>

record grant =
  g_req_id :: req_id
  g_q :: int
  g_h :: int
  g_key :: "block_hash option"
  g_checkpoint :: "nat option"
  g_plan :: "(int \<times> block_hash) list"
  g_request :: "req_id option"
  g_tokens :: "int list option"
  g_drain :: int
  g_unplanned :: "int list"

definition make_grant ::
  "req_id \<Rightarrow> int \<Rightarrow> int \<Rightarrow> block_hash option \<Rightarrow> nat option \<Rightarrow> (int \<times> block_hash) list \<Rightarrow> req_id
     \<Rightarrow> int option \<Rightarrow> int list \<Rightarrow> grant" where
  "make_grant req_id q h key checkpoint plan request drain unplanned =
     \<lparr>g_req_id = req_id, g_q = q, g_h = h, g_key = key, g_checkpoint = checkpoint, g_plan = plan,
      g_request = Some request, g_tokens = None,
      g_drain = (case drain of None \<Rightarrow> fold max (map fst plan) q | Some d \<Rightarrow> d),
      g_unplanned = unplanned\<rparr>"

definition capture_positions :: "grant \<Rightarrow> int list" where
  "capture_positions g = sort (map fst (g_plan g))"

definition mid_loop_positions :: "grant \<Rightarrow> int list" where
  "mid_loop_positions g = filter (\<lambda>pos. pos < g_drain g) (capture_positions g)"

subsection \<open>The kill switch\<close>

text \<open>\<open>k_path\<close> is None where the path is empty. Times are readings of the monotonic clock, here
  whole ticks; \<open>present\<close> is what \<open>os.path.exists\<close> says at this call, or the exception it raised.\<close>

record kill_switch =
  k_path :: "string option"
  k_poll_s :: int
  k_engaged :: bool
  k_last_poll :: "int option"

definition kill_switch_poll :: "kill_switch \<Rightarrow> int \<Rightarrow> bool result \<Rightarrow> bool \<times> kill_switch" where
  "kill_switch_poll k now exists_flag =
     (if k_engaged k \<or> k_path k = None then (False, k)
      else if (case k_last_poll k of None \<Rightarrow> False | Some t \<Rightarrow> now - t < k_poll_s k) then (False, k)
      else
        (let k = k\<lparr>k_last_poll := Some now\<rparr>;
             present = (case exists_flag of Inl _ \<Rightarrow> False | Inr b \<Rightarrow> b)
         in (present, if present then k\<lparr>k_engaged := True\<rparr> else k)))"

subsection \<open>The registry\<close>

record 's registry =
  r_budget_bytes :: int
  r_entries :: "(block_hash \<times> nat) list"
  r_heap :: "nat \<Rightarrow> 's checkpoint option"
  r_bytes :: int
  r_staged :: "(req_id \<times> grant) list"
  r_committed :: "(req_id \<times> grant) list"
  r_same_step_blocks :: "nat set"
  r_disabled :: "string option"
  r_mid_loop_capture :: bool
  r_orphan_keys :: "block_hash set"
  r_token_checks :: "req_id \<Rightarrow> int \<Rightarrow> (nat \<times> bool) option"
  r_stats :: "stat \<Rightarrow> int"
  r_owner :: "nat option"
  r_next_serial :: nat

definition registry_init :: "int \<Rightarrow> 's registry" where
  "registry_init budget_bytes =
     \<lparr>r_budget_bytes = budget_bytes, r_entries = [], r_heap = (\<lambda>_. None), r_bytes = 0,
      r_staged = [], r_committed = [], r_same_step_blocks = {}, r_disabled = None,
      r_mid_loop_capture = False, r_orphan_keys = {}, r_token_checks = (\<lambda>_ _. None),
      r_stats = (\<lambda>_. 0), r_owner = None, r_next_serial = 1\<rparr>"

definition bump :: "stat \<Rightarrow> int \<Rightarrow> 's registry \<Rightarrow> 's registry" where
  "bump st n r = r\<lparr>r_stats := (r_stats r)(st := r_stats r st + n)\<rparr>"

definition pins_of :: "'s registry \<Rightarrow> nat \<Rightarrow> nat" where
  "pins_of r serial = (case r_heap r serial of None \<Rightarrow> 0 | Some c \<Rightarrow> c_pins c)"

definition nbytes_of :: "'s registry \<Rightarrow> nat \<Rightarrow> int" where
  "nbytes_of r serial = (case r_heap r serial of None \<Rightarrow> 0 | Some c \<Rightarrow> c_nbytes c)"

definition set_pins :: "(nat \<Rightarrow> nat) \<Rightarrow> nat \<Rightarrow> 's registry \<Rightarrow> 's registry" where
  "set_pins f serial r =
     r\<lparr>r_heap := (r_heap r)(serial := map_option (\<lambda>c. c\<lparr>c_pins := f (c_pins c)\<rparr>) (r_heap r serial))\<rparr>"

definition registry_get :: "'s registry \<Rightarrow> block_hash \<Rightarrow> nat option" where
  "registry_get r key = map_of (r_entries r) key"

definition move_to_end :: "block_hash \<Rightarrow> 's registry \<Rightarrow> 's registry" where
  "move_to_end key r =
     (case map_of (r_entries r) key of
        None \<Rightarrow> r
      | Some serial \<Rightarrow> r\<lparr>r_entries := dict_del key (r_entries r) @ [(key, serial)]\<rparr>)"

definition registry_touch :: "block_hash \<Rightarrow> 's registry \<Rightarrow> 's registry" where
  "registry_touch key r = (if key \<in> fst ` set (r_entries r) then move_to_end key r else r)"

definition remove_entry :: "'s registry \<Rightarrow> block_hash \<Rightarrow> nat option \<times> 's registry" where
  "remove_entry r key =
     (case map_of (r_entries r) key of
        None \<Rightarrow> (None, r)
      | Some serial \<Rightarrow>
          (Some serial, r\<lparr>r_entries := dict_del key (r_entries r),
                         r_bytes := r_bytes r - nbytes_of r serial,
                         r_orphan_keys := r_orphan_keys r - {key}\<rparr>))"

definition evicted_stat :: "string \<Rightarrow> stat" where
  "evicted_stat reason = (if reason = ''coupled'' then St_evicted_coupled
     else if reason = ''lru'' then St_evicted_lru else St_dropped)"

definition registry_drop :: "'s registry \<Rightarrow> block_hash \<Rightarrow> string \<Rightarrow> nat option \<times> 's registry" where
  "registry_drop r key reason =
     (case remove_entry r key of
        (None, r) \<Rightarrow> (None, r)
      | (Some serial, r) \<Rightarrow> (Some serial, bump (evicted_stat reason) 1 r))"

text \<open>The loop over the keys the LRU had when it began, oldest first.\<close>

fun enforce_scan :: "block_hash list \<Rightarrow> 's registry \<Rightarrow> 's registry" where
  "enforce_scan [] r = r"
| "enforce_scan (key # keys) r =
     (if r_bytes r \<le> r_budget_bytes r then r
      else
        (case map_of (r_entries r) key of
           None \<Rightarrow> enforce_scan keys r
         | Some serial \<Rightarrow>
             if pins_of r serial \<noteq> 0 then enforce_scan keys r
             else enforce_scan keys (bump St_evicted_lru 1 (snd (remove_entry r key)))))"

definition enforce_budget :: "'s registry \<Rightarrow> 's registry" where
  "enforce_budget r =
     (if r_bytes r \<le> r_budget_bytes r then r else enforce_scan (map fst (r_entries r)) r)"

definition registry_clear :: "'s registry \<Rightarrow> 's registry" where
  "registry_clear r =
     bump St_clears 1 (r\<lparr>r_entries := [], r_bytes := 0, r_orphan_keys := {},
                         r_token_checks := (\<lambda>_ _. None)\<rparr>)"

definition registry_disable :: "string \<Rightarrow> 's registry \<Rightarrow> 's registry" where
  "registry_disable reason r =
     registry_clear (if r_disabled r = None then r\<lparr>r_disabled := Some reason\<rparr> else r)"

text \<open>\<open>put\<close>: the checkpoint stored or kept under the key, None where it was skipped.\<close>

definition registry_put ::
  "'s registry \<Rightarrow> block_hash \<Rightarrow> int \<Rightarrow> int list \<Rightarrow> 's option \<Rightarrow> 's option \<Rightarrow> int
     \<Rightarrow> nat option result \<times> 's registry" where
  "registry_put r key pos token_ids rec carry nbytes =
     (if pos \<le> 0 \<or> pos mod CHUNK \<noteq> 0 then (Inl ValueError, r)
      else if int (length token_ids) \<noteq> pos then (Inl ValueError, r)
      else if r_disabled r \<noteq> None then (Inr None, bump St_capture_disabled 1 r)
      else if nbytes > r_budget_bytes r then (Inr None, bump St_capture_skipped_budget 1 r)
      else
        (let old = registry_get r key in
         if (case old of None \<Rightarrow> False | Some serial \<Rightarrow> pins_of r serial \<noteq> 0)
         then (Inr old, bump St_capture_kept_pinned 1 (move_to_end key r))
         else
           (let r1 = (if old \<noteq> None
                      then bump St_capture_replaced 1 (snd (remove_entry r key)) else r);
                serial = r_next_serial r1;
                checkpoint = \<lparr>c_key = key, c_pos = pos, c_token_ids = token_ids, c_rec = rec,
                  c_carry = carry, c_nbytes = nbytes, c_pins = 0, c_serial = serial\<rparr>;
                r2 = r1\<lparr>r_next_serial := serial + 1,
                        r_heap := (r_heap r1)(serial := Some checkpoint),
                        r_entries := dict_set key serial (r_entries r1),
                        r_bytes := r_bytes r1 + nbytes\<rparr>
            in (Inr (Some serial), enforce_budget (bump St_captures 1 r2)))))"

subsection \<open>The trim's helpers\<close>

text \<open>\<open>tokens\<close> is what the callable returns: the request's token ids now.\<close>

definition token_check_run ::
  "'s registry \<Rightarrow> req_id \<Rightarrow> int \<Rightarrow> nat \<Rightarrow> int list \<Rightarrow> bool \<times> 's registry" where
  "token_check_run r req_id candidate serial tokens =
     (let r1 = bump St_token_checks 1 r;
          verdict = (case r_heap r serial of
                       None \<Rightarrow> False
                     | Some entry \<Rightarrow> c_pos entry = candidate
                         \<and> checkpoint_matches entry (py_prefix candidate tokens));
          r2 = (if verdict then r1 else bump St_token_mismatches 1 r1)
      in (verdict, r2\<lparr>r_token_checks := (r_token_checks r2)
            (req_id := (r_token_checks r2 req_id)(candidate := Some (serial, verdict)))\<rparr>))"

definition tokens_match ::
  "'s registry \<Rightarrow> req_id \<Rightarrow> int \<Rightarrow> nat \<Rightarrow> int list \<Rightarrow> bool \<times> 's registry" where
  "tokens_match r req_id candidate serial tokens =
     (case r_token_checks r req_id candidate of
        Some (seen, verdict) \<Rightarrow>
          if seen = serial then (verdict, r)
          else token_check_run r req_id candidate serial tokens
      | None \<Rightarrow> token_check_run r req_id candidate serial tokens)"

definition note_orphan :: "block_hash \<Rightarrow> 's registry \<Rightarrow> 's registry" where
  "note_orphan key r =
     (if key \<in> fst ` set (r_entries r) \<and> key \<notin> r_orphan_keys r
      then bump St_orphans 1 (r\<lparr>r_orphan_keys := insert key (r_orphan_keys r)\<rparr>) else r)"

subsection \<open>Grants\<close>

definition unpin :: "grant \<Rightarrow> 's registry \<Rightarrow> 's registry" where
  "unpin g r =
     (case g_checkpoint g of
        None \<Rightarrow> r
      | Some serial \<Rightarrow> if pins_of r serial > 0 then set_pins (\<lambda>n. n - 1) serial r else r)"

definition begin_step :: "'s registry \<Rightarrow> 's registry" where
  "begin_step r =
     enforce_budget ((fold unpin (map snd (r_committed r)) r)
       \<lparr>r_committed := [], r_staged := [], r_same_step_blocks := {}\<rparr>)"

definition stage :: "grant \<Rightarrow> 's registry \<Rightarrow> 's registry" where
  "stage g r = bump St_staged 1 (r\<lparr>r_staged := dict_set (g_req_id g) g (r_staged r)\<rparr>)"

definition unstage :: "req_id \<Rightarrow> 's registry \<Rightarrow> 's registry" where
  "unstage req_id r = r\<lparr>r_staged := dict_del req_id (r_staged r)\<rparr>"

text \<open>One staged grant of the commit. \<open>all_tokens\<close> gives each request's token ids now.\<close>

definition commit_grant ::
  "(req_id \<Rightarrow> int option) \<Rightarrow> (req_id \<Rightarrow> int list) \<Rightarrow> req_id \<times> grant
     \<Rightarrow> grant list \<times> 's registry \<Rightarrow> grant list \<times> 's registry" where
  "commit_grant admitted all_tokens = (\<lambda>(req_id, g) (done_grants, r).
     (case admitted req_id of
        None \<Rightarrow>
          (done_grants,
           let r = bump St_dropped_attempts 1 r
           in if g_q g \<noteq> 0 then bump St_dropped_hits 1 r else r)
      | Some start_pos \<Rightarrow>
          if start_pos \<noteq> g_q g then (done_grants, bump St_commit_mismatch 1 r)
          else
            (let g1 = (if g_plan g \<noteq> []
                       then g\<lparr>g_tokens := Some (py_prefix (Max (set (map fst (g_plan g))))
                              (case g_request g of None \<Rightarrow> [] | Some q \<Rightarrow> all_tokens q))\<rparr>
                       else g);
                 r1 = (case g_checkpoint g of
                         None \<Rightarrow> r
                       | Some serial \<Rightarrow>
                           (let r = set_pins Suc serial r;
                                r = (case g_key g of None \<Rightarrow> r | Some key \<Rightarrow>
                                       (registry_touch key r)
                                         \<lparr>r_orphan_keys := r_orphan_keys r - {key}\<rparr>)
                            in bump St_grant_tokens (g_q g) (bump St_grants 1 r)));
                 r2 = bump St_mid_loop_unplanned (int (length (g_unplanned g)))
                        (bump St_trim_loss_tokens (g_h g - g_q g) (bump St_admissions 1 r1));
                 r3 = (if floor_chunk (g_h g) > g_q g
                       then bump St_kv_hit_without_checkpoint 1 r2 else r2);
                 g2 = g1\<lparr>g_request := None\<rparr>
             in (done_grants @ [g2],
                 r3\<lparr>r_committed := dict_set req_id g2 (r_committed r3)\<rparr>))))"

definition registry_commit ::
  "(req_id \<Rightarrow> int option) \<Rightarrow> (req_id \<Rightarrow> int list) \<Rightarrow> 's registry \<Rightarrow> grant list \<times> 's registry" where
  "registry_commit admitted all_tokens r =
     (case fold (commit_grant admitted all_tokens) (r_staged r) ([], r) of
        (done_grants, r) \<Rightarrow> (done_grants, r\<lparr>r_staged := []\<rparr>))"

definition grant_for :: "'s registry \<Rightarrow> req_id \<Rightarrow> grant option" where
  "grant_for r req_id = map_of (r_committed r) req_id"

text \<open>The body of the \<open>try\<close>, which may raise, and \<open>capture\<close>, which never does. \<open>dict(plan)\<close> keeps
  the last key of a boundary named twice.\<close>

definition capture_body ::
  "'s registry \<Rightarrow> req_id \<Rightarrow> int \<Rightarrow> 's option \<Rightarrow> 's option \<Rightarrow> int option \<Rightarrow> int option
     \<Rightarrow> nat option result \<times> 's registry" where
  "capture_body r req_id pos rec carry nbytes loop_pos =
     (case grant_for r req_id of
        None \<Rightarrow> (Inl KeyError, r)
      | Some g \<Rightarrow>
          (case map_of (rev (g_plan g)) pos of
             None \<Rightarrow> (Inl KeyError, r)
           | Some key \<Rightarrow>
               if loop_pos \<noteq> Some pos then (Inl ValueError, bump St_capture_wrong_position 1 r)
               else
                 (case g_tokens g of
                    None \<Rightarrow> (Inl TypeError, r)
                  | Some tokens \<Rightarrow>
                      registry_put r key pos (py_prefix pos tokens) rec carry
                        (case nbytes of None \<Rightarrow> CHECKPOINT_NBYTES | Some n \<Rightarrow> n))))"

definition registry_capture ::
  "'s registry \<Rightarrow> req_id \<Rightarrow> int \<Rightarrow> 's option \<Rightarrow> 's option \<Rightarrow> int option \<Rightarrow> int option
     \<Rightarrow> nat option \<times> 's registry" where
  "registry_capture r req_id pos rec carry nbytes loop_pos =
     (case capture_body r req_id pos rec carry nbytes loop_pos of
        (Inl e, r) \<Rightarrow> (None, bump St_capture_failures 1 r)
      | (Inr x, r) \<Rightarrow> (x, r))"

definition note_restore :: "'s registry \<Rightarrow> 's registry" where
  "note_restore r = bump St_restores 1 r"

definition forget_request :: "req_id \<Rightarrow> 's registry \<Rightarrow> bool \<times> 's registry" where
  "forget_request req_id r =
     (let found = (map_of (r_staged r) req_id \<noteq> None);
          r1 = r\<lparr>r_token_checks := (r_token_checks r)(req_id := (\<lambda>_. None)),
                r_staged := dict_del req_id (r_staged r)\<rparr>;
          g = map_of (r_committed r1) req_id;
          r2 = r1\<lparr>r_committed := dict_del req_id (r_committed r1)\<rparr>;
          r3 = (case g of None \<Rightarrow> r2 | Some g \<Rightarrow> unpin g r2);
          found = (found \<or> g \<noteq> None)
      in (found, if found then bump St_freed_requests 1 r3 else r3))"

definition registry_pins :: "'s registry \<Rightarrow> nat" where
  "registry_pins r = sum_list (map (\<lambda>(_, serial). pins_of r serial) (r_entries r))"

definition enable_mid_loop_capture :: "'s registry \<Rightarrow> 's registry" where
  "enable_mid_loop_capture r =
     (if \<not> r_mid_loop_capture r then r\<lparr>r_mid_loop_capture := True\<rparr> else r)"

text \<open>\<open>bind\<close>: owners are identities, held weakly. \<open>alive\<close> is whether one is alive when the method
  looks, \<open>survives\<close> whether it still is after the collection.\<close>

definition registry_bind ::
  "(nat \<Rightarrow> bool) \<Rightarrow> (nat \<Rightarrow> bool) \<Rightarrow> nat \<Rightarrow> 's registry \<Rightarrow> unit result \<times> 's registry" where
  "registry_bind alive survives owner r =
     (let live = (\<lambda>p. case r_owner r of None \<Rightarrow> None | Some w \<Rightarrow> if p w then Some w else None) in
      if live alive = Some owner then (Inr (), r)
      else if live alive \<noteq> None \<and> live survives \<noteq> None then (Inl RuntimeError, r)
      else
        (let r1 = (if r_owner r \<noteq> None
                   then (registry_clear r)\<lparr>r_staged := [], r_committed := [],
                          r_same_step_blocks := {}\<rparr> else r)
         in (Inr (), r1\<lparr>r_owner := Some owner\<rparr>)))"

subsection \<open>The counters' export\<close>

record snapshot =
  sn_stats :: "stat \<Rightarrow> int"
  sn_entries :: nat
  sn_bytes :: int
  sn_budget_bytes :: int
  sn_pins :: nat
  sn_staged_now :: nat
  sn_committed_now :: nat
  sn_orphans_now :: nat
  sn_mid_loop_capture :: bool
  sn_disabled :: "string option"

definition registry_snapshot :: "'s registry \<Rightarrow> snapshot" where
  "registry_snapshot r =
     \<lparr>sn_stats = r_stats r, sn_entries = length (r_entries r), sn_bytes = r_bytes r,
      sn_budget_bytes = r_budget_bytes r, sn_pins = registry_pins r,
      sn_staged_now = length (r_staged r), sn_committed_now = length (r_committed r),
      sn_orphans_now = card (r_orphan_keys r), sn_mid_loop_capture = r_mid_loop_capture r,
      sn_disabled = r_disabled r\<rparr>"

record stats_export =
  se_path :: string
  se_interval :: int
  se_last_time :: "int option"
  se_last_values :: "snapshot option"
  se_write_failed :: bool
  se_exports :: nat

text \<open>\<open>now\<close> is the clock's reading, or the exception it raised; \<open>written\<close> is whether the file could be
  written.\<close>

definition export_write :: "bool \<Rightarrow> stats_export \<Rightarrow> stats_export" where
  "export_write written se =
     (if written then se
      else if \<not> se_write_failed se then se\<lparr>se_write_failed := True\<rparr> else se)"

definition maybe_export ::
  "int result \<Rightarrow> bool \<Rightarrow> bool \<Rightarrow> 's registry \<Rightarrow> stats_export \<Rightarrow> bool \<times> stats_export" where
  "maybe_export now_or_error written force r se =
     (case now_or_error of
        Inl _ \<Rightarrow> (False, if \<not> se_write_failed se then se\<lparr>se_write_failed := True\<rparr> else se)
      | Inr now \<Rightarrow>
          if \<not> force \<and> (case se_last_time se of None \<Rightarrow> False | Some t \<Rightarrow> now - t < se_interval se)
          then (False, se)
          else
            (let se1 = se\<lparr>se_last_time := Some now\<rparr>;
                 values = registry_snapshot r
             in if Some values = se_last_values se1 \<and> \<not> force then (False, se1)
                else
                  (let se2 = se1\<lparr>se_last_values := Some values, se_exports := se_exports se1 + 1\<rparr>
                   in (True, if se_path se2 \<noteq> [] then export_write written se2 else se2))))"

end
