(* ===== verification/RegistryInvariant.thy ===== *)
theory RegistryInvariant
  imports PrefixRegistry
begin

text \<open>
  The registry's invariant and what each operation keeps of it; the eviction's exact choice.
\<close>

lemma bump_frame [simp]:
  "r_entries (bump st n r) = r_entries r" "r_heap (bump st n r) = r_heap r"
  "r_bytes (bump st n r) = r_bytes r" "r_budget_bytes (bump st n r) = r_budget_bytes r"
  "r_staged (bump st n r) = r_staged r" "r_committed (bump st n r) = r_committed r"
  "r_disabled (bump st n r) = r_disabled r" "r_orphan_keys (bump st n r) = r_orphan_keys r"
  "r_token_checks (bump st n r) = r_token_checks r" "r_next_serial (bump st n r) = r_next_serial r"
  "r_mid_loop_capture (bump st n r) = r_mid_loop_capture r"
  "r_same_step_blocks (bump st n r) = r_same_step_blocks r" "r_owner (bump st n r) = r_owner r"
  by (simp_all add: bump_def)

text \<open>A stored checkpoint, wherever it is referenced from.\<close>

definition checkpoint_ok :: "int \<Rightarrow> nat \<Rightarrow> 's checkpoint \<Rightarrow> bool" where
  "checkpoint_ok budget s c \<longleftrightarrow> c_serial c = s \<and> 0 < c_pos c \<and> CHUNK dvd c_pos c
     \<and> int (length (c_token_ids c)) = c_pos c \<and> c_nbytes c \<le> budget"

definition heap_ok :: "'s registry \<Rightarrow> bool" where
  "heap_ok r \<longleftrightarrow> (\<forall>s c. r_heap r s = Some c \<longrightarrow>
     s < r_next_serial r \<and> checkpoint_ok (r_budget_bytes r) s c)"

definition store_ok :: "'s registry \<Rightarrow> bool" where
  "store_ok r \<longleftrightarrow> dict_ok (r_entries r) \<and> heap_ok r
     \<and> (\<forall>k s. (k, s) \<in> set (r_entries r) \<longrightarrow> (\<exists>c. r_heap r s = Some c \<and> c_key c = k))
     \<and> r_bytes r = sum_list (map (\<lambda>(_, s). nbytes_of r s) (r_entries r))
     \<and> r_orphan_keys r \<subseteq> fst ` set (r_entries r)
     \<and> (r_disabled r \<noteq> None \<longrightarrow> r_entries r = [])"

text \<open>How many committed grants restore the checkpoint \<open>s\<close>.\<close>

definition refs :: "'s registry \<Rightarrow> nat \<Rightarrow> nat" where
  "refs r s = length (filter (\<lambda>(_, g). g_checkpoint g = Some s) (r_committed r))"

definition ledger_ok :: "'s registry \<Rightarrow> bool" where
  "ledger_ok r \<longleftrightarrow> dict_ok (r_staged r) \<and> dict_ok (r_committed r)
     \<and> (\<forall>i g s. (i, g) \<in> set (r_staged r) \<or> (i, g) \<in> set (r_committed r) \<longrightarrow>
           g_checkpoint g = Some s \<longrightarrow> r_heap r s \<noteq> None)
     \<and> (\<forall>k s. (k, s) \<in> set (r_entries r) \<longrightarrow> pins_of r s = refs r s)"

definition registry_ok :: "'s registry \<Rightarrow> bool" where
  "registry_ok r \<longleftrightarrow> store_ok r \<and> ledger_ok r"

lemma store_ok_cong:
  assumes "r_entries r' = r_entries r" and "r_heap r' = r_heap r" and "r_bytes r' = r_bytes r"
    and "r_budget_bytes r' = r_budget_bytes r" and "r_orphan_keys r' = r_orphan_keys r"
    and "r_next_serial r' = r_next_serial r" and "r_disabled r' = r_disabled r"
  shows "store_ok r' = store_ok r"
  using assms by (simp add: store_ok_def heap_ok_def nbytes_of_def)

lemma ledger_ok_cong:
  assumes "r_entries r' = r_entries r" and "r_heap r' = r_heap r"
    and "r_staged r' = r_staged r" and "r_committed r' = r_committed r"
  shows "ledger_ok r' = ledger_ok r"
  using assms by (simp add: ledger_ok_def refs_def pins_of_def)

lemma registry_ok_bump [simp]: "registry_ok (bump st n r) = registry_ok r"
  by (simp add: registry_ok_def store_ok_cong [of "bump st n r" r] ledger_ok_cong [of "bump st n r" r])

lemma store_ok_bump [simp]: "store_ok (bump st n r) = store_ok r"
  by (rule store_ok_cong) simp_all

lemma ledger_ok_bump [simp]: "ledger_ok (bump st n r) = ledger_ok r"
  by (rule ledger_ok_cong) simp_all

lemma entry_heap: "store_ok r \<Longrightarrow> (k, s) \<in> set (r_entries r) \<Longrightarrow> \<exists>c. r_heap r s = Some c \<and> c_key c = k"
  by (auto simp: store_ok_def)

lemma registry_get_heap: "store_ok r \<Longrightarrow> registry_get r k = Some s \<Longrightarrow> r_heap r s \<noteq> None"
  by (metis entry_heap map_of_SomeD option.distinct(1) registry_get_def)

lemma ledger_ref:
  "ledger_ok r \<Longrightarrow> (i, g) \<in> set (r_staged r) \<or> (i, g) \<in> set (r_committed r) \<Longrightarrow>
     g_checkpoint g = Some s \<Longrightarrow> r_heap r s \<noteq> None"
  by (auto simp: ledger_ok_def)

subsection \<open>Removing an entry and ordering the LRU\<close>

lemma remove_entry_frame [simp]:
  "r_heap (snd (remove_entry r k)) = r_heap r" "r_staged (snd (remove_entry r k)) = r_staged r"
  "r_committed (snd (remove_entry r k)) = r_committed r"
  "r_budget_bytes (snd (remove_entry r k)) = r_budget_bytes r"
  "r_disabled (snd (remove_entry r k)) = r_disabled r"
  "r_token_checks (snd (remove_entry r k)) = r_token_checks r"
  "r_next_serial (snd (remove_entry r k)) = r_next_serial r"
  by (simp_all add: remove_entry_def split: option.splits)

lemma remove_entry_entries [simp]: "r_entries (snd (remove_entry r k)) = dict_del k (r_entries r)"
  by (auto simp: remove_entry_def map_of_None_keys dict_del_absent split: option.splits)

lemma remove_entry_store: "store_ok r \<Longrightarrow> store_ok (snd (remove_entry r k))"
proof (cases "map_of (r_entries r) k")
  case None
  then show "store_ok r \<Longrightarrow> ?thesis" by (simp add: remove_entry_def)
next
  case (Some s)
  assume ok: "store_ok r"
  let ?r = "snd (remove_entry r k)"
  have d: "dict_ok (r_entries r)" using ok by (simp add: store_ok_def)
  have "r_bytes ?r = sum_list (map (\<lambda>(_, s). nbytes_of ?r s) (r_entries ?r))"
    using ok sum_list_dict_del [OF d Some, of "\<lambda>(_, s). nbytes_of r s"] Some
    by (simp add: store_ok_def remove_entry_def nbytes_of_def)
  moreover have "r_orphan_keys ?r \<subseteq> fst ` set (r_entries ?r)"
    using ok Some by (auto simp: store_ok_def keys_dict_del remove_entry_def)
  ultimately show ?thesis
    using ok by (auto simp: store_ok_def heap_ok_def set_dict_del dict_del_def)
qed

lemma remove_entry_ledger: "ledger_ok r \<Longrightarrow> ledger_ok (snd (remove_entry r k))"
  by (auto simp: ledger_ok_def refs_def pins_of_def set_dict_del)

lemma registry_drop_ok: "registry_ok r \<Longrightarrow> registry_ok (snd (registry_drop r k reason))"
  using remove_entry_store [of r k] remove_entry_ledger [of r k]
  by (auto simp: registry_drop_def registry_ok_def split: prod.splits option.splits)

lemma move_to_end_frame [simp]:
  "r_heap (move_to_end k r) = r_heap r" "r_staged (move_to_end k r) = r_staged r"
  "r_committed (move_to_end k r) = r_committed r" "r_bytes (move_to_end k r) = r_bytes r"
  "r_budget_bytes (move_to_end k r) = r_budget_bytes r" "r_disabled (move_to_end k r) = r_disabled r"
  "r_token_checks (move_to_end k r) = r_token_checks r"
  "r_next_serial (move_to_end k r) = r_next_serial r"
  "r_orphan_keys (move_to_end k r) = r_orphan_keys r"
  "r_mid_loop_capture (move_to_end k r) = r_mid_loop_capture r"
  by (simp_all add: move_to_end_def split: option.splits)

lemma move_to_end_set:
  "dict_ok (r_entries r) \<Longrightarrow> set (r_entries (move_to_end k r)) = set (r_entries r)"
  by (auto simp: move_to_end_def set_dict_del dict_memD split: option.splits dest: map_of_SomeD)

lemma move_to_end_sum:
  fixes f :: "block_hash \<times> nat \<Rightarrow> int"
  assumes "dict_ok (r_entries r)"
  shows "sum_list (map f (r_entries (move_to_end k r))) = sum_list (map f (r_entries r))"
  using sum_list_dict_del [OF assms] by (auto simp: move_to_end_def split: option.splits)

lemma move_to_end_store: "store_ok r \<Longrightarrow> store_ok (move_to_end k r)"
proof -
  assume ok: "store_ok r"
  then have d: "dict_ok (r_entries r)" by (simp add: store_ok_def)
  have "dict_ok (r_entries (move_to_end k r))"
    using d by (auto simp: move_to_end_def dict_ok_append keys_dict_del split: option.splits)
      (auto simp: dict_ok_def)
  moreover have "r_entries (move_to_end k r) = []" if "r_entries r = []"
    using that by (simp add: move_to_end_def)
  ultimately show ?thesis
    using ok move_to_end_set [OF d, of k] move_to_end_sum [OF d, of _ k]
    by (auto simp: store_ok_def heap_ok_def nbytes_of_def)
qed

lemma move_to_end_ok: "registry_ok r \<Longrightarrow> registry_ok (move_to_end k r)"
proof -
  assume ok: "registry_ok r"
  then have "set (r_entries (move_to_end k r)) = set (r_entries r)"
    by (intro move_to_end_set) (simp add: registry_ok_def store_ok_def)
  then show ?thesis
    using ok move_to_end_store [of r k] by (auto simp: registry_ok_def ledger_ok_def refs_def pins_of_def)
qed

lemma registry_touch_frame [simp]:
  "r_heap (registry_touch k r) = r_heap r" "r_staged (registry_touch k r) = r_staged r"
  "r_committed (registry_touch k r) = r_committed r" "r_disabled (registry_touch k r) = r_disabled r"
  "r_token_checks (registry_touch k r) = r_token_checks r"
  "r_next_serial (registry_touch k r) = r_next_serial r"
  "r_budget_bytes (registry_touch k r) = r_budget_bytes r"
  "r_mid_loop_capture (registry_touch k r) = r_mid_loop_capture r"
  by (simp_all add: registry_touch_def)

lemma registry_touch_store: "store_ok r \<Longrightarrow> store_ok (registry_touch k r)"
  by (simp add: registry_touch_def move_to_end_store)

lemma registry_touch_set: "store_ok r \<Longrightarrow> set (r_entries (registry_touch k r)) = set (r_entries r)"
  by (simp add: registry_touch_def move_to_end_set store_ok_def)

lemma registry_touch_ok: "registry_ok r \<Longrightarrow> registry_ok (registry_touch k r)"
  by (simp add: registry_touch_def move_to_end_ok)

subsection \<open>Eviction\<close>

text \<open>The entries after the scan: of the \<open>n\<close> oldest, those that are pinned stay; the rest is not
  looked at. \<open>survivors r n\<close> is that list.\<close>

definition survivors :: "'s registry \<Rightarrow> nat \<Rightarrow> (block_hash \<times> nat) list" where
  "survivors r n = filter (\<lambda>(_, s). pins_of r s \<noteq> 0) (take n (r_entries r)) @ drop n (r_entries r)"

definition bytes_in :: "'s registry \<Rightarrow> (block_hash \<times> nat) list \<Rightarrow> int" where
  "bytes_in r es = sum_list (map (\<lambda>(_, s). nbytes_of r s) es)"

lemma enforce_scan_frame [simp]:
  "r_heap (enforce_scan ks r) = r_heap r" "r_staged (enforce_scan ks r) = r_staged r"
  "r_committed (enforce_scan ks r) = r_committed r"
  "r_budget_bytes (enforce_scan ks r) = r_budget_bytes r"
  "r_disabled (enforce_scan ks r) = r_disabled r"
  "r_token_checks (enforce_scan ks r) = r_token_checks r"
  "r_next_serial (enforce_scan ks r) = r_next_serial r"
  by (induction ks r rule: enforce_scan.induct) (auto split: option.splits)

lemma enforce_scan_ok: "registry_ok r \<Longrightarrow> registry_ok (enforce_scan ks r)"
proof (induction ks r rule: enforce_scan.induct)
  case (1 r)
  then show ?case by simp
next
  case (2 key keys r)
  then show ?case
    using remove_entry_store [of r key] remove_entry_ledger [of r key]
    by (auto simp: registry_ok_def split: option.splits)
qed

lemma enforce_budget_frame [simp]:
  "r_heap (enforce_budget r) = r_heap r" "r_staged (enforce_budget r) = r_staged r"
  "r_committed (enforce_budget r) = r_committed r"
  "r_budget_bytes (enforce_budget r) = r_budget_bytes r"
  "r_disabled (enforce_budget r) = r_disabled r"
  "r_token_checks (enforce_budget r) = r_token_checks r"
  "r_next_serial (enforce_budget r) = r_next_serial r"
  by (simp_all add: enforce_budget_def)

lemma enforce_budget_ok: "registry_ok r \<Longrightarrow> registry_ok (enforce_budget r)"
  by (simp add: enforce_budget_def enforce_scan_ok)

text \<open>The scan stops at the least count of oldest entries whose eviction brings the bytes under the
  budget, or after all of them.\<close>

lemma enforce_scan_spec:
  assumes "r_entries r = kept @ rest" and "dict_ok (r_entries r)" and "store_ok r"
  shows "\<exists>n \<le> length rest.
    r_entries (enforce_scan (map fst rest) r)
      = kept @ filter (\<lambda>(_, s). pins_of r s \<noteq> 0) (take n rest) @ drop n rest
    \<and> (\<forall>m < n. bytes_in r (kept @ filter (\<lambda>(_, s). pins_of r s \<noteq> 0) (take m rest) @ drop m rest)
                > r_budget_bytes r)
    \<and> (n = length rest \<or> r_bytes (enforce_scan (map fst rest) r) \<le> r_budget_bytes r)"
  using assms
proof (induction rest arbitrary: kept r)
  case Nil
  then show ?case by simp
next
  case (Cons p rest)
  obtain k s where p: "p = (k, s)" by (cases p)
  have bytes: "r_bytes r = bytes_in r (r_entries r)"
    using Cons.prems by (simp add: store_ok_def bytes_in_def)
  show ?case
  proof (cases "r_bytes r \<le> r_budget_bytes r")
    case True
    with Cons.prems p show ?thesis by (intro exI [of _ 0]) simp
  next
    case over: False
    have look: "map_of (r_entries r) k = Some s"
      using Cons.prems p dict_memD [of "r_entries r" k s] by simp
    show ?thesis
    proof (cases "pins_of r s = 0")
      case True
      define r' where "r' = bump St_evicted_lru 1 (snd (remove_entry r k))"
      have notin: "k \<notin> fst ` set kept" "k \<notin> fst ` set rest"
        using Cons.prems(1,2) p by (simp_all add: dict_ok_append) (simp_all add: dict_ok_def)
      have e': "r_entries r' = kept @ rest"
        using Cons.prems(1) p notin by (simp add: r'_def dict_del_simps dict_del_absent)
      have ok': "store_ok r'" using Cons.prems remove_entry_store by (simp add: r'_def)
      then have d': "dict_ok (r_entries r')" by (simp add: store_ok_def)
      have pins: "pins_of r' = pins_of r" "bytes_in r' = bytes_in r" "r_budget_bytes r' = r_budget_bytes r"
        by (auto simp: r'_def pins_of_def bytes_in_def nbytes_of_def)
      from Cons.IH [OF e' d' ok'] obtain n where n: "n \<le> length rest"
        "r_entries (enforce_scan (map fst rest) r')
           = kept @ filter (\<lambda>(_, s). pins_of r s \<noteq> 0) (take n rest) @ drop n rest"
        "\<And>m. m < n \<Longrightarrow> bytes_in r (kept @ filter (\<lambda>(_, s). pins_of r s \<noteq> 0) (take m rest) @ drop m rest)
           > r_budget_bytes r"
        "n = length rest \<or> r_bytes (enforce_scan (map fst rest) r') \<le> r_budget_bytes r"
        unfolding pins by auto
      have scan: "enforce_scan (map fst (p # rest)) r = enforce_scan (map fst rest) r'"
        using over look True p by (simp add: r'_def)
      show ?thesis
      proof (intro exI conjI allI impI)
        show "Suc n \<le> length (p # rest)" using n(1) by simp
        show "r_entries (enforce_scan (map fst (p # rest)) r) = kept @
            filter (\<lambda>(_, s). pins_of r s \<noteq> 0) (take (Suc n) (p # rest)) @ drop (Suc n) (p # rest)"
          unfolding scan n(2) using p True by simp
        show "Suc n = length (p # rest)
            \<or> r_bytes (enforce_scan (map fst (p # rest)) r) \<le> r_budget_bytes r"
          unfolding scan using n(4) by simp
        fix m assume "m < Suc n"
        then show "r_budget_bytes r < bytes_in r (kept @
            filter (\<lambda>(_, s). pins_of r s \<noteq> 0) (take m (p # rest)) @ drop m (p # rest))"
          using n(3) [of "m - 1"] p True over bytes Cons.prems(1) by (cases m) auto
      qed
    next
      case False
      have e': "r_entries r = (kept @ [p]) @ rest" using Cons.prems(1) by simp
      from Cons.IH [OF e' Cons.prems(2,3)] obtain n where n: "n \<le> length rest"
        "r_entries (enforce_scan (map fst rest) r)
           = (kept @ [p]) @ filter (\<lambda>(_, s). pins_of r s \<noteq> 0) (take n rest) @ drop n rest"
        "\<And>m. m < n \<Longrightarrow> bytes_in r ((kept @ [p]) @ filter (\<lambda>(_, s). pins_of r s \<noteq> 0) (take m rest) @ drop m rest)
           > r_budget_bytes r"
        "n = length rest \<or> r_bytes (enforce_scan (map fst rest) r) \<le> r_budget_bytes r"
        by auto
      have scan: "enforce_scan (map fst (p # rest)) r = enforce_scan (map fst rest) r"
        using over look False p by simp
      show ?thesis
      proof (intro exI conjI allI impI)
        show "Suc n \<le> length (p # rest)" using n(1) by simp
        show "r_entries (enforce_scan (map fst (p # rest)) r) = kept @
            filter (\<lambda>(_, s). pins_of r s \<noteq> 0) (take (Suc n) (p # rest)) @ drop (Suc n) (p # rest)"
          unfolding scan n(2) using p False by simp
        show "Suc n = length (p # rest)
            \<or> r_bytes (enforce_scan (map fst (p # rest)) r) \<le> r_budget_bytes r"
          unfolding scan using n(4) by simp
        fix m assume "m < Suc n"
        then show "r_budget_bytes r < bytes_in r (kept @
            filter (\<lambda>(_, s). pins_of r s \<noteq> 0) (take m (p # rest)) @ drop m (p # rest))"
          using n(3) [of "m - 1"] p False over bytes Cons.prems(1) by (cases m) auto
      qed
    qed
  qed
qed

lemma enforce_budget_survivors:
  assumes "store_ok r"
  obtains n where "n \<le> length (r_entries r)"
    and "r_entries (enforce_budget r) = survivors r n"
    and "\<forall>m < n. bytes_in r (survivors r m) > r_budget_bytes r"
    and "n = length (r_entries r) \<or> r_bytes (enforce_budget r) \<le> r_budget_bytes r"
proof (cases "r_bytes r \<le> r_budget_bytes r")
  case True
  then show ?thesis by (intro that [of 0]) (simp_all add: enforce_budget_def survivors_def)
next
  case False
  have "dict_ok (r_entries r)" using assms by (simp add: store_ok_def)
  from enforce_scan_spec [of r "[]" "r_entries r", OF _ this assms] False show ?thesis
    by (auto simp: enforce_budget_def survivors_def intro: that)
qed

subsection \<open>Pins\<close>

lemma set_pins_frame [simp]:
  "r_entries (set_pins f s r) = r_entries r" "r_staged (set_pins f s r) = r_staged r"
  "r_committed (set_pins f s r) = r_committed r" "r_bytes (set_pins f s r) = r_bytes r"
  "r_budget_bytes (set_pins f s r) = r_budget_bytes r" "r_disabled (set_pins f s r) = r_disabled r"
  "r_token_checks (set_pins f s r) = r_token_checks r"
  "r_next_serial (set_pins f s r) = r_next_serial r" "r_orphan_keys (set_pins f s r) = r_orphan_keys r"
  "r_mid_loop_capture (set_pins f s r) = r_mid_loop_capture r"
  by (simp_all add: set_pins_def)

lemma set_pins_heap:
  "r_heap (set_pins f s r) t = (if t = s then map_option (\<lambda>c. c\<lparr>c_pins := f (c_pins c)\<rparr>) (r_heap r t) else r_heap r t)"
  by (simp add: set_pins_def)

lemma set_pins_nbytes [simp]: "nbytes_of (set_pins f s r) t = nbytes_of r t"
  by (auto simp: nbytes_of_def set_pins_heap split: option.splits)

lemma set_pins_pins:
  "pins_of (set_pins f s r) t = (if t = s \<and> r_heap r s \<noteq> None then f (pins_of r t) else pins_of r t)"
  by (auto simp: pins_of_def set_pins_heap split: option.splits)

lemma set_pins_present [simp]: "r_heap (set_pins f s r) t = None \<longleftrightarrow> r_heap r t = None"
  by (simp add: set_pins_heap)

lemma set_pins_Some:
  "r_heap (set_pins f s r) t = Some c' \<longleftrightarrow>
     (\<exists>c. r_heap r t = Some c \<and> c' = (if t = s then c\<lparr>c_pins := f (c_pins c)\<rparr> else c))"
  by (auto simp: set_pins_heap)

lemma checkpoint_ok_pins [simp]: "checkpoint_ok b t (c\<lparr>c_pins := n\<rparr>) = checkpoint_ok b t c"
  by (simp add: checkpoint_ok_def)

lemma set_pins_store [simp]: "store_ok (set_pins f s r) = store_ok r"
proof -
  have "checkpoint_ok b t (if t = s then c\<lparr>c_pins := f (c_pins c)\<rparr> else c) = checkpoint_ok b t c" for b t c
    by simp
  then have "heap_ok (set_pins f s r) = heap_ok r"
    unfolding heap_ok_def set_pins_Some set_pins_frame by blast
  moreover have "(\<exists>c. r_heap (set_pins f s r) t = Some c \<and> c_key c = k)
    \<longleftrightarrow> (\<exists>c. r_heap r t = Some c \<and> c_key c = k)" for t k
    by (auto simp: set_pins_heap)
  ultimately show ?thesis unfolding store_ok_def set_pins_frame set_pins_nbytes by simp
qed

lemma unpin_frame [simp]:
  "r_entries (unpin g r) = r_entries r" "r_staged (unpin g r) = r_staged r"
  "r_committed (unpin g r) = r_committed r" "r_bytes (unpin g r) = r_bytes r"
  "r_budget_bytes (unpin g r) = r_budget_bytes r" "r_disabled (unpin g r) = r_disabled r"
  "r_token_checks (unpin g r) = r_token_checks r" "r_next_serial (unpin g r) = r_next_serial r"
  "r_orphan_keys (unpin g r) = r_orphan_keys r"
  "r_mid_loop_capture (unpin g r) = r_mid_loop_capture r"
  "store_ok (unpin g r) = store_ok r" "r_heap (unpin g r) t = None \<longleftrightarrow> r_heap r t = None"
  by (simp_all add: unpin_def split: option.splits)

lemma unpin_pins: "pins_of (unpin g r) s = pins_of r s - (if g_checkpoint g = Some s then 1 else 0)"
proof (cases "g_checkpoint g")
  case (Some t)
  have "pins_of r t = 0" if "r_heap r t = None" using that by (simp add: pins_of_def)
  with Some show ?thesis by (auto simp: unpin_def set_pins_pins)
qed (simp add: unpin_def)

lemma fold_unpin_frame [simp]:
  "r_entries (fold unpin gs r) = r_entries r" "r_staged (fold unpin gs r) = r_staged r"
  "r_committed (fold unpin gs r) = r_committed r" "r_bytes (fold unpin gs r) = r_bytes r"
  "r_budget_bytes (fold unpin gs r) = r_budget_bytes r" "r_disabled (fold unpin gs r) = r_disabled r"
  "r_token_checks (fold unpin gs r) = r_token_checks r"
  "r_next_serial (fold unpin gs r) = r_next_serial r" "r_orphan_keys (fold unpin gs r) = r_orphan_keys r"
  "store_ok (fold unpin gs r) = store_ok r" "r_heap (fold unpin gs r) t = None \<longleftrightarrow> r_heap r t = None"
  by (induction gs arbitrary: r) simp_all

lemma fold_unpin_pins:
  "pins_of (fold unpin gs r) s = pins_of r s - length (filter (\<lambda>g. g_checkpoint g = Some s) gs)"
  by (induction gs arbitrary: r) (auto simp: unpin_pins)

subsection \<open>Every operation keeps the invariant\<close>

lemma registry_init_ok [simp]: "registry_ok (registry_init b)"
  by (simp add: registry_init_def registry_ok_def store_ok_def heap_ok_def ledger_ok_def)

lemma registry_clear_ok: "registry_ok r \<Longrightarrow> registry_ok (registry_clear r)"
  by (simp add: registry_clear_def registry_ok_def store_ok_def heap_ok_def ledger_ok_def)

lemma registry_disable_ok: "registry_ok r \<Longrightarrow> registry_ok (registry_disable reason r)"
  by (simp add: registry_disable_def registry_clear_def registry_ok_def store_ok_def heap_ok_def ledger_ok_def)

definition insert_checkpoint :: "'s checkpoint \<Rightarrow> 's registry \<Rightarrow> 's registry" where
  "insert_checkpoint c r =
     r\<lparr>r_next_serial := r_next_serial r + 1, r_heap := (r_heap r)(r_next_serial r := Some c),
       r_entries := dict_set (c_key c) (r_next_serial r) (r_entries r),
       r_bytes := r_bytes r + c_nbytes c\<rparr>"

lemma insert_fresh_ok:
  assumes "registry_ok r" and "k \<notin> fst ` set (r_entries r)" and "checkpoint_ok (r_budget_bytes r) s c"
    and "c_key c = k" and "c_pins c = 0" and "s = r_next_serial r" and "r_disabled r = None"
  shows "registry_ok (insert_checkpoint c r)"
proof -
  let ?r = "r\<lparr>r_next_serial := s + 1, r_heap := (r_heap r)(s := Some c),
      r_entries := dict_set k s (r_entries r), r_bytes := r_bytes r + c_nbytes c\<rparr>"
  from assms(1) have st: "store_ok r" and le: "ledger_ok r" by (simp_all add: registry_ok_def)
  have fresh: "r_heap r s = None"
    using st assms(6) by (cases "r_heap r s") (auto simp: store_ok_def heap_ok_def)
  have e: "r_entries ?r = r_entries r @ [(k, s)]" using assms(2) by (simp add: dict_set_new)
  have old: "r_heap ?r t = r_heap r t" if "(j, t) \<in> set (r_entries r)" for j t
    using entry_heap [OF st that] fresh by auto
  have "sum_list (map (\<lambda>(_, t). nbytes_of ?r t) (r_entries r))
      = sum_list (map (\<lambda>(_, t). nbytes_of r t) (r_entries r))"
    using old by (intro arg_cong [where f = sum_list] map_cong) (auto simp: nbytes_of_def)
  then have bytes: "r_bytes ?r = sum_list (map (\<lambda>(_, t). nbytes_of ?r t) (r_entries ?r))"
    unfolding e using st by (simp add: store_ok_def nbytes_of_def)
  have "dict_ok (r_entries ?r)" using st by (simp add: store_ok_def)
  moreover have "heap_ok ?r"
    using st assms(3,6) by (auto simp: store_ok_def heap_ok_def less_Suc_eq)
  moreover have "\<forall>j t. (j, t) \<in> set (r_entries ?r) \<longrightarrow> (\<exists>c. r_heap ?r t = Some c \<and> c_key c = j)"
    unfolding e using entry_heap [OF st] old assms(4) by fastforce
  moreover have "r_orphan_keys ?r \<subseteq> fst ` set (r_entries ?r)"
    unfolding e using st by (auto simp: store_ok_def)
  ultimately have "store_ok ?r" using bytes assms(7) by (simp add: store_ok_def)
  moreover have "ledger_ok ?r"
  proof -
    have ref: "g_checkpoint g \<noteq> Some s" if "(i, g) \<in> set (r_staged r) \<union> set (r_committed r)" for i g
      using that le fresh by (fastforce simp: ledger_ok_def)
    then have "filter (\<lambda>(_, g). g_checkpoint g = Some s) (r_committed r) = []"
      by (auto simp: filter_empty_conv)
    then have "refs ?r s = 0" by (simp add: refs_def)
    moreover have "pins_of ?r s = 0" using assms(5) by (simp add: pins_of_def)
    moreover have "pins_of ?r t = refs ?r t" if "(j, t) \<in> set (r_entries r)" for j t
      using le that old [OF that] by (auto simp: ledger_ok_def pins_of_def refs_def)
    ultimately have "\<forall>j t. (j, t) \<in> set (r_entries ?r) \<longrightarrow> pins_of ?r t = refs ?r t"
      unfolding e by auto
    moreover have "r_heap ?r t \<noteq> None"
      if "(i, g) \<in> set (r_staged r) \<or> (i, g) \<in> set (r_committed r)" "g_checkpoint g = Some t" for i g t
      using ledger_ref [OF le that] by simp
    ultimately show ?thesis using le unfolding ledger_ok_def by simp
  qed
  ultimately show ?thesis using assms(4,6) by (simp add: registry_ok_def insert_checkpoint_def)
qed

text \<open>The registry just before a new checkpoint is stored under \<open>key\<close>.\<close>

definition vacated :: "'s registry \<Rightarrow> block_hash \<Rightarrow> 's registry" where
  "vacated r key = (if registry_get r key \<noteq> None
     then bump St_capture_replaced 1 (snd (remove_entry r key)) else r)"

lemma vacated_frame [simp]:
  "r_heap (vacated r key) = r_heap r" "r_staged (vacated r key) = r_staged r"
  "r_committed (vacated r key) = r_committed r" "r_disabled (vacated r key) = r_disabled r"
  "r_budget_bytes (vacated r key) = r_budget_bytes r"
  "r_token_checks (vacated r key) = r_token_checks r"
  "r_next_serial (vacated r key) = r_next_serial r"
  "r_entries (vacated r key) = dict_del key (r_entries r)"
  by (simp_all add: vacated_def registry_get_def map_of_None_keys dict_del_absent)

lemma vacated_ok: "registry_ok r \<Longrightarrow> registry_ok (vacated r key)"
  using remove_entry_store [of r key] remove_entry_ledger [of r key]
  by (auto simp: vacated_def registry_ok_def)

lemma registry_put_stored:
  assumes "0 < pos" and "pos mod CHUNK = 0" and "int (length toks) = pos" and "r_disabled r = None"
    and "nbytes \<le> r_budget_bytes r" and "\<And>s. registry_get r key = Some s \<Longrightarrow> pins_of r s = 0"
  shows "registry_put r key pos toks rec carry nbytes = (Inr (Some (r_next_serial r)),
    enforce_budget (bump St_captures 1 (insert_checkpoint
      \<lparr>c_key = key, c_pos = pos, c_token_ids = toks, c_rec = rec, c_carry = carry,
       c_nbytes = nbytes, c_pins = 0, c_serial = r_next_serial r\<rparr> (vacated r key))))"
proof -
  have "r_next_serial (vacated r key) = r_next_serial r" by simp
  with assms show ?thesis
    unfolding registry_put_def Let_def insert_checkpoint_def
    by (cases "registry_get r key") (simp_all add: vacated_def)
qed

text \<open>Where it is not stored, only counters and the LRU's order change.\<close>

lemma registry_put_not_stored:
  assumes "\<not> (0 < pos \<and> pos mod CHUNK = 0 \<and> int (length toks) = pos \<and> r_disabled r = None
      \<and> nbytes \<le> r_budget_bytes r \<and> (\<forall>s. registry_get r key = Some s \<longrightarrow> pins_of r s = 0))"
  shows "snd (registry_put r key pos toks rec carry nbytes) \<in>
    {r, bump St_capture_disabled 1 r, bump St_capture_skipped_budget 1 r,
     bump St_capture_kept_pinned 1 (move_to_end key r)}"
proof (cases "pos \<le> 0 \<or> pos mod CHUNK \<noteq> 0 \<or> int (length toks) \<noteq> pos")
  case True
  then show ?thesis by (auto simp: registry_put_def)
next
  case valid: False
  show ?thesis
  proof (cases "r_disabled r \<noteq> None \<or> r_budget_bytes r < nbytes")
    case True
    with valid show ?thesis by (auto simp: registry_put_def)
  next
    case False
    with assms valid obtain s where "registry_get r key = Some s" "pins_of r s \<noteq> 0" by auto
    with valid False show ?thesis by (simp add: registry_put_def Let_def)
  qed
qed

lemma registry_put_ok:
  assumes "registry_ok r"
  shows "registry_ok (snd (registry_put r key pos toks rec carry nbytes))"
proof (cases "0 < pos \<and> pos mod CHUNK = 0 \<and> int (length toks) = pos \<and> r_disabled r = None
    \<and> nbytes \<le> r_budget_bytes r \<and> (\<forall>s. registry_get r key = Some s \<longrightarrow> pins_of r s = 0)")
  case False
  from registry_put_not_stored [OF this, of rec carry] assms move_to_end_ok [OF assms, of key]
  show ?thesis by (elim insertE) simp_all
next
  case True
  define c where "c = \<lparr>c_key = key, c_pos = pos, c_token_ids = toks, c_rec = rec,
    c_carry = carry, c_nbytes = nbytes, c_pins = 0, c_serial = r_next_serial r\<rparr>"
  have "checkpoint_ok (r_budget_bytes (vacated r key)) (r_next_serial r) c"
    using True by (auto simp: checkpoint_ok_def c_def)
  then have "registry_ok (insert_checkpoint c (vacated r key))"
    by (rule insert_fresh_ok [where k = key, OF vacated_ok [OF assms], rotated])
      (use True in \<open>simp_all add: c_def keys_dict_del\<close>)
  then show ?thesis
    using True by (simp add: registry_put_stored c_def [symmetric] enforce_budget_ok)
qed

lemma token_check_frame [simp]:
  "r_entries (snd (tokens_match r i n s toks)) = r_entries r"
  "r_heap (snd (tokens_match r i n s toks)) = r_heap r"
  "r_staged (snd (tokens_match r i n s toks)) = r_staged r"
  "r_committed (snd (tokens_match r i n s toks)) = r_committed r"
  "r_disabled (snd (tokens_match r i n s toks)) = r_disabled r"
  "r_next_serial (snd (tokens_match r i n s toks)) = r_next_serial r"
  "r_budget_bytes (snd (tokens_match r i n s toks)) = r_budget_bytes r"
  "r_bytes (snd (tokens_match r i n s toks)) = r_bytes r"
  "r_orphan_keys (snd (tokens_match r i n s toks)) = r_orphan_keys r"
  "r_mid_loop_capture (snd (tokens_match r i n s toks)) = r_mid_loop_capture r"
  "r_same_step_blocks (snd (tokens_match r i n s toks)) = r_same_step_blocks r"
  by (simp_all add: tokens_match_def token_check_run_def Let_def split: option.splits prod.splits)

lemma tokens_match_ok: "registry_ok r \<Longrightarrow> registry_ok (snd (tokens_match r i n s toks))"
  using store_ok_cong [of "snd (tokens_match r i n s toks)" r]
    ledger_ok_cong [of "snd (tokens_match r i n s toks)" r]
  by (simp add: registry_ok_def)

lemma note_orphan_frame [simp]:
  "r_entries (note_orphan k r) = r_entries r" "r_heap (note_orphan k r) = r_heap r"
  "r_staged (note_orphan k r) = r_staged r" "r_committed (note_orphan k r) = r_committed r"
  "r_disabled (note_orphan k r) = r_disabled r" "r_token_checks (note_orphan k r) = r_token_checks r"
  "r_next_serial (note_orphan k r) = r_next_serial r"
  "r_budget_bytes (note_orphan k r) = r_budget_bytes r"
  "r_mid_loop_capture (note_orphan k r) = r_mid_loop_capture r"
  by (simp_all add: note_orphan_def)

lemma note_orphan_ok: "registry_ok r \<Longrightarrow> registry_ok (note_orphan k r)"
  by (auto simp: note_orphan_def registry_ok_def store_ok_def heap_ok_def ledger_ok_def refs_def
      pins_of_def nbytes_of_def)

lemma begin_step_ok:
  assumes "registry_ok r"
  shows "registry_ok (begin_step r)"
proof -
  let ?r = "(fold unpin (map snd (r_committed r)) r)
    \<lparr>r_committed := [], r_staged := [], r_same_step_blocks := {}\<rparr>"
  from assms have st: "store_ok r" and le: "ledger_ok r" by (simp_all add: registry_ok_def)
  have "store_ok ?r"
    using st store_ok_cong [of ?r "fold unpin (map snd (r_committed r)) r"] by simp
  moreover have "pins_of ?r s = 0" if "(k, s) \<in> set (r_entries r)" for k s
  proof -
    have "pins_of ?r s = pins_of (fold unpin (map snd (r_committed r)) r) s"
      by (simp add: pins_of_def)
    also have "\<dots> = pins_of r s - refs r s"
      by (simp add: fold_unpin_pins refs_def filter_map o_def case_prod_unfold)
    also have "\<dots> = 0" using le that by (auto simp: ledger_ok_def)
    finally show ?thesis .
  qed
  then have "ledger_ok ?r" by (auto simp: ledger_ok_def refs_def)
  ultimately have "registry_ok ?r" by (simp add: registry_ok_def)
  from enforce_budget_ok [OF this] show ?thesis by (simp add: begin_step_def)
qed

lemma stage_ok:
  assumes "registry_ok r" and "\<And>s. g_checkpoint g = Some s \<Longrightarrow> r_heap r s \<noteq> None"
  shows "registry_ok (stage g r)"
proof -
  let ?r = "r\<lparr>r_staged := dict_set (g_req_id g) g (r_staged r)\<rparr>"
  from assms(1) have st: "store_ok r" and le: "ledger_ok r" by (simp_all add: registry_ok_def)
  have "store_ok ?r" using st store_ok_cong [of ?r r] by simp
  moreover have "ledger_ok ?r"
    using le assms(2) by (auto simp: set_dict_set ledger_ok_def refs_def pins_of_def)
  ultimately show ?thesis by (simp add: stage_def registry_ok_def)
qed

lemma unstage_ok: "registry_ok r \<Longrightarrow> registry_ok (unstage i r)"
  by (auto simp: unstage_def registry_ok_def ledger_ok_def set_dict_del refs_def pins_of_def
      store_ok_cong [of "r\<lparr>r_staged := dict_del i (r_staged r)\<rparr>" r])

text \<open>Taking a request's committed grant away removes one reference to its checkpoint.\<close>

lemma refs_del:
  assumes "dict_ok (r_committed r)" and "map_of (r_committed r) i = Some g"
    and "r_committed r' = dict_del i (r_committed r)"
  shows "refs r' s = refs r s - (if g_checkpoint g = Some s then 1 else 0)"
    and "g_checkpoint g = Some s \<Longrightarrow> 0 < refs r s"
proof -
  let ?P = "\<lambda>(_, g). g_checkpoint g = Some s"
  have count: "length (filter ?P d) = length (filter ?P (dict_del i d))
      + (if g_checkpoint g = Some s then 1 else 0)" if "dict_ok d" "map_of d i = Some g" for d
    using that
  proof (induction d)
    case (Cons p d)
    obtain j v where p: "p = (j, v)" by (cases p)
    with Cons.prems have d: "dict_ok d" "j \<notin> fst ` set d" by (auto simp: dict_ok_def)
    show ?case
    proof (cases "j = i")
      case True
      with p Cons.prems d(2) show ?thesis by (simp add: dict_del_simps dict_del_absent)
    next
      case False
      with p Cons.prems Cons.IH [OF d(1)] show ?thesis by (simp add: dict_del_simps)
    qed
  qed simp
  from count [OF assms(1,2)] assms(3) show
    "refs r' s = refs r s - (if g_checkpoint g = Some s then 1 else 0)"
    "g_checkpoint g = Some s \<Longrightarrow> 0 < refs r s"
    by (simp_all add: refs_def)
qed

lemma forget_request_ok:
  assumes "registry_ok r"
  shows "registry_ok (snd (forget_request i r))"
proof -
  from assms have st: "store_ok r" and le: "ledger_ok r" by (simp_all add: registry_ok_def)
  let ?r1 = "r\<lparr>r_token_checks := (r_token_checks r)(i := (\<lambda>_. None)),
      r_staged := dict_del i (r_staged r), r_committed := dict_del i (r_committed r)\<rparr>"
  have st1: "store_ok ?r1" using st store_ok_cong [of ?r1 r] by simp
  have dc: "dict_ok (r_committed r)" using le by (simp add: ledger_ok_def)
  have "registry_ok ?r1" if none: "map_of (r_committed r) i = None"
  proof -
    have same: "dict_del i (r_committed r) = r_committed r"
      using none by (simp add: map_of_None_keys dict_del_absent)
    have "pins_of ?r1 = pins_of r" "refs ?r1 = refs r"
      unfolding pins_of_def refs_def by (simp_all add: fun_eq_iff same)
    then have "ledger_ok ?r1"
      using le by (auto simp: ledger_ok_def set_dict_del)
    with st1 show ?thesis by (simp add: registry_ok_def)
  qed
  moreover have "registry_ok (unpin g ?r1)" if g: "map_of (r_committed r) i = Some g" for g
  proof -
    have "pins_of (unpin g ?r1) s = refs (unpin g ?r1) s" if "(k, s) \<in> set (r_entries r)" for k s
    proof -
      have "pins_of ?r1 s = refs r s"
        using le that by (auto simp: ledger_ok_def pins_of_def)
      then show ?thesis
        using refs_del(1) [OF dc g, of "unpin g ?r1" s] by (simp add: unpin_pins)
    qed
    moreover have "r_heap (unpin g ?r1) s \<noteq> None"
      if "(j, h) \<in> set (dict_del i (r_staged r)) \<or> (j, h) \<in> set (dict_del i (r_committed r))"
        "g_checkpoint h = Some s" for j h s
      using that ledger_ref [OF le] by (auto simp: set_dict_del)
    ultimately have "ledger_ok (unpin g ?r1)"
      using le by (simp add: ledger_ok_def)
    with st1 show ?thesis by (simp add: registry_ok_def)
  qed
  ultimately show ?thesis
    by (cases "map_of (r_committed r) i") (simp_all add: forget_request_def Let_def)
qed

lemma capture_body_ok: "registry_ok r \<Longrightarrow> registry_ok (snd (capture_body r i pos rec carry nb lp))"
  by (auto simp: capture_body_def registry_put_ok split: option.splits)

lemma registry_capture_ok: "registry_ok r \<Longrightarrow> registry_ok (snd (registry_capture r i pos rec carry nb lp))"
  using capture_body_ok [of r i pos rec carry nb lp]
  by (auto simp: registry_capture_def split: prod.splits sum.splits)

subsection \<open>The commit\<close>

text \<open>The registry after a grant's checkpoint is pinned and its entry touched.\<close>

definition pinned_for :: "grant \<Rightarrow> 's registry \<Rightarrow> 's registry" where
  "pinned_for g r =
     (case g_checkpoint g of
        None \<Rightarrow> r
      | Some serial \<Rightarrow>
          (let r = set_pins Suc serial r;
               r = (case g_key g of None \<Rightarrow> r | Some key \<Rightarrow>
                      (registry_touch key r)\<lparr>r_orphan_keys := r_orphan_keys r - {key}\<rparr>)
           in bump St_grant_tokens (g_q g) (bump St_grants 1 r)))"

text \<open>The grant as it is committed.\<close>

definition committed_grant :: "(req_id \<Rightarrow> int list) \<Rightarrow> grant \<Rightarrow> grant" where
  "committed_grant all_tokens g =
     (if g_plan g \<noteq> []
      then g\<lparr>g_tokens := Some (py_prefix (Max (set (map fst (g_plan g))))
             (case g_request g of None \<Rightarrow> [] | Some q \<Rightarrow> all_tokens q)), g_request := None\<rparr>
      else g\<lparr>g_request := None\<rparr>)"

lemma committed_grant_frame [simp]:
  "g_checkpoint (committed_grant at g) = g_checkpoint g" "g_q (committed_grant at g) = g_q g"
  "g_h (committed_grant at g) = g_h g" "g_req_id (committed_grant at g) = g_req_id g"
  "g_plan (committed_grant at g) = g_plan g" "g_request (committed_grant at g) = None"
  by (simp_all add: committed_grant_def)

lemma pinned_for_frame [simp]:
  "r_staged (pinned_for g r) = r_staged r" "r_committed (pinned_for g r) = r_committed r"
  "r_disabled (pinned_for g r) = r_disabled r" "r_token_checks (pinned_for g r) = r_token_checks r"
  "r_next_serial (pinned_for g r) = r_next_serial r"
  "r_budget_bytes (pinned_for g r) = r_budget_bytes r"
  "r_mid_loop_capture (pinned_for g r) = r_mid_loop_capture r"
  "r_heap (pinned_for g r) = (case g_checkpoint g of None \<Rightarrow> r_heap r | Some s \<Rightarrow> r_heap (set_pins Suc s r))"
  by (simp_all add: pinned_for_def Let_def split: option.splits)

lemma pinned_for_store: "store_ok r \<Longrightarrow> store_ok (pinned_for g r)"
proof -
  assume ok: "store_ok r"
  have "store_ok ((registry_touch k (set_pins Suc s r))\<lparr>r_orphan_keys := r_orphan_keys (set_pins Suc s r) - {k}\<rparr>)"
    for k s
  proof -
    have "store_ok (registry_touch k (set_pins Suc s r))"
      and "set (r_entries (registry_touch k (set_pins Suc s r))) = set (r_entries r)"
      using ok by (simp_all add: registry_touch_store registry_touch_set)
    moreover have "r_orphan_keys r \<subseteq> fst ` set (r_entries r)" using ok by (simp add: store_ok_def)
    ultimately show ?thesis by (auto simp: store_ok_def heap_ok_def nbytes_of_def)
  qed
  with ok show ?thesis by (simp add: pinned_for_def Let_def split: option.splits)
qed

lemma pinned_for_set: "store_ok r \<Longrightarrow> set (r_entries (pinned_for g r)) = set (r_entries r)"
  by (simp add: pinned_for_def Let_def registry_touch_set split: option.splits)

lemma pinned_for_pins:
  "pins_of (pinned_for g r) s = pins_of r s + (if g_checkpoint g = Some s \<and> r_heap r s \<noteq> None then 1 else 0)"
  by (auto simp: pins_of_def set_pins_heap split: option.splits)

text \<open>What one staged grant does to the ledger: it is dropped, or it is committed at exactly its own
  \<open>q\<close>.\<close>

lemma bump_stats: "\<exists>f. bump st n r = r\<lparr>r_stats := f\<rparr>"
  by (auto simp: bump_def)

lemma stats_ok [simp]:
  "store_ok (r\<lparr>r_stats := f\<rparr>) = store_ok r" "ledger_ok (r\<lparr>r_stats := f\<rparr>) = ledger_ok r"
  "registry_ok (r\<lparr>r_stats := f\<rparr>) = registry_ok r"
proof -
  show "store_ok (r\<lparr>r_stats := f\<rparr>) = store_ok r" by (rule store_ok_cong) simp_all
  moreover show "ledger_ok (r\<lparr>r_stats := f\<rparr>) = ledger_ok r" by (rule ledger_ok_cong) simp_all
  ultimately show "registry_ok (r\<lparr>r_stats := f\<rparr>) = registry_ok r" by (simp add: registry_ok_def)
qed

lemma commit_grant_dropped:
  assumes "admitted i \<noteq> Some (g_q g)"
  shows "\<exists>f. commit_grant admitted at (i, g) (gs, r) = (gs, r\<lparr>r_stats := f\<rparr>)"
  using assms by (auto simp: commit_grant_def bump_def Let_def split: option.splits)

lemma commit_grant_admitted:
  assumes "admitted i = Some (g_q g)"
  shows "\<exists>f. commit_grant admitted at (i, g) (gs, r) = (gs @ [committed_grant at g],
       (pinned_for g r)\<lparr>r_stats := f, r_committed := dict_set i (committed_grant at g) (r_committed r)\<rparr>)"
proof -
  define r2 where "r2 = bump St_mid_loop_unplanned (int (length (g_unplanned g)))
    (bump St_trim_loss_tokens (g_h g - g_q g) (bump St_admissions 1 (pinned_for g r)))"
  define r3 where "r3 = (if floor_chunk (g_h g) > g_q g
    then bump St_kv_hit_without_checkpoint 1 r2 else r2)"
  have "r_committed r3 = r_committed r" by (simp add: r3_def r2_def)
  then have "commit_grant admitted at (i, g) (gs, r) = (gs @ [committed_grant at g],
       r3\<lparr>r_committed := dict_set i (committed_grant at g) (r_committed r)\<rparr>)"
    using assms
    by (simp add: commit_grant_def Let_def committed_grant_def pinned_for_def r2_def r3_def
        cong: if_cong option.case_cong)
  moreover have "\<exists>f. r3 = (pinned_for g r)\<lparr>r_stats := f\<rparr>"
    by (auto simp: r3_def r2_def bump_def)
  ultimately show ?thesis by auto
qed

lemma committed_insert_ok:
  assumes "registry_ok r" and "(i, g) \<in> set (r_staged r)" and "i \<notin> fst ` set (r_committed r)"
    and "g_checkpoint g' = g_checkpoint g"
  shows "registry_ok ((pinned_for g r)\<lparr>r_stats := f, r_committed := dict_set i g' (r_committed r)\<rparr>)"
    (is "registry_ok ?r")
proof -
  from assms(1) have st: "store_ok r" and le: "ledger_ok r" by (simp_all add: registry_ok_def)
  have "store_ok ?r"
    using pinned_for_store [OF st, of g] store_ok_cong [of ?r "pinned_for g r"] by simp
  moreover have "ledger_ok ?r"
  proof -
    have com: "r_committed ?r = r_committed r @ [(i, g')]"
      using dict_set_new [OF assms(3), of g'] by simp
    have present: "r_heap r s \<noteq> None" if "g_checkpoint g = Some s" for s
      using ledger_ref [OF le _ that] assms(2) by blast
    have "pins_of ?r s = refs ?r s" if e: "(k, s) \<in> set (r_entries r)" for k s
    proof -
      have "pins_of ?r s = pins_of (pinned_for g r) s" by (simp add: pins_of_def)
      moreover have "pins_of r s = refs r s" using le e by (simp add: ledger_ok_def)
      moreover have "refs ?r s = refs r s + (if g_checkpoint g = Some s then 1 else 0)"
        unfolding refs_def com using assms(4) by simp
      ultimately show ?thesis using present by (auto simp: pinned_for_pins)
    qed
    moreover have "r_heap ?r s \<noteq> None"
      if "(j, h) \<in> set (r_staged r) \<or> (j, h) \<in> set (r_committed r @ [(i, g')])"
        "g_checkpoint h = Some s" for j h s
      using that ledger_ref [OF le] present assms(4)
      by (auto simp: set_pins_heap split: option.splits)
    moreover have "dict_ok (r_committed ?r)" using le by (simp add: ledger_ok_def)
    ultimately show ?thesis
      using le pinned_for_set [OF st, of g] unfolding ledger_ok_def com by simp
  qed
  ultimately show ?thesis by (simp add: registry_ok_def)
qed

text \<open>The commit as a whole. \<open>P\<close> is any property of a registry and the grants committed so far that
  each staged grant keeps.\<close>

lemma commit_fold_ok:
  assumes "registry_ok r" and "set ds \<subseteq> set (r_staged r)" and "distinct (map fst ds)"
    and "fst ` set ds \<inter> fst ` set (r_committed r) = {}"
    and "fold (commit_grant admitted at) ds (gs, r) = (gs', r')"
  shows "registry_ok r' \<and> r_staged r' = r_staged r"
  using assms
proof (induction ds arbitrary: gs r)
  case Nil
  then show ?case by simp
next
  case (Cons d ds)
  obtain i g where d: "d = (i, g)" by (cases d)
  show ?case
  proof (cases "admitted i = Some (g_q g)")
    case True
    from commit_grant_admitted [of admitted i g, OF True, of at gs r] obtain f where
      c: "commit_grant admitted at (i, g) (gs, r) = (gs @ [committed_grant at g],
       (pinned_for g r)\<lparr>r_stats := f, r_committed := dict_set i (committed_grant at g) (r_committed r)\<rparr>)"
      (is "_ = (_, ?r)") by blast
    have "registry_ok ?r"
      by (rule committed_insert_ok) (use Cons.prems d in auto)
    moreover have "set ds \<subseteq> set (r_staged ?r)" using Cons.prems by simp
    moreover have "fst ` set ds \<inter> fst ` set (r_committed ?r) = {}"
      using Cons.prems d by (auto simp: keys_dict_set)
    ultimately show ?thesis
      using Cons.IH [of ?r "gs @ [committed_grant at g]"] Cons.prems c d by simp
  next
    case False
    from commit_grant_dropped [of admitted i g, OF False, of at gs r] obtain f where
      "commit_grant admitted at (i, g) (gs, r) = (gs, r\<lparr>r_stats := f\<rparr>)" by blast
    with Cons.IH [of "r\<lparr>r_stats := f\<rparr>" gs] Cons.prems d show ?thesis by simp
  qed
qed

lemma registry_commit_ok:
  assumes "registry_ok r" and "r_committed r = []"
  shows "registry_ok (snd (registry_commit admitted at r))"
proof -
  obtain gs r' where f: "fold (commit_grant admitted at) (r_staged r) ([], r) = (gs, r')"
    by fastforce
  have "distinct (map fst (r_staged r))"
    using assms(1) by (simp add: registry_ok_def ledger_ok_def dict_ok_def)
  with commit_fold_ok [OF assms(1) _ _ _ f] assms(2) have ok: "registry_ok r'" by simp
  then have "registry_ok (r'\<lparr>r_staged := []\<rparr>)"
    using store_ok_cong [of "r'\<lparr>r_staged := []\<rparr>" r']
    by (simp add: registry_ok_def ledger_ok_def refs_def pins_of_def)
  with f show ?thesis by (simp add: registry_commit_def)
qed

lemma registry_bind_ok: "registry_ok r \<Longrightarrow> registry_ok (snd (registry_bind alive survives owner r))"
proof -
  assume ok: "registry_ok r"
  then have "registry_ok (registry_clear r)" by (rule registry_clear_ok)
  then have "registry_ok ((registry_clear r)\<lparr>r_staged := [], r_committed := [],
      r_same_step_blocks := {}, r_owner := w\<rparr>)" for w
    by (auto simp: registry_ok_def store_ok_def heap_ok_def ledger_ok_def registry_clear_def
        nbytes_of_def)
  moreover have "registry_ok (r\<lparr>r_owner := w\<rparr>)" for w
    using ok store_ok_cong [of "r\<lparr>r_owner := w\<rparr>" r] ledger_ok_cong [of "r\<lparr>r_owner := w\<rparr>" r]
    by (simp add: registry_ok_def)
  ultimately show ?thesis using ok by (simp add: registry_bind_def Let_def)
qed

subsection \<open>What no operation changes: the content of a checkpoint\<close>

definition contents :: "'s registry \<Rightarrow> nat \<Rightarrow> 's checkpoint option" where
  "contents r s = map_option (\<lambda>c. c\<lparr>c_pins := 0\<rparr>) (r_heap r s)"

lemma contents_cong: "r_heap r' = r_heap r \<Longrightarrow> contents r' = contents r"
  by (simp add: contents_def fun_eq_iff)

lemma contents_set_pins [simp]: "contents (set_pins f s r) = contents r"
  by (simp add: contents_def fun_eq_iff set_pins_heap option.map_comp o_def)

lemma contents_unpin [simp]: "contents (unpin g r) = contents r"
  by (simp add: unpin_def split: option.splits)

lemma contents_fold_unpin [simp]: "contents (fold unpin gs r) = contents r"
  by (induction gs arbitrary: r) simp_all

lemma contents_pinned_for [simp]: "contents (pinned_for g r) = contents r"
proof (cases "g_checkpoint g")
  case None
  then show ?thesis by (intro contents_cong) simp
next
  case (Some s)
  then have "contents (pinned_for g r) = contents (set_pins Suc s r)" by (intro contents_cong) simp
  then show ?thesis by simp
qed

lemma contents_begin_step [simp]: "contents (begin_step r) = contents r"
proof -
  have "contents (begin_step r) = contents (fold unpin (map snd (r_committed r)) r)"
    by (rule contents_cong) (simp add: begin_step_def)
  then show ?thesis by simp
qed

lemma contents_forget [simp]: "contents (snd (forget_request i r)) = contents r"
proof -
  let ?r1 = "r\<lparr>r_token_checks := (r_token_checks r)(i := (\<lambda>_. None)),
      r_staged := dict_del i (r_staged r), r_committed := dict_del i (r_committed r)\<rparr>"
  have "contents (snd (forget_request i r)) = contents
    (case map_of (r_committed r) i of None \<Rightarrow> ?r1 | Some g \<Rightarrow> unpin g ?r1)"
    by (rule contents_cong) (simp add: forget_request_def Let_def split: option.splits)
  also have "\<dots> = contents ?r1" by (simp split: option.splits)
  also have "\<dots> = contents r" by (rule contents_cong) simp
  finally show ?thesis .
qed

lemma contents_Some_iff: "contents r s \<noteq> None \<longleftrightarrow> r_heap r s \<noteq> None"
  by (simp add: contents_def)

text \<open>Every stored checkpoint is at a chunk boundary and carries exactly that many tokens.\<close>

lemma contents_ok:
  assumes "registry_ok r" and "contents r s = Some c"
  shows "0 < c_pos c \<and> CHUNK dvd c_pos c \<and> int (length (c_token_ids c)) = c_pos c \<and> c_serial c = s"
proof -
  obtain c0 where "r_heap r s = Some c0" "c = c0\<lparr>c_pins := 0\<rparr>"
    using assms(2) by (auto simp: contents_def)
  moreover from this assms(1) have "checkpoint_ok (r_budget_bytes r) s c0"
    by (auto simp: registry_ok_def store_ok_def heap_ok_def)
  ultimately show ?thesis by (simp add: checkpoint_ok_def)
qed

text \<open>A put adds at most one checkpoint, with the state it was given, at a fresh reference.\<close>

lemma contents_put:
  assumes "registry_ok r"
  shows "contents (snd (registry_put r key pos toks rec carry nbytes)) = contents r
    \<or> (0 < pos \<and> pos mod CHUNK = 0 \<and> int (length toks) = pos \<and> r_disabled r = None
       \<and> contents r (r_next_serial r) = None
       \<and> contents (snd (registry_put r key pos toks rec carry nbytes)) = (contents r)(r_next_serial r \<mapsto>
           \<lparr>c_key = key, c_pos = pos, c_token_ids = toks, c_rec = rec, c_carry = carry,
            c_nbytes = nbytes, c_pins = 0, c_serial = r_next_serial r\<rparr>))"
proof (cases "0 < pos \<and> pos mod CHUNK = 0 \<and> int (length toks) = pos \<and> r_disabled r = None
    \<and> nbytes \<le> r_budget_bytes r \<and> (\<forall>s. registry_get r key = Some s \<longrightarrow> pins_of r s = 0)")
  case False
  have "r_heap (snd (registry_put r key pos toks rec carry nbytes)) = r_heap r"
    using registry_put_not_stored [OF False, of rec carry] by (elim insertE) simp_all
  then show ?thesis by (intro disjI1 contents_cong)
next
  case True
  have "r_heap r (r_next_serial r) = None"
    using assms by (cases "r_heap r (r_next_serial r)") (auto simp: registry_ok_def store_ok_def heap_ok_def)
  then have none: "contents r (r_next_serial r) = None" by (simp add: contents_def)
  define c where "c = \<lparr>c_key = key, c_pos = pos, c_token_ids = toks, c_rec = rec, c_carry = carry,
    c_nbytes = nbytes, c_pins = 0, c_serial = r_next_serial r\<rparr>"
  have put: "registry_put r key pos toks rec carry nbytes = (Inr (Some (r_next_serial r)),
      enforce_budget (bump St_captures 1 (insert_checkpoint c (vacated r key))))"
    unfolding c_def by (rule registry_put_stored) (use True in blast)+
  have "contents (snd (registry_put r key pos toks rec carry nbytes)) = (contents r)(r_next_serial r \<mapsto> c)"
  proof
    fix t
    have "r_heap (snd (registry_put r key pos toks rec carry nbytes)) = (r_heap r)(r_next_serial r \<mapsto> c)"
      unfolding put by (simp add: insert_checkpoint_def)
    moreover have "c\<lparr>c_pins := 0\<rparr> = c" by (simp add: c_def)
    ultimately show "contents (snd (registry_put r key pos toks rec carry nbytes)) t
        = ((contents r)(r_next_serial r \<mapsto> c)) t"
      unfolding contents_def by simp
  qed
  with True none show ?thesis unfolding c_def by (intro disjI2 conjI) simp_all
qed

end
