(* ===== verification/PrefixGraft.thy ===== *)
theory PrefixGraft
  imports RegistryInvariant
begin

text \<open>
  The scheduler graft of prefix reuse, \<open>class SchedulerGraft\<close> of
  \<open>scripts/ci/qwen_prefix_scheduler_patch.py\<close>: the trim of vLLM's cache hit to a checkpoint, the
  plan of captures, the cap on what is published, the per-step commit, and the eviction coupling.

  vLLM is not code of this repository. What its calls return or report is an argument: the hit
  \<open>h\<close> and its block ids, what \<open>cache_blocks\<close> published, whether a block was evicted and which
  hashes still map to a block. The counters' export and the log lines are not modelled.
\<close>

text \<open>The fields of vLLM's request that the graft reads. An absent salt and an empty one are both
  falsy.\<close>

record vllm_request =
  v_request_id :: req_id
  v_cache_salt :: "string option"
  v_resumable :: bool
  v_num_prompt_tokens :: int
  v_num_tokens :: int
  v_block_hashes :: "block_hash list"
  v_all_token_ids :: "int list"

record 's graft =
  gr_registry :: "'s registry"
  gr_kill_switch :: kill_switch
  gr_sticky :: bool
  gr_drop_last :: bool

definition on_registry :: "('s registry \<Rightarrow> 's registry) \<Rightarrow> 's graft \<Rightarrow> 's graft" where
  "on_registry f gr = gr\<lparr>gr_registry := f (gr_registry gr)\<rparr>"

definition graft_killed :: "'s graft \<Rightarrow> bool" where
  "graft_killed gr \<longleftrightarrow> k_engaged (gr_kill_switch gr) \<or> r_disabled (gr_registry gr) \<noteq> None"

text \<open>The clock and the flag file are read by the poll.\<close>

definition kill_switch_engaged :: "int \<Rightarrow> bool result \<Rightarrow> 's graft \<Rightarrow> bool \<times> 's graft" where
  "kill_switch_engaged now exists_flag gr =
     (case kill_switch_poll (gr_kill_switch gr) now exists_flag of
        (fresh, k) \<Rightarrow>
          (let gr = gr\<lparr>gr_kill_switch := k\<rparr>;
               gr = (if fresh
                     then on_registry (registry_disable (''kill switch '' @
                            (case k_path k of None \<Rightarrow> [] | Some p \<Rightarrow> p))) gr
                     else gr)
           in (graft_killed gr, gr)))"

definition request_excluded :: "vllm_request \<Rightarrow> stat option" where
  "request_excluded q =
     (if v_cache_salt q = None \<or> v_cache_salt q = Some [] then Some St_unsalted_denied
      else if v_resumable q then Some St_session_denied else None)"

subsection \<open>The plan of captures\<close>

definition plan_candidates :: "bool \<Rightarrow> vllm_request \<Rightarrow> int \<Rightarrow> int \<Rightarrow> int list" where
  "plan_candidates sticky request h q =
     (let prompt_boundary = floor_chunk (v_num_prompt_tokens request);
          capture_boundary = (if sticky then prompt_boundary - CHUNK else prompt_boundary);
          gap_boundary = floor_chunk h
      in sort (remdups ((if capture_boundary > q then [capture_boundary] else [])
           @ (if gap_boundary - q \<ge> CHUNK then [gap_boundary] else []))))"

text \<open>The loop over the sorted candidates. \<open>hashes[pos // BLOCK - 1]\<close> is in range for a boundary that
  passes the guard.\<close>

fun plan_scan ::
  "int \<Rightarrow> int \<Rightarrow> block_hash list \<Rightarrow> bool \<Rightarrow> int list \<Rightarrow> (int \<times> block_hash) list \<times> int list" where
  "plan_scan prompt_boundary drain hashes mid_loop [] = ([], [])"
| "plan_scan prompt_boundary drain hashes mid_loop (pos # rest) =
     (case plan_scan prompt_boundary drain hashes mid_loop rest of
        (planned, unplanned) \<Rightarrow>
          if pos > prompt_boundary \<or> pos > drain \<or> pos div BLOCK > int (length hashes)
          then (planned, unplanned)
          else if pos < drain \<and> \<not> mid_loop then (planned, pos # unplanned)
          else ((pos, hashes ! nat (pos div BLOCK - 1)) # planned, unplanned))"

definition graft_plan ::
  "'s graft \<Rightarrow> vllm_request \<Rightarrow> int \<Rightarrow> int \<Rightarrow> (int \<times> block_hash) list \<times> int list \<times> int" where
  "graft_plan gr request h q =
     (let prompt_boundary = floor_chunk (v_num_prompt_tokens request);
          drain = floor_chunk (v_num_tokens request);
          (planned, unplanned) = plan_scan prompt_boundary drain (v_block_hashes request)
            (r_mid_loop_capture (gr_registry gr))
            (plan_candidates (gr_sticky gr \<and> gr_drop_last gr) request h q)
      in (planned, unplanned, drain))"

subsection \<open>The trim\<close>

text \<open>The index of the first block of the hit that was cached in this very step.\<close>

fun first_same_step :: "nat set \<Rightarrow> nat list \<Rightarrow> nat \<Rightarrow> nat \<Rightarrow> nat result" where
  "first_same_step same_step ids 0 index = Inr index"
| "first_same_step same_step ids (Suc n) index =
     rbind (py_index ids index) (\<lambda>block_id.
       if block_id \<in> same_step then Inr index
       else first_same_step same_step ids n (Suc index))"

text \<open>The search from chunk \<open>k\<close> down: the largest boundary whose checkpoint carries the request's own
  tokens, whether one was passed over for the same-step rule, and the registry.\<close>

fun trim_scan ::
  "vllm_request \<Rightarrow> int \<Rightarrow> nat \<Rightarrow> 's registry \<Rightarrow>
     ((int \<times> block_hash \<times> nat) option \<times> bool) result \<times> 's registry" where
  "trim_scan request first_same 0 r = (Inr (None, False), r)"
| "trim_scan request first_same (Suc k) r =
     (let candidate = int (Suc k) * CHUNK;
          count = candidate div BLOCK
      in if count > first_same then
           (case trim_scan request first_same k r of
              (Inl e, r) \<Rightarrow> (Inl e, r)
            | (Inr (found, _), r) \<Rightarrow> (Inr (found, True), r))
         else
           (case py_index (v_block_hashes request) (nat (count - 1)) of
              Inl e \<Rightarrow> (Inl e, r)
            | Inr key \<Rightarrow>
                (case registry_get r key of
                   None \<Rightarrow> trim_scan request first_same k r
                 | Some entry \<Rightarrow>
                     (case tokens_match r (v_request_id request) candidate entry
                             (v_all_token_ids request) of
                        (False, r) \<Rightarrow> trim_scan request first_same k r
                      | (True, r) \<Rightarrow> (Inr (Some (candidate, key, entry), False), r)))))"

definition note_orphans :: "vllm_request \<Rightarrow> int \<Rightarrow> 's registry \<Rightarrow> 's registry" where
  "note_orphans request h r =
     (if r_entries r \<noteq> []
      then fold (\<lambda>boundary r.
             if boundary div BLOCK \<le> int (length (v_block_hashes request))
             then note_orphan (v_block_hashes request ! nat (boundary div BLOCK - 1)) r else r)
           (py_range (floor_chunk h + CHUNK) (floor_chunk (v_num_tokens request - 1) + 1) CHUNK) r
      else r)"

text \<open>The trim once the request and the kill switch allow a hit. \<open>blocks\<close> are the ids of the hit's
  blocks in KV group 0; the answer is the trimmed blocks and \<open>q\<close>.\<close>

definition trim_limit :: "'s graft \<Rightarrow> vllm_request \<Rightarrow> int \<Rightarrow> int" where
  "trim_limit gr request h =
     (if gr_sticky gr
      then min (h div CHUNK) (max 0 (v_num_prompt_tokens request - CHUNK) div CHUNK)
      else h div CHUNK)"

definition graft_trim_hit ::
  "vllm_request \<Rightarrow> nat list \<Rightarrow> int \<Rightarrow> 's graft \<Rightarrow> (nat list \<times> int) result \<times> 's graft" where
  "graft_trim_hit request blocks h gr =
     (let request_id = v_request_id request;
          ids = (if h \<noteq> 0 then blocks else []);
          limit = h div BLOCK;
          r = gr_registry gr
      in case (if r_same_step_blocks r = {} then Inr limit
               else rbind (first_same_step (r_same_step_blocks r) ids (nat limit) 0) (\<lambda>n. Inr (int n))) of
           Inl e \<Rightarrow> (Inl e, gr)
         | Inr first_same \<Rightarrow>
             (case trim_scan request first_same (nat (trim_limit gr request h)) r of
                (Inl e, r) \<Rightarrow> (Inl e, gr\<lparr>gr_registry := r\<rparr>)
              | (Inr (found, rejected), r) \<Rightarrow>
                  (let r1 = (if rejected then bump St_same_step_rejects 1 r else r);
                       gr1 = gr\<lparr>gr_registry := note_orphans request h r1\<rparr>;
                       q = (case found of None \<Rightarrow> 0 | Some (q, _, _) \<Rightarrow> q);
                       key = map_option (\<lambda>(_, key, _). key) found;
                       checkpoint = map_option (\<lambda>(_, _, entry). entry) found;
                       (plan, unplanned, drain) = graft_plan gr1 request h q;
                       gr2 = on_registry
                         (if q \<noteq> 0 \<or> plan \<noteq> [] \<or> unplanned \<noteq> []
                          then stage (make_grant request_id q h key checkpoint plan
                                 request_id (Some drain) unplanned)
                          else unstage request_id) gr1
                   in (Inr (if q = 0 then ([], 0) else (take (nat (q div BLOCK)) ids, q)), gr2))))"

definition trim_deny :: "vllm_request \<Rightarrow> int \<Rightarrow> stat \<Rightarrow> 's graft \<Rightarrow> 's graft" where
  "trim_deny request h st = on_registry (\<lambda>r.
     let r = unstage (v_request_id request) r in if h \<noteq> 0 then bump st 1 r else r)"

definition graft_trim ::
  "int \<Rightarrow> bool result \<Rightarrow> vllm_request \<Rightarrow> nat list \<Rightarrow> int \<Rightarrow> 's graft
     \<Rightarrow> (nat list \<times> int) result \<times> 's graft" where
  "graft_trim now exists_flag request blocks h gr0 =
     (let gr = on_registry (bump St_attempts 1) gr0
      in case request_excluded request of
           Some st \<Rightarrow> (Inr ([], 0), trim_deny request h st gr)
         | None \<Rightarrow>
             (case kill_switch_engaged now exists_flag gr of
                (True, gr) \<Rightarrow> (Inr ([], 0), trim_deny request h St_killed_denied gr)
              | (False, gr) \<Rightarrow> graft_trim_hit request blocks h gr))"

subsection \<open>The cap, the commit, the eviction coupling and the remaining hooks\<close>

text \<open>\<open>publish tokens\<close> is what vLLM's \<open>cache_blocks\<close> did when asked to publish up to \<open>tokens\<close>: the
  request's count of cached blocks before and after, and its block ids. The answer is the number of
  tokens asked for.\<close>

definition graft_cap ::
  "vllm_request \<Rightarrow> int \<Rightarrow> (int \<Rightarrow> nat \<times> nat \<times> nat list) \<Rightarrow> 's graft \<Rightarrow> int \<times> 's graft" where
  "graft_cap request num_computed_tokens publish gr =
     (let limit = (if request_excluded request \<noteq> None \<or> graft_killed gr then 0
                   else floor_chunk (v_num_prompt_tokens request));
          tokens = min num_computed_tokens limit;
          gr1 = (if tokens < num_computed_tokens then on_registry (bump St_publish_capped 1) gr else gr);
          (before, after, owned) = publish tokens;
          gr2 = (if after > before
                 then on_registry (\<lambda>r. r\<lparr>r_same_step_blocks :=
                        r_same_step_blocks r \<union> set (slice before after owned)\<rparr>) gr1
                 else gr1)
      in (tokens, gr2))"

text \<open>A scheduler output: the new requests with their start positions, the cached requests with
  theirs, and which of those are resumed.\<close>

record scheduler_output =
  o_new :: "(req_id \<times> int) list"
  o_cached :: "(req_id \<times> int) list"
  o_resumed :: "req_id set"

definition admitted_of :: "scheduler_output \<Rightarrow> req_id \<Rightarrow> int option" where
  "admitted_of out = map_of (rev (o_new out @ filter (\<lambda>(i, _). i \<in> o_resumed out) (o_cached out)))"

definition graft_commit ::
  "scheduler_output \<Rightarrow> (req_id \<Rightarrow> int list) \<Rightarrow> 's graft \<Rightarrow> 's graft" where
  "graft_commit out all_tokens = on_registry (\<lambda>r. snd (registry_commit (admitted_of out) all_tokens r))"

text \<open>\<open>keys\<close> are the evicted block's own hash and its extra ones; \<open>cached\<close> is \<open>get_one_block\<close> after the
  eviction, \<open>block_hash_of\<close> strips the group id.\<close>

definition graft_evict ::
  "('k \<Rightarrow> block_hash) \<Rightarrow> ('k \<Rightarrow> bool) \<Rightarrow> 'k option \<Rightarrow> 'k list \<Rightarrow> bool \<Rightarrow> 's graft \<Rightarrow> bool \<times> 's graft" where
  "graft_evict block_hash_of cached own extra evicted gr =
     (let keys = (case own of None \<Rightarrow> [] | Some k \<Rightarrow> [k]) @ extra
      in (evicted,
          if evicted \<and> keys \<noteq> [] \<and> r_entries (gr_registry gr) \<noteq> []
          then on_registry (fold (\<lambda>key r. if \<not> cached key
                 then snd (registry_drop r (block_hash_of key) ''coupled'') else r) keys) gr
          else gr))"

definition graft_reset :: "bool \<Rightarrow> 's graft \<Rightarrow> 's graft" where
  "graft_reset succeeded = on_registry (if succeeded then registry_clear else bump St_reset_kept 1)"

definition graft_free :: "req_id \<Rightarrow> 's graft \<Rightarrow> 's graft" where
  "graft_free req_id = on_registry (\<lambda>r. snd (forget_request req_id r))"

end
