(* ===== verification/PrefixExact.thy ===== *)
theory PrefixExact
  imports PrefixGraft
begin

text \<open>
  Why a restored state is exact. The world is the graft, the requests' tokens and whether a
  \<open>schedule()\<close> call is running; its steps are the graft's hooks in any order vLLM may call them, with
  any arguments, the model's captures, and the growth of the requests. The model is a pair of
  functions from the tokens a prefill has consumed to the two tensors it saves.
\<close>

text \<open>The checkpoint at \<open>s\<close> carries exactly the first \<open>n\<close> of the tokens.\<close>

definition matches_at :: "'s registry \<Rightarrow> int list \<Rightarrow> nat \<Rightarrow> int \<Rightarrow> bool" where
  "matches_at r toks s n \<longleftrightarrow>
     (\<exists>c. contents r s = Some c \<and> c_pos c = n \<and> c_token_ids c = py_prefix n toks)"

definition memo_ok :: "(req_id \<Rightarrow> int list) \<Rightarrow> 's registry \<Rightarrow> bool" where
  "memo_ok toks r \<longleftrightarrow> (\<forall>i n s. r_token_checks r i n = Some (s, True) \<longrightarrow> matches_at r (toks i) s n)"

definition grant_ok :: "(req_id \<Rightarrow> int list) \<Rightarrow> 's registry \<Rightarrow> req_id \<Rightarrow> grant \<Rightarrow> bool" where
  "grant_ok toks r i g \<longleftrightarrow> g_req_id g = i \<and> 0 \<le> g_q g \<and> g_q g \<le> g_h g
     \<and> (g_q g = 0 \<longleftrightarrow> g_checkpoint g = None)
     \<and> (\<forall>s. g_checkpoint g = Some s \<longrightarrow> matches_at r (toks i) s (g_q g))"

definition staged_ok :: "(req_id \<Rightarrow> int list) \<Rightarrow> 's registry \<Rightarrow> bool" where
  "staged_ok toks r \<longleftrightarrow> (\<forall>i g. (i, g) \<in> set (r_staged r) \<longrightarrow>
     grant_ok toks r i g \<and> g_request g = Some i \<and> g_tokens g = None)"

definition committed_ok :: "(req_id \<Rightarrow> int list) \<Rightarrow> 's registry \<Rightarrow> bool" where
  "committed_ok toks r \<longleftrightarrow> (\<forall>i g. (i, g) \<in> set (r_committed r) \<longrightarrow>
     grant_ok toks r i g \<and> (\<forall>ts. g_tokens g = Some ts \<longrightarrow> (\<exists>us. toks i = ts @ us)))"

definition exact_ok :: "(int list \<Rightarrow> 's) \<Rightarrow> (int list \<Rightarrow> 's) \<Rightarrow> 's registry \<Rightarrow> bool" where
  "exact_ok f_rec f_carry r \<longleftrightarrow> (\<forall>s c. contents r s = Some c \<longrightarrow>
     c_rec c = Some (f_rec (c_token_ids c)) \<and> c_carry c = Some (f_carry (c_token_ids c)))"

definition reuse_ok ::
  "(int list \<Rightarrow> 's) \<Rightarrow> (int list \<Rightarrow> 's) \<Rightarrow> (req_id \<Rightarrow> int list) \<Rightarrow> 's registry \<Rightarrow> bool" where
  "reuse_ok f_rec f_carry toks r \<longleftrightarrow> registry_ok r \<and> memo_ok toks r \<and> staged_ok toks r
     \<and> committed_ok toks r \<and> exact_ok f_rec f_carry r"

definition contents_le :: "'s registry \<Rightarrow> 's registry \<Rightarrow> bool" where
  "contents_le r r' \<longleftrightarrow> (\<forall>s c. contents r s = Some c \<longrightarrow> contents r' s = Some c)"

lemma contents_le_eq: "contents r' = contents r \<Longrightarrow> contents_le r r'"
  by (simp add: contents_le_def)

lemma matches_at_mono:
  "matches_at r toks s n \<Longrightarrow> contents_le r r' \<Longrightarrow> matches_at r' toks s n"
  by (auto simp: matches_at_def contents_le_def)

lemma matches_at_grow:
  assumes "matches_at r toks s n" and "registry_ok r"
  shows "matches_at r (toks @ us) s n"
proof -
  from assms(1) obtain c where c: "contents r s = Some c" "c_pos c = n" "c_token_ids c = py_prefix n toks"
    by (auto simp: matches_at_def)
  from contents_ok [OF assms(2) c(1)] c have "0 \<le> n" "int (length (py_prefix n toks)) = n" by auto
  with c show ?thesis by (simp add: matches_at_def py_prefix_append)
qed

lemma grant_ok_mono: "grant_ok toks r i g \<Longrightarrow> contents_le r r' \<Longrightarrow> grant_ok toks r' i g"
  by (auto simp: grant_ok_def intro: matches_at_mono)

text \<open>An operation that keeps the invariant of the registry, adds no grant, remembers no new positive
  check and adds only exact checkpoints keeps all of it.\<close>

lemma reuse_ok_mono:
  assumes "reuse_ok f_rec f_carry toks r" and "registry_ok r'" and "contents_le r r'"
    and "exact_ok f_rec f_carry r'"
    and "\<And>i n s. r_token_checks r' i n = Some (s, True) \<Longrightarrow> r_token_checks r i n = Some (s, True)"
    and "set (r_staged r') \<subseteq> set (r_staged r)" and "set (r_committed r') \<subseteq> set (r_committed r)"
  shows "reuse_ok f_rec f_carry toks r'"
proof -
  have "memo_ok toks r'"
    using assms(1,3,5) unfolding reuse_ok_def memo_ok_def by (blast intro: matches_at_mono)
  moreover have "staged_ok toks r'"
    unfolding staged_ok_def
  proof (intro allI impI)
    fix i g assume "(i, g) \<in> set (r_staged r')"
    with assms(6) have "(i, g) \<in> set (r_staged r)" by blast
    with assms(1,3) show "grant_ok toks r' i g \<and> g_request g = Some i \<and> g_tokens g = None"
      by (auto simp: reuse_ok_def staged_ok_def intro: grant_ok_mono)
  qed
  moreover have "committed_ok toks r'"
    unfolding committed_ok_def
  proof (intro allI impI)
    fix i g assume "(i, g) \<in> set (r_committed r')"
    with assms(7) have "(i, g) \<in> set (r_committed r)" by blast
    with assms(1,3) show "grant_ok toks r' i g \<and> (\<forall>ts. g_tokens g = Some ts \<longrightarrow> (\<exists>us. toks i = ts @ us))"
      by (auto simp: reuse_ok_def committed_ok_def intro: grant_ok_mono)
  qed
  ultimately show ?thesis using assms(2,4) by (simp add: reuse_ok_def)
qed

lemma reuse_ok_same:
  assumes "reuse_ok f_rec f_carry toks r" and "registry_ok r'" and "contents r' = contents r"
    and "\<And>i n s. r_token_checks r' i n = Some (s, True) \<Longrightarrow> r_token_checks r i n = Some (s, True)"
    and "set (r_staged r') \<subseteq> set (r_staged r)" and "set (r_committed r') \<subseteq> set (r_committed r)"
  shows "reuse_ok f_rec f_carry toks r'"
  using assms by (intro reuse_ok_mono [OF assms(1)]) (simp_all add: contents_le_eq exact_ok_def reuse_ok_def)

subsection \<open>The registry's operations\<close>

lemma contents_bump [simp]: "contents (bump st n r) = contents r"
  by (rule contents_cong) simp

lemma contents_updates [simp]:
  "contents (r\<lparr>r_stats := f\<rparr>) = contents r" "contents (r\<lparr>r_committed := cm\<rparr>) = contents r"
  "contents (r\<lparr>r_staged := sg\<rparr>) = contents r" "contents (r\<lparr>r_same_step_blocks := ssb\<rparr>) = contents r"
  "contents (r\<lparr>r_mid_loop_capture := ml\<rparr>) = contents r"
  "contents (snd (tokens_match r i n s toks)) = contents r" "contents (note_orphan k r) = contents r"
  "contents (unstage i r) = contents r" "contents (stage g r) = contents r"
  by (simp_all add: contents_def fun_eq_iff unstage_def stage_def)

lemma reuse_ok_stats [simp]: "reuse_ok f_rec f_carry toks (r\<lparr>r_stats := f\<rparr>) = reuse_ok f_rec f_carry toks r"
  by (simp add: reuse_ok_def memo_ok_def staged_ok_def committed_ok_def exact_ok_def grant_ok_def
      matches_at_def)

lemma reuse_ok_bump [simp]: "reuse_ok f_rec f_carry toks (bump st n r) = reuse_ok f_rec f_carry toks r"
  by (simp add: reuse_ok_def memo_ok_def staged_ok_def committed_ok_def exact_ok_def grant_ok_def
      matches_at_def)

lemma reuse_ok_begin_step:
  assumes "reuse_ok f_rec f_carry toks r"
  shows "reuse_ok f_rec f_carry toks (begin_step r)"
  by (rule reuse_ok_same [OF assms])
    (use assms begin_step_ok [of r] in \<open>simp_all add: reuse_ok_def\<close>, simp_all add: begin_step_def)

lemma reuse_ok_unstage:
  assumes "reuse_ok f_rec f_carry toks r"
  shows "reuse_ok f_rec f_carry toks (unstage i r)"
  by (rule reuse_ok_same [OF assms])
    (use assms unstage_ok [of r i] in \<open>auto simp: reuse_ok_def unstage_def set_dict_del
       intro: contents_cong\<close>)

lemma reuse_ok_clear:
  assumes "reuse_ok f_rec f_carry toks r"
  shows "reuse_ok f_rec f_carry toks (registry_clear r)"
  by (rule reuse_ok_same [OF assms])
    (use assms registry_clear_ok [of r] in \<open>auto simp: reuse_ok_def registry_clear_def
       intro: contents_cong\<close>)

lemma reuse_ok_disable:
  assumes "reuse_ok f_rec f_carry toks r"
  shows "reuse_ok f_rec f_carry toks (registry_disable reason r)"
  by (rule reuse_ok_same [OF assms])
    (use assms registry_disable_ok [of r reason] in \<open>auto simp: reuse_ok_def registry_disable_def
       registry_clear_def intro: contents_cong\<close>)

lemma registry_drop_frame [simp]:
  "r_heap (snd (registry_drop r k reason)) = r_heap r"
  "r_staged (snd (registry_drop r k reason)) = r_staged r"
  "r_committed (snd (registry_drop r k reason)) = r_committed r"
  "r_token_checks (snd (registry_drop r k reason)) = r_token_checks r"
  "r_disabled (snd (registry_drop r k reason)) = r_disabled r"
  using remove_entry_frame [of r k]
  by (auto simp: registry_drop_def simp del: remove_entry_frame split: prod.splits option.splits)

lemma reuse_ok_drop:
  assumes "reuse_ok f_rec f_carry toks r"
  shows "reuse_ok f_rec f_carry toks (snd (registry_drop r k reason))"
  by (rule reuse_ok_same [OF assms])
    (use assms registry_drop_ok [of r k reason] in \<open>auto simp: reuse_ok_def intro: contents_cong\<close>)

lemma reuse_ok_forget:
  assumes "reuse_ok f_rec f_carry toks r"
  shows "reuse_ok f_rec f_carry toks (snd (forget_request i r))"
    and "r_token_checks (snd (forget_request i r)) i = (\<lambda>_. None)"
    and "i \<notin> fst ` set (r_staged (snd (forget_request i r)))"
    and "i \<notin> fst ` set (r_committed (snd (forget_request i r)))"
proof -
  have f: "r_staged (snd (forget_request i r)) = dict_del i (r_staged r)"
    "r_committed (snd (forget_request i r)) = dict_del i (r_committed r)"
    "r_token_checks (snd (forget_request i r)) = (r_token_checks r)(i := (\<lambda>_. None))"
    by (auto simp: forget_request_def Let_def split: option.splits)
  show "reuse_ok f_rec f_carry toks (snd (forget_request i r))"
    by (rule reuse_ok_same [OF assms])
      (use assms forget_request_ok [of r i] f in \<open>auto simp: reuse_ok_def set_dict_del split: if_splits\<close>)
  show "r_token_checks (snd (forget_request i r)) i = (\<lambda>_. None)"
    "i \<notin> fst ` set (r_staged (snd (forget_request i r)))"
    "i \<notin> fst ` set (r_committed (snd (forget_request i r)))"
    by (auto simp: f keys_dict_del)
qed

lemma reuse_ok_note_orphan:
  assumes "reuse_ok f_rec f_carry toks r"
  shows "reuse_ok f_rec f_carry toks (note_orphan k r)"
  by (rule reuse_ok_same [OF assms])
    (use assms note_orphan_ok [of r k] in \<open>auto simp: reuse_ok_def intro: contents_cong\<close>)

text \<open>A token check, remembered or not, answers yes only for a checkpoint of exactly these tokens.\<close>

lemma reuse_ok_tokens_match:
  assumes ok: "reuse_ok f_rec f_carry toks r" and m: "tokens_match r i n s (toks i) = (v, r')"
  shows "reuse_ok f_rec f_carry toks r'" and "v \<Longrightarrow> matches_at r (toks i) s n"
proof -
  have new: "matches_at r (toks i) s n"
    if "r_heap r s = Some c" "c_pos c = n" "checkpoint_matches c (py_prefix n (toks i))" for c
    using that by (auto simp: matches_at_def contents_def checkpoint_matches_def)
  have mem: "matches_at r (toks i) s n" if "r_token_checks r i n = Some (s, True)"
    using ok that by (simp add: reuse_ok_def memo_ok_def)
  have "v \<longrightarrow> matches_at r (toks i) s n"
    using m new mem
    by (auto simp: tokens_match_def token_check_run_def Let_def split: option.splits prod.splits if_splits)
  then show v: "v \<Longrightarrow> matches_at r (toks i) s n" by blast
  have r': "r' = snd (tokens_match r i n s (toks i))" using m by simp
  have con: "contents r' = contents r" unfolding r' by (rule contents_cong) simp
  have checks: "r_token_checks r' = r_token_checks r
    \<or> r_token_checks r' = (r_token_checks r)(i := (r_token_checks r i)(n := Some (s, v)))"
    using m by (auto simp: tokens_match_def token_check_run_def Let_def split: option.splits if_splits)
  have "memo_ok toks r'"
    unfolding memo_ok_def matches_at_def con
  proof (intro allI impI)
    fix j m t assume a: "r_token_checks r' j m = Some (t, True)"
    show "\<exists>c. contents r t = Some c \<and> c_pos c = m \<and> c_token_ids c = py_prefix m (toks j)"
    proof (cases "r_token_checks r j m = Some (t, True)")
      case True
      with ok show ?thesis by (auto simp: reuse_ok_def memo_ok_def matches_at_def)
    next
      case False
      with a checks have "j = i \<and> m = n \<and> t = s \<and> v" by (auto split: if_splits)
      with v show ?thesis by (auto simp: matches_at_def)
    qed
  qed
  moreover have "registry_ok r'" unfolding r' using ok by (simp add: reuse_ok_def tokens_match_ok)
  moreover have "r_staged r' = r_staged r" "r_committed r' = r_committed r"
    unfolding r' by simp_all
  ultimately show "reuse_ok f_rec f_carry toks r'"
    using ok con by (simp add: reuse_ok_def staged_ok_def committed_ok_def exact_ok_def grant_ok_def matches_at_def)
qed

subsection \<open>The model's captures\<close>

text \<open>What the model hands to \<open>capture\<close>: the tensors after exactly \<open>loop_pos\<close> tokens of the request.\<close>

definition taken_at ::
  "(int list \<Rightarrow> 's) \<Rightarrow> (int list \<Rightarrow> 's) \<Rightarrow> int list \<Rightarrow> 's option \<Rightarrow> 's option \<Rightarrow> int option \<Rightarrow> bool" where
  "taken_at f_rec f_carry toks rec carry loop_pos \<longleftrightarrow> (\<forall>n. loop_pos = Some n \<longrightarrow>
     rec = Some (f_rec (py_prefix n toks)) \<and> carry = Some (f_carry (py_prefix n toks)))"

lemma registry_put_grants [simp]:
  "r_staged (snd (registry_put r k pos ts rec carry nb)) = r_staged r"
  "r_committed (snd (registry_put r k pos ts rec carry nb)) = r_committed r"
  "r_token_checks (snd (registry_put r k pos ts rec carry nb)) = r_token_checks r"
  "r_disabled (snd (registry_put r k pos ts rec carry nb)) = r_disabled r"
proof -
  have "r_staged (snd (registry_put r k pos ts rec carry nb)) = r_staged r
    \<and> r_committed (snd (registry_put r k pos ts rec carry nb)) = r_committed r
    \<and> r_token_checks (snd (registry_put r k pos ts rec carry nb)) = r_token_checks r
    \<and> r_disabled (snd (registry_put r k pos ts rec carry nb)) = r_disabled r"
  proof (cases "0 < pos \<and> pos mod CHUNK = 0 \<and> int (length ts) = pos \<and> r_disabled r = None
      \<and> nb \<le> r_budget_bytes r \<and> (\<forall>s. registry_get r k = Some s \<longrightarrow> pins_of r s = 0)")
    case False
    from registry_put_not_stored [OF this, of rec carry] show ?thesis by (elim insertE) simp_all
  next
    case True
    then show ?thesis by (simp add: registry_put_stored insert_checkpoint_def)
  qed
  then show "r_staged (snd (registry_put r k pos ts rec carry nb)) = r_staged r"
    "r_committed (snd (registry_put r k pos ts rec carry nb)) = r_committed r"
    "r_token_checks (snd (registry_put r k pos ts rec carry nb)) = r_token_checks r"
    "r_disabled (snd (registry_put r k pos ts rec carry nb)) = r_disabled r" by auto
qed

lemma reuse_ok_put:
  assumes ok: "reuse_ok f_rec f_carry toks r"
    and exact: "0 < pos \<Longrightarrow> int (length ts) = pos \<Longrightarrow> rec = Some (f_rec ts) \<and> carry = Some (f_carry ts)"
  shows "reuse_ok f_rec f_carry toks (snd (registry_put r k pos ts rec carry nb))"
    (is "reuse_ok _ _ _ ?r")
proof -
  have reg: "registry_ok r" using ok by (simp add: reuse_ok_def)
  from contents_put [OF reg, of k pos ts rec carry nb]
  have "contents_le r ?r \<and> exact_ok f_rec f_carry ?r"
  proof
    assume "contents ?r = contents r"
    with ok show ?thesis by (simp add: contents_le_eq reuse_ok_def exact_ok_def)
  next
    assume a: "0 < pos \<and> pos mod CHUNK = 0 \<and> int (length ts) = pos \<and> r_disabled r = None
       \<and> contents r (r_next_serial r) = None
       \<and> contents ?r = (contents r)(r_next_serial r \<mapsto>
           \<lparr>c_key = k, c_pos = pos, c_token_ids = ts, c_rec = rec, c_carry = carry,
            c_nbytes = nb, c_pins = 0, c_serial = r_next_serial r\<rparr>)"
    with exact have "rec = Some (f_rec ts)" "carry = Some (f_carry ts)" by auto
    with a ok show ?thesis by (auto simp: contents_le_def exact_ok_def reuse_ok_def)
  qed
  with registry_put_ok [OF reg, of k pos ts rec carry nb] show ?thesis
    by (intro reuse_ok_mono [OF ok]) simp_all
qed

lemma capture_frame [simp]:
  "r_committed (snd (registry_capture r i pos rec carry nb lp)) = r_committed r"
  "r_disabled (snd (registry_capture r i pos rec carry nb lp)) = r_disabled r"
proof -
  have "r_committed (snd (capture_body r i pos rec carry nb lp)) = r_committed r
    \<and> r_disabled (snd (capture_body r i pos rec carry nb lp)) = r_disabled r"
    by (simp add: capture_body_def split: option.splits)
  then show "r_committed (snd (registry_capture r i pos rec carry nb lp)) = r_committed r"
    "r_disabled (snd (registry_capture r i pos rec carry nb lp)) = r_disabled r"
    by (auto simp: registry_capture_def split: prod.splits sum.splits)
qed

lemma reuse_ok_capture:
  assumes ok: "reuse_ok f_rec f_carry toks r" and t: "taken_at f_rec f_carry (toks i) rec carry lp"
  shows "reuse_ok f_rec f_carry toks (snd (registry_capture r i pos rec carry nb lp))"
proof -
  have "reuse_ok f_rec f_carry toks (snd (registry_put r k pos (py_prefix pos ts) rec carry n))"
    if g: "grant_for r i = Some g" and ts: "g_tokens g = Some ts" and lp: "lp = Some pos" for g ts k n
  proof (rule reuse_ok_put [OF ok])
    assume pos: "0 < pos" "int (length (py_prefix pos ts)) = pos"
    from g have "(i, g) \<in> set (r_committed r)" by (simp add: grant_for_def map_of_SomeD)
    with ok ts obtain us where "toks i = ts @ us" unfolding reuse_ok_def committed_ok_def by blast
    with pos have "py_prefix pos (toks i) = py_prefix pos ts" by (simp add: py_prefix_append)
    with t lp show "rec = Some (f_rec (py_prefix pos ts)) \<and> carry = Some (f_carry (py_prefix pos ts))"
      by (simp add: taken_at_def)
  qed
  with ok have "reuse_ok f_rec f_carry toks (snd (capture_body r i pos rec carry nb lp))"
    by (simp add: capture_body_def split: option.splits)
  then show ?thesis by (auto simp: registry_capture_def split: prod.splits sum.splits)
qed

subsection \<open>The commit\<close>

lemma py_prefix_split: "\<exists>us. xs = py_prefix n xs @ us"
  unfolding py_prefix_def by (metis append_take_drop_id)

lemma committed_grant_prefix:
  assumes "g_request g = Some i" and "g_tokens g = None" and "g_tokens (committed_grant toks g) = Some ts"
  shows "\<exists>us. toks i = ts @ us"
  using assms py_prefix_split by (auto simp: committed_grant_def split: if_splits)

lemma reuse_ok_commit_insert:
  assumes ok: "reuse_ok f_rec f_carry toks r" and g: "(i, g) \<in> set (r_staged r)"
    and new: "i \<notin> fst ` set (r_committed r)"
  shows "reuse_ok f_rec f_carry toks ((pinned_for g r)\<lparr>r_stats := f,
      r_committed := dict_set i (committed_grant toks g) (r_committed r)\<rparr>)"
    (is "reuse_ok _ _ _ ?r")
proof -
  define g' where "g' = committed_grant toks g"
  have st: "grant_ok toks r i g" "g_request g = Some i" "g_tokens g = None"
    using ok g by (auto simp: reuse_ok_def staged_ok_def)
  have reg: "registry_ok ?r"
    by (rule committed_insert_ok) (use ok g new in \<open>auto simp: reuse_ok_def\<close>)
  have con: "contents ?r = contents r" by simp
  have com: "set (r_committed ?r) = insert (i, g') (set (r_committed r))"
    using dict_set_new [OF new] by (simp add: g'_def)
  have "grant_ok toks r i g'" using st(1) by (simp add: grant_ok_def g'_def)
  moreover have "\<exists>us. toks i = ts @ us" if "g_tokens g' = Some ts" for ts
    using committed_grant_prefix [OF st(2,3)] that by (simp add: g'_def)
  ultimately have "committed_ok toks ?r"
    using ok unfolding committed_ok_def com grant_ok_def matches_at_def con
    by (auto simp: reuse_ok_def committed_ok_def grant_ok_def matches_at_def)
  moreover have "memo_ok toks ?r" "staged_ok toks ?r" "exact_ok f_rec f_carry ?r"
    using ok by (simp_all add: reuse_ok_def memo_ok_def staged_ok_def exact_ok_def grant_ok_def
        matches_at_def)
  ultimately show ?thesis using reg by (simp add: reuse_ok_def)
qed

lemma reuse_ok_commit_fold:
  assumes "reuse_ok f_rec f_carry toks r" and "set ds \<subseteq> set (r_staged r)" and "distinct (map fst ds)"
    and "fst ` set ds \<inter> fst ` set (r_committed r) = {}"
    and "fold (commit_grant admitted toks) ds (gs, r) = (gs', r')"
  shows "reuse_ok f_rec f_carry toks r' \<and> r_disabled r' = r_disabled r"
  using assms
proof (induction ds arbitrary: gs r)
  case Nil
  then show ?case by simp
next
  case (Cons d ds)
  obtain i g where d: "d = (i, g)" by (cases d)
  show ?case
  proof (cases "admitted i = Some (g_q g)")
    case True
    from commit_grant_admitted [of admitted i g, OF True, of toks gs r] obtain f where
      c: "commit_grant admitted toks (i, g) (gs, r) = (gs @ [committed_grant toks g],
       (pinned_for g r)\<lparr>r_stats := f, r_committed := dict_set i (committed_grant toks g) (r_committed r)\<rparr>)"
      (is "_ = (_, ?r)") by blast
    have "reuse_ok f_rec f_carry toks ?r"
      by (rule reuse_ok_commit_insert) (use Cons.prems d in auto)
    moreover have "set ds \<subseteq> set (r_staged ?r)" using Cons.prems by simp
    moreover have "fst ` set ds \<inter> fst ` set (r_committed ?r) = {}"
      using Cons.prems d by (auto simp: keys_dict_set)
    ultimately show ?thesis
      using Cons.IH [of ?r "gs @ [committed_grant toks g]"] Cons.prems c d by simp
  next
    case False
    from commit_grant_dropped [of admitted i g, OF False, of toks gs r] obtain f where
      "commit_grant admitted toks (i, g) (gs, r) = (gs, r\<lparr>r_stats := f\<rparr>)" by blast
    with Cons.IH [of "r\<lparr>r_stats := f\<rparr>" gs] Cons.prems d show ?thesis by simp
  qed
qed

lemma reuse_ok_commit:
  assumes ok: "reuse_ok f_rec f_carry toks r" and "r_committed r = []"
  shows "reuse_ok f_rec f_carry toks (snd (registry_commit admitted toks r))"
    and "r_disabled (snd (registry_commit admitted toks r)) = r_disabled r"
    and "r_staged (snd (registry_commit admitted toks r)) = []"
proof -
  obtain gs r' where f: "fold (commit_grant admitted toks) (r_staged r) ([], r) = (gs, r')"
    by fastforce
  have "distinct (map fst (r_staged r))"
    using ok by (simp add: reuse_ok_def registry_ok_def ledger_ok_def dict_ok_def)
  with reuse_ok_commit_fold [OF ok _ _ _ f] assms(2)
  have r': "reuse_ok f_rec f_carry toks r'" "r_disabled r' = r_disabled r" by auto
  have "registry_ok (r'\<lparr>r_staged := []\<rparr>)"
    using registry_commit_ok [of r admitted toks] ok assms(2) f by (simp add: registry_commit_def reuse_ok_def)
  then have "reuse_ok f_rec f_carry toks (r'\<lparr>r_staged := []\<rparr>)"
    by (intro reuse_ok_same [OF r'(1)]) simp_all
  with f r' show "reuse_ok f_rec f_carry toks (snd (registry_commit admitted toks r))"
    "r_disabled (snd (registry_commit admitted toks r)) = r_disabled r"
    "r_staged (snd (registry_commit admitted toks r)) = []"
    by (simp_all add: registry_commit_def)
qed

text \<open>The tokens of the requests grow, or those of a request that holds nothing change.\<close>

lemma reuse_ok_grow:
  assumes ok: "reuse_ok f_rec f_carry toks r"
  shows "reuse_ok f_rec f_carry (toks(i := toks i @ us)) r"
proof -
  have reg: "registry_ok r" using ok by (simp add: reuse_ok_def)
  have m: "matches_at r ((toks(i := toks i @ us)) j) s n" if "matches_at r (toks j) s n" for j s n
    using that matches_at_grow [OF _ reg, of "toks i" s n us] by (cases "j = i") simp_all
  have g: "grant_ok (toks(i := toks i @ us)) r j h" if "grant_ok toks r j h" for j h
    using that m unfolding grant_ok_def by blast
  have p: "\<exists>vs. (toks(i := toks i @ us)) j = ts @ vs" if "\<exists>vs. toks j = ts @ vs" for j ts
    using that by auto
  show ?thesis
    using ok m g p unfolding reuse_ok_def memo_ok_def staged_ok_def committed_ok_def by blast
qed

lemma reuse_ok_fresh:
  assumes ok: "reuse_ok f_rec f_carry toks r" and "r_token_checks r i = (\<lambda>_. None)"
    and "i \<notin> fst ` set (r_staged r)" and "i \<notin> fst ` set (r_committed r)"
  shows "reuse_ok f_rec f_carry (toks(i := ts)) r"
proof -
  have "j \<noteq> i" if "(j, h) \<in> set (r_staged r) \<or> (j, h) \<in> set (r_committed r)" for j h
    using that assms(3,4) by force
  then have eq: "(toks(i := ts)) j = toks j \<and> grant_ok (toks(i := ts)) r j h = grant_ok toks r j h"
    if "(j, h) \<in> set (r_staged r) \<or> (j, h) \<in> set (r_committed r)" for j h
    using that unfolding grant_ok_def by auto
  have "memo_ok (toks(i := ts)) r"
    using ok assms(2) by (auto simp: reuse_ok_def memo_ok_def)
  with ok eq show ?thesis unfolding reuse_ok_def staged_ok_def committed_ok_def by metis
qed

subsection \<open>The trim\<close>

text \<open>What a search finds: a chunk boundary no higher than it started, below the first same-step
  block, at which the registry holds a checkpoint of the request's own tokens.\<close>

definition found_ok ::
  "int list \<Rightarrow> int \<Rightarrow> nat \<Rightarrow> 's registry \<Rightarrow> int \<times> block_hash \<times> nat \<Rightarrow> bool" where
  "found_ok toks first_same k r = (\<lambda>(n, key, s). 0 < n \<and> n \<le> int k * CHUNK \<and> CHUNK dvd n
     \<and> n div BLOCK \<le> first_same \<and> registry_get r key = Some s \<and> matches_at r toks s n)"

definition same_ledger :: "'s registry \<Rightarrow> 's registry \<Rightarrow> bool" where
  "same_ledger r r' \<longleftrightarrow> contents r' = contents r \<and> r_entries r' = r_entries r
     \<and> r_staged r' = r_staged r \<and> r_committed r' = r_committed r \<and> r_disabled r' = r_disabled r
     \<and> r_mid_loop_capture r' = r_mid_loop_capture r"

lemma found_ok_same: "same_ledger r r' \<Longrightarrow> found_ok toks fs k r' x = found_ok toks fs k r x"
  by (simp add: found_ok_def same_ledger_def registry_get_def matches_at_def split: prod.splits)

lemma found_ok_Suc: "found_ok toks fs k r x \<Longrightarrow> found_ok toks fs (Suc k) r x"
  by (auto simp: found_ok_def CHUNK_def split: prod.splits)

lemma same_ledger_refl [simp]: "same_ledger r r"
  by (simp add: same_ledger_def)

lemma same_ledger_trans: "same_ledger r r' \<Longrightarrow> same_ledger r' r'' \<Longrightarrow> same_ledger r r''"
  by (simp add: same_ledger_def)

lemma trim_scan_spec:
  assumes "reuse_ok f_rec f_carry toks r" and "toks (v_request_id q) = v_all_token_ids q"
    and "trim_scan q fs k r = (res, r')"
  shows "reuse_ok f_rec f_carry toks r' \<and> same_ledger r r'
    \<and> (\<forall>x rejected. res = Inr (Some x, rejected) \<longrightarrow> found_ok (v_all_token_ids q) fs k r x)"
  using assms
proof (induction q fs k r arbitrary: res r' rule: trim_scan.induct)
  case (1 q fs r)
  then show ?case by (auto simp: same_ledger_def)
next
  case (2 q fs k r)
  define n where "n = int (Suc k) * CHUNK"
  define count where "count = n div BLOCK"
  show ?case
  proof (cases "count > fs")
    case True
    obtain res1 r1 where rec: "trim_scan q fs k r = (res1, r1)" by fastforce
    have "res = Inl e" if "res1 = Inl e" for e
      using that 2(6) rec True by (simp add: n_def count_def Let_def)
    moreover have "res = Inr (fst y, True)" if "res1 = Inr y" for y
      using that 2(6) rec True by (simp add: n_def count_def Let_def split: prod.splits)
    moreover have "r' = r1"
      using 2(6) rec True by (simp add: n_def count_def Let_def split: sum.splits prod.splits)
    ultimately show ?thesis
      using 2(1) [OF n_def count_def True 2(4,5) rec] found_ok_Suc [of _ fs k r]
      by (cases res1) fastforce+
  next
    case low: False
    show ?thesis
    proof (cases "py_index (v_block_hashes q) (nat (count - 1))")
      case (Inl e)
      with 2(4,6) low show ?thesis by (auto simp: n_def count_def Let_def same_ledger_def)
    next
      case key: (Inr key)
      show ?thesis
      proof (cases "registry_get r key")
        case None
        with 2(6) low key have "trim_scan q fs k r = (res, r')" by (simp add: n_def count_def Let_def)
        from 2(2) [OF n_def count_def low key None 2(4,5) this] show ?thesis
          by (simp add: found_ok_Suc)
      next
        case (Some s)
        obtain v r1 where m: "tokens_match r (v_request_id q) n s (v_all_token_ids q) = (v, r1)"
          by fastforce
        note tm = reuse_ok_tokens_match [OF 2(4), of "v_request_id q" n s v r1, unfolded 2(5), OF m]
        have r1: "r1 = snd (tokens_match r (v_request_id q) n s (v_all_token_ids q))" using m by simp
        have same: "same_ledger r r1"
          unfolding same_ledger_def r1 by simp
        show ?thesis
        proof (cases v)
          case True
          with 2(6) low key Some m have "res = Inr (Some (n, key, s), False)" "r' = r1"
            by (simp_all add: n_def count_def Let_def)
          moreover have "found_ok (v_all_token_ids q) fs (Suc k) r (n, key, s)"
            using tm(2) True low Some by (auto simp: found_ok_def n_def count_def CHUNK_def)
          ultimately show ?thesis using tm(1) same by simp
        next
          case False
          with 2(6) low key Some m have "trim_scan q fs k r1 = (res, r')"
            by (simp add: n_def count_def Let_def)
          from 2(3) [OF n_def count_def low key Some m [symmetric] _ tm(1) 2(5) this] False
          show ?thesis using same_ledger_trans [OF same, of r'] by (simp add: found_ok_Suc found_ok_same [OF same])
        qed
      qed
    qed
  qed
qed

text \<open>The plan only names chunk boundaries above \<open>q\<close> that the cap publishes.\<close>

lemma plan_scan_spec:
  "plan_scan pb drain hashes ml ps = (planned, unplanned) \<Longrightarrow>
     (\<forall>(pos, key) \<in> set planned. pos \<in> set ps \<and> pos \<le> pb \<and> pos \<le> drain
        \<and> pos div BLOCK \<le> int (length hashes) \<and> key = hashes ! nat (pos div BLOCK - 1)
        \<and> (pos = drain \<or> ml))
     \<and> set unplanned \<subseteq> set ps"
  by (induction ps arbitrary: planned unplanned) (auto split: prod.splits if_splits)

lemma fold_note_orphan_frame:
  "reuse_ok f_rec f_carry toks r \<Longrightarrow>
     reuse_ok f_rec f_carry toks (fold (\<lambda>b r. if P b then note_orphan (key b) r else r) bs r)
     \<and> same_ledger r (fold (\<lambda>b r. if P b then note_orphan (key b) r else r) bs r)"
proof (induction bs arbitrary: r)
  case Nil
  then show ?case by (simp add: same_ledger_def)
next
  case (Cons b bs)
  let ?r = "if P b then note_orphan (key b) r else r"
  have "reuse_ok f_rec f_carry toks ?r" using Cons.prems by (simp add: reuse_ok_note_orphan)
  moreover have "same_ledger r ?r" by (simp add: same_ledger_def)
  ultimately show ?case using Cons.IH [of ?r] same_ledger_trans by auto
qed

lemma note_orphans_frame:
  assumes "reuse_ok f_rec f_carry toks r"
  shows "reuse_ok f_rec f_carry toks (note_orphans q h r) \<and> same_ledger r (note_orphans q h r)"
  using assms fold_note_orphan_frame [OF assms,
      where P = "\<lambda>b. b div BLOCK \<le> int (length (v_block_hashes q))"
        and key = "\<lambda>b. v_block_hashes q ! nat (b div BLOCK - 1)"]
  by (simp add: note_orphans_def)

lemma reuse_ok_stage:
  assumes ok: "reuse_ok f_rec f_carry toks r" and g: "grant_ok toks r (g_req_id g) g"
    and "g_request g = Some (g_req_id g)" and "g_tokens g = None"
  shows "reuse_ok f_rec f_carry toks (stage g r)"
proof -
  have present: "r_heap r s \<noteq> None" if "g_checkpoint g = Some s" for s
    using g that by (auto simp: grant_ok_def matches_at_def contents_def)
  have "dict_ok (r_staged r)" using ok by (simp add: reuse_ok_def registry_ok_def ledger_ok_def)
  then have st: "set (r_staged (stage g r)) = insert (g_req_id g, g) {p \<in> set (r_staged r). fst p \<noteq> g_req_id g}"
    by (simp add: stage_def set_dict_set)
  have "registry_ok (stage g r)"
    using ok present by (intro stage_ok) (simp_all add: reuse_ok_def)
  moreover have "r_committed (stage g r) = r_committed r" "r_token_checks (stage g r) = r_token_checks r"
    by (simp_all add: stage_def)
  ultimately show ?thesis
    using ok g assms(3,4)
    by (auto simp: reuse_ok_def memo_ok_def staged_ok_def st committed_ok_def exact_ok_def grant_ok_def
        matches_at_def)
qed

text \<open>The kill switch's poll.\<close>

lemma kill_switch_engaged_ok:
  assumes "reuse_ok f_rec f_carry toks (gr_registry gr)"
    and "kill_switch_engaged now ex gr = (killed, gr')"
  shows "reuse_ok f_rec f_carry toks (gr_registry gr')" and "killed \<longleftrightarrow> graft_killed gr'"
    and "r_committed (gr_registry gr') = r_committed (gr_registry gr)"
    and "gr_sticky gr' = gr_sticky gr" and "gr_drop_last gr' = gr_drop_last gr"
    and "graft_killed gr \<Longrightarrow> graft_killed gr'"
    and "r_staged (gr_registry gr') = r_staged (gr_registry gr)"
proof -
  obtain fresh k where p: "kill_switch_poll (gr_kill_switch gr) now ex = (fresh, k)" by fastforce
  have r: "gr_registry gr' = gr_registry gr \<or>
      (\<exists>reason. gr_registry gr' = registry_disable reason (gr_registry gr))"
    using assms(2) p by (cases fresh) (auto simp: kill_switch_engaged_def on_registry_def Let_def)
  with assms(1) show "reuse_ok f_rec f_carry toks (gr_registry gr')"
    by (auto intro: reuse_ok_disable)
  from r show "r_committed (gr_registry gr') = r_committed (gr_registry gr)"
    "r_staged (gr_registry gr') = r_staged (gr_registry gr)"
    by (auto simp: registry_disable_def registry_clear_def)
  from assms(2) show k: "killed \<longleftrightarrow> graft_killed gr'" "gr_sticky gr' = gr_sticky gr"
    "gr_drop_last gr' = gr_drop_last gr"
    by (auto simp: kill_switch_engaged_def on_registry_def Let_def split: prod.splits if_splits)
  show "graft_killed gr'" if killed: "graft_killed gr"
  proof (cases "k_engaged (gr_kill_switch gr)")
    case True
    then have "kill_switch_poll (gr_kill_switch gr) now ex = (False, gr_kill_switch gr)"
      by (simp add: kill_switch_poll_def)
    with assms(2) True show ?thesis
      by (auto simp: kill_switch_engaged_def graft_killed_def)
  next
    case False
    with killed have "r_disabled (gr_registry gr) \<noteq> None" by (simp add: graft_killed_def)
    with r have "r_disabled (gr_registry gr') \<noteq> None"
      by (auto simp: registry_disable_def registry_clear_def)
    then show ?thesis by (simp add: graft_killed_def)
  qed
qed

lemma trim_hit_ok:
  assumes ok: "reuse_ok f_rec f_carry toks (gr_registry gr)"
    and t: "toks (v_request_id q) = v_all_token_ids q" and h: "0 \<le> h"
    and trim: "graft_trim_hit q blocks h gr = (res, gr')"
  shows "reuse_ok f_rec f_carry toks (gr_registry gr')
    \<and> r_committed (gr_registry gr') = r_committed (gr_registry gr)
    \<and> r_disabled (gr_registry gr') = r_disabled (gr_registry gr)
    \<and> gr_kill_switch gr' = gr_kill_switch gr"
proof -
  let ?r = "gr_registry gr" and ?k = "nat (trim_limit gr q h)"
  define start where "start = (if r_same_step_blocks ?r = {} then Inr (h div BLOCK)
    else rbind (first_same_step (r_same_step_blocks ?r) (if h \<noteq> 0 then blocks else []) (nat (h div BLOCK)) 0)
      (\<lambda>n. Inr (int n)))"
  show ?thesis
  proof (cases start)
    case (Inl e)
    with trim ok show ?thesis by (simp add: graft_trim_hit_def Let_def start_def)
  next
    case (Inr fs)
    obtain out r1 where scan: "trim_scan q fs ?k ?r = (out, r1)" by fastforce
    note sp = trim_scan_spec [OF ok t scan]
    show ?thesis
    proof (cases out)
      case (Inl e)
      with trim Inr scan sp show ?thesis by (auto simp: graft_trim_hit_def Let_def start_def same_ledger_def)
    next
      case out: (Inr y)
      obtain found rejected where y: "y = (found, rejected)" by (cases y)
      define r2 where "r2 = (if rejected then bump St_same_step_rejects 1 r1 else r1)"
      define r3 where "r3 = note_orphans q h r2"
      define n where "n = (case found of None \<Rightarrow> 0 | Some (n, _, _) \<Rightarrow> n)"
      define gr1 where "gr1 = gr\<lparr>gr_registry := r3\<rparr>"
      obtain plan unplanned drain where plan: "graft_plan gr1 q h n = (plan, unplanned, drain)"
        by (cases "graft_plan gr1 q h n")
      define g where "g = make_grant (v_request_id q) n h (map_option (\<lambda>(_, key, _). key) found)
        (map_option (\<lambda>(_, _, entry). entry) found) plan (v_request_id q) (Some drain) unplanned"
      have ok2: "reuse_ok f_rec f_carry toks r2" "same_ledger ?r r2"
        using sp by (simp_all add: r2_def same_ledger_def)
      have ok3: "reuse_ok f_rec f_carry toks r3" "same_ledger ?r r3"
        using note_orphans_frame [OF ok2(1), of q h] same_ledger_trans [OF ok2(2)] by (simp_all add: r3_def)
      have gr': "gr' = gr\<lparr>gr_registry := (if n \<noteq> 0 \<or> plan \<noteq> [] \<or> unplanned \<noteq> [] then stage g r3
          else unstage (v_request_id q) r3)\<rparr>"
        using trim
        unfolding graft_trim_hit_def Let_def start_def [symmetric] Inr sum.case scan prod.case out y
          r2_def [symmetric] r3_def [symmetric] gr1_def [symmetric] n_def [symmetric] plan
          g_def [symmetric] on_registry_def
        by (auto simp: gr1_def)
      have gok: "grant_ok toks r3 (v_request_id q) g"
      proof (cases found)
        case None
        with h show ?thesis by (simp add: grant_ok_def g_def make_grant_def n_def)
      next
        case (Some x)
        obtain key s where x: "x = (n, key, s)" using Some by (cases x) (simp add: n_def)
        have "found_ok (toks (v_request_id q)) fs ?k r3 (n, key, s)"
          using sp out y Some x t found_ok_same [OF ok3(2)] by simp
        then have f: "0 < n" "n \<le> int ?k * CHUNK" "matches_at r3 (toks (v_request_id q)) s n"
          by (simp_all add: found_ok_def)
        have "trim_limit gr q h \<le> h div CHUNK" "0 \<le> h div CHUNK"
          using h by (simp_all add: trim_limit_def) (simp add: CHUNK_def)
        then have "int ?k \<le> h div CHUNK" by simp
        then have "int ?k * CHUNK \<le> h div CHUNK * CHUNK" by (simp add: CHUNK_def)
        also have "\<dots> \<le> h" by (simp add: CHUNK_def)
        finally have "n \<le> h" using f(2) by simp
        with f Some x show ?thesis by (simp add: grant_ok_def g_def make_grant_def)
      qed
      have "reuse_ok f_rec f_carry toks (stage g r3)"
        by (rule reuse_ok_stage [OF ok3(1)]) (use gok in \<open>simp_all add: g_def make_grant_def\<close>)
      moreover have "reuse_ok f_rec f_carry toks (unstage (v_request_id q) r3)"
        by (rule reuse_ok_unstage [OF ok3(1)])
      ultimately show ?thesis using ok3(2) by (simp add: gr' stage_def unstage_def same_ledger_def)
    qed
  qed
qed

lemma trim_deny_ok:
  "reuse_ok f_rec f_carry toks (gr_registry gr) \<Longrightarrow>
     reuse_ok f_rec f_carry toks (gr_registry (trim_deny q h st gr))
     \<and> r_committed (gr_registry (trim_deny q h st gr)) = r_committed (gr_registry gr)
     \<and> r_disabled (gr_registry (trim_deny q h st gr)) = r_disabled (gr_registry gr)
     \<and> gr_kill_switch (trim_deny q h st gr) = gr_kill_switch gr"
  using reuse_ok_unstage [of f_rec f_carry toks "gr_registry gr" "v_request_id q"]
  by (simp add: trim_deny_def on_registry_def Let_def unstage_def)

lemma graft_trim_ok:
  assumes ok: "reuse_ok f_rec f_carry toks (gr_registry gr)"
    and t: "toks (v_request_id q) = v_all_token_ids q" and h: "0 \<le> h"
  shows "reuse_ok f_rec f_carry toks (gr_registry (snd (graft_trim now ex q blocks h gr)))
    \<and> r_committed (gr_registry (snd (graft_trim now ex q blocks h gr))) = r_committed (gr_registry gr)
    \<and> (graft_killed gr \<longrightarrow> graft_killed (snd (graft_trim now ex q blocks h gr)))"
proof -
  let ?gr = "on_registry (bump St_attempts 1) gr"
  have ok0: "reuse_ok f_rec f_carry toks (gr_registry ?gr)" using ok by (simp add: on_registry_def)
  have k0: "graft_killed ?gr = graft_killed gr" "r_committed (gr_registry ?gr) = r_committed (gr_registry gr)"
    by (simp_all add: graft_killed_def on_registry_def)
  show ?thesis
  proof (cases "request_excluded q")
    case (Some st)
    with trim_deny_ok [OF ok0, of q h st] k0 show ?thesis
      by (simp add: graft_trim_def Let_def graft_killed_def)
  next
    case None
    obtain killed gr1 where e: "kill_switch_engaged now ex ?gr = (killed, gr1)" by fastforce
    note ks = kill_switch_engaged_ok [OF ok0 e]
    obtain res gr2 where hit: "graft_trim_hit q blocks h gr1 = (res, gr2)" by fastforce
    show ?thesis
      using None e ks k0 trim_deny_ok [OF ks(1), of q h St_killed_denied]
        trim_hit_ok [OF ks(1) t h hit] hit
      by (cases killed) (auto simp: graft_trim_def Let_def graft_killed_def)
  qed
qed

subsection \<open>The world\<close>

record 's world =
  w_graft :: "'s graft"
  w_tokens :: "req_id \<Rightarrow> int list"
  w_in_step :: bool

definition on_graft :: "('s graft \<Rightarrow> 's graft) \<Rightarrow> 's world \<Rightarrow> 's world" where
  "on_graft f w = w\<lparr>w_graft := f (w_graft w)\<rparr>"

text \<open>\<open>schedule()\<close> begins a step, runs vLLM's own scheduling, in which it calls the trim, the cap and
  the eviction hook as it likes, and commits. The other hooks and the model's captures may come at any
  time. A freed request's id may come back with other tokens.\<close>

inductive world_step ::
  "(int list \<Rightarrow> 's) \<Rightarrow> (int list \<Rightarrow> 's) \<Rightarrow> 's world \<Rightarrow> 's world \<Rightarrow> bool"
  for f_rec :: "int list \<Rightarrow> 's" and f_carry :: "int list \<Rightarrow> 's" where
  w_begin: "\<not> w_in_step w \<Longrightarrow>
     world_step f_rec f_carry w (on_graft (on_registry begin_step) w\<lparr>w_in_step := True\<rparr>)"
| w_trim: "w_in_step w \<Longrightarrow> v_all_token_ids q = w_tokens w (v_request_id q) \<Longrightarrow> 0 \<le> h \<Longrightarrow>
     world_step f_rec f_carry w (on_graft (\<lambda>gr. snd (graft_trim now ex q blocks h gr)) w)"
| w_cap: "world_step f_rec f_carry w (on_graft (\<lambda>gr. snd (graft_cap q computed publish gr)) w)"
| w_commit: "w_in_step w \<Longrightarrow>
     world_step f_rec f_carry w (on_graft (graft_commit out (w_tokens w)) w\<lparr>w_in_step := False\<rparr>)"
| w_evict: "world_step f_rec f_carry w
     (on_graft (\<lambda>gr. snd (graft_evict (hash_of :: nat \<Rightarrow> block_hash) cached own extra evicted gr)) w)"
| w_reset: "world_step f_rec f_carry w (on_graft (graft_reset succeeded) w)"
| w_free: "world_step f_rec f_carry w
     (on_graft (graft_free i) w\<lparr>w_tokens := (w_tokens w)(i := ts)\<rparr>)"
| w_capture: "taken_at f_rec f_carry (w_tokens w i) rec carry lp \<Longrightarrow>
     world_step f_rec f_carry w
       (on_graft (on_registry (\<lambda>r. snd (registry_capture r i pos rec carry nb lp))) w)"
| w_restore: "world_step f_rec f_carry w (on_graft (on_registry note_restore) w)"
| w_mid_loop: "world_step f_rec f_carry w (on_graft (on_registry enable_mid_loop_capture) w)"
| w_grow: "world_step f_rec f_carry w (w\<lparr>w_tokens := (w_tokens w)(i := w_tokens w i @ ts)\<rparr>)"

definition world_init :: "'s world \<Rightarrow> bool" where
  "world_init w \<longleftrightarrow> (\<exists>b. gr_registry (w_graft w) = registry_init b) \<and> \<not> w_in_step w"

definition world_ok :: "(int list \<Rightarrow> 's) \<Rightarrow> (int list \<Rightarrow> 's) \<Rightarrow> 's world \<Rightarrow> bool" where
  "world_ok f_rec f_carry w \<longleftrightarrow> reuse_ok f_rec f_carry (w_tokens w) (gr_registry (w_graft w))
     \<and> (w_in_step w \<longrightarrow> r_committed (gr_registry (w_graft w)) = [])"

lemma reuse_ok_init: "reuse_ok f_rec f_carry toks (registry_init b)"
  by (simp add: reuse_ok_def memo_ok_def staged_ok_def committed_ok_def exact_ok_def)
    (simp add: registry_init_def contents_def)

lemma reuse_ok_fields [simp]:
  "reuse_ok f_rec f_carry toks (r\<lparr>r_same_step_blocks := bs\<rparr>) = reuse_ok f_rec f_carry toks r"
  "reuse_ok f_rec f_carry toks (r\<lparr>r_mid_loop_capture := ml\<rparr>) = reuse_ok f_rec f_carry toks r"
proof -
  have "registry_ok (r\<lparr>r_same_step_blocks := bs\<rparr>) = registry_ok r"
    "registry_ok (r\<lparr>r_mid_loop_capture := ml\<rparr>) = registry_ok r"
    by (simp_all add: registry_ok_def store_ok_cong [of "r\<lparr>r_same_step_blocks := bs\<rparr>" r]
        ledger_ok_cong [of "r\<lparr>r_same_step_blocks := bs\<rparr>" r]
        store_ok_cong [of "r\<lparr>r_mid_loop_capture := ml\<rparr>" r]
        ledger_ok_cong [of "r\<lparr>r_mid_loop_capture := ml\<rparr>" r])
  then show "reuse_ok f_rec f_carry toks (r\<lparr>r_same_step_blocks := bs\<rparr>) = reuse_ok f_rec f_carry toks r"
    "reuse_ok f_rec f_carry toks (r\<lparr>r_mid_loop_capture := ml\<rparr>) = reuse_ok f_rec f_carry toks r"
    by (simp_all add: reuse_ok_def memo_ok_def staged_ok_def committed_ok_def exact_ok_def grant_ok_def
        matches_at_def)
qed

lemma graft_cap_ok:
  "reuse_ok f_rec f_carry toks (gr_registry (snd (graft_cap q n publish gr)))
     = reuse_ok f_rec f_carry toks (gr_registry gr)"
  "r_committed (gr_registry (snd (graft_cap q n publish gr))) = r_committed (gr_registry gr)"
  "graft_killed (snd (graft_cap q n publish gr)) = graft_killed gr"
  by (simp_all add: graft_cap_def Let_def on_registry_def graft_killed_def split: prod.splits)

lemma graft_evict_ok:
  assumes "reuse_ok f_rec f_carry toks (gr_registry gr)"
  shows "reuse_ok f_rec f_carry toks (gr_registry (snd (graft_evict hash_of cached own extra evicted gr)))
    \<and> r_committed (gr_registry (snd (graft_evict hash_of cached own extra evicted gr)))
        = r_committed (gr_registry gr)"
proof -
  have "reuse_ok f_rec f_carry toks (fold (\<lambda>key r. if \<not> cached key
      then snd (registry_drop r (hash_of key) ''coupled'') else r) keys r)
    \<and> r_committed (fold (\<lambda>key r. if \<not> cached key
      then snd (registry_drop r (hash_of key) ''coupled'') else r) keys r) = r_committed r"
    if "reuse_ok f_rec f_carry toks r" for keys r
    using that by (induction keys arbitrary: r) (auto simp: reuse_ok_drop)
  with assms show ?thesis by (simp add: graft_evict_def Let_def on_registry_def)
qed

lemma world_step_ok:
  assumes "world_step f_rec f_carry w w'" and "world_ok f_rec f_carry w"
  shows "world_ok f_rec f_carry w'"
  using assms
proof (induction rule: world_step.induct)
  case (w_begin w)
  then show ?case
    by (simp add: world_ok_def on_graft_def on_registry_def reuse_ok_begin_step)
      (simp add: begin_step_def)
next
  case (w_trim w q h now ex blocks)
  then show ?case
    using graft_trim_ok [of f_rec f_carry "w_tokens w" "w_graft w" q h now ex blocks]
    by (simp add: world_ok_def on_graft_def)
next
  case (w_cap w q computed publish)
  then show ?case
    by (simp add: world_ok_def on_graft_def graft_cap_ok)
next
  case (w_commit w out)
  then show ?case
    using reuse_ok_commit [of f_rec f_carry "w_tokens w" "gr_registry (w_graft w)" "admitted_of out"]
    by (simp add: world_ok_def on_graft_def on_registry_def graft_commit_def)
next
  case (w_evict w hash_of cached own extra evicted)
  then show ?case
    using graft_evict_ok [of f_rec f_carry "w_tokens w" "w_graft w" hash_of cached own extra evicted]
    by (simp add: world_ok_def on_graft_def)
next
  case (w_reset w succeeded)
  then show ?case
    using reuse_ok_clear [of f_rec f_carry "w_tokens w" "gr_registry (w_graft w)"]
    by (simp add: world_ok_def on_graft_def on_registry_def graft_reset_def) (simp add: registry_clear_def)
next
  case (w_free w i ts)
  let ?r = "snd (forget_request i (gr_registry (w_graft w)))"
  note f = reuse_ok_forget [of f_rec f_carry "w_tokens w" "gr_registry (w_graft w)" i]
  have "reuse_ok f_rec f_carry ((w_tokens w)(i := ts)) ?r"
    using w_free f by (intro reuse_ok_fresh) (simp_all add: world_ok_def)
  moreover have "r_committed ?r = []" if "r_committed (gr_registry (w_graft w)) = []"
    using that by (simp add: forget_request_def Let_def dict_del_simps)
  ultimately show ?case using w_free
    by (simp add: world_ok_def on_graft_def on_registry_def graft_free_def)
next
  case (w_capture w i rec carry lp pos nb)
  then show ?case
    using reuse_ok_capture [of f_rec f_carry "w_tokens w" "gr_registry (w_graft w)" i rec carry lp pos nb]
    by (simp add: world_ok_def on_graft_def on_registry_def)
next
  case (w_restore w)
  then show ?case by (simp add: world_ok_def on_graft_def on_registry_def note_restore_def)
next
  case (w_mid_loop w)
  then show ?case
    by (simp add: world_ok_def on_graft_def on_registry_def enable_mid_loop_capture_def)
next
  case (w_grow w i ts)
  then show ?case by (simp add: world_ok_def reuse_ok_grow)
qed

lemma world_init_ok: "world_init w \<Longrightarrow> world_ok f_rec f_carry w"
  by (auto simp: world_init_def world_ok_def reuse_ok_init)

interpretation reuse: invariant_system world_init "world_step f_rec f_carry" "world_ok f_rec f_carry"
  for f_rec :: "int list \<Rightarrow> 's" and f_carry :: "int list \<Rightarrow> 's"
  by unfold_locales (rule world_init_ok, assumption, rule world_step_ok)

text \<open>C15: whatever the scheduler, the cache and the operator do and in whatever order, a state that an
  admission restores is exact. For every committed grant with a hit \<open>q\<close>, the checkpoint it refers to
  is there, was taken at \<open>q\<close>, a chunk boundary at most vLLM's own hit, from exactly the first \<open>q\<close>
  tokens of that request, and its two tensors are the model's after those tokens. No hash is trusted
  for it: the block hash only finds the candidate.\<close>

theorem restored_state_is_exact:
  assumes "reachable world_init (world_step f_rec f_carry) w"
    and "grant_for (gr_registry (w_graft w)) i = Some g" and "g_q g \<noteq> 0"
  shows "\<exists>s c. g_checkpoint g = Some s \<and> r_heap (gr_registry (w_graft w)) s = Some c
    \<and> c_pos c = g_q g \<and> CHUNK dvd g_q g \<and> 0 < g_q g \<and> g_q g \<le> g_h g
    \<and> int (length (take (nat (g_q g)) (w_tokens w i))) = g_q g
    \<and> c_token_ids c = take (nat (g_q g)) (w_tokens w i)
    \<and> c_rec c = Some (f_rec (take (nat (g_q g)) (w_tokens w i)))
    \<and> c_carry c = Some (f_carry (take (nat (g_q g)) (w_tokens w i)))"
proof -
  let ?r = "gr_registry (w_graft w)"
  from reuse.inv_reachable [OF assms(1)] have ok: "reuse_ok f_rec f_carry (w_tokens w) ?r"
    by (simp add: world_ok_def)
  have "(i, g) \<in> set (r_committed ?r)" using assms(2) by (simp add: grant_for_def map_of_SomeD)
  with ok have g: "grant_ok (w_tokens w) ?r i g" by (simp add: reuse_ok_def committed_ok_def)
  with assms(3) obtain s where s: "g_checkpoint g = Some s" "matches_at ?r (w_tokens w i) s (g_q g)"
    by (auto simp: grant_ok_def)
  then obtain c where c: "contents ?r s = Some c" "c_pos c = g_q g"
    "c_token_ids c = py_prefix (g_q g) (w_tokens w i)" by (auto simp: matches_at_def)
  have reg: "registry_ok ?r" using ok by (simp add: reuse_ok_def)
  note good = contents_ok [OF reg c(1)]
  have pre: "py_prefix (g_q g) (w_tokens w i) = take (nat (g_q g)) (w_tokens w i)"
    using g by (simp add: py_prefix_pos grant_ok_def)
  obtain c0 where c0: "r_heap ?r s = Some c0" "c = c0\<lparr>c_pins := 0\<rparr>"
    using c(1) by (auto simp: contents_def)
  moreover have "c_rec c = Some (f_rec (c_token_ids c))" "c_carry c = Some (f_carry (c_token_ids c))"
    using ok c(1) by (auto simp: reuse_ok_def exact_ok_def)
  moreover have "g_q g \<le> g_h g" using g by (simp add: grant_ok_def)
  ultimately show ?thesis using s(1) c(2,3) good unfolding pre by auto
qed

end
