(* ===== verification/PrefixProps.thy ===== *)
theory PrefixProps
  imports PrefixExact
begin

text \<open>
  Properties of prefix reuse beside exactness: the LRU's eviction, the pins, the byte budget, the kill
  switch and the plan; and the run that shows a reused state.
\<close>

definition demo_request :: "req_id \<Rightarrow> vllm_request" where
  "demo_request i = \<lparr>v_request_id = i, v_cache_salt = Some ''t'', v_resumable = False,
     v_num_prompt_tokens = 2112, v_num_tokens = 2112, v_block_hashes = replicate 33 5,
     v_all_token_ids = replicate 2112 7\<rparr>"

definition demo0 :: "int list world" where
  "demo0 = \<lparr>w_graft = \<lparr>gr_registry = registry_init 1000000000,
       gr_kill_switch = \<lparr>k_path = None, k_poll_s = 1, k_engaged = False, k_last_poll = None\<rparr>,
       gr_sticky = False, gr_drop_last = False\<rparr>,
     w_tokens = (\<lambda>_. replicate 2112 7), w_in_step = False\<rparr>"

definition demo_begin :: "int list world \<Rightarrow> int list world" where
  "demo_begin w = on_graft (on_registry begin_step) w\<lparr>w_in_step := True\<rparr>"

definition demo_trim :: "req_id \<Rightarrow> int \<Rightarrow> int list world \<Rightarrow> int list world" where
  "demo_trim i h w = on_graft (\<lambda>gr. snd (graft_trim 0 (Inr False) (demo_request i) (replicate 33 1) h gr)) w"

definition demo_commit :: "req_id \<Rightarrow> int \<Rightarrow> int list world \<Rightarrow> int list world" where
  "demo_commit i n w = on_graft (graft_commit \<lparr>o_new = [(i, n)], o_cached = [], o_resumed = {}\<rparr>
     (w_tokens w)) w\<lparr>w_in_step := False\<rparr>"

definition demo_capture :: "int list world \<Rightarrow> int list world" where
  "demo_capture w = on_graft (on_registry (\<lambda>r. snd (registry_capture r ''a'' 2048
     (Some (replicate 2048 7)) (Some (replicate 2048 7)) None (Some 2048)))) w"

definition demo_stored :: "int list world" where
  "demo_stored = demo_capture (demo_commit ''a'' 0 (demo_trim ''a'' 0 (demo_begin demo0)))"

definition demo_final :: "int list world" where
  "demo_final = demo_commit ''b'' 2048 (demo_trim ''b'' 2048 (demo_begin demo_stored))"

lemmas demo_defs =
  demo_begin_def demo_trim_def demo_commit_def demo_capture_def demo0_def demo_request_def
  on_graft_def on_registry_def begin_step_def unpin_def enforce_budget_def registry_init_def
  graft_trim_def graft_trim_hit_def trim_deny_def trim_limit_def Let_def request_excluded_def
  kill_switch_engaged_def kill_switch_poll_def graft_killed_def bump_def py_index_def
  registry_get_def tokens_match_def token_check_run_def checkpoint_matches_def py_prefix_def
  note_orphans_def py_range_def note_orphan_def graft_plan_def plan_candidates_def floor_chunk_def
  CHUNK_def BLOCK_def stage_def unstage_def make_grant_def dict_del_def
  graft_commit_def registry_commit_def commit_grant_def admitted_of_def set_pins_def
  registry_touch_def move_to_end_def registry_capture_def capture_body_def grant_for_def
  registry_put_def CHECKPOINT_NBYTES_def

lemma demo_stored_eq:
  "demo_stored = demo0\<lparr>w_graft := (w_graft demo0)\<lparr>gr_registry := registry_init 1000000000
     \<lparr>r_entries := [(5, 1)], r_heap := [1 \<mapsto>
        \<lparr>c_key = 5, c_pos = 2048, c_token_ids = replicate 2048 7, c_rec = Some (replicate 2048 7),
         c_carry = Some (replicate 2048 7), c_nbytes = 153944064, c_pins = 0, c_serial = 1\<rparr>],
      r_bytes := 153944064,
      r_committed := [(''a'',
        \<lparr>g_req_id = ''a'', g_q = 0, g_h = 0, g_key = None, g_checkpoint = None, g_plan = [(2048, 5)],
         g_request = None, g_tokens = Some (replicate 2048 7), g_drain = 2048, g_unplanned = []\<rparr>)],
      r_stats := (\<lambda>_. 0)(St_attempts := 1, St_staged := 1, St_admissions := 1,
        St_trim_loss_tokens := 0, St_mid_loop_unplanned := 0, St_captures := 1),
      r_next_serial := 2\<rparr>\<rparr>\<rparr>"
  unfolding demo_stored_def by (simp add: demo_defs)

lemma demo_grant: "map_option g_q (grant_for (gr_registry (w_graft demo_final)) ''b'') = Some 2048"
  unfolding demo_final_def demo_stored_eq by (simp add: demo_defs)

lemma demo_steps:
  "\<not> w_in_step w \<Longrightarrow> world_step f_rec f_carry w (demo_begin w)"
  "w_in_step w \<Longrightarrow> w_tokens w i = replicate 2112 7 \<Longrightarrow> 0 \<le> h \<Longrightarrow> world_step f_rec f_carry w (demo_trim i h w)"
  "w_in_step w \<Longrightarrow> world_step f_rec f_carry w (demo_commit i n w)"
  "w_tokens w ''a'' = replicate 2112 7 \<Longrightarrow> world_step (\<lambda>t. t) (\<lambda>t. t) w (demo_capture w)"
proof -
  show "\<not> w_in_step w \<Longrightarrow> world_step f_rec f_carry w (demo_begin w)"
    unfolding demo_begin_def by (rule w_begin)
  show "w_in_step w \<Longrightarrow> w_tokens w i = replicate 2112 7 \<Longrightarrow> 0 \<le> h \<Longrightarrow> world_step f_rec f_carry w (demo_trim i h w)"
    unfolding demo_trim_def by (rule w_trim) (simp_all add: demo_request_def)
  show "w_in_step w \<Longrightarrow> world_step f_rec f_carry w (demo_commit i n w)"
    unfolding demo_commit_def by (rule w_commit)
  show "w_tokens w ''a'' = replicate 2112 7 \<Longrightarrow> world_step (\<lambda>t. t) (\<lambda>t. t) w (demo_capture w)"
    unfolding demo_capture_def by (rule w_capture) (simp add: taken_at_def py_prefix_def)
qed

lemma demo_frame [simp]:
  "w_in_step (demo_begin w)" "w_in_step (demo_trim i h w) = w_in_step w" "\<not> w_in_step (demo_commit i n w)"
  "w_in_step (demo_capture w) = w_in_step w" "\<not> w_in_step demo0"
  "w_tokens (demo_begin w) = w_tokens w" "w_tokens (demo_trim i h w) = w_tokens w"
  "w_tokens (demo_commit i n w) = w_tokens w" "w_tokens (demo_capture w) = w_tokens w"
  "w_tokens demo0 = (\<lambda>_. replicate 2112 7)"
  by (simp_all add: demo_begin_def demo_trim_def demo_commit_def demo_capture_def on_graft_def demo0_def)

text \<open>The demo's own steps keep a world reachable.\<close>

abbreviation demo_reach :: "int list world \<Rightarrow> bool" where
  "demo_reach \<equiv> reachable world_init (world_step (\<lambda>t. t) (\<lambda>t. t))"

lemma demo_reach:
  "demo_reach demo0"
  "demo_reach w \<Longrightarrow> \<not> w_in_step w \<Longrightarrow> demo_reach (demo_begin w)"
  "demo_reach w \<Longrightarrow> w_in_step w \<Longrightarrow> w_tokens w i = replicate 2112 7 \<Longrightarrow> 0 \<le> h \<Longrightarrow> demo_reach (demo_trim i h w)"
  "demo_reach w \<Longrightarrow> w_in_step w \<Longrightarrow> demo_reach (demo_commit i n w)"
  "demo_reach w \<Longrightarrow> w_tokens w ''a'' = replicate 2112 7 \<Longrightarrow> demo_reach (demo_capture w)"
  by (rule reachable.initial, auto simp: world_init_def demo0_def)
    (erule reachable.step, rule demo_steps, assumption+)+

lemma demo_stored_reachable: "demo_reach demo_stored"
  unfolding demo_stored_def by (intro demo_reach) simp_all

lemma demo_reachable: "demo_reach demo_final"
  unfolding demo_final_def by (intro demo_reach demo_stored_reachable) (simp_all add: demo_stored_def)

theorem restored_state_is_exact_witness:
  "\<exists>g s c. grant_for (gr_registry (w_graft demo_final)) ''b'' = Some g
     \<and> r_heap (gr_registry (w_graft demo_final)) s = Some c \<and> g_checkpoint g = Some s
     \<and> c_rec c = Some (take 2048 (w_tokens demo_final ''b''))"
proof -
  from demo_grant obtain g where g: "grant_for (gr_registry (w_graft demo_final)) ''b'' = Some g" "g_q g = 2048"
    by auto
  with restored_state_is_exact [OF demo_reachable g(1)] show ?thesis by auto
qed

subsection \<open>Eviction\<close>

text \<open>C31: the LRU evicts exactly what it must. Of the entries, oldest first, it drops the unpinned ones
  among the first \<open>n\<close>, for the least \<open>n\<close> that brings the bytes under the budget; if no \<open>n\<close> does,
  every entry left is pinned. The order of the survivors does not change.\<close>

theorem eviction_is_minimal:
  assumes "store_ok r"
  shows "\<exists>n \<le> length (r_entries r).
    r_entries (enforce_budget r)
      = filter (\<lambda>(_, s). pins_of r s \<noteq> 0) (take n (r_entries r)) @ drop n (r_entries r)
    \<and> (\<forall>m < n. bytes_in r (filter (\<lambda>(_, s). pins_of r s \<noteq> 0) (take m (r_entries r))
                 @ drop m (r_entries r)) > r_budget_bytes r)
    \<and> (r_bytes (enforce_budget r) \<le> r_budget_bytes r
       \<or> (\<forall>(_, s) \<in> set (r_entries (enforce_budget r)). pins_of r s \<noteq> 0))"
proof -
  from enforce_budget_survivors [OF assms] obtain n where n: "n \<le> length (r_entries r)"
    "r_entries (enforce_budget r) = survivors r n"
    "\<forall>m < n. bytes_in r (survivors r m) > r_budget_bytes r"
    "n = length (r_entries r) \<or> r_bytes (enforce_budget r) \<le> r_budget_bytes r" by blast
  have "\<forall>(_, s) \<in> set (r_entries (enforce_budget r)). pins_of r s \<noteq> 0" if "n = length (r_entries r)"
    using that n(2) by (auto simp: survivors_def)
  with n show ?thesis by (intro exI [of _ n]) (auto simp: survivors_def)
qed

definition demo_entry :: "nat \<Rightarrow> nat \<Rightarrow> int list checkpoint" where
  "demo_entry s pins = \<lparr>c_key = s, c_pos = 2048, c_token_ids = replicate 2048 7, c_rec = None,
     c_carry = None, c_nbytes = 10, c_pins = pins, c_serial = s\<rparr>"

text \<open>Three checkpoints of 10 bytes under a budget of 15; the oldest is in use.\<close>

definition demo_lru :: "int list registry" where
  "demo_lru = registry_init 15\<lparr>r_entries := [(1, 1), (2, 2), (3, 3)],
     r_heap := [1 \<mapsto> demo_entry 1 1, 2 \<mapsto> demo_entry 2 0, 3 \<mapsto> demo_entry 3 0],
     r_bytes := 30, r_next_serial := 4\<rparr>"

lemma demo_lru_ok: "store_ok demo_lru"
  by (auto simp: store_ok_def demo_lru_def registry_init_def heap_ok_def checkpoint_ok_def
      demo_entry_def nbytes_of_def dict_ok_def CHUNK_def)

theorem eviction_is_minimal_witness:
  "r_entries (enforce_budget demo_lru) = [(1, 1)]
   \<and> (\<exists>n \<le> 3. r_entries (enforce_budget demo_lru)
        = filter (\<lambda>(_, s). pins_of demo_lru s \<noteq> 0) (take n (r_entries demo_lru)) @ drop n (r_entries demo_lru))"
proof
  show "r_entries (enforce_budget demo_lru) = [(1, 1)]"
    by (simp add: enforce_budget_def demo_lru_def registry_init_def pins_of_def demo_entry_def
        remove_entry_def bump_def dict_del_simps nbytes_of_def)
  have "length (r_entries demo_lru) = 3" by (simp add: demo_lru_def)
  with eviction_is_minimal [OF demo_lru_ok] show "\<exists>n \<le> 3. r_entries (enforce_budget demo_lru)
      = filter (\<lambda>(_, s). pins_of demo_lru s \<noteq> 0) (take n (r_entries demo_lru)) @ drop n (r_entries demo_lru)"
    by auto
qed

subsection \<open>Pins\<close>

text \<open>C33: an entry that a committed grant restores in this step survives every capture, with its
  checkpoint unchanged, also one under its own key and also over the byte budget.\<close>

theorem pinned_survives_capture:
  assumes "registry_ok r" and "(k, s) \<in> set (r_entries r)" and "pins_of r s \<noteq> 0"
  shows "(k, s) \<in> set (r_entries (snd (registry_capture r i pos rec carry nb lp)))
    \<and> r_heap (snd (registry_capture r i pos rec carry nb lp)) s = r_heap r s"
proof -
  have st: "store_ok r" using assms(1) by (simp add: registry_ok_def)
  have d: "dict_ok (r_entries r)" using st by (simp add: store_ok_def)
  have look: "map_of (r_entries r) k = Some s" using assms(2) d by (simp add: dict_memD)
  have put: "(k, s) \<in> set (r_entries (snd (registry_put r k' pos ts rec carry n)))
      \<and> r_heap (snd (registry_put r k' pos ts rec carry n)) s = r_heap r s" for k' ts n
  proof (cases "0 < pos \<and> pos mod CHUNK = 0 \<and> int (length ts) = pos \<and> r_disabled r = None
      \<and> n \<le> r_budget_bytes r \<and> (\<forall>s. registry_get r k' = Some s \<longrightarrow> pins_of r s = 0)")
    case False
    from registry_put_not_stored [OF this, of rec carry] show ?thesis
      using assms(2) move_to_end_set [OF d, of k'] by (elim insertE) simp_all
  next
    case True
    define c where "c = \<lparr>c_key = k', c_pos = pos, c_token_ids = ts, c_rec = rec, c_carry = carry,
      c_nbytes = n, c_pins = 0, c_serial = r_next_serial r\<rparr>"
    define r2 where "r2 = bump St_captures 1 (insert_checkpoint c (vacated r k'))"
    have eq: "snd (registry_put r k' pos ts rec carry n) = enforce_budget r2"
      unfolding r2_def c_def by (subst registry_put_stored) (use True in auto)
    have "k' \<noteq> k" using True look assms(3) by (auto simp: registry_get_def)
    have fresh: "r_heap r (r_next_serial r) = None"
      using st by (cases "r_heap r (r_next_serial r)") (auto simp: store_ok_def heap_ok_def)
    with entry_heap [OF st assms(2)] have ne: "s \<noteq> r_next_serial r" by auto
    have "registry_ok (insert_checkpoint c (vacated r k'))"
      by (rule insert_fresh_ok [where k = k', OF vacated_ok [OF assms(1)]])
        (use True in \<open>auto simp: c_def keys_dict_del checkpoint_ok_def\<close>)
    then have st2: "store_ok r2" by (simp add: r2_def registry_ok_def)
    have e2: "(k, s) \<in> set (r_entries r2)"
      using assms(2) \<open>k' \<noteq> k\<close> d
      by (simp add: r2_def insert_checkpoint_def c_def set_dict_set set_dict_del)
    have h2: "r_heap r2 s = r_heap r s" using ne by (simp add: r2_def insert_checkpoint_def)
    then have p2: "pins_of r2 s \<noteq> 0" using assms(3) by (simp add: pins_of_def)
    from enforce_budget_survivors [OF st2] obtain m where
      "r_entries (enforce_budget r2) = survivors r2 m" by blast
    moreover have "(k, s) \<in> set (take m (r_entries r2)) \<or> (k, s) \<in> set (drop m (r_entries r2))"
      using e2 by (metis Un_iff append_take_drop_id set_append)
    ultimately have "(k, s) \<in> set (r_entries (enforce_budget r2))"
      using p2 by (auto simp: survivors_def)
    with h2 show ?thesis by (simp add: eq)
  qed
  have "(k, s) \<in> set (r_entries (snd (capture_body r i pos rec carry nb lp)))
      \<and> r_heap (snd (capture_body r i pos rec carry nb lp)) s = r_heap r s"
    using assms(2) put by (simp add: capture_body_def split: option.splits)
  then show ?thesis by (auto simp: registry_capture_def split: prod.splits sum.splits)
qed

text \<open>The registry of the run above, in which the second request holds a pin.\<close>

lemma demo_final_ok: "world_ok (\<lambda>t. t) (\<lambda>t. t) demo_final"
  by (rule reuse.inv_reachable [OF demo_reachable])

lemma demo_final_entry:
  "r_entries (gr_registry (w_graft demo_final)) = [(5, 1)]"
  "pins_of (gr_registry (w_graft demo_final)) 1 = 1"
  unfolding demo_final_def demo_stored_eq by (simp_all add: demo_defs pins_of_def)

theorem pinned_survives_capture_witness:
  "(5, 1) \<in> set (r_entries (snd (registry_capture (gr_registry (w_graft demo_final)) ''b'' 2048
     (Some []) (Some []) None (Some 2048))))"
proof -
  have "registry_ok (gr_registry (w_graft demo_final))"
    using demo_final_ok by (simp add: world_ok_def reuse_ok_def)
  from pinned_survives_capture [OF this, of 5 1 "''b''" 2048 "Some []" "Some []" None "Some 2048"]
    demo_final_entry
  show ?thesis by simp
qed

text \<open>C32: the registry's books always balance. In every reachable state the LRU's keys are distinct,
  its byte count is the sum of its checkpoints' sizes, and the pins of each of them are the number of
  committed grants that restore it; and the next step begins within the budget, with nothing pinned.\<close>

theorem registry_accounting:
  assumes "reachable world_init (world_step f_rec f_carry) w" and "r = gr_registry (w_graft w)"
  shows "distinct (map fst (r_entries r))
    \<and> r_bytes r = sum_list (map (\<lambda>(_, s). nbytes_of r s) (r_entries r))
    \<and> (\<forall>(_, s) \<in> set (r_entries r).
         pins_of r s = length (filter (\<lambda>(_, g). g_checkpoint g = Some s) (r_committed r)))
    \<and> (0 \<le> r_budget_bytes r \<longrightarrow> r_bytes (begin_step r) \<le> r_budget_bytes r)
    \<and> registry_pins (begin_step r) = 0"
proof -
  have ok: "registry_ok r"
    using reuse.inv_reachable [OF assms(1)] assms(2) by (simp add: world_ok_def reuse_ok_def)
  then have bok: "registry_ok (begin_step r)" by (rule begin_step_ok)
  have zero: "pins_of (begin_step r) s = 0" if "(k, s) \<in> set (r_entries (begin_step r))" for k s
  proof -
    have "pins_of (begin_step r) s = refs (begin_step r) s"
      using bok that by (simp add: registry_ok_def ledger_ok_def)
    then show ?thesis by (simp add: refs_def) (simp add: begin_step_def)
  qed
  define r1 where "r1 = (fold unpin (map snd (r_committed r)) r)
    \<lparr>r_committed := [], r_staged := [], r_same_step_blocks := {}\<rparr>"
  have b: "begin_step r = enforce_budget r1" by (simp add: begin_step_def r1_def)
  have st1: "store_ok r1"
    using ok store_ok_cong [of r1 "fold unpin (map snd (r_committed r)) r"]
    by (simp add: r1_def registry_ok_def)
  have bud: "r_budget_bytes r1 = r_budget_bytes r" by (simp add: r1_def)
  have pins1: "pins_of r1 = pins_of (begin_step r)" by (simp add: b pins_of_def fun_eq_iff)
  have "r_bytes (begin_step r) \<le> r_budget_bytes r" if "0 \<le> r_budget_bytes r"
  proof (rule ccontr)
    assume over: "\<not> r_bytes (begin_step r) \<le> r_budget_bytes r"
    from enforce_budget_survivors [OF st1] obtain n where n:
      "r_entries (enforce_budget r1) = survivors r1 n"
      "n = length (r_entries r1) \<or> r_bytes (enforce_budget r1) \<le> r_budget_bytes r1" by blast
    with over b bud have all: "r_entries (begin_step r) = filter (\<lambda>(_, s). pins_of r1 s \<noteq> 0) (r_entries r1)"
      by (simp add: survivors_def)
    have "r_entries (begin_step r) = []"
    proof (rule ccontr)
      assume "r_entries (begin_step r) \<noteq> []"
      then obtain k s where e: "(k, s) \<in> set (r_entries (begin_step r))"
        by (metis last_in_set prod.collapse)
      then have "pins_of r1 s \<noteq> 0" unfolding all by auto
      with zero [OF e] pins1 show False by simp
    qed
    with bok have "r_bytes (begin_step r) = 0" by (simp add: registry_ok_def store_ok_def)
    with over that show False by simp
  qed
  moreover have "registry_pins (begin_step r) = 0"
    using zero by (auto simp: registry_pins_def)
  ultimately show ?thesis
    using ok by (auto simp: registry_ok_def store_ok_def ledger_ok_def dict_ok_def refs_def)
qed

theorem registry_accounting_witness:
  "pins_of (gr_registry (w_graft demo_final)) 1 = 1
   \<and> length (filter (\<lambda>(_, g). g_checkpoint g = Some 1) (r_committed (gr_registry (w_graft demo_final)))) = 1"
  using registry_accounting [OF demo_reachable refl] demo_final_entry by simp

subsection \<open>The kill switch\<close>

text \<open>A registry that is off and whose ledger restores nothing.\<close>

definition dead :: "'s world \<Rightarrow> bool" where
  "dead w \<longleftrightarrow> r_disabled (gr_registry (w_graft w)) \<noteq> None
     \<and> (\<forall>i g. (i, g) \<in> set (r_staged (gr_registry (w_graft w)))
          \<or> (i, g) \<in> set (r_committed (gr_registry (w_graft w))) \<longrightarrow> g_checkpoint g = None)"

lemma commit_fold_dead:
  assumes "\<forall>i g. (i, g) \<in> set ds \<longrightarrow> g_checkpoint g = None"
    and "\<And>i g. (i, g) \<in> set (r_committed r) \<Longrightarrow> g_checkpoint g = None" and "dict_ok (r_committed r)"
    and "fold (commit_grant admitted toks) ds (gs, r) = (gs', r')"
  shows "r_disabled r' = r_disabled r \<and> (\<forall>i g. (i, g) \<in> set (r_committed r') \<longrightarrow> g_checkpoint g = None)"
  using assms
proof (induction ds arbitrary: gs r)
  case Nil
  then show ?case by simp
next
  case (Cons d ds)
  obtain i g where d: "d = (i, g)" by (cases d)
  show ?case
  proof (cases "admitted i = Some (g_q g)")
    case True
    from commit_grant_admitted [of admitted i g, OF True, of toks gs r] obtain f where
      c: "commit_grant admitted toks (i, g) (gs, r) = (gs @ [committed_grant toks g],
       (pinned_for g r)\<lparr>r_stats := f, r_committed := dict_set i (committed_grant toks g) (r_committed r)\<rparr>)"
      (is "_ = (_, ?r)") by blast
    have none: "g_checkpoint g = None" using Cons.prems(1) unfolding d by (meson list.set_intros(1))
    have com: "set (r_committed ?r) = insert (i, committed_grant toks g) {p \<in> set (r_committed r). fst p \<noteq> i}"
      using Cons.prems(3) by (simp add: set_dict_set)
    have "g_checkpoint h = None" if "(j, h) \<in> set (r_committed ?r)" for j h
    proof -
      from that consider "h = committed_grant toks g" | "(j, h) \<in> set (r_committed r)"
        unfolding com by blast
      then show ?thesis using none Cons.prems(2) by cases simp_all
    qed
    moreover have "dict_ok (r_committed ?r)" using Cons.prems(3) by simp
    moreover have "\<forall>j h. (j, h) \<in> set ds \<longrightarrow> g_checkpoint h = None"
      using Cons.prems(1) by (meson list.set_intros(2))
    ultimately have "r_disabled r' = r_disabled ?r \<and> (\<forall>i g. (i, g) \<in> set (r_committed r') \<longrightarrow> g_checkpoint g = None)"
      using Cons.prems(4) c d by (intro Cons.IH [of ?r "gs @ [committed_grant toks g]"]) auto
    then show ?thesis by simp
  next
    case False
    from commit_grant_dropped [of admitted i g, OF False, of toks gs r] obtain f where
      "commit_grant admitted toks (i, g) (gs, r) = (gs, r\<lparr>r_stats := f\<rparr>)" by blast
    moreover have "\<forall>j h. (j, h) \<in> set ds \<longrightarrow> g_checkpoint h = None"
      using Cons.prems(1) by (meson list.set_intros(2))
    ultimately have "r_disabled r' = r_disabled (r\<lparr>r_stats := f\<rparr>)
        \<and> (\<forall>i g. (i, g) \<in> set (r_committed r') \<longrightarrow> g_checkpoint g = None)"
      using Cons.prems(2-4) d by (intro Cons.IH [of "r\<lparr>r_stats := f\<rparr>" gs]) simp_all
    then show ?thesis by simp
  qed
qed

lemma evict_fold_frame:
  "r_staged (fold (\<lambda>key r. if \<not> cached key then snd (registry_drop r (hash_of key) why) else r) keys r) = r_staged r
   \<and> r_committed (fold (\<lambda>key r. if \<not> cached key then snd (registry_drop r (hash_of key) why) else r) keys r) = r_committed r
   \<and> r_disabled (fold (\<lambda>key r. if \<not> cached key then snd (registry_drop r (hash_of key) why) else r) keys r) = r_disabled r"
  by (induction keys arbitrary: r) auto

lemma graft_evict_frame [simp]:
  "r_staged (gr_registry (snd (graft_evict hash_of cached own extra evicted gr))) = r_staged (gr_registry gr)"
  "r_committed (gr_registry (snd (graft_evict hash_of cached own extra evicted gr))) = r_committed (gr_registry gr)"
  "r_disabled (gr_registry (snd (graft_evict hash_of cached own extra evicted gr))) = r_disabled (gr_registry gr)"
  using evict_fold_frame [of cached hash_of "''coupled''" "(case own of None \<Rightarrow> [] | Some k \<Rightarrow> [k]) @ extra" "gr_registry gr"]
  by (simp_all add: graft_evict_def Let_def on_registry_def del: fold_append)

lemma trim_deny_frame [simp]:
  "r_staged (gr_registry (trim_deny q h st gr)) = dict_del (v_request_id q) (r_staged (gr_registry gr))"
  "r_committed (gr_registry (trim_deny q h st gr)) = r_committed (gr_registry gr)"
  "r_disabled (gr_registry (trim_deny q h st gr)) = r_disabled (gr_registry gr)"
  by (simp_all add: trim_deny_def on_registry_def Let_def unstage_def)

lemma trim_dead:
  assumes "r_disabled (gr_registry gr) \<noteq> None" and "gr' = snd (graft_trim now ex q blocks h gr)"
  shows "r_staged (gr_registry gr') = dict_del (v_request_id q) (r_staged (gr_registry gr))"
    and "r_committed (gr_registry gr') = r_committed (gr_registry gr)"
    and "r_disabled (gr_registry gr') \<noteq> None"
proof -
  let ?gr = "on_registry (bump St_attempts 1) gr"
  have g: "r_staged (gr_registry ?gr) = r_staged (gr_registry gr)"
    "r_committed (gr_registry ?gr) = r_committed (gr_registry gr)" "r_disabled (gr_registry ?gr) \<noteq> None"
    using assms(1) by (simp_all add: on_registry_def)
  obtain fresh k where p: "kill_switch_poll (gr_kill_switch ?gr) now ex = (fresh, k)" by fastforce
  obtain gr1 where e: "kill_switch_engaged now ex ?gr = (True, gr1)"
    and r1: "r_staged (gr_registry gr1) = r_staged (gr_registry gr)"
      "r_committed (gr_registry gr1) = r_committed (gr_registry gr)" "r_disabled (gr_registry gr1) \<noteq> None"
    using g p by (cases fresh) (auto simp: kill_switch_engaged_def on_registry_def Let_def graft_killed_def
        registry_disable_def registry_clear_def)
  show "r_staged (gr_registry gr') = dict_del (v_request_id q) (r_staged (gr_registry gr))"
    "r_committed (gr_registry gr') = r_committed (gr_registry gr)" "r_disabled (gr_registry gr') \<noteq> None"
    using assms(2) e r1 g by (simp_all add: graft_trim_def Let_def split: option.splits)
qed

lemma capture_staged [simp]: "r_staged (snd (registry_capture r i pos rec carry nb lp)) = r_staged r"
proof -
  have "r_staged (snd (capture_body r i pos rec carry nb lp)) = r_staged r"
    by (simp add: capture_body_def split: option.splits)
  then show ?thesis by (auto simp: registry_capture_def split: prod.splits sum.splits)
qed

lemma dead_step:
  assumes "world_step f_rec f_carry w w'" and "world_ok f_rec f_carry w" and "dead w"
  shows "dead w'"
  using assms
proof (induction rule: world_step.induct)
  case (w_begin w)
  then show ?case by (simp add: dead_def on_graft_def on_registry_def) (simp add: begin_step_def)
next
  case (w_trim w q h now ex blocks)
  from w_trim.prems(2) have "r_disabled (gr_registry (w_graft w)) \<noteq> None" by (simp add: dead_def)
  from trim_dead [OF this refl, of now ex q blocks h] w_trim.prems(2) show ?case
    by (auto simp: dead_def on_graft_def set_dict_del)
next
  case (w_cap w q computed publish)
  then show ?case
    by (auto simp: dead_def on_graft_def graft_cap_def Let_def on_registry_def split: prod.splits)
next
  case (w_commit w out)
  let ?r = "gr_registry (w_graft w)"
  obtain gs r' where f: "fold (commit_grant (admitted_of out) (w_tokens w)) (r_staged ?r) ([], ?r) = (gs, r')"
    by fastforce
  have "r_disabled r' = r_disabled ?r \<and> (\<forall>i g. (i, g) \<in> set (r_committed r') \<longrightarrow> g_checkpoint g = None)"
    by (rule commit_fold_dead [OF _ _ _ f])
      (use w_commit in \<open>auto simp: dead_def world_ok_def reuse_ok_def registry_ok_def ledger_ok_def\<close>)
  with f w_commit.prems(2) show ?case
    by (auto simp: dead_def on_graft_def on_registry_def graft_commit_def registry_commit_def)
next
  case (w_evict w hash_of cached own extra evicted)
  then show ?case by (simp add: dead_def on_graft_def)
next
  case (w_reset w succeeded)
  then show ?case by (auto simp: dead_def on_graft_def on_registry_def graft_reset_def registry_clear_def)
next
  case (w_free w i ts)
  then show ?case
    by (auto simp: dead_def on_graft_def on_registry_def graft_free_def forget_request_def Let_def
        set_dict_del split: option.splits)
next
  case (w_capture w i rec carry lp pos nb)
  then show ?case by (auto simp: dead_def on_graft_def on_registry_def)
next
  case (w_restore w)
  then show ?case by (auto simp: dead_def on_graft_def on_registry_def note_restore_def)
next
  case (w_mid_loop w)
  then show ?case by (auto simp: dead_def on_graft_def on_registry_def enable_mid_loop_capture_def)
next
  case (w_grow w i ts)
  then show ?case by (auto simp: dead_def)
qed

interpretation kill: latched_system world_init "world_step f_rec f_carry" "world_ok f_rec f_carry" dead
  for f_rec :: "int list \<Rightarrow> 's" and f_carry :: "int list \<Rightarrow> 's"
  by unfold_locales (rule dead_step)

text \<open>C29: the kill switch is final. Once the registry is disabled, from the next step on and for every
  continuation, no admission restores a state, no checkpoint exists, and it stays disabled.\<close>

theorem kill_switch_is_final:
  assumes "reachable world_init (world_step f_rec f_carry) w"
    and "r_disabled (gr_registry (w_graft w)) \<noteq> None" and "\<not> w_in_step w"
    and "steps (world_step f_rec f_carry)
      (on_graft (on_registry begin_step) w\<lparr>w_in_step := True\<rparr>) w'"
  shows "r_disabled (gr_registry (w_graft w')) \<noteq> None \<and> r_entries (gr_registry (w_graft w')) = []
    \<and> (\<forall>i g. grant_for (gr_registry (w_graft w')) i = Some g \<longrightarrow> g_q g = 0)"
proof -
  let ?b = "on_graft (on_registry begin_step) w\<lparr>w_in_step := True\<rparr>"
  have rb: "reachable world_init (world_step f_rec f_carry) ?b"
    using assms(1) by (rule reachable.step) (rule w_begin [OF assms(3)])
  have "dead ?b"
    using assms(2) by (simp add: dead_def on_graft_def on_registry_def) (simp add: begin_step_def)
  with kill.latch_reachable [OF rb assms(4)] have d: "dead w'" by blast
  have ok: "world_ok f_rec f_carry w'"
    using reuse.inv_reachable [OF reachable_steps [OF rb assms(4)]] .
  have "g_q g = 0" if "grant_for (gr_registry (w_graft w')) i = Some g" for i g
  proof -
    have g: "(i, g) \<in> set (r_committed (gr_registry (w_graft w')))"
      using that by (simp add: grant_for_def map_of_SomeD)
    with ok have "grant_ok (w_tokens w') (gr_registry (w_graft w')) i g"
      by (simp add: world_ok_def reuse_ok_def committed_ok_def)
    moreover have "g_checkpoint g = None" using d g unfolding dead_def by blast
    ultimately show ?thesis by (simp add: grant_ok_def)
  qed
  moreover have "r_entries (gr_registry (w_graft w')) = []"
    using d ok by (simp add: dead_def world_ok_def reuse_ok_def registry_ok_def store_ok_def)
  ultimately show ?thesis using d by (simp add: dead_def)
qed

text \<open>A world whose flag file appears while a request is being admitted.\<close>

definition demo_flagged :: "int list world" where
  "demo_flagged = demo0\<lparr>w_graft := (w_graft demo0)\<lparr>gr_kill_switch :=
     \<lparr>k_path = Some ''f'', k_poll_s = 1, k_engaged = False, k_last_poll = None\<rparr>\<rparr>\<rparr>"

definition demo_killed :: "int list world" where
  "demo_killed = demo_commit ''a'' 0 (on_graft (\<lambda>gr. snd (graft_trim 0 (Inr True) (demo_request ''a'')
     [] 0 gr)) (demo_begin demo_flagged))"

lemma demo_killed_disabled: "r_disabled (gr_registry (w_graft demo_killed)) \<noteq> None"
  by (simp add: demo_killed_def demo_flagged_def demo_defs registry_disable_def registry_clear_def)

lemma demo_killed_reachable: "demo_reach demo_killed"
proof -
  have "demo_reach demo_flagged"
    by (rule reachable.initial) (auto simp: world_init_def demo_flagged_def demo0_def)
  then have b: "demo_reach (demo_begin demo_flagged)"
    by (rule demo_reach) (simp add: demo_flagged_def)
  have "demo_reach (on_graft (\<lambda>gr. snd (graft_trim 0 (Inr True) (demo_request ''a'') [] 0 gr)) (demo_begin demo_flagged))"
    by (rule reachable.step [OF b w_trim]) (simp_all add: demo_request_def demo_flagged_def)
  then show ?thesis
    unfolding demo_killed_def by (rule demo_reach) (simp add: on_graft_def)
qed

theorem kill_switch_is_final_witness:
  "r_entries (gr_registry (w_graft (demo_begin demo_killed))) = []
   \<and> r_disabled (gr_registry (w_graft (demo_begin demo_killed))) \<noteq> None"
proof -
  have "\<not> w_in_step demo_killed" by (simp add: demo_killed_def)
  from kill_switch_is_final [OF demo_killed_reachable demo_killed_disabled this steps.none]
  show ?thesis by (simp add: demo_begin_def)
qed

subsection \<open>The plan and the trim\<close>

lemma floor_chunk_dvd: "CHUNK dvd floor_chunk n"
  by (simp add: floor_chunk_def)

text \<open>C35: every capture the plan asks for can be hit later and is taken where it is exact. It lies
  above the restored prefix, on a chunk boundary, no higher than the model's loop drains (exactly there
  unless mid-loop captures are declared) and no higher than what the cap publishes for the request; its
  key is the hash of the last block below it, which the request has.\<close>

theorem planned_captures_are_published:
  assumes "graft_plan gr request h q = (planned, unplanned, drain)" and "0 \<le> q"
    and "request_excluded request = None" and "\<not> graft_killed gr"
    and "floor_chunk (v_num_prompt_tokens request) \<le> computed" and "(pos, key) \<in> set planned"
  shows "q < pos \<and> CHUNK dvd pos \<and> pos \<le> drain \<and> drain = floor_chunk (v_num_tokens request)
    \<and> (\<not> r_mid_loop_capture (gr_registry gr) \<longrightarrow> pos = drain)
    \<and> pos \<le> fst (graft_cap request computed publish gr)
    \<and> nat (pos div BLOCK - 1) < length (v_block_hashes request)
    \<and> key = v_block_hashes request ! nat (pos div BLOCK - 1)"
proof -
  let ?pb = "floor_chunk (v_num_prompt_tokens request)"
  let ?cs = "plan_candidates (gr_sticky gr \<and> gr_drop_last gr) request h q"
  have d: "drain = floor_chunk (v_num_tokens request)"
    and scan: "plan_scan ?pb drain (v_block_hashes request) (r_mid_loop_capture (gr_registry gr)) ?cs
      = (planned, unplanned)"
    using assms(1) by (auto simp: graft_plan_def Let_def split: prod.splits)
  from plan_scan_spec [OF scan] assms(6)
  have p: "pos \<in> set ?cs" "pos \<le> ?pb" "pos \<le> drain" "pos div BLOCK \<le> int (length (v_block_hashes request))"
    "key = v_block_hashes request ! nat (pos div BLOCK - 1)"
    "pos = drain \<or> r_mid_loop_capture (gr_registry gr)" by auto
  from p(1) have "q < pos" "CHUNK dvd pos"
    by (auto simp: plan_candidates_def Let_def floor_chunk_dvd CHUNK_def split: if_splits)
      (simp_all add: floor_chunk_def CHUNK_def)
  moreover from this assms(2) have "0 < pos div BLOCK" by (auto simp: CHUNK_def BLOCK_def elim!: dvdE)
  moreover have "fst (graft_cap request computed publish gr) = ?pb"
    using assms(3-5) by (simp add: graft_cap_def Let_def split: prod.splits)
  ultimately show ?thesis using p d by auto
qed

theorem planned_captures_are_published_witness:
  "2048 \<le> fst (graft_cap (demo_request ''a'') 2112 (\<lambda>_. (0, 0, [])) (w_graft demo0))"
proof -
  have "graft_plan (w_graft demo0) (demo_request ''a'') 0 0 = ([(2048, 5)], [], 2048)"
    by (simp add: demo_defs)
  from planned_captures_are_published [OF this, of 2112 2048 5 "\<lambda>_. (0, 0, [])"] show ?thesis
    by (simp add: demo_defs)
qed

text \<open>The search misses nothing: any boundary it could look at, below the first same-step block, whose
  key names a checkpoint of the request's own tokens, is at most the one it returns, as long as every
  remembered mismatch is one.\<close>

definition memo_true :: "vllm_request \<Rightarrow> 's registry \<Rightarrow> bool" where
  "memo_true q r \<longleftrightarrow> (\<forall>m s. r_token_checks r (v_request_id q) m = Some (s, False)
     \<longrightarrow> \<not> matches_at r (v_all_token_ids q) s m)"

lemma tokens_match_False:
  assumes "tokens_match r (v_request_id q) n t (v_all_token_ids q) = (False, r1)" and "memo_true q r" and "registry_ok r"
  shows "\<not> matches_at r (v_all_token_ids q) t n" and "memo_true q r1"
proof -
  have run: "\<not> matches_at r (v_all_token_ids q) t n"
    if "\<not> (\<exists>c. r_heap r t = Some c \<and> c_pos c = n \<and> checkpoint_matches c (py_prefix n (v_all_token_ids q)))"
  proof
    assume "matches_at r (v_all_token_ids q) t n"
    then obtain c where c: "contents r t = Some c" "c_pos c = n" "c_token_ids c = py_prefix n (v_all_token_ids q)"
      by (auto simp: matches_at_def)
    then have "int (length (c_token_ids c)) = n" using contents_ok [OF assms(3), of t c] by simp
    then show False using that c by (auto simp: contents_def checkpoint_matches_def)
  qed
  show no: "\<not> matches_at r (v_all_token_ids q) t n"
  proof (cases "r_token_checks r (v_request_id q) n = Some (t, False)")
    case True
    then show ?thesis using assms(2) by (simp add: memo_true_def)
  next
    case False
    then show ?thesis using assms(1)
      by (intro run) (auto simp: tokens_match_def token_check_run_def Let_def split: option.splits if_splits)
  qed
  have "r1 = snd (tokens_match r (v_request_id q) n t (v_all_token_ids q))" using assms(1) by simp
  then have con: "contents r1 = contents r" by simp
  have checks: "r_token_checks r1 = r_token_checks r \<or> r_token_checks r1 =
      (r_token_checks r)(v_request_id q := (r_token_checks r (v_request_id q))(n := Some (t, False)))"
    using assms(1) by (auto simp: tokens_match_def token_check_run_def Let_def split: option.splits if_splits)
  show "memo_true q r1"
    using checks assms(2) no by (auto simp: memo_true_def matches_at_def con split: if_splits)
qed

lemma trim_scan_maximal:
  assumes "trim_scan q fs k r = (Inr (found, rejected), r')"
    and "reuse_ok f_rec f_carry toks r" and "toks (v_request_id q) = v_all_token_ids q" and "memo_true q r"
    and "0 < n" and "n \<le> int k * CHUNK" and "CHUNK dvd n" and "n div BLOCK \<le> fs"
    and "registry_get r (v_block_hashes q ! nat (n div BLOCK - 1)) = Some s"
    and "matches_at r (v_all_token_ids q) s n"
  shows "\<exists>n' key s'. found = Some (n', key, s') \<and> n \<le> n'"
  using assms
proof (induction q fs k r arbitrary: found rejected r' rule: trim_scan.induct)
  case (1 q fs r)
  then show ?case by simp
next
  case (2 q fs k r)
  define top where "top = int (Suc k) * CHUNK"
  define count where "count = top div BLOCK"
  have below: "n \<le> int k * CHUNK" if "n \<noteq> top"
    using that 2(9,10) by (auto simp: top_def CHUNK_def elim!: dvdE)
  show ?case
  proof (cases "count > fs")
    case True
    then have "n \<noteq> top" using 2(11) by (auto simp: count_def)
    obtain res1 r1 where rec: "trim_scan q fs k r = (res1, r1)" by fastforce
    with 2(4) True obtain rej1 where "res1 = Inr (found, rej1)"
      by (auto simp: top_def count_def Let_def split: sum.splits)
    with rec 2(1) [OF top_def count_def True _ 2(5,6,7,8) below [OF \<open>n \<noteq> top\<close>] 2(10-13)]
    show ?thesis by blast
  next
    case low: False
    from 2(4) low obtain key where key: "py_index (v_block_hashes q) (nat (count - 1)) = Inr key"
      by (cases "py_index (v_block_hashes q) (nat (count - 1))") (auto simp: top_def count_def Let_def)
    then have hash: "key = v_block_hashes q ! nat (count - 1)"
      by (simp add: py_index_def split: if_splits)
    show ?thesis
    proof (cases "registry_get r key")
      case None
      then have "n \<noteq> top" using 2(12) hash by (auto simp: count_def)
      from 2(4) low key None have "trim_scan q fs k r = (Inr (found, rejected), r')"
        by (simp add: top_def count_def Let_def)
      from 2(2) [OF top_def count_def low key None this 2(5,6,7,8) below [OF \<open>n \<noteq> top\<close>] 2(10-13)]
      show ?thesis .
    next
      case (Some t)
      obtain v r1 where m: "tokens_match r (v_request_id q) top t (v_all_token_ids q) = (v, r1)"
        by fastforce
      show ?thesis
      proof (cases v)
        case True
        with 2(4) low key Some m have "found = Some (top, key, t)" by (simp add: top_def count_def Let_def)
        with 2(9) show ?thesis by (auto simp: top_def)
      next
        case False
        have "tokens_match r (v_request_id q) top t (v_all_token_ids q) = (False, r1)" using m False by simp
        note no = tokens_match_False [OF this 2(7)]
        have reg: "registry_ok r" using 2(5) by (simp add: reuse_ok_def)
        have "n \<noteq> top" using no(1) [OF reg] 2(12,13) Some hash by (auto simp: count_def)
        have r1: "r1 = snd (tokens_match r (v_request_id q) top t (v_all_token_ids q))" using m by simp
        have same: "same_ledger r r1" unfolding same_ledger_def r1 by simp
        have ok1: "reuse_ok f_rec f_carry toks r1"
          using reuse_ok_tokens_match(1) [OF 2(5), of "v_request_id q" top t v r1] m 2(6) by simp
        have get1: "registry_get r1 (v_block_hashes q ! nat (n div BLOCK - 1)) = Some s"
          "matches_at r1 (v_all_token_ids q) s n"
          using 2(12,13) same by (simp_all add: same_ledger_def registry_get_def matches_at_def)
        from 2(4) low key Some m False have "trim_scan q fs k r1 = (Inr (found, rejected), r')"
          by (simp add: top_def count_def Let_def)
        from 2(3) [OF top_def count_def low key Some m [symmetric] _ this ok1 2(6) no(2) [OF reg] 2(8)
            below [OF \<open>n \<noteq> top\<close>] 2(10,11) get1] False
        show ?thesis by simp
      qed
    qed
  qed
qed

text \<open>The key of what the search finds is the request's own hash at that boundary.\<close>

lemma trim_scan_key:
  "trim_scan q fs k r = (Inr (Some (n, key, s), rejected), r') \<Longrightarrow> key = v_block_hashes q ! nat (n div BLOCK - 1)"
  by (induction q fs k r arbitrary: rejected r' rule: trim_scan.induct)
    (auto simp: Let_def py_index_def split: sum.splits prod.splits option.splits if_splits bool.splits)

text \<open>The blocks before the first same-step one are those that are free of them.\<close>

lemma first_same_step_bounds:
  "first_same_step ss ids n i = Inr f \<Longrightarrow> i \<le> f \<and> f \<le> i + n
    \<and> (\<forall>j. i \<le> j \<and> j < f \<longrightarrow> j < length ids \<and> ids ! j \<notin> ss) \<and> (f < i + n \<longrightarrow> f < length ids \<and> ids ! f \<in> ss)"
proof (induction ss ids n i rule: first_same_step.induct)
  case (2 ss ids n i)
  then have i: "i < length ids" by (auto simp: rbind_Inr_iff py_index_def split: if_splits)
  show ?case
  proof (cases "ids ! i \<in> ss")
    case True
    then show ?thesis using 2(2) i by (auto simp: py_index_def)
  next
    case False
    then have r: "first_same_step ss ids n (Suc i) = Inr f" using 2(2) i by (simp add: py_index_def)
    note ih = 2(1) [OF False r]
    have "j < length ids \<and> ids ! j \<notin> ss" if "i \<le> j" "j < f" for j
      using ih that i False by (cases "j = i") auto
    then show ?thesis using ih by auto
  qed
qed auto

lemma first_same_step_free:
  assumes "first_same_step ss ids n 0 = Inr f" and "c \<le> n"
  shows "set (take c ids) \<inter> ss = {} \<longleftrightarrow> c \<le> f"
proof -
  note b = first_same_step_bounds [OF assms(1)]
  show ?thesis
  proof
    assume free: "set (take c ids) \<inter> ss = {}"
    show "c \<le> f"
    proof (rule ccontr)
      assume "\<not> c \<le> f"
      then have "f < length ids" "ids ! f \<in> ss" "f < c" using b assms(2) by auto
      then have "ids ! f \<in> set (take c ids)" by (force simp: in_set_conv_nth)
      then show False using free \<open>ids ! f \<in> ss\<close> by blast
    qed
  next
    assume "c \<le> f"
    then show "set (take c ids) \<inter> ss = {}" using b by (fastforce simp: in_set_conv_nth)
  qed
qed

text \<open>What the trim may grant: a chunk boundary within vLLM's hit and, for sticky sessions, within their ceiling, with no
  block of this very step before it, whose key names a checkpoint of exactly the request's own tokens.\<close>

definition reusable_at :: "'s graft \<Rightarrow> vllm_request \<Rightarrow> nat list \<Rightarrow> int \<Rightarrow> int \<Rightarrow> bool" where
  "reusable_at gr q blocks h m \<longleftrightarrow> 0 < m \<and> CHUNK dvd m \<and> m \<le> h \<and> m \<le> trim_limit gr q h * CHUNK
     \<and> set (take (nat (m div BLOCK)) blocks) \<inter> r_same_step_blocks (gr_registry gr) = {}
     \<and> (\<exists>s. registry_get (gr_registry gr) (v_block_hashes q ! nat (m div BLOCK - 1)) = Some s
          \<and> matches_at (gr_registry gr) (v_all_token_ids q) s m)"

lemma same_step_limit:
  assumes "(if ss = {} then Inr (h div BLOCK)
      else rbind (first_same_step ss (if h \<noteq> 0 then blocks else []) (nat (h div BLOCK)) 0) (\<lambda>n. Inr (int n))) = Inr fs"
    and "0 < m" and "m \<le> h"
  shows "set (take (nat (m div BLOCK)) blocks) \<inter> ss = {} \<longleftrightarrow> m div BLOCK \<le> fs"
proof -
  have m: "h \<noteq> 0" "0 \<le> m div BLOCK" "m div BLOCK \<le> h div BLOCK" using assms(2,3) by (simp_all add: BLOCK_def zdiv_mono1)
  show ?thesis
  proof (cases "ss = {}")
    case True
    then show ?thesis using assms(1) m(3) by simp
  next
    case False
    then obtain f where f: "first_same_step ss blocks (nat (h div BLOCK)) 0 = Inr f" "fs = int f"
      using assms(1) m(1) by (auto simp: rbind_Inr_iff)
    show ?thesis using first_same_step_free [OF f(1), of "nat (m div BLOCK)"] m f(2) by simp linarith
  qed
qed

lemma trim_limit_within:
  assumes "0 \<le> h" shows "int (nat (trim_limit gr q h)) * CHUNK \<le> h"
proof -
  have "trim_limit gr q h \<le> h div CHUNK" "0 \<le> h div CHUNK" using assms by (simp_all add: trim_limit_def) (simp add: CHUNK_def)
  then have "int (nat (trim_limit gr q h)) * CHUNK \<le> h div CHUNK * CHUNK" by (simp add: CHUNK_def)
  also have "\<dots> \<le> h" by (simp add: CHUNK_def)
  finally show ?thesis .
qed

text \<open>C30: the trim grants the longest exact prefix there is. When it answers, for a reachable registry and a request
  whose remembered mismatches are still mismatches (a request's prefix never changes), the answer n is
  itself such a boundary - within the hit, under the sticky ceiling, free of the step's own blocks, its
  key naming a stored checkpoint of exactly the request's first n tokens - or nothing when there is
  none, and no such boundary lies above it; the blocks handed back are the hit's first ones up to n.\<close>

theorem trim_grants_longest_prefix:
  assumes "graft_trim_hit q blocks h gr = (Inr (ids, n), gr')"
    and "reuse_ok f_rec f_carry toks (gr_registry gr)"
    and "toks (v_request_id q) = v_all_token_ids q" and "0 \<le> h" and "memo_true q (gr_registry gr)"
  shows "(if n = 0 then \<forall>m. \<not> reusable_at gr q blocks h m
      else reusable_at gr q blocks h n \<and> (\<forall>m. reusable_at gr q blocks h m \<longrightarrow> m \<le> n))
    \<and> ids = take (nat (n div BLOCK)) blocks"
proof -
  let ?r = "gr_registry gr" and ?k = "nat (trim_limit gr q h)"
  let ?ss = "r_same_step_blocks ?r" and ?ids = "if h \<noteq> 0 then blocks else []"
  obtain fs found rejected r1 where
    fs: "(if ?ss = {} then Inr (h div BLOCK)
        else rbind (first_same_step ?ss ?ids (nat (h div BLOCK)) 0) (\<lambda>n. Inr (int n))) = Inr fs"
    and scan: "trim_scan q fs ?k ?r = (Inr (found, rejected), r1)"
    and out: "(if (case found of None \<Rightarrow> 0 | Some (n, _, _) \<Rightarrow> n) = 0 then ([], 0)
      else (take (nat ((case found of None \<Rightarrow> 0 | Some (n, _, _) \<Rightarrow> n) div BLOCK)) ?ids,
        (case found of None \<Rightarrow> 0 | Some (n, _, _) \<Rightarrow> n))) = (ids, n)"
    using assms(1) unfolding graft_trim_hit_def Let_def
    by (auto split: prod.splits sum.splits)
  note top = trim_limit_within [OF assms(4), of gr q] and free = same_step_limit [OF fs]
  have all: "\<exists>n' key s'. found = Some (n', key, s') \<and> m \<le> n'" if m: "reusable_at gr q blocks h m" for m
  proof -
    obtain s where s: "registry_get ?r (v_block_hashes q ! nat (m div BLOCK - 1)) = Some s"
      "matches_at ?r (v_all_token_ids q) s m" using m by (auto simp: reusable_at_def)
    have d: "0 < m" "CHUNK dvd m" "m \<le> h" "m \<le> int ?k * CHUNK" "m div BLOCK \<le> fs"
      using m free [of m] by (auto simp: reusable_at_def CHUNK_def)
    show ?thesis by (rule trim_scan_maximal [OF scan assms(2,3,5) d(1,4,2,5) s])
  qed
  show ?thesis
  proof (cases found)
    case None
    then show ?thesis using all out by fastforce
  next
    case (Some x)
    obtain n' key s where x: "found = Some (n', key, s)" by (metis Some prod_cases3)
    have g: "0 < n'" "n' \<le> int ?k * CHUNK" "CHUNK dvd n'" "n' div BLOCK \<le> fs" "registry_get ?r key = Some s"
      "matches_at ?r (v_all_token_ids q) s n'"
      using trim_scan_spec [OF assms(2,3) scan] x by (auto simp: found_ok_def)
    have n: "n = n'" "ids = take (nat (n' div BLOCK)) ?ids" using out g(1) by (auto simp: x)
    have "n' \<le> h" using g(2) top by simp
    have lim: "n' \<le> trim_limit gr q h * CHUNK" using g(1,2) by (simp add: CHUNK_def split: if_splits)
    have "reusable_at gr q blocks h n'"
      unfolding reusable_at_def
      using g \<open>n' \<le> h\<close> lim free [of n'] trim_scan_key [OF scan [unfolded x]] by auto
    moreover have "m \<le> n'" if "reusable_at gr q blocks h m" for m using all [OF that] by (simp add: x)
    ultimately show ?thesis using n g(1) \<open>n' \<le> h\<close> by auto
  qed
qed

text \<open>A second request with the stored one's tokens gets its first 2048 of a 2100-token hit.\<close>

theorem trim_grants_longest_prefix_witness:
  "snd (projr (fst (graft_trim_hit (demo_request ''b'') (replicate 33 1) 2100 (w_graft (demo_begin demo_stored))))) = 2048"
proof -
  let ?gr = "w_graft (demo_begin demo_stored)"
  have "demo_reach (demo_begin demo_stored)"
    by (intro demo_reach demo_stored_reachable) (simp add: demo_stored_def)
  from reuse.inv_reachable [OF this]
  have ok: "reuse_ok (\<lambda>t. t) (\<lambda>t. t) (\<lambda>_. replicate 2112 7) (gr_registry ?gr)"
    by (simp add: world_ok_def demo_stored_def)
  have start: "r_same_step_blocks (gr_registry ?gr) = {}"
    "r_token_checks (gr_registry ?gr) ''b'' = (\<lambda>_. None)"
    "registry_get (gr_registry ?gr) 5 = Some 1"
    "matches_at (gr_registry ?gr) (replicate 2112 7) 1 2048" "gr_sticky ?gr = False"
    unfolding demo_stored_eq by (simp_all add: demo_defs matches_at_def contents_def)
  have memo: "memo_true (demo_request ''b'') (gr_registry ?gr)"
    using start(2) by (simp add: memo_true_def demo_request_def)
  obtain ids n gr' where run: "graft_trim_hit (demo_request ''b'') (replicate 33 1) 2100 ?gr = (Inr (ids, n), gr')"
    unfolding demo_stored_eq by (simp add: demo_defs)
  have at: "reusable_at ?gr (demo_request ''b'') (replicate 33 1) 2100 2048"
    using start by (simp add: reusable_at_def demo_request_def trim_limit_def CHUNK_def BLOCK_def)
  have top: "m \<le> 2048" if "reusable_at ?gr (demo_request ''b'') (replicate 33 1) 2100 m" for m
    using that start(5) by (simp add: reusable_at_def trim_limit_def CHUNK_def)
  have toks: "(\<lambda>_. replicate 2112 7) (v_request_id (demo_request ''b'')) = v_all_token_ids (demo_request ''b'')"
    and h: "0 \<le> (2100 :: int)" by (simp_all add: demo_request_def)
  note trim_grants_longest_prefix [OF run ok toks h memo]
  then have "n = 2048" using at top [of n] by (force split: if_splits)
  with run show ?thesis by simp
qed

end
