(* ===== verification/PrefillAdmission.thy ===== *)
theory PrefillAdmission
  imports Prelude "HOL-Library.Multiset" "HOL-Library.List_Lexorder" "HOL-Library.Char_ord"
begin

text \<open>
  Admission to the prefill step, \<open>scripts/ci/serving_prefill_admission.py\<close>: at most one fresh
  prompt per step, none while a partial prefill runs or the lifecycle's gate is held, and none that
  the device memory left does not fit. Sizes are bytes per chip. A prompt length of None is one that
  cannot be read.

  The device statistics, vLLM's scheduler pass and its queues' merge are not code of this repository:
  they are arguments. The texts of the log lines are not modelled; which line is logged is.
\<close>

definition MEGABYTE :: int where "MEGABYTE = 10 ^ 6"
definition ENGINE_BUILD_BYTES :: int where "ENGINE_BUILD_BYTES = 800 * MEGABYTE"
definition ENGINE_BUILD_MARGIN_BYTES :: int where "ENGINE_BUILD_MARGIN_BYTES = 200 * MEGABYTE"
definition PREFILL_TRANSIENT_BYTES :: int where "PREFILL_TRANSIENT_BYTES = 300 * MEGABYTE"
definition PREFILL_TRANSIENT_FROM :: int where "PREFILL_TRANSIENT_FROM = 2048"
definition PREFILL_RESIDUE_BYTES :: int where "PREFILL_RESIDUE_BYTES = 100 * MEGABYTE"
definition STRANDED_BYTES :: int where "STRANDED_BYTES = 300 * MEGABYTE"
definition LARGEST_BUFFER_BYTES :: int where "LARGEST_BUFFER_BYTES = 128 * MEGABYTE"
definition TRACE_CONTIGUOUS_BYTES :: int where "TRACE_CONTIGUOUS_BYTES = 44 * MEGABYTE"
definition SINGLE_TRACE_BYTES :: int where "SINGLE_TRACE_BYTES = 4 * MEGABYTE"

lemmas sizes =
  MEGABYTE_def ENGINE_BUILD_BYTES_def ENGINE_BUILD_MARGIN_BYTES_def PREFILL_TRANSIENT_BYTES_def
  PREFILL_TRANSIENT_FROM_def PREFILL_RESIDUE_BYTES_def STRANDED_BYTES_def LARGEST_BUFFER_BYTES_def
  TRACE_CONTIGUOUS_BYTES_def SINGLE_TRACE_BYTES_def

subsection \<open>How many prefills a step may run\<close>

definition admission :: "int \<Rightarrow> string option \<Rightarrow> (int \<times> bool) result" where
  "admission partials held =
     (if partials < 0 then Inl ValueError
      else if partials \<noteq> 0 then Inr (partials, True)
      else if held \<noteq> None then Inr (0, True)
      else Inr (1, False))"

definition waiting_capacity :: "int \<Rightarrow> int \<Rightarrow> int \<Rightarrow> int" where
  "waiting_capacity saved_max decodes allowed = max 0 (min (saved_max - decodes) allowed)"

subsection \<open>What a prompt needs\<close>

definition engine_build_peak :: int where
  "engine_build_peak = ENGINE_BUILD_BYTES + ENGINE_BUILD_MARGIN_BYTES"

definition checked_reserve :: "int \<Rightarrow> int result" where
  "checked_reserve reserve = (if reserve < 0 then Inl ValueError else Inr reserve)"

definition prefill_transient :: "int option \<Rightarrow> int" where
  "prefill_transient prompt =
     (if (case prompt of None \<Rightarrow> True | Some n \<Rightarrow> n \<ge> PREFILL_TRANSIENT_FROM)
      then PREFILL_TRANSIENT_BYTES else 0)"

definition dram_need :: "int option \<Rightarrow> int \<Rightarrow> int result" where
  "dram_need prompt reserve =
     rbind (checked_reserve reserve) (\<lambda>r. Inr (engine_build_peak + prefill_transient prompt + r))"

definition backstop_need :: "int \<Rightarrow> int result" where
  "backstop_need reserve = rbind (checked_reserve reserve) (\<lambda>r. Inr (engine_build_peak + r))"

definition parked_bytes :: "int \<Rightarrow> int \<Rightarrow> int result" where
  "parked_bytes rebind single =
     (if rebind < 0 \<or> single < 0 then Inl ValueError else Inr (rebind + single))"

definition parked_need :: "int option \<Rightarrow> int \<Rightarrow> int \<Rightarrow> int \<Rightarrow> int result" where
  "parked_need prompt reserve rebind single =
     rbind (parked_bytes rebind single) (\<lambda>b.
     rbind (checked_reserve reserve) (\<lambda>r. Inr (prefill_transient prompt + b + r)))"

definition parked_backstop_need :: "int \<Rightarrow> int \<Rightarrow> int \<Rightarrow> int result" where
  "parked_backstop_need reserve rebind single =
     rbind (parked_bytes rebind single) (\<lambda>b. rbind (checked_reserve reserve) (\<lambda>r. Inr (b + r)))"

definition parked_trace_need :: "int \<Rightarrow> int" where
  "parked_trace_need single = (if single \<noteq> 0 then SINGLE_TRACE_BYTES else 0)"

definition contiguous_need :: "int \<Rightarrow> int result" where
  "contiguous_need reserve = rbind (checked_reserve reserve) (\<lambda>r. Inr (r + LARGEST_BUFFER_BYTES))"

definition prefill_residue :: "int option \<Rightarrow> int" where
  "prefill_residue prompt = max (prefill_transient prompt) PREFILL_RESIDUE_BYTES"

definition admission_contiguous_need :: "int option \<Rightarrow> int \<Rightarrow> int result" where
  "admission_contiguous_need prompt reserve =
     rbind (contiguous_need reserve) (\<lambda>c. Inr (c + prefill_residue prompt))"

subsection \<open>The split\<close>

text \<open>The terms, in the order of \<open>SPLIT_TERMS\<close>.\<close>

datatype split_term = Free | Contiguous | Trace

instantiation split_term :: linorder
begin

definition split_rank :: "split_term \<Rightarrow> nat" where
  "split_rank t = (case t of Free \<Rightarrow> 0 | Contiguous \<Rightarrow> 1 | Trace \<Rightarrow> 2)"

definition less_eq_split_term :: "split_term \<Rightarrow> split_term \<Rightarrow> bool" where
  "less_eq_split_term s t \<longleftrightarrow> split_rank s \<le> split_rank t"

definition less_split_term :: "split_term \<Rightarrow> split_term \<Rightarrow> bool" where
  "less_split_term s t \<longleftrightarrow> split_rank s < split_rank t"

instance
  by standard (auto simp: less_eq_split_term_def less_split_term_def split_rank_def split: split_term.splits)

end

definition split_short ::
  "int \<Rightarrow> int \<Rightarrow> int \<Rightarrow> int \<Rightarrow> int option \<Rightarrow> int option \<Rightarrow> int option \<Rightarrow> split_term list result" where
  "split_short free largest need reserve trace_largest contiguous trace_need =
     rbind (case contiguous of
              None \<Rightarrow> contiguous_need reserve
            | Some c \<Rightarrow> if c < 0 then Inl ValueError else Inr c) (\<lambda>contiguous.
     rbind (case trace_need of
              None \<Rightarrow> Inr TRACE_CONTIGUOUS_BYTES
            | Some t \<Rightarrow> if t < 0 then Inl ValueError else Inr t) (\<lambda>trace_need.
     Inr ((if free - STRANDED_BYTES < need then [Free] else [])
        @ (if largest < contiguous then [Contiguous] else [])
        @ (if (case trace_largest of None \<Rightarrow> False | Some t \<Rightarrow> t < trace_need) then [Trace] else []))))"

subsection \<open>The readings\<close>

text \<open>What a statistics call of the pool yields: there is no such call, it returned a dictionary that
  says why not, it raised, or the report of each chip.\<close>

record chip_stats =
  chip_free :: int
  chip_largest_free :: int

datatype 'a pool_report = No_statistics | Unavailable | Statistics_raised | Chips "'a list"

definition smallest :: "int list \<Rightarrow> int option" where
  "smallest xs = (if xs = [] then None else Some (Min (set xs)))"

definition largest_free :: "chip_stats pool_report \<Rightarrow> int option" where
  "largest_free report = (case report of Chips cs \<Rightarrow> smallest (map chip_largest_free cs) | _ \<Rightarrow> None)"

definition trace_largest_free :: "int pool_report \<Rightarrow> int option" where
  "trace_largest_free report = (case report of Chips cs \<Rightarrow> smallest cs | _ \<Rightarrow> None)"

record dram_read =
  rd_free :: int
  rd_largest_free :: int
  rd_trace_largest_free :: "int option"

definition dram_reading :: "chip_stats pool_report \<Rightarrow> int pool_report \<Rightarrow> dram_read option" where
  "dram_reading report traces =
     (case report of
        Chips cs \<Rightarrow>
          (case (smallest (map chip_free cs), smallest (map chip_largest_free cs)) of
             (Some f, Some l) \<Rightarrow> Some \<lparr>rd_free = f, rd_largest_free = l,
                                   rd_trace_largest_free = trace_largest_free traces\<rparr>
           | _ \<Rightarrow> None)
      | _ \<Rightarrow> None)"

record dram_detail =
  dd_largest_free :: "int option"
  dd_need :: int
  dd_free :: "int option"
  dd_trace :: "int option"
  dd_short :: "split_term list option"
  dd_parked :: "(int \<times> int) option"

text \<open>The predicate the worker registers. \<open>terms\<close> is what the parked set answers: None for today's
  build, else the rebind and single-capture bytes.\<close>

definition dram_admits ::
  "int \<Rightarrow> (int \<times> int) option result \<Rightarrow> chip_stats pool_report \<Rightarrow> int pool_report \<Rightarrow> int option
     \<Rightarrow> (bool \<times> dram_detail) result" where
  "dram_admits reserve parked report traces prompt =
     rbind parked (\<lambda>terms.
     rbind (case terms of
              None \<Rightarrow> dram_need prompt reserve
            | Some (rebind, single) \<Rightarrow> parked_need prompt reserve rebind single) (\<lambda>need.
     case dram_reading report traces of
       None \<Rightarrow> Inr (True, \<lparr>dd_largest_free = None, dd_need = need, dd_free = None, dd_trace = None,
                           dd_short = None, dd_parked = terms\<rparr>)
     | Some reading \<Rightarrow>
         rbind (admission_contiguous_need prompt reserve) (\<lambda>contiguous.
         rbind (split_short (rd_free reading) (rd_largest_free reading) need reserve
                  (rd_trace_largest_free reading) (Some contiguous)
                  (map_option (\<lambda>(_, single). parked_trace_need single) terms)) (\<lambda>short.
         Inr (short = [], \<lparr>dd_largest_free = Some (rd_largest_free reading), dd_need = need,
                dd_free = Some (rd_free reading), dd_trace = rd_trace_largest_free reading,
                dd_short = Some short, dd_parked = terms\<rparr>)))))"

text \<open>\<open>dram_predicate\<close>: the reserve is checked when the predicate is built.\<close>

definition dram_predicate ::
  "int \<Rightarrow> (int \<times> int) option result \<Rightarrow> chip_stats pool_report \<Rightarrow> int pool_report
     \<Rightarrow> (int option \<Rightarrow> (bool \<times> dram_detail) result) result" where
  "dram_predicate reserve parked report traces =
     rbind (checked_reserve reserve) (\<lambda>r. Inr (dram_admits r parked report traces))"

subsection \<open>After the prefill\<close>

text \<open>\<open>dram_backstop\<close> of \<open>scripts/ci/serving_request_factory.py\<close>: the largest free block, None when
  the pool cannot be read, or the refusal of the request.\<close>

definition dram_backstop ::
  "int \<Rightarrow> (int \<times> int) option \<Rightarrow> chip_stats pool_report \<Rightarrow> int pool_report \<Rightarrow> int option result" where
  "dram_backstop reserve parked report traces =
     rbind (case parked of
              None \<Rightarrow> backstop_need reserve
            | Some (rebind, single) \<Rightarrow> parked_backstop_need reserve rebind single) (\<lambda>need.
     case dram_reading report traces of
       None \<Rightarrow> Inr None
     | Some reading \<Rightarrow>
         rbind (split_short (rd_free reading) (rd_largest_free reading) need reserve
                  (rd_trace_largest_free reading) None
                  (map_option (\<lambda>(_, single). parked_trace_need single) parked)) (\<lambda>short.
         if short \<noteq> [] then Inl RequestRefused else Inr (Some (rd_largest_free reading))))"

end
