(* ===== verification/SchedulerGate.thy ===== *)
theory SchedulerGate
  imports PrefillAdmission
begin

text \<open>
  The wrapper around the scheduler's prefill pass: \<open>wrap\<close> and the DRAM hold of
  \<open>scripts/ci/serving_prefill_admission.py\<close>, and the older subclass of
  \<open>scripts/ci/serving_one_in_flight.py\<close> with the same purpose.

  vLLM's pass (\<open>original\<close>, \<open>super()._schedule_prefill_only\<close>) is a parameter: a function of the
  scheduler that returns or raises and leaves a scheduler. So is the queue's \<open>prepend_requests\<close>.
\<close>

text \<open>A request as the wrapper reads it: \<open>sr_blocked\<close> is what the status check says or raises,
  \<open>sr_num_prompt\<close> and \<open>sr_prompt_len\<close> the two lengths it may carry.\<close>

record sched_request =
  sr_id :: string
  sr_prefill_chunk :: bool
  sr_blocked :: "bool result"
  sr_num_prompt :: "int option"
  sr_prompt_len :: "int option"

record scheduler =
  sd_running :: "sched_request list"
  sd_waiting :: "sched_request list"
  sd_skipped :: "sched_request list option"
  sd_max_running :: int
  sd_finished :: "string set"
  sd_default_mode :: bool

record sched_output =
  so_total :: "int option"
  so_finished :: "string set"

datatype hold_note =
    Note_unavailable string
  | Note_fit string
  | Note_deferred string "string list"
  | Note_lifted string

datatype log_line =
    Log_note hold_note
  | Log_released string
  | Log_hold string int
  | Log_live
  | Log_decision int int bool int bool
  | Log_carried "string list"

record gate_state =
  ga_live :: bool
  ga_seen :: "(int \<times> int \<times> bool \<times> int \<times> bool) set"
  ga_held :: "(string \<times> int) option"
  ga_noted :: "hold_note option"
  ga_log :: "log_line list"

definition gate_init :: gate_state where
  "gate_init = \<lparr>ga_live = False, ga_seen = {}, ga_held = None, ga_noted = None, ga_log = []\<rparr>"

definition log_to :: "log_line \<Rightarrow> gate_state \<Rightarrow> gate_state" where
  "log_to l g = g\<lparr>ga_log := ga_log g @ [l]\<rparr>"

definition note_once :: "hold_note \<Rightarrow> gate_state \<Rightarrow> gate_state" where
  "note_once n g = (if ga_noted g \<noteq> Some n then log_to (Log_note n) (g\<lparr>ga_noted := Some n\<rparr>) else g)"

subsection \<open>Who may be admitted\<close>

definition blocked :: "sched_request \<Rightarrow> bool" where
  "blocked q = (case sr_blocked q of Inl _ \<Rightarrow> False | Inr b \<Rightarrow> b)"

text \<open>The requests up to and including the first one that is not blocked, and whether there is one.\<close>

fun upto_unblocked :: "sched_request list \<Rightarrow> sched_request list \<times> bool" where
  "upto_unblocked [] = ([], False)"
| "upto_unblocked (q # qs) =
     (if \<not> blocked q then ([q], True)
      else (case upto_unblocked qs of (cs, stop) \<Rightarrow> (q # cs, stop)))"

definition admission_candidates :: "scheduler \<Rightarrow> sched_request list" where
  "admission_candidates s =
     (case upto_unblocked (case sd_skipped s of None \<Rightarrow> [] | Some qs \<Rightarrow> qs) of
        (cs, True) \<Rightarrow> cs
      | (cs, False) \<Rightarrow> cs @ fst (upto_unblocked (sd_waiting s)))"

definition prompt_tokens :: "sched_request \<Rightarrow> int option" where
  "prompt_tokens q = (case sr_num_prompt q of Some n \<Rightarrow> Some n | None \<Rightarrow> sr_prompt_len q)"

text \<open>The order of \<open>length\<close>: a length that cannot be read is infinite.\<close>

definition shorter :: "int option \<Rightarrow> int option \<Rightarrow> bool" where
  "shorter a b = (case (a, b) of (Some m, Some n) \<Rightarrow> m < n | (Some m, None) \<Rightarrow> True | (None, _) \<Rightarrow> False)"

text \<open>\<open>max(candidates, key=length)\<close>: the first of the longest.\<close>

fun longest_from :: "sched_request \<Rightarrow> sched_request list \<Rightarrow> sched_request" where
  "longest_from best [] = best"
| "longest_from best (q # qs) =
     longest_from (if shorter (prompt_tokens best) (prompt_tokens q) then q else best) qs"

definition binding_request :: "sched_request list \<Rightarrow> sched_request option" where
  "binding_request candidates = (case candidates of [] \<Rightarrow> None | q # qs \<Rightarrow> Some (longest_from q qs))"

definition finished_since_last_step :: "scheduler \<Rightarrow> string list" where
  "finished_since_last_step s = sorted_list_of_set (sd_finished s)"

subsection \<open>The DRAM hold\<close>

text \<open>\<open>admits\<close> is the registered predicate, None where there is none.\<close>

definition dram_hold ::
  "(int option \<Rightarrow> (bool \<times> dram_detail) result) option \<Rightarrow> scheduler \<Rightarrow> int \<Rightarrow> gate_state
     \<Rightarrow> bool \<times> gate_state" where
  "dram_hold admits s decodes g =
     (case admits of
        None \<Rightarrow> (False, g)
      | Some admits \<Rightarrow>
          (case binding_request (admission_candidates s) of
             None \<Rightarrow> (False, g)
           | Some q \<Rightarrow>
               (let (ok, largest) = (case admits (prompt_tokens q) of
                      Inl _ \<Rightarrow> (True, None) | Inr (ok, detail) \<Rightarrow> (ok, dd_largest_free detail))
                in if largest = None then (False, note_once (Note_unavailable (sr_id q)) g)
                   else if ok then
                     (if (case ga_held g of None \<Rightarrow> False | Some (held, _) \<Rightarrow> held = sr_id q)
                      then (False, log_to (Log_released (sr_id q)) (g\<lparr>ga_held := None\<rparr>))
                      else (False, note_once (Note_fit (sr_id q)) g))
                   else
                     (let finished = finished_since_last_step s
                      in if finished \<noteq> [] then (True, note_once (Note_deferred (sr_id q) finished) g)
                         else if decodes = 0
                         then (False, note_once (Note_lifted (sr_id q)) (g\<lparr>ga_held := None\<rparr>))
                         else if ga_held g \<noteq> Some (sr_id q, decodes)
                         then (True, log_to (Log_hold (sr_id q) decodes)
                                 (g\<lparr>ga_held := Some (sr_id q, decodes)\<rparr>))
                         else (True, g)))))"

definition carry_finished ::
  "sched_output \<Rightarrow> int \<Rightarrow> scheduler \<Rightarrow> gate_state \<Rightarrow> scheduler \<times> gate_state" where
  "carry_finished out decodes s g =
     (if decodes = 0 \<or> so_total out \<noteq> Some 0 then (s, g)
      else if \<not> sd_default_mode s then (s, g)
      else if so_finished out = {} then (s, g)
      else (s\<lparr>sd_finished := so_finished out \<union> sd_finished s\<rparr>,
            log_to (Log_carried (sorted_list_of_set (so_finished out))) g))"

subsection \<open>The wrapper\<close>

definition decode_count :: "scheduler \<Rightarrow> int" where
  "decode_count s = int (length (filter (\<lambda>q. \<not> sr_prefill_chunk q) (sd_running s)))"

definition partial_count :: "scheduler \<Rightarrow> int" where
  "partial_count s = int (length (sd_running s)) - decode_count s"

type_synonym prefill_pass = "scheduler \<Rightarrow> sched_output result \<times> scheduler"
type_synonym queue_merge = "sched_request list \<Rightarrow> sched_request list \<Rightarrow> sched_request list"

text \<open>What the wrapper decides before it delegates: how many may run, whether the queues are hidden and
  whether that is for the device memory. \<open>held\<close> is the request the lifecycle's gate names.\<close>

definition gate_decision ::
  "string option \<Rightarrow> (int option \<Rightarrow> (bool \<times> dram_detail) result) option \<Rightarrow> scheduler \<Rightarrow> gate_state
     \<Rightarrow> (int \<times> bool \<times> bool) result \<times> gate_state" where
  "gate_decision held admits s g =
     (let decodes = decode_count s; partials = partial_count s
      in case admission partials held of
           Inl e \<Rightarrow> (Inl e, g)
         | Inr (allowed, hide) \<Rightarrow>
             (case (if \<not> hide \<and> waiting_capacity (sd_max_running s) decodes allowed > 0
                    then dram_hold admits s decodes g else (False, g)) of
                (dram_held, g) \<Rightarrow>
                  (let (allowed, hide) = (if dram_held then (0, True) else (allowed, hide));
                       g = (if \<not> ga_live g then log_to Log_live (g\<lparr>ga_live := True\<rparr>) else g);
                       decision = (partials, decodes, held \<noteq> None, allowed, hide);
                       g = (if decision \<notin> ga_seen g
                            then log_to (Log_decision partials decodes (held \<noteq> None) allowed hide)
                                   (g\<lparr>ga_seen := insert decision (ga_seen g)\<rparr>)
                            else g)
                   in (Inr (allowed, hide, dram_held), g))))"

text \<open>The scheduler the pass is given: capped, and its queues replaced by empty ones.\<close>

definition capped :: "int \<Rightarrow> bool \<Rightarrow> scheduler \<Rightarrow> scheduler" where
  "capped allowed hide s =
     (let s0 = s\<lparr>sd_max_running := min (sd_max_running s) (allowed + decode_count s)\<rparr>
      in if hide then s0\<lparr>sd_waiting := [], sd_skipped := map_option (\<lambda>_. []) (sd_skipped s)\<rparr> else s0)"

text \<open>The \<open>finally\<close> clause: \<open>s\<close> is the scheduler before the queues were hidden, \<open>s1\<close> the one the pass left.\<close>

definition restore_queues :: "queue_merge \<Rightarrow> bool \<Rightarrow> scheduler \<Rightarrow> scheduler \<Rightarrow> scheduler" where
  "restore_queues prepend hide s s1 =
     (let s2 = (if hide then
          s1\<lparr>sd_waiting := (if sd_waiting s1 \<noteq> [] then prepend (sd_waiting s) (sd_waiting s1) else sd_waiting s),
             sd_skipped := (case sd_skipped s of
                None \<Rightarrow> sd_skipped s1
              | Some saved \<Rightarrow> Some (case sd_skipped s1 of
                    None \<Rightarrow> saved
                  | Some back \<Rightarrow> if back \<noteq> [] then prepend saved back else saved))\<rparr>
        else s1)
      in s2\<lparr>sd_max_running := sd_max_running s\<rparr>)"

definition schedule_prefill_only ::
  "prefill_pass \<Rightarrow> queue_merge \<Rightarrow> string option
     \<Rightarrow> (int option \<Rightarrow> (bool \<times> dram_detail) result) option \<Rightarrow> scheduler \<Rightarrow> gate_state
     \<Rightarrow> sched_output result \<times> scheduler \<times> gate_state" where
  "schedule_prefill_only original prepend held admits s g =
     (case gate_decision held admits s g of
        (Inl e, g) \<Rightarrow> (Inl e, s, g)
      | (Inr (allowed, hide, dram_held), g) \<Rightarrow>
          (let decodes = decode_count s
           in case original (capped allowed hide s) of
                (Inl e, s1) \<Rightarrow> (Inl e, restore_queues prepend hide s s1, g)
              | (Inr out, s1) \<Rightarrow>
                  (let s2 = restore_queues prepend hide s s1
                   in if dram_held
                      then (case carry_finished out decodes s2 g of (s3, g) \<Rightarrow> (Inr out, s3, g))
                      else (Inr out, s2, g))))"

subsection \<open>The subclass of \<open>serving_one_in_flight.py\<close>\<close>

definition allowed_prefills :: "int \<Rightarrow> int result" where
  "allowed_prefills partials =
     (if partials < 0 then Inl ValueError else Inr (if partials \<noteq> 0 then partials else 1))"

definition effective_capacity :: "int \<Rightarrow> int \<Rightarrow> int \<Rightarrow> int result" where
  "effective_capacity max_num_running_reqs decodes partials =
     (if max_num_running_reqs < 0 \<or> decodes < 0 \<or> partials < 0 then Inl ValueError
      else rbind (allowed_prefills partials) (\<lambda>a.
             Inr (max 0 (min max_num_running_reqs (a + decodes) - decodes))))"

definition waiting_headroom :: "int \<Rightarrow> int \<Rightarrow> int \<Rightarrow> int result" where
  "waiting_headroom max_num_running_reqs decodes partials =
     rbind (effective_capacity max_num_running_reqs decodes partials) (\<lambda>c. Inr (max 0 (c - partials)))"

definition one_in_flight_pass :: "prefill_pass \<Rightarrow> scheduler \<Rightarrow> sched_output result \<times> scheduler" where
  "one_in_flight_pass base s =
     (let decodes = decode_count s; partials = partial_count s; hide = (partials \<noteq> 0)
      in case (case allowed_prefills partials of
                 Inl e \<Rightarrow> (Inl e, if hide then s\<lparr>sd_waiting := [],
                                    sd_skipped := map_option (\<lambda>_. []) (sd_skipped s)\<rparr> else s)
               | Inr a \<Rightarrow> base (capped a hide s)) of
           (r, s1) \<Rightarrow>
             (r, (if hide then s1\<lparr>sd_waiting := sd_waiting s,
                    sd_skipped := (case sd_skipped s of None \<Rightarrow> sd_skipped s1 | Some q \<Rightarrow> Some q)\<rparr> else s1)
                 \<lparr>sd_max_running := sd_max_running s\<rparr>))"

end
