(* ===== verification/SchedulerProps.thy ===== *)
theory SchedulerProps
  imports SchedulerGate
begin

text \<open>
  What the wrapper around vLLM's prefill pass guarantees, and what the older subclass does.

  \<open>pass_ok\<close> is what the wrapper relies on of the pass it delegates to: it moves requests between
  the running list and the queues and loses none, and with no partial prefill running it admits at
  most \<open>max_num_running_reqs\<close> less the decodes. \<open>merge_ok\<close> is what it relies on of
  \<open>prepend_requests\<close>.
\<close>

definition all_requests :: "scheduler \<Rightarrow> sched_request multiset" where
  "all_requests s = mset (sd_running s) + mset (sd_waiting s)
     + mset (case sd_skipped s of None \<Rightarrow> [] | Some qs \<Rightarrow> qs)"

definition fresh_prompts :: "scheduler \<Rightarrow> scheduler \<Rightarrow> sched_request multiset" where
  "fresh_prompts s s' = mset (sd_running s') - mset (sd_running s)"

definition pass_ok :: "prefill_pass \<Rightarrow> bool" where
  "pass_ok original \<longleftrightarrow> (\<forall>s. all_requests (snd (original s)) = all_requests s
     \<and> (partial_count s = 0 \<longrightarrow>
          int (size (fresh_prompts s (snd (original s)))) \<le> max 0 (sd_max_running s - decode_count s)))"

definition merge_ok :: "queue_merge \<Rightarrow> bool" where
  "merge_ok prepend \<longleftrightarrow> (\<forall>q xs. mset (prepend q xs) = mset q + mset xs)"

lemma partial_count_nonneg: "0 \<le> partial_count s"
  by (simp add: partial_count_def decode_count_def)

lemma decode_count_nonneg: "0 \<le> decode_count s"
  by (simp add: decode_count_def)

lemma capped_simps [simp]:
  "sd_running (capped a hide s) = sd_running s"
  "sd_max_running (capped a hide s) = min (sd_max_running s) (a + decode_count s)"
  "sd_waiting (capped a hide s) = (if hide then [] else sd_waiting s)"
  "sd_skipped (capped a hide s) = (if hide then map_option (\<lambda>_. []) (sd_skipped s) else sd_skipped s)"
  "decode_count (capped a hide s) = decode_count s"
  "partial_count (capped a hide s) = partial_count s"
  by (auto simp: capped_def Let_def decode_count_def partial_count_def)

lemma all_requests_capped:
  "all_requests (capped a hide s) = (if hide then mset (sd_running s) else all_requests s)"
  by (cases "sd_skipped s") (auto simp: all_requests_def)

lemma running_le_all: "mset (sd_running s) \<subseteq># all_requests s"
  by (simp add: all_requests_def add.assoc)

lemma hidden_admits_none:
  assumes "pass_ok base"
  shows "mset (sd_running (snd (base (capped a True s)))) \<subseteq># mset (sd_running s)"
proof -
  have "all_requests (snd (base (capped a True s))) = mset (sd_running s)"
    using assms by (simp add: pass_ok_def all_requests_capped)
  then show ?thesis using running_le_all by metis
qed

lemma visible_admits:
  assumes "pass_ok base" and "partial_count s = 0"
  shows "int (size (fresh_prompts s (snd (base (capped a hide s)))))
           \<le> max 0 (min (sd_max_running s - decode_count s) a)"
proof -
  have "int (size (fresh_prompts (capped a hide s) (snd (base (capped a hide s)))))
          \<le> max 0 (sd_max_running (capped a hide s) - decode_count (capped a hide s))"
    using assms unfolding pass_ok_def by (metis capped_simps(6))
  then show ?thesis by (simp add: fresh_prompts_def min_def split: if_splits)
qed

subsection \<open>The rule both wrappers implement\<close>

text \<open>A step that delegates to a capped pass: both queues are hidden while a partial prefill runs,
  and a pass that sees the queues may admit one.\<close>

locale capped_pass =
  fixes pass :: "prefill_pass \<Rightarrow> scheduler \<Rightarrow> scheduler"
  assumes delegates: "\<exists>a hide. (partial_count s \<noteq> 0 \<longrightarrow> hide) \<and> (\<not> hide \<longrightarrow> a \<le> 1)
      \<and> sd_running (pass base s) = sd_running (snd (base (capped a hide s)))"
    and capacity_restored: "sd_max_running (pass base s) = sd_max_running s"
begin

lemma none_beside_partial:
  assumes "pass_ok base" and "partial_count s \<noteq> 0"
  shows "fresh_prompts s (pass base s) = {#}"
proof -
  obtain a where "sd_running (pass base s) = sd_running (snd (base (capped a True s)))"
    using delegates [of s base] assms(2) by fastforce
  then show ?thesis
    using hidden_admits_none [OF assms(1)] by (auto simp: fresh_prompts_def Diff_eq_empty_iff_mset)
qed

lemma at_most_one:
  assumes "pass_ok base"
  shows "size (fresh_prompts s (pass base s)) \<le> 1"
proof -
  obtain a hide where *: "partial_count s \<noteq> 0 \<longrightarrow> hide" "\<not> hide \<longrightarrow> a \<le> 1"
      "sd_running (pass base s) = sd_running (snd (base (capped a hide s)))"
    using delegates by blast
  show ?thesis
  proof (cases hide)
    case True
    then show ?thesis
      using Diff_eq_empty_iff_mset [THEN iffD2, OF hidden_admits_none [OF assms, of a s]] *(3)
      by (simp add: fresh_prompts_def)
  next
    case False
    then show ?thesis
      using visible_admits [OF assms, of s a hide] * by (auto simp: fresh_prompts_def)
  qed
qed

lemma none_without_seat:
  assumes "pass_ok base" and "sd_max_running s \<le> decode_count s"
  shows "fresh_prompts s (pass base s) = {#}"
proof (cases "partial_count s = 0")
  case True
  obtain a hide where "sd_running (pass base s) = sd_running (snd (base (capped a hide s)))"
    using delegates by blast
  then show ?thesis
    using visible_admits [OF assms(1) True, of a hide] assms(2) by (auto simp: fresh_prompts_def)
qed (simp add: none_beside_partial assms)

end

subsection \<open>The wrapper\<close>

lemma gate_decision_sound:
  assumes "gate_decision held admits s g = (Inr (allowed, hide, dram_held), g')"
  shows "(partial_count s \<noteq> 0 \<longrightarrow> hide) \<and> (\<not> hide \<longrightarrow> allowed \<le> 1) \<and> (held \<noteq> None \<longrightarrow> hide)
    \<and> (dram_held \<longrightarrow> hide)"
  using assms partial_count_nonneg [of s]
  by (auto simp: gate_decision_def admission_def Let_def split: prod.splits if_splits sum.splits)

lemma gate_decision_returns: "\<exists>d g'. gate_decision held admits s g = (Inr d, g')"
  using partial_count_nonneg [of s]
  by (auto simp: gate_decision_def admission_def Let_def split: prod.splits if_splits)

lemma restore_queues_simps [simp]:
  "sd_running (restore_queues prepend hide s s1) = sd_running s1"
  "sd_max_running (restore_queues prepend hide s s1) = sd_max_running s"
  by (auto simp: restore_queues_def Let_def)

lemma carry_finished_simps [simp]:
  "sd_running (fst (carry_finished out d s g)) = sd_running s"
  "sd_waiting (fst (carry_finished out d s g)) = sd_waiting s"
  "sd_skipped (fst (carry_finished out d s g)) = sd_skipped s"
  "sd_max_running (fst (carry_finished out d s g)) = sd_max_running s"
  by (auto simp: carry_finished_def log_to_def)

lemma schedule_prefill_only_shape:
  obtains allowed hide dram_held g' where
    "gate_decision held admits s g = (Inr (allowed, hide, dram_held), g')"
    "let s1 = snd (original (capped allowed hide s)); s' = fst (snd (schedule_prefill_only original prepend held admits s g));
         s2 = restore_queues prepend hide s s1
     in sd_running s' = sd_running s2 \<and> sd_waiting s' = sd_waiting s2 \<and> sd_skipped s' = sd_skipped s2
        \<and> sd_max_running s' = sd_max_running s"
proof -
  obtain allowed hide dram_held g' where d: "gate_decision held admits s g = (Inr (allowed, hide, dram_held), g')"
    using gate_decision_returns by (metis prod_cases3)
  show thesis
    by (rule that [OF d])
       (auto simp: schedule_prefill_only_def d Let_def carry_finished_def log_to_def
             split: sum.splits prod.splits if_splits)
qed

interpretation gate: capped_pass
  "\<lambda>base s. fst (snd (schedule_prefill_only base prepend held admits s g))" for prepend held admits g
proof
  fix s base
  obtain a hide dh g' where d: "gate_decision held admits s g = (Inr (a, hide, dh), g')"
    and sh: "let s1 = snd (base (capped a hide s)); s' = fst (snd (schedule_prefill_only base prepend held admits s g));
         s2 = restore_queues prepend hide s s1
     in sd_running s' = sd_running s2 \<and> sd_waiting s' = sd_waiting s2 \<and> sd_skipped s' = sd_skipped s2
        \<and> sd_max_running s' = sd_max_running s"
    by (rule schedule_prefill_only_shape)
  show "\<exists>a hide. (partial_count s \<noteq> 0 \<longrightarrow> hide) \<and> (\<not> hide \<longrightarrow> a \<le> 1)
      \<and> sd_running (fst (snd (schedule_prefill_only base prepend held admits s g))) = sd_running (snd (base (capped a hide s)))"
    using gate_decision_sound [OF d] sh by (auto simp: Let_def)
  show "sd_max_running (fst (snd (schedule_prefill_only base prepend held admits s g))) = sd_max_running s"
    using sh by (simp add: Let_def)
qed

lemma restored_requests:
  assumes "merge_ok prepend" and "all_requests s1 = (if hide then mset (sd_running s) else all_requests s)"
  shows "all_requests (restore_queues prepend hide s s1) = all_requests s"
  using assms
  by (cases "sd_skipped s"; cases "sd_skipped s1")
     (auto simp: restore_queues_def all_requests_def merge_ok_def Let_def add.assoc)

lemma all_requests_cong:
  "sd_running s = sd_running t \<Longrightarrow> sd_waiting s = sd_waiting t \<Longrightarrow> sd_skipped s = sd_skipped t
    \<Longrightarrow> all_requests s = all_requests t"
  by (simp add: all_requests_def)

lemma wrapper_conserves:
  assumes "pass_ok original" and "merge_ok prepend"
  shows "all_requests (fst (snd (schedule_prefill_only original prepend held admits s g))) = all_requests s"
proof -
  obtain a hide dh g' where sh: "let s1 = snd (original (capped a hide s)); s' = fst (snd (schedule_prefill_only original prepend held admits s g));
         s2 = restore_queues prepend hide s s1
     in sd_running s' = sd_running s2 \<and> sd_waiting s' = sd_waiting s2 \<and> sd_skipped s' = sd_skipped s2
        \<and> sd_max_running s' = sd_max_running s"
    by (rule schedule_prefill_only_shape)
  have "all_requests (snd (original (capped a hide s))) = (if hide then mset (sd_running s) else all_requests s)"
    using assms(1) all_requests_capped by (simp add: pass_ok_def)
  then have "all_requests (restore_queues prepend hide s (snd (original (capped a hide s)))) = all_requests s"
    by (rule restored_requests [OF assms(2)])
  then show ?thesis using sh by (metis (no_types, lifting) all_requests_cong)
qed

subsection \<open>The older subclass\<close>

lemma allowed_prefills_ok: "0 \<le> p \<Longrightarrow> allowed_prefills p = Inr (if p \<noteq> 0 then p else 1)"
  by (simp add: allowed_prefills_def)

interpretation older: capped_pass "\<lambda>base s. snd (one_in_flight_pass base s)"
proof
  fix s base
  show "\<exists>a hide. (partial_count s \<noteq> 0 \<longrightarrow> hide) \<and> (\<not> hide \<longrightarrow> a \<le> 1)
      \<and> sd_running (snd (one_in_flight_pass base s)) = sd_running (snd (base (capped a hide s)))"
    by (rule exI [of _ "if partial_count s \<noteq> 0 then partial_count s else 1"],
        rule exI [of _ "partial_count s \<noteq> 0"])
       (simp add: one_in_flight_pass_def Let_def allowed_prefills_ok partial_count_nonneg split: prod.splits)
  show "sd_max_running (snd (one_in_flight_pass base s)) = sd_max_running s"
    by (auto simp: one_in_flight_pass_def Let_def split: prod.splits)
qed

subsection \<open>The properties of the step\<close>

text \<open>A pass for the witnesses: with a free seat it admits the first waiting request, and while the
  queues are hidden it preempts the last running one.\<close>

definition sample_request :: "string \<Rightarrow> bool \<Rightarrow> int \<Rightarrow> sched_request" where
  "sample_request i partial n = \<lparr>sr_id = i, sr_prefill_chunk = partial, sr_blocked = Inr False,
     sr_num_prompt = Some n, sr_prompt_len = None\<rparr>"

definition sample_pass :: prefill_pass where
  "sample_pass s =
     (if partial_count s \<noteq> 0 \<and> sd_waiting s = [] \<and> sd_running s \<noteq> []
      then (Inr \<lparr>so_total = Some 1, so_finished = sd_finished s\<rparr>,
            s\<lparr>sd_running := butlast (sd_running s), sd_waiting := [last (sd_running s)], sd_finished := {}\<rparr>)
      else if partial_count s = 0 \<and> sd_max_running s > decode_count s \<and> sd_waiting s \<noteq> []
      then (Inr \<lparr>so_total = Some 1, so_finished = sd_finished s\<rparr>,
            s\<lparr>sd_running := sd_running s @ [hd (sd_waiting s)], sd_waiting := tl (sd_waiting s), sd_finished := {}\<rparr>)
      else (Inr \<lparr>so_total = Some 0, so_finished = sd_finished s\<rparr>, s\<lparr>sd_finished := {}\<rparr>))"

lemma mset_butlast_last: "xs \<noteq> [] \<Longrightarrow> add_mset (last xs) (mset (butlast xs)) = mset xs"
  by (metis append_butlast_last_id mset.simps(2) mset_append union_mset_add_mset_right add.right_neutral mset.simps(1))

lemma all_requests_move:
  "all_requests (s\<lparr>sd_finished := f\<rparr>) = all_requests s"
  "sd_waiting s \<noteq> [] \<Longrightarrow> all_requests (s\<lparr>sd_running := sd_running s @ [hd (sd_waiting s)],
     sd_waiting := tl (sd_waiting s)\<rparr>) = all_requests s"
  "sd_waiting s = [] \<Longrightarrow> sd_running s \<noteq> [] \<Longrightarrow> all_requests (s\<lparr>sd_running := butlast (sd_running s),
     sd_waiting := [last (sd_running s)]\<rparr>) = all_requests s"
  using mset_butlast_last [of "sd_running s"]
  by (cases "sd_waiting s"; cases "sd_skipped s"; simp add: all_requests_def add.assoc)+

lemma sample_pass_ok: "pass_ok sample_pass"
  unfolding pass_ok_def
proof (intro allI conjI impI)
  fix s
  show "all_requests (snd (sample_pass s)) = all_requests s"
    by (simp add: sample_pass_def all_requests_move)
  assume "partial_count s = 0"
  then show "int (size (fresh_prompts s (snd (sample_pass s)))) \<le> max 0 (sd_max_running s - decode_count s)"
    by (simp add: sample_pass_def fresh_prompts_def)
qed

lemma append_merge_ok: "merge_ok (\<lambda>q xs. xs @ q)"
  by (simp add: merge_ok_def add.commute)

definition sample_scheduler :: "sched_request list \<Rightarrow> sched_request list \<Rightarrow> scheduler" where
  "sample_scheduler running waiting = \<lparr>sd_running = running, sd_waiting = waiting, sd_skipped = Some [],
     sd_max_running = 4, sd_finished = {}, sd_default_mode = True\<rparr>"

text \<open>C36: one prefill step admits at most one fresh prompt, and none while a partial prefill runs, while
  the lifecycle's gate names a request, or while every seat decodes, whatever the DRAM predicate and
  the pass do, also when the pass raises.\<close>

theorem one_fresh_prompt_per_step:
  assumes "pass_ok original"
    and "schedule_prefill_only original prepend held admits s g = (r, s', g')"
  shows "size (fresh_prompts s s') \<le> 1
    \<and> (partial_count s \<noteq> 0 \<or> held \<noteq> None \<or> sd_max_running s \<le> decode_count s \<longrightarrow> fresh_prompts s s' = {#})"
proof -
  have s': "s' = fst (snd (schedule_prefill_only original prepend held admits s g))" using assms(2) by simp
  have gated: "fresh_prompts s s' = {#}" if "held \<noteq> None"
  proof -
    obtain a hide dh h where d: "gate_decision held admits s g = (Inr (a, hide, dh), h)"
      and "sd_running s' = sd_running (snd (original (capped a hide s)))"
      unfolding s' by (rule schedule_prefill_only_shape) (auto simp: Let_def)
    moreover have hide using gate_decision_sound [OF d] that by blast
    ultimately show ?thesis
      using Diff_eq_empty_iff_mset [THEN iffD2, OF hidden_admits_none [OF assms(1), of a s]]
      by (simp add: fresh_prompts_def)
  qed
  show ?thesis
    using gate.at_most_one [OF assms(1), where ?s = s] gate.none_beside_partial [OF assms(1), where ?s = s]
      gate.none_without_seat [OF assms(1), where ?s = s] gated by (auto simp: s')
qed

lemma one_fresh_prompt_per_step_witness:
  "let s = sample_scheduler [sample_request ''D'' False 10]
              [sample_request ''A'' False 100, sample_request ''B'' False 50];
       (r, s', g') = schedule_prefill_only sample_pass (\<lambda>q xs. xs @ q) None None s gate_init
   in size (fresh_prompts s s') \<le> 1 \<and> map sr_id (sd_running s') = [''D'', ''A''] \<and> map sr_id (sd_waiting s') = [''B'']"
proof -
  define s where "s = sample_scheduler [sample_request ''D'' False 10]
              [sample_request ''A'' False 100, sample_request ''B'' False 50]"
  obtain r s' g' where run: "schedule_prefill_only sample_pass (\<lambda>q xs. xs @ q) None None s gate_init = (r, s', g')"
    by (metis prod_cases3)
  have "map sr_id (sd_running s') = [''D'', ''A''] \<and> map sr_id (sd_waiting s') = [''B'']"
    using run by (auto simp: s_def sample_scheduler_def sample_request_def schedule_prefill_only_def gate_decision_def
        gate_init_def admission_def capped_def restore_queues_def sample_pass_def decode_count_def partial_count_def
        dram_hold_def waiting_capacity_def Let_def log_to_def)
  then show ?thesis
    using one_fresh_prompt_per_step [OF sample_pass_ok run] run unfolding s_def [symmetric] by simp
qed


text \<open>C37: no request is lost by a step: what runs, waits and is skipped afterwards is what did before, and
  the running capacity is restored.\<close>

theorem step_loses_no_request:
  assumes "pass_ok original" and "merge_ok prepend"
    and "schedule_prefill_only original prepend held admits s g = (r, s', g')"
  shows "all_requests s' = all_requests s \<and> sd_max_running s' = sd_max_running s"
  using wrapper_conserves [OF assms(1,2), of held admits s g] gate.capacity_restored [where ?s = s and ?base = original]
    assms(3) by (metis fst_conv snd_conv)

lemma step_loses_no_request_witness:
  "let s = sample_scheduler [sample_request ''P'' True 10, sample_request ''Q'' True 10] [sample_request ''A'' False 100];
       (r, s', g') = schedule_prefill_only sample_pass (\<lambda>q xs. xs @ q) None None s gate_init
   in all_requests s' = all_requests s \<and> map sr_id (sd_waiting s') = [''Q'', ''A'']"
proof -
  define s where "s = sample_scheduler [sample_request ''P'' True 10, sample_request ''Q'' True 10]
                        [sample_request ''A'' False 100]"
  obtain r s' g' where run: "schedule_prefill_only sample_pass (\<lambda>q xs. xs @ q) None None s gate_init = (r, s', g')"
    by (metis prod_cases3)
  have "map sr_id (sd_waiting s') = [''Q'', ''A'']"
    using run by (auto simp: s_def sample_scheduler_def sample_request_def schedule_prefill_only_def gate_decision_def
        gate_init_def admission_def capped_def restore_queues_def sample_pass_def decode_count_def partial_count_def
        dram_hold_def waiting_capacity_def Let_def log_to_def)
  then show ?thesis
    using step_loses_no_request [OF sample_pass_ok append_merge_ok run] run unfolding s_def [symmetric] by simp
qed


text \<open>C40: the older subclass admits one prompt at most too, but the requests its pass put back into a hidden
  queue are gone after the step: they are exactly what is missing.\<close>

theorem one_in_flight_pass_drops_what_is_put_back:
  assumes "pass_ok base" and "partial_count s \<noteq> 0"
    and "base (capped (partial_count s) True s) = (r, s1)"
    and "sd_skipped s \<noteq> None"
  shows "fresh_prompts s (snd (one_in_flight_pass base s)) = {#}
    \<and> all_requests s = all_requests (snd (one_in_flight_pass base s))
        + mset (sd_waiting s1) + mset (case sd_skipped s1 of None \<Rightarrow> [] | Some qs \<Rightarrow> qs)"
proof
  show "fresh_prompts s (snd (one_in_flight_pass base s)) = {#}"
    by (rule older.none_beside_partial [OF assms(1,2)])
  have "all_requests s1 = mset (sd_running s)"
    using assms(1,3) by (metis all_requests_capped pass_ok_def snd_conv)
  then show "all_requests s = all_requests (snd (one_in_flight_pass base s))
        + mset (sd_waiting s1) + mset (case sd_skipped s1 of None \<Rightarrow> [] | Some qs \<Rightarrow> qs)"
    using assms(2-) partial_count_nonneg [of s]
    by (auto simp: one_in_flight_pass_def Let_def allowed_prefills_def all_requests_def ac_simps)
qed

lemma one_in_flight_pass_drops_what_is_put_back_witness:
  "let s = sample_scheduler [sample_request ''P'' True 10, sample_request ''Q'' True 10] [sample_request ''A'' False 100]
   in all_requests s = add_mset (sample_request ''Q'' True 10) (all_requests (snd (one_in_flight_pass sample_pass s)))"
proof -
  define s where "s = sample_scheduler [sample_request ''P'' True 10, sample_request ''Q'' True 10]
                        [sample_request ''A'' False 100]"
  have count: "partial_count s = 2" and skipped: "sd_skipped s \<noteq> None"
    by (simp_all add: s_def sample_scheduler_def sample_request_def partial_count_def decode_count_def)
  obtain r s1 where run: "sample_pass (capped (partial_count s) True s) = (r, s1)" by (cases "sample_pass (capped (partial_count s) True s)")
  have "sd_waiting s1 = [sample_request ''Q'' True 10]" "sd_skipped s1 = Some []"
    using run by (auto simp: s_def sample_scheduler_def sample_request_def sample_pass_def capped_def decode_count_def
        partial_count_def Let_def)
  then show ?thesis
    using one_in_flight_pass_drops_what_is_put_back [OF sample_pass_ok _ run skipped] count
    unfolding s_def [symmetric] by (simp add: Let_def)
qed


subsection \<open>The DRAM hold\<close>

lemma checked_reserve_simp: "checked_reserve r = Inr r' \<longleftrightarrow> 0 \<le> r \<and> r' = r"
  by (auto simp: checked_reserve_def)

lemmas need_defs =
  dram_need_def backstop_need_def parked_need_def parked_backstop_need_def parked_bytes_def
  contiguous_need_def admission_contiguous_need_def checked_reserve_simp rbind_Inr_iff

text \<open>\<open>no_longer a b\<close>: the prompt length a counts no longer than b.\<close>

definition no_longer :: "int option \<Rightarrow> int option \<Rightarrow> bool" where
  "no_longer a b = (\<not> shorter b a)"

lemma no_longer_refl: "no_longer a a"
  by (cases a) (simp_all add: no_longer_def shorter_def)

lemma no_longer_trans: "no_longer a b \<Longrightarrow> no_longer b c \<Longrightarrow> no_longer a c"
  by (cases a; cases b; cases c) (simp_all add: no_longer_def shorter_def)

lemma shorter_no_longer: "shorter a b \<Longrightarrow> no_longer a b"
  by (cases a; cases b) (simp_all add: no_longer_def shorter_def)

lemma longest_from_bounds:
  "no_longer (prompt_tokens best) (prompt_tokens (longest_from best qs))
   \<and> (\<forall>q \<in> set qs. no_longer (prompt_tokens q) (prompt_tokens (longest_from best qs)))"
proof (induction qs arbitrary: best)
  case Nil
  then show ?case by (simp add: no_longer_refl)
next
  case (Cons q qs)
  let ?b = "if shorter (prompt_tokens best) (prompt_tokens q) then q else best"
  have "no_longer (prompt_tokens best) (prompt_tokens ?b)" "no_longer (prompt_tokens q) (prompt_tokens ?b)"
    by (auto simp: no_longer_refl shorter_no_longer) (simp add: no_longer_def)
  moreover have IH: "no_longer (prompt_tokens ?b) (prompt_tokens (longest_from ?b qs))"
      "\<forall>q \<in> set qs. no_longer (prompt_tokens q) (prompt_tokens (longest_from ?b qs))"
    using Cons.IH [of ?b] by blast+
  ultimately have "no_longer (prompt_tokens best) (prompt_tokens (longest_from ?b qs))"
      "no_longer (prompt_tokens q) (prompt_tokens (longest_from ?b qs))"
    by (meson no_longer_trans)+
  then show ?case using IH(2) by (simp only: longest_from.simps list.set insert_iff) blast
qed

lemma longest_from_mem: "longest_from best qs \<in> insert best (set qs)"
proof (induction qs arbitrary: best)
  case (Cons q qs)
  then show ?case
    using Cons.IH [of q] Cons.IH [of best] by (cases "shorter (prompt_tokens best) (prompt_tokens q)") auto
qed simp

lemma binding_request_longest:
  assumes "binding_request cs = Some q"
  shows "q \<in> set cs \<and> (\<forall>c \<in> set cs. no_longer (prompt_tokens c) (prompt_tokens q))"
proof (cases cs)
  case (Cons a as)
  then have "q = longest_from a as" using assms by (simp add: binding_request_def)
  then show ?thesis using longest_from_mem [of a as] longest_from_bounds [of a as] Cons by auto
qed (use assms in \<open>simp add: binding_request_def\<close>)

lemma prefill_transient_mono: "no_longer a b \<Longrightarrow> prefill_transient a \<le> prefill_transient b"
  by (auto simp: no_longer_def shorter_def prefill_transient_def sizes split: option.splits if_splits)

lemma prefill_residue_mono: "no_longer a b \<Longrightarrow> prefill_residue a \<le> prefill_residue b"
  using prefill_transient_mono [of a b] by (simp add: prefill_residue_def)

lemma split_short_fits:
  "split_short free largest need reserve trace (Some c) trace_need = Inr []
    \<longleftrightarrow> 0 \<le> c \<and> need \<le> free - STRANDED_BYTES \<and> c \<le> largest
      \<and> (case trace_need of None \<Rightarrow> True | Some t \<Rightarrow> 0 \<le> t)
      \<and> (case trace of None \<Rightarrow> True | Some b \<Rightarrow> (case trace_need of None \<Rightarrow> TRACE_CONTIGUOUS_BYTES | Some t \<Rightarrow> t) \<le> b)"
  by (cases trace; cases trace_need) (simp_all add: split_short_def not_less linorder_not_less)

lemma split_short_default:
  "split_short free largest need reserve trace None trace_need =
     rbind (contiguous_need reserve) (\<lambda>c. split_short free largest need reserve trace (Some c) trace_need)"
  by (auto simp: split_short_def contiguous_need_def checked_reserve_def sizes)

text \<open>When the predicate says a prompt fits, with the reading it rests on.\<close>

definition fits :: "int \<Rightarrow> (int \<times> int) option \<Rightarrow> dram_read \<Rightarrow> int option \<Rightarrow> bool" where
  "fits reserve terms reading prompt \<longleftrightarrow> 0 \<le> reserve
     \<and> (case terms of
          None \<Rightarrow> engine_build_peak + prefill_transient prompt + reserve \<le> rd_free reading - STRANDED_BYTES
        | Some (rebind, single) \<Rightarrow> 0 \<le> rebind \<and> 0 \<le> single
            \<and> prefill_transient prompt + (rebind + single) + reserve \<le> rd_free reading - STRANDED_BYTES)
     \<and> reserve + LARGEST_BUFFER_BYTES + prefill_residue prompt \<le> rd_largest_free reading
     \<and> (case rd_trace_largest_free reading of None \<Rightarrow> True
        | Some b \<Rightarrow> (case terms of None \<Rightarrow> TRACE_CONTIGUOUS_BYTES | Some (_, single) \<Rightarrow> parked_trace_need single) \<le> b)"

lemma nonneg_sizes:
  "0 \<le> LARGEST_BUFFER_BYTES" "0 \<le> prefill_residue prompt" "0 \<le> parked_trace_need single"
  by (simp_all add: sizes prefill_residue_def parked_trace_need_def)

lemma dram_admits_fits:
  assumes "dram_reading report traces = Some reading"
  shows "(\<exists>d. dram_admits reserve (Inr terms) report traces prompt = Inr (True, d)) \<longleftrightarrow> fits reserve terms reading prompt"
proof -
  have "(\<exists>d. dram_admits reserve (Inr terms) report traces prompt = Inr (True, d))
    \<longleftrightarrow> (\<exists>need contiguous. (case terms of None \<Rightarrow> dram_need prompt reserve
            | Some (rebind, single) \<Rightarrow> parked_need prompt reserve rebind single) = Inr need
         \<and> admission_contiguous_need prompt reserve = Inr contiguous
         \<and> split_short (rd_free reading) (rd_largest_free reading) need reserve (rd_trace_largest_free reading)
             (Some contiguous) (map_option (\<lambda>(_, single). parked_trace_need single) terms) = Inr [])"
    by (auto simp: dram_admits_def assms rbind_Inr_iff)
  also have "\<dots> \<longleftrightarrow> fits reserve terms reading prompt"
    using nonneg_sizes(1,3) nonneg_sizes(2) [of prompt]
    by (cases terms) (auto simp: fits_def split_short_fits need_defs split: option.splits if_splits)
  finally show ?thesis .
qed

lemma fits_antitone: "fits reserve terms reading p \<Longrightarrow> no_longer q p \<Longrightarrow> fits reserve terms reading q"
  using prefill_transient_mono [of q p] prefill_residue_mono [of q p]
  by (cases terms; cases "rd_trace_largest_free reading") (auto simp: fits_def)

text \<open>the request the predicate is asked about binds: when its prompt fits the memory left, so does the
  prompt of every other request the pass may admit in its place.\<close>

lemma binding_prompt_speaks_for_all:
  assumes "binding_request (admission_candidates s) = Some q"
    and "dram_admits reserve parked report traces (prompt_tokens q) = Inr (True, detail)"
    and "c \<in> set (admission_candidates s)"
  shows "\<exists>d. dram_admits reserve parked report traces (prompt_tokens c) = Inr (True, d)"
proof -
  have le: "no_longer (prompt_tokens c) (prompt_tokens q)"
    using binding_request_longest [OF assms(1)] assms(3) by blast
  obtain terms where terms: "parked = Inr terms"
    using assms(2) by (auto simp: dram_admits_def rbind_Inr_iff)
  show ?thesis
  proof (cases "dram_reading report traces")
    case None
    have "\<exists>need. (case terms of None \<Rightarrow> dram_need (prompt_tokens c) reserve
            | Some (rebind, single) \<Rightarrow> parked_need (prompt_tokens c) reserve rebind single) = Inr need"
      using assms(2) unfolding terms
      by (auto simp: dram_admits_def need_defs split: option.splits)
    then show ?thesis unfolding terms by (auto simp: dram_admits_def None)
  next
    case (Some reading)
    then show ?thesis
      using assms(2) fits_antitone [OF _ le] unfolding terms
      by (metis dram_admits_fits)
  qed
qed

text \<open>Two blocked heads of the skipped queue, then a request the pass may admit.\<close>

definition sample_queue :: scheduler where
  "sample_queue = (sample_scheduler [] [sample_request ''C'' False 5000])
     \<lparr>sd_skipped := Some [(sample_request ''A'' False 100)\<lparr>sr_blocked := Inr True\<rparr>,
                        (sample_request ''B'' False 3000)\<lparr>sr_blocked := Inr True\<rparr>]\<rparr>"

lemmas sample_defs = sample_queue_def sample_scheduler_def sample_request_def

lemma sample_queue_candidates:
  "map sr_id (admission_candidates sample_queue) = [''A'', ''B'', ''C'']"
  "binding_request (admission_candidates sample_queue) = Some (sample_request ''C'' False 5000)"
  by (simp_all add: sample_defs admission_candidates_def blocked_def binding_request_def shorter_def prompt_tokens_def)

lemma binding_prompt_speaks_for_all_witness:
  "\<exists>d. dram_admits 0 (Inr None) (Chips [\<lparr>chip_free = 1700000000, chip_largest_free = 500000000\<rparr>]) No_statistics
     (Some 100) = Inr (True, d)"
proof -
  let ?c = "(sample_request ''A'' False 100)\<lparr>sr_blocked := Inr True\<rparr>"
  have "\<exists>d. dram_admits 0 (Inr None) (Chips [\<lparr>chip_free = 1700000000, chip_largest_free = 500000000\<rparr>]) No_statistics
     (prompt_tokens (sample_request ''C'' False 5000)) = Inr (True, d)"
    by (simp add: dram_admits_def need_defs dram_need_def checked_reserve_def contiguous_need_def
        admission_contiguous_need_def dram_reading_def smallest_def split_short_def trace_largest_free_def
        sizes engine_build_peak_def prefill_transient_def prefill_residue_def prompt_tokens_def sample_request_def)
  moreover have "?c \<in> set (admission_candidates sample_queue)"
    by (simp add: sample_defs admission_candidates_def blocked_def)
  ultimately show ?thesis
    using binding_prompt_speaks_for_all [OF sample_queue_candidates(2), where ?c = ?c]
    by (fastforce simp: prompt_tokens_def sample_request_def)
qed

lemma smallest_lower:
  assumes "list_all2 (\<lambda>c c'. f c - k \<le> f c') cs cs'" and "smallest (map f cs) = Some m"
  shows "\<exists>m'. smallest (map f cs') = Some m' \<and> m - k \<le> m'"
proof -
  have ne: "cs \<noteq> []" "cs' \<noteq> []" using assms by (auto simp: smallest_def split: if_splits)
  have "m - k \<le> Min (set (map f cs'))"
  proof (rule Min.boundedI)
    fix a assume "a \<in> set (map f cs')"
    then obtain i where "i < length cs'" "a = f (cs' ! i)" by (auto simp: in_set_conv_nth)
    moreover have "m \<le> f (cs ! i)" if "i < length cs"
      using assms(2) that by (auto simp: smallest_def split: if_splits)
    ultimately show "m - k \<le> a"
      using assms(1) by (fastforce simp: list_all2_conv_all_nth)
  qed (use ne in auto)
  then show ?thesis using ne by (simp add: smallest_def)
qed

lemma smallest_upper:
  assumes "list_all2 (\<lambda>c c'. f c' < f c - k) cs cs'" and "smallest (map f cs) = Some m"
  shows "\<exists>m'. smallest (map f cs') = Some m' \<and> m' < m - k"
proof -
  have ne: "cs \<noteq> []" "cs' \<noteq> []" using assms by (auto simp: smallest_def split: if_splits)
  have "m \<in> set (map f cs)" using assms(2) ne by (auto simp: smallest_def simp del: set_map intro!: Min_in split: if_splits)
  then obtain i where i: "i < length cs" "m = f (cs ! i)" by (auto simp: in_set_conv_nth)
  then have "i < length cs'" "f (cs' ! i) < m - k" using assms(1) by (auto simp: list_all2_conv_all_nth)
  then have "f (cs' ! i) \<in> set (map f cs')" by simp
  then have "Min (set (map f cs')) < m - k" using \<open>f (cs' ! i) < m - k\<close> by (intro le_less_trans [OF Min_le]) simp_all
  then show ?thesis using ne by (simp add: smallest_def)
qed

text \<open>An admission that fit, and the backstop on a later reading, on their terms.\<close>

definition build_need :: "int \<Rightarrow> (int \<times> int) option \<Rightarrow> int" where
  "build_need reserve terms = (case terms of None \<Rightarrow> engine_build_peak | Some (rebind, single) \<Rightarrow> rebind + single) + reserve"

lemma dram_admits_detail:
  assumes "dram_admits reserve (Inr terms) report traces prompt = Inr (True, detail)" and "dd_free detail = Some free"
  obtains reading where "dram_reading report traces = Some reading" and "rd_free reading = free"
    and "dd_need detail = prefill_transient prompt + build_need reserve terms" and "fits reserve terms reading prompt"
proof -
  obtain reading where r: "dram_reading report traces = Some reading" "rd_free reading = free"
    and n: "dd_need detail = prefill_transient prompt + build_need reserve terms"
    using assms
    by (cases terms) (auto simp: dram_admits_def need_defs dram_need_def parked_need_def checked_reserve_def parked_bytes_def
        build_need_def rbind_Inr_iff split: option.splits if_splits)
  then show thesis using that [OF r n] dram_admits_fits [OF r(1)] assms(1) by blast
qed

lemma dram_backstop_fits:
  assumes "fits reserve terms before prompt" and "dram_reading report traces = Some reading"
    and "rd_trace_largest_free reading = rd_trace_largest_free before"
    and "rd_largest_free before - prefill_residue prompt \<le> rd_largest_free reading"
  shows "dram_backstop reserve terms report traces =
    (if build_need reserve terms \<le> rd_free reading - STRANDED_BYTES then Inr (Some (rd_largest_free reading)) else Inl RequestRefused)"
proof -
  have r: "checked_reserve reserve = Inr reserve" using assms(1) by (simp add: fits_def checked_reserve_def)
  have l: "\<not> rd_largest_free reading < reserve + LARGEST_BUFFER_BYTES"
    using assms(1,4) by (simp add: fits_def)
  have b: "(case terms of None \<Rightarrow> backstop_need reserve
      | Some (rebind, single) \<Rightarrow> parked_backstop_need reserve rebind single) = Inr (build_need reserve terms)"
    using assms(1) r by (auto simp: fits_def build_need_def need_defs split: option.splits)
  have "split_short (rd_free reading) (rd_largest_free reading) need reserve (rd_trace_largest_free reading) None
      (map_option (\<lambda>(_, single). parked_trace_need single) terms)
    = Inr (if rd_free reading - STRANDED_BYTES < need then [Free] else [])" for need
    using assms(1,3) l nonneg_sizes(3)
    by (cases terms; cases "rd_trace_largest_free before")
       (auto simp: split_short_def contiguous_need_def r fits_def not_less linorder_not_less)
  then show ?thesis using b by (simp add: dram_backstop_def assms(2) not_less)
qed

text \<open>After an admission whose largest free block held, the backstop asks only for the build in the smallest free memory.\<close>

lemma backstop_of_free:
  assumes "fits reserve terms reading prompt" and "rd_trace_largest_free reading = trace_largest_free traces"
    and "smallest (map chip_largest_free cs') = Some l" and "rd_largest_free reading - prefill_residue prompt \<le> l"
    and "smallest (map chip_free cs') = Some f"
  shows "dram_backstop reserve terms (Chips cs') traces
    = (if build_need reserve terms \<le> f - STRANDED_BYTES then Inr (largest_free (Chips cs')) else Inl RequestRefused)"
proof -
  have "dram_reading (Chips cs') traces = Some \<lparr>rd_free = f, rd_largest_free = l, rd_trace_largest_free = trace_largest_free traces\<rparr>"
    using assms(3,5) by (simp add: dram_reading_def)
  from dram_backstop_fits [OF assms(1) this] show ?thesis using assms(2-4) by (simp add: largest_free_def)
qed

text \<open>C39: what an admission leaves the prefill. Admit a prompt on a reading, and let the prefill take at most its residue
  of each chip's largest block and nothing of the trace region. The allowance of total free memory is the
  prompt's transient - 300 MB from 2048 tokens on, nothing below - and what the reading had beyond the
  need: a prefill that takes no more of every chip is not refused by the backstop, which answers the
  smallest largest block, and one that takes more of every chip is refused. For a long prompt the
  allowance is at least the residue; for a short one it need not be, so a prompt admitted on the very
  need is refused after any prefill that takes free memory, its residue or less. An admission without
  a reading is never refused.\<close>

theorem backstop_after_admission:
  assumes "dram_admits reserve (Inr terms) (Chips cs) traces prompt = Inr (True, detail)"
    and "list_all2 (\<lambda>c c'. chip_largest_free c - prefill_residue prompt \<le> chip_largest_free c') cs cs'"
  shows "case dd_free detail of
      None \<Rightarrow> dram_backstop reserve terms (Chips cs') traces = Inr None
    | Some free \<Rightarrow> (let allowance = prefill_transient prompt + (free - STRANDED_BYTES - dd_need detail) in
        prefill_transient prompt \<le> allowance
        \<and> (prefill_transient prompt \<noteq> 0 \<longrightarrow> prefill_residue prompt \<le> allowance)
        \<and> (list_all2 (\<lambda>c c'. chip_free c - allowance \<le> chip_free c') cs cs'
             \<longrightarrow> dram_backstop reserve terms (Chips cs') traces = Inr (largest_free (Chips cs')))
        \<and> (list_all2 (\<lambda>c c'. chip_free c' < chip_free c - allowance) cs cs'
             \<longrightarrow> dram_backstop reserve terms (Chips cs') traces = Inl RequestRefused))"
proof (cases "dd_free detail")
  case None
  then have "dram_reading (Chips cs) traces = None"
    using assms(1) by (auto simp: dram_admits_def rbind_Inr_iff split: option.splits)
  then have "cs = []" by (auto simp: dram_reading_def smallest_def split: if_splits)
  then have "dram_reading (Chips cs') traces = None"
    using assms(2) by (simp add: dram_reading_def smallest_def)
  then show ?thesis
    using assms(1) None by (cases terms) (auto simp: dram_backstop_def dram_admits_def need_defs)
next
  case (Some free)
  obtain reading where r: "dram_reading (Chips cs) traces = Some reading" "rd_free reading = free"
    and need: "dd_need detail = prefill_transient prompt + build_need reserve terms" and fit: "fits reserve terms reading prompt"
    by (rule dram_admits_detail [OF assms(1) Some])
  have min: "smallest (map chip_free cs) = Some free" "smallest (map chip_largest_free cs) = Some (rd_largest_free reading)"
      "rd_trace_largest_free reading = trace_largest_free traces"
    using r by (auto simp: dram_reading_def split: option.splits)
  obtain l where l: "smallest (map chip_largest_free cs') = Some l" "rd_largest_free reading - prefill_residue prompt \<le> l"
    using smallest_lower [OF assms(2) min(2)] by blast
  note after = backstop_of_free [OF fit min(3) l]
  let ?a = "prefill_transient prompt + (free - STRANDED_BYTES - dd_need detail)"
  have a: "?a = free - STRANDED_BYTES - build_need reserve terms" by (simp add: need)
  have "build_need reserve terms + prefill_transient prompt \<le> free - STRANDED_BYTES"
    using fit r(2) by (cases terms) (auto simp: fits_def build_need_def)
  then have spare: "prefill_transient prompt \<le> ?a" unfolding a by simp
  have "prefill_transient prompt \<noteq> 0 \<longrightarrow> prefill_residue prompt \<le> ?a"
    using spare by (auto simp: prefill_residue_def prefill_transient_def sizes split: if_splits)
  moreover have "dram_backstop reserve terms (Chips cs') traces = Inr (largest_free (Chips cs'))"
    if p: "list_all2 (\<lambda>c c'. chip_free c - ?a \<le> chip_free c') cs cs'"
  proof -
    obtain f where "smallest (map chip_free cs') = Some f" "free - ?a \<le> f" using smallest_lower [OF p min(1)] by blast
    then show ?thesis using after [of f] unfolding a by simp
  qed
  moreover have "dram_backstop reserve terms (Chips cs') traces = Inl RequestRefused"
    if p: "list_all2 (\<lambda>c c'. chip_free c' < chip_free c - ?a) cs cs'"
  proof -
    obtain f where "smallest (map chip_free cs') = Some f" "f < free - ?a" using smallest_upper [OF p min(1)] by blast
    then show ?thesis using after [of f] unfolding a by simp
  qed
  ultimately show ?thesis using Some spare unfolding Let_def by simp
qed

text \<open>A 100-token prompt admitted at exactly its need: its prefill takes 50 MB, half the residue, and is refused.\<close>

theorem backstop_after_admission_witness:
  "\<exists>d. dram_admits 0 (Inr None) (Chips [\<lparr>chip_free = 1300000000, chip_largest_free = 300000000\<rparr>]) No_statistics (Some 100)
       = Inr (True, d)
     \<and> dram_backstop 0 None (Chips [\<lparr>chip_free = 1250000000, chip_largest_free = 250000000\<rparr>]) No_statistics = Inl RequestRefused"
proof -
  obtain d where d: "dram_admits 0 (Inr None) (Chips [\<lparr>chip_free = 1300000000, chip_largest_free = 300000000\<rparr>]) No_statistics
      (Some 100) = Inr (True, d)" "dd_free d = Some 1300000000" "dd_need d = 1000000000"
    by (simp add: dram_admits_def dram_need_def checked_reserve_def contiguous_need_def
        admission_contiguous_need_def dram_reading_def smallest_def split_short_def trace_largest_free_def
        sizes engine_build_peak_def prefill_transient_def prefill_residue_def)
  have "list_all2 (\<lambda>c c'. chip_largest_free c - prefill_residue (Some 100) \<le> chip_largest_free c')
      [\<lparr>chip_free = 1300000000, chip_largest_free = 300000000\<rparr>] [\<lparr>chip_free = 1250000000, chip_largest_free = 250000000\<rparr>]"
    by (simp add: prefill_residue_def prefill_transient_def sizes)
  from backstop_after_admission [OF d(1) this] d show ?thesis
    by (simp add: Let_def prefill_transient_def sizes)
qed

lemma dram_hold_reason:
  assumes "fst (dram_hold admits s decodes g)"
  shows "(decodes \<noteq> 0 \<or> finished_since_last_step s \<noteq> []) \<and>
    (\<exists>p q d. admits = Some p \<and> binding_request (admission_candidates s) = Some q
       \<and> p (prompt_tokens q) = Inr (False, d) \<and> dd_largest_free d \<noteq> None)"
proof -
  obtain p where p: "admits = Some p" using assms by (cases admits) (simp_all add: dram_hold_def)
  obtain q where q: "binding_request (admission_candidates s) = Some q"
    using assms p by (cases "binding_request (admission_candidates s)") (simp_all add: dram_hold_def)
  obtain ok d where d: "p (prompt_tokens q) = Inr (ok, d)"
    using assms p q by (cases "p (prompt_tokens q)") (auto simp: dram_hold_def Let_def)
  have "dd_largest_free d \<noteq> None" "\<not> ok"
    using assms p q d by (auto simp: dram_hold_def Let_def split: if_splits)
  moreover from this have "decodes \<noteq> 0 \<or> finished_since_last_step s \<noteq> []"
    using assms p q d by (auto simp: dram_hold_def Let_def split: if_splits)
  ultimately show ?thesis using p q d by auto
qed

text \<open>C38: the hold never stops the engine: a step is held for the device memory only when the predicate read
  the memory and refused the binding prompt, and a decode still runs or an engine is about to be
  freed. With neither, and no partial and no held gate, the pass sees the queues and may admit one.\<close>

theorem dram_hold_never_stalls:
  assumes "gate_decision held admits s g = (Inr (allowed, hide, dram_held), g')"
  shows "(dram_held \<longrightarrow> (decode_count s \<noteq> 0 \<or> sd_finished s \<noteq> {})
      \<and> (\<exists>p q d. admits = Some p \<and> binding_request (admission_candidates s) = Some q
           \<and> p (prompt_tokens q) = Inr (False, d)))
    \<and> (decode_count s = 0 \<and> sd_finished s = {} \<and> partial_count s = 0 \<and> held = None
         \<longrightarrow> (allowed, hide, dram_held) = (1, False, False))"
proof -
  have hold: "dram_held \<Longrightarrow> fst (dram_hold admits s (decode_count s) g)"
    using assms by (auto simp: gate_decision_def Let_def split: sum.splits prod.splits if_splits)
  have fin: "finished_since_last_step s \<noteq> [] \<Longrightarrow> sd_finished s \<noteq> {}"
    by (auto simp: finished_since_last_step_def)
  have "dram_held \<longrightarrow> (decode_count s \<noteq> 0 \<or> sd_finished s \<noteq> {})
      \<and> (\<exists>p q d. admits = Some p \<and> binding_request (admission_candidates s) = Some q
           \<and> p (prompt_tokens q) = Inr (False, d))"
    using dram_hold_reason [OF hold] fin by blast
  moreover have "decode_count s = 0 \<and> sd_finished s = {} \<and> partial_count s = 0 \<and> held = None \<and> \<not> dram_held
      \<longrightarrow> (allowed, hide) = (1, False)"
    using assms by (auto simp: gate_decision_def admission_def Let_def split: prod.splits if_splits)
  ultimately show ?thesis by blast
qed

definition tight_memory :: "int option \<Rightarrow> (bool \<times> dram_detail) result" where
  "tight_memory = dram_admits 0 (Inr None) (Chips [\<lparr>chip_free = 900000000, chip_largest_free = 300000000\<rparr>]) No_statistics"

lemma tight_memory_refuses:
  "\<exists>d. tight_memory (Some n) = Inr (False, d) \<and> dd_largest_free d = Some 300000000"
  by (simp add: tight_memory_def dram_admits_def dram_need_def checked_reserve_def contiguous_need_def
        admission_contiguous_need_def dram_reading_def smallest_def split_short_def trace_largest_free_def
        sizes engine_build_peak_def prefill_transient_def prefill_residue_def)

definition tight_scheduler :: scheduler where
  "tight_scheduler = (sample_scheduler [sample_request ''D'' False 10] [sample_request ''A'' False 100])
     \<lparr>sd_finished := {''X''}\<rparr>"

lemma tight_decision:
  "\<exists>g'. gate_decision None (Some tight_memory) tight_scheduler gate_init = (Inr (0, True, True), g')"
  using tight_memory_refuses [of 100]
  by (auto simp: gate_decision_def admission_def tight_scheduler_def sample_defs decode_count_def partial_count_def
      waiting_capacity_def dram_hold_def admission_candidates_def blocked_def binding_request_def prompt_tokens_def
      finished_since_last_step_def note_once_def Let_def)

lemma dram_hold_never_stalls_witness:
  "\<exists>d. tight_memory (Some 100) = Inr (False, d)"
proof -
  obtain g' where d: "gate_decision None (Some tight_memory) tight_scheduler gate_init = (Inr (0, True, True), g')"
    using tight_decision by blast
  have b: "binding_request (admission_candidates tight_scheduler) = Some (sample_request ''A'' False 100)"
    by (simp add: tight_scheduler_def sample_defs admission_candidates_def blocked_def binding_request_def)
  show ?thesis
    using dram_hold_never_stalls [OF d] b by (auto simp: prompt_tokens_def sample_request_def)
qed

text \<open>a step held for the device memory loses no finished request id: when the pass scheduled nothing
  beside a running decode, so that the plugin discards it, every id it took is back in the scheduler,
  and the decode-only pass names it.\<close>

lemma held_step_keeps_finished_ids:
  assumes "gate_decision held admits s g = (Inr (allowed, True, True), g1)"
    and "original (capped allowed True s) = (Inr out, s1)"
    and "sd_finished s \<subseteq> so_finished out \<union> sd_finished s1"
    and "so_total out = Some 0" and "decode_count s \<noteq> 0" and "sd_default_mode s1"
    and "schedule_prefill_only original prepend held admits s g = (r, s', g')"
  shows "sd_finished s \<subseteq> sd_finished s'"
proof -
  have keep: "sd_finished (restore_queues prepend True s s1) = sd_finished s1"
      "sd_default_mode (restore_queues prepend True s s1) = sd_default_mode s1"
    by (auto simp: restore_queues_def Let_def)
  show ?thesis
    using assms keep
    by (auto simp: schedule_prefill_only_def Let_def carry_finished_def split: if_splits)
qed

lemma held_step_keeps_finished_ids_witness:
  "{''X''} \<subseteq> sd_finished (fst (snd (schedule_prefill_only sample_pass (\<lambda>q xs. xs @ q) None (Some tight_memory)
     tight_scheduler gate_init)))"
proof -
  obtain g' where d: "gate_decision None (Some tight_memory) tight_scheduler gate_init = (Inr (0, True, True), g')"
    using tight_decision by blast
  define out s1 where out_def: "out = \<lparr>so_total = Some 0, so_finished = {''X''}\<rparr>"
    and s1_def: "s1 = snd (sample_pass (capped 0 True tight_scheduler))"
  have run: "sample_pass (capped 0 True tight_scheduler) = (Inr out, s1)" and s1: "sd_default_mode s1"
    by (simp_all add: out_def s1_def sample_pass_def capped_def tight_scheduler_def sample_defs decode_count_def
        partial_count_def Let_def)
  have out: "so_total out = Some 0" "so_finished out = {''X''}" by (simp_all add: out_def)
  obtain r s' h where step: "schedule_prefill_only sample_pass (\<lambda>q xs. xs @ q) None (Some tight_memory)
     tight_scheduler gate_init = (r, s', h)" by (metis prod_cases3)
  have fin: "sd_finished tight_scheduler = {''X''}" "decode_count tight_scheduler \<noteq> 0"
    by (simp_all add: tight_scheduler_def sample_defs decode_count_def)
  show ?thesis
    using held_step_keeps_finished_ids [OF d run _ out(1) fin(2) s1 step] out(2) fin(1) step by simp
qed

end
