(* ===== verification/CapturePlan.thy ===== *)
theory CapturePlan
  imports Prelude "HOL-Library.Multiset"
begin

text \<open>
  Which verify widths a request's engine captures and where: \<open>capture_widths\<close> and
  \<open>capture_bucket_rows\<close> of \<open>scripts/ci/verifier_engine.py\<close>, and the replay plan of
  \<open>scripts/ci/attention_request_plan.py\<close> with \<open>validate_ticket\<close> of
  \<open>scripts/ci/attention_mask_replay.py\<close>. The environment switches \<open>validate_ticket\<close> reads are an
  argument.
\<close>

definition VERIFY_WIDTHS :: "int list" where "VERIFY_WIDTHS = [1, 2, 4, 8, 16, 32, 64]"
definition BLOCK_WIDTHS :: "int list" where "BLOCK_WIDTHS = [16, 32, 64]"

definition capture_widths :: "int \<Rightarrow> int \<Rightarrow> int \<Rightarrow> int \<Rightarrow> int \<Rightarrow> int list result" where
  "capture_widths position capacity verifier_rows remaining max_verify_rows =
     (if max_verify_rows \<notin> set VERIFY_WIDTHS then Inl ValueError
      else if position < 0 \<or> remaining < 1 \<or> position + remaining > capacity \<or> verifier_rows \<notin> set BLOCK_WIDTHS
        then Inl ValueError
      else Inr (filter (\<lambda>rows. rows \<le> min (min verifier_rows remaining) max_verify_rows) VERIFY_WIDTHS))"

definition capture_bucket_rows :: "int \<Rightarrow> int \<Rightarrow> int \<Rightarrow> int list result" where
  "capture_bucket_rows verifier_rows remaining max_verify_rows =
     (if remaining < 1 then Inl ValueError
      else rbind (capture_widths 0 remaining verifier_rows remaining max_verify_rows) (\<lambda>widths.
        let families = (remaining + 254) div 256 + 1
        in Inr (filter (\<lambda>rows. rows < 8) widths
             @ concat (map (\<lambda>rows. replicate (nat (min families (remaining div rows))) rows)
                        (filter (\<lambda>rows. rows \<ge> 8) widths)))))"

record replay_env =
  context_ladder_sim :: bool
  sim_only :: bool
  hardware_tests :: bool
  cards_allocated :: bool

definition ladder_capacities :: "int list" where
  "ladder_capacities = map (\<lambda>context. context + 256) [2048, 4096, 8192, 16384, 32768, 65536, 131072, 262144]"

definition validate_ticket :: "replay_env \<Rightarrow> int \<Rightarrow> int \<Rightarrow> int \<Rightarrow> bool \<Rightarrow> unit result" where
  "validate_ticket env start rows capacity short_context =
     rbind (if context_ladder_sim env
            then (if \<not> sim_only env \<or> short_context \<or> hardware_tests env \<or> cards_allocated env then Inl ValueError
                  else if capacity \<notin> set ladder_capacities then Inl ValueError
                  else Inr (2304, 262400))
            else Inr (if short_context then (256, 768) else (4096, 16640))) (\<lambda>(minimum, maximum).
     if \<not> (1 \<le> rows \<and> rows \<le> 32) \<or> capacity < minimum \<or> capacity > maximum \<or> capacity mod 256 \<noteq> 0
       then Inl ValueError
     else if short_context \<and> rows \<noteq> 8 then Inl ValueError
     else (let first = (if short_context then max 128 (capacity - 256) else capacity - 256)
           in if start < first \<or> start + rows > capacity then Inl ValueError else Inr ()))"

record capture =
  cp_rows :: int
  cp_position :: int
  cp_capacity :: "int option"

definition capture_key :: "capture \<Rightarrow> int \<times> int option" where
  "capture_key c = (cp_rows c, cp_capacity c)"

record replay_plan =
  rp_start :: int
  rp_stop :: int
  rp_captures :: "capture list"

definition plan_available :: "replay_plan \<Rightarrow> int \<Rightarrow> int \<Rightarrow> capture list result" where
  "plan_available plan position remaining =
     (if \<not> (rp_start plan \<le> position \<and> position < rp_stop plan)
         \<or> \<not> (1 \<le> remaining \<and> remaining \<le> rp_stop plan - position) then Inl ValueError
      else
        (let family = (position div 256 + 1) * 256
         in Inr (filter (\<lambda>c. cp_rows c \<le> remaining
                   \<and> (cp_capacity c = None \<or> (cp_capacity c = Some family \<and> position + cp_rows c \<le> family)))
                 (rp_captures plan))))"

definition plan_max_rows :: "replay_plan \<Rightarrow> int \<Rightarrow> int \<Rightarrow> int result" where
  "plan_max_rows plan position remaining =
     rbind (plan_available plan position remaining) (\<lambda>cs.
       if cs = [] then Inl ValueError else Inr (Max (set (map cp_rows cs))))"

definition plan_select :: "replay_plan \<Rightarrow> int \<Rightarrow> int \<Rightarrow> int \<Rightarrow> capture result" where
  "plan_select plan position rows remaining =
     rbind (plan_available plan position remaining) (\<lambda>cs.
       case filter (\<lambda>c. cp_rows c = rows) cs of [c] \<Rightarrow> Inr c | _ \<Rightarrow> Inl ValueError)"

text \<open>The captures of one family: the widths of at least eight rows that fit its share of the budget.\<close>

fun family_captures ::
  "replay_env \<Rightarrow> bool \<Rightarrow> int \<Rightarrow> int \<Rightarrow> int \<Rightarrow> int list \<Rightarrow> capture list result" where
  "family_captures env short_context first last_end capacity [] = Inr []"
| "family_captures env short_context first last_end capacity (rows # widths) =
     (if rows < 8 \<or> first + rows > last_end
      then family_captures env short_context first last_end capacity widths
      else rbind (validate_ticket env first rows capacity short_context) (\<lambda>_.
           rbind (family_captures env short_context first last_end capacity widths) (\<lambda>cs.
           Inr (\<lparr>cp_rows = rows, cp_position = first, cp_capacity = Some capacity\<rparr> # cs))))"

fun families_captures ::
  "replay_env \<Rightarrow> bool \<Rightarrow> int \<Rightarrow> int \<Rightarrow> int list \<Rightarrow> int list \<Rightarrow> capture list result" where
  "families_captures env short_context position stop widths [] = Inr []"
| "families_captures env short_context position stop widths (capacity # capacities) =
     rbind (family_captures env short_context (max position (capacity - 256)) (min stop capacity) capacity widths) (\<lambda>cs.
     rbind (families_captures env short_context position stop widths capacities) (\<lambda>ds. Inr (cs @ ds)))"

definition plan_capacities :: "int \<Rightarrow> int \<Rightarrow> int list" where
  "plan_capacities position stop =
     py_range ((position div 256 + 1) * 256) (((stop - 1) div 256 + 1) * 256 + 1) 256"

definition capture_plan ::
  "replay_env \<Rightarrow> int \<Rightarrow> int \<Rightarrow> int \<Rightarrow> int \<Rightarrow> int \<Rightarrow> bool \<Rightarrow> replay_plan result" where
  "capture_plan env position page_capacity verifier_rows remaining max_verify_rows short_context =
     rbind (capture_widths position page_capacity verifier_rows remaining max_verify_rows) (\<lambda>widths.
     (let stop = position + remaining
      in if short_context \<and> (max_verify_rows \<noteq> 8 \<or> position < 128 \<or> stop > 768) then Inl ValueError
         else rbind (families_captures env short_context position stop widths (plan_capacities position stop)) (\<lambda>wide.
           (let captures = map (\<lambda>rows. \<lparr>cp_rows = rows, cp_position = position, cp_capacity = None\<rparr>)
                             (filter (\<lambda>rows. rows < 8) widths) @ wide
            in if \<not> distinct (map capture_key captures) then Inl AssertionError
               else Inr \<lparr>rp_start = position, rp_stop = stop, rp_captures = captures\<rparr>))))"

subsection \<open>The shape of a plan\<close>

lemma capture_widths_Inr:
  "capture_widths p cap vr rem mx = Inr ws \<longleftrightarrow> mx \<in> set VERIFY_WIDTHS \<and> 0 \<le> p \<and> 1 \<le> rem \<and> p + rem \<le> cap
     \<and> vr \<in> set BLOCK_WIDTHS \<and> ws = filter (\<lambda>rows. rows \<le> min (min vr rem) mx) VERIFY_WIDTHS"
  by (auto simp: capture_widths_def)

lemma capture_widths_one: "capture_widths p cap vr rem mx = Inr ws \<Longrightarrow> 1 \<in> set ws \<and> distinct ws \<and> (\<forall>w \<in> set ws. 0 < w)"
proof -
  assume "capture_widths p cap vr rem mx = Inr ws"
  then have mx: "mx \<in> set VERIFY_WIDTHS" and vr: "vr \<in> set BLOCK_WIDTHS" and rem: "1 \<le> rem"
    and ws: "ws = filter (\<lambda>rows. rows \<le> min (min vr rem) mx) VERIFY_WIDTHS"
    by (simp_all add: capture_widths_Inr)
  have "1 \<le> mx" using mx by (auto simp: VERIFY_WIDTHS_def)
  moreover have "1 \<le> vr" using vr by (auto simp: BLOCK_WIDTHS_def)
  ultimately have "1 \<le> min (min vr rem) mx" using rem by simp
  moreover have "distinct VERIFY_WIDTHS" "\<forall>w \<in> set VERIFY_WIDTHS. 0 < w" "1 \<in> set VERIFY_WIDTHS"
    by (simp_all add: VERIFY_WIDTHS_def)
  ultimately show ?thesis unfolding ws by simp
qed

lemma family_captures_Inr:
  "family_captures env sc first stop capacity ws = Inr cs \<Longrightarrow>
     cs = map (\<lambda>rows. \<lparr>cp_rows = rows, cp_position = first, cp_capacity = Some capacity\<rparr>)
            (filter (\<lambda>rows. 8 \<le> rows \<and> first + rows \<le> stop) ws)"
  by (induction ws arbitrary: cs) (auto simp: rbind_Inr_iff split: if_splits)

lemma families_captures_Inr:
  "families_captures env sc position stop ws capacities = Inr cs \<Longrightarrow>
     cs = concat (map (\<lambda>capacity. map (\<lambda>rows. \<lparr>cp_rows = rows, cp_position = max position (capacity - 256),
              cp_capacity = Some capacity\<rparr>)
            (filter (\<lambda>rows. 8 \<le> rows \<and> max position (capacity - 256) + rows \<le> min stop capacity) ws)) capacities)"
  by (induction capacities arbitrary: cs) (auto simp: rbind_Inr_iff dest: family_captures_Inr)

lemma capture_plan_Inr:
  assumes "capture_plan env position page_capacity verifier_rows remaining max_verify_rows sc = Inr plan"
  obtains ws where "capture_widths position page_capacity verifier_rows remaining max_verify_rows = Inr ws"
    and "rp_start plan = position" and "rp_stop plan = position + remaining"
    and "distinct (map capture_key (rp_captures plan))"
    and "rp_captures plan = map (\<lambda>rows. \<lparr>cp_rows = rows, cp_position = position, cp_capacity = None\<rparr>)
                              (filter (\<lambda>rows. rows < 8) ws)
      @ concat (map (\<lambda>capacity. map (\<lambda>rows. \<lparr>cp_rows = rows, cp_position = max position (capacity - 256),
              cp_capacity = Some capacity\<rparr>)
            (filter (\<lambda>rows. 8 \<le> rows \<and> max position (capacity - 256) + rows \<le> min (position + remaining) capacity) ws))
          (plan_capacities position (position + remaining)))"
  using assms by (auto simp: capture_plan_def rbind_Inr_iff Let_def split: if_splits dest!: families_captures_Inr)

subsection \<open>Every ticket of the budget has a bucket\<close>

lemma capture_rows_capacity:
  assumes "capture_plan env p page_capacity vr rem mx sc = Inr plan" and "c \<in> set (rp_captures plan)"
  shows "(cp_rows c < 8 \<longleftrightarrow> cp_capacity c = None) \<and> 0 < cp_rows c"
proof -
  obtain ws where "capture_widths p page_capacity vr rem mx = Inr ws"
    and shape: "rp_captures plan = map (\<lambda>rows. \<lparr>cp_rows = rows, cp_position = p, cp_capacity = None\<rparr>)
                              (filter (\<lambda>rows. rows < 8) ws)
      @ concat (map (\<lambda>capacity. map (\<lambda>rows. \<lparr>cp_rows = rows, cp_position = max p (capacity - 256),
              cp_capacity = Some capacity\<rparr>)
            (filter (\<lambda>rows. 8 \<le> rows \<and> max p (capacity - 256) + rows \<le> min (p + rem) capacity) ws))
          (plan_capacities p (p + rem)))"
    using assms(1) by (rule capture_plan_Inr) blast
  then have "\<forall>w \<in> set ws. 0 < w" using capture_widths_one by blast
  then show ?thesis using assms(2) unfolding shape by auto
qed

lemma distinct_constant_length: "distinct xs \<Longrightarrow> (\<And>x. x \<in> set xs \<Longrightarrow> x = k) \<Longrightarrow> length xs \<le> 1"
  by (cases xs; cases "tl xs") auto

lemma singleton_of_filter:
  assumes "distinct (map f xs)" and "x \<in> set xs" and "P x" and "\<And>y. y \<in> set xs \<Longrightarrow> P y \<Longrightarrow> f y = f x"
  shows "filter P xs = [x]"
proof -
  have "distinct (map f (filter P xs))" using assms(1) distinct_map_filter by blast
  then have "length (map f (filter P xs)) \<le> 1"
    by (rule distinct_constant_length) (use assms(4) in auto)
  moreover have "x \<in> set (filter P xs)" using assms(2,3) by simp
  ultimately show ?thesis by (cases "filter P xs") auto
qed

text \<open>The tickets a request may issue: a captured width within the budget left, and for the block widths one that
  ends inside the 256-token family its position is in.\<close>

definition ticket_fits :: "int list \<Rightarrow> int \<Rightarrow> int \<Rightarrow> int \<Rightarrow> bool" where
  "ticket_fits widths position remaining rows \<longleftrightarrow> rows \<in> set widths \<and> rows \<le> remaining
     \<and> (rows < 8 \<or> position + rows \<le> (position div 256 + 1) * 256)"

lemma plan_capacities_eq:
  assumes "0 < remaining"
  shows "plan_capacities position (position + remaining) =
    map (\<lambda>i. (position div 256 + 1 + int i) * 256)
      [0..<nat ((position + remaining - 1) div 256 - position div 256 + 1)]"
proof -
  have "(((position + remaining - 1) div 256 + 1) * 256 + 1 - (position div 256 + 1) * 256 + 256 - 1) div 256
     = (position + remaining - 1) div 256 - position div 256 + 1" by simp
  then show ?thesis by (simp add: plan_capacities_def py_range_def algebra_simps)
qed

lemma plan_capacities_family:
  assumes "start \<le> position" and "position < start + budget"
  shows "(position div 256 + 1) * 256 \<in> set (plan_capacities start (start + budget))"
proof -
  define i where "i = nat (position div 256 - start div 256)"
  have "start div 256 \<le> position div 256" "position div 256 \<le> (start + budget - 1) div 256"
    using assms by (auto intro: zdiv_mono1)
  then have i: "(position div 256 + 1) * 256 = (start div 256 + 1 + int i) * 256"
      "i < nat ((start + budget - 1) div 256 - start div 256 + 1)"
    by (simp_all add: i_def)
  have "0 < budget" using assms by simp
  show ?thesis unfolding plan_capacities_eq [OF \<open>0 < budget\<close>] i(1) using i(2) by auto
qed

text \<open>The rows of the buckets a plan offers at a position are exactly the tickets that fit.\<close>

lemma plan_available_rows:
  assumes "capture_plan env start page_capacity verifier_rows budget max_rows sc = Inr plan"
    and "capture_widths start page_capacity verifier_rows budget max_rows = Inr widths"
    and "start \<le> position" and "position < start + budget"
  obtains cs where "plan_available plan position (start + budget - position) = Inr cs"
    and "cp_rows ` set cs = {rows. ticket_fits widths position (start + budget - position) rows}"
    and "distinct (map capture_key cs)"
    and "\<And>c. c \<in> set cs \<Longrightarrow> c \<in> set (rp_captures plan)
      \<and> cp_capacity c = (if cp_rows c < 8 then None else Some ((position div 256 + 1) * 256))"
proof -
  define family where "family = (position div 256 + 1) * 256"
  define left where "left = start + budget - position"
  have plan: "rp_start plan = start" "rp_stop plan = start + budget" "distinct (map capture_key (rp_captures plan))"
    and shape: "rp_captures plan = map (\<lambda>rows. \<lparr>cp_rows = rows, cp_position = start, cp_capacity = None\<rparr>)
                              (filter (\<lambda>rows. rows < 8) widths)
      @ concat (map (\<lambda>capacity. map (\<lambda>rows. \<lparr>cp_rows = rows, cp_position = max start (capacity - 256),
              cp_capacity = Some capacity\<rparr>)
            (filter (\<lambda>rows. 8 \<le> rows \<and> max start (capacity - 256) + rows \<le> min (start + budget) capacity) widths))
          (plan_capacities start (start + budget)))"
    using assms(1,2) by (auto elim!: capture_plan_Inr)
  define cs where "cs = filter (\<lambda>c. cp_rows c \<le> left
      \<and> (cp_capacity c = None \<or> (cp_capacity c = Some family \<and> position + cp_rows c \<le> family))) (rp_captures plan)"
  have "plan_available plan position left = Inr cs"
    using assms(3,4) by (simp add: plan_available_def plan Let_def cs_def left_def family_def)
  moreover have "cp_rows ` set cs = {rows. ticket_fits widths position left rows}"
  proof (rule set_eqI)
    fix rows
    have low: "max start (family - 256) \<le> position" using assms(3) by (simp add: family_def)
    have fam: "family \<in> set (plan_capacities start (start + budget))"
      unfolding family_def using assms(3,4) by (rule plan_capacities_family)
    show "rows \<in> cp_rows ` set cs \<longleftrightarrow> rows \<in> {rows. ticket_fits widths position left rows}"
    proof
      assume "rows \<in> cp_rows ` set cs"
      then show "rows \<in> {rows. ticket_fits widths position left rows}"
        by (auto simp: cs_def shape ticket_fits_def family_def)
    next
      assume "rows \<in> {rows. ticket_fits widths position left rows}"
      then have fits: "rows \<in> set widths" "rows \<le> left" "rows < 8 \<or> position + rows \<le> family"
        by (simp_all add: ticket_fits_def family_def)
      have "(if rows < 8 then \<lparr>cp_rows = rows, cp_position = start, cp_capacity = None\<rparr>
           else \<lparr>cp_rows = rows, cp_position = max start (family - 256), cp_capacity = Some family\<rparr>) \<in> set cs"
        using fits low fam by (auto simp: cs_def shape left_def image_iff)
      then show "rows \<in> cp_rows ` set cs" by (force split: if_splits)
    qed
  qed
  moreover have "distinct (map capture_key cs)" using plan(3) by (simp add: cs_def distinct_map_filter)
  moreover have "c \<in> set (rp_captures plan) \<and> cp_capacity c = (if cp_rows c < 8 then None else Some family)"
    if "c \<in> set cs" for c
    using that capture_rows_capacity [OF assms(1), of c] by (auto simp: cs_def)
  ultimately show ?thesis using that unfolding left_def family_def by blast
qed

text \<open>A captured family's mask serves every position of the family the request reaches.\<close>

lemma family_captures_valid:
  assumes "family_captures env sc first stop capacity ws = Inr cs" and "c \<in> set cs"
  shows "validate_ticket env first (cp_rows c) capacity sc = Inr ()"
  using assms by (induction ws arbitrary: cs) (auto simp: rbind_Inr_iff split: if_splits)

lemma families_captures_valid:
  assumes "families_captures env sc position stop ws capacities = Inr cs" and "c \<in> set cs"
    and "cp_capacity c = Some capacity"
  shows "validate_ticket env (max position (capacity - 256)) (cp_rows c) capacity sc = Inr ()"
  using assms
proof (induction capacities arbitrary: cs)
  case (Cons a capacities)
  then obtain as bs where parts: "family_captures env sc (max position (a - 256)) (min stop a) a ws = Inr as"
    "families_captures env sc position stop ws capacities = Inr bs" "cs = as @ bs"
    by (auto simp: rbind_Inr_iff)
  show ?case
  proof (cases "c \<in> set as")
    case True
    then have "cp_capacity c = Some a" using family_captures_Inr [OF parts(1)] by auto
    then show ?thesis using family_captures_valid [OF parts(1) True] Cons.prems(3) by simp
  next
    case False
    then show ?thesis using Cons.IH [OF parts(2)] Cons.prems parts(3) by auto
  qed
qed simp

lemma validate_ticket_later:
  assumes "validate_ticket env first rows capacity sc = Inr ()" and "first \<le> position" and "position + rows \<le> capacity"
  shows "validate_ticket env position rows capacity sc = Inr ()"
  using assms by (auto simp: validate_ticket_def rbind_Inr_iff Let_def split: if_splits)

lemma capture_plan_valid:
  assumes "capture_plan env start page_capacity verifier_rows budget max_rows sc = Inr plan"
    and "c \<in> set (rp_captures plan)" and "cp_capacity c = Some capacity"
  shows "validate_ticket env (max start (capacity - 256)) (cp_rows c) capacity sc = Inr ()"
  using assms by (auto simp: capture_plan_def rbind_Inr_iff Let_def split: if_splits
      intro: families_captures_valid)

text \<open>C16: at every position of the request's budget the plan serves exactly the tickets that fit there: a width
  that fits selects its one captured bucket, for a block width the bucket of the position's own mask family, whose
  mask is valid for that ticket; a width that does not fit - one not captured, one past the budget, or a block width
  crossing the family's end - is refused; and the widest ticket the plan reports is the largest that fits.\<close>

theorem plan_serves_fitting_tickets:
  assumes "capture_plan env start page_capacity verifier_rows budget max_rows sc = Inr plan"
    and "capture_widths start page_capacity verifier_rows budget max_rows = Inr widths"
    and "start \<le> position" and "position < start + budget"
  shows "(\<forall>rows. if ticket_fits widths position (start + budget - position) rows
      then \<exists>c \<in> set (rp_captures plan). plan_select plan position rows (start + budget - position) = Inr c
        \<and> cp_rows c = rows \<and> cp_capacity c = (if rows < 8 then None else Some ((position div 256 + 1) * 256))
        \<and> (8 \<le> rows \<longrightarrow> validate_ticket env position rows ((position div 256 + 1) * 256) sc = Inr ())
      else plan_select plan position rows (start + budget - position) = Inl ValueError)
    \<and> plan_max_rows plan position (start + budget - position)
      = Inr (Max {rows. ticket_fits widths position (start + budget - position) rows})"
proof (intro conjI allI)
  let ?left = "start + budget - position" and ?family = "(position div 256 + 1) * 256"
  obtain cs where cs: "plan_available plan position ?left = Inr cs"
      "cp_rows ` set cs = {rows. ticket_fits widths position ?left rows}" "distinct (map capture_key cs)"
    and each: "\<And>c. c \<in> set cs \<Longrightarrow> c \<in> set (rp_captures plan)
      \<and> cp_capacity c = (if cp_rows c < 8 then None else Some ?family)"
    using assms by (rule plan_available_rows) blast
  have "ticket_fits widths position ?left 1"
    using capture_widths_one [OF assms(2)] assms(4) by (simp add: ticket_fits_def)
  then have "cs \<noteq> []" using cs(2) by fastforce
  then show "plan_max_rows plan position ?left = Inr (Max {rows. ticket_fits widths position ?left rows})"
    by (simp add: plan_max_rows_def cs(1) flip: cs(2))
  fix rows
  show "if ticket_fits widths position ?left rows
      then \<exists>c \<in> set (rp_captures plan). plan_select plan position rows ?left = Inr c
        \<and> cp_rows c = rows \<and> cp_capacity c = (if rows < 8 then None else Some ?family)
        \<and> (8 \<le> rows \<longrightarrow> validate_ticket env position rows ?family sc = Inr ())
      else plan_select plan position rows ?left = Inl ValueError"
  proof (cases "ticket_fits widths position ?left rows")
    case True
    then obtain c where c: "c \<in> set cs" "cp_rows c = rows" using cs(2) by (metis imageE mem_Collect_eq)
    have "filter (\<lambda>c. cp_rows c = rows) cs = [c]"
      using cs(3) c by (rule singleton_of_filter) (use each c in \<open>auto simp: capture_key_def\<close>)
    then have "plan_select plan position rows ?left = Inr c" by (simp add: plan_select_def cs(1))
    moreover have "validate_ticket env position rows ?family sc = Inr ()" if "8 \<le> rows"
    proof (rule validate_ticket_later)
      show "validate_ticket env (max start (?family - 256)) rows ?family sc = Inr ()"
        using capture_plan_valid [OF assms(1), of c] each [OF c(1)] c(2) that by simp
      show "max start (?family - 256) \<le> position" using assms(3) by simp
      show "position + rows \<le> ?family" using True that by (simp add: ticket_fits_def)
    qed
    ultimately show ?thesis using True c each [OF c(1)] by auto
  next
    case False
    then have "filter (\<lambda>c. cp_rows c = rows) cs = []" using cs(2) by (auto simp: filter_empty_conv)
    then show ?thesis using False by (simp add: plan_select_def cs(1))
  qed
qed

subsection \<open>The pool's bound\<close>

text \<open>How many families of the budget have room for a block of r rows.\<close>

definition rooms :: "int \<Rightarrow> int \<Rightarrow> int \<Rightarrow> nat" where
  "rooms position remaining r = length (filter (\<lambda>capacity.
     max position (capacity - 256) + r \<le> min (position + remaining) capacity)
       (plan_capacities position (position + remaining)))"

lemma rooms_families:
  assumes "0 < remaining"
  shows "int (rooms position remaining r) \<le> (remaining + 254) div 256 + 1"
proof -
  have "int (rooms position remaining r) \<le> int (length (plan_capacities position (position + remaining)))"
    by (simp add: rooms_def)
  also have "\<dots> \<le> (remaining + 254) div 256 + 1"
    using assms by (simp add: plan_capacities_eq)
  finally show ?thesis .
qed

lemma length_filter_sum: "int (length (filter P (map f [0..<n]))) = (\<Sum>i<n. if P (f i) then 1 else 0)"
  by (induction n) auto

lemma rooms_share:
  assumes "0 < remaining" and "0 \<le> r"
  shows "int (rooms position remaining r) * r \<le> remaining"
proof -
  define n where "n = nat ((position + remaining - 1) div 256 - position div 256 + 1)"
  define g where "g x = min (position + remaining) (max position ((position div 256 + int x) * 256))" for x
  define room where "room i \<longleftrightarrow> max position ((position div 256 + int i) * 256) + r
     \<le> min (position + remaining) ((position div 256 + 1 + int i) * 256)" for i
  have "int (rooms position remaining r) = (\<Sum>i<n. if room i then 1 else 0)"
    unfolding rooms_def plan_capacities_eq [OF assms(1)] length_filter_sum n_def [symmetric]
    by (simp add: room_def algebra_simps)
  then have "int (rooms position remaining r) * r = (\<Sum>i<n. if room i then r else 0)"
    by (simp only: sum_distrib_right) (intro sum.cong, auto)
  also have "\<dots> \<le> (\<Sum>i<n. g (Suc i) - g i)"
  proof (rule sum_mono)
    fix i assume "i \<in> {..<n}"
    then have "position div 256 + int i \<le> (position + remaining - 1) div 256" by (auto simp: n_def)
    moreover have "(position + remaining - 1) div 256 * 256 \<le> position + remaining - 1"
        "position < position div 256 * 256 + 256" by presburger+
    ultimately have "(position div 256 + int i) * 256 < position + remaining"
        "position < (position div 256 + int (Suc i)) * 256" by (simp_all add: algebra_simps)
    then show "(if room i then r else 0) \<le> g (Suc i) - g i"
      using assms by (auto simp: room_def g_def max_def min_def split: if_splits)
  qed
  also have "\<dots> = g n - g 0" by (rule sum_lessThan_telescope)
  also have "\<dots> \<le> remaining" using assms(1) by (auto simp: g_def max_def min_def)
  finally show ?thesis .
qed

lemma count_wide:
  assumes "distinct ws"
  shows "count (mset (map cp_rows (concat (map (\<lambda>capacity.
            map (\<lambda>rows. \<lparr>cp_rows = rows, cp_position = f capacity, cp_capacity = Some capacity\<rparr>)
              (filter (\<lambda>rows. 8 \<le> rows \<and> room rows capacity) ws)) capacities)))) r
    = (if r \<in> set ws \<and> 8 \<le> r then length (filter (room r) capacities) else 0)"
  by (induction capacities) (use assms in \<open>auto simp: distinct_count_atmost_1 comp_def\<close>)

lemma count_pooled:
  assumes "distinct ws"
  shows "count (mset (concat (map (\<lambda>rows. replicate (k rows) rows) ws))) r = (if r \<in> set ws then k r else 0)"
  using assms by (induction ws) (auto simp: count_eq_zero_iff)

text \<open>C18: the pool allocates its buckets before any request's position is known. Whatever the position, the
  buckets the plan captures are among those \<open>capture_bucket_rows\<close> promised for the budget, with
  multiplicity.\<close>

theorem pool_holds_every_plan:
  assumes "capture_plan env position page_capacity verifier_rows budget max_rows sc = Inr plan"
    and "capture_bucket_rows verifier_rows budget max_rows = Inr pooled"
  shows "mset (map cp_rows (rp_captures plan)) \<subseteq># mset pooled"
proof (rule mset_subset_eqI)
  fix r
  obtain ws where ws: "capture_widths position page_capacity verifier_rows budget max_rows = Inr ws"
    and shape: "rp_captures plan = map (\<lambda>rows. \<lparr>cp_rows = rows, cp_position = position, cp_capacity = None\<rparr>)
                              (filter (\<lambda>rows. rows < 8) ws)
      @ concat (map (\<lambda>capacity. map (\<lambda>rows. \<lparr>cp_rows = rows, cp_position = max position (capacity - 256),
              cp_capacity = Some capacity\<rparr>)
            (filter (\<lambda>rows. 8 \<le> rows \<and> max position (capacity - 256) + rows \<le> min (position + budget) capacity) ws))
          (plan_capacities position (position + budget)))"
    using assms(1) by (rule capture_plan_Inr) blast
  have pool: "pooled = filter (\<lambda>rows. rows < 8) ws @ concat (map (\<lambda>rows.
      replicate (nat (min ((budget + 254) div 256 + 1) (budget div rows))) rows) (filter (\<lambda>rows. rows \<ge> 8) ws))"
    using assms(2) ws by (auto simp: capture_bucket_rows_def rbind_Inr_iff capture_widths_Inr Let_def split: if_splits)
  have budget: "0 < budget" and dist: "distinct ws"
    using ws capture_widths_one [OF ws] by (auto simp: capture_widths_Inr)
  have small: "count (mset (map cp_rows (map (\<lambda>rows. \<lparr>cp_rows = rows, cp_position = position, cp_capacity = None\<rparr>)
      (filter (\<lambda>rows. rows < 8) ws)))) r = count (mset (filter (\<lambda>rows. rows < 8) ws)) r"
    by (simp add: comp_def)
  have wide: "rooms position budget r \<le> nat (min ((budget + 254) div 256 + 1) (budget div r))" if "8 \<le> r"
  proof -
    have "int (rooms position budget r) \<le> budget div r"
      using zdiv_mono1 [OF rooms_share [OF budget, of r position], of r] that by simp
    then show ?thesis using rooms_families [OF budget, of position r] by linarith
  qed
  show "count (mset (map cp_rows (rp_captures plan))) r \<le> count (mset pooled) r"
    unfolding shape pool map_append mset_append count_union small
    by (simp only: count_wide [OF dist] count_pooled [OF distinct_filter [OF dist]])
       (use wide in \<open>auto simp: rooms_def\<close>)
qed

text \<open>A plan across three mask families: a T16 request at position 4000 with 600 tokens left.\<close>

definition plain_env :: replay_env where
  "plain_env = \<lparr>context_ladder_sim = False, sim_only = False, hardware_tests = False, cards_allocated = False\<rparr>"

definition sample_plan :: replay_plan where
  "sample_plan = projr (capture_plan plain_env 4000 8192 16 600 16 False)"

lemma sample_plan_eq: "capture_plan plain_env 4000 8192 16 600 16 False = Inr sample_plan"
  unfolding sample_plan_def by (rule returned_projr) code_simp

text \<open>Six tokens before the family's end the widest ticket is four rows, and eight rows are refused though the
  budget would hold them.\<close>

lemma plan_serves_fitting_tickets_witness:
  "plan_max_rows sample_plan 4090 510 = Inr 4 \<and> plan_select sample_plan 4090 8 510 = Inl ValueError
   \<and> (\<exists>c. plan_select sample_plan 4096 16 504 = Inr c \<and> cp_rows c = 16 \<and> cp_capacity c = Some 4352)"
proof (intro conjI)
  have widths: "capture_widths 4000 8192 16 600 16 = Inr [1, 2, 4, 8, 16]" by code_simp
  note at = plan_serves_fitting_tickets [OF sample_plan_eq widths]
  have "{rows. ticket_fits [1, 2, 4, 8, 16] 4090 510 rows} = {1, 2, 4}" by (auto simp: ticket_fits_def)
  then show "plan_max_rows sample_plan 4090 510 = Inr 4" using at [of 4090] by simp
  show "plan_select sample_plan 4090 8 510 = Inl ValueError"
    using at [of 4090, THEN conjunct1, rule_format, of 8] by (simp add: ticket_fits_def)
  show "\<exists>c. plan_select sample_plan 4096 16 504 = Inr c \<and> cp_rows c = 16 \<and> cp_capacity c = Some 4352"
    using at [of 4096, THEN conjunct1, rule_format, of 16] by (auto simp: ticket_fits_def)
qed

lemma pool_holds_every_plan_witness:
  "mset (map cp_rows (rp_captures sample_plan)) \<subseteq># mset [1, 2, 4, 8, 8, 8, 8, 16, 16, 16, 16]"
proof -
  have "capture_bucket_rows 16 600 16 = Inr [1, 2, 4, 8, 8, 8, 8, 16, 16, 16, 16]" by code_simp
  then show ?thesis by (rule pool_holds_every_plan [OF sample_plan_eq])
qed

end
