(* ===== verification/StateOps.thy ===== *)
theory StateOps
  imports Prelude
begin

text \<open>
  Methods that change an object and may raise, as functions from the state to the result and the
  state after the call: their sequencing, Python's \<open>try ... except: ...; raise\<close> and
  \<open>try ... finally\<close>, and the rules that take a returned call apart.
\<close>

type_synonym ('st, 'a) op = "'st \<Rightarrow> 'a result \<times> 'st"

definition op_return :: "'a \<Rightarrow> ('st, 'a) op" where
  "op_return x s = (Inr x, s)"

definition op_raise :: "py_error \<Rightarrow> ('st, 'a) op" where
  "op_raise e s = (Inl e, s)"

definition op_bind :: "('st, 'a) op \<Rightarrow> ('a \<Rightarrow> ('st, 'b) op) \<Rightarrow> ('st, 'b) op" where
  "op_bind m k s = (case m s of (Inl e, s') \<Rightarrow> (Inl e, s') | (Inr x, s') \<Rightarrow> k x s')"

definition op_then :: "('st, 'a) op \<Rightarrow> ('st, 'b) op \<Rightarrow> ('st, 'b) op" where
  "op_then m n = op_bind m (\<lambda>_. n)"

text \<open>\<open>if refused: raise ValueError(...)\<close>.\<close>

definition op_refuse :: "('st \<Rightarrow> bool) \<Rightarrow> py_error \<Rightarrow> ('st, unit) op" where
  "op_refuse refused e s = (if refused s then (Inl e, s) else (Inr (), s))"

definition op_update :: "('st \<Rightarrow> 'st) \<Rightarrow> ('st, unit) op" where
  "op_update f s = (Inr (), f s)"

definition op_read :: "('st \<Rightarrow> 'a result) \<Rightarrow> ('st, 'a) op" where
  "op_read f s = (f s, s)"

text \<open>A handler that runs and re-raises, and one that runs in every case.\<close>

definition op_except :: "('st, 'a) op \<Rightarrow> ('st \<Rightarrow> 'st) \<Rightarrow> ('st, 'a) op" where
  "op_except m f s = (case m s of (Inl e, s') \<Rightarrow> (Inl e, f s') | (Inr x, s') \<Rightarrow> (Inr x, s'))"

definition op_finally :: "('st, 'a) op \<Rightarrow> ('st \<Rightarrow> 'st) \<Rightarrow> ('st, 'a) op" where
  "op_finally m f s = (case m s of (r, s') \<Rightarrow> (r, f s'))"

lemma op_simps [simp]:
  "op_return x s = (Inr x, s)"
  "op_raise e s = (Inl e, s)"
  "op_update f s = (Inr (), f s)"
  "op_read g s = (g s, s)"
  by (simp_all add: op_return_def op_raise_def op_update_def op_read_def)

lemma op_bind_Inr: "op_bind m k s = (Inr y, t) \<longleftrightarrow> (\<exists>x s'. m s = (Inr x, s') \<and> k x s' = (Inr y, t))"
  by (auto simp: op_bind_def split: prod.splits sum.splits)

lemma op_bind_Inl: "op_bind m k s = (Inl e, t) \<longleftrightarrow>
    m s = (Inl e, t) \<or> (\<exists>x s'. m s = (Inr x, s') \<and> k x s' = (Inl e, t))"
  by (auto simp: op_bind_def split: prod.splits sum.splits)

lemma op_then_Inr: "op_then m n s = (Inr y, t) \<longleftrightarrow> (\<exists>x s'. m s = (Inr x, s') \<and> n s' = (Inr y, t))"
  by (simp add: op_then_def op_bind_Inr)

lemma op_then_Inl: "op_then m n s = (Inl e, t) \<longleftrightarrow>
    m s = (Inl e, t) \<or> (\<exists>x s'. m s = (Inr x, s') \<and> n s' = (Inl e, t))"
  by (simp add: op_then_def op_bind_Inl)

lemma op_refuse_Inr: "op_refuse c e s = (Inr u, t) \<longleftrightarrow> \<not> c s \<and> t = s"
  by (auto simp: op_refuse_def)

lemma op_refuse_Inl: "op_refuse c e s = (Inl e', t) \<longleftrightarrow> c s \<and> e' = e \<and> t = s"
  by (auto simp: op_refuse_def)

lemma op_except_Inr: "op_except m f s = (Inr x, t) \<longleftrightarrow> m s = (Inr x, t)"
  by (auto simp: op_except_def split: prod.splits sum.splits)

lemma op_except_Inl: "op_except m f s = (Inl e, t) \<longleftrightarrow> (\<exists>s'. m s = (Inl e, s') \<and> t = f s')"
  by (auto simp: op_except_def split: prod.splits sum.splits)

lemma op_finally_eq: "op_finally m f s = (r, t) \<longleftrightarrow> (\<exists>s'. m s = (r, s') \<and> t = f s')"
  by (auto simp: op_finally_def split: prod.splits)

lemmas op_returned = op_bind_Inr op_then_Inr op_refuse_Inr op_except_Inr op_finally_eq
lemmas op_raised = op_bind_Inl op_then_Inl op_refuse_Inl op_except_Inl op_finally_eq

text \<open>What every step of a sequence keeps, the sequence keeps.\<close>

definition keeps :: "('st \<Rightarrow> 'b) \<Rightarrow> ('st, 'a) op \<Rightarrow> bool" where
  "keeps f m \<longleftrightarrow> (\<forall>s. f (snd (m s)) = f s)"

named_theorems keep

lemma keepsD: "keeps f m \<Longrightarrow> m s = (r, t) \<Longrightarrow> f t = f s"
  by (metis keeps_def snd_conv)

lemma keeps_return [keep]: "keeps f (op_return x)"
  and keeps_raise [keep]: "keeps f (op_raise e)"
  and keeps_read [keep]: "keeps f (op_read g)"
  and keeps_refuse [keep]: "keeps f (op_refuse c e)"
  by (simp_all add: keeps_def op_refuse_def)

lemma keeps_bind [keep]: "keeps f m \<Longrightarrow> (\<And>x. keeps f (k x)) \<Longrightarrow> keeps f (op_bind m k)"
  by (auto simp: keeps_def op_bind_def split: prod.splits sum.splits) (metis snd_conv)+

lemma keeps_then [keep]: "keeps f m \<Longrightarrow> keeps f n \<Longrightarrow> keeps f (op_then m n)"
  by (simp add: op_then_def keeps_bind)

lemma keeps_update [keep]: "(\<And>s. f (g s) = f s) \<Longrightarrow> keeps f (op_update g)"
  by (simp add: keeps_def)

lemma keeps_except [keep]: "keeps f m \<Longrightarrow> (\<And>s. f (g s) = f s) \<Longrightarrow> keeps f (op_except m g)"
  by (auto simp: keeps_def op_except_def split: prod.splits sum.splits) (metis snd_conv)+

lemma keeps_finally [keep]: "keeps f m \<Longrightarrow> (\<And>s. f (g s) = f s) \<Longrightarrow> keeps f (op_finally m g)"
  by (auto simp: keeps_def op_finally_def split: prod.splits) (metis snd_conv)

text \<open>A condition every step of a sequence preserves, the sequence preserves.\<close>

definition preserves :: "('st \<Rightarrow> bool) \<Rightarrow> ('st, 'a) op \<Rightarrow> bool" where
  "preserves P m \<longleftrightarrow> (\<forall>s. P s \<longrightarrow> P (snd (m s)))"

lemma preservesD: "preserves P m \<Longrightarrow> P s \<Longrightarrow> m s = (r, t) \<Longrightarrow> P t"
  by (metis preserves_def snd_conv)

lemma preserves_return [keep]: "preserves P (op_return x)"
  and preserves_raise [keep]: "preserves P (op_raise e)"
  and preserves_read [keep]: "preserves P (op_read g)"
  and preserves_refuse [keep]: "preserves P (op_refuse c e)"
  by (simp_all add: preserves_def op_refuse_def)

lemma preserves_bind [keep]: "preserves P m \<Longrightarrow> (\<And>x. preserves P (k x)) \<Longrightarrow> preserves P (op_bind m k)"
  by (auto simp: preserves_def op_bind_def split: prod.splits sum.splits)

lemma preserves_then [keep]: "preserves P m \<Longrightarrow> preserves P n \<Longrightarrow> preserves P (op_then m n)"
  by (simp add: op_then_def preserves_bind)

lemma preserves_update [keep]: "(\<And>s. P s \<Longrightarrow> P (g s)) \<Longrightarrow> preserves P (op_update g)"
  by (simp add: preserves_def)

lemma preserves_except [keep]: "preserves P m \<Longrightarrow> (\<And>s. P s \<Longrightarrow> P (g s)) \<Longrightarrow> preserves P (op_except m g)"
  by (auto simp: preserves_def op_except_def split: prod.splits sum.splits)

lemma preserves_finally [keep]: "preserves P m \<Longrightarrow> (\<And>s. P s \<Longrightarrow> P (g s)) \<Longrightarrow> preserves P (op_finally m g)"
  by (auto simp: preserves_def op_finally_def split: prod.splits)

lemma preserves_const [keep]: "preserves P (\<lambda>s. (r, s))"
  by (simp add: preserves_def)

lemma preserves_if [keep]: "preserves P m \<Longrightarrow> preserves P n \<Longrightarrow> preserves P (\<lambda>s. if c s then m s else n s)"
  by (simp add: preserves_def)

lemma preserves_option [keep]:
  "preserves P m \<Longrightarrow> (\<And>x. preserves P (k x)) \<Longrightarrow> preserves P (\<lambda>s. case h s of None \<Rightarrow> m s | Some x \<Rightarrow> k x s)"
  by (simp add: preserves_def split: option.splits)

lemma keeps_const [keep]: "keeps f (\<lambda>s. (r, s))"
  by (simp add: keeps_def)

lemma keeps_if [keep]: "keeps f m \<Longrightarrow> keeps f n \<Longrightarrow> keeps f (\<lambda>s. if c s then m s else n s)"
  by (simp add: keeps_def)

lemma keeps_option [keep]:
  "keeps f m \<Longrightarrow> (\<And>x. keeps f (k x)) \<Longrightarrow> keeps f (\<lambda>s. case h s of None \<Rightarrow> m s | Some x \<Rightarrow> k x s)"
  by (simp add: keeps_def split: option.splits)

end
