(* ===== verification/PackedBlock.thy ===== *)
theory PackedBlock
  imports CapturePlan StateOps "HOL-Library.Product_Lexorder"
begin

text \<open>
  The packed verify block's host state machine, \<open>PackedVerifierEngine\<close> of \<open>scripts/ci/packed_verifier.py\<close>,
  with its shapes (\<open>packed_shapes.py\<close>), the extent path's bounds (\<open>extent_attention_replay.py\<close>) and the
  K/V tile-row guard (\<open>verify_trace_t2.py\<close>).

  One block verifies a segment of rows per user in one device pass; each user then decides once, and
  the block is idle again when all have. A padded round leaves segments idle. The device work is a
  parameter, as are the binding checks and the fence. Page tables are their one row. Deferred
  commits (QWEN_FAST_GDN_AFTER_PAIRS), pre-staging, round fences, the audits and timings are left out.
\<close>

subsection \<open>Shapes\<close>

record packed_shape =
  ps_users :: int
  ps_rows_per_user :: int
  ps_block_rows :: int
  ps_page_width :: int
  ps_capacity :: int

definition validate_shape :: "packed_shape \<Rightarrow> packed_shape result" where
  "validate_shape shape =
     (if ps_users shape < 1 \<or> ps_rows_per_user shape \<notin> {1, 2, 4, 8, 16, 32}
         \<or> ps_block_rows shape \<notin> {2, 4, 8, 16, 32, 64}
         \<or> ps_users shape * ps_rows_per_user shape \<noteq> ps_block_rows shape
         \<or> ps_page_width shape < 68 \<or> ps_capacity shape \<noteq> ps_page_width shape * 64
      then Inl ValueError else Inr shape)"

definition m1_shape :: "int \<Rightarrow> packed_shape result" where
  "m1_shape page_width = validate_shape \<lparr>ps_users = 2, ps_rows_per_user = 16, ps_block_rows = 32,
     ps_page_width = page_width, ps_capacity = page_width * 64\<rparr>"

definition m3_shape :: "int \<Rightarrow> packed_shape result" where
  "m3_shape page_width = validate_shape \<lparr>ps_users = 4, ps_rows_per_user = 16, ps_block_rows = 64,
     ps_page_width = page_width, ps_capacity = page_width * 64\<rparr>"

definition serving_shape :: "int \<Rightarrow> int \<Rightarrow> packed_shape option result" where
  "serving_shape users page_width =
     (if users < 1 then Inl ValueError
      else if users = 2 then rbind (m1_shape page_width) (\<lambda>s. Inr (Some s))
      else if users = 4 then rbind (m3_shape page_width) (\<lambda>s. Inr (Some s))
      else Inr None)"

definition sequential_capture_rows :: "packed_shape option \<Rightarrow> int result" where
  "sequential_capture_rows shape =
     (case shape of
        None \<Rightarrow> Inr 16
      | Some s \<Rightarrow> rbind (validate_shape s) (\<lambda>s. Inr (if ps_block_rows s = 64 then 4 else 16)))"

definition segment_rows :: "packed_shape \<Rightarrow> int \<Rightarrow> (int \<times> int) result" where
  "segment_rows shape segment = rbind (validate_shape shape) (\<lambda>shape.
     if \<not> (0 \<le> segment \<and> segment < ps_users shape) then Inl ValueError
     else Inr (segment * ps_rows_per_user shape, (segment + 1) * ps_rows_per_user shape))"

definition commit_traces :: "packed_shape \<Rightarrow> int result" where
  "commit_traces shape = rbind (validate_shape shape) (\<lambda>s. Inr (ps_users s * ps_rows_per_user s))"

subsection \<open>The extent path's bounds\<close>

definition extent :: "int \<Rightarrow> int result" where
  "extent start = (if start < 0 then Inl ValueError else Inr ((start div 256 + 1) * 256))"

definition extent_accept_limit :: "int \<Rightarrow> int \<Rightarrow> int result" where
  "extent_accept_limit start rows =
     (if rows < 1 then Inl ValueError else rbind (extent start) (\<lambda>e. Inr (min rows (e - start))))"

definition extent_admits :: "int \<Rightarrow> int \<Rightarrow> int \<Rightarrow> bool" where
  "extent_admits start rows capacity \<longleftrightarrow> rows \<ge> 1 \<and> 128 \<le> start \<and> start + rows \<le> capacity"

subsection \<open>The block\<close>

datatype block_phase = B_Preparing | B_Idle | B_Verifying | B_Verified | B_Failed | B_Closed

text \<open>\<open>bl_owner\<close> says whose carry a segment restores, \<open>bl_lent\<close> whether the segment's pool slot is lent;
  \<open>bl_starts\<close> and \<open>bl_records\<close> are the last verify's starts and the states the device retained.\<close>

record 'r block =
  bl_phase :: block_phase
  bl_shape :: packed_shape
  bl_env :: replay_env
  bl_replay_capacity :: int
  bl_extent :: bool
  bl_padded_min :: "int option"
  bl_carries_in_place :: bool
  bl_kv_chains :: bool
  bl_lent :: "nat \<Rightarrow> bool"
  bl_owner :: "nat \<Rightarrow> nat option"
  bl_pending :: "nat list"
  bl_idle :: "nat list"
  bl_starts :: "(nat \<times> int) list"
  bl_records :: "(nat \<times> 'r) list"
  bl_rounds :: nat

definition bl_users :: "'r block \<Rightarrow> nat" where
  "bl_users b = nat (ps_users (bl_shape b))"

definition bl_rows :: "'r block \<Rightarrow> int" where
  "bl_rows b = ps_rows_per_user (bl_shape b)"

definition block_admits :: "'r block \<Rightarrow> int \<Rightarrow> bool" where
  "block_admits b position =
     (if bl_extent b then extent_admits position (bl_rows b) (bl_replay_capacity b)
      else returned (validate_ticket (bl_env b) position (bl_rows b) (bl_replay_capacity b) False))"

definition block_accept_limit :: "'r block \<Rightarrow> int \<Rightarrow> int option result" where
  "block_accept_limit b position =
     (if \<not> bl_extent b then Inr None
      else rbind (extent_accept_limit position (bl_rows b)) (\<lambda>n. Inr (Some n)))"

definition check_extent_cap :: "'r block \<Rightarrow> nat \<Rightarrow> int \<Rightarrow> unit result" where
  "check_extent_cap b segment prefix =
     (if prefix = 0 \<or> segment \<in> set (bl_idle b) then Inr ()
      else rbind (case map_of (bl_starts b) segment of None \<Rightarrow> Inr None | Some start \<Rightarrow> block_accept_limit b start)
        (\<lambda>limit. case limit of
           None \<Rightarrow> Inl ValueError
         | Some l \<Rightarrow> if prefix > l then Inl ValueError else Inr ()))"

definition segment_of :: "'r block \<Rightarrow> nat \<Rightarrow> nat result" where
  "segment_of b engine =
     (case filter (\<lambda>segment. bl_owner b segment = Some engine) [0..<bl_users b] of
        [] \<Rightarrow> Inl ValueError | segment # _ \<Rightarrow> Inr segment)"

definition block_pads :: "'r block \<Rightarrow> nat \<Rightarrow> bool" where
  "block_pads b n = (case bl_padded_min b of None \<Rightarrow> False | Some m \<Rightarrow> m \<le> int n \<and> n < bl_users b)"

definition block_segments :: "'r block \<Rightarrow> nat list \<Rightarrow> nat list result" where
  "block_segments b engines =
     (if length engines \<noteq> bl_users b \<and> \<not> block_pads b (length engines) then Inl ValueError
      else rbind (those_results (map (segment_of b) engines)) (\<lambda>segments.
        if length engines = bl_users b
        then (if sort segments \<noteq> [0..<bl_users b] then Inl ValueError else Inr segments)
        else (if \<not> distinct segments then Inl ValueError else Inr segments)))"

subsection \<open>Padded rounds\<close>

text \<open>A user of a round at its segment: its tokens, its start and its page table.\<close>

type_synonym block_user = "int list \<times> int \<times> int list"

definition page_zero_index :: "int list \<Rightarrow> int \<Rightarrow> int \<Rightarrow> bool \<Rightarrow> nat option result" where
  "page_zero_index table start rows reads_extent =
     (let limit = (if reads_extent then max (start + rows) ((start div 256 + 1) * 256) else start + rows);
          used = (limit + 63) div 64;
          vals = py_prefix used table
      in if int (length vals) < used then Inl ValueError
         else Inr (case filter (\<lambda>i. vals ! i = 0) [0..<length vals] of [] \<Rightarrow> None | i # _ \<Rightarrow> Some i))"

text \<open>Why a round is refused: its count, an idle segment whose slot is lent, a live table that cannot
  map its range, or one that holds page 0 in it.\<close>

datatype padded_reason = Padded_Count nat | Padded_Lent nat | Page0_Unmapped nat | Page0_Live nat nat
  | Padded_Shared nat

definition live_segments :: "block_user option list \<Rightarrow> nat list" where
  "live_segments users = filter (\<lambda>segment. users ! segment \<noteq> None) [0..<length users]"

definition page0_reason :: "'r block \<Rightarrow> block_user option list \<Rightarrow> nat \<Rightarrow> padded_reason option" where
  "page0_reason b users segment =
     (case users ! segment of
        None \<Rightarrow> None
      | Some (tokens, start, table) \<Rightarrow>
          (case page_zero_index table start (bl_rows b) (bl_extent b) of
             Inl _ \<Rightarrow> Some (Page0_Unmapped segment)
           | Inr None \<Rightarrow> None
           | Inr (Some i) \<Rightarrow> Some (Page0_Live segment i)))"

definition lent_reason :: "'r block \<Rightarrow> block_user option list \<Rightarrow> nat \<Rightarrow> padded_reason option" where
  "lent_reason b users segment =
     (if users ! segment = None \<and> bl_lent b segment then Some (Padded_Lent segment) else None)"

definition padded_refusal :: "'r block \<Rightarrow> block_user option list \<Rightarrow> padded_reason option" where
  "padded_refusal b users =
     (let live = live_segments users
      in if length users \<noteq> bl_users b \<or> \<not> block_pads b (length live) then Some (Padded_Count (length live))
         else case (if bl_carries_in_place b then None
                    else first_some (lent_reason b users) [0..<length users]) of
                Some reason \<Rightarrow> Some reason
              | None \<Rightarrow> first_some (page0_reason b users) live)"

text \<open>An idle segment's tokens, start and all-zero table, for every segment that is not live.\<close>

definition idle_inputs :: "'r block \<Rightarrow> nat list \<Rightarrow> (nat \<times> block_user) list result" where
  "idle_inputs b live =
     (let idle = filter (\<lambda>segment. segment \<notin> set live) [0..<bl_users b];
          first = (if bl_extent b then 0 else bl_replay_capacity b - 256)
      in if \<not> distinct live \<or> (\<exists>segment \<in> set live. \<not> segment < bl_users b) then Inl ValueError
         else if length idle > 2 then Inl ValueError
         else Inr (map (\<lambda>(index, segment). (segment, replicate (nat (bl_rows b)) 1, first + 32 * (int index mod 2),
                          replicate (nat (ps_page_width (bl_shape b))) 0)) (enumerate 0 idle)))"

definition fill_idle :: "(nat \<times> block_user) list \<Rightarrow> block_user option list \<Rightarrow> block_user option list" where
  "fill_idle fills users =
     map (\<lambda>segment. case users ! segment of None \<Rightarrow> map_of fills segment | Some u \<Rightarrow> Some u) [0..<length users]"

subsection \<open>The K/V tile-row guard\<close>

definition kv_tile_rows :: "int list \<Rightarrow> int list \<Rightarrow> (int \<times> int) list result" where
  "kv_tile_rows positions table =
     rbind (those_results (map (\<lambda>p. rbind (py_index table (nat (p div 64))) (\<lambda>page. Inr (page, p mod 64 div 32))) positions))
       (\<lambda>keys. Inr (remdups (sort keys)))"

fun kv_scan :: "nat \<Rightarrow> (int \<times> int) list \<Rightarrow> ((int \<times> int) \<times> nat) list \<Rightarrow>
    (nat \<times> nat \<times> (int \<times> int)) option \<times> ((int \<times> int) \<times> nat) list" where
  "kv_scan user [] owner = (None, owner)"
| "kv_scan user (key # ks) owner =
     (case map_of owner key of
        None \<Rightarrow> kv_scan user ks (owner @ [(key, user)])
      | Some first \<Rightarrow> if first \<noteq> user then (Some (first, user, key), owner) else kv_scan user ks owner)"

fun kv_conflict_from :: "nat \<Rightarrow> ((int \<times> int) \<times> nat) list \<Rightarrow> (int list \<times> int list) list \<Rightarrow>
    (nat \<times> nat \<times> (int \<times> int)) option result" where
  "kv_conflict_from user owner [] = Inr None"
| "kv_conflict_from user owner ((positions, table) # users) =
     rbind (kv_tile_rows positions table) (\<lambda>keys.
       case kv_scan user keys owner of
         (Some conflict, _) \<Rightarrow> Inr (Some conflict)
       | (None, owner) \<Rightarrow> kv_conflict_from (Suc user) owner users)"

definition kv_conflict :: "(int list \<times> int list) list \<Rightarrow> (nat \<times> nat \<times> (int \<times> int)) option result" where
  "kv_conflict users = kv_conflict_from 0 [] users"

text \<open>An engine's table as the guard reads it under sticky sessions.\<close>

definition pad_sentinel_table :: "int list \<Rightarrow> nat \<Rightarrow> int list" where
  "pad_sentinel_table table segment =
     (if table = [] then table
      else let bound = (case filter (\<lambda>i. table ! i = table ! 0) [1..<length table] of [] \<Rightarrow> length table | i # _ \<Rightarrow> i)
           in take bound table @ replicate (length table - bound) (- (int segment + 1)))"

subsection \<open>Commits\<close>

definition check_segment :: "'r block \<Rightarrow> nat \<Rightarrow> unit result" where
  "check_segment b segment = rbind (segment_rows (bl_shape b) (int segment)) (\<lambda>_.
     if bl_phase b \<noteq> B_Verified \<or> segment \<notin> set (bl_pending b) then Inl ValueError else Inr ())"

text \<open>One user's decision: the refusals of \<open>commit_user\<close>, then its device work. \<open>bindings\<close> and \<open>fence\<close> are
  the retained block's checks before and after; \<open>trace\<close> commits the segment's retained state at a
  prefix into the carry, which the second answers.\<close>

definition block_commit_check :: "nat \<Rightarrow> int \<Rightarrow> 'r block \<Rightarrow> unit result" where
  "block_commit_check segment prefix b =
     (if segment \<in> set (bl_idle b) \<and> prefix \<noteq> 0 then Inl ValueError
      else rbind (check_segment b segment) (\<lambda>_.
        if \<not> (0 \<le> prefix \<and> prefix \<le> bl_rows b) then Inl ValueError
        else if bl_extent b then check_extent_cap b segment prefix else Inr ()))"

definition block_settle ::
  "unit result \<Rightarrow> unit result \<Rightarrow> ('r option \<Rightarrow> nat \<Rightarrow> 's \<Rightarrow> unit result \<times> 's) \<Rightarrow> nat \<Rightarrow> nat \<Rightarrow> 's
     \<Rightarrow> 'r block \<Rightarrow> unit result \<times> 's \<times> 'r block" where
  "block_settle bindings fence trace segment prefix carry b =
     (let (done, carry') = (case bindings of
            Inl e \<Rightarrow> (Inl e, carry)
          | Inr _ \<Rightarrow> if prefix = 0 then (Inr (), carry) else trace (map_of (bl_records b) segment) prefix carry);
          pending = removeAll segment (bl_pending b)
      in case rbind done (\<lambda>_. if pending = [] then fence else Inr ()) of
           Inl e \<Rightarrow> (Inl e, carry', b\<lparr>bl_phase := B_Failed\<rparr>)
         | Inr _ \<Rightarrow> (Inr (), carry', b\<lparr>bl_pending := pending,
                        bl_phase := (if pending = [] then B_Idle else bl_phase b)\<rparr>))"

lemma block_settle_Inr:
  assumes "block_settle bindings fence trace segment n c b = (Inr u, c', b')"
  shows "(n = 0 \<and> c' = c) \<or> (0 < n \<and> trace (map_of (bl_records b) segment) n c = (Inr (), c'))"
    and "b' = b\<lparr>bl_pending := removeAll segment (bl_pending b),
             bl_phase := (if removeAll segment (bl_pending b) = [] then B_Idle else bl_phase b)\<rparr>"
  using assms by (auto simp: block_settle_def Let_def rbind_Inr_iff split: sum.splits prod.splits if_splits)

lemma block_settle_Inl:
  assumes "block_settle bindings fence trace segment n c b = (Inl e, c', b')"
  shows "b' = b\<lparr>bl_phase := B_Failed\<rparr>"
  using assms by (auto simp: block_settle_def Let_def split: sum.splits prod.splits if_splits)

definition block_commit_user ::
  "unit result \<Rightarrow> unit result \<Rightarrow> ('r option \<Rightarrow> nat \<Rightarrow> 's \<Rightarrow> unit result \<times> 's) \<Rightarrow> nat \<Rightarrow> int \<Rightarrow> 's
     \<Rightarrow> 'r block \<Rightarrow> unit result \<times> 's \<times> 'r block" where
  "block_commit_user bindings fence trace segment prefix carry b =
     (case block_commit_check segment prefix b of
        Inl e \<Rightarrow> (Inl e, carry, b)
      | Inr _ \<Rightarrow> block_settle bindings fence trace segment (nat prefix) carry b)"

text \<open>A decision at prefix zero, which touches no carry.\<close>

definition block_release :: "unit result \<Rightarrow> unit result \<Rightarrow> nat \<Rightarrow> 'r block \<Rightarrow> unit result \<times> 'r block" where
  "block_release bindings fence segment b =
     (case block_commit_user bindings fence (\<lambda>_ _ c. (Inr (), c)) segment 0 () b of (r, _, b') \<Rightarrow> (r, b'))"

text \<open>The gate's cap on a commit, and how many rows of a ticket its user may commit.\<close>

definition commit_limit :: "int option \<Rightarrow> 'r block \<Rightarrow> int \<Rightarrow> int \<Rightarrow> int option result" where
  "commit_limit forced b position rows =
     rbind (block_accept_limit b position) (\<lambda>limit. Inr (case forced of
        None \<Rightarrow> limit
      | Some f \<Rightarrow> Some (min (case limit of None \<Rightarrow> rows | Some l \<Rightarrow> l) f)))"

end
