(* ===== verification/ServingState.thy ===== *)
theory ServingState
  imports GreedySession PackedBlock
begin

text \<open>
  The state one request's decoding touches, as the objects of \<open>scripts/ci/verifier_engine.py\<close>,
  \<open>dflash_request_runtime.py\<close> and \<open>serving_fast_request.py\<close> hold it.

  The recurrent (GDN) state of native slot 0 is a value of type 's. The target model's forward
  pass, the copies between device buffers and the drafter are device code: a \<open>device\<close> says what each
  of these operations answers and leaves, and an operation may raise having written anything.
  Buffer addresses, timings and the audit switches are left out; the checks on addresses read two
  flags of the device.
\<close>

datatype engine_phase =
    E_Preparing | E_Idle | E_Verifying | E_Verified | E_Committing | E_Failed | E_Parked | E_Closed

datatype runtime_phase = R_Unbound | R_Idle | R_Drafting | R_Proposed | R_Committing | R_Failed

text \<open>A bucket's key: its width, its width and mask family under a replay plan, or an adopted segment of
  the packed block.\<close>

datatype bucket_key = Width int | Family int "int option" | Packed nat

record ('s, 'r) bucket =
  bk_retained :: bool
  bk_first :: bool
  bk_poisoned :: bool
  bk_checkpoint :: "'s option"
  bk_records :: "'r option"
  bk_packed :: "(nat \<times> nat) option"

record ('s, 'r) engine =
  en_phase :: engine_phase
  en_pending :: "block_ticket option"
  en_pending_key :: "bucket_key option"
  en_position :: nat
  en_pages :: "int list"
  en_widths :: "int list"
  en_capture_rows :: int
  en_plan :: "replay_plan option"
  en_t16 :: bool
  en_initial :: "'s option"
  en_carry :: "'s option"
  en_buckets :: "(bucket_key \<times> ('s, 'r) bucket) list"
  en_replay_mark :: "nat option"

text \<open>What the engines of a process share: slot 0, the module's \<open>_resident\<close>, the replay ledger's count
  (None without the ledger) and the packed blocks, by their identity.\<close>

record ('s, 'r) native =
  nv_slot :: 's
  nv_resident :: "nat option"
  nv_replays :: "nat option"
  nv_blocks :: "nat \<Rightarrow> 'r block"

record runtime =
  rt_position :: nat
  rt_phase :: runtime_phase
  rt_proposed :: "int list"
  rt_committed_rows :: nat
  rt_max_drafts :: int
  rt_drafter_position :: nat

record ('s, 'r) rig =
  rg_native :: "('s, 'r) native"
  rg_session :: session
  rg_engine :: "('s, 'r) engine"
  rg_runtime :: runtime
  rg_closed :: bool
  rg_cancelled :: bool
  rg_busy :: bool

record ('s, 'r) device =
  dv_bindings :: bool
  dv_carry_in_place :: bool
  dv_synchronize :: "unit result"
  dv_copy :: "'s \<Rightarrow> 's \<Rightarrow> unit result \<times> 's"
  dv_capture :: "bucket_key \<Rightarrow> 's \<Rightarrow> unit result \<times> 's"
  dv_write_pages :: "unit result"
  dv_replay :: "bucket_key \<Rightarrow> 's \<Rightarrow> nat \<Rightarrow> int list \<Rightarrow> (int list \<times> 's \<times> 'r) result \<times> 's"
  dv_commit :: "'r option \<Rightarrow> nat \<Rightarrow> 's \<Rightarrow> unit result \<times> 's"
  dv_block_stage :: "unit result"
  dv_block_replay :: "(nat \<times> 's option \<times> int \<times> int list) list \<Rightarrow> 's \<Rightarrow> (nat \<times> int list \<times> 'r) list result \<times> 's"
  dv_block_bindings :: "unit result"
  dv_block_commit :: "'r option \<Rightarrow> nat \<Rightarrow> 's \<Rightarrow> unit result \<times> 's"
  dv_features :: "unit result"
  dv_propose :: "int \<Rightarrow> int \<Rightarrow> int list result"
  dv_prepare_history :: "nat \<Rightarrow> nat \<Rightarrow> unit result"
  dv_commit_history :: "nat \<Rightarrow> nat \<Rightarrow> unit result \<times> nat"

type_synonym ('s, 'r, 'a) rig_op = "(('s, 'r) rig, 'a) op"

definition on_engine :: "(('s, 'r) engine \<Rightarrow> ('s, 'r) engine) \<Rightarrow> ('s, 'r) rig \<Rightarrow> ('s, 'r) rig" where
  "on_engine f g = g\<lparr>rg_engine := f (rg_engine g)\<rparr>"

definition on_native :: "(('s, 'r) native \<Rightarrow> ('s, 'r) native) \<Rightarrow> ('s, 'r) rig \<Rightarrow> ('s, 'r) rig" where
  "on_native f g = g\<lparr>rg_native := f (rg_native g)\<rparr>"

definition on_runtime :: "(runtime \<Rightarrow> runtime) \<Rightarrow> ('s, 'r) rig \<Rightarrow> ('s, 'r) rig" where
  "on_runtime f g = g\<lparr>rg_runtime := f (rg_runtime g)\<rparr>"

definition set_phase :: "engine_phase \<Rightarrow> ('s, 'r) rig \<Rightarrow> ('s, 'r) rig" where
  "set_phase p = on_engine (\<lambda>e. e\<lparr>en_phase := p\<rparr>)"

text \<open>A method of the session, run on the rig's session.\<close>

definition on_session :: "(session \<Rightarrow> 'a result \<times> session) \<Rightarrow> ('s, 'r, 'a) rig_op" where
  "on_session m g = (case m (rg_session g) of (r, s) \<Rightarrow> (r, g\<lparr>rg_session := s\<rparr>))"

text \<open>A device copy into slot 0, and one out of it into the engine's carry.\<close>

definition copy_into_slot :: "('s, 'r) device \<Rightarrow> 's \<Rightarrow> ('s, 'r, unit) rig_op" where
  "copy_into_slot dv source g =
     (case dv_copy dv source (nv_slot (rg_native g)) of
        (r, slot) \<Rightarrow> (r, on_native (\<lambda>n. n\<lparr>nv_slot := slot\<rparr>) g))"

definition copy_into_carry :: "('s, 'r) device \<Rightarrow> 's \<Rightarrow> ('s, 'r, unit) rig_op" where
  "copy_into_carry dv carry g =
     (case dv_copy dv (nv_slot (rg_native g)) carry of
        (r, carry') \<Rightarrow> (r, on_engine (\<lambda>e. e\<lparr>en_carry := Some carry'\<rparr>) g))"

lemma rig_simps [simp]:
  "rg_native (on_engine f g) = rg_native g" "rg_session (on_engine f g) = rg_session g"
  "rg_engine (on_engine f g) = f (rg_engine g)" "rg_runtime (on_engine f g) = rg_runtime g"
  "rg_native (on_native h g) = h (rg_native g)" "rg_session (on_native h g) = rg_session g"
  "rg_engine (on_native h g) = rg_engine g" "rg_runtime (on_native h g) = rg_runtime g"
  "rg_native (on_runtime k g) = rg_native g" "rg_session (on_runtime k g) = rg_session g"
  "rg_engine (on_runtime k g) = rg_engine g" "rg_runtime (on_runtime k g) = k (rg_runtime g)"
  "rg_native (set_phase p g) = rg_native g" "rg_session (set_phase p g) = rg_session g"
  "rg_engine (set_phase p g) = (rg_engine g)\<lparr>en_phase := p\<rparr>" "rg_runtime (set_phase p g) = rg_runtime g"
  by (simp_all add: on_engine_def on_native_def on_runtime_def set_phase_def)

end
