(* ===== verification/VerifierEngine.thy ===== *)
theory VerifierEngine
  imports ServingState
begin

text \<open>
  The captured verifier of one request, \<open>VerifierEngine\<close> of \<open>scripts/ci/verifier_engine.py\<close>: which
  width it can verify, the carried GDN state that makes several engines share native slot 0, and the
  verify, publish, adopt, park, rebind and close transactions. \<open>me\<close> is the engine's identity, what
  the module's \<open>_resident\<close> is compared with.

  The options of the constructor that select captures, the pooled storage's bookkeeping and the
  release of device buffers are left out; a capture is one device operation per bucket that leaves
  slot 0 changed.
\<close>

subsection \<open>Widths\<close>

definition remaining_tokens :: "session \<Rightarrow> int" where
  "remaining_tokens s = int (s_max_new_tokens s) - int (length (s_emitted s))"

definition proposal_rows :: "('s, 'r) engine \<Rightarrow> session \<Rightarrow> int option \<Rightarrow> int result" where
  "proposal_rows e s packed_rows =
     (let remaining = remaining_tokens s
      in rbind (case en_plan e of
                  Some plan \<Rightarrow> plan_max_rows plan (int (en_position e)) remaining
                | None \<Rightarrow> (case filter (\<lambda>rows. rows \<le> remaining) (en_widths e) of
                             [] \<Rightarrow> Inl ValueError | rows \<Rightarrow> Inr (Max (set rows)))) (\<lambda>widest.
         case packed_rows of
           None \<Rightarrow> Inr widest
         | Some packed \<Rightarrow>
             if packed \<notin> set VERIFY_WIDTHS \<or> packed > int (s_verifier_rows s) then Inl ValueError
             else Inr (if remaining \<ge> packed then packed else widest)))"

definition engine_bucket_key :: "('s, 'r) engine \<Rightarrow> session \<Rightarrow> block_ticket \<Rightarrow> bucket_key result" where
  "engine_bucket_key e s ticket =
     (case en_plan e of
        None \<Rightarrow> Inr (Width (int (length (t_tokens ticket))))
      | Some plan \<Rightarrow>
          rbind (plan_select plan (int (t_position ticket)) (int (length (t_tokens ticket))) (remaining_tokens s))
            (\<lambda>c. Inr (Family (cp_rows c) (cp_capacity c))))"

definition serves :: "('s, 'r) engine \<Rightarrow> session \<Rightarrow> block_ticket \<Rightarrow> bool" where
  "serves e s ticket = (case engine_bucket_key e s ticket of
     Inl _ \<Rightarrow> False | Inr key \<Rightarrow> map_of (en_buckets e) key \<noteq> None)"

subsection \<open>The carried state\<close>

definition note_prefill :: "('s, 'r) native \<Rightarrow> ('s, 'r) native" where
  "note_prefill n = n\<lparr>nv_resident := None\<rparr>"

definition note_packed_step :: "('s, 'r) native \<Rightarrow> ('s, 'r) native" where
  "note_packed_step n = n\<lparr>nv_resident := None\<rparr>"

definition claim_slot :: "nat \<Rightarrow> ('s, 'r) rig \<Rightarrow> ('s, 'r) rig" where
  "claim_slot me = on_native (\<lambda>n. n\<lparr>nv_resident := Some me\<rparr>)"

definition check_carry :: "('s, 'r) device \<Rightarrow> ('s, 'r, unit) rig_op" where
  "check_carry dv = op_refuse (\<lambda>_. \<not> dv_carry_in_place dv) ValueError"

definition restore_carry :: "('s, 'r) device \<Rightarrow> nat \<Rightarrow> ('s, 'r, bool) rig_op" where
  "restore_carry dv me g =
     (case en_carry (rg_engine g) of
        None \<Rightarrow> (Inr False, g)
      | Some carry \<Rightarrow>
          if nv_resident (rg_native g) = Some me then (Inr False, g)
          else op_then (op_update (claim_slot me))
                (op_then (check_carry dv) (op_then (copy_into_slot dv carry) (op_return True))) g)"

definition save_carry :: "('s, 'r) device \<Rightarrow> nat \<Rightarrow> ('s, 'r, unit) rig_op" where
  "save_carry dv me = op_then (op_update (claim_slot me)) (\<lambda>g.
     case en_carry (rg_engine g) of
       None \<Rightarrow> (Inr (), g)
     | Some carry \<Rightarrow> op_then (check_carry dv) (copy_into_carry dv carry) g)"

definition validate_bindings :: "('s, 'r) device \<Rightarrow> ('s, 'r, unit) rig_op" where
  "validate_bindings dv = op_refuse (\<lambda>_. \<not> dv_bindings dv) ValueError"

subsection \<open>Verify\<close>

definition check_ticket :: "block_ticket \<Rightarrow> ('s, 'r, unit) rig_op" where
  "check_ticket ticket = op_refuse
     (\<lambda>g. \<not> ticket_live (rg_session g) (s_request_id (rg_session g)) ticket) ValueError"

definition set_bucket :: "bucket_key \<Rightarrow> (('s, 'r) bucket \<Rightarrow> ('s, 'r) bucket) \<Rightarrow> ('s, 'r) rig \<Rightarrow> ('s, 'r) rig" where
  "set_bucket key f = on_engine (\<lambda>e. e\<lparr>en_buckets := map (\<lambda>(k, b). (k, if k = key then f b else b)) (en_buckets e)\<rparr>)"

text \<open>The trace's execution and the readback: it rewrites slot 0, and fills the bucket's checkpoint and
  retained records. The ledger counts it.\<close>

definition replay_bucket :: "('s, 'r) device \<Rightarrow> bucket_key \<Rightarrow> block_ticket \<Rightarrow> ('s, 'r, int list) rig_op" where
  "replay_bucket dv key ticket g =
     (case dv_replay dv key (nv_slot (rg_native g)) (t_position ticket) (t_tokens ticket) of
        (r, slot) \<Rightarrow>
          (let g = on_native (\<lambda>n. n\<lparr>nv_slot := slot, nv_replays := map_option Suc (nv_replays n)\<rparr>) g
           in case r of
                Inl e \<Rightarrow> (Inl e, g)
              | Inr (predictions, checkpoint, records) \<Rightarrow>
                  (Inr predictions,
                   on_engine (\<lambda>e. case nv_replays (rg_native g) of
                       None \<Rightarrow> e | Some n \<Rightarrow> e\<lparr>en_replay_mark := Some n\<rparr>)
                    (set_bucket key (\<lambda>b. b\<lparr>bk_checkpoint := Some checkpoint, bk_records := Some records\<rparr>) g))))"

definition verify_body :: "('s, 'r) device \<Rightarrow> nat \<Rightarrow> bucket_key \<Rightarrow> block_ticket \<Rightarrow> ('s, 'r, int list) rig_op" where
  "verify_body dv me key ticket =
     op_then (validate_bindings dv)
     (op_then (restore_carry dv me)
     (op_bind (replay_bucket dv key ticket) (\<lambda>predictions.
      op_then (op_refuse (\<lambda>_. length predictions \<noteq> length (t_tokens ticket)) AssertionError)
     (op_then (op_update (\<lambda>g. set_phase E_Verified (set_bucket key (\<lambda>b. b\<lparr>bk_first := False\<rparr>) g)))
      (op_return predictions)))))"

definition engine_fail :: "block_ticket \<Rightarrow> ('s, 'r) rig \<Rightarrow> ('s, 'r) rig" where
  "engine_fail ticket g = (set_phase E_Failed g)
     \<lparr>rg_session := snd (fail_verification (rg_session g) (s_request_id (rg_session g)) ticket)\<rparr>"

definition engine_verify :: "('s, 'r) device \<Rightarrow> nat \<Rightarrow> block_ticket \<Rightarrow> ('s, 'r, int list) rig_op" where
  "engine_verify dv me ticket =
     op_then (check_ticket ticket)
     (op_bind (op_read (\<lambda>g. engine_bucket_key (rg_engine g) (rg_session g) ticket)) (\<lambda>key.
      op_then (op_refuse (\<lambda>g. en_phase (rg_engine g) \<noteq> E_Idle \<or> en_pending (rg_engine g) \<noteq> None
                 \<or> t_position ticket \<noteq> en_position (rg_engine g)
                 \<or> map_of (en_buckets (rg_engine g)) key = None) ValueError)
     (op_then (op_update (on_engine (\<lambda>e. e\<lparr>en_phase := E_Verifying, en_pending := Some ticket,
                 en_pending_key := Some key\<rparr>)))
      (op_except (verify_body dv me key ticket) (engine_fail ticket)))))"

subsection \<open>Adopt and publish\<close>

text \<open>\<open>block\<close> is the packed block's identity.\<close>

definition adopt_packed :: "block_ticket \<Rightarrow> nat \<Rightarrow> nat \<Rightarrow> ('s, 'r, unit) rig_op" where
  "adopt_packed ticket block segment =
     op_then (check_ticket ticket)
     (op_then (op_refuse (\<lambda>g. en_phase (rg_engine g) \<noteq> E_Idle \<or> en_pending (rg_engine g) \<noteq> None
                 \<or> t_position ticket \<noteq> en_position (rg_engine g)) ValueError)
     (op_then (op_refuse (\<lambda>g. bl_rows (nv_blocks (rg_native g) block) \<noteq> int (length (t_tokens ticket))) ValueError)
      (op_update (on_engine (\<lambda>e.
         e\<lparr>en_buckets := dict_set (Packed segment) \<lparr>bk_retained = False, bk_first = False,
              bk_poisoned = False, bk_checkpoint = None, bk_records = None, bk_packed = Some (block, segment)\<rparr> (en_buckets e),
           en_pending_key := Some (Packed segment), en_phase := E_Verified, en_pending := Some ticket\<rparr>)))))"

definition check_replay_mark :: "('s, 'r, unit) rig_op" where
  "check_replay_mark g =
     (let mark = en_replay_mark (rg_engine g);
          g = on_engine (\<lambda>e. e\<lparr>en_replay_mark := None\<rparr>) g
      in case (mark, nv_replays (rg_native g)) of
           (Some m, Some n) \<Rightarrow> if n \<noteq> m then (Inl AssertionError, g) else (Inr (), g)
         | _ \<Rightarrow> (Inr (), g))"

definition commit_retained :: "('s, 'r) device \<Rightarrow> ('s, 'r) bucket \<Rightarrow> nat \<Rightarrow> ('s, 'r, unit) rig_op" where
  "commit_retained dv b prefix g =
     (case dv_commit dv (bk_records b) prefix (nv_slot (rg_native g)) of
        (r, slot) \<Rightarrow> (r, on_native (\<lambda>n. n\<lparr>nv_slot := slot, nv_replays := map_option Suc (nv_replays n)\<rparr>) g))"

definition commit_plain :: "('s, 'r) device \<Rightarrow> ('s, 'r) bucket \<Rightarrow> nat \<Rightarrow> ('s, 'r, unit) rig_op" where
  "commit_plain dv b prefix =
     op_then (validate_bindings dv)
     (op_then (case bk_checkpoint b of
                 Some checkpoint \<Rightarrow> if prefix = 0 then copy_into_slot dv checkpoint else op_return ()
               | None \<Rightarrow> op_return ())
      (op_read (\<lambda>_. dv_synchronize dv)))"

text \<open>The packed block commits this user's accepted state into the engine's carry itself.\<close>

definition set_block :: "nat \<Rightarrow> 'r block \<Rightarrow> ('s, 'r) native \<Rightarrow> ('s, 'r) native" where
  "set_block block b n = n\<lparr>nv_blocks := (nv_blocks n)(block := b)\<rparr>"

definition settle_segment :: "('s, 'r) device \<Rightarrow> nat \<Rightarrow> nat \<Rightarrow> nat \<Rightarrow> ('s, 'r, unit) rig_op" where
  "settle_segment dv block segment prefix g =
     (case en_carry (rg_engine g) of
        None \<Rightarrow> (Inl ValueError, g)
      | Some carry \<Rightarrow>
          (case block_settle (dv_block_bindings dv) (dv_synchronize dv) (dv_block_commit dv) segment prefix carry
                  (nv_blocks (rg_native g) block) of
             (r, carry', b) \<Rightarrow> (r, on_native (\<lambda>n. note_packed_step (set_block block b n))
                                 (on_engine (\<lambda>e. e\<lparr>en_carry := Some carry'\<rparr>) g))))"

definition commit_segment :: "('s, 'r) device \<Rightarrow> bucket_key \<Rightarrow> nat \<times> nat \<Rightarrow> nat \<Rightarrow> ('s, 'r, unit) rig_op" where
  "commit_segment dv key packed prefix =
     op_then (op_read (\<lambda>g. block_commit_check (snd packed) (int prefix) (nv_blocks (rg_native g) (fst packed))))
     (op_then (settle_segment dv (fst packed) (snd packed) prefix)
      (op_update (\<lambda>g. on_engine (\<lambda>e. e\<lparr>en_buckets := dict_del key (en_buckets e)\<rparr>)
                        (on_native note_packed_step g))))"

text \<open>The block and segment a bucket was adopted from.\<close>

definition packed_of :: "('s, 'r) engine \<Rightarrow> bucket_key \<Rightarrow> (nat \<times> nat) option" where
  "packed_of e key = (case map_of (en_buckets e) key of None \<Rightarrow> None | Some b \<Rightarrow> bk_packed b)"

definition publish_plain :: "('s, 'r) device \<Rightarrow> nat \<Rightarrow> bucket_key \<Rightarrow> nat \<Rightarrow> ('s, 'r, unit) rig_op" where
  "publish_plain dv me key prefix =
     op_then (\<lambda>g. if nv_replays (rg_native g) \<noteq> None then check_replay_mark g else (Inr (), g))
    (op_then (\<lambda>g. case map_of (en_buckets (rg_engine g)) key of
                None \<Rightarrow> (Inl KeyError, g)
              | Some b \<Rightarrow> (if bk_retained b then commit_retained dv b prefix g
                         else commit_plain dv b prefix g))
     (save_carry dv me))"

definition publish_body :: "('s, 'r) device \<Rightarrow> nat \<Rightarrow> bucket_key \<Rightarrow> nat \<Rightarrow> ('s, 'r, unit) rig_op" where
  "publish_body dv me key prefix =
     op_then (\<lambda>g. case packed_of (rg_engine g) key of
                 Some packed \<Rightarrow> commit_segment dv key packed prefix g
               | None \<Rightarrow> publish_plain dv me key prefix g)
      (op_update (on_engine (\<lambda>e. e\<lparr>en_position := en_position e + prefix, en_phase := E_Idle,
         en_pending := None, en_pending_key := None\<rparr>)))"

definition publish_keyed :: "('s, 'r) device \<Rightarrow> nat \<Rightarrow> bucket_key \<Rightarrow> nat \<Rightarrow> ('s, 'r, unit) rig_op" where
  "publish_keyed dv me key prefix =
     op_then (op_refuse (\<lambda>g. map_of (en_buckets (rg_engine g)) key = None) KeyError)
      (op_except (publish_body dv me key prefix) (set_phase E_Failed))"

definition engine_publish :: "('s, 'r) device \<Rightarrow> nat \<Rightarrow> int \<Rightarrow> ('s, 'r, unit) rig_op" where
  "engine_publish dv me prefix g =
     (case en_pending (rg_engine g) of
        None \<Rightarrow> (Inl ValueError, g)
      | Some ticket \<Rightarrow>
          op_then (op_refuse (\<lambda>g. en_phase (rg_engine g) \<noteq> E_Verified \<or> s_pending (rg_session g) \<noteq> Some ticket
                     \<or> s_phase (rg_session g) \<noteq> Committing) ValueError)
         (op_then (op_refuse (\<lambda>_. \<not> (0 \<le> prefix \<and> prefix \<le> int (length (t_tokens ticket)))) ValueError)
         (op_then (op_update (set_phase E_Committing))
          (case en_pending_key (rg_engine g) of
             None \<Rightarrow> op_raise KeyError
           | Some key \<Rightarrow> publish_keyed dv me key (nat prefix)))) g)"

subsection \<open>Park, rebind, close\<close>

text \<open>Whether the engine may park; the code answers the reason it may not.\<close>

definition may_park :: "('s, 'r) engine \<Rightarrow> bool" where
  "may_park e \<longleftrightarrow> en_phase e = E_Idle \<and> \<not> (en_pending e \<noteq> None \<or> en_pending_key e \<noteq> None)
     \<and> \<not> (en_plan e \<noteq> None \<or> en_t16 e)
     \<and> list_all (\<lambda>(_, b). \<not> (bk_retained b \<and> bk_poisoned b)) (en_buckets e)"

definition leave_slot :: "nat \<Rightarrow> ('s, 'r) rig \<Rightarrow> ('s, 'r) rig" where
  "leave_slot me = on_native (\<lambda>n. if nv_resident n = Some me then n\<lparr>nv_resident := None\<rparr> else n)"

definition engine_park :: "('s, 'r) device \<Rightarrow> nat \<Rightarrow> ('s, 'r, bool) rig_op" where
  "engine_park dv me =
     op_then (op_refuse (\<lambda>g. en_phase (rg_engine g) \<in> {E_Parked, E_Closed}) ValueError)
     (op_then (op_refuse (\<lambda>g. en_phase (rg_engine g) \<notin> {E_Idle, E_Preparing, E_Failed}) ValueError)
     (op_then (op_read (\<lambda>_. dv_synchronize dv)) (\<lambda>g.
        if \<not> may_park (rg_engine g) then (Inr False, g)
        else (Inr True, leave_slot me (on_engine (\<lambda>e. e\<lparr>en_phase := E_Parked, en_pending := None,
                                         en_pending_key := None\<rparr>) g)))))"

definition save_initial :: "('s, 'r) device \<Rightarrow> ('s, 'r, unit) rig_op" where
  "save_initial dv g =
     (case dv_copy dv (nv_slot (rg_native g))
             (case en_initial (rg_engine g) of None \<Rightarrow> nv_slot (rg_native g) | Some i \<Rightarrow> i) of
        (r, i) \<Rightarrow> (r, on_engine (\<lambda>e. e\<lparr>en_initial := Some i\<rparr>) g))"

definition rebind_buckets :: "(bucket_key \<times> ('s, 'r) bucket) list \<Rightarrow> (bucket_key \<times> ('s, 'r) bucket) list" where
  "rebind_buckets bs =
     map (\<lambda>(k, b). (k, if bk_retained b then b\<lparr>bk_first := True, bk_poisoned := False\<rparr> else b\<lparr>bk_first := True\<rparr>))
       (filter (\<lambda>(k, _). case k of Packed _ \<Rightarrow> False | _ \<Rightarrow> True) bs)"

text \<open>\<open>helpers\<close> and \<open>rows_shape\<close> are the counts the host checks read: the GDN helpers and the rows of the
  page table.\<close>

definition prepare_checks :: "session \<Rightarrow> nat \<Rightarrow> nat \<Rightarrow> unit result" where
  "prepare_checks session helpers table_rows =
     (if s_phase session \<noteq> Idle \<or> s_pending session \<noteq> None \<or> s_finished session \<or> helpers \<noteq> 48
        then Inl ValueError
      else if table_rows \<noteq> 1 then Inl ValueError else Inr ())"

definition finish_prepare :: "('s, 'r, unit) rig_op" where
  "finish_prepare = op_then (on_session (\<lambda>s. finish_preparation s (s_request_id s))) (op_update (set_phase E_Idle))"

definition prepare_failed :: "('s, 'r) rig \<Rightarrow> ('s, 'r) rig" where
  "prepare_failed g = (set_phase E_Failed g)
     \<lparr>rg_session := snd (fail_preparation (rg_session g) (s_request_id (rg_session g)))\<rparr>"

text \<open>The request's preparation begins with the engine in its state for it, and slot 0 the request's.\<close>

definition begin_engine :: "session \<Rightarrow> (('s, 'r) rig \<Rightarrow> ('s, 'r) engine) \<Rightarrow> ('s, 'r, unit) rig_op" where
  "begin_engine session engine g =
     (case begin_preparation session (s_request_id session) of
        (Inl e, _) \<Rightarrow> (Inl e, g)
      | (Inr _, s) \<Rightarrow> (Inr (), on_native note_prefill (g\<lparr>rg_session := s, rg_engine := engine g\<rparr>)))"

definition rebind_body :: "('s, 'r) device \<Rightarrow> nat \<Rightarrow> ('s, 'r, unit) rig_op" where
  "rebind_body dv me =
     op_then (op_read (\<lambda>_. dv_write_pages dv))
     (op_then (op_update (on_engine (\<lambda>e. e\<lparr>en_buckets := rebind_buckets (en_buckets e)\<rparr>)))
     (op_then (save_initial dv)
     (op_then (validate_bindings dv)
     (op_then (save_carry dv me) finish_prepare))))"

definition engine_rebind ::
  "('s, 'r) device \<Rightarrow> nat \<Rightarrow> session \<Rightarrow> int list \<Rightarrow> nat \<Rightarrow> nat \<Rightarrow> ('s, 'r, unit) rig_op" where
  "engine_rebind dv me session pages helpers table_rows =
     op_then (op_refuse (\<lambda>g. en_phase (rg_engine g) \<noteq> E_Parked) ValueError)
     (op_then (op_read (\<lambda>_. prepare_checks session helpers table_rows))
     (op_then (op_refuse (\<lambda>g. length pages \<noteq> length (en_pages (rg_engine g))) ValueError)
     (op_bind (op_read (\<lambda>g. capture_widths (int (s_position session)) (int (length pages) * 64)
                 (int (s_verifier_rows session)) (remaining_tokens session) (en_capture_rows (rg_engine g)))) (\<lambda>widths.
      op_then (op_refuse (\<lambda>g. \<not> set widths \<subseteq> set (en_widths (rg_engine g))) ValueError)
     (op_then (begin_engine session (\<lambda>g. (rg_engine g)\<lparr>en_position := s_position session, en_pages := pages,
                  en_phase := E_Preparing\<rparr>))
      (op_except (rebind_body dv me) prepare_failed))))))"

definition engine_close :: "('s, 'r) device \<Rightarrow> nat \<Rightarrow> ('s, 'r, unit) rig_op" where
  "engine_close dv me g =
     (if en_phase (rg_engine g) = E_Closed then (Inr (), g)
      else
        op_then (op_refuse (\<lambda>g. en_phase (rg_engine g) \<notin> {E_Idle, E_Preparing, E_Failed, E_Parked}) ValueError)
       (op_then (op_read (\<lambda>_. dv_synchronize dv))
        (op_update (\<lambda>g. leave_slot me (on_engine (\<lambda>e. e\<lparr>en_carry := None, en_buckets := [], en_initial := None,
           en_phase := E_Closed, en_pending := None\<rparr>) g)))) g)"

subsection \<open>The constructor\<close>

definition restore_initial :: "('s, 'r) device \<Rightarrow> ('s, 'r, unit) rig_op" where
  "restore_initial dv g =
     (case en_initial (rg_engine g) of None \<Rightarrow> (Inr (), g) | Some i \<Rightarrow> copy_into_slot dv i g)"

definition run_capture :: "('s, 'r) device \<Rightarrow> bucket_key \<Rightarrow> ('s, 'r, unit) rig_op" where
  "run_capture dv key g =
     (case dv_capture dv key (nv_slot (rg_native g)) of
        (r, slot) \<Rightarrow> (r, on_native (\<lambda>n. n\<lparr>nv_slot := slot\<rparr>) g))"

fun capture_all :: "('s, 'r) device \<Rightarrow> (bucket_key \<Rightarrow> bool) \<Rightarrow> bucket_key list \<Rightarrow> ('s, 'r, unit) rig_op" where
  "capture_all dv skip [] = op_return ()"
| "capture_all dv skip (key # keys) =
     op_then (if skip key then op_return () else op_then (restore_initial dv) (run_capture dv key))
       (capture_all dv skip keys)"

definition plan_keys :: "replay_plan option \<Rightarrow> int list \<Rightarrow> (bucket_key \<times> int) list" where
  "plan_keys plan widths =
     (case plan of
        None \<Rightarrow> map (\<lambda>rows. (Width rows, rows)) widths
      | Some p \<Rightarrow> map (\<lambda>c. (Family (cp_rows c) (cp_capacity c), cp_rows c)) (rp_captures p))"

definition fresh_engine ::
  "session \<Rightarrow> int list \<Rightarrow> int list \<Rightarrow> int \<Rightarrow> replay_plan option \<Rightarrow> bool \<Rightarrow> 's \<Rightarrow> ('s, 'r) engine" where
  "fresh_engine session pages widths capture_rows plan t16 slot =
     \<lparr>en_phase = E_Preparing, en_pending = None, en_pending_key = None,
      en_position = s_position session, en_pages = pages, en_widths = widths,
      en_capture_rows = capture_rows, en_plan = plan, en_t16 = t16, en_initial = None, en_carry = Some slot,
      en_buckets = map (\<lambda>(key, rows). (key, \<lparr>bk_retained = (rows > 1), bk_first = True, bk_poisoned = False,
         bk_checkpoint = None, bk_records = None, bk_packed = None\<rparr>)) (plan_keys plan widths),
      en_replay_mark = None\<rparr>"

text \<open>The snapshot, the warm forwards, the captures and the carry.\<close>

definition capture_body ::
  "('s, 'r) device \<Rightarrow> (bucket_key \<Rightarrow> bool) \<Rightarrow> nat \<Rightarrow> bucket_key list \<Rightarrow> ('s, 'r, unit) rig_op" where
  "capture_body dv warmed me keys =
     op_then (save_initial dv)
     (op_then (capture_all dv warmed keys)
     (op_then (capture_all dv (\<lambda>_. False) keys)
     (op_then (restore_initial dv)
     (op_then (op_read (\<lambda>_. dv_synchronize dv))
     (op_then (validate_bindings dv)
     (op_then (save_carry dv me) finish_prepare))))))"

text \<open>\<open>replay\<close> is the replay environment and the short-context flag under attention replay; \<open>warmed\<close> says
  which buckets need no warm-up forward.\<close>

definition engine_start ::
  "('s, 'r) device \<Rightarrow> (bucket_key \<Rightarrow> bool) \<Rightarrow> nat \<Rightarrow> session \<Rightarrow> int list \<Rightarrow> nat \<Rightarrow> nat \<Rightarrow> (replay_env \<times> bool) option
     \<Rightarrow> int \<Rightarrow> int option \<Rightarrow> bool \<Rightarrow> ('s, 'r, unit) rig_op" where
  "engine_start dv warmed me session pages helpers table_rows replay max_verify_rows cap t16 =
     op_then (op_read (\<lambda>_. prepare_checks session helpers table_rows))
     (op_then (op_refuse (\<lambda>_. case cap of None \<Rightarrow> False
                 | Some c \<Rightarrow> c \<notin> set VERIFY_WIDTHS \<or> c > max_verify_rows) ValueError)
     (let capture_rows = (case cap of None \<Rightarrow> max_verify_rows | Some c \<Rightarrow> c);
          position = int (s_position session); capacity = int (length pages) * 64;
          verifier_rows = int (s_verifier_rows session)
      in op_bind (op_read (\<lambda>_. capture_widths position capacity verifier_rows (remaining_tokens session) capture_rows))
         (\<lambda>widths.
         op_bind (op_read (\<lambda>_. case replay of None \<Rightarrow> Inr None
             | Some (env, short) \<Rightarrow> rbind (capture_plan env position capacity verifier_rows
                 (remaining_tokens session) capture_rows short) (\<lambda>p. Inr (Some p)))) (\<lambda>plan.
         op_then (begin_engine session (\<lambda>g. fresh_engine session pages widths capture_rows plan t16 (nv_slot (rg_native g))))
          (op_except (capture_body dv warmed me (map fst (plan_keys plan widths)))
            (\<lambda>g. snd (engine_close dv me (prepare_failed g))))))))"

end
