(* ===== verification/FastRequest.thy ===== *)
theory FastRequest
  imports VerifierEngine SessionInvariant
begin

text \<open>
  The feature drafter's publication bridge, \<open>scripts/ci/dflash_request_runtime.py\<close>, and the
  transaction driver of one request, \<open>scripts/ci/serving_fast_request.py\<close>, composed with the session
  and the engine as the code composes them: the session calls the runtime for proposals and for
  the publication of a commit, and the runtime calls the engine.
\<close>

subsection \<open>The drafter's runtime\<close>

definition proposal_counts :: "int list" where "proposal_counts = [7, 15, 31]"

definition runtime_init :: "int \<Rightarrow> nat \<Rightarrow> int \<Rightarrow> runtime result" where
  "runtime_init position drafter_position max_drafts =
     (if position < 1 \<or> int drafter_position \<noteq> position then Inl ValueError
      else if max_drafts \<notin> set proposal_counts then Inl ValueError
      else Inr \<lparr>rt_position = nat position, rt_phase = R_Unbound, rt_proposed = [], rt_committed_rows = 0,
                rt_max_drafts = max_drafts, rt_drafter_position = drafter_position\<rparr>)"

text \<open>\<open>taps\<close> is whether the engine retains exactly the runtime's feature taps.\<close>

definition runtime_bind :: "bool \<Rightarrow> ('s, 'r, unit) rig_op" where
  "runtime_bind taps =
     op_then (op_refuse (\<lambda>g. rt_phase (rg_runtime g) \<noteq> R_Unbound \<or> s_phase (rg_session g) \<noteq> Idle
                \<or> s_position (rg_session g) \<noteq> rt_position (rg_runtime g) \<or> \<not> taps) ValueError)
      (op_update (on_runtime (\<lambda>r. r\<lparr>rt_phase := R_Idle\<rparr>)))"

definition runtime_call :: "('s, 'r) device \<Rightarrow> string \<Rightarrow> int list \<Rightarrow> int \<Rightarrow> ('s, 'r, int list) rig_op" where
  "runtime_call dv request_id history rows =
     op_then (op_refuse (\<lambda>g. rt_phase (rg_runtime g) \<noteq> R_Idle \<or> s_request_id (rg_session g) \<noteq> request_id
                \<or> s_phase (rg_session g) \<noteq> Drafting
                \<or> s_position (rg_session g) \<noteq> rt_position (rg_runtime g)
                \<or> rt_drafter_position (rg_runtime g) \<noteq> rt_position (rg_runtime g)
                \<or> history = [] \<or> Some (last history) \<noteq> s_seed (rg_session g) \<or> rows < 1) ValueError)
     (op_then (op_update (on_runtime (\<lambda>r. r\<lparr>rt_phase := R_Drafting\<rparr>)))
      (op_except
        (op_bind (op_read (\<lambda>g. dv_propose dv (last history) (min rows (rt_max_drafts (rg_runtime g))))) (\<lambda>candidates.
         op_then (op_refuse (\<lambda>g. int (length candidates) \<noteq> min rows (rt_max_drafts (rg_runtime g))
                     \<or> \<not> tokens_ok (s_vocab_size (rg_session g)) candidates) ValueError)
        (op_then (op_update (on_runtime (\<lambda>r. r\<lparr>rt_proposed := candidates, rt_phase := R_Proposed\<rparr>)))
         (op_return candidates))))
        (on_runtime (\<lambda>r. r\<lparr>rt_phase := R_Failed\<rparr>))))"

definition discard_proposal :: "('s, 'r, unit) rig_op" where
  "discard_proposal g =
     (if rt_phase (rg_runtime g) = R_Idle then (Inr (), g)
      else if rt_phase (rg_runtime g) \<noteq> R_Proposed then (Inl ValueError, g)
      else (Inr (), on_runtime (\<lambda>r. r\<lparr>rt_proposed := [], rt_phase := R_Idle\<rparr>) g))"

definition commit_history :: "('s, 'r) device \<Rightarrow> nat \<Rightarrow> ('s, 'r, unit) rig_op" where
  "commit_history dv prefix g =
     (case dv_commit_history dv (rt_drafter_position (rg_runtime g)) prefix of
        (r, position) \<Rightarrow> (r, on_runtime (\<lambda>r. r\<lparr>rt_drafter_position := position\<rparr>) g))"

definition runtime_publish :: "('s, 'r) device \<Rightarrow> nat \<Rightarrow> int \<Rightarrow> ('s, 'r, unit) rig_op" where
  "runtime_publish dv me prefix =
     op_then (op_refuse (\<lambda>g. rt_phase (rg_runtime g) \<notin> {R_Idle, R_Proposed}
                \<or> (case s_pending (rg_session g) of
                     None \<Rightarrow> True
                   | Some ticket \<Rightarrow> s_phase (rg_session g) \<noteq> Committing
                       \<or> en_phase (rg_engine g) \<noteq> E_Verified \<or> en_pending (rg_engine g) \<noteq> Some ticket
                       \<or> t_position ticket \<noteq> rt_position (rg_runtime g)
                       \<or> \<not> (0 \<le> prefix \<and> prefix \<le> int (length (t_tokens ticket))))) ValueError)
     (op_then (op_update (on_runtime (\<lambda>r. r\<lparr>rt_phase := R_Committing\<rparr>)))
      (op_except
        (op_then (if prefix = 0 then op_return ()
                  else op_then (op_read (\<lambda>_. dv_features dv))
                        (op_read (\<lambda>g. dv_prepare_history dv (nat prefix) (rt_position (rg_runtime g)))))
        (op_then (engine_publish dv me prefix)
        (op_then (if prefix = 0 then op_return () else commit_history dv (nat prefix))
        (op_then (op_refuse (\<lambda>g. rt_drafter_position (rg_runtime g) \<noteq> rt_position (rg_runtime g) + nat prefix)
                    ValueError)
         (op_update (on_runtime (\<lambda>r. r\<lparr>rt_position := rt_position r + nat prefix,
            rt_committed_rows := rt_committed_rows r + nat prefix, rt_proposed := [], rt_phase := R_Idle\<rparr>)))))))
        (\<lambda>g. set_phase E_Failed (on_runtime (\<lambda>r. r\<lparr>rt_phase := R_Failed\<rparr>) g))))"

subsection \<open>The session's calls\<close>

definition in_phase :: "phase \<Rightarrow> ('s, 'r) rig \<Rightarrow> ('s, 'r) rig" where
  "in_phase p g = g\<lparr>rg_session := (rg_session g)\<lparr>s_phase := p\<rparr>\<rparr>"

text \<open>Whether the session's proposal reaches the drafter: no lookup match, and more than the seed wanted.\<close>

definition asks_drafter :: "session \<Rightarrow> string \<Rightarrow> int \<Rightarrow> bool" where
  "asks_drafter s request_id max_rows \<longleftrightarrow>
     (let limit = min max_rows (remaining_tokens s); h = s_drafter s
      in session_owner s request_id \<and> s_phase s = Idle \<and> \<not> s_finished s
         \<and> max_rows \<in> int ` set verifier_widths \<and> max_rows \<le> int (s_verifier_rows s) \<and> limit > 1
         \<and> lookup_owner (h_lookup h) request_id \<and> 1 \<le> limit - 1 \<and> limit - 1 \<le> l_max_proposals (h_lookup h)
         \<and> (h_lookup_enabled h \<longrightarrow>
              (case propose_with_match (h_lookup h) request_id (limit - 1) of
                 Inl _ \<Rightarrow> False | Inr (tokens, _) \<Rightarrow> tokens = [])))"

definition with_drafter :: "('s, 'r) device \<Rightarrow> ('s, 'r) rig \<Rightarrow> session" where
  "with_drafter dv g = (rg_session g)\<lparr>s_drafter := (s_drafter (rg_session g))\<lparr>h_neural :=
     [''dflash2'' \<mapsto> (\<lambda>r history rows. fst (runtime_call dv r history rows (in_phase Drafting g)))]\<rparr>\<rparr>"

definition propose_ticket :: "('s, 'r) device \<Rightarrow> string \<Rightarrow> int \<Rightarrow> ('s, 'r, block_ticket) rig_op" where
  "propose_ticket dv request_id rows g =
     (let s = rg_session g;
          drafted = (if asks_drafter s request_id rows
                     then snd (runtime_call dv request_id (l_history (h_lookup (s_drafter s)))
                                 (min rows (remaining_tokens s) - 1) (in_phase Drafting g))
                     else g)
      in case session_propose (with_drafter dv g) request_id rows (Some ''dflash2'') of
           (r, s') \<Rightarrow> (r, g\<lparr>rg_session := s', rg_runtime := rg_runtime drafted\<rparr>))"

text \<open>The prefix a commit publishes, if it gets as far as publishing.\<close>

definition published_prefix :: "session \<Rightarrow> string \<Rightarrow> block_ticket \<Rightarrow> int list \<Rightarrow> int option \<Rightarrow> nat option" where
  "published_prefix s request_id ticket predictions max_rows =
     (if \<not> ticket_live s request_id ticket
         \<or> (case max_rows of None \<Rightarrow> False | Some m \<Rightarrow> \<not> (1 \<le> m \<and> m \<le> int (length (t_tokens ticket))))
      then None
      else (case select_prefix (fst (commit_inputs ticket predictions max_rows))
                   (snd (commit_inputs ticket predictions max_rows)) (s_vocab_size s) (s_eos_ids s)
                   (int (s_verifier_rows s) - 1) of
              Inl _ \<Rightarrow> None | Inr d \<Rightarrow> Some (d_state_rows d)))"

definition callback_of :: "unit result \<Rightarrow> callback" where
  "callback_of r = (case r of Inl _ \<Rightarrow> Raises | Inr _ \<Rightarrow> Returns_None)"

definition commit_ticket ::
  "('s, 'r) device \<Rightarrow> nat \<Rightarrow> string \<Rightarrow> block_ticket \<Rightarrow> int list \<Rightarrow> int option \<Rightarrow> ('s, 'r, decision) rig_op" where
  "commit_ticket dv me request_id ticket predictions max_rows g =
     (let publish = (\<lambda>n. runtime_publish dv me (int n) (in_phase Committing g));
          published = (case published_prefix (rg_session g) request_id ticket predictions max_rows of
                         None \<Rightarrow> g | Some n \<Rightarrow> snd (publish n))
      in case session_commit (rg_session g) request_id ticket predictions
                (\<lambda>n. callback_of (fst (publish n))) max_rows of
           (r, s) \<Rightarrow> (r, published\<lparr>rg_session := s\<rparr>))"

definition abort_ticket :: "('s, 'r) device \<Rightarrow> nat \<Rightarrow> string \<Rightarrow> block_ticket \<Rightarrow> ('s, 'r, unit) rig_op" where
  "abort_ticket dv me request_id ticket g =
     (let restore = (\<lambda>n. runtime_publish dv me (int n) (in_phase Committing g));
          restored = (if ticket_live (rg_session g) request_id ticket then snd (restore 0) else g)
      in case session_abort (rg_session g) request_id ticket (\<lambda>n. callback_of (fst (restore n))) of
           (r, s) \<Rightarrow> (r, restored\<lparr>rg_session := s\<rparr>))"

subsection \<open>The request\<close>

record committed_output =
  co_request_id :: string
  co_token_ids :: "int list"
  co_position :: nat
  co_finished :: bool
  co_cancelled :: bool

definition fast_request_init :: "('s, 'r) rig \<Rightarrow> bool \<Rightarrow> (('s, 'r) rig) result" where
  "fast_request_init g taps =
     (if s_phase (rg_session g) \<noteq> Idle \<or> en_phase (rg_engine g) \<noteq> E_Idle \<or> s_verifier_rows (rg_session g) \<noteq> 16
      then Inl ValueError
      else (case runtime_bind taps g of
              (Inl e, _) \<Rightarrow> Inl e
            | (Inr _, g) \<Rightarrow> Inr (g\<lparr>rg_closed := False, rg_cancelled := False, rg_busy := False\<rparr>)))"

definition set_busy :: "bool \<Rightarrow> ('s, 'r) rig \<Rightarrow> ('s, 'r) rig" where
  "set_busy b g = g\<lparr>rg_busy := b\<rparr>"

definition request_prepare :: "('s, 'r) device \<Rightarrow> string \<Rightarrow> int option \<Rightarrow> ('s, 'r, block_ticket) rig_op" where
  "request_prepare dv request_id packed_rows =
     op_then (op_refuse (\<lambda>g. rg_closed g \<or> rg_busy g \<or> rg_cancelled g \<or> request_id \<noteq> s_request_id (rg_session g)
                \<or> s_phase (rg_session g) \<noteq> Idle \<or> s_finished (rg_session g)
                \<or> en_phase (rg_engine g) \<noteq> E_Idle) ValueError)
     (op_then (op_update (set_busy True))
      (op_finally
        (op_bind (op_read (\<lambda>g. proposal_rows (rg_engine g) (rg_session g) packed_rows)) (\<lambda>rows.
         op_then (op_refuse (\<lambda>_. rows \<notin> {1, 2, 4, 8, 16}) ValueError)
          (propose_ticket dv request_id rows)))
        (set_busy False)))"

definition output_of :: "string \<Rightarrow> int list \<Rightarrow> bool \<Rightarrow> bool \<Rightarrow> ('s, 'r) rig \<Rightarrow> committed_output" where
  "output_of request_id tokens finished cancelled g =
     \<lparr>co_request_id = request_id, co_token_ids = tokens, co_position = s_position (rg_session g),
      co_finished = finished, co_cancelled = cancelled\<rparr>"

definition set_cancelled :: "('s, 'r) rig \<Rightarrow> ('s, 'r) rig" where
  "set_cancelled g = g\<lparr>rg_cancelled := True\<rparr>"

text \<open>The handler of \<open>step\<close>: a verified block is rolled back, any other pending ticket fails the session.\<close>

definition step_failed :: "('s, 'r) device \<Rightarrow> nat \<Rightarrow> string \<Rightarrow> block_ticket \<Rightarrow> ('s, 'r) rig \<Rightarrow> ('s, 'r) rig" where
  "step_failed dv me request_id ticket g =
     (if s_phase (rg_session g) = Pending
      then if en_phase (rg_engine g) = E_Verified
           then in_phase Failed (snd (abort_ticket dv me request_id ticket g))
           else g\<lparr>rg_session := snd (fail_verification (rg_session g) request_id ticket)\<rparr>
      else g)"

definition cancel_pending :: "string \<Rightarrow> ('s, 'r, unit) rig_op" where
  "cancel_pending request_id g =
     (case s_pending (rg_session g) of
        None \<Rightarrow> (Inr (), g)
      | Some ticket \<Rightarrow> on_session (\<lambda>s. fail_verification s request_id ticket) g)"

definition step_block ::
  "('s, 'r) device \<Rightarrow> nat \<Rightarrow> string \<Rightarrow> bool result \<Rightarrow> block_ticket \<Rightarrow> ('s, 'r, committed_output) rig_op" where
  "step_block dv me request_id cancelled ticket =
     op_bind (engine_verify dv me ticket) (\<lambda>predictions.
     op_bind (op_read (\<lambda>_. cancelled)) (\<lambda>c.
       if c then op_then (abort_ticket dv me request_id ticket)
                (op_then (op_update set_cancelled) (\<lambda>g. (Inr (output_of request_id [] True True g), g)))
       else op_bind (commit_ticket dv me request_id ticket predictions None) (\<lambda>d g.
              (Inr (output_of request_id (d_emitted d) (s_finished (rg_session g)) False g), g))))"

text \<open>\<open>first\<close> and \<open>second\<close> are what the two calls of the cancellation callback answer or raise.\<close>

definition request_step ::
  "('s, 'r) device \<Rightarrow> nat \<Rightarrow> string \<Rightarrow> bool result \<Rightarrow> bool result \<Rightarrow> ('s, 'r, committed_output) rig_op" where
  "request_step dv me request_id first second =
     op_then (op_refuse (\<lambda>g. rg_closed g \<or> rg_busy g \<or> rg_cancelled g \<or> request_id \<noteq> s_request_id (rg_session g)
                \<or> s_phase (rg_session g) \<notin> {Idle, Pending}) ValueError)
     (op_bind (op_read (\<lambda>_. first)) (\<lambda>c.
        if c then op_then (cancel_pending request_id)
                 (op_then (op_update set_cancelled) (\<lambda>g. (Inr (output_of request_id [] True True g), g)))
        else (\<lambda>g. if s_finished (rg_session g) then (Inr (output_of request_id [] True False g), g)
             else op_bind (\<lambda>g. case s_pending (rg_session g) of
                        Some ticket \<Rightarrow> (Inr ticket, g) | None \<Rightarrow> request_prepare dv request_id None g) (\<lambda>ticket.
                  op_then (op_update (set_busy True))
                   (op_finally (op_except (step_block dv me request_id second ticket)
                                  (step_failed dv me request_id ticket)) (set_busy False))) g)))"

text \<open>\<open>release\<close> stands for the engine's release in place of its close (a parked engine's park), and
  \<open>drafter_released\<close> for what releasing the drafter answers.\<close>

definition request_close ::
  "('s, 'r) device \<Rightarrow> nat \<Rightarrow> string \<Rightarrow> ('s, 'r, unit) rig_op option \<Rightarrow> unit result \<Rightarrow> ('s, 'r, unit) rig_op" where
  "request_close dv me request_id release drafter_released =
     op_then (op_refuse (\<lambda>g. request_id \<noteq> s_request_id (rg_session g) \<or> rg_busy g) ValueError)
      (\<lambda>g. if rg_closed g then (Inr (), g)
       else op_then (\<lambda>g. if s_phase (rg_session g) = Pending \<and> en_phase (rg_engine g) = E_Idle
                         then cancel_pending request_id g else (Inr (), g))
           (op_then (case release of None \<Rightarrow> engine_close dv me | Some r \<Rightarrow> r)
           (op_then (op_read (\<lambda>_. drafter_released))
           (op_then (on_session (\<lambda>s. session_close s request_id))
            (op_update (\<lambda>g. g\<lparr>rg_closed := True\<rparr>))))) g)"

end
