(* ===== verification/SlotSharing.thy ===== *)
theory SlotSharing
  imports FastRequest Transition
begin

text \<open>
  Several requests decode through one native GDN slot. What the engines rely on of the device is
  \<open>device_ok\<close>; that each of them then verifies on its own recurrent state, whatever the others did
  in between, is shown operation by operation here.

  \<open>st xs\<close> is the recurrent state after the tokens xs, and f the target model's greedy choice after a
  context.
\<close>

definition device_ok :: "(int list \<Rightarrow> int) \<Rightarrow> (int list \<Rightarrow> 's) \<Rightarrow> ('s, 'r) device \<Rightarrow> bool" where
  "device_ok f st dv \<longleftrightarrow>
     (\<forall>a b b'. dv_copy dv a b = (Inr (), b') \<longrightarrow> b' = a)
   \<and> (\<forall>key xs pos ts ps cp rec slot. dv_replay dv key (st xs) pos ts = (Inr (ps, cp, rec), slot) \<longrightarrow>
        ps = target_rows f xs ts \<and> cp = st xs \<and> (length ts = 1 \<longrightarrow> slot = st (xs @ ts))
        \<and> (\<forall>n a a'. n \<le> length ts \<longrightarrow> dv_commit dv (Some rec) n a = (Inr (), a') \<longrightarrow> a' = st (xs @ take n ts)))"

text \<open>A block holds the states of its segments: a commit it accepts of a segment is right for the tokens it
  verified there.\<close>

definition segment_ok :: "(int list \<Rightarrow> 's) \<Rightarrow> ('s, 'r) device \<Rightarrow> 'r block \<Rightarrow> nat \<Rightarrow> int list \<Rightarrow> int list \<Rightarrow> bool" where
  "segment_ok st dv b segment xs ts \<longleftrightarrow>
     (\<forall>n c. 0 < n \<longrightarrow> n \<le> length ts \<longrightarrow> block_commit_check segment (int n) b = Inr () \<longrightarrow> dv_block_commit dv (map_of (bl_records b) segment) n (st xs) = (Inr (), c) \<longrightarrow>
        c = st (xs @ take n ts))"

lemma device_copy: "device_ok f st dv \<Longrightarrow> dv_copy dv a b = (Inr (), b') \<Longrightarrow> b' = a"
  by (simp add: device_ok_def)

lemma device_replay:
  assumes "device_ok f st dv" and "dv_replay dv key (st xs) pos ts = (Inr (ps, cp, rec), slot)"
  shows "ps = target_rows f xs ts" and "cp = st xs" and "length ts = 1 \<Longrightarrow> slot = st (xs @ ts)"
    and "n \<le> length ts \<Longrightarrow> dv_commit dv (Some rec) n a = (Inr (), a') \<Longrightarrow> a' = st (xs @ take n ts)"
  using assms unfolding device_ok_def by meson+

subsection \<open>Engines keep a carry and well-formed buckets\<close>

definition bucket_ok :: "bucket_key \<times> ('s, 'r) bucket \<Rightarrow> bool" where
  "bucket_ok kb \<longleftrightarrow> (case fst kb of
     Width r \<Rightarrow> bk_retained (snd kb) = (r > 1) | Family r _ \<Rightarrow> bk_retained (snd kb) = (r > 1) | Packed _ \<Rightarrow> True)
     \<and> (bk_packed (snd kb) = None \<longleftrightarrow> (\<forall>segment. fst kb \<noteq> Packed segment))"

definition engine_wf :: "('s, 'r) rig \<Rightarrow> bool" where
  "engine_wf g \<longleftrightarrow> en_phase (rg_engine g) = E_Closed
     \<or> (en_carry (rg_engine g) \<noteq> None \<and> list_all bucket_ok (en_buckets (rg_engine g)))"

definition owned :: "nat \<Rightarrow> ('s, 'r) rig \<Rightarrow> bool" where
  "owned me g \<longleftrightarrow> nv_resident (rg_native g) = Some me \<or> nv_resident (rg_native g) = None"

lemma list_all_dict_set: "list_all P d \<Longrightarrow> P (k, v) \<Longrightarrow> list_all P (dict_set k v d)"
  by (induction d) auto

lemma list_all_dict_del: "list_all P d \<Longrightarrow> list_all P (dict_del k d)"
  by (simp add: dict_del_def list_all_iff)

lemma list_all_set_bucket:
  "list_all bucket_ok bs \<Longrightarrow> (\<And>b. bk_retained (f b) = bk_retained b \<and> bk_packed (f b) = bk_packed b) \<Longrightarrow>
     list_all bucket_ok (map (\<lambda>(k, b). (k, if k = key then f b else b)) bs)"
proof -
  assume *: "list_all bucket_ok bs" and f: "\<And>b. bk_retained (f b) = bk_retained b \<and> bk_packed (f b) = bk_packed b"
  have "bucket_ok (k, if k = key then f b else b) = bucket_ok (k, b)" for k b
    using f by (simp add: bucket_ok_def cong: bucket_key.case_cong)
  then show ?thesis using * by (simp add: list_all_iff case_prod_beta)
qed

lemmas engine_ops =
  engine_verify_def verify_body_def check_ticket_def validate_bindings_def restore_carry_def save_carry_def
  check_carry_def replay_bucket_def engine_publish_def publish_body_def commit_segment_def commit_retained_def
  commit_plain_def check_replay_mark_def copy_into_slot_def copy_into_carry_def set_bucket_def engine_fail_def
  settle_segment_def set_block_def claim_slot_def

lemma wf_parts [keep]:
  "preserves engine_wf (restore_carry dv me)" "preserves engine_wf (save_carry dv me)"
  "preserves engine_wf (validate_bindings dv)" "preserves engine_wf (check_ticket t)"
  "preserves engine_wf (replay_bucket dv key t)" "preserves engine_wf (commit_retained dv b n)"
  "preserves engine_wf (commit_plain dv b n)" "preserves engine_wf check_replay_mark"
  "preserves engine_wf (commit_segment dv key pk n)"
  by (auto simp: preserves_def engine_wf_def engine_ops op_then_def op_bind_def op_refuse_def Let_def
      list_all_dict_del note_packed_step_def
      split: prod.splits sum.splits option.splits if_splits intro!: list_all_set_bucket)

lemma owned_parts [keep]:
  "preserves (owned me) (restore_carry dv me)" "preserves (owned me) (save_carry dv me)"
  "preserves (owned me) (validate_bindings dv)" "preserves (owned me) (check_ticket t)"
  "preserves (owned me) (replay_bucket dv key t)" "preserves (owned me) (commit_retained dv b n)"
  "preserves (owned me) (commit_plain dv b n)" "preserves (owned me) check_replay_mark"
  "preserves (owned me) (commit_segment dv key pk n)"
  by (auto simp: preserves_def owned_def engine_ops op_then_def op_bind_def op_refuse_def Let_def
      note_packed_step_def split: prod.splits sum.splits option.splits if_splits)

lemma wf_update [simp]:
  "engine_wf (g\<lparr>rg_session := s\<rparr>) = engine_wf g"
  "owned me (g\<lparr>rg_session := s\<rparr>) = owned me g"
  "owned me (on_engine h g) = owned me g"
  "owned me (set_phase p g) = owned me g"
  by (simp_all add: engine_wf_def owned_def)

lemma wf_phase: "engine_wf g \<Longrightarrow> en_phase (rg_engine g) \<noteq> E_Closed \<Longrightarrow> engine_wf (set_phase p g)"
  by (simp add: engine_wf_def)

lemma publish_body_owned: "preserves (owned me) (publish_body dv me key n)"
  unfolding publish_body_def publish_plain_def by (intro keep) (simp_all add: owned_def)

text \<open>While its block is in flight the engine is not closed.\<close>

definition open_wf :: "('s, 'r) rig \<Rightarrow> bool" where
  "open_wf g \<longleftrightarrow> en_carry (rg_engine g) \<noteq> None \<and> list_all bucket_ok (en_buckets (rg_engine g))"

lemma open_wf_parts [keep]:
  "preserves open_wf (restore_carry dv me)" "preserves open_wf (save_carry dv me)"
  "preserves open_wf (validate_bindings dv)" "preserves open_wf (check_ticket t)"
  "preserves open_wf (replay_bucket dv key t)" "preserves open_wf (commit_retained dv b n)"
  "preserves open_wf (commit_plain dv b n)" "preserves open_wf check_replay_mark"
  "preserves open_wf (commit_segment dv key pk n)"
  by (auto simp: preserves_def open_wf_def engine_ops op_then_def op_bind_def op_refuse_def Let_def
      list_all_dict_del note_packed_step_def
      split: prod.splits sum.splits option.splits if_splits intro!: list_all_set_bucket)

lemma open_wf_update [simp]:
  "open_wf (g\<lparr>rg_session := s\<rparr>) = open_wf g" "open_wf (set_phase p g) = open_wf g"
  by (simp_all add: open_wf_def)

lemma open_wf_bucket: "open_wf g \<Longrightarrow> (\<And>b. bk_retained (f b) = bk_retained b \<and> bk_packed (f b) = bk_packed b) \<Longrightarrow> open_wf (set_bucket key f g)"
  by (auto simp: open_wf_def set_bucket_def intro!: list_all_set_bucket)

lemma publish_body_open: "preserves open_wf (publish_body dv me key n)"
  unfolding publish_body_def publish_plain_def by (intro keep) (simp_all add: open_wf_def)

lemma verify_body_open: "preserves open_wf (verify_body dv me key t)"
  unfolding verify_body_def by (intro keep open_wf_bucket) (auto intro: open_wf_bucket)

lemma verify_body_owned: "preserves (owned me) (verify_body dv me key t)"
  unfolding verify_body_def by (intro keep) (auto simp: owned_def set_bucket_def)

subsection \<open>A verify reads the request's own state\<close>

definition live_at :: "(int list \<Rightarrow> 's) \<Rightarrow> nat \<Rightarrow> int list \<Rightarrow> ('s, 'r) rig \<Rightarrow> bool" where
  "live_at st me xs g \<longleftrightarrow> en_carry (rg_engine g) = Some (st xs)
     \<and> (nv_resident (rg_native g) = Some me \<longrightarrow> nv_slot (rg_native g) = st xs)
     \<and> list_all bucket_ok (en_buckets (rg_engine g))"

text \<open>A block verified and not yet published.\<close>

definition verified_at :: "(int list \<Rightarrow> 's) \<Rightarrow> ('s, 'r) device \<Rightarrow> nat \<Rightarrow> int list \<Rightarrow> block_ticket \<Rightarrow> ('s, 'r) rig \<Rightarrow> bool" where
  "verified_at st dv me xs t g \<longleftrightarrow> en_phase (rg_engine g) = E_Verified \<and> en_pending (rg_engine g) = Some t \<and> open_wf g
     \<and> (case en_pending_key (rg_engine g) of
          None \<Rightarrow> False
        | Some (Packed seg) \<Rightarrow> en_carry (rg_engine g) = Some (st xs)
            \<and> (\<exists>blk s. packed_of (rg_engine g) (Packed seg) = Some (blk, s)
                  \<and> segment_ok st dv (nv_blocks (rg_native g) blk) s xs (t_tokens t))
        | Some key \<Rightarrow> nv_resident (rg_native g) = Some me
            \<and> (\<exists>b. map_of (en_buckets (rg_engine g)) key = Some b
                \<and> (if bk_retained b
                   then \<exists>rec. bk_records b = Some rec \<and> (\<forall>n a a'. n \<le> length (t_tokens t) \<longrightarrow>
                          dv_commit dv (Some rec) n a = (Inr (), a') \<longrightarrow> a' = st (xs @ take n (t_tokens t)))
                   else bk_checkpoint b = Some (st xs) \<and> length (t_tokens t) = 1
                      \<and> nv_slot (rg_native g) = st (xs @ t_tokens t))))"

lemma map_of_set_bucket:
  "map_of (map (\<lambda>(k, b). (k, if k = key then f b else b)) bs) key = map_option f (map_of bs key)"
  by (induction bs) auto

lemma restore_carry_own:
  assumes "device_ok f st dv" and "live_at st me xs g" and "restore_carry dv me g = (Inr r, g')"
  shows "nv_resident (rg_native g') = Some me" and "nv_slot (rg_native g') = st xs"
    and "rg_engine g' = rg_engine g" and "rg_session g' = rg_session g" and "rg_runtime g' = rg_runtime g"
  using assms(2,3) device_copy [OF assms(1)]
  by (auto simp: live_at_def restore_carry_def op_then_Inr op_refuse_Inr check_carry_def claim_slot_def
      copy_into_slot_def split: if_splits prod.splits)

lemma only_element: "(case xs of [x] \<Rightarrow> Inr x | _ \<Rightarrow> Inl e) = Inr c \<longleftrightarrow> xs = [c]"
  by (cases xs; cases "tl xs") (auto split: list.split)

lemma plan_select_rows: "plan_select plan p w r = Inr c \<Longrightarrow> cp_rows c = w"
proof -
  assume "plan_select plan p w r = Inr c"
  then obtain cs where "filter (\<lambda>c. cp_rows c = w) cs = [c]"
    by (auto simp: plan_select_def rbind_Inr_iff only_element)
  then have "c \<in> set (filter (\<lambda>c. cp_rows c = w) cs)" by simp
  then show ?thesis by simp
qed

lemma engine_bucket_key_shape:
  assumes "engine_bucket_key e s t = Inr key"
  shows "key = Width (int (length (t_tokens t))) \<or> (\<exists>c. key = Family (int (length (t_tokens t))) c)"
  using assms
  by (auto simp: engine_bucket_key_def rbind_Inr_iff split: option.splits dest: plan_select_rows)

lemma bucket_ok_of_map: "list_all bucket_ok bs \<Longrightarrow> map_of bs k = Some b \<Longrightarrow> bucket_ok (k, b)"
  by (auto simp: list_all_iff dest: map_of_SomeD)

lemma engine_verify_sound:
  assumes dev: "device_ok f st dv" and live: "live_at st me xs g"
    and run: "engine_verify dv me t g = (Inr ps, g')" and tok: "t_tokens t \<noteq> []"
  shows "ps = target_rows f xs (t_tokens t)" and "verified_at st dv me xs t g'"
    and "rg_session g' = rg_session g" and "rg_runtime g' = rg_runtime g"
    and "en_position (rg_engine g') = en_position (rg_engine g)"
    and "ticket_live (rg_session g) (s_request_id (rg_session g)) t"
proof -
  from run obtain key b where
    tl: "ticket_live (rg_session g) (s_request_id (rg_session g)) t"
    and key: "engine_bucket_key (rg_engine g) (rg_session g) t = Inr key"
    and b: "map_of (en_buckets (rg_engine g)) key = Some b"
    and body: "verify_body dv me key t (on_engine (\<lambda>e. e\<lparr>en_phase := E_Verifying, en_pending := Some t,
                 en_pending_key := Some key\<rparr>) g) = (Inr ps, g')"
    by (auto simp: engine_verify_def check_ticket_def op_returned)
  let ?g1 = "on_engine (\<lambda>e. e\<lparr>en_phase := E_Verifying, en_pending := Some t, en_pending_key := Some key\<rparr>) g"
  have live1: "live_at st me xs ?g1" using live by (simp add: live_at_def)
  from body obtain r g2 g3 where res: "restore_carry dv me ?g1 = (Inr r, g2)"
    and rep: "replay_bucket dv key t g2 = (Inr ps, g3)"
    and g': "g' = set_phase E_Verified (set_bucket key (\<lambda>b. b\<lparr>bk_first := False\<rparr>) g3)"
    by (auto simp: verify_body_def validate_bindings_def op_returned)
  note own = restore_carry_own [OF dev live1 res]
  from rep own(2) obtain cp rec slot where dr: "dv_replay dv key (st xs) (t_position t) (t_tokens t) = (Inr (ps, cp, rec), slot)"
    and g3: "rg_native g3 = (rg_native g2)\<lparr>nv_slot := slot, nv_replays := map_option Suc (nv_replays (rg_native g2))\<rparr>"
      "en_buckets (rg_engine g3) = map (\<lambda>(k, b). (k, if k = key then b\<lparr>bk_checkpoint := Some cp, bk_records := Some rec\<rparr> else b)) (en_buckets (rg_engine g2))"
      "en_phase (rg_engine g3) = en_phase (rg_engine g2)" "en_pending (rg_engine g3) = en_pending (rg_engine g2)"
      "en_pending_key (rg_engine g3) = en_pending_key (rg_engine g2)" "en_carry (rg_engine g3) = en_carry (rg_engine g2)"
      "en_position (rg_engine g3) = en_position (rg_engine g2)"
      "rg_session g3 = rg_session g2" "rg_runtime g3 = rg_runtime g2"
    by (auto simp: replay_bucket_def set_bucket_def Let_def split: prod.splits sum.splits option.splits)
  note d = device_replay [OF dev dr]
  show "ps = target_rows f xs (t_tokens t)" by (rule d(1))
  show "rg_session g' = rg_session g" "rg_runtime g' = rg_runtime g"
    "en_position (rg_engine g') = en_position (rg_engine g)"
    using own(3,4,5) g3 by (simp_all add: g' set_bucket_def)
  show "ticket_live (rg_session g) (s_request_id (rg_session g)) t" by (rule tl)
  have "bucket_ok (key, b)" using live b by (auto simp: live_at_def intro: bucket_ok_of_map)
  then have ret: "bk_retained b \<longleftrightarrow> length (t_tokens t) > 1" and np: "\<And>seg. key \<noteq> Packed seg"
    using engine_bucket_key_shape [OF key] by (auto simp: bucket_ok_def)
  have one: "\<not> bk_retained b \<Longrightarrow> length (t_tokens t) = 1"
    using ret tok by (cases "t_tokens t") auto
  let ?b = "b\<lparr>bk_checkpoint := Some cp, bk_records := Some rec, bk_first := False\<rparr>"
  have look: "map_of (en_buckets (rg_engine g')) key = Some ?b"
    using own(3) g3(2) b by (simp add: g' set_bucket_def map_of_set_bucket del: map_map)
  have "open_wf ?g1" using live by (auto simp: live_at_def open_wf_def)
  then have "open_wf g'" using preservesD [OF verify_body_open _ body] by blast
  moreover have "en_phase (rg_engine g') = E_Verified" "en_pending (rg_engine g') = Some t"
      "en_pending_key (rg_engine g') = Some key" "nv_resident (rg_native g') = Some me" "nv_slot (rg_native g') = slot"
    using own g3 by (simp_all add: g' set_bucket_def)
  ultimately show "verified_at st dv me xs t g'"
    using look np one d(2,3,4) by (cases key) (auto simp: verified_at_def)
qed

subsection \<open>A publication moves the carry by the committed prefix\<close>

lemma keeps_parts [keep]:
  "keeps rg_session (restore_carry dv me)" "keeps rg_runtime (restore_carry dv me)"
  "keeps rg_session (save_carry dv me)" "keeps rg_runtime (save_carry dv me)"
  "keeps rg_session (validate_bindings dv)" "keeps rg_runtime (validate_bindings dv)"
  "keeps rg_session (replay_bucket dv key t)" "keeps rg_runtime (replay_bucket dv key t)"
  "keeps rg_session (commit_retained dv b n)" "keeps rg_runtime (commit_retained dv b n)"
  "keeps rg_session (commit_plain dv b n)" "keeps rg_runtime (commit_plain dv b n)"
  "keeps rg_session check_replay_mark" "keeps rg_runtime check_replay_mark"
  "keeps rg_session (commit_segment dv key pk n)" "keeps rg_runtime (commit_segment dv key pk n)"
  by (auto simp: keeps_def engine_ops op_then_def op_bind_def op_refuse_def Let_def
      split: prod.splits sum.splits option.splits if_splits)

lemma keeps_publish_body:
  "keeps rg_session (publish_body dv me key n)" "keeps rg_runtime (publish_body dv me key n)"
  unfolding publish_body_def publish_plain_def by (intro keep; simp)+

lemma keeps_publish_keyed:
  "keeps rg_session (publish_keyed dv me key n)" "keeps rg_runtime (publish_keyed dv me key n)"
  unfolding publish_keyed_def by (intro keep keeps_publish_body; simp)+

lemma engine_publish_seq:
  assumes "en_pending (rg_engine g) = Some t"
  obtains m where "engine_publish dv me p g =
      op_then (op_refuse (\<lambda>g. en_phase (rg_engine g) \<noteq> E_Verified \<or> s_pending (rg_session g) \<noteq> Some t
                     \<or> s_phase (rg_session g) \<noteq> Committing) ValueError)
         (op_then (op_refuse (\<lambda>_. \<not> (0 \<le> p \<and> p \<le> int (length (t_tokens t)))) ValueError)
         (op_then (op_update (set_phase E_Committing)) m)) g"
    and "m = op_raise KeyError \<or> (\<exists>key. en_pending_key (rg_engine g) = Some key \<and> m = publish_keyed dv me key (nat p))"
  using assms by (cases "en_pending_key (rg_engine g)") (auto simp: engine_publish_def)

lemma engine_publish_frame:
  assumes "engine_publish dv me p g = (r, g')"
  shows "rg_session g' = rg_session g" and "rg_runtime g' = rg_runtime g"
proof -
  have "rg_session g' = rg_session g \<and> rg_runtime g' = rg_runtime g"
  proof (cases "en_pending (rg_engine g)")
    case None
    then show ?thesis using assms by (simp add: engine_publish_def)
  next
    case (Some t)
    then obtain m where m: "engine_publish dv me p g =
      op_then (op_refuse (\<lambda>g. en_phase (rg_engine g) \<noteq> E_Verified \<or> s_pending (rg_session g) \<noteq> Some t
                     \<or> s_phase (rg_session g) \<noteq> Committing) ValueError)
         (op_then (op_refuse (\<lambda>_. \<not> (0 \<le> p \<and> p \<le> int (length (t_tokens t)))) ValueError)
         (op_then (op_update (set_phase E_Committing)) m)) g" (is "_ = ?m g")
      and cases_m: "m = op_raise KeyError \<or> (\<exists>key. en_pending_key (rg_engine g) = Some key \<and> m = publish_keyed dv me key (nat p))"
      by (rule engine_publish_seq)
    have "keeps rg_session m" "keeps rg_runtime m" using cases_m keeps_publish_keyed by (auto intro: keep)
    then have "keeps rg_session ?m" "keeps rg_runtime ?m" by (intro keep; simp)+
    from this [THEN keepsD, OF assms [unfolded m]] show ?thesis by blast
  qed
  then show "rg_session g' = rg_session g" "rg_runtime g' = rg_runtime g" by blast+
qed

lemma engine_publish_Inl:
  assumes "engine_publish dv me p g = (Inl e, g')" and "en_phase (rg_engine g) = E_Verified"
  shows "en_phase (rg_engine g') \<noteq> E_Idle"
  using assms by (auto simp: engine_publish_def publish_keyed_def op_raised op_returned split: option.splits)

lemma engine_publish_body:
  assumes "engine_publish dv me (int n) g = (Inr u, g')" and "verified_at st dv me xs t g"
  obtains key where "en_pending_key (rg_engine g) = Some key" and "n \<le> length (t_tokens t)"
    and "publish_body dv me key n (set_phase E_Committing g) = (Inr (), g')"
  using assms by (auto simp: engine_publish_def publish_keyed_def op_returned verified_at_def split: option.splits)

lemma save_carry_own:
  assumes "device_ok f st dv" and "save_carry dv me g = (Inr u, g')" and "open_wf g"
  shows "en_carry (rg_engine g') = Some (nv_slot (rg_native g))" and "nv_slot (rg_native g') = nv_slot (rg_native g)"
    and "nv_resident (rg_native g') = Some me" and "en_buckets (rg_engine g') = en_buckets (rg_engine g)"
    and "en_position (rg_engine g') = en_position (rg_engine g)"
  using assms(2,3) device_copy [OF assms(1)]
  by (auto simp: save_carry_def op_then_Inr op_refuse_Inr check_carry_def claim_slot_def copy_into_carry_def
      open_wf_def split: option.splits prod.splits)

lemma live_atI: "en_carry (rg_engine g) = Some (st xs) \<Longrightarrow> nv_slot (rg_native g) = st xs \<Longrightarrow> open_wf g \<Longrightarrow> live_at st me xs g"
  by (simp add: live_at_def open_wf_def)

lemma engine_publish_sound:
  assumes dev: "device_ok f st dv" and ver: "verified_at st dv me xs t g"
    and pub: "engine_publish dv me (int n) g = (Inr u, g')"
  shows "live_at st me (xs @ take n (t_tokens t)) g'" and "n \<le> length (t_tokens t)"
    and "en_phase (rg_engine g') = E_Idle" and "en_pending (rg_engine g') = None"
    and "en_position (rg_engine g') = en_position (rg_engine g) + n"
proof -
  obtain key where key: "en_pending_key (rg_engine g) = Some key" and n: "n \<le> length (t_tokens t)"
    and body: "publish_body dv me key n (set_phase E_Committing g) = (Inr (), g')"
    using pub ver by (rule engine_publish_body)
  let ?g0 = "set_phase E_Committing g"
  have wf0: "open_wf ?g0" using ver by (simp add: verified_at_def)
  have wf': "open_wf g'" using preservesD [OF publish_body_open wf0 body] .
  let ?done = "\<lambda>g. on_engine (\<lambda>e. e\<lparr>en_position := en_position e + n, en_phase := E_Idle,
         en_pending := None, en_pending_key := None\<rparr>) g"
  show "n \<le> length (t_tokens t)" by (rule n)
  have *: "live_at st me (xs @ take n (t_tokens t)) g' \<and> en_phase (rg_engine g') = E_Idle
      \<and> en_pending (rg_engine g') = None \<and> en_position (rg_engine g') = en_position (rg_engine g) + n"
  proof (cases "\<exists>seg. key = Packed seg")
    case True
    then obtain seg where seg: "key = Packed seg" by blast
    then obtain blk s where carry: "en_carry (rg_engine g) = Some (st xs)"
      and pk: "packed_of (rg_engine g) key = Some (blk, s)"
      and ok: "segment_ok st dv (nv_blocks (rg_native g) blk) s xs (t_tokens t)"
      using ver key by (auto simp: verified_at_def)
    from body pk carry obtain c b' where
      settle: "block_settle (dv_block_bindings dv) (dv_synchronize dv) (dv_block_commit dv) s n (st xs)
          (nv_blocks (rg_native g) blk) = (Inr (), c, b')"
      and acc: "block_commit_check s (int n) (nv_blocks (rg_native g) blk) = Inr ()"
      and g': "en_carry (rg_engine g') = Some c" "nv_resident (rg_native g') = None"
        "en_phase (rg_engine g') = E_Idle" "en_pending (rg_engine g') = None"
        "en_position (rg_engine g') = en_position (rg_engine g) + n"
      by (auto simp: publish_body_def packed_of_def commit_segment_def settle_segment_def op_then_Inr
          note_packed_step_def set_block_def split: prod.splits)
    have "c = st (xs @ take n (t_tokens t))"
      using block_settle_Inr(1) [OF settle] ok n acc by (auto simp: segment_ok_def)
    with g' show ?thesis using wf' by (auto simp: live_at_def open_wf_def)
  next
    case False
    then have ver': "nv_resident (rg_native g) = Some me"
      "\<exists>b. map_of (en_buckets (rg_engine g)) key = Some b
                \<and> (if bk_retained b
                   then \<exists>rec. bk_records b = Some rec \<and> (\<forall>n a a'. n \<le> length (t_tokens t) \<longrightarrow>
                          dv_commit dv (Some rec) n a = (Inr (), a') \<longrightarrow> a' = st (xs @ take n (t_tokens t)))
                   else bk_checkpoint b = Some (st xs) \<and> length (t_tokens t) = 1
                      \<and> nv_slot (rg_native g) = st (xs @ t_tokens t))"
      using ver key by (cases key; simp add: verified_at_def)+
    then obtain b where b: "map_of (en_buckets (rg_engine g)) key = Some b"
      and bk: "if bk_retained b
                   then \<exists>rec. bk_records b = Some rec \<and> (\<forall>n a a'. n \<le> length (t_tokens t) \<longrightarrow>
                          dv_commit dv (Some rec) n a = (Inr (), a') \<longrightarrow> a' = st (xs @ take n (t_tokens t)))
                   else bk_checkpoint b = Some (st xs) \<and> length (t_tokens t) = 1
                      \<and> nv_slot (rg_native g) = st (xs @ t_tokens t)" by blast
    have "bucket_ok (key, b)" using ver b by (auto simp: verified_at_def open_wf_def intro: bucket_ok_of_map)
    then have "packed_of (rg_engine ?g0) key = None" using False b by (auto simp: bucket_ok_def packed_of_def)
    with body obtain g1 g2 g3 where
      mark: "(if nv_replays (rg_native ?g0) \<noteq> None then check_replay_mark ?g0 else (Inr (), ?g0)) = (Inr (), g1)"
      and com: "(case map_of (en_buckets (rg_engine g1)) key of None \<Rightarrow> (Inl KeyError, g1)
           | Some b \<Rightarrow> (if bk_retained b then commit_retained dv b n g1 else commit_plain dv b n g1)) = (Inr (), g2)"
      and sav: "save_carry dv me g2 = (Inr (), g3)" and g': "g' = ?done g3"
      by (auto simp: publish_body_def publish_plain_def op_then_Inr)
    have g1: "en_buckets (rg_engine g1) = en_buckets (rg_engine g)" "nv_slot (rg_native g1) = nv_slot (rg_native g)"
        "en_position (rg_engine g1) = en_position (rg_engine g)" "open_wf g1"
      using mark wf0
      by (auto simp: check_replay_mark_def Let_def open_wf_def split: if_splits option.splits)
    have g2: "nv_slot (rg_native g2) = st (xs @ take n (t_tokens t))" "open_wf g2"
        "en_position (rg_engine g2) = en_position (rg_engine g1)"
    proof -
      show "open_wf g2"
        using com g1 preservesD [OF open_wf_parts(6), of g1 dv _ n "Inr ()" g2]
          preservesD [OF open_wf_parts(7), of g1 dv _ n "Inr ()" g2]
        by (auto split: option.splits if_splits)
      show "en_position (rg_engine g2) = en_position (rg_engine g1)"
        using com by (auto simp: commit_retained_def commit_plain_def op_returned validate_bindings_def
            copy_into_slot_def split: option.splits if_splits prod.splits)
      show "nv_slot (rg_native g2) = st (xs @ take n (t_tokens t))"
      proof (cases "bk_retained b")
        case True
        then show ?thesis
          using com b g1(1) bk n by (auto simp: commit_retained_def split: prod.splits)
      next
        case False
        then have "bk_checkpoint b = Some (st xs)" "length (t_tokens t) = 1" "nv_slot (rg_native g) = st (xs @ t_tokens t)"
          using bk by simp_all
        moreover from this n have "n = 0 \<or> take n (t_tokens t) = t_tokens t" by (cases n) auto
        ultimately show ?thesis
          using com b g1(1,2) False device_copy [OF dev]
          by (auto simp: commit_plain_def op_returned validate_bindings_def copy_into_slot_def
              split: if_splits prod.splits)
      qed
    qed
    note s = save_carry_own [OF dev sav g2(2)]
    show ?thesis using s g2 g1(3) wf' by (auto simp: g' intro!: live_atI)
  qed
  then show "live_at st me (xs @ take n (t_tokens t)) g'" "en_phase (rg_engine g') = E_Idle"
    "en_pending (rg_engine g') = None" "en_position (rg_engine g') = en_position (rg_engine g) + n" by blast+
qed

subsection \<open>The runtime's publication\<close>

lemma verified_at_frame [simp]:
  "verified_at st dv me xs t (g\<lparr>rg_session := s\<rparr>) = verified_at st dv me xs t g"
  "verified_at st dv me xs t (on_runtime k g) = verified_at st dv me xs t g"
  "verified_at st dv me xs t (in_phase p g) = verified_at st dv me xs t g"
  "live_at st me xs (g\<lparr>rg_session := s\<rparr>) = live_at st me xs g"
  "live_at st me xs (on_runtime k g) = live_at st me xs g"
  "open_wf (on_runtime k g) = open_wf g" "open_wf (in_phase p g) = open_wf g"
  "owned me (on_runtime k g) = owned me g" "owned me (in_phase p g) = owned me g"
  by (simp_all add: verified_at_def live_at_def open_wf_def owned_def in_phase_def
      cong: option.case_cong bucket_key.case_cong)

lemma in_phase_simps [simp]:
  "rg_engine (in_phase p g) = rg_engine g" "rg_native (in_phase p g) = rg_native g"
  "rg_runtime (in_phase p g) = rg_runtime g" "rg_session (in_phase p g) = (rg_session g)\<lparr>s_phase := p\<rparr>"
  by (simp_all add: in_phase_def)

lemma commit_history_frame:
  assumes "commit_history dv n g = (r, g')"
  shows "rg_session g' = rg_session g" and "rg_engine g' = rg_engine g" and "rg_native g' = rg_native g"
    and "rt_position (rg_runtime g') = rt_position (rg_runtime g)"
  using assms by (auto simp: commit_history_def split: prod.splits)

lemma live_at_engine: "rg_engine g' = rg_engine g \<Longrightarrow> rg_native g' = rg_native g \<Longrightarrow> live_at st me xs g' = live_at st me xs g"
  by (simp add: live_at_def)

lemma runtime_publish_sound:
  assumes dev: "device_ok f st dv" and ver: "verified_at st dv me xs t g"
    and pub: "runtime_publish dv me (int n) g = (Inr u, g')"
  shows "live_at st me (xs @ take n (t_tokens t)) g'" and "en_phase (rg_engine g') = E_Idle"
    and "rg_session g' = rg_session g"
    and "en_position (rg_engine g') = en_position (rg_engine g) + n"
    and "rt_position (rg_runtime g') = rt_position (rg_runtime g) + n"
    and "rt_drafter_position (rg_runtime g') = rt_position (rg_runtime g')"
    and "rt_phase (rg_runtime g') = R_Idle" and "s_phase (rg_session g) = Committing"
proof -
  from pub obtain g1 g2 where
    eng: "engine_publish dv me (int n) (on_runtime (\<lambda>r. r\<lparr>rt_phase := R_Committing\<rparr>) g) = (Inr (), g1)"
    and hist: "(if int n = 0 then op_return () else commit_history dv n) g1 = (Inr (), g2)"
    and pos: "rt_drafter_position (rg_runtime g2) = rt_position (rg_runtime g2) + n"
    and g': "g' = on_runtime (\<lambda>r. r\<lparr>rt_position := rt_position r + n,
            rt_committed_rows := rt_committed_rows r + n, rt_proposed := [], rt_phase := R_Idle\<rparr>) g2"
    and ph: "s_phase (rg_session g) = Committing"
    by (auto simp: runtime_publish_def op_returned split: if_splits option.splits)
  have ver1: "verified_at st dv me xs t (on_runtime (\<lambda>r. r\<lparr>rt_phase := R_Committing\<rparr>) g)" using ver by simp
  note e = engine_publish_sound [OF dev ver1 eng] and fr = engine_publish_frame [OF eng]
  have h: "rg_session g2 = rg_session g1" "rg_engine g2 = rg_engine g1" "rg_native g2 = rg_native g1"
      "rt_position (rg_runtime g2) = rt_position (rg_runtime g1)"
    using hist commit_history_frame by (auto split: if_splits)
  show "live_at st me (xs @ take n (t_tokens t)) g'" using e(1) h(2,3) by (simp add: g' live_at_engine [of g2 g1])
  show "en_phase (rg_engine g') = E_Idle" "rg_session g' = rg_session g"
    "en_position (rg_engine g') = en_position (rg_engine g) + n"
    "rt_position (rg_runtime g') = rt_position (rg_runtime g) + n"
    "rt_drafter_position (rg_runtime g') = rt_position (rg_runtime g')"
    "rt_phase (rg_runtime g') = R_Idle" "s_phase (rg_session g) = Committing"
    using e fr h pos ph by (simp_all add: g')
qed

lemma runtime_publish_frame:
  assumes "runtime_publish dv me p g = (r, g')"
  shows "rg_session g' = rg_session g"
  using assms engine_publish_frame(1) commit_history_frame(1)
  by (cases r) (fastforce simp: runtime_publish_def op_returned op_raised split: if_splits)+

lemma runtime_publish_Inl:
  assumes "runtime_publish dv me p g = (Inl e, g')" and "en_phase (rg_engine g) = E_Verified"
  shows "en_phase (rg_engine g') \<noteq> E_Idle"
  using assms by (auto simp: runtime_publish_def op_returned op_raised)

lemma preserves_publish:
  assumes P: "\<And>key n. preserves P (publish_body dv me key n)" and ph: "\<And>p g. P g \<Longrightarrow> P (set_phase p g)"
  shows "preserves P (engine_publish dv me p)"
  unfolding preserves_def
proof (intro allI impI)
  fix g assume "P g"
  show "P (snd (engine_publish dv me p g))"
  proof (cases "en_pending (rg_engine g)")
    case None
    then show ?thesis using \<open>P g\<close> by (simp add: engine_publish_def)
  next
    case (Some t)
    then obtain m where m: "engine_publish dv me p g =
      op_then (op_refuse (\<lambda>g. en_phase (rg_engine g) \<noteq> E_Verified \<or> s_pending (rg_session g) \<noteq> Some t
                     \<or> s_phase (rg_session g) \<noteq> Committing) ValueError)
         (op_then (op_refuse (\<lambda>_. \<not> (0 \<le> p \<and> p \<le> int (length (t_tokens t)))) ValueError)
         (op_then (op_update (set_phase E_Committing)) m)) g" (is "_ = ?m g")
      and "m = op_raise KeyError \<or> (\<exists>key. en_pending_key (rg_engine g) = Some key \<and> m = publish_keyed dv me key (nat p))"
      by (rule engine_publish_seq)
    moreover have "preserves P (publish_keyed dv me key (nat p))" for key
      unfolding publish_keyed_def by (intro keep P ph)
    ultimately have "preserves P m" by (auto intro: keep)
    then have "preserves P ?m" by (intro keep ph)
    with \<open>P g\<close> show ?thesis unfolding m preserves_def by blast
  qed
qed

lemma preserves_runtime_publish:
  assumes "preserves P (engine_publish dv me p)" and "\<And>q g. P g \<Longrightarrow> P (set_phase q g)"
    and "\<And>k g. P g \<Longrightarrow> P (on_runtime k g)"
  shows "preserves P (runtime_publish dv me p)"
proof -
  have hist: "preserves P (commit_history dv n)" for n
    using assms(3) by (auto simp: preserves_def commit_history_def split: prod.splits)
  have part: "preserves P (if p = 0 then op_return () else m)" if "preserves P m" for m :: "('a, 'b, unit) rig_op"
    using that by (cases "p = 0") (simp_all add: preserves_def)
  show ?thesis unfolding runtime_publish_def
    by (intro preserves_then preserves_except preserves_refuse preserves_update preserves_read part hist assms(1))
       (auto intro: assms(2,3))
qed

lemma runtime_publish_open: "preserves open_wf (runtime_publish dv me p)"
  by (rule preserves_runtime_publish [OF preserves_publish]) (simp_all add: publish_body_open)

lemma runtime_publish_owned: "preserves (owned me) (runtime_publish dv me p)"
  by (rule preserves_runtime_publish [OF preserves_publish]) (simp_all add: publish_body_owned)

subsection \<open>A commit keeps the carry at the emitted tokens\<close>

definition consumed :: "int list \<Rightarrow> session \<Rightarrow> int list" where
  "consumed prompt s = prompt @ butlast (s_emitted s)"

text \<open>The rows a decision publishes are the seed and every token it emits but the last.\<close>

lemma published_rows:
  assumes "select_prefix ps ts v eos m = Inr d"
  shows "take (d_state_rows d) (seed # ps @ qs) = seed # butlast (d_emitted d)"
  using assms
proof (cases rule: select_prefix_InrE)
  case (eos n)
  note sp = accept_scan_spec [of eos ps ts 0 n True]
  from eos(1) sp have n: "0 < n" "n \<le> length ps" by auto
  then show ?thesis using eos(2) by (cases n) (auto simp: butlast_take take_Cons')
next
  case (row n)
  then have "n \<le> length ps" using accept_scan_spec [of eos ps ts 0 n False] by auto
  then show ?thesis using row(2) by (simp add: butlast_append)
qed

lemma consumed_commit:
  assumes inv: "session_inv prompt seed s" and com: "session_commit s r t preds pub mr = (Inr d, s')"
  shows "consumed prompt s' = consumed prompt s @ take (d_state_rows d) (t_tokens t)"
proof -
  note c = session_commit_Inr [OF com]
  have live: "s_phase s = Pending" "s_pending s = Some t"
    using c(1) by (auto simp: ticket_live_def session_owner_def)
  with inv have t: "ticket_ok s t" and em: "emitted_ok prompt seed s" by (auto simp: session_inv_def)
  have mr: "\<And>m. mr = Some m \<Longrightarrow> 1 \<le> m \<and> m \<le> int (length (t_tokens t))"
    using com by (auto simp: session_commit_def Let_def split: if_splits)
  have ne: "t_tokens t \<noteq> []" "hd (t_tokens t) = last (s_emitted s)" "s_emitted s \<noteq> []"
    using t em by (auto simp: ticket_ok_def emitted_ok_def)
  then obtain qs where ts: "t_tokens t = last (s_emitted s) # fst (commit_inputs t preds mr) @ qs"
    using commit_inputs_block [OF ne(1) mr] by metis
  have em': "s_emitted s' = s_emitted s @ d_emitted d" using c(4) by auto
  have "d_emitted d \<noteq> []" using select_prefix_bounds(1) [OF c(3)] by auto
  then show ?thesis
    using published_rows [OF c(3), of "last (s_emitted s)" qs] ne(3) append_butlast_last_id [OF ne(3)]
    by (simp add: consumed_def em' butlast_append flip: ts)
qed

end
