(* ===== verification/RigInvariant.thy ===== *)
theory RigInvariant
  imports SlotSharing
begin

text \<open>
  The invariant of one request's objects between the calls of its driver, and that every operation of
  the driver keeps it and touches the shared slot only after claiming it.
\<close>

definition rig_ok :: "(int list \<Rightarrow> int) \<Rightarrow> (int list \<Rightarrow> 's) \<Rightarrow> nat \<Rightarrow> int list \<times> session \<Rightarrow> ('s, 'r) rig \<Rightarrow> bool" where
  "rig_ok f st me asked g \<longleftrightarrow>
     session_run (target_verified f (fst asked)) (snd asked) (rg_session g) \<and> engine_wf g
   \<and> (en_phase (rg_engine g) = E_Idle \<and> s_phase (rg_session g) \<in> {Idle, Pending} \<longrightarrow>
        live_at st me (consumed (fst asked) (rg_session g)) g)
   \<and> (en_phase (rg_engine g) = E_Verified \<and> s_phase (rg_session g) = Pending \<longrightarrow>
        (\<exists>seg. en_pending_key (rg_engine g) = Some (Packed seg)))"

text \<open>A request's session was started for its prompt.\<close>

definition asked_ok :: "int list \<times> session \<Rightarrow> bool" where
  "asked_ok asked \<longleftrightarrow> (\<exists>r seed v mx eos neural vr pfs le.
     session_init r (fst asked) seed v mx eos neural vr pfs le = Inr (snd asked))"

text \<open>What an operation of engine me may do to the slot the others trust.\<close>

definition claims :: "nat \<Rightarrow> ('s, 'r) native \<Rightarrow> ('s, 'r) native \<Rightarrow> bool" where
  "claims me n n' \<longleftrightarrow> nv_resident n' = Some me \<or> nv_resident n' = None
     \<or> (nv_resident n' = nv_resident n \<and> nv_slot n' = nv_slot n)"

lemma claims_refl [simp]: "claims me n n" by (simp add: claims_def)

lemma claims_trans: "claims me n n' \<Longrightarrow> claims me n' n'' \<Longrightarrow> claims me n n''"
  by (auto simp: claims_def)

lemma owned_claims: "owned me g \<Longrightarrow> claims me n (rg_native g)"
  by (auto simp: owned_def claims_def)

definition op_ok :: "(int list \<Rightarrow> int) \<Rightarrow> (int list \<Rightarrow> 's) \<Rightarrow> nat \<Rightarrow> int list \<times> session \<Rightarrow> ('s, 'r, 'a) rig_op \<Rightarrow> bool" where
  "op_ok f st me asked m \<longleftrightarrow>
     (\<forall>g. rig_ok f st me asked g \<longrightarrow> rig_ok f st me asked (snd (m g)) \<and> claims me (rg_native g) (rg_native (snd (m g))))"

lemma op_okI:
  assumes "\<And>g r g'. rig_ok f st me asked g \<Longrightarrow> m g = (r, g') \<Longrightarrow>
      rig_ok f st me asked g' \<and> claims me (rg_native g) (rg_native g')"
  shows "op_ok f st me asked m"
  unfolding op_ok_def using assms by (metis prod.collapse)

lemma op_okD:
  assumes "op_ok f st me asked m" and "rig_ok f st me asked g" and "m g = (r, g')"
  shows "rig_ok f st me asked g'" and "claims me (rg_native g) (rg_native g')"
  using assms unfolding op_ok_def by (metis snd_conv)+

lemma rig_okD:
  assumes "rig_ok f st me asked g"
  shows "session_run (target_verified f (fst asked)) (snd asked) (rg_session g)" and "engine_wf g"
    and "en_phase (rg_engine g) = E_Idle \<Longrightarrow> s_phase (rg_session g) = Idle \<or> s_phase (rg_session g) = Pending \<Longrightarrow>
        live_at st me (consumed (fst asked) (rg_session g)) g"
    and "en_phase (rg_engine g) = E_Verified \<Longrightarrow> s_phase (rg_session g) = Pending \<Longrightarrow>
        \<exists>seg. en_pending_key (rg_engine g) = Some (Packed seg)"
  using assms by (auto simp: rig_ok_def)

lemma rig_ok_control [simp]:
  "rig_ok f st me asked (g\<lparr>rg_busy := b\<rparr>) = rig_ok f st me asked g"
  "rig_ok f st me asked (g\<lparr>rg_cancelled := b\<rparr>) = rig_ok f st me asked g"
  "rig_ok f st me asked (g\<lparr>rg_closed := b\<rparr>) = rig_ok f st me asked g"
  "rig_ok f st me asked (on_runtime k g) = rig_ok f st me asked g"
  by (simp_all add: rig_ok_def engine_wf_def live_at_def)

lemma asked_inv:
  assumes "asked_ok asked" and "session_run (target_verified f (fst asked)) (snd asked) s"
  obtains seed where "session_inv (fst asked) seed s"
  using assms session_init_inv(1) session_run_inv unfolding asked_ok_def by metis

text \<open>A rig whose session moved by a quiet step and whose engine and slot did not.\<close>

lemma rig_ok_quiet:
  assumes ok: "rig_ok f st me asked g" and run: "session_run (target_verified f (fst asked)) (snd asked) s'"
    and em: "s_emitted s' = s_emitted (rg_session g)"
    and ph: "s_phase s' \<in> {Idle, Pending} \<Longrightarrow> s_phase (rg_session g) \<in> {Idle, Pending}"
    and vp: "s_phase s' = Pending \<Longrightarrow> s_phase (rg_session g) = Pending \<or> en_phase (rg_engine g) \<noteq> E_Verified"
    and same: "rg_session g' = s'" "rg_engine g' = rg_engine g" "rg_native g' = rg_native g"
  shows "rig_ok f st me asked g'"
  using rig_okD [OF ok] run em ph vp same
  by (auto simp: rig_ok_def engine_wf_def consumed_def live_at_def)

text \<open>A failed session asks nothing of the engine but its well-formedness.\<close>

lemma rig_ok_failed:
  assumes "session_run (target_verified f (fst asked)) (snd asked) (rg_session g)" and "engine_wf g"
    and "s_phase (rg_session g) \<notin> {Idle, Pending}"
  shows "rig_ok f st me asked g"
  using assms by (auto simp: rig_ok_def)

lemma session_run_poison:
  "session_run ok s0 s \<Longrightarrow> s_phase s \<noteq> Closed \<Longrightarrow> session_run ok s0 (s\<lparr>s_phase := Failed\<rparr>)"
  by (rule session_run.quiet [OF _ quiet_step.poison])

subsection \<open>Proposals\<close>

lemma with_drafter_simps [simp]:
  "s_phase (with_drafter dv g) = s_phase (rg_session g)"
  "s_emitted (with_drafter dv g) = s_emitted (rg_session g)"
  by (simp_all add: with_drafter_def)

lemma propose_ticket_frame:
  assumes "propose_ticket dv r rows g = (res, g')"
  shows "rg_engine g' = rg_engine g" and "rg_native g' = rg_native g"
    and "rg_session g' = snd (session_propose (with_drafter dv g) r rows (Some ''dflash2''))"
    and "res = fst (session_propose (with_drafter dv g) r rows (Some ''dflash2''))"
  using assms by (auto simp: propose_ticket_def Let_def split: prod.splits)

lemma propose_ticket_ok:
  assumes as: "asked_ok asked" and ok: "rig_ok f st me asked g"
    and run: "propose_ticket dv r rows g = (res, g')" and ph: "s_phase (rg_session g) = Idle"
    and en: "en_phase (rg_engine g) = E_Idle"
  shows "rig_ok f st me asked g'" and "rg_engine g' = rg_engine g" and "rg_native g' = rg_native g"
    and "res = Inr t \<Longrightarrow> s_phase (rg_session g') = Pending \<and> s_pending (rg_session g') = Some t
         \<and> s_request_id (rg_session g') = s_request_id (rg_session g) \<and> t_tokens t \<noteq> []"
proof -
  note fr = propose_ticket_frame [OF run]
  have run1: "session_run (target_verified f (fst asked)) (snd asked) (with_drafter dv g)"
    unfolding with_drafter_def
    by (rule session_run.quiet [OF rig_okD(1) [OF ok] quiet_step.rewire])
  have run2: "session_run (target_verified f (fst asked)) (snd asked) (rg_session g')"
    unfolding fr(3) by (rule session_run.quiet [OF run1 quiet_step.propose])
  obtain seed where inv: "session_inv (fst asked) seed (with_drafter dv g)" using asked_inv [OF as run1] .
  have em: "s_emitted (rg_session g') = s_emitted (rg_session g)
      \<and> (res = Inr t \<longrightarrow> s_phase (rg_session g') = Pending \<and> s_pending (rg_session g') = Some t
         \<and> s_request_id (rg_session g') = s_request_id (rg_session g) \<and> t_tokens t \<noteq> [])"
  proof (cases "session_propose (with_drafter dv g) r rows (Some ''dflash2'')")
    case (Pair p s')
    show ?thesis
    proof (cases p)
      case (Inl e)
      with Pair have "session_propose (with_drafter dv g) r rows (Some ''dflash2'') = (Inl e, s')" by simp
      from session_propose_Inl [OF inv this] Pair Inl fr(3,4) show ?thesis by auto
    next
      case (Inr u)
      with Pair have "session_propose (with_drafter dv g) r rows (Some ''dflash2'') = (Inr u, s')" by simp
      from session_propose_ticket(1,2) [OF inv this] Pair Inr fr(3,4) show ?thesis
        by (auto simp: ticket_ok_def with_drafter_def)
    qed
  qed
  show "rig_ok f st me asked g'"
    by (rule rig_ok_quiet [OF ok run2]) (use em ph en fr in auto)
  show "rg_engine g' = rg_engine g" "rg_native g' = rg_native g" by (rule fr(1), rule fr(2))
  show "res = Inr t \<Longrightarrow> s_phase (rg_session g') = Pending \<and> s_pending (rg_session g') = Some t
         \<and> s_request_id (rg_session g') = s_request_id (rg_session g) \<and> t_tokens t \<noteq> []"
    using em by blast
qed

lemma request_prepare_ok:
  assumes as: "asked_ok asked" and ok: "rig_ok f st me asked g"
    and run: "request_prepare dv r packed g = (res, g')"
  shows "rig_ok f st me asked g'" and "rg_engine g' = rg_engine g" and "rg_native g' = rg_native g"
    and "res = Inr t \<Longrightarrow> s_phase (rg_session g') = Pending \<and> s_pending (rg_session g') = Some t
         \<and> s_request_id (rg_session g') = s_request_id (rg_session g) \<and> t_tokens t \<noteq> []"
proof -
  have "g' = g \<and> (\<forall>t. res \<noteq> Inr t) \<or> (\<exists>rows g1. s_phase (rg_session g) = Idle \<and> en_phase (rg_engine g) = E_Idle
      \<and> (propose_ticket dv r rows (set_busy True g) = (res, g1) \<or> g1 = set_busy True g \<and> (\<forall>t. res \<noteq> Inr t)) \<and> g' = set_busy False g1)"
    using run by (cases res) (auto simp: request_prepare_def op_returned op_raised op_refuse_def split: if_splits)
  then show "rig_ok f st me asked g'" "rg_engine g' = rg_engine g" "rg_native g' = rg_native g"
    "res = Inr t \<Longrightarrow> s_phase (rg_session g') = Pending \<and> s_pending (rg_session g') = Some t
         \<and> s_request_id (rg_session g') = s_request_id (rg_session g) \<and> t_tokens t \<noteq> []"
    using propose_ticket_ok [OF as, of f st me "set_busy True g" dv r] ok
    by (auto simp: set_busy_def)
qed

subsection \<open>Verify, commit and abort\<close>

lemma engine_wf_open: "engine_wf g \<Longrightarrow> en_phase (rg_engine g) \<noteq> E_Closed \<Longrightarrow> open_wf g"
  by (simp add: engine_wf_def open_wf_def)

lemma open_wf_engine: "open_wf g \<Longrightarrow> engine_wf g"
  by (simp add: engine_wf_def open_wf_def)

text \<open>What a verify that raises leaves behind: nothing at all, or a failed engine and session.\<close>

lemma engine_verify_Inl:
  assumes run: "engine_verify dv me t g = (Inl e, g')" and wf: "engine_wf g"
  shows "g' = g \<or> (rg_session g' = (rg_session g)\<lparr>s_phase := Failed\<rparr> \<and> s_phase (rg_session g) = Pending
    \<and> engine_wf g' \<and> claims me (rg_native g) (rg_native g'))"
proof -
  have "g' = g \<or> (\<exists>key g1. ticket_live (rg_session g) (s_request_id (rg_session g)) t \<and> en_phase (rg_engine g) = E_Idle
      \<and> verify_body dv me key t (on_engine (\<lambda>e. e\<lparr>en_phase := E_Verifying, en_pending := Some t,
                 en_pending_key := Some key\<rparr>) g) = (Inl e, g1) \<and> g' = engine_fail t g1)"
    using run by (auto simp: engine_verify_def check_ticket_def op_returned op_raised)
  then show ?thesis
  proof
    assume "\<exists>key g1. ticket_live (rg_session g) (s_request_id (rg_session g)) t \<and> en_phase (rg_engine g) = E_Idle
      \<and> verify_body dv me key t (on_engine (\<lambda>e. e\<lparr>en_phase := E_Verifying, en_pending := Some t,
                 en_pending_key := Some key\<rparr>) g) = (Inl e, g1) \<and> g' = engine_fail t g1"
    then obtain key g1 where live: "ticket_live (rg_session g) (s_request_id (rg_session g)) t"
      and idle: "en_phase (rg_engine g) = E_Idle"
      and body: "verify_body dv me key t (on_engine (\<lambda>e. e\<lparr>en_phase := E_Verifying, en_pending := Some t,
                 en_pending_key := Some key\<rparr>) g) = (Inl e, g1)" (is "verify_body _ _ _ _ ?g0 = _")
      and g': "g' = engine_fail t g1" by blast
    have wf0: "open_wf ?g0" using engine_wf_open [OF wf] idle by (simp add: open_wf_def)
    have wf1: "open_wf g1" by (rule preservesD [OF verify_body_open wf0 body])
    have sess: "rg_session g1 = rg_session g"
    proof -
      have "keeps rg_session (verify_body dv me key t)"
        unfolding verify_body_def by (intro keep) (simp_all add: set_bucket_def)
      from keepsD [OF this body] show ?thesis by simp
    qed
    have "claims me (rg_native ?g0) (rg_native g1)"
    proof -
      define rest where "rest = op_bind (replay_bucket dv key t) (\<lambda>predictions.
        op_then (op_refuse (\<lambda>_. length predictions \<noteq> length (t_tokens t)) AssertionError)
       (op_then (op_update (\<lambda>g. set_phase E_Verified (set_bucket key (\<lambda>b. b\<lparr>bk_first := False\<rparr>) g)))
        (op_return predictions)))"
      have rest: "preserves (owned me) rest"
        unfolding rest_def by (intro keep) (simp add: owned_def set_bucket_def)
      from body consider "g1 = ?g0" | e' where "restore_carry dv me ?g0 = (Inl e', g1)"
        | r g2 where "restore_carry dv me ?g0 = (Inr r, g2)" "owned me g2 \<longrightarrow> owned me g1"
        using preservesD [OF rest]
        by (auto simp: verify_body_def rest_def [symmetric] op_then_Inl validate_bindings_def op_refuse_Inl
            op_refuse_Inr)
      then show ?thesis
      proof cases
        case 2
        then show ?thesis using wf0
          by (auto simp: restore_carry_def claims_def open_wf_def op_raised op_returned claim_slot_def check_carry_def
              copy_into_slot_def split: if_splits option.splits prod.splits)
      next
        case 3
        then have "owned me g2" using wf0
          by (auto simp: restore_carry_def owned_def open_wf_def op_raised op_returned claim_slot_def check_carry_def
              copy_into_slot_def split: if_splits option.splits prod.splits)
        then show ?thesis using 3 by (simp add: owned_claims)
      qed simp
    qed
    moreover have "rg_session g' = (rg_session g)\<lparr>s_phase := Failed\<rparr>" "s_phase (rg_session g) = Pending"
      using live by (auto simp: g' engine_fail_def sess fail_verification_def ticket_live_def)
    moreover have "engine_wf g'" "rg_native g' = rg_native g1"
      using wf1 by (auto simp: g' engine_fail_def open_wf_engine)
    ultimately show ?thesis by auto
  qed simp
qed

text \<open>A publication of a block the engine holds the slot for, or of a packed segment, leaves the slot to
  nobody else.\<close>

definition slot_safe :: "nat \<Rightarrow> ('s, 'r) rig \<Rightarrow> bool" where
  "slot_safe me g \<longleftrightarrow> owned me g \<or> (\<exists>seg. en_pending_key (rg_engine g) = Some (Packed seg))"

lemma verified_slot_safe: "verified_at st dv me xs t g \<Longrightarrow> slot_safe me g"
  by (auto simp: verified_at_def slot_safe_def owned_def split: option.splits bucket_key.splits)

lemma packed_publish_native:
  assumes "engine_publish dv me p g = (r, g')" and "en_pending_key (rg_engine g) = Some (Packed seg)" and "open_wf g"
  shows "rg_native g' = rg_native g \<or> nv_resident (rg_native g') = None"
proof -
  have "rg_native g2 = rg_native g1 \<or> nv_resident (rg_native g2) = None"
    if "publish_body dv me (Packed seg) n g1 = (x, g2)" and "open_wf g1" for x :: "unit result" and g1 g2 n
  proof (cases "map_of (en_buckets (rg_engine g1)) (Packed seg)")
    case None
    then have "packed_of (rg_engine g1) (Packed seg) = None" by (simp add: packed_of_def)
    then show ?thesis using that(1) None
      by (cases x) (auto simp: publish_body_def publish_plain_def op_returned op_raised check_replay_mark_def Let_def
          split: if_splits option.splits)
  next
    case (Some b)
    then have "bucket_ok (Packed seg, b)" using that(2) by (auto simp: open_wf_def intro: bucket_ok_of_map)
    then obtain pk where "packed_of (rg_engine g1) (Packed seg) = Some pk"
      using Some by (auto simp: bucket_ok_def packed_of_def)
    then show ?thesis using that(1)
      by (cases x) (auto simp: publish_body_def commit_segment_def settle_segment_def op_returned op_raised
          note_packed_step_def set_block_def split: option.splits prod.splits)
  qed
  then show ?thesis using assms
    by (cases r) (fastforce simp: engine_publish_def publish_keyed_def op_returned op_raised split: option.splits)+
qed

lemma runtime_publish_native:
  assumes "runtime_publish dv me p g = (r, g')"
  shows "\<exists>g1 g2 r1. rg_native g1 = rg_native g \<and> rg_engine g1 = rg_engine g
      \<and> (rg_native g' = rg_native g \<or> engine_publish dv me p g1 = (r1, g2) \<and> rg_native g' = rg_native g2)"
proof -
  let ?g1 = "on_runtime (\<lambda>r. r\<lparr>rt_phase := R_Committing\<rparr>) g"
  have "rg_native g' = rg_native g \<or> rg_native g' = rg_native (snd (engine_publish dv me p ?g1))"
    using assms
    by (cases r) (auto simp: runtime_publish_def op_returned op_raised split: if_splits dest!: commit_history_frame(3))
  then show ?thesis
    by (intro exI [of _ ?g1] exI [of _ "snd (engine_publish dv me p ?g1)"]
        exI [of _ "fst (engine_publish dv me p ?g1)"]) simp
qed

lemma publish_claims:
  assumes "runtime_publish dv me p g = (r, g')" and "slot_safe me g" and "open_wf g"
  shows "claims me (rg_native g) (rg_native g')"
proof (cases "owned me g")
  case True
  then show ?thesis using preservesD [OF runtime_publish_owned _ assms(1)] by (simp add: owned_claims)
next
  case False
  then obtain seg where seg: "en_pending_key (rg_engine g) = Some (Packed seg)" using assms(2) by (auto simp: slot_safe_def)
  obtain g1 g2 r1 where "rg_native g1 = rg_native g" "rg_engine g1 = rg_engine g"
    "rg_native g' = rg_native g \<or> engine_publish dv me p g1 = (r1, g2) \<and> rg_native g' = rg_native g2"
    using runtime_publish_native [OF assms(1)] by blast
  then show ?thesis using packed_publish_native [of dv me p g1 r1 g2 seg] seg assms(3)
    by (auto simp: claims_def open_wf_def)
qed

lemma in_phase_publish_claims:
  assumes "slot_safe me (in_phase q g)" and "open_wf g"
  shows "claims me (rg_native g) (rg_native (snd (runtime_publish dv me p (in_phase q g))))"
  using publish_claims [of dv me p "in_phase q g" "fst (runtime_publish dv me p (in_phase q g))"
      "snd (runtime_publish dv me p (in_phase q g))"] assms
  by (simp add: in_phase_def)

lemma slot_safe_in_phase [simp]: "slot_safe me (in_phase p g) = slot_safe me g"
  by (simp add: slot_safe_def)

lemma commit_cases:
  assumes "session_commit s r t preds pub mr = (res, s')"
  shows "(\<exists>d. res = Inr d \<and> published_prefix s r t preds mr = Some (d_state_rows d) \<and> pub (d_state_rows d) = Returns_None)
    \<or> (\<exists>e. res = Inl e \<and> s' = s \<and> published_prefix s r t preds mr = None)
    \<or> (\<exists>e n. res = Inl e \<and> s' = s\<lparr>s_phase := Failed\<rparr> \<and> published_prefix s r t preds mr = Some n)"
  using assms
  by (auto simp: session_commit_def published_prefix_def commit_inputs_def Let_def
      split: if_splits option.splits sum.splits callback.splits)

lemma commit_ticket_ok:
  assumes as: "asked_ok asked" and run: "session_run (target_verified f (fst asked)) (snd asked) (rg_session g)"
    and dev: "device_ok f st dv" and ver: "verified_at st dv me (consumed (fst asked) (rg_session g)) t g"
    and preds: "target_verified f (fst asked) (rg_session g) t mr preds"
    and com: "commit_ticket dv me r t preds mr g = (res, g')"
  shows "claims me (rg_native g) (rg_native g')"
    and "(rig_ok f st me asked g' \<and> s_phase (rg_session g') \<noteq> Pending) \<or> (g' = g \<and> (\<exists>e. res = Inl e))"
    and "res = Inr d \<Longrightarrow> rig_ok f st me asked g'"
proof -
  let ?s = "rg_session g"
  let ?pub = "\<lambda>n. runtime_publish dv me (int n) (in_phase Committing g)"
  let ?cb = "\<lambda>n. callback_of (fst (?pub n))"
  obtain s' where sc: "session_commit ?s r t preds ?cb mr = (res, s')"
    and g': "g' = (case published_prefix ?s r t preds mr of None \<Rightarrow> g | Some n \<Rightarrow> snd (?pub n))\<lparr>rg_session := s'\<rparr>"
    using com by (auto simp: commit_ticket_def Let_def split: prod.splits)
  have ok: "target_verified f (fst asked) ?s t mr preds" using preds by simp
  have run': "session_run (target_verified f (fst asked)) (snd asked) s'"
    using session_run.commit [OF run ok, of r ?cb] sc by simp
  obtain seed where inv: "session_inv (fst asked) seed ?s" using asked_inv [OF as run] .
  have safe: "slot_safe me (in_phase Committing g)" using verified_slot_safe [OF ver] by simp
  have wf: "open_wf (snd (?pub n))" for n
    using preservesD [OF runtime_publish_open, of "in_phase Committing g" dv me "int n"] ver
    by (metis open_wf_engine verified_at_frame(7) verified_at_def prod.collapse)
  show cl: "claims me (rg_native g) (rg_native g')"
    using in_phase_publish_claims [OF safe, of dv] ver by (auto simp: g' verified_at_def split: option.splits)
  have main: "(rig_ok f st me asked g' \<and> s_phase (rg_session g') \<noteq> Pending) \<or> (g' = g \<and> (\<exists>e. res = Inl e))"
    using commit_cases [OF sc]
  proof (elim disjE exE conjE)
    fix d assume d: "res = Inr d" "published_prefix ?s r t preds mr = Some (d_state_rows d)"
      "?cb (d_state_rows d) = Returns_None"
    then obtain g1 where pub: "?pub (d_state_rows d) = (Inr (), g1)"
      by (cases "?pub (d_state_rows d)") (auto simp: callback_of_def split: sum.splits)
    have ver': "verified_at st dv me (consumed (fst asked) ?s) t (in_phase Committing g)" using ver by simp
    note p = runtime_publish_sound [OF dev ver' pub]
    have gd: "g' = g1\<lparr>rg_session := s'\<rparr>" using g' d(2) pub by simp
    have "consumed (fst asked) s' = consumed (fst asked) ?s @ take (d_state_rows d) (t_tokens t)"
      using consumed_commit [OF inv] sc d(1) by blast
    moreover have "s_phase s' = Idle" using session_commit_Inr(4) sc d(1) by fastforce
    ultimately have "rig_ok f st me asked g'"
      using p(1,2) run' wf [of "d_state_rows d"] pub
      by (simp add: gd rig_ok_def open_wf_engine)
    then show ?thesis using \<open>s_phase s' = Idle\<close> by (simp add: gd)
  next
    fix e assume "res = Inl e" "s' = ?s" "published_prefix ?s r t preds mr = None"
    then show ?thesis using g' by simp
  next
    fix e n assume f: "res = Inl e" "s' = ?s\<lparr>s_phase := Failed\<rparr>" "published_prefix ?s r t preds mr = Some n"
    then have "g' = (snd (?pub n))\<lparr>rg_session := s'\<rparr>" using g' by simp
    then show ?thesis using run' wf [of n] f(2)
      by (auto intro!: rig_ok_failed simp: open_wf_engine)
  qed
  then show "(rig_ok f st me asked g' \<and> s_phase (rg_session g') \<noteq> Pending) \<or> (g' = g \<and> (\<exists>e. res = Inl e))" .
  show "res = Inr d \<Longrightarrow> rig_ok f st me asked g'" using main by auto
qed

lemma abort_cases:
  assumes "session_abort s r t restore = (res, s')"
  shows "(res = Inr () \<and> ticket_live s r t \<and> restore 0 = Returns_None
      \<and> s' = s\<lparr>s_aborted_blocks := s_aborted_blocks s + 1, s_pending := None, s_phase := Idle\<rparr>)
    \<or> (\<exists>e. res = Inl e \<and> ticket_live s r t \<and> s' = s\<lparr>s_phase := Failed\<rparr>)
    \<or> (\<exists>e. res = Inl e \<and> \<not> ticket_live s r t \<and> s' = s)"
  using assms by (auto simp: session_abort_def split: if_splits callback.splits)

lemma abort_ticket_ok:
  assumes run: "session_run (target_verified f (fst asked)) (snd asked) (rg_session g)"
    and wf: "open_wf g" and safe: "slot_safe me g" and com: "abort_ticket dv me r t g = (res, g')"
  shows "claims me (rg_native g) (rg_native g')" and "engine_wf g'"
    and "session_run (target_verified f (fst asked)) (snd asked) (rg_session g')"
    and "s_phase (rg_session g') = Closed \<Longrightarrow> s_phase (rg_session g) = Closed"
    and "device_ok f st dv \<Longrightarrow> verified_at st dv me (consumed (fst asked) (rg_session g)) t g \<Longrightarrow>
          ticket_live (rg_session g) r t \<Longrightarrow> rig_ok f st me asked g' \<and> s_phase (rg_session g') \<noteq> Pending"
proof -
  let ?s = "rg_session g"
  let ?res = "\<lambda>n. runtime_publish dv me (int n) (in_phase Committing g)"
  obtain s' where sa: "session_abort ?s r t (\<lambda>n. callback_of (fst (?res n))) = (res, s')"
    and g': "g' = (if ticket_live ?s r t then snd (?res 0) else g)\<lparr>rg_session := s'\<rparr>"
    using com by (auto simp: abort_ticket_def Let_def split: prod.splits)
  have wf0: "open_wf (snd (?res 0))"
    using preservesD [OF runtime_publish_open, of "in_phase Committing g"] wf by (metis prod.collapse verified_at_frame(7))
  show "claims me (rg_native g) (rg_native g')"
    using in_phase_publish_claims [of me Committing g dv "int 0"] safe wf by (auto simp: g')
  show "engine_wf g'" using wf wf0 by (auto simp: g' open_wf_engine)
  show run': "session_run (target_verified f (fst asked)) (snd asked) (rg_session g')"
    using session_run.quiet [OF run quiet_step.abort [of _ r t "\<lambda>n. callback_of (fst (?res n))"]] sa
    by (simp add: g')
  show "s_phase (rg_session g') = Closed \<Longrightarrow> s_phase (rg_session g) = Closed"
    using abort_cases [OF sa] by (auto simp: g')
  assume dev: "device_ok f st dv" and ver: "verified_at st dv me (consumed (fst asked) ?s) t g"
    and live: "ticket_live ?s r t"
  show "rig_ok f st me asked g' \<and> s_phase (rg_session g') \<noteq> Pending"
    using abort_cases [OF sa]
  proof (elim disjE exE conjE)
    assume a: "res = Inr ()" "callback_of (fst (?res 0)) = Returns_None"
      "s' = ?s\<lparr>s_aborted_blocks := s_aborted_blocks ?s + 1, s_pending := None, s_phase := Idle\<rparr>"
    then obtain g1 where pub: "?res 0 = (Inr (), g1)"
      by (cases "?res 0") (auto simp: callback_of_def split: sum.splits)
    have ver': "verified_at st dv me (consumed (fst asked) ?s) t (in_phase Committing g)" using ver by simp
    note p = runtime_publish_sound [OF dev ver' pub]
    show ?thesis using p(1,2) run' wf0 pub live a(3)
      by (simp add: g' rig_ok_def open_wf_engine consumed_def)
  next
    fix e assume "s' = ?s\<lparr>s_phase := Failed\<rparr>"
    then show ?thesis using run' wf0 live by (auto simp: g' open_wf_engine intro!: rig_ok_failed)
  qed (use live in auto)
qed

end
