(* ===== verification/RigSteps.thy ===== *)
theory RigSteps
  imports RigInvariant
begin

text \<open>
  The request's own operations, \<open>step\<close>, \<open>close\<close> and the ones the packed step calls, keep the invariant
  of its objects and claim the slot before they write it.
\<close>

lemma session_run_fail:
  "session_run ok s0 s \<Longrightarrow> session_run ok s0 (snd (fail_verification s r t))"
  by (rule session_run.quiet [OF _ quiet_step.fail_v])

lemma fail_verification_cases:
  "fail_verification s r t = (Inr (), s\<lparr>s_phase := Failed\<rparr>) \<and> s_phase s = Pending
    \<or> fail_verification s r t = (Inl ValueError, s)"
  by (auto simp: fail_verification_def ticket_live_def)

lemma cancel_pending_ok: "op_ok f st me asked (cancel_pending r)"
proof (rule op_okI)
  fix g res g' assume ok: "rig_ok f st me asked g" and run: "cancel_pending r g = (res, g')"
  show "rig_ok f st me asked g' \<and> claims me (rg_native g) (rg_native g')"
  proof (cases "s_pending (rg_session g)")
    case None
    then show ?thesis using ok run by (simp add: cancel_pending_def)
  next
    case (Some t)
    note g' = run [unfolded cancel_pending_def Some option.case on_session_def]
    have "rig_ok f st me asked g'"
      by (rule rig_ok_quiet [OF ok session_run_fail [OF rig_okD(1) [OF ok], of r t]])
        (use g' fail_verification_cases [of "rg_session g" r t] in \<open>auto split: prod.splits\<close>)
    then show ?thesis using g' by (auto split: prod.splits)
  qed
qed

lemma set_busy_ok [simp]: "rig_ok f st me asked (set_busy b g) = rig_ok f st me asked g"
  "rig_ok f st me asked (set_cancelled g) = rig_ok f st me asked g"
  by (simp_all add: set_busy_def set_cancelled_def)

lemma control_simps [simp]:
  "rg_native (set_busy b g) = rg_native g" "rg_session (set_busy b g) = rg_session g"
  "rg_engine (set_busy b g) = rg_engine g" "rg_runtime (set_busy b g) = rg_runtime g"
  "rg_native (set_cancelled g) = rg_native g" "rg_session (set_cancelled g) = rg_session g"
  "rg_engine (set_cancelled g) = rg_engine g" "rg_runtime (set_cancelled g) = rg_runtime g"
  by (simp_all add: set_busy_def set_cancelled_def)

text \<open>The handler leaves a session that is not pending alone, and rolls a verified block back.\<close>

lemma step_failed_idle: "s_phase (rg_session g) \<noteq> Pending \<Longrightarrow> step_failed dv me r t g = g"
  by (simp add: step_failed_def)

lemma step_failed_ok:
  assumes run: "session_run (target_verified f (fst asked)) (snd asked) (rg_session g)" and wf: "engine_wf g"
    and safe: "s_phase (rg_session g) = Pending \<Longrightarrow> en_phase (rg_engine g) = E_Verified \<Longrightarrow> slot_safe me g"
    and live: "rig_ok f st me asked g \<or> (en_phase (rg_engine g) = E_Verified)"
  shows "rig_ok f st me asked (step_failed dv me r t g)"
    and "claims me (rg_native g) (rg_native (step_failed dv me r t g))"
proof -
  consider "s_phase (rg_session g) \<noteq> Pending" | "s_phase (rg_session g) = Pending" "en_phase (rg_engine g) = E_Verified"
    | "s_phase (rg_session g) = Pending" "en_phase (rg_engine g) \<noteq> E_Verified" "rig_ok f st me asked g"
    using live by blast
  then have "rig_ok f st me asked (step_failed dv me r t g) \<and> claims me (rg_native g) (rg_native (step_failed dv me r t g))"
  proof cases
    case 1
    then have "rig_ok f st me asked g" using live run wf by (auto simp: rig_ok_def)
    then show ?thesis using 1 by (simp add: step_failed_idle)
  next
    case 2
    obtain res g1 where ab: "abort_ticket dv me r t g = (res, g1)" by force
    have "open_wf g" using engine_wf_open [OF wf] 2(2) by simp
    note a = abort_ticket_ok [OF run this safe [OF 2] ab]
    have "s_phase (rg_session g1) \<noteq> Closed" using a(4) 2(1) by auto
    then have "rig_ok f st me asked (in_phase Failed g1)"
      using session_run_poison [OF a(3)] a(2) by (auto intro!: rig_ok_failed simp: in_phase_def)
    then show ?thesis using 2 a(1) ab by (simp add: step_failed_def)
  next
    case 3
    have "rig_ok f st me asked (g\<lparr>rg_session := snd (fail_verification (rg_session g) r t)\<rparr>)"
      by (rule rig_ok_quiet [OF 3(3) session_run_fail [OF run, of r t]])
        (use fail_verification_cases [of "rg_session g" r t] in auto)
    then show ?thesis using 3 by (simp add: step_failed_def)
  qed
  then show "rig_ok f st me asked (step_failed dv me r t g)"
    and "claims me (rg_native g) (rg_native (step_failed dv me r t g))" by blast+
qed

text \<open>A verify that returns holds the slot.\<close>

lemma verify_body_key: "keeps (\<lambda>g. en_pending_key (rg_engine g)) (verify_body dv me key t)"
  by (auto simp: keeps_def engine_ops op_then_def op_bind_def op_refuse_def Let_def
      split: prod.splits sum.splits option.splits)

lemma engine_verify_claims:
  assumes "device_ok f st dv" and "live_at st me xs g" and "engine_verify dv me t g = (Inr ps, g')"
    and "t_tokens t \<noteq> []"
  shows "claims me (rg_native g) (rg_native g')"
proof -
  obtain key g1 where key: "engine_bucket_key (rg_engine g) (rg_session g) t = Inr key"
    and body: "verify_body dv me key t g1 = (Inr ps, g')" "en_pending_key (rg_engine g1) = Some key"
    using assms(3) by (auto simp: engine_verify_def op_returned check_ticket_def)
  have "en_pending_key (rg_engine g') = Some key"
    using keepsD [OF verify_body_key body(1)] body(2) by simp
  moreover note engine_verify_sound(2) [OF assms]
  ultimately have "nv_resident (rg_native g') = Some me"
    using engine_bucket_key_shape [OF key] by (auto simp: verified_at_def)
  then show ?thesis by (simp add: claims_def)
qed

lemma step_block_ok:
  assumes as: "asked_ok asked" and dev: "device_ok f st dv" and ok: "rig_ok f st me asked g"
    and tok: "t_tokens t \<noteq> []" and r: "r = s_request_id (rg_session g)"
    and run: "op_except (step_block dv me r c t) (step_failed dv me r t) g = (res, g')"
  shows "rig_ok f st me asked g' \<and> claims me (rg_native g) (rg_native g')"
proof (cases "engine_verify dv me t g")
  case (Pair p g1)
  show ?thesis
  proof (cases p)
    case (Inl e)
    have ev: "engine_verify dv me t g = (Inl e, g1)" using Pair Inl by simp
    then have g': "g' = step_failed dv me r t g1" using run
      by (cases res) (auto simp: step_block_def op_returned op_raised)
    from engine_verify_Inl [OF ev rig_okD(2) [OF ok]] show ?thesis
    proof (elim disjE conjE)
      assume "g1 = g"
      moreover have "slot_safe me g" if "s_phase (rg_session g) = Pending" "en_phase (rg_engine g) = E_Verified"
        using rig_okD(4) [OF ok that(2,1)] by (auto simp: slot_safe_def)
      ultimately show ?thesis
        using step_failed_ok [OF rig_okD(1,2) [OF ok], of me st dv r t] ok by (simp add: g')
    next
      assume f: "rg_session g1 = (rg_session g)\<lparr>s_phase := Failed\<rparr>" "s_phase (rg_session g) = Pending"
        "engine_wf g1" "claims me (rg_native g) (rg_native g1)"
      then have "rig_ok f st me asked g1"
        using session_run_poison [OF rig_okD(1) [OF ok]] by (auto intro!: rig_ok_failed)
      then show ?thesis using f by (simp add: g' step_failed_idle)
    qed
  next
    case (Inr ps)
    let ?xs = "consumed (fst asked) (rg_session g)"
    have ev: "engine_verify dv me t g = (Inr ps, g1)" using Pair Inr by simp
    then have idle: "en_phase (rg_engine g) = E_Idle" and pend: "s_phase (rg_session g) = Pending"
      by (auto simp: engine_verify_def op_returned check_ticket_def ticket_live_def)
    then have live: "live_at st me ?xs g" using rig_okD(3) [OF ok] by blast
    note v = engine_verify_sound [OF dev live ev tok]
    note cl = engine_verify_claims [OF dev live ev tok]
    have run1: "session_run (target_verified f (fst asked)) (snd asked) (rg_session g1)"
      using rig_okD(1) [OF ok] v(3) by simp
    have ver: "verified_at st dv me (consumed (fst asked) (rg_session g1)) t g1" using v(2,3) by simp
    then have wf: "open_wf g1" "en_phase (rg_engine g1) = E_Verified" by (auto simp: verified_at_def)
    have tl: "ticket_live (rg_session g1) r t" using v(3,6) r by simp
    note safe = verified_slot_safe [OF ver]
    note fail = step_failed_ok [OF run1 open_wf_engine [OF wf(1)] safe, of st dv r t]
    consider e where "c = Inl e" "g' = step_failed dv me r t g1"
      | g2 e where "abort_ticket dv me r t g1 = (Inl e, g2)" "g' = step_failed dv me r t g2"
      | g2 where "abort_ticket dv me r t g1 = (Inr (), g2)" "g' = set_cancelled g2"
      | g2 e where "commit_ticket dv me r t ps None g1 = (Inl e, g2)" "g' = step_failed dv me r t g2"
      | d where "commit_ticket dv me r t ps None g1 = (Inr d, g')"
      using run ev by (cases res) (auto simp: step_block_def op_returned op_raised split: if_splits)
    then show ?thesis
    proof cases
      case 1
      then show ?thesis using fail wf(2) claims_trans [OF cl] by auto
    next
      case 2
      note a = abort_ticket_ok [OF run1 wf(1) safe 2(1)]
      have "rig_ok f st me asked g2" "s_phase (rg_session g2) \<noteq> Pending" using a(5) [OF dev ver tl] by blast+
      then show ?thesis using 2(2) claims_trans [OF cl a(1)] by (simp add: step_failed_idle)
    next
      case 3
      note a = abort_ticket_ok [OF run1 wf(1) safe 3(1)]
      have "rig_ok f st me asked g2" using a(5) [OF dev ver tl] by blast
      then show ?thesis using 3(2) claims_trans [OF cl a(1)] by simp
    next
      case 4
      have preds: "target_verified f (fst asked) (rg_session g1) t None ps"
        using v(1,3) by (intro target_verified_whole) (simp add: consumed_def)
      note c = commit_ticket_ok [OF as run1 dev ver preds 4(1)]
      from c(2) show ?thesis
      proof (elim disjE conjE)
        assume "rig_ok f st me asked g2" "s_phase (rg_session g2) \<noteq> Pending"
        then show ?thesis using 4(2) claims_trans [OF cl c(1)] by (simp add: step_failed_idle)
      next
        assume "g2 = g1"
        then show ?thesis using 4(2) fail wf(2) claims_trans [OF cl] by auto
      qed
    next
      case 5
      have preds: "target_verified f (fst asked) (rg_session g1) t None ps"
        using v(1,3) by (intro target_verified_whole) (simp add: consumed_def)
      note c = commit_ticket_ok [OF as run1 dev ver preds 5]
      show ?thesis using c(3) claims_trans [OF cl c(1)] by simp
    qed
  qed
qed

subsection \<open>Step\<close>

text \<open>The ticket a step verifies has tokens, whether it was pending or is prepared now.\<close>

lemma pending_tokens:
  assumes "asked_ok asked" and "session_run (target_verified f (fst asked)) (snd asked) s"
    and "s_phase s = Idle \<or> s_phase s = Pending" and "s_pending s = Some t"
  shows "t_tokens t \<noteq> []"
proof -
  obtain seed where "session_inv (fst asked) seed s" using asked_inv [OF assms(1,2)] .
  then show ?thesis using assms(3,4) by (auto simp: session_inv_def ticket_ok_def)
qed

lemma request_step_ok:
  assumes as: "asked_ok asked" and dev: "device_ok f st dv"
  shows "op_ok f st me asked (request_step dv me r first second)"
proof (rule op_okI)
  fix g res g' assume ok: "rig_ok f st me asked g" and run: "request_step dv me r first second g = (res, g')"
  consider "g' = g"
    | r' g1 where "cancel_pending r g = (r', g1)" "g' = g1 \<or> g' = set_cancelled g1"
    | e where "s_pending (rg_session g) = None" "request_prepare dv r None g = (Inl e, g')"
    | t g1 where "s_pending (rg_session g) = None" "request_prepare dv r None g = (Inr t, g1)"
        "op_finally (op_except (step_block dv me r second t) (step_failed dv me r t)) (set_busy False)
           (set_busy True g1) = (res, g')" "r = s_request_id (rg_session g)"
    | t where "s_pending (rg_session g) = Some t" "s_phase (rg_session g) = Idle \<or> s_phase (rg_session g) = Pending"
        "op_finally (op_except (step_block dv me r second t) (step_failed dv me r t)) (set_busy False)
           (set_busy True g) = (res, g')" "r = s_request_id (rg_session g)"
    using run
    by (cases res; cases "s_pending (rg_session g)")
      (auto simp: request_step_def op_bind_Inr op_bind_Inl op_then_Inl op_then_Inr op_refuse_Inl op_refuse_Inr
        split: if_splits)
  then show "rig_ok f st me asked g' \<and> claims me (rg_native g) (rg_native g')"
  proof cases
    case 2
    then show ?thesis using op_okD [OF cancel_pending_ok ok 2(1)] by auto
  next
    case 3
    then show ?thesis using request_prepare_ok(1,3) [OF as ok 3(2)] by simp
  next
    case (4 t g1)
    note p = request_prepare_ok [OF as ok 4(2)]
    obtain g2 where "op_except (step_block dv me r second t) (step_failed dv me r t) (set_busy True g1) = (res, g2)"
      "g' = set_busy False g2" using 4(3) by (auto simp: op_finally_eq)
    then show ?thesis
      using step_block_ok [OF as dev, of me "set_busy True g1" t r second res g2] p 4(4) by simp
  next
    case (5 t)
    obtain g2 where "op_except (step_block dv me r second t) (step_failed dv me r t) (set_busy True g) = (res, g2)"
      "g' = set_busy False g2" using 5(3) by (auto simp: op_finally_eq)
    then show ?thesis
      using step_block_ok [OF as dev, of me "set_busy True g" t r second res g2] ok 5(4)
        pending_tokens [OF as rig_okD(1) [OF ok] 5(2,1)] by simp
  qed (use ok in simp)
qed

subsection \<open>Park and close\<close>

lemma leave_slot_simps [simp]:
  "rg_session (leave_slot me g) = rg_session g" "rg_engine (leave_slot me g) = rg_engine g"
  "rg_runtime (leave_slot me g) = rg_runtime g"
  by (simp_all add: leave_slot_def)

lemma leave_slot_claims: "claims me (rg_native g) (rg_native (leave_slot me g))"
  by (simp add: claims_def leave_slot_def)

lemma engine_park_ok: "op_ok f st me asked (engine_park dv me)"
proof (rule op_okI)
  fix g r g' assume ok: "rig_ok f st me asked g" and run: "engine_park dv me g = (r, g')"
  have "g' = g \<or> (en_phase (rg_engine g) = E_Idle \<and> g' = leave_slot me (on_engine (\<lambda>e. e\<lparr>en_phase := E_Parked, en_pending := None,
                                         en_pending_key := None\<rparr>) g))"
    using run by (cases r) (auto simp: engine_park_def op_returned op_raised may_park_def split: if_splits)
  then show "rig_ok f st me asked g' \<and> claims me (rg_native g) (rg_native g')"
  proof (elim disjE conjE)
    assume "en_phase (rg_engine g) = E_Idle" and g': "g' = leave_slot me (on_engine (\<lambda>e. e\<lparr>en_phase := E_Parked, en_pending := None, en_pending_key := None\<rparr>) g)"
    have "rig_ok f st me asked g'" using ok \<open>en_phase (rg_engine g) = E_Idle\<close> by (auto simp: rig_ok_def engine_wf_def g')
    moreover have "claims me (rg_native g) (rg_native g')"
      using leave_slot_claims [of me "on_engine (\<lambda>e. e\<lparr>en_phase := E_Parked, en_pending := None, en_pending_key := None\<rparr>) g"] by (simp add: g')
    ultimately show ?thesis by blast
  next
    assume "g' = g" then show ?thesis using ok by simp
  qed
qed

lemma engine_close_ok: "op_ok f st me asked (engine_close dv me)"
proof (rule op_okI)
  fix g r g' assume ok: "rig_ok f st me asked g" and run: "engine_close dv me g = (r, g')"
  have "g' = g \<or> g' = leave_slot me (on_engine (\<lambda>e. e\<lparr>en_carry := None, en_buckets := [], en_initial := None,
           en_phase := E_Closed, en_pending := None\<rparr>) g)"
    using run by (cases r) (auto simp: engine_close_def op_returned op_raised split: if_splits)
  then show "rig_ok f st me asked g' \<and> claims me (rg_native g) (rg_native g')"
  proof (elim disjE)
    assume g': "g' = leave_slot me (on_engine (\<lambda>e. e\<lparr>en_carry := None, en_buckets := [], en_initial := None, en_phase := E_Closed, en_pending := None\<rparr>) g)"
    have "rig_ok f st me asked g'" using ok by (auto simp: rig_ok_def engine_wf_def g')
    moreover have "claims me (rg_native g) (rg_native g')"
      using leave_slot_claims [of me "on_engine (\<lambda>e. e\<lparr>en_carry := None, en_buckets := [], en_initial := None, en_phase := E_Closed, en_pending := None\<rparr>) g"] by (simp add: g')
    ultimately show ?thesis by blast
  qed (use ok in simp)
qed

lemma session_close_frame:
  "session_close s r = (res, s') \<Longrightarrow> s' = s \<or> s_phase s' = Closed"
  by (auto simp: session_close_def split: if_splits sum.splits)

lemma on_session_close_ok: "op_ok f st me asked (on_session (\<lambda>s. session_close s r))"
proof (rule op_okI)
  fix g res g' assume ok: "rig_ok f st me asked g" and run: "on_session (\<lambda>s. session_close s r) g = (res, g')"
  obtain s' where s: "session_close (rg_session g) r = (res, s')" and g': "g' = g\<lparr>rg_session := s'\<rparr>"
    using run by (auto simp: on_session_def split: prod.splits)
  have "session_run (target_verified f (fst asked)) (snd asked) s'"
    using session_run.quiet [OF rig_okD(1) [OF ok] quiet_step.close [of _ r]] s by simp
  then show "rig_ok f st me asked g' \<and> claims me (rg_native g) (rg_native g')"
    using session_close_frame [OF s] ok g' by (auto simp: rig_ok_def)
qed

text \<open>A sequence of operations that keep the invariant keeps it.\<close>

lemma op_ok_bind: "op_ok f st me asked m \<Longrightarrow> (\<And>x. op_ok f st me asked (k x)) \<Longrightarrow> op_ok f st me asked (op_bind m k)"
  proof (rule op_okI)
  fix g r g' assume m: "op_ok f st me asked m" and k: "\<And>x. op_ok f st me asked (k x)"
    and ok: "rig_ok f st me asked g" and run: "op_bind m k g = (r, g')"
  obtain p g1 where p: "m g = (p, g1)" by force
  note m1 = op_okD [OF m ok p]
  show "rig_ok f st me asked g' \<and> claims me (rg_native g) (rg_native g')"
  proof (cases p)
    case (Inl e)
    then show ?thesis using m1 run p by (simp add: op_bind_def)
  next
    case (Inr x)
    then have "k x g1 = (r, g')" using run p by (simp add: op_bind_def)
    from op_okD [OF k m1(1) this] show ?thesis using claims_trans [OF m1(2)] by blast
  qed
qed

lemma op_ok_then: "op_ok f st me asked m \<Longrightarrow> op_ok f st me asked n \<Longrightarrow> op_ok f st me asked (op_then m n)"
  by (simp add: op_then_def op_ok_bind)

lemma op_ok_simple:
  "op_ok f st me asked (op_refuse c e)" "op_ok f st me asked (op_read h)" "op_ok f st me asked (\<lambda>g. (x, g))"
  by (simp_all add: op_ok_def op_refuse_def)

lemma op_ok_if: "op_ok f st me asked m \<Longrightarrow> op_ok f st me asked n \<Longrightarrow> op_ok f st me asked (\<lambda>g. if c g then m g else n g)"
  by (simp add: op_ok_def)

text \<open>A close whose release keeps the invariant keeps it.\<close>

lemma request_close_ok:
  assumes "\<And>m. release = Some m \<Longrightarrow> op_ok f st me asked m"
  shows "op_ok f st me asked (request_close dv me r release released)"
proof -
  have "op_ok f st me asked (case release of None \<Rightarrow> engine_close dv me | Some m \<Rightarrow> m)"
    by (cases release) (simp_all add: assms engine_close_ok)
  moreover have "op_ok f st me asked (op_update (\<lambda>g. g\<lparr>rg_closed := True\<rparr>))"
    by (simp add: op_ok_def)
  ultimately show ?thesis
    unfolding request_close_def
    by (intro op_ok_then op_ok_simple op_ok_if cancel_pending_ok on_session_close_ok)
qed

end
