(* ===== verification/PackedRound.thy ===== *)
theory PackedRound
  imports FastRequest
begin

text \<open>
  One round of several requests, \<open>scripts/ci/serving_packed_step.py\<close> and \<open>serving_sequential_step.py\<close>: a
  round the packed block can serve is verified in one device pass and committed user by user, any
  other goes to the requests' own steps, and a round neither can serve is refused.

  A \<open>world\<close> holds what the engines share and the request behind every engine, by the engine's identity.
  The block's prestage, its fences and fused commit, the audit lines and timings are left out, and so is
  the quarantine of a refused round (\<open>abort_refused\<close> without its consumer installed does nothing).
\<close>

record ('s, 'r) world =
  wd_native :: "('s, 'r) native"
  wd_rigs :: "nat \<Rightarrow> ('s, 'r) rig option"

type_synonym ('s, 'r, 'a) world_op = "(('s, 'r) world, 'a) op"

text \<open>What a request sees of the world, and a request's operation run in it.\<close>

definition rig_at :: "('s, 'r) world \<Rightarrow> nat \<Rightarrow> ('s, 'r) rig option" where
  "rig_at w me = map_option (\<lambda>g. g\<lparr>rg_native := wd_native w\<rparr>) (wd_rigs w me)"

definition put_rig :: "nat \<Rightarrow> ('s, 'r) rig \<Rightarrow> ('s, 'r) world \<Rightarrow> ('s, 'r) world" where
  "put_rig me g w = w\<lparr>wd_native := rg_native g, wd_rigs := (wd_rigs w)(me \<mapsto> g)\<rparr>"

definition at_rig :: "nat \<Rightarrow> ('s, 'r, 'a) rig_op \<Rightarrow> ('s, 'r, 'a) world_op" where
  "at_rig me m w =
     (case rig_at w me of
        None \<Rightarrow> (Inl KeyError, w)
      | Some g \<Rightarrow> (case m g of (r, g') \<Rightarrow> (r, put_rig me g' w)))"

definition check_rig :: "nat \<Rightarrow> (('s, 'r) rig \<Rightarrow> 'a result) \<Rightarrow> ('s, 'r) world \<Rightarrow> 'a result" where
  "check_rig me h w = (case rig_at w me of None \<Rightarrow> Inl KeyError | Some g \<Rightarrow> h g)"

definition read_rig :: "nat \<Rightarrow> (('s, 'r) rig \<Rightarrow> 'a) \<Rightarrow> ('s, 'r) world \<Rightarrow> 'a result" where
  "read_rig me h = check_rig me (\<lambda>g. Inr (h g))"

record packed_entry =
  pe_engine :: nat
  pe_request_id :: string
  pe_ticket :: block_ticket

text \<open>What the cancellation callback answers or raises: before the verify, at a request's commit, and at
  the two questions of its own step.\<close>

record cancels =
  ca_before :: "bool result"
  ca_commit :: "string \<Rightarrow> bool result"
  ca_first :: "string \<Rightarrow> bool result"
  ca_second :: "string \<Rightarrow> bool result"

subsection \<open>Running an operation for every entry\<close>

fun each :: "('e \<Rightarrow> ('st, 'a) op) \<Rightarrow> 'e list \<Rightarrow> ('st, 'a list) op" where
  "each m [] = op_return []"
| "each m (e # es) = op_bind (m e) (\<lambda>x. op_bind (each m es) (\<lambda>xs. op_return (x # xs)))"

text \<open>A refusal that is passed over: \<open>except BaseException: pass\<close>.\<close>

definition attempt :: "('st, 'a) op \<Rightarrow> ('st, unit) op" where
  "attempt m s = (Inr (), snd (m s))"

subsection \<open>The sequential step\<close>

definition sequential_packed_step ::
  "('s, 'r) device \<Rightarrow> cancels \<Rightarrow> packed_entry list \<Rightarrow> ('s, 'r, committed_output list) world_op" where
  "sequential_packed_step dv ca entries =
     op_then (op_refuse (\<lambda>_. entries = []) ValueError)
      (each (\<lambda>e.
         op_then (op_refuse (\<lambda>_. t_request_id (pe_ticket e) \<noteq> pe_request_id e) ValueError)
         (op_bind (at_rig (pe_engine e) (request_step dv (pe_engine e) (pe_request_id e)
                     (ca_first ca (pe_request_id e)) (ca_second ca (pe_request_id e)))) (\<lambda>output.
          op_then (op_refuse (\<lambda>_. co_request_id output \<noteq> pe_request_id e) ValueError)
           (op_return output)))) entries)"

subsection \<open>The block's round\<close>

text \<open>An entry's \<open>(tokens, start, pages)\<close>, at its segment.\<close>

definition segment_users ::
  "'r block \<Rightarrow> (packed_entry \<times> int list) list \<Rightarrow> nat list \<Rightarrow> block_user option list" where
  "segment_users b entries segments =
     map (\<lambda>segment. map_of (zip segments (map (\<lambda>(e, pages).
            (t_tokens (pe_ticket e), int (t_position (pe_ticket e)), pages)) entries)) segment) [0..<bl_users b]"

definition verify_entry_check :: "'r block \<Rightarrow> packed_entry \<Rightarrow> ('s, 'r) rig \<Rightarrow> unit result" where
  "verify_entry_check b e g =
     (let s = rg_session g; en = rg_engine g; t = pe_ticket e
      in if \<not> ticket_live s (s_request_id s) t then Inl ValueError
         else if t_request_id t \<noteq> pe_request_id e \<or> en_phase en \<noteq> E_Idle \<or> en_pending en \<noteq> None
              \<or> t_position t \<noteq> en_position en \<or> int (length (t_tokens t)) \<noteq> bl_rows b then Inl ValueError
         else if \<not> block_admits b (int (t_position t)) then Inl ValueError
         else Inr ())"

definition entry_pages :: "packed_entry \<Rightarrow> ('s, 'r) world \<Rightarrow> int list result" where
  "entry_pages e = read_rig (pe_engine e) (\<lambda>g. en_pages (rg_engine g))"

definition entry_carry :: "packed_entry \<Rightarrow> ('s, 'r) world \<Rightarrow> 's option result" where
  "entry_carry e = read_rig (pe_engine e) (\<lambda>g. en_carry (rg_engine g))"

definition on_block :: "nat \<Rightarrow> ('r block \<Rightarrow> 'r block) \<Rightarrow> ('s, 'r) world \<Rightarrow> ('s, 'r) world" where
  "on_block k h w = w\<lparr>wd_native := set_block k (h (nv_blocks (wd_native w) k)) (wd_native w)\<rparr>"

definition world_packed_step :: "('s, 'r) world \<Rightarrow> ('s, 'r) world" where
  "world_packed_step w = w\<lparr>wd_native := note_packed_step (wd_native w)\<rparr>"

definition release_segment :: "('s, 'r) device \<Rightarrow> nat \<Rightarrow> nat \<Rightarrow> ('s, 'r, unit) world_op" where
  "release_segment dv k segment w =
     (case block_release (dv_block_bindings dv) (dv_synchronize dv) segment (nv_blocks (wd_native w) k) of
        (r, b) \<Rightarrow> (r, (if returned (block_commit_check segment 0 (nv_blocks (wd_native w) k)) then world_packed_step else id)
                       (on_block k (\<lambda>_. b) w)))"

definition block_replay_op ::
  "('s, 'r) device \<Rightarrow> (nat \<times> 's option \<times> int \<times> int list) list
     \<Rightarrow> ('s, 'r, (nat \<times> int list \<times> 'r) list) world_op" where
  "block_replay_op dv inputs w =
     (case dv_block_replay dv inputs (nv_slot (wd_native w)) of
        (r, slot) \<Rightarrow> (r, w\<lparr>wd_native := (wd_native w)\<lparr>nv_slot := slot\<rparr>\<rparr>))"

text \<open>What the trace reads: every segment's carry, start and tokens.\<close>

definition replay_inputs ::
  "nat list \<Rightarrow> 's option list \<Rightarrow> block_user option list \<Rightarrow> (nat \<times> 's option \<times> int \<times> int list) list" where
  "replay_inputs segments carries users =
     map (\<lambda>segment. case the (users ! segment) of (tokens, start, _) \<Rightarrow>
            (segment, case map_of (zip segments carries) segment of None \<Rightarrow> None | Some c \<Rightarrow> c, start, tokens))
       (live_segments users)"

definition rows_complete :: "'r block \<Rightarrow> (nat \<times> int list \<times> 'r) list \<Rightarrow> bool" where
  "rows_complete b outs \<longleftrightarrow> (\<forall>segment < bl_users b. case map_of outs segment of
     None \<Rightarrow> False | Some (rows, _) \<Rightarrow> int (length rows) = bl_rows b)"

definition fill_users :: "'r block \<Rightarrow> nat list \<Rightarrow> block_user option list \<Rightarrow> block_user option list result" where
  "fill_users b segments users =
     (if None \<in> set users then rbind (idle_inputs b segments) (\<lambda>fills. Inr (fill_idle fills users)) else Inr users)"

definition record_starts :: "block_user option list \<Rightarrow> (nat \<times> int) list" where
  "record_starts users = map (\<lambda>segment. (segment, fst (snd (the (users ! segment))))) (live_segments users)"

definition verified_block ::
  "nat list \<Rightarrow> nat list \<Rightarrow> (nat \<times> int list \<times> 'r) list \<Rightarrow> 'r block \<Rightarrow> 'r block" where
  "verified_block segments idle outs b = b\<lparr>bl_pending := segments @ idle, bl_idle := idle,
     bl_records := map (\<lambda>(segment, _, rec). (segment, rec)) outs, bl_rounds := Suc (bl_rounds b),
     bl_phase := B_Verified\<rparr>"

text \<open>The part of \<open>verify\<close> under its handler: staging, the trace, the readback and the idle decisions.\<close>

definition verify_device ::
  "('s, 'r) device \<Rightarrow> nat \<Rightarrow> nat list \<Rightarrow> nat list \<Rightarrow> 's option list \<Rightarrow> block_user option list
     \<Rightarrow> ('s, 'r, int list list) world_op" where
  "verify_device dv k segments idle carries users =
     op_then (op_read (\<lambda>_. dv_block_bindings dv))
     (op_bind (op_read (\<lambda>w. fill_users (nv_blocks (wd_native w) k) segments users)) (\<lambda>staged.
      op_then (op_read (\<lambda>_. dv_block_stage dv))
     (op_then (op_update world_packed_step)
     (op_bind (block_replay_op dv (replay_inputs segments carries staged)) (\<lambda>outs.
      op_then (op_refuse (\<lambda>w. \<not> rows_complete (nv_blocks (wd_native w) k) outs) AssertionError)
     (op_then (op_update (on_block k (verified_block segments idle outs)))
     (op_then (each (release_segment dv k) idle)
      (op_return (map (\<lambda>segment. fst (the (map_of outs segment))) segments)))))))))"

text \<open>A pending ticket fails its verification.\<close>

definition fail_ticket :: "packed_entry \<Rightarrow> ('s, 'r) rig \<Rightarrow> ('s, 'r) rig" where
  "fail_ticket e g =
     (if s_phase (rg_session g) = Pending \<and> s_pending (rg_session g) = Some (pe_ticket e)
      then g\<lparr>rg_session := snd (fail_verification (rg_session g) (s_request_id (rg_session g)) (pe_ticket e))\<rparr>
      else g)"

definition update_rig :: "nat \<Rightarrow> (('s, 'r) rig \<Rightarrow> ('s, 'r) rig) \<Rightarrow> ('s, 'r) world \<Rightarrow> ('s, 'r) world" where
  "update_rig me h w = snd (at_rig me (op_update h) w)"

definition verify_failed :: "nat \<Rightarrow> packed_entry list \<Rightarrow> ('s, 'r) world \<Rightarrow> ('s, 'r) world" where
  "verify_failed k entries w =
     fold (\<lambda>e. update_rig (pe_engine e) (fail_ticket e)) entries (on_block k (\<lambda>b. b\<lparr>bl_phase := B_Failed\<rparr>) w)"

definition block_verify ::
  "('s, 'r) device \<Rightarrow> nat \<Rightarrow> packed_entry list \<Rightarrow> ('s, 'r, int list list \<times> nat list) world_op" where
  "block_verify dv k entries w =
     (let b = nv_blocks (wd_native w) k
      in op_then (op_refuse (\<lambda>_. bl_phase b \<noteq> B_Idle) ValueError)
        (op_bind (op_read (\<lambda>_. block_segments b (map pe_engine entries))) (\<lambda>segments.
         op_then (op_read (\<lambda>w. those_results (map (\<lambda>e. check_rig (pe_engine e) (verify_entry_check b e) w) entries)))
        (op_bind (op_read (\<lambda>w. those_results (map (\<lambda>e. entry_pages e w) entries))) (\<lambda>pages.
         op_bind (op_read (\<lambda>w. those_results (map (\<lambda>e. entry_carry e w) entries))) (\<lambda>carries.
         let users = segment_users b (zip entries pages) segments;
             idle = filter (\<lambda>segment. segment \<notin> set segments) [0..<bl_users b]
         in op_then (op_refuse (\<lambda>_. idle \<noteq> [] \<and> padded_refusal b users \<noteq> None) ValueError)
           (op_bind (op_read (\<lambda>_. if bl_extent b then fill_users b segments users else Inr users)) (\<lambda>known.
            op_then (op_update (on_block k (\<lambda>b. b\<lparr>bl_starts := (if bl_extent b then record_starts known else bl_starts b),
                       bl_phase := B_Verifying\<rparr>)))
           (op_bind (op_except (verify_device dv k segments idle carries users) (verify_failed k entries))
             (\<lambda>predictions. op_return (predictions, segments)))))))))) w)"

subsection \<open>Commits\<close>

definition commit_entry ::
  "('s, 'r) device \<Rightarrow> int option \<Rightarrow> nat \<Rightarrow> packed_entry \<Rightarrow> nat \<Rightarrow> int list \<Rightarrow> bool result
     \<Rightarrow> ('s, 'r, committed_output) rig_op" where
  "commit_entry dv forced k e segment rows cancelled =
     (let me = pe_engine e; r = pe_request_id e; t = pe_ticket e
      in op_then (adopt_packed t k segment)
        (op_bind (op_read (\<lambda>g. commit_limit forced (nv_blocks (rg_native g) k) (int (t_position t)) (int (length (t_tokens t)))))
          (\<lambda>limit.
         op_bind (op_read (\<lambda>_. cancelled)) (\<lambda>c.
           if c then op_then (abort_ticket dv me r t)
                    (op_then (op_update set_cancelled) (\<lambda>g. (Inr (output_of r [] True True g), g)))
           else op_bind (commit_ticket dv me r t rows limit) (\<lambda>d g.
                  (Inr (output_of r (d_emitted d) (s_finished (rg_session g)) False g), g))))))"

text \<open>What \<open>fail_round\<close> does to one request, and to the block.\<close>

definition fail_entry :: "('s, 'r) device \<Rightarrow> packed_entry \<Rightarrow> ('s, 'r) rig \<Rightarrow> ('s, 'r) rig" where
  "fail_entry dv e g =
     (if s_phase (rg_session g) \<noteq> Pending \<or> s_pending (rg_session g) \<noteq> Some (pe_ticket e) then g
      else step_failed dv (pe_engine e) (pe_request_id e) (pe_ticket e) g)"

definition fail_round :: "('s, 'r) device \<Rightarrow> nat \<Rightarrow> packed_entry list \<Rightarrow> ('s, 'r) world \<Rightarrow> ('s, 'r) world" where
  "fail_round dv k entries w =
     (let w = fold (\<lambda>e. update_rig (pe_engine e) (fail_entry dv e)) entries w
      in fold (\<lambda>segment w. snd (release_segment dv k segment w)) (sort (bl_pending (nv_blocks (wd_native w) k))) w)"

definition set_round_busy :: "bool \<Rightarrow> packed_entry list \<Rightarrow> ('s, 'r) world \<Rightarrow> ('s, 'r) world" where
  "set_round_busy busy entries w = fold (\<lambda>e. update_rig (pe_engine e) (set_busy busy)) entries w"

definition run_verified_block ::
  "('s, 'r) device \<Rightarrow> int option \<Rightarrow> cancels \<Rightarrow> nat \<Rightarrow> packed_entry list
     \<Rightarrow> ('s, 'r, committed_output list) world_op" where
  "run_verified_block dv forced ca k entries =
     op_then (op_update (set_round_busy True entries))
      (op_finally
        (op_except
          (op_bind (block_verify dv k entries) (\<lambda>(predictions, segments).
           op_then (op_refuse (\<lambda>_. length predictions \<noteq> length entries \<or> length segments \<noteq> length entries) ValueError)
            (each (\<lambda>(e, segment, rows). at_rig (pe_engine e)
                     (commit_entry dv forced k e segment rows (ca_commit ca (pe_request_id e))))
              (zip entries (zip segments predictions)))))
          (fail_round dv k entries))
        (\<lambda>w. set_round_busy False entries (world_packed_step w)))"

end
