(* ===== verification/RoundPolicy.thy ===== *)
theory RoundPolicy
  imports PackedRound
begin

text \<open>
  Which rounds a packed block serves (\<open>proposal_rows\<close> before the drafts, \<open>ineligible\<close> at the step), what
  happens to the others (\<open>narrow_round\<close>, \<open>refuse_round\<close>), and the packed device step over one block or
  several, \<open>scripts/ci/serving_packed_step.py\<close>.
\<close>

datatype refusal =
    Entries nat nat
  | Ticket_Rows string int
  | Not_Bound string
  | Outside_Extent string
  | Padded_Round padded_reason
  | Kv_Shared nat nat "int \<times> int"
  | Kv_Unmapped
  | Kv_Two_Owners
  | Kv_Idle_Refused
  | Cancelled_Before

subsection \<open>The guards\<close>

definition block_at :: "nat \<Rightarrow> ('s, 'r) world \<Rightarrow> 'r block" where
  "block_at k w = nv_blocks (wd_native w) k"

definition admitted :: "'r block \<Rightarrow> int \<Rightarrow> bool" where
  "admitted b position = block_admits b position"

definition pads :: "'r block \<Rightarrow> nat \<Rightarrow> bool" where
  "pads b n = block_pads b n"

text \<open>An owner of a round: its engine, its frontier and its page table. \<open>at_segments\<close> places what each owner
  brings at its segment, the last owner of a segment winning.\<close>

type_synonym owner = "nat \<times> int \<times> int list"

definition at_segments :: "nat \<Rightarrow> nat list \<Rightarrow> 'a list \<Rightarrow> 'a option list" where
  "at_segments users segments xs = map (map_of (rev (zip segments xs))) [0..<users]"

definition round_padded_refusal :: "owner list \<Rightarrow> 'r block \<Rightarrow> padded_reason option result" where
  "round_padded_refusal owners b =
     rbind (those_results (map (segment_of b \<circ> fst) owners)) (\<lambda>segments. Inr (
       case first_some (\<lambda>i. if segments ! i \<in> set (take i segments) then Some (Padded_Shared (segments ! i)) else None)
              [0..<length segments] of
         Some reason \<Rightarrow> Some reason
       | None \<Rightarrow> padded_refusal b (at_segments (bl_users b) segments (map (\<lambda>(_, position, table). ([], position, table)) owners))))"

definition kv_positions :: "'r block \<Rightarrow> int \<Rightarrow> int list" where
  "kv_positions b position = py_range position (position + bl_rows b) 1"

definition kv_guard :: "bool \<Rightarrow> owner list \<Rightarrow> 'r block \<Rightarrow> refusal option result" where
  "kv_guard sentinels owners b =
     rbind (those_results (map (segment_of b \<circ> fst) owners)) (\<lambda>segments.
       let users = at_segments (bl_users b) segments (map (\<lambda>((_, position, table), segment).
             (kv_positions b position, if sentinels then pad_sentinel_table table segment else table)) (zip owners segments));
           live = filter (\<lambda>segment. users ! segment \<noteq> None) [0..<length users];
           checked = (\<lambda>users. if None \<in> set users then Inr None
             else (case kv_conflict (map the users) of
                     Inl _ \<Rightarrow> Inr (Some Kv_Unmapped)
                   | Inr None \<Rightarrow> Inr None
                   | Inr (Some (first, second, tile)) \<Rightarrow> Inr (Some (Kv_Shared first second tile))))
       in if None \<in> set users \<and> pads b (length owners)
          then (if length live \<noteq> length owners then Inr (Some Kv_Two_Owners)
                else (case idle_inputs b live of
                        Inl _ \<Rightarrow> Inr (Some Kv_Idle_Refused)
                      | Inr fills \<Rightarrow> checked (map (\<lambda>(segment, user). case user of Some u \<Rightarrow> Some u
                          | None \<Rightarrow> map_option (\<lambda>(_, start, table). (kv_positions b start, table)) (map_of fills segment))
                          (enumerate 0 users))))
          else checked users)"

definition owner_at :: "nat \<Rightarrow> int \<Rightarrow> ('s, 'r) world \<Rightarrow> owner result" where
  "owner_at me position = read_rig me (\<lambda>g. (me, position, en_pages (rg_engine g)))"

definition entry_owners :: "packed_entry list \<Rightarrow> ('s, 'r) world \<Rightarrow> owner list result" where
  "entry_owners entries w = those_results (map (\<lambda>e. owner_at (pe_engine e) (int (t_position (pe_ticket e))) w) entries)"

definition entry_refusal :: "'r block \<Rightarrow> packed_entry \<Rightarrow> refusal option" where
  "entry_refusal b e =
     (let rows = int (length (t_tokens (pe_ticket e)))
      in if rows \<noteq> bl_rows b then Some (Ticket_Rows (pe_request_id e) rows)
         else if \<not> returned (segment_of b (pe_engine e)) then Some (Not_Bound (pe_request_id e))
         else if bl_extent b \<and> \<not> admitted b (int (t_position (pe_ticket e))) then Some (Outside_Extent (pe_request_id e))
         else None)"

definition ineligible :: "bool \<Rightarrow> packed_entry list \<Rightarrow> nat \<Rightarrow> ('s, 'r) world \<Rightarrow> refusal option result" where
  "ineligible sentinels entries k w =
     (let b = block_at k w; padded = (length entries \<noteq> bl_users b \<and> pads b (length entries))
      in if length entries \<noteq> bl_users b \<and> \<not> padded then Inr (Some (Entries (length entries) (bl_users b)))
         else case first_some (entry_refusal b) entries of
           Some reason \<Rightarrow> Inr (Some reason)
         | None \<Rightarrow> rbind (entry_owners entries w) (\<lambda>owners.
             rbind (if padded then round_padded_refusal owners b else Inr None) (\<lambda>refused.
               case refused of
                 Some reason \<Rightarrow> Inr (Some (Padded_Round reason))
               | None \<Rightarrow> if bl_kv_chains b then kv_guard sentinels owners b else Inr None)))"

subsection \<open>The width of the coming drafts\<close>

text \<open>The first block an engine is bound to.\<close>

definition bound_block :: "nat list \<Rightarrow> ('s, 'r) world \<Rightarrow> nat \<Rightarrow> nat option" where
  "bound_block blocks w me = first_some (\<lambda>k. if returned (segment_of (block_at k w) me) then Some k else None) blocks"

definition group_members :: "nat list \<Rightarrow> ('s, 'r) world \<Rightarrow> nat list \<Rightarrow> (nat \<times> nat list) list result" where
  "group_members blocks w live =
     foldl (\<lambda>groups me. rbind groups (\<lambda>groups. case bound_block blocks w me of
         None \<Rightarrow> Inl ValueError
       | Some k \<Rightarrow> Inr (dict_set k ((case map_of groups k of None \<Rightarrow> [] | Some ms \<Rightarrow> ms) @ [me]) groups))) (Inr []) live"

definition group_serves :: "bool \<Rightarrow> ('s, 'r) world \<Rightarrow> nat \<Rightarrow> nat list \<Rightarrow> bool result" where
  "group_serves sentinels w k members =
     (let b = block_at k w; padded = (length members \<noteq> bl_users b \<and> pads b (length members))
      in if length members \<noteq> bl_users b \<and> \<not> padded then Inr False
         else rbind (those_results (map (\<lambda>me. read_rig me (\<lambda>g.
                remaining_tokens (rg_session g) \<ge> bl_rows b \<and> admitted b (int (s_position (rg_session g)))) w) members)) (\<lambda>fits.
           if False \<in> set fits then Inr False
           else rbind (those_results (map (\<lambda>me. rbind (read_rig me (\<lambda>g. int (s_position (rg_session g))) w)
                  (\<lambda>position. owner_at me position w)) members)) (\<lambda>owners.
             rbind (if padded then round_padded_refusal owners b else Inr None) (\<lambda>refused.
               if refused \<noteq> None then Inr False
               else if bl_kv_chains b then rbind (kv_guard sentinels owners b) (\<lambda>shared. Inr (shared = None))
               else Inr True))))"

fun groups_width :: "bool \<Rightarrow> ('s, 'r) world \<Rightarrow> int option \<Rightarrow> (nat \<times> nat list) list \<Rightarrow> int option result" where
  "groups_width sentinels w width [] = Inr width"
| "groups_width sentinels w width ((k, members) # groups) =
     (let b = block_at k w
      in if length members \<noteq> bl_users b \<and> \<not> pads b (length members) then Inr None
         else if width \<noteq> None \<and> width \<noteq> Some (bl_rows b) then Inr None
         else rbind (group_serves sentinels w k members) (\<lambda>ok.
           if \<not> ok then Inr None else groups_width sentinels w (Some (bl_rows b)) groups))"

definition round_proposal_rows :: "bool \<Rightarrow> nat list \<Rightarrow> nat list \<Rightarrow> ('s, 'r) world \<Rightarrow> int option result" where
  "round_proposal_rows sentinels blocks requests w =
     rbind (those_results (map (\<lambda>me. read_rig me (\<lambda>g. (me, s_finished (rg_session g))) w) requests)) (\<lambda>asked.
       let live = map fst (filter (\<lambda>(_, finished). \<not> finished) asked)
       in if live = [] then Inr None
          else (case group_members blocks w live of
                  Inl _ \<Rightarrow> Inr None
                | Inr groups \<Rightarrow> groups_width sentinels w None groups))"

subsection \<open>Narrowing\<close>

definition narrow_widths :: "nat list" where
  "narrow_widths = [32, 16, 8, 4, 2, 1]"

definition cut_ticket :: "nat \<Rightarrow> block_ticket \<Rightarrow> block_ticket" where
  "cut_ticket rows ticket = ticket\<lparr>t_tokens := take rows (t_tokens ticket)\<rparr>"

definition servable_width :: "('s, 'r) rig \<Rightarrow> block_ticket \<Rightarrow> nat option" where
  "servable_width g ticket =
     first_some (\<lambda>rows. if rows > length (t_tokens ticket) then None
                        else if serves (rg_engine g) (rg_session g) (cut_ticket rows ticket) then Some rows else None)
       narrow_widths"

definition entry_serves :: "packed_entry \<Rightarrow> ('s, 'r) rig \<Rightarrow> bool" where
  "entry_serves e g = serves (rg_engine g) (rg_session g) (pe_ticket e)"

definition unservable :: "packed_entry list \<Rightarrow> ('s, 'r) world \<Rightarrow> packed_entry list result" where
  "unservable entries w =
     rbind (those_results (map (\<lambda>e. read_rig (pe_engine e) (\<lambda>g. (e, entry_serves e g)) w) entries))
       (\<lambda>asked. Inr (map fst (filter (\<lambda>(_, ok). \<not> ok) asked)))"

text \<open>The width every entry is cut to: none for a served ticket; \<open>Inl\<close> when nothing narrower serves one.\<close>

definition planned_width :: "packed_entry \<Rightarrow> ('s, 'r) rig \<Rightarrow> nat option result" where
  "planned_width e g =
     (if entry_serves e g then Inr None
      else case servable_width g (pe_ticket e) of None \<Rightarrow> Inl ValueError | Some rows \<Rightarrow> Inr (Some rows))"

fun cut_entries :: "(packed_entry \<times> nat option) list \<Rightarrow> ('s, 'r) world \<Rightarrow> (packed_entry list \<times> bool) \<times> ('s, 'r) world" where
  "cut_entries [] w = (([], True), w)"
| "cut_entries ((e, None) # es) w =
     (case cut_entries es w of ((done, ok), w') \<Rightarrow> ((e # done, ok), w'))"
| "cut_entries ((e, Some rows) # es) w =
     (case at_rig (pe_engine e) (on_session (\<lambda>s. session_narrow s (pe_request_id e) (pe_ticket e) (int rows))) w of
        (Inl _, w') \<Rightarrow> ((e # map fst es, False), w')
      | (Inr ticket, w') \<Rightarrow> (case cut_entries es w' of ((done, ok), w'') \<Rightarrow> ((e\<lparr>pe_ticket := ticket\<rparr> # done, ok), w'')))"

definition narrow_round :: "packed_entry list \<Rightarrow> ('s, 'r, packed_entry list \<times> bool) world_op" where
  "narrow_round entries w =
     (case those_results (map (\<lambda>e. check_rig (pe_engine e) (planned_width e) w) entries) of
        Inl _ \<Rightarrow> (Inr (entries, False), w)
      | Inr widths \<Rightarrow> (case cut_entries (zip entries widths) w of (done, w') \<Rightarrow> (Inr done, w')))"

definition refuse_round :: "('s, 'r) device \<Rightarrow> nat \<Rightarrow> packed_entry list \<Rightarrow> ('s, 'r, committed_output list) world_op" where
  "refuse_round dv k entries w =
     (let w = fail_round dv k entries w
      in (those_results (map (\<lambda>e. read_rig (pe_engine e) (output_of (pe_request_id e) [] True True) w) entries), w))"

subsection \<open>The packed device step\<close>

definition entry_check :: "packed_entry \<Rightarrow> ('s, 'r) rig \<Rightarrow> unit result" where
  "entry_check e g =
     (if t_request_id (pe_ticket e) \<noteq> pe_request_id e then Inl ValueError
      else if rg_closed g \<or> rg_busy g \<or> rg_cancelled g \<or> s_pending (rg_session g) \<noteq> Some (pe_ticket e) then Inl ValueError
      else Inr ())"

definition validate_packed_entries :: "packed_entry list \<Rightarrow> ('s, 'r) world \<Rightarrow> unit list result" where
  "validate_packed_entries entries w =
     those_results (map (\<lambda>e. check_rig (pe_engine e) (entry_check e) w) entries)"

text \<open>What a round does with one block: served by it, sent to the requests' own steps (the entries as they
  are then), or refused with its outputs.\<close>

datatype disposal = Serve | Step_Each "packed_entry list" | Refused "committed_output list"

definition dispose_round ::
  "('s, 'r) device \<Rightarrow> bool \<Rightarrow> cancels \<Rightarrow> nat \<Rightarrow> packed_entry list \<Rightarrow> ('s, 'r, disposal) world_op" where
  "dispose_round dv sentinels ca k entries =
     op_bind (op_read (ineligible sentinels entries k)) (\<lambda>reason.
       case reason of
         None \<Rightarrow> op_bind (op_read (\<lambda>_. ca_before ca)) (\<lambda>c. op_return (if c then Step_Each entries else Serve))
       | Some _ \<Rightarrow> op_bind (op_read (unservable entries)) (\<lambda>refused.
           if refused = [] then op_return (Step_Each entries)
           else op_bind (narrow_round entries) (\<lambda>(entries, ok).
             if ok then op_return (Step_Each entries)
             else op_bind (refuse_round dv k entries) (\<lambda>outputs. op_return (Refused outputs)))))"

definition packed_device_step ::
  "('s, 'r) device \<Rightarrow> bool \<Rightarrow> int option \<Rightarrow> cancels \<Rightarrow> nat \<Rightarrow> packed_entry list
     \<Rightarrow> ('s, 'r, committed_output list) world_op" where
  "packed_device_step dv sentinels forced ca k entries =
     op_then (op_refuse (\<lambda>_. entries = []) ValueError)
     (op_then (op_read (validate_packed_entries entries))
     (op_bind (dispose_round dv sentinels ca k entries) (\<lambda>disposal.
        case disposal of
          Serve \<Rightarrow> run_verified_block dv forced ca k entries
        | Step_Each entries \<Rightarrow> sequential_packed_step dv ca entries
        | Refused outputs \<Rightarrow> op_return outputs)))"

subsection \<open>Several blocks\<close>

definition group_by_block ::
  "nat list \<Rightarrow> ('s, 'r) world \<Rightarrow> packed_entry list \<Rightarrow> (nat \<times> packed_entry list) list \<times> packed_entry list" where
  "group_by_block blocks w entries =
     foldl (\<lambda>(groups, unbound) e. case bound_block blocks w (pe_engine e) of
         None \<Rightarrow> (groups, unbound @ [e])
       | Some k \<Rightarrow> (dict_set k ((case map_of groups k of None \<Rightarrow> [] | Some es \<Rightarrow> es) @ [e]) groups, unbound)) ([], []) entries"

definition add_outputs :: "committed_output list \<Rightarrow> (string \<times> committed_output) list \<Rightarrow> (string \<times> committed_output) list" where
  "add_outputs outputs table = fold (\<lambda>output. dict_set (co_request_id output) output) outputs table"

fun block_rounds ::
  "('s, 'r) device \<Rightarrow> bool \<Rightarrow> int option \<Rightarrow> cancels \<Rightarrow> (nat \<times> packed_entry list) list \<Rightarrow> nat list
     \<Rightarrow> (string \<times> committed_output) list \<Rightarrow> packed_entry list
     \<Rightarrow> ('s, 'r, (string \<times> committed_output) list \<times> packed_entry list) world_op" where
  "block_rounds dv sentinels forced ca groups [] outputs later = op_return (outputs, later)"
| "block_rounds dv sentinels forced ca groups (k # blocks) outputs later =
     (case map_of groups k of
        None \<Rightarrow> block_rounds dv sentinels forced ca groups blocks outputs later
      | Some entries \<Rightarrow> op_bind (dispose_round dv sentinels ca k entries) (\<lambda>disposal.
          case disposal of
            Serve \<Rightarrow> op_bind (run_verified_block dv forced ca k entries) (\<lambda>done.
              block_rounds dv sentinels forced ca groups blocks (add_outputs done outputs) later)
          | Step_Each es \<Rightarrow> block_rounds dv sentinels forced ca groups blocks outputs (later @ es)
          | Refused done \<Rightarrow> block_rounds dv sentinels forced ca groups blocks (add_outputs done outputs) later))"

definition entry_order :: "packed_entry list \<Rightarrow> packed_entry \<Rightarrow> nat" where
  "entry_order entries e = (case map_of (rev (zip (map pe_request_id entries) [0..<length entries])) (pe_request_id e) of
     None \<Rightarrow> 0 | Some i \<Rightarrow> i)"

definition packed_device_rounds ::
  "('s, 'r) device \<Rightarrow> bool \<Rightarrow> int option \<Rightarrow> cancels \<Rightarrow> nat list \<Rightarrow> packed_entry list
     \<Rightarrow> ('s, 'r, committed_output list) world_op" where
  "packed_device_rounds dv sentinels forced ca blocks entries =
     op_then (op_refuse (\<lambda>_. entries = []) ValueError)
     (op_then (op_refuse (\<lambda>_. blocks = []) ValueError)
     (op_then (op_read (validate_packed_entries entries))
     (op_bind (op_read (\<lambda>w. Inr (group_by_block blocks w entries))) (\<lambda>(groups, unbound).
      op_bind (block_rounds dv sentinels forced ca groups blocks [] unbound) (\<lambda>(outputs, later).
      op_bind (if later = [] then op_return []
               else sequential_packed_step dv ca (sort_key (entry_order entries) later)) (\<lambda>stepped.
      op_read (\<lambda>_. those_results (map (\<lambda>e. case map_of (add_outputs stepped outputs) (pe_request_id e) of
          None \<Rightarrow> Inl KeyError | Some output \<Rightarrow> Inr output) entries))))))))"

end
