(* ===== verification/PackedSafety.thy ===== *)
theory PackedSafety
  imports RigSteps RoundPolicy
begin

text \<open>
  A packed round keeps the invariant of every request of the world: what the block's device work is
  relied on for, that a commit of a verified segment is a commit of the request's own tokens, and that
  a round that fails part way leaves every request failed or untouched.
\<close>

subsection \<open>What the block's device work is relied on for\<close>

text \<open>How many rows of a segment are the target's: on the extent path, the ones below its family end.\<close>

definition trusted_in_block :: "'r block \<Rightarrow> int \<Rightarrow> int list \<Rightarrow> nat" where
  "trusted_in_block b pos ts = (case block_accept_limit b pos of Inr (Some l) \<Rightarrow> nat l | _ \<Rightarrow> length ts)"

definition packed_ok :: "(int list \<Rightarrow> int) \<Rightarrow> (int list \<Rightarrow> 's) \<Rightarrow> ('s, 'r) device \<Rightarrow> 'r block \<Rightarrow> bool" where
  "packed_ok f st dv b \<longleftrightarrow>
     (\<forall>inputs slot outs slot' segment xs pos ts rows rec.
        dv_block_replay dv inputs slot = (Inr outs, slot') \<longrightarrow> (segment, Some (st xs), pos, ts) \<in> set inputs \<longrightarrow>
        map_of outs segment = Some (rows, rec) \<longrightarrow> length rows = length ts \<longrightarrow>
        take (trusted_in_block b pos ts) rows = take (trusted_in_block b pos ts) (target_rows f xs ts)
        \<and> (\<forall>n c. 0 < n \<longrightarrow> n \<le> length ts \<longrightarrow> n \<le> trusted_in_block b pos ts \<longrightarrow>
              dv_block_commit dv (Some rec) n (st xs) = (Inr (), c) \<longrightarrow> c = st (xs @ take n ts)))"

text \<open>What of a block a commit leaves alone.\<close>

definition block_data :: "'r block \<Rightarrow> 'r block" where
  "block_data b = b\<lparr>bl_phase := B_Idle, bl_pending := []\<rparr>"

lemma block_data_fields:
  assumes "block_data b = block_data b'"
  shows "bl_shape b = bl_shape b'" "bl_extent b = bl_extent b'" "bl_idle b = bl_idle b'" "bl_starts b = bl_starts b'"
    "bl_records b = bl_records b'"
proof -
  have *: "bl_shape (block_data c) = bl_shape c \<and> bl_extent (block_data c) = bl_extent c \<and> bl_idle (block_data c) = bl_idle c
      \<and> bl_starts (block_data c) = bl_starts c \<and> bl_records (block_data c) = bl_records c" for c :: "'a block"
    by (simp add: block_data_def)
  from * [of b] * [of b'] show "bl_shape b = bl_shape b'" "bl_extent b = bl_extent b'" "bl_idle b = bl_idle b'"
    "bl_starts b = bl_starts b'" "bl_records b = bl_records b'" unfolding assms by simp_all
qed

lemma trusted_in_block_data: "block_data b = block_data b' \<Longrightarrow> trusted_in_block b = trusted_in_block b'"
proof (rule ext)+
  fix pos ts assume "block_data b = block_data b'"
  from block_data_fields [OF this] show "trusted_in_block b pos ts = trusted_in_block b' pos ts"
    by (simp add: trusted_in_block_def block_accept_limit_def bl_rows_def)
qed

text \<open>A request whose block round was verified: its ticket, and the block's rows and states for it.\<close>

definition verified_in :: "(int list \<Rightarrow> int) \<Rightarrow> (int list \<Rightarrow> 's) \<Rightarrow> ('s, 'r) device \<Rightarrow> int list \<Rightarrow> 'r block \<Rightarrow> nat
    \<Rightarrow> block_ticket \<Rightarrow> int list \<Rightarrow> ('s, 'r) rig \<Rightarrow> bool" where
  "verified_in f st dv prompt b segment t rows g \<longleftrightarrow>
     (let xs = consumed prompt (rg_session g); m = trusted_in_block b (int (t_position t)) (t_tokens t)
      in ticket_live (rg_session g) (s_request_id (rg_session g)) t \<and> en_phase (rg_engine g) = E_Idle
       \<and> (bl_extent b \<longrightarrow> map_of (bl_starts b) segment = Some (int (t_position t)))
       \<and> length rows = length (t_tokens t) \<and> take m rows = take m (target_rows f xs (t_tokens t))
       \<and> (\<forall>n c. 0 < n \<longrightarrow> n \<le> length (t_tokens t) \<longrightarrow> n \<le> m \<longrightarrow>
            dv_block_commit dv (map_of (bl_records b) segment) n (st xs) = (Inr (), c) \<longrightarrow> c = st (xs @ take n (t_tokens t))))"

lemma verified_in_data:
  "block_data b = block_data b' \<Longrightarrow> verified_in f st dv prompt b segment t rows g = verified_in f st dv prompt b' segment t rows g"
proof -
  assume *: "block_data b = block_data b'"
  from trusted_in_block_data [OF *] block_data_fields [OF *] show ?thesis by (simp add: verified_in_def)
qed

text \<open>The block accepts no prefix past its cap.\<close>

lemma commit_check_cap:
  assumes "block_commit_check segment (int n) b = Inr ()" and "0 < n" and "n \<le> length ts"
    and "bl_extent b \<Longrightarrow> map_of (bl_starts b) segment = Some pos"
  shows "n \<le> trusted_in_block b pos ts"
proof (cases "bl_extent b")
  case True
  have "segment \<notin> set (bl_idle b)" using assms(1,2) by (auto simp: block_commit_check_def)
  then obtain l where "block_accept_limit b pos = Inr (Some l)" "int n \<le> l"
    using assms(1,2) True assms(4) [OF True]
    by (auto simp: block_commit_check_def rbind_Inr_iff check_extent_cap_def split: option.splits if_splits)
  then show ?thesis by (simp add: trusted_in_block_def)
next
  case False
  then show ?thesis using assms(3) by (simp add: trusted_in_block_def block_accept_limit_def)
qed

lemma verified_in_segment:
  assumes "verified_in f st dv prompt b segment t rows g"
  shows "segment_ok st dv b segment (consumed prompt (rg_session g)) (t_tokens t)"
  using assms commit_check_cap [of segment _ b "t_tokens t" "int (t_position t)"]
  unfolding segment_ok_def verified_in_def Let_def by blast

text \<open>The commit's cap keeps it below the rows that are not the target's.\<close>

lemma commit_limit_trusted:
  assumes "commit_limit forced b (int (t_position t)) (int (length (t_tokens t))) = Inr limit"
  shows "trusted_rows t limit \<le> trusted_in_block b (int (t_position t)) (t_tokens t)
    \<or> (\<exists>m. limit = Some m \<and> m > int (length (t_tokens t)))"
  using assms
  by (auto simp: commit_limit_def rbind_Inr_iff trusted_rows_def trusted_in_block_def block_accept_limit_def
      split: option.splits if_splits)

lemma verified_in_target:
  assumes "verified_in f st dv prompt b segment t rows g"
    and "commit_limit forced b (int (t_position t)) (int (length (t_tokens t))) = Inr limit"
    and "\<And>m. limit = Some m \<Longrightarrow> m \<le> int (length (t_tokens t))"
  shows "target_verified f prompt (rg_session g) t limit rows"
proof -
  let ?m = "trusted_in_block b (int (t_position t)) (t_tokens t)"
  let ?n = "trusted_rows t limit"
  have "?n \<le> ?m" using commit_limit_trusted [OF assms(2)] assms(3) by fastforce
  moreover have rows: "length rows = length (t_tokens t)"
    "take ?m rows = take ?m (target_rows f (consumed prompt (rg_session g)) (t_tokens t))"
    using assms(1) by (simp_all add: verified_in_def Let_def)
  ultimately have "take ?n rows = take ?n (target_rows f (consumed prompt (rg_session g)) (t_tokens t))"
    by (metis min.absorb1 take_take)
  then show ?thesis using rows by (simp add: target_verified_def consumed_def)
qed

lemma commit_limit_le:
  assumes "commit_limit forced b position rows = Inr (Some m)" and "bl_rows b = rows"
  shows "m \<le> rows"
  using assms
  by (auto simp: commit_limit_def rbind_Inr_iff block_accept_limit_def extent_accept_limit_def
      split: option.splits if_splits)

subsection \<open>One user's commit\<close>

lemma adopt_packed_Inr:
  assumes "adopt_packed t k segment g = (Inr u, g')" and "rig_ok f st me asked g"
    and "segment_ok st dv (nv_blocks (rg_native g) k) segment (consumed (fst asked) (rg_session g)) (t_tokens t)"
  shows "verified_at st dv me (consumed (fst asked) (rg_session g)) t g'"
    and "rg_session g' = rg_session g" "rg_native g' = rg_native g"
    and "s_phase (rg_session g) = Pending" and "en_pending_key (rg_engine g') = Some (Packed segment)"
    and "bl_rows (nv_blocks (rg_native g) k) = int (length (t_tokens t))"
proof -
  let ?e = "\<lambda>e. e\<lparr>en_buckets := dict_set (Packed segment) \<lparr>bk_retained = False, bk_first = False,
              bk_poisoned = False, bk_checkpoint = None, bk_records = None, bk_packed = Some (k, segment)\<rparr> (en_buckets e),
           en_pending_key := Some (Packed segment), en_phase := E_Verified, en_pending := Some t\<rparr>"
  have g': "g' = on_engine ?e g" and idle: "en_phase (rg_engine g) = E_Idle"
    and ph: "s_phase (rg_session g) = Pending"
    and rows: "bl_rows (nv_blocks (rg_native g) k) = int (length (t_tokens t))"
    using assms(1) by (auto simp: adopt_packed_def op_returned check_ticket_def ticket_live_def)
  have live: "live_at st me (consumed (fst asked) (rg_session g)) g"
    using rig_okD(3) [OF assms(2) idle] ph by simp
  have "open_wf g'"
    using live by (auto simp: g' live_at_def open_wf_def bucket_ok_def intro!: list_all_dict_set)
  then show "verified_at st dv me (consumed (fst asked) (rg_session g)) t g'"
    using live assms(3) by (simp add: g' verified_at_def live_at_def packed_of_def map_of_dict_set)
  show "rg_session g' = rg_session g" "rg_native g' = rg_native g" "en_pending_key (rg_engine g') = Some (Packed segment)"
    by (simp_all add: g')
  show "s_phase (rg_session g) = Pending" by (rule ph)
  show "bl_rows (nv_blocks (rg_native g) k) = int (length (t_tokens t))" by (rule rows)
qed

lemma adopt_packed_Inl: "adopt_packed t k segment g = (Inl e, g') \<Longrightarrow> g' = g"
  by (auto simp: adopt_packed_def op_raised op_refuse_Inr check_ticket_def)

lemma verified_rig_ok:
  assumes "session_run (target_verified f (fst asked)) (snd asked) (rg_session g)" and "verified_at st dv me xs t g"
    and "en_pending_key (rg_engine g) = Some (Packed segment)"
  shows "rig_ok f st me asked g"
  using assms by (auto simp: rig_ok_def verified_at_def open_wf_engine)

lemma commit_entry_ok:
  assumes as: "asked_ok asked" and dev: "device_ok f st dv" and ok: "rig_ok f st (pe_engine e) asked g"
    and ver: "verified_in f st dv (fst asked) (nv_blocks (rg_native g) k) segment (pe_ticket e) rows g"
    and run: "commit_entry dv forced k e segment rows c g = (res, g')"
  shows "rig_ok f st (pe_engine e) asked g' \<and> claims (pe_engine e) (rg_native g) (rg_native g')"
proof (cases "adopt_packed (pe_ticket e) k segment g")
  case (Pair p g1)
  let ?me = "pe_engine e" and ?r = "pe_request_id e" and ?t = "pe_ticket e"
  show ?thesis
  proof (cases p)
    case (Inl x)
    then show ?thesis using Pair run ok adopt_packed_Inl [of ?t k segment g x g1]
      by (auto simp: commit_entry_def Let_def op_then_def op_bind_def)
  next
    case (Inr u)
    with Pair have "adopt_packed ?t k segment g = (Inr u, g1)" by simp
    note a = adopt_packed_Inr [OF this ok verified_in_segment [OF ver]]
    have run1: "session_run (target_verified f (fst asked)) (snd asked) (rg_session g1)"
      using rig_okD(1) [OF ok] a(2) by simp
    have ok1: "rig_ok f st ?me asked g1" by (rule verified_rig_ok [OF run1 a(1,5)])
    have wf: "open_wf g1" using a(1) by (simp add: verified_at_def)
    have ver1: "verified_at st dv ?me (consumed (fst asked) (rg_session g1)) ?t g1" using a(1,2) by simp
    note safe = verified_slot_safe [OF a(1)]
    consider "g' = g1"
      | g2 x where "abort_ticket dv ?me ?r ?t g1 = (x, g2)" "g' = g2 \<or> g' = set_cancelled g2"
      | limit x where "commit_limit forced (nv_blocks (rg_native g) k) (int (t_position ?t)) (int (length (t_tokens ?t))) = Inr limit"
          "commit_ticket dv ?me ?r ?t rows limit g1 = (x, g')"
      using run Pair Inr a(3)
      by (cases res) (auto simp: commit_entry_def Let_def op_bind_Inr op_bind_Inl op_then_Inr op_then_Inl
          split: if_splits)
    then show ?thesis
    proof cases
      case 1
      then show ?thesis using ok1 a(3) by simp
    next
      case 2
      note b = abort_ticket_ok [OF run1 wf safe 2(1)]
      have "rig_ok f st ?me asked g2"
      proof (cases "ticket_live (rg_session g1) ?r ?t")
        case True
        then show ?thesis using b(5) [OF dev ver1] by blast
      next
        case False
        then have "g2 = g1" using 2(1) by (auto simp: abort_ticket_def session_abort_def Let_def)
        then show ?thesis using ok1 by simp
      qed
      then show ?thesis using 2(2) b(1) a(3) by auto
    next
      case 3
      have "m \<le> int (length (t_tokens ?t))" if "limit = Some m" for m
        using commit_limit_le 3(1) a(6) that by blast
      then have tv: "target_verified f (fst asked) (rg_session g1) ?t limit rows"
        using verified_in_target [OF ver 3(1)] a(2) by simp
      note d = commit_ticket_ok [OF as run1 dev ver1 tv 3(2)]
      show ?thesis using d(1,2) ok1 a(3) by auto
    qed
  qed
qed

end
