(* ===== verification/WorldInvariant.thy ===== *)
theory WorldInvariant
  imports PackedSafety
begin

text \<open>
  Every request of a world keeps its own invariant through the steps of the others: what each round of
  \<open>serving_packed_step.py\<close>, packed, sequential, narrowed or refused, does to the world.
\<close>

definition world_ok :: "(int list \<Rightarrow> int) \<Rightarrow> (int list \<Rightarrow> 's) \<Rightarrow> (nat \<Rightarrow> int list \<times> session) \<Rightarrow> ('s, 'r) world \<Rightarrow> bool" where
  "world_ok f st asked w \<longleftrightarrow>
     (\<forall>me g. rig_at w me = Some g \<longrightarrow> asked_ok (asked me) \<and> rig_ok f st me (asked me) g)"

lemma world_okD:
  assumes "world_ok f st asked w" and "rig_at w me = Some g"
  shows "asked_ok (asked me)" and "rig_ok f st me (asked me) g"
  using assms by (auto simp: world_ok_def)

subsection \<open>Changes that keep it\<close>

lemma rig_ok_native:
  assumes "rig_ok f st me asked (g\<lparr>rg_native := n\<rparr>)"
    and "nv_resident n' = Some me \<Longrightarrow> nv_resident n = Some me \<and> nv_slot n' = nv_slot n"
  shows "rig_ok f st me asked (g\<lparr>rg_native := n'\<rparr>)"
  using assms by (auto simp: rig_ok_def live_at_def engine_wf_def)

lemma rig_at_native: "rig_at w me = Some g \<Longrightarrow> rg_native g = wd_native w"
  by (auto simp: rig_at_def)

lemma rig_at_put: "rig_at (put_rig me g w) me' =
    (if me' = me then Some g else map_option (\<lambda>h. h\<lparr>rg_native := rg_native g\<rparr>) (rig_at w me'))"
  by (cases "wd_rigs w me'") (simp_all add: rig_at_def put_rig_def)

lemma world_ok_put:
  assumes w: "world_ok f st asked w" and g: "rig_at w me = Some g"
    and ok: "rig_ok f st me (asked me) g'" and cl: "claims me (rg_native g) (rg_native g')"
  shows "world_ok f st asked (put_rig me g' w)"
  unfolding world_ok_def
proof (intro allI impI)
  fix me' h assume h: "rig_at (put_rig me g' w) me' = Some h"
  show "asked_ok (asked me') \<and> rig_ok f st me' (asked me') h"
  proof (cases "me' = me")
    case True
    then show ?thesis using h ok world_okD(1) [OF w g] by (simp add: rig_at_put)
  next
    case False
    then obtain h0 where h0: "rig_at w me' = Some h0" and hh: "h = h0\<lparr>rg_native := rg_native g'\<rparr>"
      using h by (auto simp: rig_at_put)
    have "rig_ok f st me' (asked me') (h0\<lparr>rg_native := wd_native w\<rparr>)"
      using world_okD(2) [OF w h0] rig_at_native [OF h0] by (metis rig.surjective rig.update_convs(1))
    then have "rig_ok f st me' (asked me') h"
      unfolding hh using cl False rig_at_native [OF g]
      by (rule_tac rig_ok_native) (auto simp: claims_def)
    then show ?thesis using world_okD(1) [OF w h0] by simp
  qed
qed

text \<open>A change of what the engines share that nobody's trust survives, or that leaves the slot alone.\<close>

definition calm :: "('s, 'r) native \<Rightarrow> ('s, 'r) native \<Rightarrow> bool" where
  "calm n n' \<longleftrightarrow> nv_resident n' = None \<or> (nv_resident n' = nv_resident n \<and> nv_slot n' = nv_slot n)"

lemma world_ok_calm:
  assumes w: "world_ok f st asked w" and "calm (wd_native w) n"
  shows "world_ok f st asked (w\<lparr>wd_native := n\<rparr>)"
  unfolding world_ok_def
proof (intro allI impI)
  fix me h assume h: "rig_at (w\<lparr>wd_native := n\<rparr>) me = Some h"
  then obtain g where g: "wd_rigs w me = Some g" and hh: "h = g\<lparr>rg_native := n\<rparr>" by (auto simp: rig_at_def)
  then have g': "rig_at w me = Some (g\<lparr>rg_native := wd_native w\<rparr>)" by (simp add: rig_at_def)
  show "asked_ok (asked me) \<and> rig_ok f st me (asked me) h"
    unfolding hh using world_okD [OF w g'] assms(2) by (auto simp: calm_def intro: rig_ok_native)
qed

lemma world_ok_block: "world_ok f st asked w \<Longrightarrow> world_ok f st asked (on_block k h w)"
  unfolding on_block_def by (rule world_ok_calm) (simp_all add: calm_def set_block_def)

lemma world_ok_packed_step: "world_ok f st asked w \<Longrightarrow> world_ok f st asked (world_packed_step w)"
  unfolding world_packed_step_def by (rule world_ok_calm) (simp_all add: calm_def note_packed_step_def)

lemma preserves_at_rig [keep]:
  fixes m :: "('s, 'r, 'a) rig_op"
  assumes "asked_ok (asked me) \<Longrightarrow> op_ok f st me (asked me) m"
  shows "preserves (world_ok f st asked) (at_rig me m)"
  unfolding preserves_def
proof (intro allI impI)
  fix w :: "('s, 'r) world" assume w: "world_ok f st asked w"
  show "world_ok f st asked (snd (at_rig me m w))"
  proof (cases "rig_at w me")
    case None
    then show ?thesis using w by (simp add: at_rig_def)
  next
    case (Some g)
    obtain r g' where m: "m g = (r, g')" by force
    note o = op_okD [OF assms [OF world_okD(1) [OF w Some]] world_okD(2) [OF w Some] m]
    show ?thesis using world_ok_put [OF w Some o] Some m by (simp add: at_rig_def)
  qed
qed

lemma preserves_each [keep]: "(\<And>e. e \<in> set es \<Longrightarrow> preserves P (m e)) \<Longrightarrow> preserves P (each m es)"
  by (induction es) (auto intro!: preserves_bind preserves_return simp del: op_simps)

lemma world_ok_update:
  assumes "world_ok f st asked w" and "asked_ok (asked me) \<Longrightarrow> op_ok f st me (asked me) (op_update h)"
  shows "world_ok f st asked (update_rig me h w)"
proof -
  have "preserves (world_ok f st asked) (at_rig me (op_update h))"
    by (rule preserves_at_rig) (rule assms(2))
  then show ?thesis using assms(1) unfolding preserves_def update_rig_def by blast
qed

lemma world_ok_fold:
  assumes "world_ok f st asked w"
    and "\<And>e. e \<in> set es \<Longrightarrow> asked_ok (asked (who e)) \<Longrightarrow> op_ok f st (who e) (asked (who e)) (op_update (h e))"
  shows "world_ok f st asked (fold (\<lambda>e. update_rig (who e) (h e)) es w)"
  using assms by (induction es arbitrary: w) (simp_all add: world_ok_update)

subsection \<open>The sequential step\<close>

lemma sequential_packed_step_ok:
  assumes "device_ok f st dv"
  shows "preserves (world_ok f st asked) (sequential_packed_step dv ca entries)"
  unfolding sequential_packed_step_def
  by (intro keep request_step_ok assms)

end
