(* ===== verification/RoundSafety.thy ===== *)
theory RoundSafety
  imports WorldInvariant
begin

text \<open>
  The block's round and the packed device step keep the invariant of every request of the world.
\<close>

subsection \<open>What a commit leaves of the blocks\<close>

definition data_of :: "nat \<Rightarrow> ('s, 'r) rig \<Rightarrow> 'r block" where
  "data_of k g = block_data (nv_blocks (rg_native g) k)"

lemma data_of_simps [simp]:
  "data_of k (on_engine h g) = data_of k g" "data_of k (on_runtime c g) = data_of k g"
  "data_of k (set_phase p g) = data_of k g" "data_of k (g\<lparr>rg_session := s\<rparr>) = data_of k g"
  "data_of k (set_bucket key u g) = data_of k g" "data_of k (claim_slot me g) = data_of k g"
  "data_of k (in_phase q g) = data_of k g" "data_of k (set_cancelled g) = data_of k g"
  by (simp_all add: data_of_def set_bucket_def claim_slot_def in_phase_def set_cancelled_def)

lemma block_settle_data:
  "block_settle bindings fence trace segment n c b = (r, c', b') \<Longrightarrow> block_data b' = block_data b"
  using block_settle_Inr(2) [of bindings fence trace segment n c b "()" c' b']
    block_settle_Inl [of bindings fence trace segment n c b _ c' b']
  by (cases r) (auto simp: block_data_def)

lemma keeps_data_settle: "keeps (data_of k) (settle_segment dv blk segment n)"
  by (auto simp: keeps_def settle_segment_def data_of_def set_block_def note_packed_step_def
      split: option.splits prod.splits dest: block_settle_data)

lemma keeps_data_parts [keep]:
  "keeps (data_of k) (save_carry dv me)" "keeps (data_of k) (commit_retained dv b n)"
  "keeps (data_of k) (commit_plain dv b n)" "keeps (data_of k) check_replay_mark"
  "keeps (data_of k) (commit_history dv n)"
  by (auto simp: keeps_def engine_ops commit_history_def op_then_def op_bind_def op_refuse_def Let_def data_of_def
      split: prod.splits sum.splits option.splits)

lemma keeps_data_commit_segment [keep]: "keeps (data_of k) (commit_segment dv key pk n)"
  unfolding commit_segment_def
  by (intro keep keeps_data_settle) (simp add: data_of_def note_packed_step_def)

lemma keeps_data_body: "keeps (data_of k) (publish_body dv me key n)"
  unfolding publish_body_def publish_plain_def by (intro keep) simp_all

lemma keeps_data_engine_publish [keep]: "keeps (data_of k) (engine_publish dv me p)"
  unfolding keeps_def
proof
  fix g :: "('a, 'b) rig"
  show "data_of k (snd (engine_publish dv me p g)) = data_of k g"
  proof (cases "en_pending (rg_engine g)")
    case None
    then show ?thesis by (simp add: engine_publish_def)
  next
    case (Some t)
    from engine_publish_seq [OF this, of dv me p] obtain m where
      e: "engine_publish dv me p g =
        op_then (op_refuse (\<lambda>g. en_phase (rg_engine g) \<noteq> E_Verified \<or> s_pending (rg_session g) \<noteq> Some t
                     \<or> s_phase (rg_session g) \<noteq> Committing) ValueError)
         (op_then (op_refuse (\<lambda>_. \<not> (0 \<le> p \<and> p \<le> int (length (t_tokens t)))) ValueError)
         (op_then (op_update (set_phase E_Committing)) m)) g"
      and m: "m = op_raise KeyError \<or> (\<exists>key. en_pending_key (rg_engine g) = Some key \<and> m = publish_keyed dv me key (nat p))"
      by blast
    have "keeps (data_of k) (publish_keyed dv me key (nat p))" for key
      unfolding publish_keyed_def by (intro keep keeps_data_body) simp_all
    then have "keeps (data_of k) m" using m by (auto intro: keep simp del: op_simps)
    then have "keeps (data_of k) (op_then (op_refuse (\<lambda>g. en_phase (rg_engine g) \<noteq> E_Verified \<or> s_pending (rg_session g) \<noteq> Some t
                     \<or> s_phase (rg_session g) \<noteq> Committing) ValueError)
         (op_then (op_refuse (\<lambda>_. \<not> (0 \<le> p \<and> p \<le> int (length (t_tokens t)))) ValueError)
         (op_then (op_update (set_phase E_Committing)) m)))"
      by (intro keep) simp_all
    then show ?thesis by (simp add: e keeps_def)
  qed
qed

lemma keeps_ite: "keeps f m \<Longrightarrow> keeps f n \<Longrightarrow> keeps f (if c then m else n)"
  and preserves_ite: "preserves P m \<Longrightarrow> preserves P n \<Longrightarrow> preserves P (if c then m else n)"
  by simp_all

lemma keeps_data_runtime_publish: "keeps (data_of k) (runtime_publish dv me p)"
  unfolding runtime_publish_def by (intro keep keeps_ite) simp_all

lemma keeps_data_tickets:
  "data_of k (snd (commit_ticket dv me r t preds mr g)) = data_of k g"
  "data_of k (snd (abort_ticket dv me r t g)) = data_of k g"
  by (auto simp: commit_ticket_def abort_ticket_def Let_def keeps_data_runtime_publish [unfolded keeps_def, rule_format]
      split: prod.splits option.splits)

lemma keeps_data_commit_entry: "keeps (data_of k) (commit_entry dv forced k' e segment rows c)"
proof -
  have "keeps (data_of k) (commit_ticket dv me r t preds mr)" "keeps (data_of k) (abort_ticket dv me r t)"
    for me r t preds mr by (simp_all add: keeps_def keeps_data_tickets)
  moreover have "keeps (data_of k) (adopt_packed t k' segment)" for t
    unfolding adopt_packed_def check_ticket_def by (intro keep) simp
  ultimately show ?thesis unfolding commit_entry_def Let_def
    by (intro keep keeps_ite) (simp_all add: keeps_def)
qed

subsection \<open>Committing a verified round\<close>

definition ready :: "(int list \<Rightarrow> int) \<Rightarrow> (int list \<Rightarrow> 's) \<Rightarrow> ('s, 'r) device \<Rightarrow> (nat \<Rightarrow> int list \<times> session) \<Rightarrow> nat
    \<Rightarrow> ('s, 'r) world \<Rightarrow> packed_entry \<times> nat \<times> int list \<Rightarrow> bool" where
  "ready f st dv asked k w x \<longleftrightarrow>
     (case x of (e, segment, rows) \<Rightarrow> \<exists>g. rig_at w (pe_engine e) = Some g
        \<and> verified_in f st dv (fst (asked (pe_engine e))) (block_at k w) segment (pe_ticket e) rows g)"

lemma verified_in_native [simp]:
  "verified_in f st dv prompt b segment t rows (g\<lparr>rg_native := n\<rparr>) = verified_in f st dv prompt b segment t rows g"
  by (simp add: verified_in_def)

lemma ready_put:
  assumes "ready f st dv asked k w (e, segment, rows)" and "pe_engine e \<noteq> me"
    and "block_data (nv_blocks (rg_native g) k) = block_data (block_at k w)"
  shows "ready f st dv asked k (put_rig me g w) (e, segment, rows)"
proof -
  obtain h where h: "rig_at w (pe_engine e) = Some h"
    "verified_in f st dv (fst (asked (pe_engine e))) (block_at k w) segment (pe_ticket e) rows h"
    using assms(1) by (auto simp: ready_def)
  have "block_at k (put_rig me g w) = nv_blocks (rg_native g) k" by (simp add: block_at_def put_rig_def)
  then show ?thesis using h assms(2) by (simp add: ready_def rig_at_put verified_in_data [OF assms(3)])
qed

lemma commits_ok:
  assumes dev: "device_ok f st dv"
  shows "world_ok f st asked w \<Longrightarrow> (\<And>x. x \<in> set xs \<Longrightarrow> ready f st dv asked k w x) \<Longrightarrow>
    distinct (map (pe_engine \<circ> fst) xs) \<Longrightarrow>
    world_ok f st asked (snd (each (\<lambda>(e, segment, rows). at_rig (pe_engine e)
                     (commit_entry dv forced k e segment rows (ca e))) xs w))"
proof (induction xs arbitrary: w)
  case Nil
  then show ?case by simp
next
  case (Cons x xs)
  obtain e segment rows where x: "x = (e, segment, rows)" by (cases x) auto
  let ?c = "commit_entry dv forced k e segment rows (ca e)"
  obtain g where g: "rig_at w (pe_engine e) = Some g"
    and ver: "verified_in f st dv (fst (asked (pe_engine e))) (block_at k w) segment (pe_ticket e) rows g"
    using Cons.prems(2) [of x] by (auto simp: x ready_def)
  obtain r g' where c: "?c g = (r, g')" by force
  have blk: "block_at k w = nv_blocks (rg_native g) k" using rig_at_native [OF g] by (simp add: block_at_def)
  note o = commit_entry_ok [OF world_okD(1) [OF Cons.prems(1) g] dev world_okD(2) [OF Cons.prems(1) g] ver [unfolded blk] c]
  have w': "world_ok f st asked (put_rig (pe_engine e) g' w)"
    using world_ok_put [OF Cons.prems(1) g] o by blast
  have data: "block_data (nv_blocks (rg_native g') k) = block_data (block_at k w)"
    using keepsD [OF keeps_data_commit_entry c] blk by (simp add: data_of_def)
  have rest: "ready f st dv asked k (put_rig (pe_engine e) g' w) y" if "y \<in> set xs" for y
  proof -
    obtain e' s' rows' where y: "y = (e', s', rows')" by (cases y) auto
    have "pe_engine e' \<noteq> pe_engine e" using Cons.prems(3) that by (force simp: x y)
    then show ?thesis using ready_put [OF Cons.prems(2) [of y, unfolded y] _ data] that by (simp add: y)
  qed
  have at: "at_rig (pe_engine e) ?c w = (r, put_rig (pe_engine e) g' w)" using g c by (simp add: at_rig_def)
  show ?case
  proof (cases r)
    case (Inl u)
    then show ?thesis using w' at by (simp add: x op_bind_def)
  next
    case (Inr u)
    then have "snd (each (\<lambda>(e, segment, rows). at_rig (pe_engine e)
                     (commit_entry dv forced k e segment rows (ca e))) (x # xs) w)
      = snd (each (\<lambda>(e, segment, rows). at_rig (pe_engine e)
                     (commit_entry dv forced k e segment rows (ca e))) xs (put_rig (pe_engine e) g' w))"
      using at by (simp add: x op_bind_def split: prod.splits sum.splits)
    then show ?thesis using Cons.IH [OF w' rest] Cons.prems(3) by simp
  qed
qed

end
