(* ===== verification/VerifySafety.thy ===== *)
theory VerifySafety
  imports RoundSafety
begin

text \<open>
  What the block's verify answers: every entry's rows and retained states are those of the tokens its
  request consumed, at the segment its engine is bound to.
\<close>

subsection \<open>Segments\<close>

lemma segment_of_Inr:
  assumes "segment_of b engine = Inr segment"
  shows "bl_owner b segment = Some engine" and "segment < bl_users b"
proof -
  have "segment \<in> set (filter (\<lambda>segment. bl_owner b segment = Some engine) [0..<bl_users b])"
    using assms unfolding segment_of_def by (auto split: list.splits simp del: set_filter)
  then show "bl_owner b segment = Some engine" "segment < bl_users b" by simp_all
qed

lemma block_segments_Inr:
  assumes "block_segments b engines = Inr segments"
  shows "length segments = length engines" and "distinct segments" and "distinct engines"
    and "i < length engines \<Longrightarrow> bl_owner b (segments ! i) = Some (engines ! i) \<and> segments ! i < bl_users b"
proof -
  have map: "map (segment_of b) engines = map Inr segments"
    and uniq: "sort segments = [0..<bl_users b] \<or> distinct segments"
    using assms by (auto simp: block_segments_def rbind_Inr_iff those_results_Inr split: if_splits)
  show len: "length segments = length engines" using map by (metis length_map)
  show dist: "distinct segments" using uniq by (metis distinct_sort distinct_upt)
  have at: "bl_owner b (segments ! i) = Some (engines ! i) \<and> segments ! i < bl_users b" if "i < length engines" for i
  proof -
    have "segment_of b (engines ! i) = Inr (segments ! i)" using map that len by (metis nth_map)
    then show ?thesis using segment_of_Inr by metis
  qed
  then show "i < length engines \<Longrightarrow> bl_owner b (segments ! i) = Some (engines ! i) \<and> segments ! i < bl_users b" .
  show "distinct engines"
    unfolding distinct_conv_nth
  proof (intro allI impI)
    fix i j assume "i < length engines" "j < length engines" "i \<noteq> j"
    moreover from this have "segments ! i \<noteq> segments ! j" using dist len by (simp add: distinct_conv_nth)
    moreover have "segment_of b (engines ! i) = Inr (segments ! i)" "segment_of b (engines ! j) = Inr (segments ! j)"
      using map len \<open>i < length engines\<close> \<open>j < length engines\<close> by (metis nth_map)+
    ultimately show "engines ! i \<noteq> engines ! j" by auto
  qed
qed

lemma map_of_zip_nth: "distinct xs \<Longrightarrow> length xs = length ys \<Longrightarrow> i < length xs \<Longrightarrow> map_of (zip xs ys) (xs ! i) = Some (ys ! i)"
  by (rule map_of_zip_nth) auto

lemma segment_users_nth:
  assumes "distinct segments" and "length segments = length entries" and "length pages = length entries"
    and "i < length entries" and "segments ! i < bl_users b"
  shows "segment_users b (zip entries pages) segments ! (segments ! i)
    = Some (t_tokens (pe_ticket (entries ! i)), int (t_position (pe_ticket (entries ! i))), pages ! i)"
  using assms map_of_zip_nth [of segments "map (\<lambda>(e, pages). (t_tokens (pe_ticket e), int (t_position (pe_ticket e)), pages)) (zip entries pages)" i]
  by (simp add: segment_users_def)

lemma length_segment_users [simp]: "length (segment_users b ep segments) = bl_users b"
  by (simp add: segment_users_def)

lemma fill_users_Inr:
  assumes "fill_users b segments users = Inr filled"
  shows "length filled = length users" and "s < length users \<Longrightarrow> users ! s = Some u \<Longrightarrow> filled ! s = Some u"
  using assms by (auto simp: fill_users_def fill_idle_def rbind_Inr_iff split: if_splits)

lemma replay_inputs_mem:
  assumes "s < length users" and "users ! s = Some (tokens, start, table)" and "map_of (zip segments carries) s = Some c"
  shows "(s, c, start, tokens) \<in> set (replay_inputs segments carries users)"
proof -
  have "s \<in> set (live_segments users)" using assms(1,2) by (simp add: live_segments_def)
  moreover have "(s, c, start, tokens) = (case the (users ! s) of (tokens, start, _) \<Rightarrow>
      (s, case map_of (zip segments carries) s of None \<Rightarrow> None | Some c \<Rightarrow> c, start, tokens))"
    by (simp only: assms option.sel prod.case option.case)
  ultimately show ?thesis unfolding replay_inputs_def set_map by blast
qed

lemma map_of_keyed: "map_of (map (\<lambda>k. (k, h k)) ks) k = (if k \<in> set ks then Some (h k) else None)"
  by (induction ks) auto

lemma record_starts_nth:
  assumes "s < length users" and "users ! s = Some (tokens, start, table)"
  shows "map_of (record_starts users) s = Some start"
  using assms by (simp add: record_starts_def map_of_keyed live_segments_def)

lemma rows_complete_nth:
  assumes "rows_complete b outs" and "s < bl_users b"
  obtains rows rec where "map_of outs s = Some (rows, rec)" and "int (length rows) = bl_rows b"
proof (cases "map_of outs s")
  case None
  then show ?thesis using assms unfolding rows_complete_def by (metis option.simps(4))
next
  case (Some p)
  obtain rows rec where p: "p = (rows, rec)" by (cases p)
  have "case map_of outs s of None \<Rightarrow> False | Some (rows, _) \<Rightarrow> int (length rows) = bl_rows b"
    using assms unfolding rows_complete_def by blast
  then show ?thesis using that [of rows rec] Some by (simp add: p)
qed

lemma map_of_records: "map_of (map (\<lambda>(segment, _, rec). (segment, rec)) outs) s = map_option snd (map_of outs s)"
  by (induction outs) auto

subsection \<open>Frames\<close>

lemma release_segment_frame:
  assumes "release_segment dv k segment w = (r, w')"
  shows "wd_rigs w' = wd_rigs w" and "block_data (block_at k w') = block_data (block_at k w)"
proof -
  obtain b where b: "block_release (dv_block_bindings dv) (dv_synchronize dv) segment (nv_blocks (wd_native w) k) = (r, b)"
    and w': "w' = (if returned (block_commit_check segment 0 (nv_blocks (wd_native w) k)) then world_packed_step else id)
                       (on_block k (\<lambda>_. b) w)"
    using assms by (auto simp: release_segment_def split: prod.splits)
  have "block_data b = block_data (nv_blocks (wd_native w) k)"
    using b by (auto simp: block_release_def block_commit_user_def split: sum.splits prod.splits dest: block_settle_data)
  then show "block_data (block_at k w') = block_data (block_at k w)"
    by (simp add: w' block_at_def on_block_def set_block_def world_packed_step_def note_packed_step_def)
  show "wd_rigs w' = wd_rigs w" by (simp add: w' on_block_def world_packed_step_def)
qed

lemma keeps_each [keep]: "(\<And>e. keeps f (m e)) \<Longrightarrow> keeps f (each m es)"
  by (induction es) (auto intro!: keeps_bind keeps_return simp del: op_simps)

lemma releases_frame:
  assumes "each (release_segment dv k) idle w = (r, w')"
  shows "wd_rigs w' = wd_rigs w" and "block_data (block_at k w') = block_data (block_at k w)"
proof -
  have "keeps wd_rigs (release_segment dv k e)" "keeps (\<lambda>w. block_data (block_at k w)) (release_segment dv k e)" for e
    unfolding keeps_def by (metis prod.collapse release_segment_frame)+
  then have "keeps wd_rigs (each (release_segment dv k) idle)"
    "keeps (\<lambda>w. block_data (block_at k w)) (each (release_segment dv k) idle)" by (auto intro: keeps_each)
  then show "wd_rigs w' = wd_rigs w" "block_data (block_at k w') = block_data (block_at k w)"
    using assms by (auto dest: keepsD)
qed

lemma preserves_release: "preserves (world_ok f st asked) (release_segment dv k segment)"
  by (auto simp: preserves_def release_segment_def split: prod.splits
      intro: world_ok_block world_ok_packed_step)

lemma preserves_verify_device:
  fixes dv :: "('s, 'r) device"
  shows "preserves (world_ok f st asked) (verify_device dv k segments idle carries users)"
proof -
  define tail where "tail outs = op_then (op_refuse (\<lambda>w. \<not> rows_complete (nv_blocks (wd_native w) k) outs) AssertionError)
     (op_then (op_update (on_block k (verified_block segments idle outs)))
     (op_then (each (release_segment dv k) idle)
      (op_return (map (\<lambda>segment. fst (the (map_of outs segment))) segments))))" for outs
  have tail: "preserves (world_ok f st asked) (tail outs)" for outs
    unfolding tail_def by (intro keep preserves_release) (rule world_ok_block)
  have "preserves (world_ok f st asked) (op_then (op_update world_packed_step) (op_bind (block_replay_op dv inputs) tail))"
    (is "preserves _ ?m") for inputs
    unfolding preserves_def
  proof (intro allI impI)
    fix w :: "('s, 'r) world" assume w: "world_ok f st asked w"
    obtain r slot where rep: "dv_block_replay dv inputs (nv_slot (wd_native (world_packed_step w))) = (r, slot)" by force
    let ?w = "world_packed_step w\<lparr>wd_native := (wd_native (world_packed_step w))\<lparr>nv_slot := slot\<rparr>\<rparr>"
    have ok: "world_ok f st asked ?w"
      by (rule world_ok_calm [OF world_ok_packed_step [OF w]])
        (simp add: calm_def world_packed_step_def note_packed_step_def)
    have "?m w = (case r of Inl e \<Rightarrow> (Inl e, ?w) | Inr outs \<Rightarrow> tail outs ?w)"
      by (simp add: op_then_def op_bind_def block_replay_op_def rep split: sum.splits)
    then show "world_ok f st asked (snd (?m w))"
      using ok tail by (auto simp: preserves_def split: sum.splits)
  qed
  note step = this
  show ?thesis unfolding verify_device_def tail_def [symmetric]
    by (rule preserves_then [OF preserves_read preserves_bind [OF preserves_read preserves_then [OF preserves_read step]]])
qed

lemma verify_device_Inr:
  assumes "verify_device dv k segments idle carries users w = (Inr preds, w')"
  obtains staged outs slot slot' where "fill_users (block_at k w) segments users = Inr staged"
    and "dv_block_replay dv (replay_inputs segments carries staged) slot = (Inr outs, slot')"
    and "rows_complete (block_at k w) outs" and "preds = map (\<lambda>segment. fst (the (map_of outs segment))) segments"
    and "wd_rigs w' = wd_rigs w"
    and "block_data (block_at k w') = block_data (verified_block segments idle outs (block_at k w))"
proof -
  obtain staged outs w1 w2 us where staged: "fill_users (block_at k w) segments users = Inr staged"
    and rep: "block_replay_op dv (replay_inputs segments carries staged) (world_packed_step w) = (Inr outs, w1)"
    and rows: "rows_complete (nv_blocks (wd_native w1) k) outs"
    and rel: "each (release_segment dv k) idle (on_block k (verified_block segments idle outs) w1) = (Inr us, w')"
    and preds: "preds = map (\<lambda>segment. fst (the (map_of outs segment))) segments"
    using assms by (auto simp: verify_device_def op_returned block_at_def)
  obtain slot' where slot: "dv_block_replay dv (replay_inputs segments carries staged) (nv_slot (wd_native (world_packed_step w)))
      = (Inr outs, slot')"
    and w1: "w1 = world_packed_step w\<lparr>wd_native := (wd_native (world_packed_step w))\<lparr>nv_slot := slot'\<rparr>\<rparr>"
    using rep by (auto simp: block_replay_op_def split: prod.splits)
  have b1: "nv_blocks (wd_native w1) k = block_at k w"
    by (simp add: w1 world_packed_step_def note_packed_step_def block_at_def)
  note fr = releases_frame [OF rel]
  have "block_data (block_at k w') = block_data (verified_block segments idle outs (block_at k w))"
    using fr(2) b1 by (simp add: block_at_def on_block_def set_block_def)
  moreover have "wd_rigs w' = wd_rigs w" using fr(1) by (simp add: on_block_def w1 world_packed_step_def)
  ultimately show thesis using that [OF staged slot _ preds] rows b1 by simp
qed

lemma starting_block:
  "bl_users (b\<lparr>bl_starts := x, bl_phase := p\<rparr>) = bl_users b" "bl_rows (b\<lparr>bl_starts := x, bl_phase := p\<rparr>) = bl_rows b"
  "rows_complete (b\<lparr>bl_starts := x, bl_phase := p\<rparr>) = rows_complete b"
  "fill_users (b\<lparr>bl_starts := x, bl_phase := p\<rparr>) = fill_users b"
proof -
  show u: "bl_users (b\<lparr>bl_starts := x, bl_phase := p\<rparr>) = bl_users b"
    and r: "bl_rows (b\<lparr>bl_starts := x, bl_phase := p\<rparr>) = bl_rows b"
    by (simp_all add: bl_users_def bl_rows_def)
  show "rows_complete (b\<lparr>bl_starts := x, bl_phase := p\<rparr>) = rows_complete b"
    by (rule ext) (simp only: rows_complete_def u r)
  show "fill_users (b\<lparr>bl_starts := x, bl_phase := p\<rparr>) = fill_users b"
    by (intro ext) (simp add: fill_users_def idle_inputs_def u r cong del: if_weak_cong)
qed

lemma check_rig_Inr: "check_rig me h w = Inr x \<longleftrightarrow> (\<exists>g. rig_at w me = Some g \<and> h g = Inr x)"
  by (auto simp: check_rig_def split: option.splits)

lemma read_rig_Inr: "read_rig me h w = Inr x \<longleftrightarrow> (\<exists>g. rig_at w me = Some g \<and> h g = x)"
  by (auto simp: read_rig_def check_rig_Inr)

lemma map_Inr_nth: "map g xs = map Inr ys \<Longrightarrow> i < length xs \<Longrightarrow> length ys = length xs \<and> g (xs ! i) = Inr (ys ! i)"
  by (metis length_map nth_map)

lemma rig_at_same: "wd_rigs w' = wd_rigs w \<Longrightarrow> rig_at w me = Some g \<Longrightarrow>
    rig_at w' me = Some (g\<lparr>rg_native := wd_native w'\<rparr>)"
  by (auto simp: rig_at_def)

text \<open>Everything a returning verify went through.\<close>

lemma block_verify_Inr:
  assumes "block_verify dv k entries w = (Inr (preds, segments), w')"
  defines "b \<equiv> block_at k w"
  obtains pages carries known staged outs slot slot' where
    "block_segments b (map pe_engine entries) = Inr segments"
    and "\<And>e. e \<in> set entries \<Longrightarrow> \<exists>g. rig_at w (pe_engine e) = Some g \<and> verify_entry_check b e g = Inr ()"
    and "length pages = length entries"
    and "map (\<lambda>e. entry_carry e w) entries = map Inr carries"
    and "(if bl_extent b then fill_users b segments (segment_users b (zip entries pages) segments)
          else Inr (segment_users b (zip entries pages) segments)) = Inr known"
    and "fill_users b segments (segment_users b (zip entries pages) segments) = Inr staged"
    and "dv_block_replay dv (replay_inputs segments carries staged) slot = (Inr outs, slot')"
    and "rows_complete b outs" and "preds = map (\<lambda>segment. fst (the (map_of outs segment))) segments"
    and "wd_rigs w' = wd_rigs w"
    and "block_data (block_at k w') = block_data (verified_block segments
          (filter (\<lambda>segment. segment \<notin> set segments) [0..<bl_users b]) outs
          (b\<lparr>bl_starts := (if bl_extent b then record_starts known else bl_starts b)\<rparr>))"
proof -
  let ?idle = "filter (\<lambda>segment. segment \<notin> set segments) [0..<bl_users b]"
  let ?start = "\<lambda>known. on_block k (\<lambda>c. c\<lparr>bl_starts := (if bl_extent c then record_starts known else bl_starts c),
                       bl_phase := B_Verifying\<rparr>)"
  from assms obtain us pages carries known where
    seg: "block_segments b (map pe_engine entries) = Inr segments"
    and chk: "those_results (map (\<lambda>e. check_rig (pe_engine e) (verify_entry_check b e) w) entries) = Inr us"
    and pages: "those_results (map (\<lambda>e. entry_pages e w) entries) = Inr pages"
    and carries: "those_results (map (\<lambda>e. entry_carry e w) entries) = Inr carries"
    and known: "(if bl_extent b then fill_users b segments (segment_users b (zip entries pages) segments)
          else Inr (segment_users b (zip entries pages) segments)) = Inr known"
    and vd: "verify_device dv k segments ?idle carries (segment_users b (zip entries pages) segments) (?start known w)
          = (Inr preds, w')"
    by (auto simp: block_verify_def Let_def op_returned block_at_def [symmetric])
  have ex: "\<exists>g. rig_at w (pe_engine e) = Some g \<and> verify_entry_check b e g = Inr ()" if mem: "e \<in> set entries" for e
  proof -
    obtain i where i: "i < length entries" "entries ! i = e" using mem unfolding in_set_conv_nth by blast
    have "map (\<lambda>e. check_rig (pe_engine e) (verify_entry_check b e) w) entries = map Inr us"
      using chk by (simp add: those_results_Inr)
    from map_Inr_nth [OF this i(1)] have "check_rig (pe_engine e) (verify_entry_check b e) w = Inr (us ! i)"
      by (simp add: i(2))
    then show ?thesis by (auto simp: check_rig_Inr)
  qed
  have lp: "length pages = length entries" using pages by (metis those_results_Inr length_map)
  have b1: "block_at k (?start known w) = b\<lparr>bl_starts := (if bl_extent b then record_starts known else bl_starts b),
      bl_phase := B_Verifying\<rparr>" by (simp add: b_def block_at_def on_block_def set_block_def)
  note bu = starting_block [where b = b and x = "if bl_extent b then record_starts known else bl_starts b"
      and p = B_Verifying, folded b1]
  obtain staged outs slot slot' where
    "fill_users b segments (segment_users b (zip entries pages) segments) = Inr staged"
    "dv_block_replay dv (replay_inputs segments carries staged) slot = (Inr outs, slot')"
    "rows_complete b outs" "preds = map (\<lambda>segment. fst (the (map_of outs segment))) segments"
    "wd_rigs w' = wd_rigs (?start known w)"
    "block_data (block_at k w') = block_data (verified_block segments ?idle outs (block_at k (?start known w)))"
    by (rule verify_device_Inr [OF vd, unfolded bu])
  moreover have "block_data (verified_block segments ?idle outs (block_at k (?start known w)))
      = block_data (verified_block segments ?idle outs
          (b\<lparr>bl_starts := (if bl_extent b then record_starts known else bl_starts b)\<rparr>))"
    by (simp add: b1 verified_block_def block_data_def)
  moreover have "wd_rigs (?start known w) = wd_rigs w" by (simp add: on_block_def)
  ultimately show thesis using that [OF seg ex lp _ known] carries by (simp add: those_results_Inr)
qed

text \<open>The block's trust in its rows depends on its shape and its path only.\<close>

lemma trusted_in_verified [simp]:
  "trusted_in_block (verified_block segments idle outs c) = trusted_in_block c"
  "trusted_in_block (c\<lparr>bl_starts := x\<rparr>) = trusted_in_block c"
  by (auto simp: fun_eq_iff trusted_in_block_def block_accept_limit_def verified_block_def bl_rows_def
      cong del: if_weak_cong)

lemma block_verify_ready:
  assumes w: "world_ok f st asked w" and dev: "packed_ok f st dv (block_at k w)"
    and run: "block_verify dv k entries w = (Inr (preds, segments), w')"
    and x: "x \<in> set (zip entries (zip segments preds))"
  shows "ready f st dv asked k w' x"
proof -
  let ?b = "block_at k w"
  obtain pages carries known staged outs slot slot' where
    seg: "block_segments ?b (map pe_engine entries) = Inr segments"
    and chk: "\<And>e. e \<in> set entries \<Longrightarrow> \<exists>g. rig_at w (pe_engine e) = Some g \<and> verify_entry_check ?b e g = Inr ()"
    and pages: "length pages = length entries"
    and carries: "map (\<lambda>e. entry_carry e w) entries = map Inr carries"
    and known: "(if bl_extent ?b then fill_users ?b segments (segment_users ?b (zip entries pages) segments)
          else Inr (segment_users ?b (zip entries pages) segments)) = Inr known"
    and staged: "fill_users ?b segments (segment_users ?b (zip entries pages) segments) = Inr staged"
    and rep: "dv_block_replay dv (replay_inputs segments carries staged) slot = (Inr outs, slot')"
    and rows: "rows_complete ?b outs" and preds: "preds = map (\<lambda>segment. fst (the (map_of outs segment))) segments"
    and rigs: "wd_rigs w' = wd_rigs w"
    and data: "block_data (block_at k w') = block_data (verified_block segments
          (filter (\<lambda>segment. segment \<notin> set segments) [0..<bl_users ?b]) outs
          (?b\<lparr>bl_starts := (if bl_extent ?b then record_starts known else bl_starts ?b)\<rparr>))" (is "_ = block_data ?v")
    by (rule block_verify_Inr [OF run]) (rule that; assumption)
  have len: "length segments = length entries" "distinct segments"
    using block_segments_Inr(1,2) [OF seg] by simp_all
  obtain i where i: "i < length entries" "x = (entries ! i, segments ! i, preds ! i)"
    using x len preds by (auto simp: in_set_zip)
  let ?e = "entries ! i" and ?s = "segments ! i"
  let ?t = "pe_ticket ?e" and ?me = "pe_engine ?e"
  have s: "?s < bl_users ?b" using block_segments_Inr(4) [OF seg, of i] i(1) by simp
  obtain g where g: "rig_at w ?me = Some g" and vc: "verify_entry_check ?b ?e g = Inr ()"
    using chk [of ?e] i(1) by auto
  have live: "ticket_live (rg_session g) (s_request_id (rg_session g)) ?t" and idle: "en_phase (rg_engine g) = E_Idle"
    and rowlen: "int (length (t_tokens ?t)) = bl_rows ?b"
    using vc by (auto simp: verify_entry_check_def Let_def split: if_splits)
  let ?xs = "consumed (fst (asked ?me)) (rg_session g)"
  have "live_at st ?me ?xs g"
    using rig_okD(3) [OF world_okD(2) [OF w g] idle] live by (auto simp: ticket_live_def)
  then have carry: "en_carry (rg_engine g) = Some (st ?xs)" by (simp add: live_at_def)
  have "entry_carry ?e w = Inr (carries ! i)" "length carries = length entries"
    using map_Inr_nth [OF carries i(1)] by simp_all
  then have ci: "carries ! i = Some (st ?xs)" using g carry by (auto simp: entry_carry_def read_rig_Inr)
  let ?pos = "int (t_position ?t)"
  have user: "segment_users ?b (zip entries pages) segments ! ?s = Some (t_tokens ?t, ?pos, pages ! i)"
    by (rule segment_users_nth [OF len(2,1) pages i(1) s])
  have st_user: "staged ! ?s = Some (t_tokens ?t, ?pos, pages ! i)" "length staged = bl_users ?b"
    using fill_users_Inr(1) [OF staged] fill_users_Inr(2) [OF staged _ user] s by simp_all
  have zc: "map_of (zip segments carries) ?s = Some (Some (st ?xs))"
    using map_of_zip_nth [OF len(2), of carries i] \<open>length carries = length entries\<close> len(1) i(1) ci by simp
  have mem: "(?s, Some (st ?xs), ?pos, t_tokens ?t) \<in> set (replay_inputs segments carries staged)"
    by (rule replay_inputs_mem) (use st_user s zc in auto)
  obtain rw rec where out: "map_of outs ?s = Some (rw, rec)" "int (length rw) = bl_rows ?b"
    using rows_complete_nth [OF rows s] .
  then have lr: "length rw = length (t_tokens ?t)" using rowlen by simp
  have pi: "preds ! i = rw" using preds out(1) i(1) len(1) by simp
  note d = dev [unfolded packed_ok_def, rule_format, OF rep mem out(1) lr]
  have rec: "map_of (bl_records ?v) ?s = Some rec"
    by (simp add: verified_block_def map_of_records out(1))
  have starts: "map_of (bl_starts ?v) ?s = Some ?pos" if "bl_extent ?v"
  proof -
    have ext: "bl_extent ?b" using that by (simp add: verified_block_def)
    then have "known = staged" using known staged by simp
    then have "map_of (record_starts known) ?s = Some ?pos"
      using record_starts_nth [of ?s staged "t_tokens ?t" ?pos "pages ! i"] st_user s by simp
    then show ?thesis using ext by (simp add: verified_block_def)
  qed
  have "verified_in f st dv (fst (asked ?me)) ?v ?s ?t rw g"
    unfolding verified_in_def Let_def
    using live idle starts lr d rec by simp
  then have "verified_in f st dv (fst (asked ?me)) (block_at k w') ?s ?t rw (g\<lparr>rg_native := wd_native w'\<rparr>)"
    using data by (simp add: verified_in_data [OF data])
  then show ?thesis
    using rig_at_same [OF rigs g] by (simp add: ready_def i(2) pi)
qed

end
