(* ===== verification/RoundSteps.thy ===== *)
theory RoundSteps
  imports VerifySafety
begin

text \<open>
  Every round of \<open>serving_packed_step.py\<close> keeps the invariant of the world and the geometry of its blocks.
\<close>

subsection \<open>Failing requests\<close>

lemma fail_ticket_ok: "op_ok f st me asked (op_update (fail_ticket e))"
proof (rule op_okI)
  fix g r g' assume ok: "rig_ok f st me asked g" and run: "op_update (fail_ticket e) g = (r, g')"
  have g': "g' = fail_ticket e g" using run by simp
  show "rig_ok f st me asked g' \<and> claims me (rg_native g) (rg_native g')"
  proof (cases "s_phase (rg_session g) = Pending \<and> s_pending (rg_session g) = Some (pe_ticket e)")
    case True
    have "rig_ok f st me asked (fail_ticket e g)"
      by (rule rig_ok_quiet [OF ok session_run_fail [OF rig_okD(1) [OF ok], of "s_request_id (rg_session g)" "pe_ticket e"]])
        (use True fail_verification_cases [of "rg_session g" "s_request_id (rg_session g)" "pe_ticket e"]
          in \<open>auto simp: fail_ticket_def\<close>)
    moreover have "rg_native (fail_ticket e g) = rg_native g" by (simp add: fail_ticket_def)
    ultimately show ?thesis by (simp add: g')
  next
    case False
    then have "fail_ticket e g = g" unfolding fail_ticket_def by (rule if_not_P)
    then show ?thesis using ok by (simp add: g')
  qed
qed

lemma rig_step_failed_ok:
  assumes "rig_ok f st me asked g"
  shows "rig_ok f st me asked (step_failed dv me r t g)"
    and "claims me (rg_native g) (rg_native (step_failed dv me r t g))"
proof -
  have "slot_safe me g" if "s_phase (rg_session g) = Pending" "en_phase (rg_engine g) = E_Verified"
    using rig_okD(4) [OF assms that(2,1)] by (auto simp: slot_safe_def)
  from step_failed_ok [OF rig_okD(1,2) [OF assms] this] assms
  show "rig_ok f st me asked (step_failed dv me r t g)"
    and "claims me (rg_native g) (rg_native (step_failed dv me r t g))" by blast+
qed

lemma fail_entry_ok: "op_ok f st (pe_engine e) asked (op_update (fail_entry dv e))"
  by (rule op_okI) (auto simp: fail_entry_def rig_step_failed_ok)

lemma set_busy_op_ok: "op_ok f st me asked (op_update (set_busy b))"
  by (rule op_okI) auto

lemma narrow_ok: "op_ok f st me asked (on_session (\<lambda>s. session_narrow s r t rows))"
proof (rule op_okI)
  fix g res g' assume ok: "rig_ok f st me asked g"
    and run: "on_session (\<lambda>s. session_narrow s r t rows) g = (res, g')"
  obtain s' where s: "session_narrow (rg_session g) r t rows = (res, s')" and g': "g' = g\<lparr>rg_session := s'\<rparr>"
    using run by (auto simp: on_session_def split: prod.splits)
  have run': "session_run (target_verified f (fst asked)) (snd asked) s'"
    using session_run.quiet [OF rig_okD(1) [OF ok] quiet_step.narrow [of _ r t rows]] s by simp
  have "s_emitted s' = s_emitted (rg_session g) \<and> s_phase s' = s_phase (rg_session g)"
    using s by (auto simp: session_narrow_def ticket_live_def Let_def split: if_splits)
  then have "rig_ok f st me asked g'"
    using rig_ok_quiet [OF ok run', of g'] g' by auto
  then show "rig_ok f st me asked g' \<and> claims me (rg_native g) (rg_native g')" by (simp add: g')
qed

subsection \<open>The geometry of the blocks\<close>

definition world_data :: "nat \<Rightarrow> ('s, 'r) world \<Rightarrow> packed_shape \<times> bool" where
  "world_data k w = (bl_shape (block_at k w), bl_extent (block_at k w))"

lemma trusted_world_data: "world_data k w = world_data k w' \<Longrightarrow> trusted_in_block (block_at k w) = trusted_in_block (block_at k w')"
  by (auto simp: fun_eq_iff world_data_def trusted_in_block_def block_accept_limit_def bl_rows_def)

lemma data_world_data: "block_data (block_at k w') = block_data (block_at k w) \<Longrightarrow> world_data k w' = world_data k w"
  using block_data_fields(1,2) by (auto simp: world_data_def)

lemma rig_at_data: "rig_at w me = Some g \<Longrightarrow> data_of k g = block_data (block_at k w)"
  by (simp add: data_of_def block_at_def rig_at_native)

lemma keeps_at_rig [keep]: "keeps (data_of k) m \<Longrightarrow> keeps (world_data k) (at_rig me m)"
  unfolding keeps_def
proof
  fix w :: "('a, 'b) world" assume m: "\<forall>s. data_of k (snd (m s)) = data_of k s"
  show "world_data k (snd (at_rig me m w)) = world_data k w"
  proof (cases "rig_at w me")
    case None
    then show ?thesis by (simp add: at_rig_def)
  next
    case (Some g)
    obtain r g' where "m g = (r, g')" by force
    then have "data_of k g' = block_data (block_at k w)" using m rig_at_data [OF Some, of k] by (metis snd_conv)
    then show ?thesis using Some \<open>m g = (r, g')\<close>
      by (intro data_world_data) (simp add: at_rig_def put_rig_def block_at_def data_of_def)
  qed
qed

lemma keeps_data_quiet [keep]:
  "keeps (data_of k) (on_session m)" "keeps (data_of k) (op_update (set_busy b))"
  "keeps (data_of k) (op_update set_cancelled)" "keeps (data_of k) (cancel_pending r)"
  by (auto simp: keeps_def on_session_def data_of_def set_busy_def set_cancelled_def cancel_pending_def
      split: prod.splits option.splits)

lemma keeps_data_step_failed: "data_of k (step_failed dv me r t g) = data_of k g"
  by (simp add: step_failed_def keeps_data_tickets)

lemma keeps_data_prepare: "keeps (data_of k) (request_prepare dv r packed)"
proof -
  have "keeps (data_of k) (propose_ticket dv r rows)" for rows
    unfolding keeps_def data_of_def by (metis prod.collapse propose_ticket_frame(2))
  then show ?thesis unfolding request_prepare_def by (intro keep) (simp_all add: data_of_def set_busy_def)
qed

lemma keeps_data_verify: "keeps (data_of k) (engine_verify dv me t)"
proof -
  have "keeps (data_of k) (verify_body dv me key t)" for key
    unfolding verify_body_def
    by (intro keep) (auto simp: keeps_def engine_ops op_then_def op_bind_def op_refuse_def Let_def data_of_def
        split: prod.splits sum.splits option.splits)
  then show ?thesis unfolding engine_verify_def check_ticket_def
    by (intro keep) (simp_all add: engine_fail_def data_of_def)
qed

lemma keeps_data_step_block: "keeps (data_of k) (step_block dv me r c t)"
proof -
  have "keeps (data_of k) (commit_ticket dv me r t preds mr)" "keeps (data_of k) (abort_ticket dv me r t)"
    for preds mr by (simp_all add: keeps_def keeps_data_tickets)
  then show ?thesis unfolding step_block_def
    by (intro keep keeps_ite keeps_data_verify) (simp_all add: keeps_def)
qed

lemma keeps_data_step: "keeps (data_of k) (request_step dv me r first second)"
  unfolding request_step_def
  by (intro keep keeps_ite keeps_data_step_block keeps_data_prepare)
    (simp_all add: keeps_data_step_failed, simp_all add: keeps_def data_of_def set_busy_def)

subsection \<open>The world's invariant\<close>

definition packed_all :: "(int list \<Rightarrow> int) \<Rightarrow> (int list \<Rightarrow> 's) \<Rightarrow> ('s, 'r) device \<Rightarrow> ('s, 'r) world \<Rightarrow> bool" where
  "packed_all f st dv w \<longleftrightarrow> (\<forall>k. packed_ok f st dv (block_at k w))"

definition world_inv :: "(int list \<Rightarrow> int) \<Rightarrow> (int list \<Rightarrow> 's) \<Rightarrow> ('s, 'r) device \<Rightarrow> (nat \<Rightarrow> int list \<times> session)
    \<Rightarrow> ('s, 'r) world \<Rightarrow> bool" where
  "world_inv f st dv asked w \<longleftrightarrow> world_ok f st asked w \<and> packed_all f st dv w"

lemma packed_all_data:
  assumes "\<And>k. world_data k w' = world_data k w" and "packed_all f st dv w"
  shows "packed_all f st dv w'"
  using assms(2) trusted_world_data [OF assms(1)] by (simp add: packed_all_def packed_ok_def)

lemma preserves_world_inv:
  assumes "preserves (world_ok f st asked) m" and "\<And>k. keeps (world_data k) m"
  shows "preserves (world_inv f st dv asked) m"
  using assms packed_all_data unfolding preserves_def keeps_def world_inv_def by blast

lemma preserves_at_rig_inv:
  "(asked_ok (asked me) \<Longrightarrow> op_ok f st me (asked me) m) \<Longrightarrow> (\<And>k. keeps (data_of k) m) \<Longrightarrow>
     preserves (world_inv f st dv asked) (at_rig me m)"
  by (intro preserves_world_inv preserves_at_rig keeps_at_rig)

lemma world_inv_update:
  assumes "world_inv f st dv asked w" and "asked_ok (asked me) \<Longrightarrow> op_ok f st me (asked me) (op_update h)"
    and "\<And>k g. data_of k (h g) = data_of k g"
  shows "world_inv f st dv asked (update_rig me h w)"
proof -
  have "preserves (world_inv f st dv asked) (at_rig me (op_update h))"
    by (rule preserves_at_rig_inv) (use assms(2,3) in \<open>auto simp: keeps_def\<close>)
  then show ?thesis using assms(1) unfolding preserves_def update_rig_def by blast
qed

lemma world_inv_fold:
  assumes "world_inv f st dv asked w"
    and "\<And>e. e \<in> set es \<Longrightarrow> asked_ok (asked (who e)) \<Longrightarrow> op_ok f st (who e) (asked (who e)) (op_update (h e))"
    and "\<And>e k g. data_of k (h e g) = data_of k g"
  shows "world_inv f st dv asked (fold (\<lambda>e. update_rig (who e) (h e)) es w)"
  using assms by (induction es arbitrary: w) (simp_all add: world_inv_update)

lemma world_inv_block:
  assumes "world_inv f st dv asked w" and "\<And>b. bl_shape (h b) = bl_shape b \<and> bl_extent (h b) = bl_extent b"
  shows "world_inv f st dv asked (on_block k h w)"
proof -
  have "world_data j (on_block k h w) = world_data j w" for j
    using assms(2) by (simp add: world_data_def block_at_def on_block_def set_block_def)
  then show ?thesis using assms(1) world_ok_block packed_all_data unfolding world_inv_def by blast
qed

lemma world_inv_packed_step: "world_inv f st dv asked w \<Longrightarrow> world_inv f st dv asked (world_packed_step w)"
proof -
  have "world_data k (world_packed_step w) = world_data k w" for k
    by (simp add: world_data_def block_at_def world_packed_step_def note_packed_step_def)
  then show "world_inv f st dv asked w \<Longrightarrow> world_inv f st dv asked (world_packed_step w)"
    using world_ok_packed_step packed_all_data unfolding world_inv_def by blast
qed

lemma keeps_data_world: "keeps (\<lambda>w. block_data (block_at k w)) m \<Longrightarrow> keeps (world_data k) m"
  unfolding keeps_def using data_world_data by blast

lemma preserves_release_inv: "preserves (world_inv f st dv asked) (release_segment dv' k segment)"
proof (rule preserves_world_inv [OF preserves_release])
  fix j
  have "block_data (block_at j w') = block_data (block_at j w)" if "release_segment dv' k segment w = (r, w')" for r w w'
  proof (cases "j = k")
    case True
    then show ?thesis using release_segment_frame(2) [OF that] by simp
  next
    case False
    then show ?thesis using that
      by (auto simp: release_segment_def block_at_def on_block_def set_block_def world_packed_step_def
          note_packed_step_def split: prod.splits)
  qed
  then have "keeps (\<lambda>w. block_data (block_at j w)) (release_segment dv' k segment)"
    unfolding keeps_def by (metis prod.collapse)
  then show "keeps (world_data j) (release_segment dv' k segment)" by (rule keeps_data_world)
qed

lemma verify_failed_inv: "world_inv f st dv asked w \<Longrightarrow> world_inv f st dv asked (verify_failed k entries w)"
  unfolding verify_failed_def
  by (intro world_inv_fold world_inv_block fail_ticket_ok) (simp_all add: fail_ticket_def)

lemma fail_round_inv: "world_inv f st dv asked w \<Longrightarrow> world_inv f st dv asked (fail_round dv' k entries w)"
proof -
  assume w: "world_inv f st dv asked w"
  have "world_inv f st dv asked (fold (\<lambda>segment w. snd (release_segment dv' k segment w)) ss v)"
    if "world_inv f st dv asked v" for ss v
    using that
  proof (induction ss arbitrary: v)
    case (Cons s ss)
    have "world_inv f st dv asked (snd (release_segment dv' k s v))"
      by (rule preserves_release_inv [unfolded preserves_def, rule_format, OF Cons.prems])
    from Cons.IH [OF this] show ?case by simp
  qed simp
  moreover have "world_inv f st dv asked (fold (\<lambda>e. update_rig (pe_engine e) (fail_entry dv' e)) entries w)"
    by (intro world_inv_fold w fail_entry_ok) (simp add: fail_entry_def keeps_data_step_failed)
  ultimately show ?thesis by (simp add: fail_round_def Let_def)
qed

lemma set_round_busy_inv: "world_inv f st dv asked w \<Longrightarrow> world_inv f st dv asked (set_round_busy b entries w)"
  unfolding set_round_busy_def by (intro world_inv_fold set_busy_op_ok) (simp_all add: data_of_def set_busy_def)

subsection \<open>The rounds\<close>

lemma keeps_world_block [keep]:
  assumes "\<And>b. bl_shape (h b) = bl_shape b \<and> bl_extent (h b) = bl_extent b"
  shows "keeps (world_data j) (op_update (on_block k h))"
  using assms by (simp add: keeps_def world_data_def block_at_def on_block_def set_block_def)

lemma keeps_world_release [keep]: "keeps (world_data j) (release_segment dv k segment)"
proof -
  have "world_data j (snd (release_segment dv k segment w)) = world_data j w" for w
  proof (cases "j = k")
    case True
    then show ?thesis using release_segment_frame(2) [of dv k segment w] data_world_data by (metis prod.collapse)
  next
    case False
    then show ?thesis
      by (auto simp: release_segment_def world_data_def block_at_def on_block_def set_block_def world_packed_step_def
          note_packed_step_def split: prod.splits)
  qed
  then show ?thesis by (simp add: keeps_def)
qed

lemma preserves_verify_device_inv:
  "preserves (world_inv f st dv asked) (verify_device dv' k segments idle carries users)"
proof (rule preserves_world_inv [OF preserves_verify_device])
  fix j
  have "keeps (world_data j) (op_update world_packed_step)" "\<And>inputs. keeps (world_data j) (block_replay_op dv' inputs)"
    by (auto simp: keeps_def world_data_def block_at_def world_packed_step_def note_packed_step_def block_replay_op_def
        split: prod.splits)
  then show "keeps (world_data j) (verify_device dv' k segments idle carries users)"
    unfolding verify_device_def
    by (intro keeps_then keeps_bind keeps_read keeps_refuse keeps_each keeps_return keeps_world_release keeps_world_block)
      (simp_all add: verified_block_def)
qed

lemma block_verify_inv: "preserves (world_inv f st dv asked) (block_verify dv' k entries)"
proof -
  have "preserves (world_inv f st dv asked)
     (op_then (op_refuse (\<lambda>_. bl_phase b \<noteq> B_Idle) ValueError)
        (op_bind (op_read (\<lambda>_. block_segments b (map pe_engine entries))) (\<lambda>segments.
         op_then (op_read (\<lambda>w. those_results (map (\<lambda>e. check_rig (pe_engine e) (verify_entry_check b e) w) entries)))
        (op_bind (op_read (\<lambda>w. those_results (map (\<lambda>e. entry_pages e w) entries))) (\<lambda>pages.
         op_bind (op_read (\<lambda>w. those_results (map (\<lambda>e. entry_carry e w) entries))) (\<lambda>carries.
         let users = segment_users b (zip entries pages) segments;
             idle = filter (\<lambda>segment. segment \<notin> set segments) [0..<bl_users b]
         in op_then (op_refuse (\<lambda>_. idle \<noteq> [] \<and> padded_refusal b users \<noteq> None) ValueError)
           (op_bind (op_read (\<lambda>_. if bl_extent b then fill_users b segments users else Inr users)) (\<lambda>known.
            op_then (op_update (on_block k (\<lambda>b. b\<lparr>bl_starts := (if bl_extent b then record_starts known else bl_starts b),
                       bl_phase := B_Verifying\<rparr>)))
           (op_bind (op_except (verify_device dv' k segments idle carries users) (verify_failed k entries))
             (\<lambda>predictions. op_return (predictions, segments)))))))))))" for b
    unfolding Let_def
    by (intro keep preserves_verify_device_inv) (auto intro!: world_inv_block verify_failed_inv)
  then show ?thesis unfolding preserves_def block_verify_def Let_def by blast
qed

lemma commits_inv:
  assumes dev: "device_ok f st dv" and w: "world_inv f st dv asked w"
    and "\<And>x. x \<in> set xs \<Longrightarrow> ready f st dv asked k w x" and "distinct (map (pe_engine \<circ> fst) xs)"
  shows "world_inv f st dv asked (snd (each (\<lambda>(e, segment, rows). at_rig (pe_engine e)
                     (commit_entry dv forced k e segment rows (ca e))) xs w))" (is "world_inv f st dv asked (snd (?m w))")
proof -
  have "keeps (world_data j) ?m" for j
    by (intro keeps_each) (auto intro!: keeps_at_rig keeps_data_commit_entry split: prod.splits)
  then have "world_data j (snd (?m w)) = world_data j w" for j by (simp add: keeps_def)
  moreover have "world_ok f st asked (snd (?m w))"
    using commits_ok [OF dev _ assms(3,4)] w by (simp add: world_inv_def)
  ultimately show ?thesis using w packed_all_data unfolding world_inv_def by blast
qed

lemma block_verify_engines:
  assumes "block_verify dv k entries w = (Inr (preds, segments), w')"
  shows "distinct (map pe_engine entries)" and "length segments = length entries"
proof -
  have "block_segments (block_at k w) (map pe_engine entries) = Inr segments"
    by (rule block_verify_Inr [OF assms]) assumption
  from block_segments_Inr(1,3) [OF this] show "distinct (map pe_engine entries)" "length segments = length entries"
    by simp_all
qed

lemma map_fst_zip_distinct:
  "length xs = length ys \<Longrightarrow> map (pe_engine \<circ> fst) (zip xs ys) = map pe_engine xs"
  by (simp flip: map_map)

lemma run_verified_block_inv:
  assumes dev: "device_ok f st dv"
  shows "preserves (world_inv f st dv asked) (run_verified_block dv forced ca k entries)"
proof -
  have "preserves (world_inv f st dv asked) (op_bind (block_verify dv k entries) (\<lambda>(predictions, segments).
           op_then (op_refuse (\<lambda>_. length predictions \<noteq> length entries \<or> length segments \<noteq> length entries) ValueError)
            (each (\<lambda>(e, segment, rows). at_rig (pe_engine e)
                     (commit_entry dv forced k e segment rows (ca_commit ca (pe_request_id e))))
              (zip entries (zip segments predictions)))))" (is "preserves _ ?m")
    unfolding preserves_def
  proof (intro allI impI)
    fix w assume w: "world_inv f st dv asked w"
    obtain r w' where v: "block_verify dv k entries w = (r, w')" by force
    have w': "world_inv f st dv asked w'" by (rule preservesD [OF block_verify_inv w v])
    show "world_inv f st dv asked (snd (?m w))"
    proof (cases r)
      case (Inl e)
      then show ?thesis using w' v by (simp add: op_bind_def)
    next
      case (Inr p)
      obtain preds segments where p: "p = (preds, segments)" by (cases p)
      have v: "block_verify dv k entries w = (Inr (preds, segments), w')" using v Inr p by simp
      note b = block_verify_engines [OF v]
      have m: "?m w = op_then (op_refuse (\<lambda>_. length preds \<noteq> length entries \<or> length segments \<noteq> length entries) ValueError)
            (each (\<lambda>(e, segment, rows). at_rig (pe_engine e)
                     (commit_entry dv forced k e segment rows (ca_commit ca (pe_request_id e))))
              (zip entries (zip segments preds))) w'" by (simp add: v op_bind_def)
      show ?thesis
      proof (cases "length preds = length entries")
        case False
        then show ?thesis using w' unfolding m by (simp add: op_then_def op_bind_def op_refuse_def)
      next
        case True
        have "ready f st dv asked k w' x" if "x \<in> set (zip entries (zip segments preds))" for x
          by (rule block_verify_ready [OF _ _ v that]) (use w in \<open>simp_all add: world_inv_def packed_all_def\<close>)
        from commits_inv [OF dev w' this, where forced = forced and ca = "\<lambda>e. ca_commit ca (pe_request_id e)"] b True
        show ?thesis unfolding m by (simp add: op_then_def op_bind_def op_refuse_def map_fst_zip_distinct)
      qed
    qed
  qed
  then show ?thesis unfolding run_verified_block_def
    by (intro preserves_then preserves_update preserves_finally preserves_except)
      (auto intro: set_round_busy_inv world_inv_packed_step fail_round_inv)
qed

lemma sequential_inv:
  assumes "device_ok f st dv"
  shows "preserves (world_inv f st dv' asked) (sequential_packed_step dv ca entries)"
proof (rule preserves_world_inv [OF sequential_packed_step_ok [OF assms]])
  fix k show "keeps (world_data k) (sequential_packed_step dv ca entries)"
    unfolding sequential_packed_step_def by (intro keep keeps_data_step)
qed

lemma preserves_narrow_inv:
  "preserves (world_inv f st dv asked) (at_rig me (on_session (\<lambda>s. session_narrow s r t rows)))"
  by (rule preserves_at_rig_inv [OF narrow_ok]) (rule keep)

lemma cut_entries_inv: "world_inv f st dv asked w \<Longrightarrow> world_inv f st dv asked (snd (cut_entries es w))"
proof (induction es w rule: cut_entries.induct)
  case (3 e rows es w)
  obtain r w' where r: "at_rig (pe_engine e) (on_session (\<lambda>s. session_narrow s (pe_request_id e) (pe_ticket e) (int rows))) w = (r, w')"
    by force
  have w': "world_inv f st dv asked w'" by (rule preservesD [OF preserves_narrow_inv "3.prems" r])
  then show ?case using "3.IH" r by (cases r) (auto split: prod.splits)
qed (auto split: prod.splits)

lemma narrow_round_inv: "preserves (world_inv f st dv asked) (narrow_round entries)"
  unfolding preserves_def narrow_round_def
proof (intro allI impI)
  fix w assume w: "world_inv f st dv asked w"
  show "world_inv f st dv asked (snd (case those_results (map (\<lambda>e. check_rig (pe_engine e) (planned_width e) w) entries) of
        Inl _ \<Rightarrow> (Inr (entries, False), w)
      | Inr widths \<Rightarrow> (case cut_entries (zip entries widths) w of (done, w') \<Rightarrow> (Inr done, w'))))"
  proof (cases "those_results (map (\<lambda>e. check_rig (pe_engine e) (planned_width e) w) entries)")
    case (Inr widths)
    then show ?thesis using cut_entries_inv [OF w, of "zip entries widths"] by (cases "cut_entries (zip entries widths) w") simp
  qed (simp add: w)
qed

lemma refuse_round_inv: "preserves (world_inv f st dv asked) (refuse_round dv' k entries)"
  unfolding preserves_def refuse_round_def Let_def by (simp add: fail_round_inv)

lemma dispose_round_inv: "preserves (world_inv f st dv asked) (dispose_round dv' sentinels ca k entries)"
proof -
  have "preserves (world_inv f st dv asked) (op_bind (narrow_round entries) (\<lambda>(entries, ok).
             if ok then op_return (Step_Each entries)
             else op_bind (refuse_round dv' k entries) (\<lambda>outputs. op_return (Refused outputs))))"
    by (intro preserves_bind narrow_round_inv)
      (auto intro!: preserves_ite preserves_bind preserves_return refuse_round_inv split: prod.splits simp del: op_simps)
  then show ?thesis unfolding dispose_round_def
    by (intro preserves_bind preserves_read)
      (auto intro!: preserves_ite preserves_bind preserves_read preserves_return split: option.splits simp del: op_simps)
qed

lemma packed_device_step_inv:
  assumes "device_ok f st dv"
  shows "preserves (world_inv f st dv asked) (packed_device_step dv sentinels forced ca k entries)"
  unfolding packed_device_step_def
  by (intro preserves_then preserves_bind preserves_read preserves_refuse dispose_round_inv)
    (auto intro!: run_verified_block_inv [OF assms] sequential_inv [OF assms] preserves_return
      split: disposal.splits simp del: op_simps)

lemma block_rounds_inv:
  assumes "device_ok f st dv"
  shows "preserves (world_inv f st dv asked) (block_rounds dv sentinels forced ca groups blocks outputs later)"
proof (induction blocks arbitrary: outputs later)
  case Nil
  then show ?case by (simp add: preserves_return del: op_simps)
next
  case (Cons k blocks)
  show ?case
  proof (cases "map_of groups k")
    case None
    then show ?thesis using Cons.IH by simp
  next
    case (Some entries)
    have "preserves (world_inv f st dv asked) (op_bind (dispose_round dv sentinels ca k entries) (\<lambda>disposal.
          case disposal of
            Serve \<Rightarrow> op_bind (run_verified_block dv forced ca k entries) (\<lambda>done.
              block_rounds dv sentinels forced ca groups blocks (add_outputs done outputs) later)
          | Step_Each es \<Rightarrow> block_rounds dv sentinels forced ca groups blocks outputs (later @ es)
          | Refused done \<Rightarrow> block_rounds dv sentinels forced ca groups blocks (add_outputs done outputs) later))"
      by (intro preserves_bind dispose_round_inv)
        (auto intro!: Cons.IH preserves_bind run_verified_block_inv [OF assms] split: disposal.splits)
    then show ?thesis using Some by simp
  qed
qed

lemma packed_device_rounds_inv:
  assumes "device_ok f st dv"
  shows "preserves (world_inv f st dv asked) (packed_device_rounds dv sentinels forced ca blocks entries)"
  unfolding packed_device_rounds_def
  by (intro preserves_then preserves_bind preserves_read preserves_refuse)
    (auto intro!: preserves_bind preserves_read preserves_ite preserves_return block_rounds_inv [OF assms]
      sequential_inv [OF assms] split: prod.splits simp del: op_simps)

end
