(* ===== verification/Serving.thy ===== *)
theory Serving
  imports RoundSteps
begin

text \<open>
  Requests come, decode and go over one native slot: engines are built or rebound for a request at its
  prefilled frontier, prefills write the slot in between, rounds of any kind step the requests, and closed
  requests park or close their engines. Whatever the order, every request emits what serial greedy
  decoding of the target emits.
\<close>

subsection \<open>A fresh or rebound engine holds its request's state\<close>

lemma owned_start_parts [keep]:
  "preserves (owned me) (save_initial dv)" "preserves (owned me) (restore_initial dv)"
  "preserves (owned me) (run_capture dv key)" "preserves (owned me) finish_prepare"
  by (auto simp: preserves_def owned_def save_initial_def restore_initial_def run_capture_def finish_prepare_def
      copy_into_slot_def on_session_def op_then_def op_bind_def split: prod.splits sum.splits option.splits)

lemma owned_capture_all [keep]: "preserves (owned me) (capture_all dv skip keys)"
proof (induction keys)
  case Nil
  then show ?case by (simp add: preserves_return del: op_simps)
next
  case (Cons key keys)
  then show ?case by (auto intro!: preserves_then preserves_ite preserves_return owned_start_parts simp del: op_simps)
qed

lemma owned_prepare_failed [simp]: "owned me (prepare_failed g) = owned me g"
  by (simp add: prepare_failed_def)

lemma owned_leave_slot: "owned me g \<Longrightarrow> owned me (leave_slot me g)"
  by (auto simp: owned_def leave_slot_def)

lemma owned_engine_close: "owned me g \<Longrightarrow> owned me (snd (engine_close dv me g))"
  by (auto simp: engine_close_def op_then_def op_bind_def op_refuse_def split: sum.splits intro!: owned_leave_slot)

lemma owned_note_prefill [simp]: "owned me (on_native note_prefill g)"
  by (simp add: owned_def note_prefill_def)

text \<open>A start or rebind claims the slot before it writes it.\<close>

lemma capture_body_owned: "preserves (owned me) (capture_body dv warmed me keys)"
  unfolding capture_body_def by (intro keep)

lemma rebind_body_owned: "preserves (owned me) (rebind_body dv me)"
  unfolding rebind_body_def by (intro keep) simp

lemma begin_engine_Inr: "begin_engine s mk g = (Inr u, g') \<longleftrightarrow>
    (\<exists>s'. begin_preparation s (s_request_id s) = (Inr (), s') \<and>
       g' = on_native note_prefill (g\<lparr>rg_session := s', rg_engine := mk g\<rparr>))"
  by (auto simp: begin_engine_def split: prod.splits sum.splits)

lemma begin_engine_Inl: "begin_engine s mk g = (Inl e, g') \<Longrightarrow> g' = g"
  by (auto simp: begin_engine_def split: prod.splits sum.splits)

lemma engine_start_claims:
  assumes "engine_start dv warmed me session pages helpers table_rows replay max_rows cap t16 g = (r, g')"
  shows "claims me (rg_native g) (rg_native g')"
proof -
  from assms have "g' = g \<or> (\<exists>keys g1 r. owned me g1 \<and> op_except (capture_body dv warmed me keys)
      (\<lambda>g. snd (engine_close dv me (prepare_failed g))) g1 = (r, g'))"
    unfolding engine_start_def Let_def
    by (cases r) (fastforce simp: op_bind_Inr op_bind_Inl op_then_Inr op_then_Inl op_refuse_Inr op_refuse_Inl
        begin_engine_Inr dest: begin_engine_Inl)+
  moreover have "preserves (owned me) (op_except (capture_body dv warmed me keys)
      (\<lambda>g. snd (engine_close dv me (prepare_failed g))))" for keys
    by (intro preserves_except capture_body_owned owned_engine_close) simp
  ultimately show ?thesis using preservesD by (metis claims_refl owned_claims)
qed

lemma keeps_start [keep]:
  "keeps rg_engine (restore_initial dv)" "keeps rg_engine (run_capture dv key)"
  "keeps rg_session (restore_initial dv)" "keeps rg_session (run_capture dv key)" "keeps rg_session (save_initial dv)"
  by (auto simp: keeps_def restore_initial_def run_capture_def copy_into_slot_def save_initial_def
      split: option.splits prod.splits)

lemma keeps_capture_all [keep]:
  "keeps rg_engine (capture_all dv skip keys)" "keeps rg_session (capture_all dv skip keys)"
  by (induction keys) (auto intro!: keeps_then keeps_ite keeps_return keeps_start simp del: op_simps)

lemma begin_preparation_Inr:
  "begin_preparation s r = (Inr u, s') \<Longrightarrow> s' = s\<lparr>s_phase := Preparing\<rparr>"
  by (auto simp: begin_preparation_def split: if_splits)

lemma finish_preparation_Inr:
  "finish_preparation s r = (Inr u, s') \<Longrightarrow> s' = s\<lparr>s_phase := Idle\<rparr>"
  by (auto simp: finish_preparation_def split: if_splits)

text \<open>An engine whose slot holds the request's state seeds its carry from it.\<close>

lemma seeded_live:
  assumes dev: "device_ok f st dv" and slot: "nv_slot (rg_native g) = st xs" and wf: "open_wf g"
    and run: "op_then (save_carry dv me) finish_prepare g = (Inr u, g')"
  shows "live_at st me xs g'" and "en_phase (rg_engine g') = E_Idle" and "open_wf g'"
    and "rg_session g' = (rg_session g)\<lparr>s_phase := Idle\<rparr>" and "en_pending_key (rg_engine g') = en_pending_key (rg_engine g)"
proof -
  obtain g1 s' where s: "save_carry dv me g = (Inr (), g1)"
    and f: "finish_preparation (rg_session g1) (s_request_id (rg_session g1)) = (Inr (), s')"
    and g': "g' = set_phase E_Idle (g1\<lparr>rg_session := s'\<rparr>)"
  proof -
    obtain g1 where a: "save_carry dv me g = (Inr (), g1)" "finish_prepare g1 = (Inr u, g')"
      using run by (auto simp: op_then_Inr)
    obtain r s' where f: "finish_preparation (rg_session g1) (s_request_id (rg_session g1)) = (r, s')" by force
    then have "r = Inr ()" "g' = set_phase E_Idle (g1\<lparr>rg_session := s'\<rparr>)"
      using a(2) by (auto simp: finish_prepare_def on_session_def op_then_Inr)
    then show thesis using that a(1) f by blast
  qed
  note c = save_carry_own [OF dev s wf]
  have ses: "rg_session g1 = rg_session g" using keepsD [OF keeps_parts(3) s] .
  have wf1: "open_wf g1" by (rule preservesD [OF open_wf_parts(2) wf s])
  have key: "en_pending_key (rg_engine g1) = en_pending_key (rg_engine g)"
    using s by (auto simp: save_carry_def op_returned check_carry_def copy_into_carry_def claim_slot_def
        split: option.splits prod.splits)
  show "live_at st me xs g'" using c(1,2) slot wf1 by (simp add: g' live_at_def open_wf_def)
  show "en_phase (rg_engine g') = E_Idle" "en_pending_key (rg_engine g') = en_pending_key (rg_engine g)"
    by (simp_all add: g' key)
  show "open_wf g'" using wf1 by (simp add: g')
  show "rg_session g' = (rg_session g)\<lparr>s_phase := Idle\<rparr>"
    using finish_preparation_Inr [OF f] ses by (simp add: g')
qed

lemma save_initial_Inr:
  assumes "device_ok f st dv" and "save_initial dv g = (Inr u, g')"
  shows "rg_engine g' = (rg_engine g)\<lparr>en_initial := Some (nv_slot (rg_native g))\<rparr>" and "rg_native g' = rg_native g"
    and "rg_session g' = rg_session g"
  using assms(2) device_copy [OF assms(1)] by (auto simp: save_initial_def split: prod.splits)

lemma capture_body_sound:
  assumes dev: "device_ok f st dv" and slot: "nv_slot (rg_native g) = st xs" and wf: "open_wf g"
    and run: "capture_body dv warmed me keys g = (Inr u, g')"
  shows "live_at st me xs g'" and "en_phase (rg_engine g') = E_Idle" and "open_wf g'"
    and "rg_session g' = (rg_session g)\<lparr>s_phase := Idle\<rparr>" and "en_pending_key (rg_engine g') = en_pending_key (rg_engine g)"
proof -
  obtain g1 g2 g3 g4 v1 v2 v3 where s: "save_initial dv g = (Inr (), g1)" and c1: "capture_all dv warmed keys g1 = (Inr v1, g2)"
    and c2: "capture_all dv (\<lambda>_. False) keys g2 = (Inr v2, g3)" and r: "restore_initial dv g3 = (Inr v3, g4)"
    and rest: "op_then (save_carry dv me) finish_prepare g4 = (Inr u, g')"
    using run by (auto simp: capture_body_def op_then_Inr validate_bindings_def op_refuse_Inr)
  note i = save_initial_Inr [OF dev s]
  have e3: "rg_engine g3 = rg_engine g1" "rg_session g3 = rg_session g1"
    using keepsD [OF keeps_capture_all(1) c1] keepsD [OF keeps_capture_all(1) c2]
      keepsD [OF keeps_capture_all(2) c1] keepsD [OF keeps_capture_all(2) c2] by simp_all
  have g4: "rg_engine g4 = rg_engine g3" "rg_session g4 = rg_session g3" "nv_slot (rg_native g4) = st xs"
    using r device_copy [OF dev] i(1) e3 slot
    by (auto simp: restore_initial_def copy_into_slot_def split: option.splits prod.splits)
  have "open_wf g4" using wf i(1) e3 g4 by (simp add: open_wf_def)
  from seeded_live [OF dev g4(3) this rest] i e3 g4
  show "live_at st me xs g'" "en_phase (rg_engine g') = E_Idle" "open_wf g'"
    "rg_session g' = (rg_session g)\<lparr>s_phase := Idle\<rparr>" "en_pending_key (rg_engine g') = en_pending_key (rg_engine g)"
    by simp_all
qed

text \<open>A request that was just asked for, and the rig an engine starts for it.\<close>

lemma session_prepared:
  assumes "begin_preparation session r = (Inr u, s')"
  shows "session_run ok session (s'\<lparr>s_phase := Idle\<rparr>)"
proof -
  have s': "s' = session\<lparr>s_phase := Preparing\<rparr>" and own: "session_owner session r"
    using assms by (auto simp: begin_preparation_def split: if_splits)
  have "session_run ok session s'"
    using session_run.quiet [OF session_run.start quiet_step.begin_p [of session r]] assms by simp
  moreover have "quiet_step s' (snd (finish_preparation s' r))" by (rule quiet_step.finish_p)
  moreover have "snd (finish_preparation s' r) = s'\<lparr>s_phase := Idle\<rparr>"
    using own by (auto simp: finish_preparation_def s' session_owner_def)
  ultimately show ?thesis using session_run.quiet by metis
qed

lemma plan_keys_ok:
  "list_all bucket_ok (map (\<lambda>(key, rows). (key, \<lparr>bk_retained = (rows > 1), bk_first = True, bk_poisoned = False,
     bk_checkpoint = None, bk_records = None, bk_packed = None\<rparr>)) (plan_keys plan widths))"
  by (auto simp: plan_keys_def list_all_iff bucket_ok_def split: option.splits)

lemma fresh_consumed:
  assumes "session_init r prompt seed v mx eos neural vr pfs le = Inr s0"
  shows "consumed prompt s0 = prompt" and "s_phase s0 = Idle"
  using session_init_inv [OF assms] by (auto simp: consumed_def)

lemma engine_start_ok:
  assumes dev: "device_ok f st dv" and slot: "nv_slot (rg_native g) = st (fst asked)" and as: "asked_ok asked"
    and run: "engine_start dv warmed me (snd asked) pages helpers table_rows replay max_rows cap t16 g = (Inr u, g')"
  shows "rig_ok f st me asked g'"
proof -
  obtain widths plan capture_rows g1 where
    b: "begin_engine (snd asked) (\<lambda>g. fresh_engine (snd asked) pages widths capture_rows plan t16 (nv_slot (rg_native g))) g
        = (Inr (), g1)"
    and c: "capture_body dv warmed me (map fst (plan_keys plan widths)) g1 = (Inr u, g')"
    using run by (auto simp: engine_start_def Let_def op_returned)
  obtain s' where s': "begin_preparation (snd asked) (s_request_id (snd asked)) = (Inr (), s')"
    and g1: "g1 = on_native note_prefill (g\<lparr>rg_session := s', rg_engine :=
        fresh_engine (snd asked) pages widths capture_rows plan t16 (nv_slot (rg_native g))\<rparr>)"
    using b by (auto simp: begin_engine_Inr)
  have "open_wf g1" by (simp add: g1 open_wf_def fresh_engine_def plan_keys_ok)
  note l = capture_body_sound [OF dev _ this c, of "fst asked"]
  have "nv_slot (rg_native g1) = st (fst asked)" using slot by (simp add: g1 note_prefill_def)
  note l = l [OF this]
  have run: "session_run (target_verified f (fst asked)) (snd asked) (rg_session g')"
    using session_prepared [OF s'] l(4) by (simp add: g1)
  obtain r seed v mx eos neural vr pfs le where "session_init r (fst asked) seed v mx eos neural vr pfs le = Inr (snd asked)"
    using as by (auto simp: asked_ok_def)
  then have "consumed (fst asked) (rg_session g') = fst asked"
    using fresh_consumed(1) l(4) begin_preparation_Inr [OF s'] by (auto simp: g1 consumed_def)
  then show ?thesis using l run by (simp add: rig_ok_def open_wf_engine)
qed

lemma rebind_buckets_ok: "list_all bucket_ok bs \<Longrightarrow> list_all bucket_ok (rebind_buckets bs)"
  by (force simp: rebind_buckets_def list_all_iff bucket_ok_def split: if_splits bucket_key.splits)

lemma engine_rebind_Inr:
  assumes "engine_rebind dv me s pages helpers table_rows g = (Inr u, g')"
  obtains s' where "begin_preparation s (s_request_id s) = (Inr (), s')" and "en_phase (rg_engine g) = E_Parked"
    and "rebind_body dv me (on_native note_prefill (g\<lparr>rg_session := s',
          rg_engine := (rg_engine g)\<lparr>en_position := s_position s, en_pages := pages, en_phase := E_Preparing\<rparr>\<rparr>)) = (Inr u, g')"
  using assms by (auto simp: engine_rebind_def op_returned begin_engine_Inr)

lemma engine_rebind_ok:
  assumes dev: "device_ok f st dv" and slot: "nv_slot (rg_native g) = st (fst asked)" and as: "asked_ok asked"
    and wf: "engine_wf g"
    and run: "engine_rebind dv me (snd asked) pages helpers table_rows g = (Inr u, g')"
  shows "rig_ok f st me asked g'"
proof -
  obtain s' where s': "begin_preparation (snd asked) (s_request_id (snd asked)) = (Inr (), s')"
    and parked: "en_phase (rg_engine g) = E_Parked"
    and body: "rebind_body dv me (on_native note_prefill (g\<lparr>rg_session := s',
          rg_engine := (rg_engine g)\<lparr>en_position := s_position (snd asked), en_pages := pages, en_phase := E_Preparing\<rparr>\<rparr>))
        = (Inr u, g')" (is "rebind_body dv me ?g0 = _")
    using run by (rule engine_rebind_Inr)
  have wf0: "open_wf ?g0" using engine_wf_open [OF wf] parked by (simp add: open_wf_def)
  let ?g1 = "on_engine (\<lambda>e. e\<lparr>en_buckets := rebind_buckets (en_buckets e)\<rparr>) ?g0"
  obtain g2 where s: "save_initial dv ?g1 = (Inr (), g2)"
    and rest: "op_then (save_carry dv me) finish_prepare g2 = (Inr u, g')"
    using body by (auto simp: rebind_body_def op_then_Inr validate_bindings_def op_refuse_Inr)
  note i = save_initial_Inr [OF dev s]
  have "open_wf g2" using wf0 i(1) by (simp add: open_wf_def rebind_buckets_ok)
  moreover have "nv_slot (rg_native g2) = st (fst asked)" using slot i(2) by (simp add: note_prefill_def)
  ultimately have l: "live_at st me (fst asked) g'" "en_phase (rg_engine g') = E_Idle" "open_wf g'"
    "rg_session g' = (rg_session g2)\<lparr>s_phase := Idle\<rparr>"
    using seeded_live [OF dev _ _ rest] by blast+
  have ses: "rg_session g' = s'\<lparr>s_phase := Idle\<rparr>" using l(4) i(3) by simp
  have run: "session_run (target_verified f (fst asked)) (snd asked) (rg_session g')"
    using session_prepared [OF s'] ses by simp
  obtain r seed v mx eos neural vr pfs le where "session_init r (fst asked) seed v mx eos neural vr pfs le = Inr (snd asked)"
    using as by (auto simp: asked_ok_def)
  then have "consumed (fst asked) (rg_session g') = fst asked"
    using fresh_consumed(1) ses begin_preparation_Inr [OF s'] by (auto simp: consumed_def)
  then show ?thesis using l run by (simp add: rig_ok_def open_wf_engine)
qed

lemma engine_rebind_claims:
  assumes "engine_rebind dv me s pages helpers table_rows g = (r, g')"
  shows "g' = g \<or> claims me (rg_native g) (rg_native g')"
proof -
  have body: "preserves (owned me) (op_except (rebind_body dv me) prepare_failed)"
    by (intro preserves_except rebind_body_owned) simp
  from assms have "g' = g \<or> (\<exists>g1 r. owned me g1 \<and> op_except (rebind_body dv me) prepare_failed g1 = (r, g'))"
    unfolding engine_rebind_def
    by (cases r) (fastforce simp: op_bind_Inr op_bind_Inl op_then_Inr op_then_Inl op_refuse_Inr op_refuse_Inl
        begin_engine_Inr dest: begin_engine_Inl)+
  then show ?thesis using preservesD [OF body] by (auto intro: owned_claims)
qed

lemma fast_request_init_ok:
  assumes "fast_request_init g taps = Inr g'"
  shows "rig_ok f st me asked g' = rig_ok f st me asked g" and "rg_native g' = rg_native g"
  using assms
  by (auto simp: fast_request_init_def runtime_bind_def op_then_def op_bind_def op_refuse_def split: if_splits)

subsection \<open>The serving system\<close>

text \<open>A closing request parks its engine where it may, and closes it where it may not.\<close>

definition park_or_close :: "('s, 'r) device \<Rightarrow> nat \<Rightarrow> ('s, 'r, unit) rig_op" where
  "park_or_close dv me = op_bind (engine_park dv me) (\<lambda>parked. if parked then op_return () else engine_close dv me)"

type_synonym ('s, 'r) serving = "(nat \<Rightarrow> int list \<times> session) \<times> ('s, 'r) world"

text \<open>\<open>asked me\<close> is the prompt and the session of the request engine me decodes. The device of every
  step may be another one, and may raise anywhere.\<close>

inductive serving_step :: "(int list \<Rightarrow> int) \<Rightarrow> (int list \<Rightarrow> 's) \<Rightarrow> ('s, 'r) serving \<Rightarrow> ('s, 'r) serving \<Rightarrow> bool"
  for f :: "int list \<Rightarrow> int" and st :: "int list \<Rightarrow> 's" where
  prefill: "serving_step f st (a, w) (a, w\<lparr>wd_native := note_prefill ((wd_native w)\<lparr>nv_slot := slot\<rparr>)\<rparr>)"
| attach: "wd_rigs w me = None \<Longrightarrow> device_ok f st dv \<Longrightarrow> asked_ok ask \<Longrightarrow> nv_slot (wd_native w) = st (fst ask) \<Longrightarrow>
    engine_start dv warmed me (snd ask) pages helpers table_rows replay max_rows cap t16
      (g0\<lparr>rg_native := wd_native w\<rparr>) = (Inr (), g) \<Longrightarrow>
    fast_request_init g taps = Inr g' \<Longrightarrow>
    serving_step f st (a, w) (a(me := ask), put_rig me g' w)"
| attach_failed: "wd_rigs w me = None \<Longrightarrow>
    engine_start dv warmed me s pages helpers table_rows replay max_rows cap t16
      (g0\<lparr>rg_native := wd_native w\<rparr>) = (r, g) \<Longrightarrow>
    serving_step f st (a, w) (a, w\<lparr>wd_native := rg_native g\<rparr>)"
| rebind: "rig_at w me = Some g0 \<Longrightarrow> device_ok f st dv \<Longrightarrow> asked_ok ask \<Longrightarrow> nv_slot (wd_native w) = st (fst ask) \<Longrightarrow>
    engine_rebind dv me (snd ask) pages helpers table_rows g0 = (Inr (), g) \<Longrightarrow>
    fast_request_init g taps = Inr g' \<Longrightarrow>
    serving_step f st (a, w) (a(me := ask), put_rig me g' w)"
| rebind_failed: "rig_at w me = Some g0 \<Longrightarrow> engine_rebind dv me s pages helpers table_rows g0 = (Inl e, g) \<Longrightarrow>
    serving_step f st (a, w)
      (a, if en_phase (rg_engine g) = E_Parked then w
          else w\<lparr>wd_native := rg_native g, wd_rigs := (wd_rigs w)(me := None)\<rparr>)"
| prepare: "serving_step f st (a, w) (a, snd (at_rig me (request_prepare dv r packed) w))"
| decode: "device_ok f st dv \<Longrightarrow>
    serving_step f st (a, w) (a, snd (at_rig me (request_step dv me r first second) w))"
| finish: "release \<in> {None, Some (park_or_close dv me)} \<Longrightarrow>
    serving_step f st (a, w) (a, snd (at_rig me (request_close dv me r release released) w))"
| round: "device_ok f st dv \<Longrightarrow> packed_all f st dv w \<Longrightarrow>
    serving_step f st (a, w) (a, snd (packed_device_step dv sentinels forced ca k entries w))"
| rounds: "device_ok f st dv \<Longrightarrow> packed_all f st dv w \<Longrightarrow>
    serving_step f st (a, w) (a, snd (packed_device_rounds dv sentinels forced ca ks entries w))"
| sequential: "device_ok f st dv \<Longrightarrow>
    serving_step f st (a, w) (a, snd (sequential_packed_step dv ca entries w))"

definition serving_start :: "('s, 'r) serving \<Rightarrow> bool" where
  "serving_start x \<longleftrightarrow> (\<forall>me. wd_rigs (snd x) me = None)"

definition serving_ok :: "(int list \<Rightarrow> int) \<Rightarrow> (int list \<Rightarrow> 's) \<Rightarrow> ('s, 'r) serving \<Rightarrow> bool" where
  "serving_ok f st x \<longleftrightarrow> world_ok f st (fst x) (snd x)"

lemma world_ok_attach:
  assumes w: "world_ok f st asked w" and ok: "rig_ok f st me ask g" and as: "asked_ok ask"
    and cl: "claims me (wd_native w) (rg_native g)"
  shows "world_ok f st (asked(me := ask)) (put_rig me g w)"
  unfolding world_ok_def
proof (intro allI impI)
  fix me' h assume h: "rig_at (put_rig me g w) me' = Some h"
  show "asked_ok ((asked(me := ask)) me') \<and> rig_ok f st me' ((asked(me := ask)) me') h"
  proof (cases "me' = me")
    case True
    then show ?thesis using h ok as by (simp add: rig_at_put)
  next
    case False
    then obtain h0 where h0: "rig_at w me' = Some h0" and hh: "h = h0\<lparr>rg_native := rg_native g\<rparr>"
      using h by (auto simp: rig_at_put)
    have "rig_ok f st me' (asked me') (h0\<lparr>rg_native := wd_native w\<rparr>)"
      using world_okD(2) [OF w h0] rig_at_native [OF h0] by (metis rig.surjective rig.update_convs(1))
    then have "rig_ok f st me' (asked me') h"
      unfolding hh using cl False by (rule_tac rig_ok_native) (auto simp: claims_def)
    then show ?thesis using world_okD(1) [OF w h0] False by simp
  qed
qed

lemma world_ok_forget:
  assumes w: "world_ok f st asked w" and cl: "claims me (wd_native w) n"
  shows "world_ok f st asked (w\<lparr>wd_native := n, wd_rigs := (wd_rigs w)(me := None)\<rparr>)"
  unfolding world_ok_def
proof (intro allI impI)
  fix me' h assume h: "rig_at (w\<lparr>wd_native := n, wd_rigs := (wd_rigs w)(me := None)\<rparr>) me' = Some h"
  then obtain g where g: "wd_rigs w me' = Some g" "me' \<noteq> me" and hh: "h = g\<lparr>rg_native := n\<rparr>"
    by (auto simp: rig_at_def split: if_splits)
  then have g': "rig_at w me' = Some (g\<lparr>rg_native := wd_native w\<rparr>)" by (simp add: rig_at_def)
  show "asked_ok (asked me') \<and> rig_ok f st me' (asked me') h"
    unfolding hh using world_okD [OF w g'] cl g(2) by (auto simp: claims_def intro: rig_ok_native)
qed

lemma park_or_close_ok: "op_ok f st me asked (park_or_close dv me)"
  unfolding park_or_close_def
proof (rule op_ok_bind [OF engine_park_ok])
  fix parked
  have "op_ok f st me asked (op_return ())" by (simp add: op_ok_def)
  then show "op_ok f st me asked (if parked then op_return () else engine_close dv me)"
    by (cases parked) (simp_all only: if_True if_False engine_close_ok)
qed

lemma at_rig_ok:
  assumes "world_ok f st a w" and "asked_ok (a me) \<Longrightarrow> op_ok f st me (a me) m"
  shows "world_ok f st a (snd (at_rig me m w))"
proof -
  have "preserves (world_ok f st a) (at_rig me m)" by (rule preserves_at_rig) (rule assms(2))
  then show ?thesis using assms(1) unfolding preserves_def by blast
qed

lemma request_prepare_op_ok: "asked_ok asked \<Longrightarrow> op_ok f st me asked (request_prepare dv r packed)"
  by (rule op_okI) (auto simp: request_prepare_ok)

lemma serving_step_ok: "serving_step f st x y \<Longrightarrow> serving_ok f st x \<Longrightarrow> serving_ok f st y"
proof (induction rule: serving_step.induct)
  case (prefill a w slot)
  then show ?case by (auto simp: serving_ok_def calm_def note_prefill_def intro: world_ok_calm)
next
  case (attach w me dv ask warmed pages helpers table_rows replay max_rows cap t16 g0 g taps g' a)
  have "rig_ok f st me ask g"
    by (rule engine_start_ok [OF attach.hyps(2) _ attach.hyps(3,5)]) (use attach.hyps(4) in simp)
  then show ?case
    using world_ok_attach [of f st a w me ask g'] attach engine_start_claims [OF attach.hyps(5)]
      fast_request_init_ok [OF attach.hyps(6)]
    by (simp add: serving_ok_def)
next
  case (attach_failed w me dv warmed s pages helpers table_rows replay max_rows cap t16 g0 r g a)
  have "wd_rigs w = (wd_rigs w)(me := None)" using attach_failed.hyps(1) by auto
  then show ?case
    using world_ok_forget [of f st a w me "rg_native g"] engine_start_claims [OF attach_failed.hyps(2)] attach_failed.prems
    by (simp add: serving_ok_def)
next
  case (rebind w me g0 dv ask pages helpers table_rows g taps g' a)
  have w: "world_ok f st a w" using rebind.prems by (simp add: serving_ok_def)
  have "rig_ok f st me ask g"
    by (rule engine_rebind_ok [OF rebind.hyps(2) _ rebind.hyps(3) _ rebind.hyps(5)])
      (use rebind.hyps(4) rig_at_native [OF rebind.hyps(1)] rig_okD(2) [OF world_okD(2) [OF w rebind.hyps(1)]] in simp_all)
  then show ?case
    using world_ok_attach [OF w, of me ask g'] engine_rebind_claims [OF rebind.hyps(5)] rig_at_native [OF rebind.hyps(1)]
      fast_request_init_ok [OF rebind.hyps(6)] rebind.hyps(3)
    by (auto simp: serving_ok_def)
next
  case (rebind_failed w me g0 dv s pages helpers table_rows e g a)
  have w: "world_ok f st a w" using rebind_failed.prems by (simp add: serving_ok_def)
  have "claims me (wd_native w) (rg_native g)"
    using engine_rebind_claims [OF rebind_failed.hyps(2)] rig_at_native [OF rebind_failed.hyps(1)] by auto
  then show ?case using world_ok_forget [OF w] w by (simp add: serving_ok_def)
next
  case (prepare a w me dv r packed)
  then show ?case by (simp add: serving_ok_def at_rig_ok request_prepare_op_ok)
next
  case (decode dv a w me r first second)
  then show ?case by (simp add: serving_ok_def at_rig_ok request_step_ok)
next
  case (finish release dv me a w r released)
  have "op_ok f st me (a me) (request_close dv me r release released)"
  proof (rule request_close_ok)
    fix m assume "release = Some m"
    then have "m = park_or_close dv me" using finish.hyps by simp
    then show "op_ok f st me (a me) m" by (simp only: park_or_close_ok)
  qed
  then show ?case using finish.prems by (simp add: serving_ok_def at_rig_ok)
next
  case (round dv w a sentinels forced ca k entries)
  have "world_inv f st dv a w" using round by (simp add: serving_ok_def world_inv_def)
  then have "world_inv f st dv a (snd (packed_device_step dv sentinels forced ca k entries w))"
    by (rule packed_device_step_inv [OF round.hyps(1), unfolded preserves_def, rule_format])
  then show ?case by (simp add: serving_ok_def world_inv_def)
next
  case (rounds dv w a sentinels forced ca ks entries)
  have "world_inv f st dv a w" using rounds by (simp add: serving_ok_def world_inv_def)
  then have "world_inv f st dv a (snd (packed_device_rounds dv sentinels forced ca ks entries w))"
    by (rule packed_device_rounds_inv [OF rounds.hyps(1), unfolded preserves_def, rule_format])
  then show ?case by (simp add: serving_ok_def world_inv_def)
next
  case (sequential dv a w ca entries)
  have "world_ok f st a (snd (sequential_packed_step dv ca entries w))"
    by (rule sequential_packed_step_ok [OF sequential.hyps, unfolded preserves_def, rule_format])
      (use sequential.prems in \<open>simp add: serving_ok_def\<close>)
  then show ?case by (simp add: serving_ok_def)
qed

interpretation serving: invariant_system serving_start "serving_step f st" "serving_ok f st"
proof unfold_locales
  show "serving_start x \<Longrightarrow> serving_ok f st x" for x
    by (simp add: serving_start_def serving_ok_def world_ok_def rig_at_def)
  show "serving_ok f st x \<Longrightarrow> serving_step f st x y \<Longrightarrow> serving_ok f st y" for x y
    by (rule serving_step_ok)
qed

end
