(* ===== verification/ServingProps.thy ===== *)
theory ServingProps
  imports Serving
begin

text \<open>
  What the serving system promises a request, for every interleaving with the others: the exactness of its text.
\<close>

subsection \<open>A concrete device\<close>

text \<open>The recurrent state after some tokens is the tokens themselves; a commit appends a prefix.\<close>

definition demo_commit :: "(int list \<times> int list) option \<Rightarrow> nat \<Rightarrow> int list \<Rightarrow> unit result \<times> int list" where
  "demo_commit rec n a = (case rec of None \<Rightarrow> (Inl RuntimeError, a) | Some (xs, ts) \<Rightarrow> (Inr (), xs @ take n ts))"

definition demo_device :: "(int list, int list \<times> int list) device" where
  "demo_device = \<lparr>dv_bindings = True, dv_carry_in_place = True, dv_synchronize = Inr (),
     dv_copy = (\<lambda>a b. (Inr (), a)), dv_capture = (\<lambda>key slot. (Inr (), [])), dv_write_pages = Inr (),
     dv_replay = (\<lambda>key xs pos ts. (Inr (target_rows mod3 xs ts, xs, (xs, ts)), xs @ ts)), dv_commit = demo_commit,
     dv_block_stage = Inr (),
     dv_block_replay = (\<lambda>inputs slot.
       if \<not> distinct (map fst inputs) then (Inl RuntimeError, slot)
       else (Inr (map (\<lambda>(segment, carry, start, ts). case carry of
          None \<Rightarrow> (segment, ts, ([], ts)) | Some xs \<Rightarrow> (segment, target_rows mod3 xs ts, (xs, ts))) inputs), [])),
     dv_block_bindings = Inr (), dv_block_commit = demo_commit, dv_features = Inr (),
     dv_propose = (\<lambda>seed rows. Inr (replicate (nat rows) 1)), dv_prepare_history = (\<lambda>n p. Inr ()),
     dv_commit_history = (\<lambda>p n. (Inr (), p + n))\<rparr>"

lemma demo_device_ok: "device_ok mod3 id demo_device"
  by (auto simp: device_ok_def demo_device_def demo_commit_def)

lemma demo_block_replay:
  assumes "dv_block_replay demo_device inputs slot = (Inr outs, slot')" and "(segment, Some xs, pos, ts) \<in> set inputs"
  shows "map_of outs segment = Some (target_rows mod3 xs ts, (xs, ts))"
proof -
  have d: "distinct (map fst inputs)" and outs: "outs = map (\<lambda>(segment, carry, start, ts). case carry of
          None \<Rightarrow> (segment, ts, ([], ts)) | Some xs \<Rightarrow> (segment, target_rows mod3 xs ts, (xs, ts))) inputs"
    using assms(1) by (auto simp: demo_device_def split: if_splits)
  have "map fst outs = map fst inputs" by (auto simp: outs split: option.splits)
  moreover have "(segment, target_rows mod3 xs ts, (xs, ts)) \<in> set outs" using assms(2) by (force simp: outs)
  ultimately show ?thesis using d by simp
qed

lemma demo_packed_ok: "packed_ok mod3 id demo_device b"
  unfolding packed_ok_def
  by (auto simp: demo_block_replay) (auto simp: demo_device_def demo_commit_def)

definition demo_block :: "(int list \<times> int list) block" where
  "demo_block = \<lparr>bl_phase = B_Idle, bl_shape = projr (m1_shape 68), bl_env = \<lparr>context_ladder_sim = False, sim_only = False,
      hardware_tests = False, cards_allocated = False\<rparr>, bl_replay_capacity = 4352, bl_extent = False, bl_padded_min = None,
      bl_carries_in_place = True, bl_kv_chains = False, bl_lent = (\<lambda>_. True), bl_owner = Some, bl_pending = [],
      bl_idle = [], bl_starts = [], bl_records = [], bl_rounds = 0\<rparr>"

definition demo_prompt :: "int list" where
  "demo_prompt = [0, 1, 2, 0, 1, 2]"

definition demo_world :: "(int list, int list \<times> int list) world" where
  "demo_world = \<lparr>wd_native = \<lparr>nv_slot = demo_prompt, nv_resident = None, nv_replays = None, nv_blocks = (\<lambda>_. demo_block)\<rparr>,
     wd_rigs = Map.empty\<rparr>"

definition demo_rig :: "(int list, int list \<times> int list) rig" where
  "demo_rig = \<lparr>rg_native = wd_native demo_world, rg_session = demo_start,
     rg_engine = fresh_engine demo_start [] [] 0 None False [], rg_runtime = projr (runtime_init 6 6 15),
     rg_closed = False, rg_cancelled = False, rg_busy = False\<rparr>"

definition demo_started :: "unit result \<times> (int list, int list \<times> int list) rig" where
  "demo_started = engine_start demo_device (\<lambda>_. False) 0 demo_start (replicate 68 1) 48 1 None 16 None False
     (demo_rig\<lparr>rg_native := wd_native demo_world\<rparr>)"

definition demo_request :: "(int list, int list \<times> int list) rig result" where
  "demo_request = fast_request_init (snd demo_started) True"

definition demo_stepped :: "committed_output result \<times> (int list, int list \<times> int list) rig" where
  "demo_stepped = request_step demo_device 0 ''r'' (Inr False) (Inr False) (projr demo_request)"

lemma demo_runs: "fst demo_started = Inr ()" "returned demo_request" "returned (fst demo_stepped)"
  by code_simp+

lemma demo_emits: "s_emitted (rg_session (snd demo_stepped)) = [0, 1, 2, 0, 1]"
  "s_phase (rg_session (snd demo_stepped)) = Idle"
  by code_simp+

definition demo_served :: "(int list, int list \<times> int list) world" where
  "demo_served = snd (at_rig 0 (request_step demo_device 0 ''r'' (Inr False) (Inr False))
     (put_rig 0 (projr demo_request) demo_world))"

lemma demo_request_rig: "rig_at (put_rig 0 (projr demo_request) demo_world) 0 = Some (projr demo_request)"
  by (simp add: rig_at_put)

lemma demo_served_rig: "wd_rigs demo_served 0 = Some (snd demo_stepped)"
proof -
  obtain r h where s: "request_step demo_device 0 ''r'' (Inr False) (Inr False) (projr demo_request) = (r, h)" by force
  have "wd_rigs (put_rig 0 h w) 0 = Some h" for w :: "(int list, int list \<times> int list) world" by (simp add: put_rig_def)
  then show ?thesis by (simp add: demo_served_def at_rig_def demo_request_rig s demo_stepped_def)
qed

lemma demo_asked: "asked_ok (demo_prompt, demo_start)"
  unfolding asked_ok_def fst_conv snd_conv demo_prompt_def using demo_init by blast

lemma demo_served_reachable:
  "reachable serving_start (serving_step mod3 id) ((\<lambda>_. (demo_prompt, demo_start))(0 := (demo_prompt, demo_start)), demo_served)"
proof -
  have start: "reachable serving_start (serving_step mod3 id) ((\<lambda>_. (demo_prompt, demo_start)), demo_world)"
    by (rule reachable.initial) (simp add: serving_start_def demo_world_def)
  have s: "engine_start demo_device (\<lambda>_. False) 0 (snd (demo_prompt, demo_start)) (replicate 68 1) 48 1 None 16 None False
     (demo_rig\<lparr>rg_native := wd_native demo_world\<rparr>) = (Inr (), snd demo_started)"
    using demo_runs(1) unfolding demo_started_def snd_conv by (metis prod.collapse)
  have r: "fast_request_init (snd demo_started) True = Inr (projr demo_request)"
    using returned_projr [OF demo_runs(2)] by (simp add: demo_request_def)
  have "serving_step mod3 id ((\<lambda>_. (demo_prompt, demo_start)), demo_world)
      ((\<lambda>_. (demo_prompt, demo_start))(0 := (demo_prompt, demo_start)), put_rig 0 (projr demo_request) demo_world)"
    by (rule serving_step.attach [OF _ demo_device_ok demo_asked _ s r]) (simp_all add: demo_world_def)
  from reachable.step [OF start this] show ?thesis
    unfolding demo_served_def
    by (rule reachable.step) (rule serving_step.decode [OF demo_device_ok])
qed

subsection \<open>Exactness\<close>

text \<open>C2: serving is exact. Start with no request and let requests attach at their prefilled frontier, decode
  alone, in packed rounds over one block or several, padded or capped, narrowed, refused or cancelled,
  fail, close, park and be rebound, in any order, over one shared GDN slot that every prefill and every
  other request overwrites, on a device that may raise at any call. If the device's forward passes, its
  state commits and its copies are right when they return (a packed block's only below its accept
  limit), then at every point every request that is not closed has emitted its seed and exactly what
  serial greedy decoding of the target emits after its own prompt, within its budget; and a finished
  one has emitted all of it.\<close>

theorem served_exactly:
  assumes "reachable serving_start (serving_step f st) (asked, w)" and "wd_rigs w me = Some g"
    and "session_init r (fst (asked me)) seed v mx eos neural vr pfs le = Inr (snd (asked me))"
    and "s_phase (rg_session g) \<noteq> Closed"
  shows "s_emitted (rg_session g)
      = seed # serial f eos (fst (asked me) @ [seed]) (length (s_emitted (rg_session g)) - 1)
    \<and> length (s_emitted (rg_session g)) \<le> nat mx
    \<and> (s_finished (rg_session g) \<and> seed \<notin> set eos \<longrightarrow>
         s_emitted (rg_session g) = seed # serial f eos (fst (asked me) @ [seed]) (nat mx - 1))"
proof -
  have "world_ok f st asked w" using serving.inv_reachable [OF assms(1)] by (simp add: serving_ok_def)
  moreover have "rig_at w me = Some (g\<lparr>rg_native := wd_native w\<rparr>)" using assms(2) by (simp add: rig_at_def)
  ultimately have "session_run (target_verified f (fst (asked me))) (snd (asked me)) (rg_session g)"
    using rig_okD(1) [OF world_okD(2)] by fastforce
  from session_run_text [OF assms(3) this assms(4)] show ?thesis .
qed

theorem served_exactly_witness:
  "s_emitted (rg_session (snd demo_stepped)) = 0 # serial mod3 [] [0, 1, 2, 0, 1, 2, 0] 4"
  using served_exactly [OF demo_served_reachable demo_served_rig, of "''r''" 0 100 8 "[]" Map.empty 16 False True] demo_init
  by (simp add: demo_emits demo_prompt_def numeral_eq_Suc)

end
