(* ===== verification/PackedProps.thy ===== *)
theory PackedProps
  imports PackedSafety ServingProps
begin

text \<open>
  What the packed block's host checks guarantee: each user decides once, a commit stays inside its mask
  family and never trips the block's own cap, and the K/V guard finds exactly the shared tile rows.
\<close>

subsection \<open>One decision per user\<close>

text \<open>The abstract round: who has not decided yet, done, or broken.\<close>

datatype round_state = Awaiting "nat set" | Round_Idle | Round_Broken

definition round_of :: "'r block \<Rightarrow> round_state" where
  "round_of b = (case bl_phase b of
     B_Verified \<Rightarrow> Awaiting (set (bl_pending b)) | B_Idle \<Rightarrow> Round_Idle | _ \<Rightarrow> Round_Broken)"

definition decide :: "nat \<Rightarrow> round_state \<Rightarrow> round_state" where
  "decide segment q = (case q of
     Awaiting undecided \<Rightarrow> if undecided - {segment} = {} then Round_Idle else Awaiting (undecided - {segment})
   | q \<Rightarrow> q)"

lemma block_commit_check_Inr:
  "block_commit_check segment prefix b = Inr () \<Longrightarrow> bl_phase b = B_Verified \<and> segment \<in> set (bl_pending b)
     \<and> 0 \<le> prefix \<and> prefix \<le> bl_rows b"
  by (auto simp: block_commit_check_def check_segment_def rbind_Inr_iff split: if_splits)

text \<open>C27: the block's host state refines the abstract round. A commit that returns was of a segment that had not
  decided, and moves the round to the one in which it has (idle once nobody is left); a commit that raises
  either was refused before any device work and left the block as it was, or broke it.\<close>

theorem commit_user_refines_round:
  assumes "block_commit_user bindings fence trace segment prefix carry b = (r, carry', b')"
  shows "(r = Inr () \<and> (\<exists>undecided. round_of b = Awaiting undecided \<and> segment \<in> undecided)
           \<and> round_of b' = decide segment (round_of b))
       \<or> ((\<exists>e. r = Inl e) \<and> (b' = b \<and> carry' = carry \<or> round_of b' = Round_Broken))"
proof (cases "block_commit_check segment prefix b")
  case (Inl e)
  then have "r = Inl e" "b' = b" "carry' = carry" using assms by (simp_all add: block_commit_user_def)
  then show ?thesis by simp
next
  case (Inr u)
  then have chk: "bl_phase b = B_Verified" "segment \<in> set (bl_pending b)" using block_commit_check_Inr by auto
  have settle: "block_settle bindings fence trace segment (nat prefix) carry b = (r, carry', b')"
    using assms Inr by (simp add: block_commit_user_def)
  show ?thesis
  proof (cases r)
    case (Inl e)
    then show ?thesis using block_settle_Inl [of bindings fence trace segment "nat prefix" carry b e carry' b'] settle
      by (simp add: round_of_def)
  next
    case (Inr v)
    then have "b' = b\<lparr>bl_pending := removeAll segment (bl_pending b),
             bl_phase := (if removeAll segment (bl_pending b) = [] then B_Idle else bl_phase b)\<rparr>"
      using block_settle_Inr(2) [of bindings fence trace segment "nat prefix" carry b "()" carry' b'] settle by simp
    moreover have "(removeAll segment (bl_pending b) = []) \<longleftrightarrow> (set (bl_pending b) - {segment} = {})"
      by (metis set_removeAll set_empty)
    ultimately show ?thesis using chk Inr by (simp add: round_of_def decide_def)
  qed
qed

definition demo_m1_block :: "unit block" where
  "demo_m1_block = \<lparr>bl_phase = B_Verified, bl_shape = projr (m1_shape 68), bl_env = \<lparr>context_ladder_sim = False,
      sim_only = False, hardware_tests = False, cards_allocated = False\<rparr>, bl_replay_capacity = 4352, bl_extent = True,
      bl_padded_min = None, bl_carries_in_place = True, bl_kv_chains = True, bl_lent = (\<lambda>_. True), bl_owner = Some,
      bl_pending = [0, 1], bl_idle = [], bl_starts = [(0, 250), (1, 128)], bl_records = [], bl_rounds = 1\<rparr>"

theorem commit_user_refines_round_witness:
  "round_of (snd (snd (block_commit_user (Inr ()) (Inr ()) (\<lambda>_ _ c. (Inr (), c + 1)) 0 6 (0::nat) demo_m1_block)))
    = Awaiting {1}"
proof -
  let ?c = "block_commit_user (Inr ()) (Inr ()) (\<lambda>_ _ c. (Inr (), c + 1)) 0 6 (0::nat) demo_m1_block"
  have r: "fst ?c = Inr ()" by code_simp
  have before: "round_of demo_m1_block = Awaiting {0, 1}" by (simp add: round_of_def demo_m1_block_def)
  have "?c = (fst ?c, fst (snd ?c), snd (snd ?c))" by simp
  from commit_user_refines_round [OF this] have "round_of (snd (snd ?c)) = decide 0 (Awaiting {0, 1})"
    unfolding r before by simp
  then show ?thesis by (simp add: decide_def insert_Diff_if)
qed

subsection \<open>The commit cap\<close>

text \<open>The rows the step lets a user commit on the extent path: the ticket's, up to the family end of its start and
  the gate's forced cap.\<close>

definition commit_cap :: "int option \<Rightarrow> 'r block \<Rightarrow> int \<Rightarrow> int" where
  "commit_cap forced b position =
     (let m = min (bl_rows b) ((position div 256 + 1) * 256 - position)
      in case forced of None \<Rightarrow> m | Some f \<Rightarrow> min m f)"

lemma commit_cap_bounds:
  "commit_cap forced b position \<le> bl_rows b" "position + commit_cap forced b position \<le> (position div 256 + 1) * 256"
  "forced = Some f \<Longrightarrow> commit_cap forced b position \<le> f"
  by (auto simp: commit_cap_def Let_def split: option.splits)

lemma commit_limit_extent:
  assumes "bl_extent b" and "commit_limit forced b position (bl_rows b) = Inr limit"
  shows "limit = Some (commit_cap forced b position)"
    and "map_of (bl_starts b) segment = Some position \<Longrightarrow> int n \<le> commit_cap forced b position
      \<Longrightarrow> check_extent_cap b segment (int n) = Inr ()"
  using assms
  by (auto simp: commit_limit_def commit_cap_def check_extent_cap_def block_accept_limit_def extent_accept_limit_def
      extent_def rbind_Inr_iff Let_def split: if_splits option.splits)

lemma adopt_packed_returns:
  assumes "adopt_packed t k segment g = (Inr u, g')"
  shows "rg_session g' = rg_session g" and "rg_native g' = rg_native g" and "rg_runtime g' = rg_runtime g"
    and "bl_rows (nv_blocks (rg_native g) k) = int (length (t_tokens t))"
  using assms by (auto simp: adopt_packed_def op_returned check_ticket_def)

lemma no_callback_error:
  "select_prefix ps ts v eos m \<noteq> Inl CallbackError" "hybrid_commit_verified h r tokens \<noteq> Inl CallbackError"
  "adopt_packed t k segment g \<noteq> (Inl CallbackError, g')" "commit_limit forced b p n \<noteq> Inl CallbackError"
  by (auto simp: select_prefix_def hybrid_commit_verified_def hybrid_validate_def lookup_commit_def adopt_packed_def
      check_ticket_def commit_limit_def block_accept_limit_def extent_accept_limit_def extent_def
      rbind_def op_raised op_returned Let_def split: if_splits prod.splits sum.splits)

text \<open>What a commit of a ticket publishes: the decision over the capped rows, or nothing.\<close>

lemma commit_ticket_outcome:
  assumes "commit_ticket dv me r t rows (Some m) g = (res, g')"
  shows "res = Inr d \<Longrightarrow> 1 \<le> m \<and> select_prefix (slice 1 (nat m) (t_tokens t)) (take (nat m) rows) (s_vocab_size (rg_session g))
        (s_eos_ids (rg_session g)) (int (s_verifier_rows (rg_session g)) - 1) = Inr d
      \<and> s_position (rg_session g') = s_position (rg_session g) + length (d_emitted d)
      \<and> s_emitted (rg_session g') = s_emitted (rg_session g) @ d_emitted d
      \<and> (\<exists>g1. runtime_publish dv me (int (length (d_emitted d))) (in_phase Committing g) = (Inr (), g1)
           \<and> rg_runtime g' = rg_runtime g1)"
    and "res = Inl CallbackError \<Longrightarrow> \<exists>n e. 1 \<le> n \<and> int n \<le> m
      \<and> fst (runtime_publish dv me (int n) (in_phase Committing g)) = Inl e"
proof -
  let ?s = "rg_session g" and ?pub = "\<lambda>n. runtime_publish dv me (int n) (in_phase Committing g)"
  let ?cb = "\<lambda>n. callback_of (fst (?pub n))"
  obtain s' where sc: "session_commit ?s r t rows ?cb (Some m) = (res, s')"
    and g': "g' = (case published_prefix ?s r t rows (Some m) of None \<Rightarrow> g | Some n \<Rightarrow> snd (?pub n))\<lparr>rg_session := s'\<rparr>"
    using assms by (auto simp: commit_ticket_def Let_def split: prod.splits)
  {
    assume d: "res = Inr d"
    note c = session_commit_Inr [OF sc [unfolded d]]
    have p: "published_prefix ?s r t rows (Some m) = Some (d_state_rows d)" using commit_cases [OF sc] d by auto
    have sel: "select_prefix (slice 1 (nat m) (t_tokens t)) (take (nat m) rows) (s_vocab_size ?s) (s_eos_ids ?s)
        (int (s_verifier_rows ?s) - 1) = Inr d"
      using c(3) by (simp add: commit_inputs_def)
    obtain g1 where "?pub (d_state_rows d) = (Inr (), g1)"
      using c(2) by (cases "?pub (d_state_rows d)") (auto simp: callback_of_def split: sum.splits)
    then show "1 \<le> m \<and> select_prefix (slice 1 (nat m) (t_tokens t)) (take (nat m) rows) (s_vocab_size ?s)
        (s_eos_ids ?s) (int (s_verifier_rows ?s) - 1) = Inr d
      \<and> s_position (rg_session g') = s_position ?s + length (d_emitted d)
      \<and> s_emitted (rg_session g') = s_emitted ?s @ d_emitted d
      \<and> (\<exists>g1. ?pub (length (d_emitted d)) = (Inr (), g1) \<and> rg_runtime g' = rg_runtime g1)"
      using sel c(4) c(5) [OF refl] p select_prefix_bounds(3) [OF sel] by (auto simp: g')
  }
  assume e: "res = Inl CallbackError"
  have "\<exists>d. select_prefix (slice 1 (nat m) (t_tokens t)) (take (nat m) rows) (s_vocab_size ?s) (s_eos_ids ?s)
      (int (s_verifier_rows ?s) - 1) = Inr d \<and> ?cb (d_state_rows d) = Raises
      \<and> m \<le> int (length (t_tokens t)) \<and> 1 \<le> m"
    using sc [unfolded e] no_callback_error(1,2)
    by (auto simp: session_commit_def Let_def split: if_splits sum.splits callback.splits)
  then obtain d where sel: "select_prefix (slice 1 (nat m) (t_tokens t)) (take (nat m) rows) (s_vocab_size ?s) (s_eos_ids ?s)
      (int (s_verifier_rows ?s) - 1) = Inr d" and cb: "?cb (d_state_rows d) = Raises"
    and m: "m \<le> int (length (t_tokens t))" "1 \<le> m" by blast
  have "length (slice 1 (nat m) (t_tokens t)) + 1 \<le> nat m" using m by (simp add: slice_def)
  then have "1 \<le> d_state_rows d" "int (d_state_rows d) \<le> m"
    using select_prefix_bounds(1,2,3) [OF sel] m by auto
  moreover obtain x where "fst (?pub (d_state_rows d)) = Inl x"
    using cb by (auto simp: callback_of_def split: sum.splits)
  ultimately show "\<exists>n e. 1 \<le> n \<and> int n \<le> m \<and> fst (?pub n) = Inl e" by blast
qed

lemma runtime_publish_position:
  assumes "runtime_publish dv me (int n) g = (Inr u, g')"
  shows "rt_position (rg_runtime g') = rt_position (rg_runtime g) + n"
    and "s_pending (rg_session g) = Some t \<Longrightarrow> rt_position (rg_runtime g) = t_position t"
  using assms engine_publish_frame(2) commit_history_frame(4)
  by (fastforce simp: runtime_publish_def op_returned split: if_splits option.splits)+

lemma abort_ticket_outcome:
  assumes "abort_ticket dv me r t g = (Inr u, g')"
  shows "s_position (rg_session g') = s_position (rg_session g) \<and> s_emitted (rg_session g') = s_emitted (rg_session g)
    \<and> rt_position (rg_runtime g') = t_position t"
proof -
  let ?s = "rg_session g" and ?pub = "runtime_publish dv me (int 0) (in_phase Committing g)"
  obtain s' where sa: "session_abort ?s r t (\<lambda>n. callback_of (fst (runtime_publish dv me (int n) (in_phase Committing g)))) = (Inr u, s')"
    and g': "g' = (if ticket_live ?s r t then snd ?pub else g)\<lparr>rg_session := s'\<rparr>"
    using assms by (auto simp: abort_ticket_def Let_def split: prod.splits)
  have live: "ticket_live ?s r t" and cb: "callback_of (fst ?pub) = Returns_None"
    and s': "s_position s' = s_position ?s" "s_emitted s' = s_emitted ?s"
    using abort_cases [OF sa] by auto
  obtain g1 where pub: "?pub = (Inr (), g1)"
    using cb by (cases ?pub) (auto simp: callback_of_def split: sum.splits)
  have "s_pending (rg_session (in_phase Committing g)) = Some t" using live by (simp add: ticket_live_def)
  then show ?thesis using runtime_publish_position [OF pub] live s' pub by (simp add: g')
qed

text \<open>What a commit does once the block's rows are adopted and its limit is read.\<close>

abbreviation settle_entry where
  "settle_entry dv e cancelled rows limit \<equiv> op_bind (op_read (\<lambda>_. cancelled)) (\<lambda>c.
     if c then op_then (abort_ticket dv (pe_engine e) (pe_request_id e) (pe_ticket e))
              (op_then (op_update set_cancelled) (\<lambda>g. (Inr (output_of (pe_request_id e) [] True True g), g)))
     else op_bind (commit_ticket dv (pe_engine e) (pe_request_id e) (pe_ticket e) rows limit) (\<lambda>d g.
            (Inr (output_of (pe_request_id e) (d_emitted d) (s_finished (rg_session g)) False g), g)))"

lemma commit_entry_settles:
  assumes "commit_entry dv forced k e segment rows cancelled g = (r, g')" and "bl_extent (nv_blocks (rg_native g) k)"
  shows "(\<exists>x. r = Inl x \<and> x \<noteq> CallbackError)
    \<or> (\<exists>u g1. adopt_packed (pe_ticket e) k segment g = (Inr u, g1)
        \<and> settle_entry dv e cancelled rows (Some (commit_cap forced (nv_blocks (rg_native g) k) (int (t_position (pe_ticket e))))) g1
            = (r, g')
        \<and> returned (commit_limit forced (nv_blocks (rg_native g) k) (int (t_position (pe_ticket e))) (bl_rows (nv_blocks (rg_native g) k))))"
proof -
  let ?b = "nv_blocks (rg_native g) k" and ?t = "pe_ticket e"
  let ?p = "int (t_position ?t)"
  obtain q g1 where ad: "adopt_packed ?t k segment g = (q, g1)" by force
  show ?thesis
  proof (cases q)
    case (Inl x)
    then have "r = Inl x" using assms(1) ad by (simp add: commit_entry_def Let_def op_then_def op_bind_def)
    then show ?thesis using no_callback_error(3) [of ?t k segment g g1] ad Inl by auto
  next
    case (Inr u)
    note a = adopt_packed_returns [OF ad [unfolded Inr]]
    have run: "op_bind (op_read (\<lambda>g. commit_limit forced (nv_blocks (rg_native g) k) ?p (int (length (t_tokens ?t)))))
        (settle_entry dv e cancelled rows) g1 = (r, g')"
      using assms(1) ad Inr by (simp add: commit_entry_def Let_def op_then_def op_bind_def)
    show ?thesis
    proof (cases "commit_limit forced ?b ?p (bl_rows ?b)")
      case (Inl x)
      then have "r = Inl x" using run a by (simp add: op_bind_def)
      then show ?thesis using no_callback_error(4) [of forced ?b ?p "bl_rows ?b"] Inl by auto
    next
      case (Inr limit)
      then show ?thesis using run a commit_limit_extent(1) [OF assms(2) Inr] ad \<open>q = Inr u\<close>
        by (auto simp: op_bind_def returned_def)
    qed
  qed
qed

lemma commit_ticket_advances:
  assumes "adopt_packed t k segment g = (Inr u, g1)"
    and "commit_ticket dv me ident t rows (Some (commit_cap forced (nv_blocks (rg_native g) k) (int (t_position t)))) g1 = (Inr d, g2)"
  defines "m \<equiv> commit_cap forced (nv_blocks (rg_native g) k) (int (t_position t))"
  shows "1 \<le> length (d_emitted d)" and "int (length (d_emitted d)) \<le> m"
    and "select_prefix (slice 1 (nat m) (t_tokens t)) (take (nat m) rows) (s_vocab_size (rg_session g)) (s_eos_ids (rg_session g))
      (int (s_verifier_rows (rg_session g)) - 1) = Inr d"
    and "rt_position (rg_runtime g2) = t_position t + length (d_emitted d)"
    and "s_position (rg_session g2) = s_position (rg_session g) + length (d_emitted d)"
    and "s_emitted (rg_session g2) = s_emitted (rg_session g) @ d_emitted d"
proof -
  note a = adopt_packed_returns [OF assms(1)]
  obtain h where h: "1 \<le> m" "select_prefix (slice 1 (nat m) (t_tokens t)) (take (nat m) rows) (s_vocab_size (rg_session g))
      (s_eos_ids (rg_session g)) (int (s_verifier_rows (rg_session g)) - 1) = Inr d"
    "s_position (rg_session g2) = s_position (rg_session g) + length (d_emitted d)"
    "s_emitted (rg_session g2) = s_emitted (rg_session g) @ d_emitted d"
    "runtime_publish dv me (int (length (d_emitted d))) (in_phase Committing g1) = (Inr (), h)"
    "rg_runtime g2 = rg_runtime h"
    using commit_ticket_outcome(1) [OF assms(2) refl] a unfolding m_def by auto
  show "1 \<le> length (d_emitted d)" "int (length (d_emitted d)) \<le> m"
    using select_prefix_bounds(1,2) [OF h(2)] a(4) commit_cap_bounds(1) [of forced "nv_blocks (rg_native g) k" "int (t_position t)"] h(1)
    unfolding m_def by (auto simp: slice_def)
  have "s_pending (rg_session (in_phase Committing g1)) = Some t"
    using assms(1) by (auto simp: adopt_packed_def op_returned check_ticket_def ticket_live_def)
  then show "rt_position (rg_runtime g2) = t_position t + length (d_emitted d)"
    using runtime_publish_position [OF h(5)] h(6) by simp
  show "select_prefix (slice 1 (nat m) (t_tokens t)) (take (nat m) rows) (s_vocab_size (rg_session g)) (s_eos_ids (rg_session g))
      (int (s_verifier_rows (rg_session g)) - 1) = Inr d"
    "s_position (rg_session g2) = s_position (rg_session g) + length (d_emitted d)"
    "s_emitted (rg_session g2) = s_emitted (rg_session g) @ d_emitted d"
    using h by simp_all
qed

text \<open>C28: a packed commit stays inside its mask family. On the extent path, let m be the ticket's rows cut at the
  256-token family end of its start and at the gate's forced cap. A commit that returns emits the greedy
  decision over the first m rows, at least one token and at most m, or none when the request was
  cancelled; the session and the runtime advance by exactly that many, which never passes the family end.
  And the block's own cap is unreachable: when the block recorded the ticket's start, a commit that
  fails in its publication fails at a prefix that cap lets through.\<close>

theorem commit_stays_within_family:
  assumes "commit_entry dv forced k e segment rows cancelled g = (r, g')" and "bl_extent (nv_blocks (rg_native g) k)"
  shows "let b = nv_blocks (rg_native g) k; t = pe_ticket e; p = int (t_position t); m = commit_cap forced b p; s = rg_session g
    in case r of
      Inr out \<Rightarrow> (if cancelled = Inr True then co_token_ids out = []
          else 1 \<le> length (co_token_ids out) \<and> int (length (co_token_ids out)) \<le> m
            \<and> (\<exists>d. select_prefix (slice 1 (nat m) (t_tokens t)) (take (nat m) rows) (s_vocab_size s) (s_eos_ids s)
                    (int (s_verifier_rows s) - 1) = Inr d \<and> co_token_ids out = d_emitted d))
        \<and> p + int (length (co_token_ids out)) \<le> (p div 256 + 1) * 256
        \<and> rt_position (rg_runtime g') = t_position t + length (co_token_ids out)
        \<and> s_position (rg_session g') = s_position s + length (co_token_ids out)
        \<and> s_emitted (rg_session g') = s_emitted s @ co_token_ids out
    | Inl err \<Rightarrow> err = CallbackError \<and> cancelled = Inr False \<and> map_of (bl_starts b) segment = Some p
        \<longrightarrow> (\<exists>n x. 1 \<le> n \<and> check_extent_cap b segment (int n) = Inr ()
              \<and> fst (runtime_publish dv (pe_engine e) (int n) (in_phase Committing (snd (adopt_packed t k segment g)))) = Inl x)"
proof -
  let ?b = "nv_blocks (rg_native g) k" and ?t = "pe_ticket e" and ?me = "pe_engine e" and ?id = "pe_request_id e"
  let ?p = "int (t_position ?t)"
  let ?m = "commit_cap forced ?b ?p"
  consider x where "r = Inl x" "x \<noteq> CallbackError"
    | u g1 where "adopt_packed ?t k segment g = (Inr u, g1)" "settle_entry dv e cancelled rows (Some ?m) g1 = (r, g')"
        "returned (commit_limit forced ?b ?p (bl_rows ?b))"
    using commit_entry_settles [OF assms] by blast
  then show ?thesis
  proof cases
    case 1
    then show ?thesis by (simp add: Let_def)
  next
    case 2
    note ad = 2(1) and run = 2(2)
    obtain limit where limit: "commit_limit forced ?b ?p (bl_rows ?b) = Inr limit" using 2(3) by (auto simp: returned_iff)
    have family: "?p \<le> (?p div 256 + 1) * 256" by simp
    consider x where "cancelled = Inl x" | "cancelled = Inr True" | "cancelled = Inr False" by (metis sum.exhaust)
    then show ?thesis
    proof cases
      case 1
      then show ?thesis using run by (auto simp: op_bind_def Let_def)
    next
      case 2
      then show ?thesis
        using run adopt_packed_returns [OF ad] abort_ticket_outcome [of dv ?me ?id ?t g1] family
        by (auto simp: op_bind_def op_then_def Let_def output_of_def set_cancelled_def split: prod.splits sum.splits)
    next
      case 3
      obtain v g2 where com: "commit_ticket dv ?me ?id ?t rows (Some ?m) g1 = (v, g2)" by force
      show ?thesis
      proof (cases v)
        case (Inl x)
        then have "r = Inl x" using run com 3 by (simp add: op_bind_def)
        then show ?thesis using commit_ticket_outcome(2) [OF com] Inl commit_limit_extent(2) [OF assms(2) limit] ad
          by (fastforce simp: Let_def)
      next
        case (Inr d)
        then have r: "r = Inr (output_of ?id (d_emitted d) (s_finished (rg_session g2)) False g2)" "g' = g2"
          using run com 3 by (auto simp: op_bind_def)
        show ?thesis
          using commit_ticket_advances [OF ad com [unfolded Inr]] r 3 commit_cap_bounds(2) [of ?p forced ?b]
          by (simp add: Let_def output_of_def)
      qed
    qed
  qed
qed

text \<open>A T16 ticket at 250 whose sixteen rows are all accepted: six tokens are committed, up to the family end.\<close>

definition edge_ticket :: block_ticket where
  "edge_ticket = \<lparr>t_ref = 0, t_request_id = ''r'', t_epoch = 0, t_position = 250,
     t_tokens = [0, 1, 2, 0, 1, 2, 0, 1, 2, 0, 1, 2, 0, 1, 2, 0], t_source = ''draft'', t_match_length = 0\<rparr>"

definition edge_entry :: packed_entry where
  "edge_entry = \<lparr>pe_engine = 0, pe_request_id = ''r'', pe_ticket = edge_ticket\<rparr>"

definition edge_rig :: "(int list, int list \<times> int list) rig" where
  "edge_rig = (let g = projr demo_request in
     on_native (\<lambda>n. n\<lparr>nv_blocks := (\<lambda>_. demo_block\<lparr>bl_phase := B_Verified, bl_extent := True, bl_pending := [0],
         bl_starts := [(0, 250)], bl_records := [(0, (demo_prompt, t_tokens edge_ticket))]\<rparr>)\<rparr>)
      (g\<lparr>rg_session := (rg_session g)\<lparr>s_position := 250, s_max_new_tokens := 300, s_phase := Pending, s_pending := Some edge_ticket\<rparr>,
         rg_engine := (rg_engine g)\<lparr>en_position := 250, en_phase := E_Idle, en_pending := None, en_carry := Some demo_prompt\<rparr>,
         rg_runtime := (rg_runtime g)\<lparr>rt_position := 250, rt_drafter_position := 250\<rparr>\<rparr>))"

definition edge_commit :: "committed_output result \<times> (int list, int list \<times> int list) rig" where
  "edge_commit = commit_entry demo_device (Some 9) 0 edge_entry 0 [1, 2, 0, 1, 2, 0, 1, 2, 0, 1, 2, 0, 1, 2, 0, 1] (Inr False) edge_rig"

lemma edge_values:
  "returned (fst edge_commit)" "commit_cap (Some 9) (nv_blocks (rg_native edge_rig) 0) 250 = 6"
  "bl_extent (nv_blocks (rg_native edge_rig) 0)" "s_position (rg_session edge_rig) = 250"
  "slice 1 6 (t_tokens edge_ticket) = [1, 2, 0, 1, 2]" "t_position edge_ticket = 250"
  "s_vocab_size (rg_session edge_rig) = 100" "s_eos_ids (rg_session edge_rig) = []" "s_verifier_rows (rg_session edge_rig) = 16"
  by code_simp+

theorem commit_stays_within_family_witness:
  "co_token_ids (projr (fst edge_commit)) = [1, 2, 0, 1, 2, 0] \<and> s_position (rg_session (snd edge_commit)) = 256"
proof -
  have "fst edge_commit = Inr (projr (fst edge_commit))" using edge_values(1) by (rule returned_projr)
  then have run: "commit_entry demo_device (Some 9) 0 edge_entry 0 [1, 2, 0, 1, 2, 0, 1, 2, 0, 1, 2, 0, 1, 2, 0, 1] (Inr False) edge_rig
      = (Inr (projr (fst edge_commit)), snd edge_commit)"
    by (metis edge_commit_def prod.collapse)
  have "select_prefix [1, 2, 0, 1, 2] [1, 2, 0, 1, 2, 0] 100 [] 15
      = Inr \<lparr>d_emitted = [1, 2, 0, 1, 2, 0], d_accepted = 5, d_state_rows = 6, d_next_input = Some 0, d_finished = False\<rparr>"
    by code_simp
  then show ?thesis
    using commit_stays_within_family [OF run edge_values(3)] edge_values(2,4-9)
    by (simp add: Let_def edge_entry_def)
qed

subsection \<open>The K/V guard\<close>

text \<open>The tile rows of the \<open>i\<close>th user, and an owner table that names every row of the users before \<open>user\<close>.\<close>

definition rows_at :: "(int list \<times> int list) list \<Rightarrow> nat \<Rightarrow> (int \<times> int) set" where
  "rows_at users i = set (projr (kv_tile_rows (fst (users ! i)) (snd (users ! i))))"

definition owned_rows :: "(nat \<Rightarrow> (int \<times> int) set) \<Rightarrow> nat \<Rightarrow> ((int \<times> int) \<times> nat) list \<Rightarrow> bool" where
  "owned_rows rows user table \<longleftrightarrow> (\<forall>key u. map_of table key = Some u \<longleftrightarrow> u < user \<and> key \<in> rows u)"

lemma kv_scan_clear:
  "kv_scan user keys table = (None, table') \<Longrightarrow> map_of table' key = (if key \<in> set keys then Some user else map_of table key)
    \<and> (key \<in> set keys \<longrightarrow> map_of table key \<in> {None, Some user})"
proof (induction user keys table arbitrary: table' rule: kv_scan.induct)
  case (2 user k ks table)
  then show ?case by (cases "map_of table k") (auto simp: map_add_def split: if_splits option.splits)
qed simp

lemma kv_scan_conflict:
  "kv_scan user keys table = (Some (a, b, key), table') \<Longrightarrow> b = user \<and> a \<noteq> user \<and> key \<in> set keys \<and> map_of table key = Some a"
proof (induction user keys table rule: kv_scan.induct)
  case (2 user k ks table)
  then show ?case by (cases "map_of table k") (auto simp: map_add_def split: if_splits option.splits)
qed simp

lemma kv_conflict_from_sound:
  assumes "kv_conflict_from user table users = Inr c" and "owned_rows rows user table"
    and "\<And>i. i < length users \<Longrightarrow> rows (user + i) = rows_at users i"
  shows "(c = None \<longrightarrow> (\<forall>j < user + length users. \<forall>i < j. user \<le> j \<longrightarrow> rows i \<inter> rows j = {}))
    \<and> (\<forall>a b key. c = Some (a, b, key) \<longrightarrow> a < b \<and> user \<le> b \<and> b < user + length users \<and> key \<in> rows a \<inter> rows b)"
  using assms
proof (induction user table users rule: kv_conflict_from.induct)
  case (2 user table positions blocks users)
  obtain keys where keys: "kv_tile_rows positions blocks = Inr keys"
    and rest: "(case kv_scan user keys table of (Some conflict, _) \<Rightarrow> Inr (Some conflict)
        | (None, table) \<Rightarrow> kv_conflict_from (Suc user) table users) = Inr c"
    using 2(2) by (auto simp: rbind_Inr_iff)
  have mine: "rows user = set keys" using 2(4) [of 0] keys by (simp add: rows_at_def)
  have later: "rows (Suc user + i) = rows_at users i" if "i < length users" for i
    using 2(4) [of "Suc i"] that by (simp add: rows_at_def)
  obtain found table' where scan: "kv_scan user keys table = (found, table')" by force
  show ?case
  proof (cases found)
    case None
    then have s: "kv_scan user keys table = (None, table')" using scan by simp
    have clear: "rows i \<inter> rows user = {}" if "i < user" for i
    proof (rule ccontr)
      assume "rows i \<inter> rows user \<noteq> {}"
      then obtain key where "key \<in> rows i" "key \<in> set keys" using mine by blast
      then have "map_of table key = Some i" using 2(3) that unfolding owned_rows_def by blast
      then show False using kv_scan_clear [OF s, of key] \<open>key \<in> set keys\<close> that by auto
    qed
    have "owned_rows rows (Suc user) table'"
      using 2(3) kv_scan_clear [OF s] clear mine unfolding owned_rows_def by (auto simp: less_Suc_eq) blast+
    then have "(c = None \<longrightarrow> (\<forall>j < Suc user + length users. \<forall>i < j. Suc user \<le> j \<longrightarrow> rows i \<inter> rows j = {}))
      \<and> (\<forall>a b key. c = Some (a, b, key) \<longrightarrow> a < b \<and> Suc user \<le> b \<and> b < Suc user + length users \<and> key \<in> rows a \<inter> rows b)"
      using 2(1) [OF s [symmetric] refl] rest s later by simp
    then have h: "c = None \<Longrightarrow> j < Suc user + length users \<Longrightarrow> i < j \<Longrightarrow> Suc user \<le> j \<Longrightarrow> rows i \<inter> rows j = {}"
      and k: "c = Some (a, b, key) \<Longrightarrow> a < b \<and> Suc user \<le> b \<and> b < Suc user + length users \<and> key \<in> rows a \<inter> rows b"
      for i j a b key by blast+
    have "rows i \<inter> rows j = {}" if "c = None" "j < user + length ((positions, blocks) # users)" "i < j" "user \<le> j" for i j
      using that h [of j i] clear [of i] by (cases "j = user") auto
    moreover have "a < b \<and> user \<le> b \<and> b < user + length ((positions, blocks) # users) \<and> key \<in> rows a \<inter> rows b"
      if "c = Some (a, b, key)" for a b key using k [OF that] by simp
    ultimately show ?thesis by blast
  next
    case (Some conflict)
    obtain a b key where conflict: "conflict = (a, b, key)" by (cases conflict) auto
    note e = kv_scan_conflict [OF scan [unfolded Some conflict]]
    have "a < user \<and> key \<in> rows a" using e 2(3) unfolding owned_rows_def by blast
    then show ?thesis using e rest scan mine Some conflict by auto
  qed
qed simp

text \<open>C34: The K/V guard of a packed round is exact: it passes only if no two of the round's users write a common tile row
  of a page (so no write of one can tear another's), and the conflict it reports names two different users, the first
  before the second, and a tile row that both write.\<close>

theorem kv_guard_is_exact:
  assumes run: "kv_conflict users = Inr c"
  shows "(c = None \<longrightarrow> (\<forall>j < length users. \<forall>i < j. rows_at users i \<inter> rows_at users j = {}))
    \<and> (\<forall>a b key. c = Some (a, b, key) \<longrightarrow> a < b \<and> b < length users \<and> key \<in> rows_at users a \<inter> rows_at users b)"
proof -
  have "owned_rows (rows_at users) 0 []" by (simp add: owned_rows_def)
  from kv_conflict_from_sound [OF run [unfolded kv_conflict_def] this] show ?thesis by simp
qed

text \<open>Two users on pages of their own, and two whose positions fall in one tile row of page 5.\<close>

theorem kv_guard_is_exact_witness:
  "rows_at [([0, 1], [4]), ([70], [4, 5])] 0 \<inter> rows_at [([0, 1], [4]), ([70], [4, 5])] 1 = {}
    \<and> (5, 0) \<in> rows_at [([0, 1], [5]), ([70], [4, 5])] 0 \<inter> rows_at [([0, 1], [5]), ([70], [4, 5])] 1"
proof -
  have a: "kv_conflict [([0, 1], [4]), ([70], [4, 5])] = Inr None" by code_simp
  have b: "kv_conflict [([0, 1], [5]), ([70], [4, 5])] = Inr (Some (0, 1, (5, 0)))" by code_simp
  show ?thesis using kv_guard_is_exact [OF a] kv_guard_is_exact [OF b] by auto
qed

end
