(* ===== verification/SchedulerContract.thy ===== *)
theory SchedulerContract
  imports RoundPolicy
begin

text \<open>
  What the scheduler hands the worker for one step, and the contracts a decode step must meet before any
  device work: \<open>scripts/ci/serving_vllm_contract.py\<close> for one resident request and
  \<open>serving_vllm_packed.py\<close> for several, with the outputs the worker answers.

  \<open>sched_step\<close> holds the fields of vLLM's SchedulerOutput the code reads. A request is named by its engine's
  identity, as in \<open>PackedRound\<close>; the texts of refusals are left out and their kinds are kept.
\<close>

record sched_step =
  sc_new :: "string list"
  sc_finished :: "string list"
  sc_preempted :: "string list"
  sc_structured :: bool
  sc_encoder :: bool
  sc_cached :: "string list"
  sc_resumed :: "string list"
  sc_computed :: "int list"
  sc_counts :: "(string \<times> int) list"
  sc_total :: int
  sc_drafts :: "(string \<times> int list) list"

text \<open>Equality of two Python dictionaries.\<close>

definition same_dict :: "('k \<times> 'v) list \<Rightarrow> ('k \<times> 'v) list \<Rightarrow> bool" where
  "same_dict d e \<longleftrightarrow> list_all (\<lambda>k. map_of d k = map_of e k) (map fst d @ map fst e)"

lemma same_dict_iff: "same_dict d e \<longleftrightarrow> map_of d = map_of e"
proof
  assume s: "same_dict d e"
  show "map_of d = map_of e"
  proof
    fix k
    show "map_of d k = map_of e k"
    proof (cases "k \<in> fst ` set d \<union> fst ` set e")
      case True
      then show ?thesis using s by (auto simp: same_dict_def list_all_iff)
    next
      case False
      then have "map_of d k = None" "map_of e k = None" by (simp_all add: map_of_None_keys)
      then show ?thesis by simp
    qed
  qed
qed (simp add: same_dict_def list_all_iff)

subsection \<open>Tickets\<close>

definition prepared_ticket :: "('s, 'r) rig \<Rightarrow> block_ticket result" where
  "prepared_ticket g =
     (let s = rg_session g
      in if rg_closed g \<or> rg_cancelled g \<or> rg_busy g \<or> s_phase s \<noteq> Pending \<or> en_phase (rg_engine g) \<noteq> E_Idle
         then Inl ValueError
         else case s_pending s of
                None \<Rightarrow> Inl ValueError
              | Some ticket \<Rightarrow> if t_request_id ticket \<noteq> s_request_id s \<or> t_position ticket \<noteq> s_position s
                               then Inl ValueError else Inr ticket)"

text \<open>vLLM's DraftTokenIds: the request ids and, for each, its draft tokens.\<close>

record draft_ids =
  df_requests :: "string list"
  df_tokens :: "int list list"

definition draft_token_ids :: "('s, 'r) rig \<Rightarrow> draft_ids result" where
  "draft_token_ids g = rbind (prepared_ticket g) (\<lambda>ticket.
     Inr \<lparr>df_requests = [t_request_id ticket], df_tokens = [tl (t_tokens ticket)]\<rparr>)"

subsection \<open>One resident request\<close>

datatype step_refusal = New_Requests "string list" | Finished_Live "string list" | Preempted "string list"
  | Structured_Output | Encoder_Inputs | Other_Cached "string list" | Resumed string | Other_Frontier "int list"
  | No_Cached | Duplicate_Order "string list"

definition step_refusals :: "sched_step \<Rightarrow> string list \<Rightarrow> step_refusal list" where
  "step_refusals step live =
     (if sc_new step \<noteq> [] then [New_Requests (sc_new step)] else [])
   @ (let finished = filter (\<lambda>r. r \<in> set live) (remdups (sc_finished step))
      in if finished \<noteq> [] then [Finished_Live finished] else [])
   @ (if sc_preempted step \<noteq> [] then [Preempted (sc_preempted step)] else [])
   @ (if sc_structured step then [Structured_Output] else [])
   @ (if sc_encoder step then [Encoder_Inputs] else [])"

definition expected_drafts :: "string \<Rightarrow> block_ticket \<Rightarrow> (string \<times> int list) list" where
  "expected_drafts r ticket = (if length (t_tokens ticket) > 1 then [(r, tl (t_tokens ticket))] else [])"

definition admit_scheduler_output :: "sched_step \<Rightarrow> ('s, 'r) rig \<Rightarrow> block_ticket result" where
  "admit_scheduler_output step g = rbind (prepared_ticket g) (\<lambda>ticket.
     let r = t_request_id ticket; rows = int (length (t_tokens ticket));
         found = step_refusals step [r]
           @ (if sc_cached step \<noteq> [r] then [Other_Cached (sc_cached step)] else [])
           @ (if r \<in> set (sc_resumed step) then [Resumed r] else [])
           @ (if sc_computed step \<noteq> [int (t_position ticket)] then [Other_Frontier (sc_computed step)] else [])
     in if found \<noteq> [] then Inl ValueError
        else if set (map fst (sc_counts step)) \<noteq> {r} \<or> map_of (sc_counts step) r \<noteq> Some rows
                \<or> sc_total step \<noteq> rows then Inl ValueError
        else if \<not> same_dict (sc_drafts step) (expected_drafts r ticket) then Inl ValueError
        else Inr ticket)"

text \<open>vLLM's ModelRunnerOutput.\<close>

record runner_output =
  ro_requests :: "string list"
  ro_index :: "(string \<times> nat) list"
  ro_sampled :: "int list list"

definition model_runner_output :: "committed_output \<Rightarrow> runner_output" where
  "model_runner_output out =
     \<lparr>ro_requests = [co_request_id out], ro_index = [(co_request_id out, 0)], ro_sampled = [co_token_ids out]\<rparr>"

definition execute_scheduled ::
  "('s, 'r) device \<Rightarrow> nat \<Rightarrow> sched_step \<Rightarrow> bool result \<Rightarrow> bool result \<Rightarrow> ('s, 'r, committed_output) rig_op" where
  "execute_scheduled dv me step first second =
     op_bind (op_read (admit_scheduler_output step)) (\<lambda>ticket. request_step dv me (t_request_id ticket) first second)"

subsection \<open>Several resident requests\<close>

fun tickets_by_id :: "nat list \<Rightarrow> (string \<times> nat \<times> block_ticket) list \<Rightarrow> ('s, 'r) world
    \<Rightarrow> (string \<times> nat \<times> block_ticket) list result" where
  "tickets_by_id [] found w = Inr found"
| "tickets_by_id (me # requests) found w = rbind (check_rig me prepared_ticket w) (\<lambda>ticket.
     if map_of found (t_request_id ticket) \<noteq> None then Inl ValueError
     else tickets_by_id requests (found @ [(t_request_id ticket, me, ticket)]) w)"

text \<open>One entry of the step, in the scheduler's order.\<close>

definition ordered_entry ::
  "sched_step \<Rightarrow> (string \<times> nat \<times> block_ticket) list \<Rightarrow> string \<times> int \<Rightarrow> packed_entry result" where
  "ordered_entry step by_id = (\<lambda>(r, position).
     case map_of by_id r of
       None \<Rightarrow> Inl KeyError
     | Some (me, ticket) \<Rightarrow>
         if r \<in> set (sc_resumed step) \<or> position \<noteq> int (t_position ticket) then Inl ValueError
         else Inr \<lparr>pe_engine = me, pe_request_id = r, pe_ticket = ticket\<rparr>)"

definition ordered_tickets :: "nat list \<Rightarrow> sched_step \<Rightarrow> ('s, 'r) world \<Rightarrow> packed_entry list result" where
  "ordered_tickets requests step w = rbind (tickets_by_id requests [] w) (\<lambda>by_id.
     let order = sc_cached step;
         found = step_refusals step (map fst by_id)
           @ (if order = [] then [No_Cached] else if \<not> distinct order then [Duplicate_Order order] else [])
     in if found \<noteq> [] then Inl ValueError
        else if set (map fst by_id) \<noteq> set order then Inl ValueError
        else if length (sc_computed step) \<noteq> length order then Inl ValueError
        else those_results (map (ordered_entry step by_id) (zip order (sc_computed step))))"

definition admit_packed_scheduler_output :: "nat list \<Rightarrow> sched_step \<Rightarrow> ('s, 'r) world \<Rightarrow> packed_entry list result" where
  "admit_packed_scheduler_output requests step w = rbind (ordered_tickets requests step w) (\<lambda>entries.
     let counts = map (\<lambda>e. (pe_request_id e, int (length (t_tokens (pe_ticket e))))) entries;
         drafts = concat (map (\<lambda>e. expected_drafts (pe_request_id e) (pe_ticket e)) entries)
     in if \<not> same_dict (sc_counts step) counts \<or> sc_total step \<noteq> sum_list (map snd counts) then Inl ValueError
        else if \<not> same_dict (sc_drafts step) drafts then Inl ValueError
        else Inr entries)"

definition packed_draft_token_ids :: "nat list \<Rightarrow> string list option \<Rightarrow> ('s, 'r) world \<Rightarrow> draft_ids result" where
  "packed_draft_token_ids requests order w =
     rbind (those_results (map (\<lambda>me. check_rig me prepared_ticket w) requests)) (\<lambda>tickets.
     let by_id = rev (map (\<lambda>t. (t_request_id t, t)) tickets)
     in if \<not> distinct (map t_request_id tickets) then Inl ValueError
        else rbind (case order of None \<Rightarrow> Inr tickets
                    | Some ids \<Rightarrow> those_results (map (\<lambda>r. case map_of by_id r of None \<Rightarrow> Inl KeyError | Some t \<Rightarrow> Inr t) ids))
          (\<lambda>chosen. Inr \<lparr>df_requests = map t_request_id chosen, df_tokens = map (\<lambda>t. tl (t_tokens t)) chosen\<rparr>))"

definition packed_model_runner_output :: "committed_output list \<Rightarrow> runner_output result" where
  "packed_model_runner_output outs =
     (let ids = map co_request_id outs
      in if ids = [] \<or> \<not> distinct ids then Inl ValueError
         else Inr \<lparr>ro_requests = ids, ro_index = zip ids [0..<length ids], ro_sampled = map co_token_ids outs\<rparr>)"

end
