(* ===== verification/RunnerState.thy ===== *)
theory RunnerState
  imports SchedulerContract
begin

text \<open>
  The runner's record of its requests and what a decode step reads and writes of it,
  \<open>scripts/ci/serving_vllm_state.py\<close>; and the page tables of the captured verifier,
  \<open>serving_page_binding.py\<close>.

  A cached request state is an object the batch and the bridges share, so \<open>rn_states\<close> is a store by
  address: \<open>rn_requests\<close> names the address of a request's state, \<open>bt_outputs\<close> the address of the state
  whose output list a row shares. The lists of the batch stand for its arrays; \<open>bt_width\<close> is the
  second dimension of the token array.
\<close>

record req_state =
  rq_prompt :: "int list option"
  rq_output :: "int list"
  rq_computed :: int
  rq_blocks :: "int list list"
  rq_max_tokens :: "int option"

record input_batch =
  bt_requests :: nat
  bt_row :: "string \<Rightarrow> nat option"
  bt_outputs :: "nat list"
  bt_num_tokens :: "int list"
  bt_computed :: "int list"
  bt_tokens :: "int list list"
  bt_width :: nat

record runner =
  rn_requests :: "string \<Rightarrow> nat option"
  rn_states :: "nat \<Rightarrow> req_state"
  rn_batch :: input_batch
  rn_max_model_len :: int
  rn_vocab :: int

subsection \<open>The reservation before a step\<close>

text \<open>The row of a live captured request that shares its output list with its state, and the state's
  prompt.\<close>

definition captured_row :: "runner \<Rightarrow> nat \<Rightarrow> string \<Rightarrow> nat \<Rightarrow> (nat \<times> int list) result" where
  "captured_row rn captured r users =
     (if rn_requests rn r \<noteq> Some captured \<or> bt_requests (rn_batch rn) \<noteq> users then Inl ValueError
      else case bt_row (rn_batch rn) r of
             None \<Rightarrow> Inl ValueError
           | Some row \<Rightarrow>
               if \<not> row < users then Inl ValueError
               else rbind (py_index (bt_outputs (rn_batch rn)) row) (\<lambda>shared.
                 if shared \<noteq> captured then Inl ValueError
                 else case rq_prompt (rn_states rn captured) of
                        None \<Rightarrow> Inl ValueError | Some prompt \<Rightarrow> Inr (row, prompt)))"

definition fits_storage :: "runner \<Rightarrow> int \<Rightarrow> bool" where
  "fits_storage rn stop \<longleftrightarrow> stop \<le> rn_max_model_len rn \<and> stop \<le> int (bt_width (rn_batch rn))"

definition validate_runner_reservation :: "runner \<Rightarrow> nat \<Rightarrow> block_ticket \<Rightarrow> nat \<Rightarrow> unit result" where
  "validate_runner_reservation rn captured ticket users =
     rbind (captured_row rn captured (t_request_id ticket) users) (\<lambda>(row, prompt).
     rbind (py_index (bt_num_tokens (rn_batch rn)) row) (\<lambda>start.
       let state = rn_states rn captured; position = int (t_position ticket)
       in if start \<noteq> position + 1 \<or> start \<noteq> int (length prompt) + int (length (rq_output state)) then Inl ValueError
          else rbind (py_index (bt_computed (rn_batch rn)) row) (\<lambda>computed.
            if computed \<noteq> position \<or> rq_computed state \<noteq> position then Inl ValueError
            else if \<not> fits_storage rn (start + int (length (t_tokens ticket))) then Inl ValueError
            else Inr ())))"

subsection \<open>Applying a committed output\<close>

text \<open>\<open>row[start:end] = tokens\<close> where the slice has the tokens' length.\<close>

definition write_slice :: "nat \<Rightarrow> 'a list \<Rightarrow> 'a list \<Rightarrow> 'a list" where
  "write_slice start xs row = take start row @ xs @ drop (start + length xs) row"

definition put_state :: "nat \<Rightarrow> (req_state \<Rightarrow> req_state) \<Rightarrow> runner \<Rightarrow> runner" where
  "put_state a h rn = rn\<lparr>rn_states := (rn_states rn)(a := h (rn_states rn a))\<rparr>"

definition append_tokens :: "nat \<Rightarrow> nat \<Rightarrow> nat \<Rightarrow> int list \<Rightarrow> int \<Rightarrow> runner \<Rightarrow> runner" where
  "append_tokens captured row start tokens position rn =
     put_state captured (\<lambda>s. s\<lparr>rq_output := rq_output s @ tokens, rq_computed := position\<rparr>)
       (rn\<lparr>rn_batch := (rn_batch rn)
          \<lparr>bt_tokens := (bt_tokens (rn_batch rn))[row := write_slice start tokens (bt_tokens (rn_batch rn) ! row)],
           bt_num_tokens := (bt_num_tokens (rn_batch rn))[row := int start + int (length tokens)],
           bt_computed := (bt_computed (rn_batch rn))[row := position]\<rparr>\<rparr>)"

definition output_refused :: "runner \<Rightarrow> committed_output \<Rightarrow> bool" where
  "output_refused rn out \<longleftrightarrow> length (co_token_ids out) > 16 \<or> \<not> tokens_ok (rn_vocab rn) (co_token_ids out)
     \<or> (co_cancelled out \<and> co_token_ids out \<noteq> []) \<or> (co_token_ids out = [] \<and> \<not> co_finished out)"

definition commit_start :: "runner \<Rightarrow> nat \<Rightarrow> committed_output \<Rightarrow> nat \<Rightarrow> int list \<Rightarrow> nat result" where
  "commit_start rn captured out row prompt =
     (let tokens = int (length (co_token_ids out)); state = rn_states rn captured
      in rbind (py_index (bt_num_tokens (rn_batch rn)) row) (\<lambda>start.
           if start \<noteq> int (length prompt) + int (length (rq_output state)) then Inl ValueError
           else rbind (py_index (bt_computed (rn_batch rn)) row) (\<lambda>computed.
             if computed \<noteq> start - 1 \<or> rq_computed state \<noteq> start - 1
                \<or> int (co_position out) \<noteq> start + tokens - 1 then Inl ValueError
             else if \<not> fits_storage rn (start + tokens) then Inl ValueError
             else if co_token_ids out = [] then Inr (nat start)
             else rbind (py_index (bt_tokens (rn_batch rn)) row) (\<lambda>_. Inr (nat start)))))"

definition apply_committed_output :: "nat \<Rightarrow> committed_output \<Rightarrow> nat \<Rightarrow> (runner, unit) op" where
  "apply_committed_output captured out users rn =
     (case rbind (captured_row rn captured (co_request_id out) users) (\<lambda>(row, prompt).
             if output_refused rn out then Inl ValueError
             else rbind (commit_start rn captured out row prompt) (\<lambda>start. Inr (row, start))) of
        Inl e \<Rightarrow> (Inl e, rn)
      | Inr (row, start) \<Rightarrow>
          (Inr (), if co_token_ids out = [] then rn
                   else append_tokens captured row start (co_token_ids out) (int (co_position out)) rn))"

subsection \<open>Page tables\<close>

definition validate_initial_capture_pages ::
  "int list list \<Rightarrow> int list \<Rightarrow> int \<Rightarrow> int \<Rightarrow> int \<Rightarrow> unit result" where
  "validate_initial_capture_pages pages blocks position output_budget rows =
     (if position < 1 \<or> output_budget < 2 \<or> rows \<noteq> 16 \<or> blocks = [] \<or> \<not> distinct blocks
         \<or> (\<exists>b \<in> set blocks. b < 0) then Inl ValueError
      else case pages of
        [values] \<Rightarrow>
          if int (length values) * 64 < position + output_budget - 1 \<or> length blocks > length values
             \<or> int (length blocks) * 64 < position + min rows (output_budget - 1) then Inl ValueError
          else if take (length blocks) values \<noteq> blocks \<or> \<not> set values \<subseteq> set blocks then Inl ValueError
          else Inr ()
      | _ \<Rightarrow> Inl ValueError)"

record page_binding =
  pb_capacity :: nat
  pb_physical :: int
  pb_blocks :: "int list"
  pb_failed :: bool

definition blocks_refused :: "nat \<Rightarrow> int \<Rightarrow> int list \<Rightarrow> bool" where
  "blocks_refused capacity physical blocks \<longleftrightarrow> blocks = [] \<or> length blocks > capacity \<or> \<not> distinct blocks
     \<or> (\<exists>b \<in> set blocks. \<not> (0 \<le> b \<and> b < physical))"

definition validate_blocks :: "page_binding \<Rightarrow> int list \<Rightarrow> int list result" where
  "validate_blocks p blocks = (if blocks_refused (pb_capacity p) (pb_physical p) blocks then Inl ValueError else Inr blocks)"

text \<open>The constructor over an engine; \<open>fixtures\<close> is what the checks of the captured fixtures' metadata answer.\<close>

definition bind_pages :: "unit result \<Rightarrow> int list \<Rightarrow> int \<Rightarrow> ('s, 'r) rig \<Rightarrow> page_binding result" where
  "bind_pages fixtures blocks physical g =
     (let p = \<lparr>pb_capacity = length (en_pages (rg_engine g)), pb_physical = physical, pb_blocks = [], pb_failed = False\<rparr>
      in if en_phase (rg_engine g) \<noteq> E_Idle \<or> physical < 1 then Inl ValueError
         else rbind (validate_blocks p blocks) (\<lambda>blocks.
           if take (length blocks) (en_pages (rg_engine g)) \<noteq> blocks then Inl ValueError
           else rbind fixtures (\<lambda>_. Inr (p\<lparr>pb_blocks := blocks\<rparr>))))"

text \<open>The table the engine's rows are mapped through: its blocks, then its first block.\<close>

definition padded_table :: "nat \<Rightarrow> int list \<Rightarrow> int list" where
  "padded_table capacity blocks = blocks @ replicate (capacity - length blocks) (hd blocks)"

text \<open>What the device answers to a refresh: whether the captured tables are where they were, and the
  upload.\<close>

record page_io =
  io_in_place :: bool
  io_upload :: "unit result"

definition poison_pages :: "page_binding \<times> ('s, 'r) rig \<Rightarrow> page_binding \<times> ('s, 'r) rig" where
  "poison_pages = (\<lambda>(p, g). (p\<lparr>pb_failed := True\<rparr>, set_phase E_Failed g))"

definition install_pages :: "int list \<Rightarrow> page_binding \<times> ('s, 'r) rig \<Rightarrow> page_binding \<times> ('s, 'r) rig" where
  "install_pages blocks = (\<lambda>(p, g).
     (p\<lparr>pb_blocks := blocks\<rparr>, on_engine (\<lambda>e. e\<lparr>en_pages := padded_table (pb_capacity p) blocks\<rparr>) g))"

definition refresh_refused :: "int list \<Rightarrow> nat \<Rightarrow> nat \<Rightarrow> page_binding \<Rightarrow> bool" where
  "refresh_refused blocks position rows p \<longleftrightarrow> rows \<notin> {1, 2, 4, 8, 16}
     \<or> (position + rows + 63) div 64 > length blocks
     \<or> take (length (pb_blocks p)) blocks \<noteq> pb_blocks p"

definition binding_refresh ::
  "page_io \<Rightarrow> int list \<Rightarrow> nat \<Rightarrow> nat \<Rightarrow> (page_binding \<times> ('s, 'r) rig, bool) op" where
  "binding_refresh io blocks position rows =
     op_then (op_refuse (\<lambda>(p, g). pb_failed p \<or> en_phase (rg_engine g) \<noteq> E_Idle) ValueError)
     (op_then (op_read (\<lambda>(p, _). validate_blocks p blocks))
     (op_then (op_refuse (\<lambda>(p, _). refresh_refused blocks position rows p) ValueError)
     (op_then (op_except (op_refuse (\<lambda>_. \<not> io_in_place io) ValueError) poison_pages)
      (\<lambda>s. if blocks = pb_blocks (fst s) then (Inr False, s)
           else op_then (op_except (op_read (\<lambda>_. io_upload io)) poison_pages)
                 (op_then (op_update (install_pages blocks)) (op_return True)) s))))"

end
