(* ===== verification/WorkerHook.thy ===== *)
theory WorkerHook
  imports RunnerState
begin

text \<open>
  The worker's routing of the scheduler's steps: the bridge of one request
  (\<open>scripts/ci/serving_runner_bridge.py\<close>), the packed step of several (\<open>serving_packed_bridge.py\<close>) and the
  hook that replaces the runner's entry points (\<open>serving_worker_hook.py\<close>).

  The worker holds the world of engines, the runner and the bridges by request id, in the order they were
  attached. The native runner is not code of the repository: \<open>dv_update\<close> stands for its \<open>_update_states\<close>
  and \<open>dv_native\<close> for its own \<open>execute_model\<close>. The early draft, the prewarm of proposals, log lines and the
  release of dead proposals and parked engines are left out.
\<close>

record bridge =
  br_engine :: nat
  br_state :: nat
  br_pages :: page_binding
  br_failed :: bool

record ('s, 'r) worker =
  wk_world :: "('s, 'r) world"
  wk_runner :: runner
  wk_bridges :: "(string \<times> bridge) list"
  wk_closed :: bool

type_synonym ('s, 'r, 'a) worker_op = "(('s, 'r) worker, 'a) op"

text \<open>What a step's environment answers: the storage check of a bridge, the page tables, and the native
  runner's two methods.\<close>

record ('s, 'r) host =
  dv_storage :: "string \<Rightarrow> unit result"
  dv_pages :: page_io
  dv_update :: "sched_step \<Rightarrow> (runner, unit) op"
  dv_native :: "sched_step \<Rightarrow> ('s, 'r, unit) worker_op"

subsection \<open>Operations of a part of the worker\<close>

definition in_world :: "('s, 'r, 'a) world_op \<Rightarrow> ('s, 'r, 'a) worker_op" where
  "in_world m w = (case m (wk_world w) of (r, v) \<Rightarrow> (r, w\<lparr>wk_world := v\<rparr>))"

definition in_runner :: "(runner, 'a) op \<Rightarrow> ('s, 'r, 'a) worker_op" where
  "in_runner m w = (case m (wk_runner w) of (r, rn) \<Rightarrow> (r, w\<lparr>wk_runner := rn\<rparr>))"

definition set_bridge :: "string \<Rightarrow> (bridge \<Rightarrow> bridge) \<Rightarrow> ('s, 'r) worker \<Rightarrow> ('s, 'r) worker" where
  "set_bridge key h w = w\<lparr>wk_bridges := map (\<lambda>(k, b). (k, if k = key then h b else b)) (wk_bridges w)\<rparr>"

definition with_bridge :: "string \<Rightarrow> (bridge \<Rightarrow> ('s, 'r, 'a) worker_op) \<Rightarrow> ('s, 'r, 'a) worker_op" where
  "with_bridge key m w = (case map_of (wk_bridges w) key of None \<Rightarrow> (Inl KeyError, w) | Some br \<Rightarrow> m br w)"

definition fail_bridge :: "string \<Rightarrow> ('s, 'r) worker \<Rightarrow> ('s, 'r) worker" where
  "fail_bridge key = set_bridge key (\<lambda>b. b\<lparr>br_failed := True\<rparr>)"

definition fail_bridges :: "('s, 'r) worker \<Rightarrow> ('s, 'r) worker" where
  "fail_bridges w = w\<lparr>wk_bridges := map (\<lambda>(k, b). (k, b\<lparr>br_failed := True\<rparr>)) (wk_bridges w)\<rparr>"

text \<open>A bridge's page table brought up to its request's blocks: the bridge and its engine change.\<close>

definition refresh_bridge :: "page_io \<Rightarrow> string \<Rightarrow> block_ticket \<Rightarrow> ('s, 'r, bool) worker_op" where
  "refresh_bridge io key ticket = with_bridge key (\<lambda>br w.
     (case rq_blocks (rn_states (wk_runner w) (br_state br)) of
        [blocks] \<Rightarrow>
          (case rig_at (wk_world w) (br_engine br) of
             None \<Rightarrow> (Inl KeyError, w)
           | Some g \<Rightarrow>
               (case binding_refresh io blocks (t_position ticket) (length (t_tokens ticket)) (br_pages br, g) of
                  (r, p, g') \<Rightarrow> (r, set_bridge key (\<lambda>b. b\<lparr>br_pages := p\<rparr>)
                                     (w\<lparr>wk_world := put_rig (br_engine br) g' (wk_world w)\<rparr>))))
      | _ \<Rightarrow> (Inl ValueError, w)))"

subsection \<open>One request's bridge\<close>

definition bridge_init :: "bool \<Rightarrow> string \<Rightarrow> nat \<Rightarrow> page_binding \<Rightarrow> runner \<Rightarrow> bridge result" where
  "bridge_init synchronous r engine pages rn =
     (if \<not> synchronous then Inl ValueError
      else case rn_requests rn r of
             None \<Rightarrow> Inl KeyError
           | Some state \<Rightarrow> Inr \<lparr>br_engine = engine, br_state = state, br_pages = pages, br_failed = False\<rparr>)"

definition rig_drafts :: "('s, 'r) device \<Rightarrow> int option \<Rightarrow> ('s, 'r, draft_ids option) rig_op" where
  "rig_drafts dv packed_rows =
     op_then (op_refuse (\<lambda>g. rg_closed g \<or> rg_cancelled g) ValueError)
      (\<lambda>g. if s_finished (rg_session g) then (Inr None, g)
       else op_then (\<lambda>g. if s_pending (rg_session g) = None
                then op_then (request_prepare dv (s_request_id (rg_session g)) packed_rows) (op_return ()) g
                else (Inr (), g))
             (op_bind (op_read draft_token_ids) (\<lambda>d. op_return (Some d))) g)"

definition bridge_drafts :: "('s, 'r) device \<Rightarrow> int option \<Rightarrow> string \<Rightarrow> ('s, 'r, draft_ids option) worker_op" where
  "bridge_drafts dv packed_rows key = with_bridge key (\<lambda>br.
     op_then (op_refuse (\<lambda>_. br_failed br) ValueError)
       (in_world (at_rig (br_engine br) (rig_drafts dv packed_rows))))"

definition execute_decode ::
  "('s, 'r) device \<Rightarrow> ('s, 'r) host \<Rightarrow> cancels \<Rightarrow> sched_step \<Rightarrow> string \<Rightarrow> ('s, 'r, runner_output) worker_op" where
  "execute_decode dv host ca step key = with_bridge key (\<lambda>br.
     op_then (op_refuse (\<lambda>_. br_failed br) ValueError)
     (op_bind (op_read (\<lambda>w. check_rig (br_engine br) (admit_scheduler_output step) (wk_world w))) (\<lambda>ticket.
      let r = t_request_id ticket
      in op_except
       (op_then (op_read (\<lambda>_. dv_storage host key))
       (op_then (in_runner (dv_update host step))
       (op_then (op_read (\<lambda>w. validate_runner_reservation (wk_runner w) (br_state br) ticket 1))
       (op_then (refresh_bridge (dv_pages host) key ticket)
       (op_bind (in_world (at_rig (br_engine br) (request_step dv (br_engine br) r (ca_first ca r) (ca_second ca r)))) (\<lambda>output.
        op_then (in_runner (apply_committed_output (br_state br) output 1))
        (op_return (model_runner_output output))))))))
       (fail_bridge key))))"

subsection \<open>The packed step of several requests\<close>

text \<open>\<open>packed_step\<close> is the device step the hook was given, over the entries in the scheduler's order.\<close>

definition admit_entry :: "page_io \<Rightarrow> nat \<Rightarrow> packed_entry \<Rightarrow> ('s, 'r, unit) worker_op" where
  "admit_entry io users e = with_bridge (pe_request_id e) (\<lambda>br.
     op_then (op_read (\<lambda>w. validate_runner_reservation (wk_runner w) (br_state br) (pe_ticket e) users))
     (op_then (refresh_bridge io (pe_request_id e) (pe_ticket e)) (op_return ())))"

definition apply_entry :: "nat \<Rightarrow> packed_entry \<times> committed_output \<Rightarrow> ('s, 'r, unit) worker_op" where
  "apply_entry users = (\<lambda>(e, output). with_bridge (pe_request_id e) (\<lambda>br.
     op_then (op_refuse (\<lambda>_. co_request_id output \<noteq> pe_request_id e) ValueError)
       (in_runner (apply_committed_output (br_state br) output users))))"

definition packed_decode_body ::
  "('s, 'r) host \<Rightarrow> (packed_entry list \<Rightarrow> ('s, 'r, committed_output list) world_op) \<Rightarrow> sched_step
     \<Rightarrow> packed_entry list \<Rightarrow> ('s, 'r, runner_output) worker_op" where
  "packed_decode_body host packed_step step entries =
     (let users = length entries
      in op_then (each (\<lambda>e. op_read (\<lambda>_. dv_storage host (pe_request_id e))) entries)
        (op_then (in_runner (dv_update host step))
        (op_then (each (admit_entry (dv_pages host) users) entries)
        (op_bind (in_world (packed_step entries)) (\<lambda>outputs.
         op_then (op_refuse (\<lambda>_. length outputs \<noteq> users) ValueError)
        (op_then (each (apply_entry users) (zip entries outputs))
         (op_read (\<lambda>_. packed_model_runner_output outputs))))))))"

definition bridged :: "packed_entry list \<Rightarrow> ('s, 'r) worker \<Rightarrow> unit list result" where
  "bridged entries w = those_results (map (\<lambda>e. case map_of (wk_bridges w) (pe_request_id e) of
     None \<Rightarrow> Inl KeyError | Some _ \<Rightarrow> Inr ()) entries)"

definition execute_packed_decode ::
  "('s, 'r) host \<Rightarrow> (packed_entry list \<Rightarrow> ('s, 'r, committed_output list) world_op) \<Rightarrow> sched_step
     \<Rightarrow> ('s, 'r, runner_output) worker_op" where
  "execute_packed_decode host packed_step step =
     op_then (op_refuse (\<lambda>w. wk_bridges w = []) ValueError)
     (op_then (op_refuse (\<lambda>w. \<exists>br \<in> set (map snd (wk_bridges w)). br_failed br) ValueError)
     (op_bind (op_read (\<lambda>w. admit_packed_scheduler_output (map (\<lambda>(_, br). br_engine br) (wk_bridges w)) step (wk_world w)))
       (\<lambda>entries. op_then (op_read (bridged entries)) (op_except (packed_decode_body host packed_step step entries) fail_bridges))))"

text \<open>The packed step bound to its blocks.\<close>

definition packed_step_call ::
  "('s, 'r) device \<Rightarrow> bool \<Rightarrow> int option \<Rightarrow> cancels \<Rightarrow> nat list \<Rightarrow> packed_entry list
     \<Rightarrow> ('s, 'r, committed_output list) world_op" where
  "packed_step_call dv sentinels forced ca blocks entries =
     (case blocks of
        [k] \<Rightarrow> packed_device_step dv sentinels forced ca k entries
      | _ \<Rightarrow> packed_device_rounds dv sentinels forced ca blocks entries)"

subsection \<open>Tickets of another width\<close>

definition real_remaining_budget :: "runner \<Rightarrow> bridge \<Rightarrow> int option" where
  "real_remaining_budget rn br =
     (let state = rn_states rn (br_state br)
      in case rq_max_tokens state of None \<Rightarrow> None | Some m \<Rightarrow> Some (m - int (length (rq_output state))))"

text \<open>A pending ticket the coming round's width would replace is dropped, on the host alone.\<close>

definition stale_ticket :: "int option \<Rightarrow> session \<Rightarrow> bool" where
  "stale_ticket packed_rows s \<longleftrightarrow> (case s_pending s of
     None \<Rightarrow> False
   | Some ticket \<Rightarrow> s_phase s = Pending \<and> packed_rows \<noteq> Some (int (length (t_tokens ticket))))"

definition drop_pending :: "('s, 'r) rig \<Rightarrow> ('s, 'r) rig" where
  "drop_pending g = g\<lparr>rg_session := (rg_session g)\<lparr>s_pending := None, s_phase := Idle\<rparr>\<rparr>"

definition discard_stale_ticket :: "int option \<Rightarrow> ('s, 'r, unit) rig_op" where
  "discard_stale_ticket packed_rows g =
     (if stale_ticket packed_rows (rg_session g) then op_then discard_proposal (op_update drop_pending) g
      else (Inr (), g))"

subsection \<open>The hook\<close>

text \<open>The packed step the hook was given: none, the sequential one, which has no width policy, or the packed
  step over blocks.\<close>

datatype packed_config = No_Packed | Each_Alone | Over_Blocks "nat list"

definition device_step ::
  "('s, 'r) device \<Rightarrow> bool \<Rightarrow> int option \<Rightarrow> cancels \<Rightarrow> packed_config \<Rightarrow> packed_entry list
     \<Rightarrow> ('s, 'r, committed_output list) world_op" where
  "device_step dv sentinels forced ca packed =
     (case packed of
        Over_Blocks ks \<Rightarrow> packed_step_call dv sentinels forced ca ks
      | _ \<Rightarrow> sequential_packed_step dv ca)"

datatype hook_answer = Native | Served runner_output

definition carries_tokens :: "sched_step \<Rightarrow> string list \<Rightarrow> bool" where
  "carries_tokens step ids \<longleftrightarrow> (\<exists>r \<in> set ids. map_of (sc_counts step) r \<noteq> None \<and> map_of (sc_counts step) r \<noteq> Some 0)"

definition unbridged_ids :: "('s, 'r) worker \<Rightarrow> sched_step \<Rightarrow> string list" where
  "unbridged_ids w step = filter (\<lambda>r. map_of (wk_bridges w) r = None) (sc_cached step)"

text \<open>A step that decodes a request the hook serves with one it holds no bridge for.\<close>

definition mixed_step :: "('s, 'r) worker \<Rightarrow> sched_step \<Rightarrow> bool" where
  "mixed_step w step \<longleftrightarrow> (\<exists>r \<in> set (sc_cached step). map_of (wk_bridges w) r \<noteq> None)
     \<and> carries_tokens step (unbridged_ids w step)"

definition hook_execute ::
  "('s, 'r) device \<Rightarrow> ('s, 'r) host \<Rightarrow> bool \<Rightarrow> int option \<Rightarrow> cancels \<Rightarrow> packed_config \<Rightarrow> bool \<Rightarrow> bool \<Rightarrow> sched_step
     \<Rightarrow> ('s, 'r, hook_answer) worker_op" where
  "hook_execute dv host sentinels forced ca packed pending_samples legacy step =
     (let native = op_then (dv_native host step) (op_return Native)
      in op_then (op_refuse (\<lambda>w. wk_closed w \<or> pending_samples) ValueError)
       (\<lambda>w. if sc_new step \<noteq> [] then native w
        else if unbridged_ids w step \<noteq> []
          then (if mixed_step w step \<and> \<not> legacy then (Inl ValueError, w) else native w)
        else if sc_total step = 0 then native w
        else op_bind (case (packed, wk_bridges w) of
               (No_Packed, [(key, _)]) \<Rightarrow> execute_decode dv host ca step key
             | (No_Packed, _) \<Rightarrow> op_raise ValueError
             | _ \<Rightarrow> execute_packed_decode host (device_step dv sentinels forced ca packed) step)
           (\<lambda>output. op_return (Served output)) w))"

text \<open>The width of the coming drafts: the packed step's policy, unless a live request's own budget is
  shorter.\<close>

definition policy_width :: "bool \<Rightarrow> packed_config \<Rightarrow> ('s, 'r) worker \<Rightarrow> int option result" where
  "policy_width sentinels packed w =
     (case packed of
        Over_Blocks ks \<Rightarrow> round_proposal_rows sentinels ks (map (\<lambda>(_, br). br_engine br) (wk_bridges w)) (wk_world w)
      | _ \<Rightarrow> Inr None)"

definition short_budget :: "int \<Rightarrow> ('s, 'r) worker \<Rightarrow> bridge \<Rightarrow> bool result" where
  "short_budget rows w br = read_rig (br_engine br) (\<lambda>g. \<not> s_finished (rg_session g)
     \<and> (case real_remaining_budget (wk_runner w) br of None \<Rightarrow> False | Some n \<Rightarrow> n < rows)) (wk_world w)"

definition round_width :: "bool \<Rightarrow> packed_config \<Rightarrow> ('s, 'r) worker \<Rightarrow> int option result" where
  "round_width sentinels packed w = rbind (policy_width sentinels packed w) (\<lambda>width.
     case width of
       None \<Rightarrow> Inr None
     | Some rows \<Rightarrow> rbind (those_results (map (\<lambda>(_, br). short_budget rows w br) (wk_bridges w)))
         (\<lambda>short. Inr (if True \<in> set short then None else Some rows)))"

definition merge_drafts :: "draft_ids option list \<Rightarrow> draft_ids option" where
  "merge_drafts ds =
     (let found = concat (map (\<lambda>d. case d of None \<Rightarrow> [] | Some x \<Rightarrow> [x]) ds);
          ids = concat (map df_requests found)
      in if ids = [] then None else Some \<lparr>df_requests = ids, df_tokens = concat (map df_tokens found)\<rparr>)"

definition discard_stale :: "int option \<Rightarrow> packed_config \<Rightarrow> (string \<times> bridge) list \<Rightarrow> ('s, 'r, unit) worker_op" where
  "discard_stale rows packed bridges =
     (case packed of
        Over_Blocks _ \<Rightarrow> op_then (each (\<lambda>(_, br). in_world (at_rig (br_engine br) (discard_stale_ticket rows))) bridges)
                           (op_return ())
      | _ \<Rightarrow> op_return ())"

definition hook_drafts :: "('s, 'r) device \<Rightarrow> bool \<Rightarrow> packed_config \<Rightarrow> ('s, 'r, draft_ids option) worker_op" where
  "hook_drafts dv sentinels packed w =
     (let bridges = wk_bridges w
      in op_then (op_refuse wk_closed ValueError)
        (case (packed, bridges) of
           (No_Packed, [(key, _)]) \<Rightarrow> bridge_drafts dv None key
         | _ \<Rightarrow> op_bind (op_read (round_width sentinels packed)) (\<lambda>rows.
                 op_then (discard_stale rows packed bridges)
                  (op_bind (each (\<lambda>(key, _). bridge_drafts dv rows key) bridges) (\<lambda>ds.
                   op_return (merge_drafts ds))))) w)"

subsection \<open>Attaching, detaching, closing\<close>

text \<open>The hook of a worker's first bridge. \<open>idle\<close> says that the worker drives a synchronous runner with no
  sample pending, \<open>owned\<close> that another hook has the runner.\<close>

definition hook_init ::
  "bool \<Rightarrow> bool \<Rightarrow> string \<Rightarrow> bridge \<Rightarrow> ('s, 'r) world \<Rightarrow> runner \<Rightarrow> ('s, 'r) worker result" where
  "hook_init idle owned key br v rn =
     (if \<not> idle \<or> owned then Inl ValueError
      else Inr \<lparr>wk_world = v, wk_runner = rn, wk_bridges = [(key, br)], wk_closed = False\<rparr>)"

definition hook_attach :: "packed_config \<Rightarrow> string \<Rightarrow> bridge \<Rightarrow> ('s, 'r, unit) worker_op" where
  "hook_attach packed key br =
     op_then (op_refuse (\<lambda>w. wk_closed w \<or> packed = No_Packed) ValueError)
     (op_then (op_refuse (\<lambda>w. map_of (wk_bridges w) key \<noteq> None) ValueError)
      (op_update (\<lambda>w. w\<lparr>wk_bridges := wk_bridges w @ [(key, br)]\<rparr>)))"

text \<open>\<open>close\<close> releases the bridge's request; \<open>release\<close> is the release callback of each engine's request.\<close>

definition bridge_close ::
  "('s, 'r) device \<Rightarrow> (nat \<Rightarrow> ('s, 'r, unit) rig_op option) \<Rightarrow> unit result \<Rightarrow> bridge \<Rightarrow> ('s, 'r, unit) worker_op" where
  "bridge_close dv release released br =
     in_world (at_rig (br_engine br)
       (\<lambda>g. request_close dv (br_engine br) (s_request_id (rg_session g)) (release (br_engine br)) released g))"

definition hook_detach ::
  "('s, 'r) device \<Rightarrow> (nat \<Rightarrow> ('s, 'r, unit) rig_op option) \<Rightarrow> unit result \<Rightarrow> string \<Rightarrow> ('s, 'r, unit) worker_op" where
  "hook_detach dv release released key w =
     (case map_of (wk_bridges w) key of
        None \<Rightarrow> (Inl ValueError, w)
      | Some br \<Rightarrow> bridge_close dv release released br (w\<lparr>wk_bridges := dict_del key (wk_bridges w)\<rparr>))"

definition hook_close ::
  "('s, 'r) device \<Rightarrow> (nat \<Rightarrow> ('s, 'r, unit) rig_op option) \<Rightarrow> unit result \<Rightarrow> ('s, 'r, unit) worker_op" where
  "hook_close dv release released w =
     (if wk_closed w then (Inr (), w)
      else op_then (each (\<lambda>(_, br). bridge_close dv release released br) (wk_bridges w))
            (op_update (\<lambda>w. w\<lparr>wk_bridges := [], wk_closed := True\<rparr>)) w)"

end
