(* ===== verification/RunnerProps.thy ===== *)
theory RunnerProps
  imports WorkerHook ServingProps
begin

text \<open>
  What a committed output does to the runner's record of its request, and what a refreshed page table
  maps.
\<close>

subsection \<open>The runner's record of a request\<close>

text \<open>Request r lives at address a and in a row of its own, whose tokens are its prompt and its output.\<close>

definition record_at :: "runner \<Rightarrow> string \<Rightarrow> nat \<Rightarrow> nat \<Rightarrow> int list \<Rightarrow> bool" where
  "record_at rn r a row prompt \<longleftrightarrow>
     (let b = rn_batch rn; state = rn_states rn a; n = length prompt + length (rq_output state)
      in rn_requests rn r = Some a \<and> bt_row b r = Some row \<and> rq_prompt state = Some prompt
       \<and> row < length (bt_outputs b) \<and> bt_outputs b ! row = a
       \<and> row < length (bt_num_tokens b) \<and> bt_num_tokens b ! row = int n
       \<and> row < length (bt_computed b) \<and> bt_computed b ! row = int n - 1 \<and> rq_computed state = int n - 1
       \<and> row < length (bt_tokens b) \<and> length (bt_tokens b ! row) = bt_width b
       \<and> take n (bt_tokens b ! row) = prompt @ rq_output state)"

lemma take_write_slice:
  "start + length xs \<le> length row \<Longrightarrow> take (start + length xs) (write_slice start xs row) = take start row @ xs"
  by (simp add: write_slice_def)

lemma length_write_slice: "start + length xs \<le> length row \<Longrightarrow> length (write_slice start xs row) = length row"
  by (simp add: write_slice_def)

lemma captured_row_Inr:
  "captured_row rn a r users = Inr (row, prompt) \<longleftrightarrow>
     rn_requests rn r = Some a \<and> bt_requests (rn_batch rn) = users \<and> bt_row (rn_batch rn) r = Some row \<and> row < users
   \<and> row < length (bt_outputs (rn_batch rn)) \<and> bt_outputs (rn_batch rn) ! row = a \<and> rq_prompt (rn_states rn a) = Some prompt"
  by (auto simp: captured_row_def rbind_Inr_iff py_index_def split: if_splits option.splits)

lemma commit_start_Inr:
  assumes "commit_start rn a out row prompt = Inr start"
  shows "start = length prompt + length (rq_output (rn_states rn a))"
    and "fits_storage rn (int start + int (length (co_token_ids out)))"
    and "int (co_position out) = int start + int (length (co_token_ids out)) - 1"
  using assms by (auto simp: commit_start_def Let_def rbind_Inr_iff py_index_def nat_add_distrib split: if_splits)

lemma apply_committed_output_Inr:
  assumes "apply_committed_output a out users rn = (Inr u, rn')"
  obtains row prompt start where "captured_row rn a (co_request_id out) users = Inr (row, prompt)"
    and "commit_start rn a out row prompt = Inr start"
    and "rn' = (if co_token_ids out = [] then rn
                else append_tokens a row start (co_token_ids out) (int (co_position out)) rn)"
  using assms
  by (auto simp: apply_committed_output_def rbind_Inr_iff split: sum.splits prod.splits if_split_asm)

lemma apply_committed_output_Inl: "apply_committed_output a out users rn = (Inl e, rn') \<Longrightarrow> rn' = rn"
  by (auto simp: apply_committed_output_def Let_def split: sum.splits prod.splits)

lemma append_tokens_simps [simp]:
  "rn_requests (append_tokens a row start xs p rn) = rn_requests rn"
  "rn_max_model_len (append_tokens a row start xs p rn) = rn_max_model_len rn"
  "rn_vocab (append_tokens a row start xs p rn) = rn_vocab rn"
  "rn_states (append_tokens a row start xs p rn) a' =
     (if a' = a then (rn_states rn a)\<lparr>rq_output := rq_output (rn_states rn a) @ xs, rq_computed := p\<rparr> else rn_states rn a')"
  by (simp_all add: append_tokens_def put_state_def)

lemma record_appended:
  assumes "record_at rn r a row prompt" and "start = length prompt + length (rq_output (rn_states rn a))"
    and "fits_storage rn (int start + int (length xs))" and "p = int start + int (length xs) - 1"
  shows "record_at (append_tokens a row start xs p rn) r a row prompt"
proof -
  have "int (start + length xs) \<le> int (bt_width (rn_batch rn))" using assms(3) by (simp add: fits_storage_def)
  then have fit: "start + length xs \<le> length (bt_tokens (rn_batch rn) ! row)"
    using assms(1) by (simp add: record_at_def Let_def)
  have "take (start + length xs) (write_slice start xs (bt_tokens (rn_batch rn) ! row))
      = prompt @ rq_output (rn_states rn a) @ xs"
    using assms(1,2) take_write_slice [OF fit] by (simp add: record_at_def Let_def)
  then show ?thesis
    using assms(1,2,4) length_write_slice [OF fit]
    by (simp add: record_at_def Let_def append_tokens_def put_state_def ac_simps)
qed

lemma record_others:
  assumes "record_at rn r' a' row' prompt'" and "a' \<noteq> a" and "row' \<noteq> row"
  shows "record_at (append_tokens a row start xs p rn) r' a' row' prompt'"
  using assms by (simp add: record_at_def Let_def append_tokens_def put_state_def)

lemma record_row: "record_at rn r a row prompt \<Longrightarrow> captured_row rn a r users = Inr (row', prompt') \<Longrightarrow>
    row' = row \<and> prompt' = prompt"
  by (auto simp: record_at_def Let_def captured_row_Inr)

text \<open>C9: a committed output that is applied extends its request's record by exactly its tokens, at the
  request's own frontier, and leaves the record of every other request as it was; one that is refused
  leaves the whole runner as it was.\<close>

theorem output_extends_its_record:
  assumes "record_at rn r a row prompt" and "co_request_id out = r"
    and run: "apply_committed_output a out users rn = (res, rn')"
  shows "case res of
      Inl _ \<Rightarrow> rn' = rn
    | Inr _ \<Rightarrow> record_at rn' r a row prompt
        \<and> rq_output (rn_states rn' a) = rq_output (rn_states rn a) @ co_token_ids out
        \<and> rq_computed (rn_states rn' a) = int (co_position out)
        \<and> (\<forall>r' a' row' prompt'. record_at rn r' a' row' prompt' \<and> a' \<noteq> a \<and> row' \<noteq> row \<longrightarrow>
             record_at rn' r' a' row' prompt' \<and> rn_states rn' a' = rn_states rn a')"
proof (cases res)
  case (Inl e)
  then show ?thesis using run apply_committed_output_Inl by auto
next
  case (Inr u)
  obtain row' prompt' start where cap: "captured_row rn a r users = Inr (row', prompt')"
    and start: "commit_start rn a out row' prompt' = Inr start"
    and rn': "rn' = (if co_token_ids out = [] then rn
                else append_tokens a row' start (co_token_ids out) (int (co_position out)) rn)"
    using run [unfolded Inr] assms(2) by (elim apply_committed_output_Inr) simp
  note start = commit_start_Inr [OF start]
  have same: "row' = row" "prompt' = prompt" using record_row [OF assms(1) cap] by simp_all
  have comp: "rq_computed (rn_states rn a) = int start - 1"
    using assms(1) start(1) same by (simp add: record_at_def Let_def)
  show ?thesis
    using record_appended [OF assms(1) start [unfolded same]] record_others assms(1) comp start(3)
    by (auto simp: Inr rn' same)
qed

text \<open>A runner of one request whose prompt is [1, 2] and which has emitted 3, and an output of two tokens.\<close>

definition demo_runner :: runner where
  "demo_runner = \<lparr>rn_requests = [''r'' \<mapsto> 7],
     rn_states = (\<lambda>_. \<lparr>rq_prompt = Some [1, 2], rq_output = [3], rq_computed = 2, rq_blocks = [[1]], rq_max_tokens = None\<rparr>),
     rn_batch = \<lparr>bt_requests = 1, bt_row = [''r'' \<mapsto> 0], bt_outputs = [7], bt_num_tokens = [3], bt_computed = [2],
       bt_tokens = [[1, 2, 3, 0, 0, 0]], bt_width = 6\<rparr>, rn_max_model_len = 6, rn_vocab = 100\<rparr>"

definition demo_output :: committed_output where
  "demo_output = \<lparr>co_request_id = ''r'', co_token_ids = [4, 5], co_position = 4, co_finished = False, co_cancelled = False\<rparr>"

theorem output_extends_its_record_witness:
  "record_at (snd (apply_committed_output 7 demo_output 1 demo_runner)) ''r'' 7 0 [1, 2]
    \<and> rq_output (rn_states (snd (apply_committed_output 7 demo_output 1 demo_runner)) 7) = [3, 4, 5]"
proof -
  let ?run = "apply_committed_output 7 demo_output 1 demo_runner"
  have r: "fst ?run = Inr ()" by code_simp
  have "record_at demo_runner ''r'' 7 0 [1, 2]" by (simp add: record_at_def demo_runner_def)
  from output_extends_its_record [OF this _ prod.collapse [symmetric], of demo_output 1] show ?thesis
    unfolding r by (simp add: demo_output_def demo_runner_def)
qed

subsection \<open>Page tables\<close>

definition binding_wf :: "page_binding \<Rightarrow> ('s, 'r) rig \<Rightarrow> bool" where
  "binding_wf p g \<longleftrightarrow> \<not> blocks_refused (pb_capacity p) (pb_physical p) (pb_blocks p)
     \<and> length (en_pages (rg_engine g)) = pb_capacity p
     \<and> take (length (pb_blocks p)) (en_pages (rg_engine g)) = pb_blocks p"

lemma bind_pages_wf: "bind_pages fixtures blocks physical g = Inr p \<Longrightarrow> binding_wf p g"
  by (auto simp: bind_pages_def Let_def rbind_Inr_iff validate_blocks_def binding_wf_def split: if_splits)

lemma row_block: "(position + rows + 63) div 64 \<le> n \<Longrightarrow> k < position + rows \<Longrightarrow> k div 64 < (n :: nat)"
  by (simp add: less_eq_div_iff_mult_less_eq less_mult_imp_div_less)

lemma wf_maps_rows:
  assumes "binding_wf p g" and "k div 64 < length (pb_blocks p)"
  shows "py_index (en_pages (rg_engine g)) (k div 64) = Inr (pb_blocks p ! (k div 64))"
proof -
  have "length (pb_blocks p) \<le> length (en_pages (rg_engine g))"
    using assms(1) by (auto simp: binding_wf_def blocks_refused_def)
  moreover have "take (length (pb_blocks p)) (en_pages (rg_engine g)) ! (k div 64) = pb_blocks p ! (k div 64)"
    using assms(1) by (simp add: binding_wf_def)
  ultimately show ?thesis using assms(2) by (simp add: py_index_def)
qed

lemma install_wf:
  assumes "validate_blocks p blocks = Inr bs" and "install_pages blocks (p, g) = (p', g')"
  shows "binding_wf p' g'" and "pb_blocks p' = blocks"
  using assms by (auto simp: install_pages_def padded_table_def binding_wf_def validate_blocks_def blocks_refused_def
      split: if_splits)

lemma binding_refresh_Inr:
  assumes "binding_refresh io blocks position rows (p, g) = (Inr b, p', g')"
  shows "\<not> refresh_refused blocks position rows p" and "validate_blocks p blocks = Inr blocks"
    and "blocks = pb_blocks p \<and> p' = p \<and> g' = g \<or> install_pages blocks (p, g) = (p', g')"
  using assms by (auto simp: binding_refresh_def op_returned validate_blocks_def split: if_splits)

lemma binding_refresh_Inl:
  assumes "binding_refresh io blocks position rows (p, g) = (Inl e, p', g')"
  shows "p' = p \<and> g' = g \<or> (p', g') = poison_pages (p, g)"
  using assms by (auto simp: binding_refresh_def op_raised op_returned validate_blocks_def split: if_splits)

text \<open>C11: a refresh that returns leaves the engine reading the scheduler's blocks, which only grew, and every
  row of the coming block lies in one of them; one that raises has changed nothing, or has failed both
  the binding and the engine, so neither is used again.\<close>

theorem refreshed_pages_cover_rows:
  assumes "binding_wf p g" and run: "binding_refresh io blocks position rows (p, g) = (res, p', g')"
  shows "case res of
      Inr _ \<Rightarrow> binding_wf p' g' \<and> pb_blocks p' = blocks \<and> take (length (pb_blocks p)) blocks = pb_blocks p
        \<and> (\<forall>k < position + rows. k div 64 < length blocks
             \<and> py_index (en_pages (rg_engine g')) (k div 64) = Inr (blocks ! (k div 64)))
    | Inl _ \<Rightarrow> p' = p \<and> g' = g \<or> pb_failed p' \<and> en_phase (rg_engine g') = E_Failed"
proof (cases res)
  case (Inl e)
  then show ?thesis using binding_refresh_Inl [OF run [unfolded Inl]] by (auto simp: poison_pages_def)
next
  case (Inr b)
  note r = binding_refresh_Inr [OF run [unfolded Inr]]
  have wf: "binding_wf p' g'" and blocks: "pb_blocks p' = blocks"
    using r(3) assms(1) install_wf [OF r(2)] by auto
  have cover: "k div 64 < length blocks" if "k < position + rows" for k
    using row_block [OF _ that] r(1) by (simp add: refresh_refused_def)
  from r(1) have grown: "take (length (pb_blocks p)) blocks = pb_blocks p" by (simp add: refresh_refused_def)
  have "k div 64 < length blocks \<and> py_index (en_pages (rg_engine g')) (k div 64) = Inr (blocks ! (k div 64))"
    if "k < position + rows" for k
    using wf_maps_rows [OF wf, unfolded blocks, OF cover [OF that]] cover [OF that] by simp
  then show ?thesis using wf blocks grown by (simp add: Inr)
qed

text \<open>A request at position 6 reading one block, which the scheduler extends by a second.\<close>

definition demo_bound :: "page_binding \<times> (int list, int list \<times> int list) rig" where
  "demo_bound = (\<lparr>pb_capacity = 68, pb_physical = 100, pb_blocks = [1], pb_failed = False\<rparr>, projr demo_request)"

theorem refreshed_pages_cover_rows_witness:
  "py_index (en_pages (rg_engine (snd (snd (binding_refresh \<lparr>io_in_place = True, io_upload = Inr ()\<rparr> [1, 9] 56 16
      demo_bound))))) (71 div 64) = Inr 9"
proof -
  let ?run = "binding_refresh \<lparr>io_in_place = True, io_upload = Inr ()\<rparr> [1, 9] 56 16 demo_bound"
  have r: "fst ?run = Inr True" "binding_wf (fst demo_bound) (snd demo_bound)" by code_simp+
  have e: "binding_refresh \<lparr>io_in_place = True, io_upload = Inr ()\<rparr> [1, 9] 56 16 (fst demo_bound, snd demo_bound)
      = (fst ?run, fst (snd ?run), snd (snd ?run))" by simp
  from refreshed_pages_cover_rows [OF r(2) e]
  have "\<forall>k < 56 + 16. k div 64 < length [1, 9 :: int]
      \<and> py_index (en_pages (rg_engine (snd (snd ?run)))) (k div 64) = Inr ([1, 9] ! (k div 64))"
    unfolding r(1) sum.case by blast
  from spec [OF this, of 71] show ?thesis by simp
qed

end
