(* ===== verification/ContractProps.thy ===== *)
theory ContractProps
  imports SchedulerContract ServingProps
begin

text \<open>
  The drafts the worker offers and the step the scheduler builds from them: the round trip of every
  request's ticket through the scheduler.
\<close>

text \<open>The step a scheduler that took the drafts builds for the requests of \<open>order\<close>, at its own frontiers:
  one position for the seed and one for every draft token.\<close>

definition drafts_of :: "draft_ids \<Rightarrow> string \<Rightarrow> int list" where
  "drafts_of d r = (case map_of (zip (df_requests d) (df_tokens d)) r of None \<Rightarrow> [] | Some xs \<Rightarrow> xs)"

definition scheduled_for :: "(string \<Rightarrow> int) \<Rightarrow> string list \<Rightarrow> draft_ids \<Rightarrow> string list \<Rightarrow> sched_step" where
  "scheduled_for frontier finished d order =
     (let rows = map (\<lambda>r. 1 + int (length (drafts_of d r))) order
      in \<lparr>sc_new = [], sc_finished = finished, sc_preempted = [], sc_structured = False, sc_encoder = False,
          sc_cached = order, sc_resumed = [], sc_computed = map frontier order, sc_counts = zip order rows,
          sc_total = sum_list rows,
          sc_drafts = filter (\<lambda>(_, xs). xs \<noteq> []) (map (\<lambda>r. (r, drafts_of d r)) order)\<rparr>)"

lemma prepared_ticket_Inr:
  assumes "prepared_ticket g = Inr t"
  shows "s_pending (rg_session g) = Some t" and "t_request_id t = s_request_id (rg_session g)"
    and "t_position t = s_position (rg_session g)" and "en_phase (rg_engine g) = E_Idle"
    and "s_phase (rg_session g) = Pending"
  using assms by (auto simp: prepared_ticket_def Let_def split: if_splits option.splits)

lemma tickets_by_id_Inr:
  assumes "those_results (map (\<lambda>me. check_rig me prepared_ticket w) requests) = Inr tickets"
    and "distinct (map fst found @ map t_request_id tickets)"
  shows "tickets_by_id requests found w = Inr (found @ map (\<lambda>(me, t). (t_request_id t, me, t)) (zip requests tickets))"
  using assms
proof (induction requests arbitrary: found tickets)
  case (Cons me requests)
  from Cons.prems(1) obtain t ts where t: "check_rig me prepared_ticket w = Inr t" and tickets: "tickets = t # ts"
    and rest: "those_results (map (\<lambda>me. check_rig me prepared_ticket w) requests) = Inr ts"
    by (auto simp: rbind_Inr_iff)
  have "map_of found (t_request_id t) = None" using Cons.prems(2) by (auto simp: tickets map_of_None_keys)
  moreover have "tickets_by_id requests (found @ [(t_request_id t, me, t)]) w
      = Inr ((found @ [(t_request_id t, me, t)]) @ map (\<lambda>(me, t). (t_request_id t, me, t)) (zip requests ts))"
    by (rule Cons.IH [OF rest]) (use Cons.prems(2) in \<open>auto simp: tickets\<close>)
  ultimately show ?case by (simp add: t tickets)
qed simp

lemma packed_draft_Inr:
  assumes "packed_draft_token_ids requests None w = Inr d"
  obtains tickets where "those_results (map (\<lambda>me. check_rig me prepared_ticket w) requests) = Inr tickets"
    and "distinct (map t_request_id tickets)"
    and "d = \<lparr>df_requests = map t_request_id tickets, df_tokens = map (\<lambda>t. tl (t_tokens t)) tickets\<rparr>"
  using assms by (auto simp: packed_draft_token_ids_def Let_def rbind_Inr_iff split: if_splits)

lemma map_of_keyed_list:
  "distinct (map key xs) \<Longrightarrow> x \<in> set xs \<Longrightarrow> map_of (map (\<lambda>x. (key x, val x)) xs) (key x) = Some (val x)"
  by (rule map_of_is_SomeI) (auto simp: comp_def)

lemma drafts_of_ticket:
  assumes "d = \<lparr>df_requests = map t_request_id tickets, df_tokens = map (\<lambda>t. tl (t_tokens t)) tickets\<rparr>"
    and "distinct (map t_request_id tickets)" and "t \<in> set tickets"
  shows "drafts_of d (t_request_id t) = tl (t_tokens t)"
  using map_of_keyed_list [OF assms(2,3), of "\<lambda>t. tl (t_tokens t)"]
  by (simp add: drafts_of_def assms(1) zip_map1 zip_map2 zip_same_conv_map comp_def)

lemma same_dict_refl [simp]: "same_dict d d" by (simp add: same_dict_iff)

lemma step_refusals_scheduled:
  "set finished \<inter> set live = {} \<Longrightarrow> step_refusals (scheduled_for frontier finished d order) live = []"
  by (auto simp: step_refusals_def scheduled_for_def Let_def filter_empty_conv)

text \<open>The tickets by request id, and the entries the scheduler's order makes of them.\<close>

definition ticket_table :: "nat list \<Rightarrow> block_ticket list \<Rightarrow> (string \<times> nat \<times> block_ticket) list" where
  "ticket_table requests tickets = map (\<lambda>(me, t). (t_request_id t, me, t)) (zip requests tickets)"

definition entry_for :: "(string \<times> nat \<times> block_ticket) list \<Rightarrow> string \<Rightarrow> packed_entry" where
  "entry_for table r = (case the (map_of table r) of (me, t) \<Rightarrow> \<lparr>pe_engine = me, pe_request_id = r, pe_ticket = t\<rparr>)"

lemma keys_ticket_table:
  "length requests = length tickets \<Longrightarrow> map fst (ticket_table requests tickets) = map t_request_id tickets"
  by (induction requests tickets rule: list_induct2) (simp_all add: ticket_table_def)

lemma ticket_table_lookup:
  assumes tickets: "those_results (map (\<lambda>me. check_rig me prepared_ticket w) requests) = Inr tickets"
    and dist: "distinct (map t_request_id tickets)" and r: "r \<in> set (map t_request_id tickets)"
  obtains me t where "map_of (ticket_table requests tickets) r = Some (me, t)" and "t \<in> set tickets"
    and "me \<in> set requests" and "t_request_id t = r" and "check_rig me prepared_ticket w = Inr t"
proof -
  have each: "map (\<lambda>me. check_rig me prepared_ticket w) requests = map Inr tickets"
    using tickets by (simp add: those_results_Inr)
  then have len: "length requests = length tickets" by (metis length_map)
  have keys: "map fst (ticket_table requests tickets) = map t_request_id tickets"
    by (rule keys_ticket_table [OF len])
  obtain i where i: "i < length tickets" "r = t_request_id (tickets ! i)" using r by (auto simp: in_set_conv_nth)
  have "(r, requests ! i, tickets ! i) \<in> set (ticket_table requests tickets)"
    using i len by (force simp: ticket_table_def in_set_zip)
  then have "map_of (ticket_table requests tickets) r = Some (requests ! i, tickets ! i)"
    using dist keys by (intro map_of_is_SomeI) simp_all
  moreover have "check_rig (requests ! i) prepared_ticket w = Inr (tickets ! i)" using each i len by (metis nth_map)
  moreover have "tickets ! i \<in> set tickets" "requests ! i \<in> set requests" using i len by simp_all
  ultimately show thesis using i(2) by (intro that) auto
qed

lemma scheduled_entries:
  assumes rows: "\<And>e. e \<in> set es \<Longrightarrow> t_tokens (pe_ticket e) \<noteq> [] \<and> tl (t_tokens (pe_ticket e)) = drafts_of d (pe_request_id e)"
    and order: "map pe_request_id es = order"
  shows "map (\<lambda>e. (pe_request_id e, int (length (t_tokens (pe_ticket e))))) es = sc_counts (scheduled_for frontier finished d order)"
    and "concat (map (\<lambda>e. expected_drafts (pe_request_id e) (pe_ticket e)) es) = sc_drafts (scheduled_for frontier finished d order)"
proof -
  have one: "int (length (t_tokens (pe_ticket e))) = 1 + int (length (drafts_of d (pe_request_id e)))
      \<and> expected_drafts (pe_request_id e) (pe_ticket e)
        = filter (\<lambda>(_, xs). xs \<noteq> []) [(pe_request_id e, drafts_of d (pe_request_id e))]" if "e \<in> set es" for e
    using rows [OF that] by (cases "t_tokens (pe_ticket e)") (auto simp: expected_drafts_def)
  show "map (\<lambda>e. (pe_request_id e, int (length (t_tokens (pe_ticket e))))) es = sc_counts (scheduled_for frontier finished d order)"
    using one by (simp add: scheduled_for_def Let_def zip_map1 zip_map2 zip_same_conv_map flip: order)
  have "concat (map (\<lambda>e. expected_drafts (pe_request_id e) (pe_ticket e)) xs)
      = filter (\<lambda>(_, ys). ys \<noteq> []) (map (\<lambda>r. (r, drafts_of d r)) (map pe_request_id xs))" if "set xs \<subseteq> set es" for xs
    using that by (induction xs) (auto simp: one)
  from this [of es] show "concat (map (\<lambda>e. expected_drafts (pe_request_id e) (pe_ticket e)) es)
      = sc_drafts (scheduled_for frontier finished d order)"
    by (simp add: order scheduled_for_def Let_def)
qed

text \<open>C4: the drafts come back. When the worker has offered the pending tickets' drafts and the scheduler,
  whose frontiers are the sessions', schedules exactly those drafts, in whatever order it keeps its
  requests, the step is admitted: every request gets one entry, in the scheduler's order, with the
  ticket whose drafts were offered.\<close>

theorem drafts_round_trip:
  assumes offered: "packed_draft_token_ids requests None w = Inr d"
    and order: "distinct order" "set order = set (df_requests d)" "order \<noteq> []"
    and frontier: "\<forall>me g. me \<in> set requests \<and> rig_at w me = Some g \<longrightarrow>
        frontier (s_request_id (rg_session g)) = int (s_position (rg_session g))
        \<and> (\<forall>t. s_pending (rg_session g) = Some t \<longrightarrow> t_tokens t \<noteq> [])"
    and finished: "set finished \<inter> set order = {}"
  shows "\<exists>entries. admit_packed_scheduler_output requests (scheduled_for frontier finished d order) w = Inr entries
    \<and> map pe_request_id entries = order
    \<and> (\<forall>e \<in> set entries. pe_engine e \<in> set requests \<and> check_rig (pe_engine e) prepared_ticket w = Inr (pe_ticket e)
         \<and> tl (t_tokens (pe_ticket e)) = drafts_of d (pe_request_id e))"
proof -
  let ?step = "scheduled_for frontier finished d order"
  obtain tickets where tickets: "those_results (map (\<lambda>me. check_rig me prepared_ticket w) requests) = Inr tickets"
    and dist: "distinct (map t_request_id tickets)"
    and d: "d = \<lparr>df_requests = map t_request_id tickets, df_tokens = map (\<lambda>t. tl (t_tokens t)) tickets\<rparr>"
    using offered by (rule packed_draft_Inr)
  let ?table = "ticket_table requests tickets"
  have table: "tickets_by_id requests [] w = Inr ?table"
    using tickets_by_id_Inr [OF tickets, of "[]"] dist by (simp add: ticket_table_def)
  have len: "length requests = length tickets" using tickets by (metis those_results_Inr length_map)
  have keys: "map fst ?table = map t_request_id tickets"
    by (rule keys_ticket_table [OF len])
  have entry: "ordered_entry ?step ?table (r, frontier r) = Inr (entry_for ?table r)
      \<and> pe_request_id (entry_for ?table r) = r \<and> pe_engine (entry_for ?table r) \<in> set requests
      \<and> check_rig (pe_engine (entry_for ?table r)) prepared_ticket w = Inr (pe_ticket (entry_for ?table r))
      \<and> t_tokens (pe_ticket (entry_for ?table r)) \<noteq> []
      \<and> tl (t_tokens (pe_ticket (entry_for ?table r))) = drafts_of d r" if "r \<in> set order" for r
  proof -
    have "r \<in> set (map t_request_id tickets)" using that order(2) d by simp
    with tickets dist obtain me t where look: "map_of ?table r = Some (me, t)" "t \<in> set tickets" "me \<in> set requests"
      "t_request_id t = r" "check_rig me prepared_ticket w = Inr t"
      by (rule ticket_table_lookup)
    then obtain g where g: "rig_at w me = Some g" "prepared_ticket g = Inr t"
      by (auto simp: check_rig_def split: option.splits)
    note p = prepared_ticket_Inr [OF g(2)]
    have "frontier r = int (t_position t)" "t_tokens t \<noteq> []" using frontier look(3,4) g(1) p(1,2,3) by auto
    then show ?thesis using look drafts_of_ticket [OF d dist look(2)]
      by (simp add: ordered_entry_def entry_for_def scheduled_for_def Let_def)
  qed
  let ?es = "map (entry_for ?table) order"
  have "map (ordered_entry ?step ?table) (zip order (sc_computed ?step)) = map Inr ?es"
    using entry by (simp add: scheduled_for_def Let_def zip_map2 zip_same_conv_map)
  then have ordered: "ordered_tickets requests ?step w = Inr ?es"
    using table order(1,3) keys order(2) d finished step_refusals_scheduled [of finished "map fst ?table" frontier d order]
    by (simp add: ordered_tickets_def those_results_Inr Let_def) (simp add: scheduled_for_def Let_def)
  have ids: "map pe_request_id ?es = order" using entry by (simp add: comp_def map_idI)
  note made = scheduled_entries [OF _ ids, of d frontier finished]
  have "admit_packed_scheduler_output requests ?step w = Inr ?es"
    unfolding admit_packed_scheduler_output_def ordered rbind_simps Let_def
    by (subst made(1), (use entry in force), subst made(1), (use entry in force), subst made(2), (use entry in force))
      (simp add: scheduled_for_def Let_def comp_def)
  then show ?thesis using entry ids by auto
qed

text \<open>The demonstration request with a ticket at hand.\<close>

definition demo_ticketed :: "(int list, int list \<times> int list) rig" where
  "demo_ticketed = snd (request_prepare demo_device ''r'' None (projr demo_request))"

definition demo_offer :: "(int list, int list \<times> int list) world" where
  "demo_offer = put_rig 0 demo_ticketed demo_world"

lemma demo_ticket: "prepared_ticket (demo_ticketed\<lparr>rg_native := x\<rparr>) = prepared_ticket demo_ticketed"
  by (simp add: prepared_ticket_def)

lemma demo_offer_rig: "rig_at demo_offer me = (if me = 0 then Some demo_ticketed else None)"
  by (simp add: demo_offer_def rig_at_def put_rig_def demo_world_def)

theorem drafts_round_trip_witness:
  "\<exists>entries. admit_packed_scheduler_output [0]
      (scheduled_for (\<lambda>_. 6) [] \<lparr>df_requests = [''r''], df_tokens = [tl (t_tokens (projr (prepared_ticket demo_ticketed)))]\<rparr> [''r''])
      demo_offer = Inr entries \<and> map pe_request_id entries = [''r'']"
proof -
  let ?t = "projr (prepared_ticket demo_ticketed)"
  have t: "prepared_ticket demo_ticketed = Inr ?t" "t_request_id ?t = ''r''"
    "s_position (rg_session demo_ticketed) = 6" "s_request_id (rg_session demo_ticketed) = ''r''"
    "s_pending (rg_session demo_ticketed) = Some ?t" "t_tokens ?t \<noteq> []" by code_simp+
  then have "check_rig 0 prepared_ticket demo_offer = Inr ?t" by (simp add: check_rig_def demo_offer_rig)
  then have offered: "packed_draft_token_ids [0] None demo_offer
      = Inr \<lparr>df_requests = [''r''], df_tokens = [tl (t_tokens ?t)]\<rparr>"
    by (simp add: packed_draft_token_ids_def t(2))
  show ?thesis using drafts_round_trip [OF offered, of "[''r'']" "\<lambda>_. 6" "[]"] t(3-) by (auto simp: demo_offer_rig)
qed

end
