(* ===== verification/Emission.thy ===== *)
theory Emission
  imports WorkerHook RoundSteps
begin

text \<open>
  What a request has emitted changes by the output its step returns and by nothing else: a step that
  raises, a round that is verified, aborted, refused or failed, and every step of another request leave it
  as it was.
\<close>

definition emitted :: "('s, 'r) rig \<Rightarrow> int list" where
  "emitted g = s_emitted (rg_session g)"

definition output_tokens :: "committed_output result \<Rightarrow> int list" where
  "output_tokens r = (case r of Inl _ \<Rightarrow> [] | Inr out \<Rightarrow> co_token_ids out)"

text \<open>An operation of a request that answers an output adds its tokens, and one that raises adds none.\<close>

definition emits :: "('s, 'r, committed_output) rig_op \<Rightarrow> bool" where
  "emits m \<longleftrightarrow> (\<forall>g. emitted (snd (m g)) = emitted g @ output_tokens (fst (m g)))"

lemma emitsD: "emits m \<Longrightarrow> m g = (r, g') \<Longrightarrow> emitted g' = emitted g @ output_tokens r"
  unfolding emits_def by (metis fst_conv snd_conv)

lemma emitted_simps [simp]:
  "emitted (set_busy b g) = emitted g" "emitted (set_cancelled g) = emitted g" "emitted (in_phase p g) = emitted g"
  "emitted (set_phase q g) = emitted g" "emitted (on_engine k g) = emitted g" "emitted (on_native h g) = emitted g"
  "emitted (on_runtime j g) = emitted g" "emitted (g\<lparr>rg_native := n\<rparr>) = emitted g"
  "emitted (g\<lparr>rg_session := s\<rparr>) = s_emitted s"
  by (simp_all add: emitted_def set_busy_def set_cancelled_def in_phase_def)

subsection \<open>The parts of a step\<close>

lemma session_quiet_emitted:
  "s_emitted (snd (fail_verification s r t)) = s_emitted s"
  "s_emitted (snd (session_abort s r t restore)) = s_emitted s"
  "s_emitted (snd (session_narrow s r t rows)) = s_emitted s"
  by (auto simp: fail_verification_def session_abort_def session_narrow_def Let_def split: callback.splits)

lemma session_commit_emitted:
  "s_emitted (snd (session_commit s r t preds publish mr)) = s_emitted s @
     (case fst (session_commit s r t preds publish mr) of Inl _ \<Rightarrow> [] | Inr d \<Rightarrow> d_emitted d)"
proof (cases "session_commit s r t preds publish mr")
  case (Pair p s')
  then show ?thesis
    by (cases p) (use session_commit_Inl [of s r t preds publish mr _ s'] session_commit_Inr(4) [of s r t preds publish mr _ s']
        in fastforce)+
qed

lemma keeps_propose: "keeps emitted (propose_ticket dv r rows)"
  unfolding keeps_def
proof
  fix g :: "('a, 'b) rig"
  obtain p g' where run: "propose_ticket dv r rows g = (p, g')" by force
  have "s_emitted (snd (session_propose s r rows sel)) = s_emitted s" for s sel
    using quiet_step_frame [OF quiet_step.propose [of s r rows sel]]
    by (auto simp: session_propose_def Let_def split: if_splits option.splits sum.splits prod.splits)
  then show "emitted (snd (propose_ticket dv r rows g)) = emitted g"
    using propose_ticket_frame(3) [OF run] run by (simp add: emitted_def)
qed

lemma keeps_prepare_emitted [keep]: "keeps emitted (request_prepare dv r packed)"
  unfolding request_prepare_def by (intro keep keeps_propose) simp_all

lemma keeps_abort_emitted [keep]: "keeps emitted (abort_ticket dv me r t)"
  by (auto simp: keeps_def abort_ticket_def Let_def emitted_def split: prod.splits
      intro: session_quiet_emitted(2) [THEN subst] dest: arg_cong [where f = snd])
    (metis session_quiet_emitted(2) snd_conv)+

lemma commit_ticket_emitted:
  "emitted (snd (commit_ticket dv me r t preds mr g)) = emitted g @
     (case fst (commit_ticket dv me r t preds mr g) of Inl _ \<Rightarrow> [] | Inr d \<Rightarrow> d_emitted d)"
  using session_commit_emitted [of "rg_session g" r t preds _ mr]
  by (auto simp: commit_ticket_def Let_def emitted_def split: prod.splits) (metis fst_conv snd_conv)

lemma keeps_cancel_emitted [keep]: "keeps emitted (cancel_pending r)"
  by (auto simp: keeps_def cancel_pending_def on_session_def emitted_def split: option.splits prod.splits)
    (metis session_quiet_emitted(1) snd_conv)

lemma step_failed_emitted [simp]: "emitted (step_failed dv me r t g) = emitted g"
  using keeps_abort_emitted [of dv me r t] by (simp add: step_failed_def keeps_def session_quiet_emitted(1)) (simp add: emitted_def)

lemma keeps_check_emitted [keep]: "keeps emitted (check_ticket t)"
  unfolding check_ticket_def by (intro keep)

lemma keeps_verify_emitted [keep]: "keeps emitted (engine_verify dv me t)"
proof -
  have "keeps emitted (verify_body dv me key t)" for key
    unfolding verify_body_def
    by (intro keep) (auto simp: keeps_def engine_ops op_then_def op_bind_def op_refuse_def Let_def emitted_def
        split: prod.splits sum.splits option.splits)
  then show ?thesis unfolding engine_verify_def
    by (intro keep) (auto simp: engine_fail_def session_quiet_emitted(1) emitted_def)
qed

lemma keeps_adopt_emitted [keep]: "keeps emitted (adopt_packed t k segment)"
  unfolding adopt_packed_def by (intro keep) simp

text \<open>An operation that emits nothing, then one that emits, and the driver's handlers around them.\<close>

lemma emits_bind: "keeps emitted m \<Longrightarrow> (\<And>x. emits (k x)) \<Longrightarrow> emits (op_bind m k)"
  unfolding emits_def keeps_def op_bind_def output_tokens_def by (auto split: prod.splits sum.splits) (metis snd_conv)+

lemma emits_then: "keeps emitted m \<Longrightarrow> emits n \<Longrightarrow> emits (op_then m n)"
  by (simp add: op_then_def emits_bind)

lemma emits_raise [simp]: "emits (\<lambda>g. (Inl e, g))" "emits (op_raise e)"
  by (simp_all add: emits_def output_tokens_def)

lemma emits_quiet_output: "emits (\<lambda>g. (Inr (output_of r [] f c g), g))"
  by (simp add: emits_def output_tokens_def output_of_def)

lemma emits_committed:
  "emits (op_bind (commit_ticket dv me r t preds mr) (\<lambda>d g. (Inr (output_of r (d_emitted d) (s_finished (rg_session g)) False g), g)))"
  unfolding emits_def
proof
  fix g :: "('a, 'b) rig"
  show "emitted (snd (op_bind (commit_ticket dv me r t preds mr)
        (\<lambda>d g. (Inr (output_of r (d_emitted d) (s_finished (rg_session g)) False g), g)) g))
      = emitted g @ output_tokens (fst (op_bind (commit_ticket dv me r t preds mr)
        (\<lambda>d g. (Inr (output_of r (d_emitted d) (s_finished (rg_session g)) False g), g)) g))"
    using commit_ticket_emitted [of dv me r t preds mr g]
    by (cases "commit_ticket dv me r t preds mr g")
      (auto simp: op_bind_def output_tokens_def output_of_def split: sum.splits)
qed

lemma emits_if: "emits m \<Longrightarrow> emits n \<Longrightarrow> emits (if c then m else n)"
  by simp

lemma emits_except: "emits m \<Longrightarrow> (\<And>g. emitted (h g) = emitted g) \<Longrightarrow> emits (op_except m h)"
  unfolding emits_def op_except_def output_tokens_def by (auto split: prod.splits sum.splits) (metis append_Nil2 fst_conv snd_conv sum.case)+

lemma emits_finally: "emits m \<Longrightarrow> (\<And>g. emitted (h g) = emitted g) \<Longrightarrow> emits (op_finally m h)"
  unfolding emits_def op_finally_def by (auto split: prod.splits) (metis fst_conv snd_conv)

lemmas emit = emits_bind emits_then emits_quiet_output emits_committed emits_if

lemma step_block_emits: "emits (step_block dv me r c t)"
  unfolding step_block_def by (intro emit keep) simp

lemma commit_entry_emits: "emits (commit_entry dv forced k e segment rows c)"
  unfolding commit_entry_def Let_def by (intro emit keep) simp

lemma request_step_emits: "emits (request_step dv me r first second)"
proof -
  have "emits (\<lambda>g. if s_finished (rg_session g) then (Inr (output_of r [] True False g), g)
       else op_bind (\<lambda>g. case s_pending (rg_session g) of
                Some ticket \<Rightarrow> (Inr ticket, g) | None \<Rightarrow> request_prepare dv r None g) (\<lambda>ticket.
          op_then (op_update (set_busy True))
           (op_finally (op_except (step_block dv me r second ticket)
                          (step_failed dv me r ticket)) (set_busy False))) g)"
    (is "emits (\<lambda>g. if _ g then _ g else ?m g)")
  proof -
    have "emits ?m"
      by (intro emit keep emits_finally emits_except step_block_emits) simp_all
    then show ?thesis using emits_quiet_output [of r True False] by (auto simp: emits_def)
  qed
  then show ?thesis
    unfolding request_step_def by (intro emit keep) simp_all
qed

end
