(* ===== verification/RoundEmission.thy ===== *)
theory RoundEmission
  imports Emission
begin

text \<open>
  What a round of several requests adds to each of them: exactly the tokens of its own outputs, whichever way
  the round went.
\<close>

definition emitted_at :: "('s, 'r) world \<Rightarrow> nat \<Rightarrow> int list option" where
  "emitted_at w me = map_option emitted (wd_rigs w me)"

text \<open>Between two worlds every request has gained the tokens of \<open>d\<close>.\<close>

definition gained :: "('s, 'r) world \<Rightarrow> ('s, 'r) world \<Rightarrow> (nat \<Rightarrow> int list) \<Rightarrow> bool" where
  "gained w w' d \<longleftrightarrow> (\<forall>me. emitted_at w' me = map_option (\<lambda>xs. xs @ d me) (emitted_at w me))"

lemma gained_refl: "emitted_at w' = emitted_at w \<Longrightarrow> gained w w' (\<lambda>_. [])"
  by (simp add: gained_def map_option.id [unfolded id_def])

lemma gained_trans: "gained w w' d \<Longrightarrow> gained w' w'' d' \<Longrightarrow> gained w w'' (\<lambda>me. d me @ d' me)"
  by (simp add: gained_def option.map_comp comp_def)

lemma gained_quiet: "emitted_at w1 = emitted_at w \<Longrightarrow> gained w1 w2 d \<Longrightarrow> emitted_at w' = emitted_at w2 \<Longrightarrow> gained w w' d"
  by (simp add: gained_def)

lemma emitted_at_native [simp]: "emitted_at (w\<lparr>wd_native := n\<rparr>) = emitted_at w"
  by (simp add: emitted_at_def fun_eq_iff)

lemma emitted_at_put: "emitted_at (put_rig me g w) = (emitted_at w)(me \<mapsto> emitted g)"
  by (simp add: emitted_at_def put_rig_def fun_eq_iff)

lemma emitted_at_rig: "rig_at w me = Some g \<Longrightarrow> emitted_at w me = Some (emitted g)"
  by (auto simp: rig_at_def emitted_at_def)

lemma at_rig_gain:
  assumes "emits m" and "at_rig me m w = (r, w')"
  shows "gained w w' (\<lambda>me'. if me' = me then output_tokens r else [])"
proof (cases "rig_at w me")
  case None
  then have "r = Inl KeyError" "w' = w" using assms(2) by (simp_all add: at_rig_def)
  then show ?thesis by (cases "emitted_at w me") (auto simp: output_tokens_def gained_def map_option.id [unfolded id_def])
next
  case (Some g)
  obtain r' g' where m: "m g = (r', g')" by force
  then have "r = r'" "w' = put_rig me g' w" using assms(2) Some by (simp_all add: at_rig_def)
  then show ?thesis using emitsD [OF assms(1) m] emitted_at_rig [OF Some]
    by (simp add: gained_def emitted_at_put map_option.id [unfolded id_def])
qed

lemma keeps_at_rig_emitted [keep]: "keeps emitted m \<Longrightarrow> keeps emitted_at (at_rig me m)"
  unfolding keeps_def
proof
  fix w :: "('a, 'b) world" assume m: "\<forall>s. emitted (snd (m s)) = emitted s"
  show "emitted_at (snd (at_rig me m w)) = emitted_at w"
  proof (cases "rig_at w me")
    case None
    then show ?thesis by (simp add: at_rig_def)
  next
    case (Some g)
    then show ?thesis using m [rule_format, of g] emitted_at_rig [OF Some]
      by (cases "m g") (auto simp: at_rig_def emitted_at_put)
  qed
qed

lemma update_rig_emitted: "(\<And>g. emitted (h g) = emitted g) \<Longrightarrow> emitted_at (update_rig me h w) = emitted_at w"
  using keeps_at_rig_emitted [of "op_update h" me] unfolding update_rig_def keeps_def by simp

lemma fold_emitted:
  "(\<And>e g. emitted (h e g) = emitted g) \<Longrightarrow> emitted_at (fold (\<lambda>e. update_rig (who e) (h e)) es w) = emitted_at w"
  by (induction es arbitrary: w) (simp_all add: update_rig_emitted)

subsection \<open>A step for every entry\<close>

text \<open>What the outputs of the entries add to an engine, and the rounds that add just that.\<close>

definition tokens_for :: "packed_entry list \<Rightarrow> committed_output list \<Rightarrow> nat \<Rightarrow> int list" where
  "tokens_for es outs me = concat (map (\<lambda>(e, out). if pe_engine e = me then co_token_ids out else []) (zip es outs))"

definition answers :: "packed_entry list \<Rightarrow> committed_output list \<Rightarrow> bool" where
  "answers es outs \<longleftrightarrow> map co_request_id outs = map pe_request_id es"

definition round_gain ::
  "packed_entry list \<Rightarrow> ('s, 'r) world \<Rightarrow> committed_output list \<Rightarrow> ('s, 'r) world \<Rightarrow> bool" where
  "round_gain es w outs w' \<longleftrightarrow> gained w w' (tokens_for es outs) \<and> answers es outs"

lemma tokens_for_simps [simp]:
  "tokens_for [] outs = (\<lambda>_. [])"
  "tokens_for (e # es) (out # outs) = (\<lambda>me. (if pe_engine e = me then co_token_ids out else []) @ tokens_for es outs me)"
  by (simp_all add: tokens_for_def fun_eq_iff)

lemma answers_simps [simp]:
  "answers [] outs \<longleftrightarrow> outs = []"
  "answers (e # es) (out # outs) \<longleftrightarrow> co_request_id out = pe_request_id e \<and> answers es outs"
  by (auto simp: answers_def)

lemma round_gain_quiet:
  "emitted_at w1 = emitted_at w \<Longrightarrow> round_gain es w1 outs w2 \<Longrightarrow> emitted_at w' = emitted_at w2 \<Longrightarrow> round_gain es w outs w'"
  unfolding round_gain_def using gained_quiet by blast

lemma each_round_gain:
  assumes "\<And>x w y w'. m x w = (Inr y, w') \<Longrightarrow> round_gain [entry x] w [y] w'"
    and "each m xs w = (Inr outs, w')"
  shows "round_gain (map entry xs) w outs w'"
  using assms(2)
proof (induction xs arbitrary: w outs)
  case Nil
  then show ?case by (simp add: round_gain_def gained_refl)
next
  case (Cons x xs)
  then obtain y w1 ys where y: "m x w = (Inr y, w1)" and ys: "each m xs w1 = (Inr ys, w')" and outs: "outs = y # ys"
    by (auto simp: op_bind_Inr)
  show ?case using assms(1) [OF y] Cons.IH [OF ys] gained_trans
    by (fastforce simp: round_gain_def outs)
qed

lemma at_rig_round_gain:
  assumes "emits m" and "at_rig (pe_engine e) m w = (Inr out, w')" and "co_request_id out = pe_request_id e"
  shows "round_gain [e] w [out] w'"
  using at_rig_gain [OF assms(1,2)] assms(3)
  by (simp add: round_gain_def gained_def output_tokens_def eq_commute)

lemma sequential_round_gain:
  assumes "sequential_packed_step dv ca es w = (Inr outs, w')"
  shows "round_gain es w outs w'"
proof -
  let ?m = "\<lambda>e. op_then (op_refuse (\<lambda>_. t_request_id (pe_ticket e) \<noteq> pe_request_id e) ValueError)
         (op_bind (at_rig (pe_engine e) (request_step dv (pe_engine e) (pe_request_id e)
                     (ca_first ca (pe_request_id e)) (ca_second ca (pe_request_id e)))) (\<lambda>output.
          op_then (op_refuse (\<lambda>_. co_request_id output \<noteq> pe_request_id e) ValueError)
           (op_return output)))"
  have "each ?m es w = (Inr outs, w')"
    using assms by (simp add: sequential_packed_step_def op_then_Inr op_refuse_Inr)
  moreover have "round_gain [e] w [y] w'" if "?m e w = (Inr y, w')" for e w y w'
    using that by (auto simp: op_returned intro: at_rig_round_gain [OF request_step_emits])
  ultimately show ?thesis using each_round_gain [of ?m "\<lambda>e. e" es w outs w'] by simp
qed

subsection \<open>The block's round\<close>

lemma keeps_emitted_world [keep]:
  "keeps emitted_at (block_replay_op dv inputs)" "keeps emitted_at (release_segment dv k segment)"
  "keeps emitted_at (op_update (on_block k h))" "keeps emitted_at (op_update world_packed_step)"
  by (auto simp: keeps_def block_replay_op_def release_segment_def on_block_def world_packed_step_def split: prod.splits)

lemma fail_ticket_emitted: "emitted (fail_ticket e g) = emitted g"
  by (simp add: fail_ticket_def session_quiet_emitted(1)) (simp add: emitted_def)

lemma fail_entry_emitted: "emitted (fail_entry dv e g) = emitted g"
  by (simp add: fail_entry_def)

lemma fold_release_emitted: "emitted_at (fold (\<lambda>segment w. snd (release_segment dv k segment w)) ss w) = emitted_at w"
  using keeps_emitted_world(2) [of dv k] by (induction ss arbitrary: w) (simp_all add: keeps_def)

lemma fail_round_emitted: "emitted_at (fail_round dv k es w) = emitted_at w"
  by (simp add: fail_round_def Let_def fold_release_emitted fold_emitted fail_entry_emitted)

lemma set_round_busy_emitted: "emitted_at (set_round_busy b es w) = emitted_at w"
  by (simp add: set_round_busy_def fold_emitted)

lemma verify_failed_emitted: "emitted_at (verify_failed k es w) = emitted_at w"
  by (simp add: verify_failed_def fold_emitted fail_ticket_emitted on_block_def)

lemma keeps_verify_device: "keeps emitted_at (verify_device dv k segments idle carries users)"
  unfolding verify_device_def by (intro keep)

lemma keeps_reading: "(\<And>w. f (snd (m w w)) = f w) \<Longrightarrow> keeps f (\<lambda>w. m w w)"
  by (simp add: keeps_def)

lemma keeps_block_verify [keep]: "keeps emitted_at (block_verify dv k entries)"
proof -
  have "keeps emitted_at (op_except (verify_device dv k segments idle carries users) (verify_failed k entries))"
    for segments idle carries users
    by (intro keep keeps_verify_device verify_failed_emitted)
  note this [keep]
  show ?thesis
    unfolding block_verify_def Let_def
    by (rule keeps_reading, rule keeps_def [THEN iffD1, THEN spec], intro keep)
qed

lemma run_verified_block_gain:
  assumes "run_verified_block dv forced ca k entries w = (Inr outs, w')"
  shows "round_gain entries w outs w'"
proof -
  let ?m = "\<lambda>(e, segment, rows). at_rig (pe_engine e) (commit_entry dv forced k e segment rows (ca_commit ca (pe_request_id e)))"
  obtain predictions segments w1 w2 where v: "block_verify dv k entries (set_round_busy True entries w) = (Inr (predictions, segments), w1)"
    and len: "length predictions = length entries" "length segments = length entries"
    and com: "each ?m (zip entries (zip segments predictions)) w1 = (Inr outs, w2)"
    and w': "w' = set_round_busy False entries (world_packed_step w2)"
    using assms by (auto simp: run_verified_block_def op_returned)
  have "co_request_id y = pe_request_id e"
    if "commit_entry dv forced k e segment rows c g = (Inr y, g')" for e segment rows c g y g'
    using that by (auto simp: commit_entry_def Let_def op_returned output_of_def split: if_splits)
  note id = this
  have "round_gain [fst x] w [y] w'" if "?m x w = (Inr y, w')" for x w y w'
  proof (cases x)
    case (fields e segment rows)
    let ?op = "commit_entry dv forced k e segment rows (ca_commit ca (pe_request_id e))"
    have run: "at_rig (pe_engine e) ?op w = (Inr y, w')" using that by (simp add: fields)
    then have "co_request_id y = pe_request_id e" by (auto simp: at_rig_def intro: id split: option.splits prod.splits)
    then show ?thesis using at_rig_round_gain [OF commit_entry_emits run] by (simp add: fields)
  qed
  from each_round_gain [of ?m fst, OF this com] have "round_gain entries w1 outs w2"
    using len by simp
  then show ?thesis
    using keepsD [OF keeps_block_verify v]
    by (rule_tac round_gain_quiet [of w1 w entries outs w2 w']) (simp_all add: w' set_round_busy_emitted world_packed_step_def)
qed

subsection \<open>Rounds the block does not serve\<close>

text \<open>Entries that differ at most in their tickets.\<close>

definition same_users :: "packed_entry list \<Rightarrow> packed_entry list \<Rightarrow> bool" where
  "same_users es es' \<longleftrightarrow> map (\<lambda>e. (pe_engine e, pe_request_id e)) es' = map (\<lambda>e. (pe_engine e, pe_request_id e)) es"

lemma same_users_refl [simp]: "same_users es es" by (simp add: same_users_def)

lemma round_gain_same:
  assumes "same_users es es'" and "round_gain es' w outs w'"
  shows "round_gain es w outs w'"
proof -
  have eng: "map pe_engine es' = map pe_engine es" and ids: "map pe_request_id es' = map pe_request_id es"
    using assms(1) unfolding same_users_def
    by (metis (no_types, lifting) comp_def fst_conv list.map_comp map_eq_conv,
        metis (no_types, lifting) comp_def snd_conv list.map_comp map_eq_conv)
  have "tokens_for xs outs me = concat (map (\<lambda>(k, out). if k = me then co_token_ids out else []) (zip (map pe_engine xs) outs))"
    for xs me by (simp add: tokens_for_def zip_map1 comp_def case_prod_unfold cong: if_cong)
  then have "tokens_for es' outs = tokens_for es outs" by (simp add: eng fun_eq_iff)
  then show ?thesis using assms(2) ids by (simp add: round_gain_def answers_def)
qed

lemma keeps_narrow_emitted [keep]: "keeps emitted (on_session (\<lambda>s. session_narrow s r t rows))"
  unfolding keeps_def
proof
  fix g :: "('a, 'b) rig"
  show "emitted (snd (on_session (\<lambda>s. session_narrow s r t rows) g)) = emitted g"
    using session_quiet_emitted(3) [of "rg_session g" r t rows]
    by (cases "session_narrow (rg_session g) r t rows") (simp add: on_session_def, simp add: emitted_def)
qed

lemma cut_entries_same:
  "cut_entries xs w = ((es, ok), w') \<Longrightarrow> same_users (map fst xs) es \<and> emitted_at w' = emitted_at w"
proof (induction xs arbitrary: w es ok w')
  case (Cons x xs)
  obtain e width where x: "x = (e, width)" by force
  show ?case
  proof (cases width)
    case None
    then show ?thesis using Cons.prems Cons.IH [of w]
      by (auto simp: x same_users_def split: prod.splits)
  next
    case (Some rows)
    obtain r w1 where n: "at_rig (pe_engine e) (on_session (\<lambda>s. session_narrow s (pe_request_id e) (pe_ticket e) (int rows))) w = (r, w1)"
      by force
    have "emitted_at w1 = emitted_at w" by (rule keepsD [OF keeps_at_rig_emitted [OF keeps_narrow_emitted] n])
    then show ?thesis using Cons.prems Cons.IH [of w1] n
      by (cases r) (auto simp: x Some same_users_def split: prod.splits)
  qed
qed simp

lemma narrow_round_same:
  assumes "narrow_round entries w = (Inr (es, ok), w')"
  shows "same_users entries es" and "emitted_at w' = emitted_at w"
proof -
  have "same_users entries es \<and> emitted_at w' = emitted_at w"
  proof (cases "those_results (map (\<lambda>e. check_rig (pe_engine e) (planned_width e) w) entries)")
    case (Inl e)
    then show ?thesis using assms by (simp add: narrow_round_def)
  next
    case (Inr widths)
    then have "length entries = length widths" unfolding those_results_Inr by (rule map_eq_imp_length_eq)
    moreover have "cut_entries (zip entries widths) w = ((es, ok), w')"
      using assms by (auto simp: narrow_round_def Inr split: prod.splits)
    ultimately show ?thesis using cut_entries_same by force
  qed
  then show "same_users entries es" and "emitted_at w' = emitted_at w" by blast+
qed

lemma refuse_round_gain:
  assumes "refuse_round dv k entries w = (Inr outs, w')"
  shows "round_gain entries w outs w'"
proof -
  have w': "w' = fail_round dv k entries w"
    and outs: "map (\<lambda>e. read_rig (pe_engine e) (output_of (pe_request_id e) [] True True) w') entries = map Inr outs"
    using assms by (auto simp: refuse_round_def Let_def those_results_Inr)
  have "co_request_id out = pe_request_id e \<and> co_token_ids out = []"
    if mem: "(e, out) \<in> set (zip entries outs)" for e out
  proof -
    obtain i where i: "i < length entries" "i < length outs" "e = entries ! i" "out = outs ! i"
      using mem by (force simp: in_set_zip)
    then have "read_rig (pe_engine e) (output_of (pe_request_id e) [] True True) w' = Inr out"
      using outs by (metis (no_types, lifting) nth_map)
    then show ?thesis by (auto simp: read_rig_def check_rig_def output_of_def split: option.splits)
  qed
  note quiet = this
  have len: "length outs = length entries" using map_eq_imp_length_eq [OF outs] by simp
  have "co_request_id (outs ! i) = pe_request_id (entries ! i)" if "i < length entries" for i
  proof -
    have "(entries ! i, outs ! i) \<in> set (zip entries outs)" using that len by (force simp: in_set_zip)
    from quiet [OF this] show ?thesis by simp
  qed
  then have "answers entries outs"
    unfolding answers_def by (intro nth_equalityI) (simp_all add: len)
  moreover have "tokens_for entries outs = (\<lambda>_. [])"
    unfolding tokens_for_def fun_eq_iff concat_eq_Nil_conv using quiet by auto
  ultimately have "answers entries outs" "tokens_for entries outs = (\<lambda>_. [])" by simp_all
  then show ?thesis
    using fail_round_emitted [of dv k entries w] by (simp add: round_gain_def w' gained_refl)
qed

end
