(* ===== verification/BlocksEmission.thy ===== *)
theory BlocksEmission
  imports RoundEmission
begin

text \<open>
  The packed device step over one block and over several: whatever a block serves, steps, narrows or
  refuses, every request gains the tokens of the output that is answered for it, and the outputs follow the
  entries.
\<close>

lemma dispose_round_cases:
  assumes "dispose_round dv sentinels ca k entries w = (Inr disposal, w')"
  shows "case disposal of
      Serve \<Rightarrow> emitted_at w' = emitted_at w
    | Step_Each es \<Rightarrow> same_users entries es \<and> emitted_at w' = emitted_at w
    | Refused outs \<Rightarrow> round_gain entries w outs w'"
proof -
  obtain reason where reason: "ineligible sentinels entries k w = Inr reason" 
    using assms by (auto simp: dispose_round_def op_bind_Inr)
  show ?thesis
  proof (cases reason)
    case None
    then show ?thesis using assms reason by (auto simp: dispose_round_def op_bind_Inr)
  next
    case (Some x)
    then obtain refused where refused: "unservable entries w = Inr refused"
      using assms reason by (auto simp: dispose_round_def op_bind_Inr)
    show ?thesis
    proof (cases "refused = []")
      case True
      then show ?thesis using assms reason Some refused by (auto simp: dispose_round_def op_bind_Inr)
    next
      case False
      then obtain es ok w1 where n: "narrow_round entries w = (Inr (es, ok), w1)"
        and rest: "(if ok then op_return (Step_Each es)
             else op_bind (refuse_round dv k es) (\<lambda>outputs. op_return (Refused outputs))) w1 = (Inr disposal, w')"
        using assms reason Some refused by (auto simp: dispose_round_def op_bind_Inr)
      note same = narrow_round_same [OF n]
      show ?thesis
      proof (cases ok)
        case True
        then show ?thesis using rest same by auto
      next
        case False
        then obtain outs where "refuse_round dv k es w1 = (Inr outs, w')" "disposal = Refused outs"
          using rest by (auto simp: op_bind_Inr)
        then show ?thesis
          using round_gain_same [OF same(1) round_gain_quiet [OF same(2) refuse_round_gain refl]] by simp
      qed
    qed
  qed
qed

lemma packed_device_step_gain:
  assumes "packed_device_step dv sentinels forced ca k entries w = (Inr outs, w')"
  shows "round_gain entries w outs w'"
proof -
  obtain disposal w1 where d: "dispose_round dv sentinels ca k entries w = (Inr disposal, w1)"
    and rest: "(case disposal of Serve \<Rightarrow> run_verified_block dv forced ca k entries
        | Step_Each es \<Rightarrow> sequential_packed_step dv ca es | Refused outs \<Rightarrow> op_return outs) w1 = (Inr outs, w')"
    using assms by (auto simp: packed_device_step_def op_returned)
  show ?thesis
  proof (cases disposal)
    case Serve
    then show ?thesis using dispose_round_cases [OF d] rest run_verified_block_gain round_gain_quiet [OF _ _ refl] by fastforce
  next
    case (Step_Each es)
    then show ?thesis
      using dispose_round_cases [OF d] rest sequential_round_gain round_gain_same round_gain_quiet [OF _ _ refl] by fastforce
  next
    case (Refused outs')
    then show ?thesis using dispose_round_cases [OF d] rest by simp
  qed
qed

subsection \<open>Several blocks\<close>

text \<open>What the outputs gathered so far, by request id, add to an engine.\<close>

definition table_tokens :: "packed_entry list \<Rightarrow> (string \<times> committed_output) list \<Rightarrow> nat \<Rightarrow> int list" where
  "table_tokens entries table me = concat (map (\<lambda>e. if pe_engine e = me
     then (case map_of table (pe_request_id e) of None \<Rightarrow> [] | Some out \<Rightarrow> co_token_ids out) else []) entries)"

lemma concat_none: "k \<notin> key ` set xs \<Longrightarrow> concat (map (\<lambda>y. if key y = k then h y else []) xs) = []"
  by (auto simp: concat_eq_Nil_conv)

lemma concat_one:
  assumes "distinct (map key xs)" and "x \<in> set xs"
  shows "concat (map (\<lambda>y. if key y = key x then h y else []) xs) = h x"
  using assms
proof (induction xs)
  case (Cons a xs)
  show ?case
  proof (cases "a = x")
    case True
    then have "key x \<notin> key ` set xs" using Cons.prems(1) by simp
    then show ?thesis using True by (simp add: concat_none del: concat_eq_Nil_conv)
  next
    case False
    then have "x \<in> set xs" "key a \<noteq> key x" using Cons.prems by auto
    then show ?thesis using Cons by simp
  qed
qed simp

lemma table_tokens_entry:
  "distinct (map pe_engine entries) \<Longrightarrow> e \<in> set entries \<Longrightarrow> table_tokens entries table (pe_engine e)
     = (case map_of table (pe_request_id e) of None \<Rightarrow> [] | Some out \<Rightarrow> co_token_ids out)"
  unfolding table_tokens_def by (rule concat_one)

lemma table_tokens_none: "me \<notin> pe_engine ` set entries \<Longrightarrow> table_tokens entries table me = []"
  unfolding table_tokens_def by (rule concat_none)

lemma map_of_add_outputs:
  "map_of (add_outputs outs table) r = (case map_of (rev (map (\<lambda>out. (co_request_id out, out)) outs)) r of
     Some out \<Rightarrow> Some out | None \<Rightarrow> map_of table r)"
  unfolding add_outputs_def
  by (induction outs arbitrary: table) (auto simp: map_add_def map_of_dict_set split: option.splits)

text \<open>The users of some entries, and the round's own.\<close>

definition pairs :: "packed_entry list \<Rightarrow> (nat \<times> string) set" where
  "pairs es = (\<lambda>e. (pe_engine e, pe_request_id e)) ` set es"

definition ids :: "packed_entry list \<Rightarrow> string set" where
  "ids es = pe_request_id ` set es"

lemma pairs_entry:
  assumes "pairs es \<subseteq> pairs entries" and "a \<in> set es"
  obtains x where "x \<in> set entries" and "pe_engine x = pe_engine a" and "pe_request_id x = pe_request_id a"
proof -
  have "(pe_engine a, pe_request_id a) \<in> pairs es" unfolding pairs_def using assms(2) by (rule imageI)
  then have "(pe_engine a, pe_request_id a) \<in> pairs entries" using assms(1) by blast
  then show thesis using that by (auto simp: pairs_def)
qed

lemma pairs_ids: "pairs es \<subseteq> pairs es' \<Longrightarrow> ids es \<subseteq> ids es'"
  by (force simp: pairs_def ids_def)

lemma same_users_pairs: "same_users es es' \<Longrightarrow> pairs es' = pairs es \<and> ids es' = ids es
    \<and> map pe_request_id es' = map pe_request_id es"
proof -
  assume s: "same_users es es'"
  have "map snd (map (\<lambda>e. (pe_engine e, pe_request_id e)) es') = map snd (map (\<lambda>e. (pe_engine e, pe_request_id e)) es)"
    using s by (simp only: same_users_def)
  then have r: "map pe_request_id es' = map pe_request_id es" by (simp add: comp_def)
  have "set (map (\<lambda>e. (pe_engine e, pe_request_id e)) es') = set (map (\<lambda>e. (pe_engine e, pe_request_id e)) es)"
    using s by (simp only: same_users_def)
  then have "pairs es' = pairs es" by (simp add: pairs_def)
  moreover have "ids es' = ids es" using arg_cong [OF r, of set] by (simp add: ids_def)
  ultimately show ?thesis using r by simp
qed

lemma answers_lookup:
  assumes "answers es outs" and "distinct (map pe_request_id es)"
  shows "i < length es \<Longrightarrow> map_of (rev (map (\<lambda>out. (co_request_id out, out)) outs)) (pe_request_id (es ! i)) = Some (outs ! i)"
    and "r \<notin> ids es \<Longrightarrow> map_of (rev (map (\<lambda>out. (co_request_id out, out)) outs)) r = None"
proof -
  have len: "length outs = length es" using assms(1) unfolding answers_def by (metis length_map)
  have dist: "distinct (map co_request_id outs)" using assms by (simp add: answers_def)
  have key: "co_request_id (outs ! i) = pe_request_id (es ! i)" if "i < length es" for i
    using assms(1) that len unfolding answers_def by (metis nth_map)
  show "map_of (rev (map (\<lambda>out. (co_request_id out, out)) outs)) (pe_request_id (es ! i)) = Some (outs ! i)"
    if "i < length es" for i
    using that dist len key [OF that] by (intro map_of_is_SomeI) (force simp: rev_map [symmetric] comp_def)+
  have "set (map co_request_id outs) = ids es" using assms(1) by (simp add: answers_def ids_def del: set_map) simp
  then show "r \<notin> ids es \<Longrightarrow> map_of (rev (map (\<lambda>out. (co_request_id out, out)) outs)) r = None"
    by (force simp: map_of_eq_None_iff)
qed

text \<open>The outputs of some entries, added to the table: what the table stands for, and what has been gained.\<close>

lemma add_outputs_gain:
  assumes dist: "distinct (map pe_engine entries)" "distinct (map pe_request_id entries)"
    and es: "pairs es \<subseteq> pairs entries" "distinct (map pe_request_id es)"
    and fresh: "ids es \<inter> dom (map_of table) = {}"
    and before: "gained w0 w (table_tokens entries table)" and run: "round_gain es w outs w'"
  shows "gained w0 w' (table_tokens entries (add_outputs outs table))"
    and "dom (map_of (add_outputs outs table)) = dom (map_of table) \<union> ids es"
proof -
  have ans: "answers es outs" and gain: "gained w w' (tokens_for es outs)" using run by (simp_all add: round_gain_def)
  note look = answers_lookup [OF ans es(2)]
  have len: "length outs = length es" using ans unfolding answers_def by (metis length_map)
  show "dom (map_of (add_outputs outs table)) = dom (map_of table) \<union> ids es"
  proof (rule set_eqI)
    fix r show "r \<in> dom (map_of (add_outputs outs table)) \<longleftrightarrow> r \<in> dom (map_of table) \<union> ids es"
    proof (cases "r \<in> ids es")
      case True
      then obtain i where "i < length es" "r = pe_request_id (es ! i)" by (auto simp: ids_def in_set_conv_nth)
      then show ?thesis using look(1) True by (auto simp: map_of_add_outputs)
    next
      case False
      then show ?thesis using look(2) by (auto simp: map_of_add_outputs)
    qed
  qed
  have eng: "distinct (map pe_engine es)"
  proof -
    have "pe_request_id a = pe_request_id b" if a: "a \<in> set es" and b: "b \<in> set es"
        and ab: "pe_engine a = pe_engine b" for a b
    proof -
      obtain x where "x \<in> set entries" "pe_engine x = pe_engine a" "pe_request_id x = pe_request_id a"
        using es(1) a by (rule pairs_entry)
      moreover obtain y where "y \<in> set entries" "pe_engine y = pe_engine b" "pe_request_id y = pe_request_id b"
        using es(1) b by (rule pairs_entry)
      moreover note ab
      ultimately have "x \<in> set entries" "y \<in> set entries" "pe_engine x = pe_engine y"
        "pe_request_id x = pe_request_id a" "pe_request_id y = pe_request_id b" by simp_all
      then show ?thesis using dist(1) by (metis distinct_map inj_onD)
    qed
    then have "inj_on pe_engine (set es)" using es(2) by (metis (no_types, lifting) distinct_map inj_on_def)
    then show ?thesis using es(2) by (simp add: distinct_map)
  qed
  have "table_tokens entries (add_outputs outs table) me = table_tokens entries table me @ tokens_for es outs me" for me
  proof (cases "me \<in> pe_engine ` set es")
    case True
    then obtain i where i: "i < length es" "me = pe_engine (es ! i)" by (auto simp: in_set_conv_nth)
    then obtain e where e: "e \<in> set entries" "pe_engine e = me" "pe_request_id e = pe_request_id (es ! i)"
      using pairs_entry [OF es(1), of "es ! i"] by force
    have "pe_request_id (es ! i) \<in> ids es" using i(1) by (simp add: ids_def)
    then have "map_of table (pe_request_id e) = None" using fresh e(3) by (auto simp: domIff)
    moreover have "map_of (add_outputs outs table) (pe_request_id e) = Some (outs ! i)"
      using look(1) [OF i(1)] e(3) by (simp add: map_of_add_outputs)
    moreover have "tokens_for es outs me = co_token_ids (outs ! i)"
    proof -
      have "distinct (map (pe_engine \<circ> fst) (zip es outs))" using eng len by (simp flip: map_map)
      moreover have "(es ! i, outs ! i) \<in> set (zip es outs)" using i(1) len by (force simp: in_set_zip)
      ultimately show ?thesis
        using concat_one [of "pe_engine \<circ> fst" "zip es outs" "(es ! i, outs ! i)" "\<lambda>p. co_token_ids (snd p)"]
        by (simp add: tokens_for_def i(2) case_prod_unfold)
    qed
    ultimately show ?thesis
      using table_tokens_entry [OF dist(1) e(1)] e(2) by simp
  next
    case False
    then have "tokens_for es outs me = []"
      by (force simp: tokens_for_def concat_eq_Nil_conv dest: set_zip_leftD)
    moreover have "table_tokens entries (add_outputs outs table) me = table_tokens entries table me"
    proof (cases "me \<in> pe_engine ` set entries")
      case True
      then obtain e where e: "e \<in> set entries" "me = pe_engine e" by auto
      have "pe_request_id e \<notin> ids es"
      proof
        assume "pe_request_id e \<in> ids es"
        then obtain a where a: "a \<in> set es" "pe_request_id a = pe_request_id e" by (auto simp: ids_def)
        then obtain x where "x \<in> set entries" "pe_engine x = pe_engine a" "pe_request_id x = pe_request_id e"
          using pairs_entry [OF es(1), of a] by force
        then have "pe_engine a = me" using dist(2) e by (metis distinct_map inj_onD)
        then show False using False a(1) by auto
      qed
      then show ?thesis using table_tokens_entry [OF dist(1) e(1)] look(2) e(2) by (simp add: map_of_add_outputs)
    qed (simp add: table_tokens_none)
    ultimately show ?thesis by simp
  qed
  then have "table_tokens entries (add_outputs outs table) = (\<lambda>me. table_tokens entries table me @ tokens_for es outs me)"
    by (simp add: fun_eq_iff)
  then show "gained w0 w' (table_tokens entries (add_outputs outs table))"
    using gained_trans [OF before gain] by simp
qed

text \<open>The group of a block is the entries bound to it, in order.\<close>

definition group_of :: "nat list \<Rightarrow> ('s, 'r) world \<Rightarrow> packed_entry list \<Rightarrow> nat option \<Rightarrow> packed_entry list" where
  "group_of blocks w entries k = filter (\<lambda>e. bound_block blocks w (pe_engine e) = k) entries"

lemma group_by_block_groups:
  assumes "group_by_block blocks w entries = (groups, unbound)"
  shows "unbound = group_of blocks w entries None"
    and "map_of groups k = (if group_of blocks w entries (Some k) = [] then None else Some (group_of blocks w entries (Some k)))"
proof -
  have "unbound = group_of blocks w entries None \<and> (\<forall>k. map_of groups k =
      (if group_of blocks w entries (Some k) = [] then None else Some (group_of blocks w entries (Some k))))"
    using assms
  proof (induction entries arbitrary: groups unbound rule: rev_induct)
    case Nil
    then show ?case by (simp add: group_by_block_def group_of_def)
  next
    case (snoc e entries)
    obtain gs ub where p: "group_by_block blocks w entries = (gs, ub)" by force
    note ih = snoc.IH [OF p]
    show ?case
    proof (cases "bound_block blocks w (pe_engine e)")
      case None
      then show ?thesis using snoc.prems p ih by (auto simp: group_by_block_def group_of_def)
    next
      case (Some k)
      then have "groups = dict_set k ((case map_of gs k of None \<Rightarrow> [] | Some es \<Rightarrow> es) @ [e]) gs" "unbound = ub"
        using snoc.prems p by (auto simp: group_by_block_def)
      then show ?thesis using ih Some by (auto simp: group_of_def map_of_dict_set)
    qed
  qed
  then show "unbound = group_of blocks w entries None"
    and "map_of groups k = (if group_of blocks w entries (Some k) = [] then None else Some (group_of blocks w entries (Some k)))"
    by auto
qed

text \<open>The entries bound to none of the blocks still to come, and the state of the rounds between two blocks.\<close>

definition gathered ::
  "packed_entry list \<Rightarrow> ('s, 'r) world \<Rightarrow> string set \<Rightarrow> (string \<times> committed_output) list \<Rightarrow> packed_entry list
     \<Rightarrow> ('s, 'r) world \<Rightarrow> bool" where
  "gathered entries w0 todo table later w \<longleftrightarrow> gained w0 w (table_tokens entries table)
     \<and> pairs later \<subseteq> pairs entries \<and> distinct (map pe_request_id later)
     \<and> ids later \<inter> dom (map_of table) = {} \<and> todo \<inter> (ids later \<union> dom (map_of table)) = {}
     \<and> (\<forall>r out. map_of table r = Some out \<longrightarrow> co_request_id out = r)"

lemma add_outputs_ids:
  "(\<forall>r out. map_of table r = Some out \<longrightarrow> co_request_id out = r) \<Longrightarrow>
     map_of (add_outputs outs table) r = Some out \<Longrightarrow> co_request_id out = r"
  by (auto simp: map_of_add_outputs split: option.splits dest!: map_of_SomeD)

lemma gathered_add:
  assumes "gathered entries w0 todo table later w" and "distinct (map pe_engine entries)" "distinct (map pe_request_id entries)"
    and "pairs es \<subseteq> pairs entries" "distinct (map pe_request_id es)" "ids es \<subseteq> todo" "round_gain es w outs w'"
    and "todo' \<subseteq> todo - ids es"
  shows "gathered entries w0 todo' (add_outputs outs table) later w'"
proof -
  have "todo \<inter> (ids later \<union> dom (map_of table)) = {}" using assms(1) by (simp add: gathered_def)
  then have fresh: "ids es \<inter> dom (map_of table) = {}" using assms(6) by blast
  have "gained w0 w (table_tokens entries table)" using assms(1) by (simp add: gathered_def)
  note a = add_outputs_gain [OF assms(2-5) fresh this assms(7)]
  have "\<forall>r out. map_of table r = Some out \<longrightarrow> co_request_id out = r" using assms(1) unfolding gathered_def by blast
  from add_outputs_ids [OF this] have "\<forall>r out. map_of (add_outputs outs table) r = Some out \<longrightarrow> co_request_id out = r"
    by blast
  moreover have "ids later \<inter> dom (map_of table) = {}" "todo \<inter> (ids later \<union> dom (map_of table)) = {}"
    using assms(1) by (simp_all add: gathered_def)
  then have "ids later \<inter> dom (map_of (add_outputs outs table)) = {}"
    "todo' \<inter> (ids later \<union> dom (map_of (add_outputs outs table))) = {}"
    using assms(6,8) unfolding a(2) by blast+
  ultimately show ?thesis using assms(1) a(1) by (simp add: gathered_def)
qed

lemma gathered_later:
  assumes "gathered entries w0 todo table later w" and "same_users es es'"
    and "pairs es \<subseteq> pairs entries" "distinct (map pe_request_id es)" "ids es \<subseteq> todo" "emitted_at w' = emitted_at w"
    and "todo' \<subseteq> todo - ids es"
  shows "gathered entries w0 todo' table (later @ es') w'"
proof -
  note s = same_users_pairs [OF assms(2)]
  have "gained w0 w' (table_tokens entries table)"
    using assms(1,6) gained_quiet [OF refl, of w0 w _ w'] by (simp add: gathered_def)
  moreover have "pairs (later @ es') = pairs later \<union> pairs es'" "ids (later @ es') = ids later \<union> ids es'"
    by (simp_all add: pairs_def ids_def image_Un)
  moreover have "distinct (map pe_request_id (later @ es'))"
  proof -
    have "set (map pe_request_id later) \<inter> set (map pe_request_id es) = {}"
      using assms(1,5) unfolding gathered_def ids_def set_map by blast
    then show ?thesis using assms(1,4) s by (simp add: gathered_def)
  qed
  moreover have "pairs (later @ es') \<subseteq> pairs entries" "ids (later @ es') \<inter> dom (map_of table) = {}"
    "todo' \<inter> (ids (later @ es') \<union> dom (map_of table)) = {}" "\<forall>r out. map_of table r = Some out \<longrightarrow> co_request_id out = r"
    using assms(1,3,5,7) s calculation(2,3) by (auto simp: gathered_def)
  ultimately show ?thesis by (simp only: gathered_def simp_thms)
qed

lemma gathered_fewer: "gathered entries w0 todo table later w \<Longrightarrow> todo' \<subseteq> todo \<Longrightarrow> gathered entries w0 todo' table later w"
  unfolding gathered_def by blast

lemma group_of_sub:
  "pairs (group_of blocks w entries k) \<subseteq> pairs entries"
  "distinct (map pe_request_id entries) \<Longrightarrow> distinct (map pe_request_id (group_of blocks w entries k))"
  by (auto simp: group_of_def pairs_def distinct_map_filter)

lemma group_of_disjoint:
  assumes "distinct (map pe_request_id entries)" and "k \<noteq> k'"
  shows "ids (group_of blocks w entries k) \<inter> ids (group_of blocks w entries k') = {}"
proof -
  have "e = e'" if "e \<in> set entries" "e' \<in> set entries" "pe_request_id e = pe_request_id e'" for e e'
    using assms(1) that by (metis distinct_map inj_onD)
  then show ?thesis using assms(2) by (auto simp: ids_def group_of_def)
qed

definition ids_of_blocks :: "nat list \<Rightarrow> ('s, 'r) world \<Rightarrow> packed_entry list \<Rightarrow> nat list \<Rightarrow> string set" where
  "ids_of_blocks blocks w entries ks = (\<Union>k \<in> set ks. ids (group_of blocks w entries (Some k)))"

lemma block_rounds_gathered:
  assumes dist: "distinct (map pe_engine entries)" "distinct (map pe_request_id entries)"
    and groups: "\<And>k. map_of groups k = (if group_of blocks v entries (Some k) = [] then None
        else Some (group_of blocks v entries (Some k)))"
    and run: "block_rounds dv sentinels forced ca groups ks table later w = (Inr (table', later'), w')"
    and ks: "distinct ks" and before: "gathered entries w0 (ids_of_blocks blocks v entries ks) table later w"
  shows "gathered entries w0 {} table' later' w'"
  using run ks before
proof (induction ks arbitrary: table later w)
  case Nil
  then show ?case by (simp add: ids_of_blocks_def)
next
  case (Cons k ks)
  let ?es = "group_of blocks v entries (Some k)" and ?todo = "ids_of_blocks blocks v entries (k # ks)"
  let ?next = "ids_of_blocks blocks v entries ks"
  have sub: "ids ?es \<subseteq> ?todo" by (auto simp: ids_of_blocks_def)
  have nxt: "?next \<subseteq> ?todo - ids ?es"
    using group_of_disjoint [OF dist(2), of "Some k" "Some k'" blocks v for k'] Cons.prems(2)
    by (fastforce simp: ids_of_blocks_def)
  show ?case
  proof (cases "?es = []")
    case True
    then have "block_rounds dv sentinels forced ca groups ks table later w = (Inr (table', later'), w')"
      using Cons.prems(1) by (simp add: groups)
    moreover have "?next \<subseteq> ?todo" using nxt by blast
    ultimately show ?thesis using Cons.IH Cons.prems(2) gathered_fewer [OF Cons.prems(3)] by simp
  next
    case False
    then have g: "map_of groups k = Some ?es" by (simp add: groups)
    obtain disposal w1 where d: "dispose_round dv sentinels ca k ?es w = (Inr disposal, w1)"
      and rest: "(case disposal of
            Serve \<Rightarrow> op_bind (run_verified_block dv forced ca k ?es) (\<lambda>done.
              block_rounds dv sentinels forced ca groups ks (add_outputs done table) later)
          | Step_Each es \<Rightarrow> block_rounds dv sentinels forced ca groups ks table (later @ es)
          | Refused done \<Rightarrow> block_rounds dv sentinels forced ca groups ks (add_outputs done table) later) w1
        = (Inr (table', later'), w')"
      using Cons.prems(1) by (auto simp: g op_bind_Inr)
    note c = dispose_round_cases [OF d]
    note grow = gathered_add [OF Cons.prems(3) dist group_of_sub(1) group_of_sub(2) [OF dist(2)] sub _ nxt]
    show ?thesis
    proof (cases disposal)
      case Serve
      then obtain outs w2 where r: "run_verified_block dv forced ca k ?es w1 = (Inr outs, w2)"
        and b: "block_rounds dv sentinels forced ca groups ks (add_outputs outs table) later w2 = (Inr (table', later'), w')"
        using rest by (auto simp: op_bind_Inr)
      have "emitted_at w1 = emitted_at w" using c Serve by simp
      from round_gain_quiet [OF this run_verified_block_gain [OF r] refl] show ?thesis
        using Cons.IH [OF b _ grow] Cons.prems(2) by simp
    next
      case (Step_Each es)
      then have s: "same_users ?es es" "emitted_at w1 = emitted_at w"
        and b: "block_rounds dv sentinels forced ca groups ks table (later @ es) w1 = (Inr (table', later'), w')"
        using c rest by simp_all
      show ?thesis
        using Cons.IH [OF b _ gathered_later [OF Cons.prems(3) s(1) group_of_sub(1) group_of_sub(2) [OF dist(2)] sub s(2) nxt]]
          Cons.prems(2) by simp
    next
      case (Refused outs)
      then have r: "round_gain ?es w outs w1"
        and b: "block_rounds dv sentinels forced ca groups ks (add_outputs outs table) later w1 = (Inr (table', later'), w')"
        using c rest by simp_all
      show ?thesis using Cons.IH [OF b _ grow [OF r]] Cons.prems(2) by simp
    qed
  qed
qed

lemma same_set_pairs: "set es' = set es \<Longrightarrow> pairs es' = pairs es \<and> ids es' = ids es"
  by (simp add: pairs_def ids_def)

lemma packed_device_rounds_gain:
  assumes dist: "distinct (map pe_engine entries)" "distinct (map pe_request_id entries)" "distinct blocks"
    and run: "packed_device_rounds dv sentinels forced ca blocks entries w = (Inr outs, w')"
  shows "round_gain entries w outs w'"
proof -
  obtain groups unbound table later stepped w1 where g: "group_by_block blocks w entries = (groups, unbound)"
    and b: "block_rounds dv sentinels forced ca groups blocks [] unbound w = (Inr (table, later), w1)"
    and s: "(if later = [] then op_return [] else sequential_packed_step dv ca (sort_key (entry_order entries) later)) w1
        = (Inr stepped, w')"
    and o': "map (\<lambda>e. case map_of (add_outputs stepped table) (pe_request_id e) of
          None \<Rightarrow> Inl KeyError | Some output \<Rightarrow> Inr output) entries = map Inr outs"
    using run by (auto simp: packed_device_rounds_def op_returned those_results_Inr split: prod.splits)
  note gr = group_by_block_groups [OF g]
  have "table_tokens entries [] = (\<lambda>_. [])" by (auto simp: fun_eq_iff table_tokens_def concat_eq_Nil_conv)
  then have "gained w w (table_tokens entries [])" using gained_refl [of w w] by simp
  moreover have "ids_of_blocks blocks w entries blocks \<inter> ids unbound = {}"
    using group_of_disjoint [OF dist(2), of _ None blocks w] by (fastforce simp: gr(1) ids_of_blocks_def)
  ultimately have "gathered entries w (ids_of_blocks blocks w entries blocks) [] unbound w"
    using group_of_sub(1) [of blocks w entries None] group_of_sub(2) [OF dist(2), of blocks w None]
    by (simp add: gathered_def gr(1))
  from block_rounds_gathered [OF dist(1,2) gr(2) b dist(3) this]
  have after: "gathered entries w {} table later w1" .
  define final where "final = add_outputs stepped table"
  have fin: "gathered entries w {} final [] w'"
  proof (cases "later = []")
    case True
    then show ?thesis using s after by (simp add: final_def add_outputs_def)
  next
    case False
    let ?es = "sort_key (entry_order entries) later"
    have r: "round_gain ?es w1 stepped w'" using s False sequential_round_gain by fastforce
    note same = same_set_pairs [of ?es later, simplified]
    have "distinct (map pe_request_id ?es)"
      using after unfolding gathered_def by (metis distinct_map distinct_sort set_sort)
    moreover have "pairs later \<subseteq> pairs entries" "ids later \<inter> dom (map_of table) = {}"
      using after by (simp_all add: gathered_def)
    moreover from this(2) have "gathered entries w (ids ?es) table [] w1"
      using after same by (simp add: gathered_def ids_def pairs_def)
    ultimately show ?thesis
      using gathered_add [of entries w "ids ?es" table "[]" w1 ?es stepped w' "{}"] dist r same by (simp add: final_def)
  qed
  have each: "map_of final (pe_request_id (entries ! i)) = Some (outs ! i)" "co_request_id (outs ! i) = pe_request_id (entries ! i)"
    if "i < length entries" for i
  proof -
    have "i < length outs" using that map_eq_imp_length_eq [OF o'] by simp
    then have "(case map_of final (pe_request_id (entries ! i)) of None \<Rightarrow> Inl KeyError | Some output \<Rightarrow> Inr output) = Inr (outs ! i)"
      using arg_cong [OF o', of "\<lambda>xs. xs ! i"] that by (simp add: final_def)
    then show m: "map_of final (pe_request_id (entries ! i)) = Some (outs ! i)" by (simp split: option.splits)
    then show "co_request_id (outs ! i) = pe_request_id (entries ! i)" using fin by (simp add: gathered_def)
  qed
  have len: "length outs = length entries" using map_eq_imp_length_eq [OF o'] by simp
  have "answers entries outs" unfolding answers_def by (intro nth_equalityI) (simp_all add: len each(2))
  moreover have "table_tokens entries final me = tokens_for entries outs me" for me
  proof -
    have "map (\<lambda>e. if pe_engine e = me then (case map_of final (pe_request_id e) of None \<Rightarrow> [] | Some out \<Rightarrow> co_token_ids out) else []) entries
        = map (\<lambda>(e, out). if pe_engine e = me then co_token_ids out else []) (zip entries outs)"
      by (intro nth_equalityI) (simp_all add: len each(1))
    then show ?thesis by (simp add: table_tokens_def tokens_for_def)
  qed
  then have "table_tokens entries final = tokens_for entries outs" by (simp add: fun_eq_iff)
  ultimately show ?thesis using fin by (simp add: round_gain_def gathered_def)
qed

end
