(* ===== verification/WorkerInvariant.thy ===== *)
theory WorkerInvariant
  imports BlocksEmission RunnerProps
begin

text \<open>
  What every operation of the worker leaves alone: the invariant of its engines, and which engine and which
  record each bridge holds.
\<close>

subsection \<open>The bridges' identities\<close>

text \<open>A bridge's key, its engine, its record's address and whether it has failed.\<close>

type_synonym bridge_id = "string \<times> nat \<times> nat \<times> bool"

definition skeleton :: "('s, 'r) worker \<Rightarrow> bridge_id list" where
  "skeleton w = map (\<lambda>(key, br). (key, br_engine br, br_state br, br_failed br)) (wk_bridges w)"

definition worker_inv ::
  "(int list \<Rightarrow> int) \<Rightarrow> (int list \<Rightarrow> 's) \<Rightarrow> ('s, 'r) device \<Rightarrow> (nat \<Rightarrow> int list \<times> session) \<Rightarrow> bridge_id list
     \<Rightarrow> ('s, 'r) worker \<Rightarrow> bool" where
  "worker_inv f st dv asked sk w \<longleftrightarrow> world_inv f st dv asked (wk_world w) \<and> skeleton w = sk"

lemma skeleton_simps [simp]:
  "skeleton (w\<lparr>wk_world := v\<rparr>) = skeleton w" "skeleton (w\<lparr>wk_runner := rn\<rparr>) = skeleton w"
  by (simp_all add: skeleton_def)

lemma skeleton_pages: "skeleton (set_bridge key (\<lambda>b. b\<lparr>br_pages := p\<rparr>) w) = skeleton w"
  by (auto simp: skeleton_def set_bridge_def split: if_splits)

lemma skeleton_fail:
  "skeleton (fail_bridge key w) = map (\<lambda>(k, me, a, b). (k, me, a, b \<or> k = key)) (skeleton w)"
  "skeleton (fail_bridges w) = map (\<lambda>(k, me, a, b). (k, me, a, True)) (skeleton w)"
  by (auto simp: skeleton_def fail_bridge_def set_bridge_def fail_bridges_def)

lemma skeleton_mem: "(k, br) \<in> set (wk_bridges w) \<Longrightarrow> (k, br_engine br, br_state br, br_failed br) \<in> set (skeleton w)"
  by (force simp: skeleton_def)

subsection \<open>Parts of the worker\<close>

lemma preserves_with_bridge [keep]: "(\<And>br. preserves P (m br)) \<Longrightarrow> preserves P (with_bridge key m)"
  by (auto simp: preserves_def with_bridge_def split: option.splits)

lemma preserves_in_world: "preserves (world_inv f st dv asked) m \<Longrightarrow> preserves (worker_inv f st dv asked sk) (in_world m)"
  unfolding preserves_def by (auto simp: in_world_def worker_inv_def split: prod.splits)

lemma preserves_in_runner [keep]: "preserves (worker_inv f st dv asked sk) (in_runner m)"
  by (auto simp: preserves_def in_runner_def worker_inv_def split: prod.splits)

lemma preserves_const_world [keep]: "preserves P (\<lambda>w. (r w, w))"
  by (simp add: preserves_def)

text \<open>A refresh of the pages changes an idle engine's table, or fails it.\<close>

lemma binding_refresh_cases:
  assumes "binding_refresh io blocks position rows (p, g) = (r, p', g')"
  shows "g' = g \<or> (en_phase (rg_engine g) = E_Idle
      \<and> (g' = on_engine (\<lambda>e. e\<lparr>en_pages := padded_table (pb_capacity p) blocks\<rparr>) g \<or> g' = set_phase E_Failed g))"
  using assms
  by (cases r) (auto simp: binding_refresh_def op_returned op_raised install_pages_def poison_pages_def split: if_splits)

lemma binding_refresh_frame:
  assumes "binding_refresh io blocks position rows (p, g) = (r, p', g')"
  shows "rg_native g' = rg_native g" and "rg_session g' = rg_session g"
  using binding_refresh_cases [OF assms] by auto

lemma binding_refresh_ok:
  assumes "binding_refresh io blocks position rows (p, g) = (r, p', g')" and "rig_ok f st me asked g"
  shows "rig_ok f st me asked g'"
  using binding_refresh_cases [OF assms(1)] assms(2) by (auto simp: rig_ok_def engine_wf_def live_at_def open_wf_def)

lemma refresh_bridge_world:
  assumes "refresh_bridge io key t w = (r, w')"
  shows "wk_runner w' = wk_runner w" and "skeleton w' = skeleton w"
    and "wk_world w' = wk_world w \<or> (\<exists>me g blocks position rows p r p' g'. rig_at (wk_world w) me = Some g
      \<and> binding_refresh io blocks position rows (p, g) = (r, p', g') \<and> wk_world w' = put_rig me g' (wk_world w))"
proof -
  have "wk_runner w' = wk_runner w \<and> skeleton w' = skeleton w \<and> (wk_world w' = wk_world w \<or>
     (\<exists>me g blocks position rows p r p' g'. rig_at (wk_world w) me = Some g
      \<and> binding_refresh io blocks position rows (p, g) = (r, p', g') \<and> wk_world w' = put_rig me g' (wk_world w)))"
  proof (cases "map_of (wk_bridges w) key")
    case None
    then show ?thesis using assms by (simp add: refresh_bridge_def with_bridge_def)
  next
    case (Some br)
    show ?thesis
    proof (cases "w' = w")
      case False
      then obtain blocks g p r' g' where b: "rq_blocks (rn_states (wk_runner w) (br_state br)) = [blocks]"
        and g: "rig_at (wk_world w) (br_engine br) = Some g"
        and run: "binding_refresh io blocks (t_position t) (length (t_tokens t)) (br_pages br, g) = (r', p, g')"
        and w': "w' = set_bridge key (\<lambda>b. b\<lparr>br_pages := p\<rparr>) (w\<lparr>wk_world := put_rig (br_engine br) g' (wk_world w)\<rparr>)"
        using assms Some by (auto simp: refresh_bridge_def with_bridge_def split: list.splits option.splits prod.splits)
      have "wk_runner w' = wk_runner w" "wk_world w' = put_rig (br_engine br) g' (wk_world w)"
        by (simp_all add: w' set_bridge_def)
      moreover have "skeleton w' = skeleton w" by (simp add: w' skeleton_pages)
      ultimately show ?thesis using g run by blast
    qed simp
  qed
  then show "wk_runner w' = wk_runner w" and "skeleton w' = skeleton w"
    and "wk_world w' = wk_world w \<or> (\<exists>me g blocks position rows p r p' g'. rig_at (wk_world w) me = Some g
      \<and> binding_refresh io blocks position rows (p, g) = (r, p', g') \<and> wk_world w' = put_rig me g' (wk_world w))"
    by blast+
qed

lemma put_rig_inv:
  assumes "world_inv f st dv asked w" and "rig_at w me = Some g" and "rig_ok f st me (asked me) g'"
    and "rg_native g' = rg_native g"
  shows "world_inv f st dv asked (put_rig me g' w)"
proof -
  have "world_data k (put_rig me g' w) = world_data k w" for k
    using assms(4) rig_at_native [OF assms(2)] by (simp add: world_data_def block_at_def put_rig_def)
  moreover have "world_ok f st asked (put_rig me g' w)"
    using assms world_ok_put [of f st asked w me g g'] by (simp add: world_inv_def)
  ultimately show ?thesis using assms(1) packed_all_data unfolding world_inv_def by blast
qed

lemma preserves_refresh [keep]: "preserves (worker_inv f st dv asked sk) (refresh_bridge io key t)"
  unfolding preserves_def
proof (intro allI impI)
  fix w :: "('a, 'b) worker" assume inv: "worker_inv f st dv asked sk w"
  obtain r w' where run: "refresh_bridge io key t w = (r, w')" by force
  have w: "world_inv f st dv asked (wk_world w)" using inv by (simp add: worker_inv_def)
  note s = refresh_bridge_world [OF run]
  from s(3) have "world_inv f st dv asked (wk_world w')"
  proof (elim disjE exE conjE)
    fix me g blocks position rows p r p' g'
    assume g: "rig_at (wk_world w) me = Some g"
      and b: "binding_refresh io blocks position rows (p, g) = (r, p', g')" and w': "wk_world w' = put_rig me g' (wk_world w)"
    have "rig_ok f st me (asked me) g" using w g by (auto simp: world_inv_def intro: world_okD)
    from binding_refresh_ok [OF b this] binding_refresh_frame(1) [OF b] show ?thesis unfolding w' by (rule put_rig_inv [OF w g])
  qed (use w in simp)
  then show "worker_inv f st dv asked sk (snd (refresh_bridge io key t w))"
    using inv s(2) run by (simp add: worker_inv_def)
qed

lemma emitted_put_same: "rig_at w me = Some g \<Longrightarrow> rg_session g' = rg_session g \<Longrightarrow> emitted_at (put_rig me g' w) = emitted_at w"
  using emitted_at_rig [of w me g] by (simp add: emitted_at_put emitted_def fun_upd_idem)

subsection \<open>Decode steps\<close>

lemma preserves_packed_body:
  assumes "\<And>entries. preserves (world_inv f st dv asked) (step entries)"
  shows "preserves (worker_inv f st dv asked sk) (packed_decode_body host step sched entries)"
  unfolding packed_decode_body_def Let_def admit_entry_def apply_entry_def
  by (intro keep preserves_in_world assms) (auto intro!: keep split: prod.splits)

lemma preserves_decode_body:
  assumes "device_ok f st dv"
  shows "preserves (worker_inv f st dv asked sk) (in_world (at_rig me (request_step dv me r first second)))"
  by (intro preserves_in_world preserves_at_rig_inv request_step_ok assms keeps_data_step)

lemma device_step_inv:
  assumes "device_ok f st dv"
  shows "preserves (world_inv f st dv asked) (device_step dv sentinels forced ca packed entries)"
  unfolding device_step_def packed_step_call_def
  by (auto intro!: sequential_inv [OF assms] packed_device_step_inv [OF assms] packed_device_rounds_inv [OF assms]
      split: packed_config.splits list.splits)

end
