(* ===== verification/WorkerDecode.thy ===== *)
theory WorkerDecode
  imports WorkerInvariant ContractProps
begin

text \<open>
  What a decode step of the worker adds to its requests and to the runner's records of them: to both, the
  tokens of the output that is answered.
\<close>

subsection \<open>Records\<close>

definition recorded :: "('s, 'r) worker \<Rightarrow> nat \<Rightarrow> int list" where
  "recorded w a = rq_output (rn_states (wk_runner w) a)"

text \<open>Between two workers the record at every address has gained the tokens of \<open>d\<close>.\<close>

definition rec_gained :: "('s, 'r) worker \<Rightarrow> ('s, 'r) worker \<Rightarrow> (nat \<Rightarrow> int list) \<Rightarrow> bool" where
  "rec_gained w w' d \<longleftrightarrow> (\<forall>a. recorded w' a = recorded w a @ d a)"

lemma rec_gained_trans: "rec_gained w w' d \<Longrightarrow> rec_gained w' w'' d' \<Longrightarrow> rec_gained w w'' (\<lambda>a. d a @ d' a)"
  by (simp add: rec_gained_def)

lemma rec_gained_refl: "rec_gained w w (\<lambda>_. [])" by (simp add: rec_gained_def)

text \<open>The address of a bridge's record.\<close>

definition record_of :: "bridge_id list \<Rightarrow> string \<Rightarrow> nat option" where
  "record_of sk key = map_option (\<lambda>(me, a, failed). a) (map_of sk key)"

lemma map_of_skeleton:
  "map_of (skeleton w) key = map_option (\<lambda>br. (br_engine br, br_state br, br_failed br)) (map_of (wk_bridges w) key)"
  by (simp add: skeleton_def map_of_map)

lemma record_of_bridge: "map_of (wk_bridges w) key = Some br \<Longrightarrow> record_of (skeleton w) key = Some (br_state br)"
  by (simp add: record_of_def map_of_skeleton)

lemma apply_committed_recorded:
  assumes "apply_committed_output a out users rn = (Inr u, rn')"
  shows "rq_output (rn_states rn' a') = rq_output (rn_states rn a') @ (if a' = a then co_token_ids out else [])"
  using assms by (elim apply_committed_output_Inr) simp

lemma in_runner_apply:
  assumes "in_runner (apply_committed_output a out users) w = (Inr u, w')"
  shows "rec_gained w w' (\<lambda>a'. if a' = a then co_token_ids out else [])" and "wk_world w' = wk_world w"
    and "skeleton w' = skeleton w"
proof -
  obtain rn' where "apply_committed_output a out users (wk_runner w) = (Inr u, rn')" and w': "w' = w\<lparr>wk_runner := rn'\<rparr>"
    using assms by (auto simp: in_runner_def split: prod.splits)
  from apply_committed_recorded [OF this(1)]
  show "rec_gained w w' (\<lambda>a'. if a' = a then co_token_ids out else [])"
    by (auto simp: rec_gained_def recorded_def w')
  show "wk_world w' = wk_world w" "skeleton w' = skeleton w" by (simp_all add: w')
qed

definition entry_record :: "bridge_id list \<Rightarrow> packed_entry \<times> committed_output \<Rightarrow> nat \<Rightarrow> int list" where
  "entry_record sk = (\<lambda>(e, out) a. if record_of sk (pe_request_id e) = Some a then co_token_ids out else [])"

lemma apply_entry_recorded:
  assumes "apply_entry users p w = (Inr u, w')"
  shows "rec_gained w w' (entry_record (skeleton w) p)" and "wk_world w' = wk_world w" and "skeleton w' = skeleton w"
proof -
  obtain e out where p: "p = (e, out)" by force
  obtain br where br: "map_of (wk_bridges w) (pe_request_id e) = Some br"
    and run: "in_runner (apply_committed_output (br_state br) out users) w = (Inr u, w')"
    using assms by (auto simp: p apply_entry_def with_bridge_def op_returned split: option.splits)
  note i = in_runner_apply [OF run]
  show "rec_gained w w' (entry_record (skeleton w) p)"
    using i(1) record_of_bridge [OF br] by (auto simp: rec_gained_def entry_record_def p)
  show "wk_world w' = wk_world w" "skeleton w' = skeleton w" by (fact i)+
qed

lemma apply_entries_recorded:
  assumes "each (apply_entry users) ps w = (Inr us, w')"
  shows "rec_gained w w' (\<lambda>a. concat (map (\<lambda>p. entry_record (skeleton w) p a) ps)) \<and> wk_world w' = wk_world w
    \<and> skeleton w' = skeleton w"
  using assms
proof (induction ps arbitrary: w us)
  case Nil
  then show ?case by (simp add: rec_gained_refl)
next
  case (Cons p ps)
  then obtain u w1 us' where u: "apply_entry users p w = (Inr u, w1)" and us: "each (apply_entry users) ps w1 = (Inr us', w')"
    by (auto simp: op_bind_Inr)
  note a = apply_entry_recorded [OF u]
  show ?case using Cons.IH [OF us] rec_gained_trans [OF a(1)] a(2,3) by fastforce
qed

subsection \<open>The packed decode\<close>

text \<open>What the host's state update keeps of the records of some addresses.\<close>

definition update_keeps :: "('s, 'r) host \<Rightarrow> sched_step \<Rightarrow> nat set \<Rightarrow> bool" where
  "update_keeps host step A \<longleftrightarrow>
     (\<forall>rn. \<forall>a \<in> A. rq_output (rn_states (snd (dv_update host step rn)) a) = rq_output (rn_states rn a))"

text \<open>A part of the step that touches neither what was emitted nor the records.\<close>

definition still :: "nat set \<Rightarrow> ('s, 'r) worker \<Rightarrow> ('s, 'r) worker \<Rightarrow> bool" where
  "still A w w' \<longleftrightarrow> emitted_at (wk_world w') = emitted_at (wk_world w) \<and> skeleton w' = skeleton w
     \<and> (\<forall>a \<in> A. recorded w' a = recorded w a)"

lemma still_refl [simp]: "still A w w" by (simp add: still_def)

lemma still_trans: "still A w w' \<Longrightarrow> still A w' w'' \<Longrightarrow> still A w w''" by (simp add: still_def)

lemma still_update:
  "update_keeps host step A \<Longrightarrow> in_runner (dv_update host step) w = (r, w') \<Longrightarrow> still A w w'"
  by (cases "dv_update host step (wk_runner w)")
    (auto simp: update_keeps_def in_runner_def still_def recorded_def dest!: spec [of _ "wk_runner w"])

lemma still_refresh: "refresh_bridge io key t w = (r, w') \<Longrightarrow> still A w w'"
proof -
  assume run: "refresh_bridge io key t w = (r, w')"
  note s = refresh_bridge_world [OF run]
  from s(3) have "emitted_at (wk_world w') = emitted_at (wk_world w)"
    by (elim disjE exE conjE) (simp_all add: emitted_put_same binding_refresh_frame(2))
  then show ?thesis using s(1,2) by (simp add: still_def recorded_def)
qed

subsection \<open>Who is admitted\<close>

lemma tickets_by_id_sound:
  assumes "tickets_by_id requests found w = Inr table" and "distinct (map fst found)"
    and "\<forall>(r, me, t) \<in> set found. check_rig me prepared_ticket w = Inr t \<and> t_request_id t = r"
  shows "distinct (map fst table) \<and> (\<forall>(r, me, t) \<in> set table. check_rig me prepared_ticket w = Inr t \<and> t_request_id t = r)
    \<and> (\<lambda>(r, me, t). me) ` set table = (\<lambda>(r, me, t). me) ` set found \<union> set requests"
  using assms
proof (induction requests arbitrary: found)
  case (Cons me requests)
  from Cons.prems(1) [unfolded tickets_by_id.simps rbind_Inr_iff] obtain t where t: "check_rig me prepared_ticket w = Inr t"
    and step: "(if map_of found (t_request_id t) \<noteq> None then Inl ValueError
        else tickets_by_id requests (found @ [(t_request_id t, me, t)]) w) = Inr table" by blast
  then have new: "map_of found (t_request_id t) = None" by (cases "map_of found (t_request_id t)") simp_all
  with step have rest: "tickets_by_id requests (found @ [(t_request_id t, me, t)]) w = Inr table" by simp
  have "distinct (map fst (found @ [(t_request_id t, me, t)]))"
    using Cons.prems(2) new by (auto simp: map_of_eq_None_iff)
  from Cons.IH [OF rest this] show ?case using Cons.prems(3) t by auto
qed simp

lemma admitted_entries:
  assumes "admit_packed_scheduler_output requests step w = Inr entries"
  shows "distinct (map pe_request_id entries)" and "distinct (map pe_engine entries)"
    and "pe_engine ` set entries = set requests"
    and "e \<in> set entries \<Longrightarrow> check_rig (pe_engine e) prepared_ticket w = Inr (pe_ticket e) \<and> t_request_id (pe_ticket e) = pe_request_id e"
proof -
  have "ordered_tickets requests step w = Inr entries"
    using assms by (auto simp: admit_packed_scheduler_output_def rbind_Inr_iff Let_def split: if_splits)
  then obtain table where table: "tickets_by_id requests [] w = Inr table"
    and order: "distinct (sc_cached step)" "set (map fst table) = set (sc_cached step)"
      "length (sc_computed step) = length (sc_cached step)"
    and each: "map (ordered_entry step table) (zip (sc_cached step) (sc_computed step)) = map Inr entries"
    by (auto simp: ordered_tickets_def rbind_Inr_iff Let_def those_results_Inr split: if_splits)
  note t = tickets_by_id_sound [OF table, simplified]
  have len: "length entries = length (sc_cached step)" using map_eq_imp_length_eq [OF each] order(3) by simp
  have entry: "pe_request_id (entries ! i) = sc_cached step ! i"
    "map_of table (sc_cached step ! i) = Some (pe_engine (entries ! i), pe_ticket (entries ! i))" if "i < length entries" for i
  proof -
    have "ordered_entry step table (sc_cached step ! i, sc_computed step ! i) = Inr (entries ! i)"
      using arg_cong [OF each, of "\<lambda>xs. xs ! i"] that len order(3) by simp
    then show "pe_request_id (entries ! i) = sc_cached step ! i"
      "map_of table (sc_cached step ! i) = Some (pe_engine (entries ! i), pe_ticket (entries ! i))"
      by (auto simp: ordered_entry_def eq_commute [of _ "entries ! i"] split: option.splits if_splits)
  qed
  have ids: "map pe_request_id entries = sc_cached step" by (rule nth_equalityI) (simp_all add: len entry(1))
  then show dist: "distinct (map pe_request_id entries)" using order(1) by simp
  have sound: "check_rig (pe_engine e) prepared_ticket w = Inr (pe_ticket e) \<and> t_request_id (pe_ticket e) = pe_request_id e"
    and mem: "(pe_request_id e, pe_engine e, pe_ticket e) \<in> set table" if e: "e \<in> set entries" for e
  proof -
    obtain i where i: "i < length entries" "e = entries ! i" using e by (auto simp: in_set_conv_nth)
    have "(sc_cached step ! i, pe_engine e, pe_ticket e) \<in> set table" using map_of_SomeD [OF entry(2) [OF i(1)]] i(2) by simp
    then show "(pe_request_id e, pe_engine e, pe_ticket e) \<in> set table" using entry(1) [OF i(1)] i(2) by simp
    then show "check_rig (pe_engine e) prepared_ticket w = Inr (pe_ticket e) \<and> t_request_id (pe_ticket e) = pe_request_id e"
      using t by fastforce
  qed
  show "e \<in> set entries \<Longrightarrow> check_rig (pe_engine e) prepared_ticket w = Inr (pe_ticket e) \<and> t_request_id (pe_ticket e) = pe_request_id e"
    by (rule sound)
  show "distinct (map pe_engine entries)"
  proof -
    have "pe_request_id e = pe_request_id e'" if "e \<in> set entries" "e' \<in> set entries" "pe_engine e = pe_engine e'" for e e'
      using sound [OF that(1)] sound [OF that(2)] that(3) by simp
    then have "inj_on pe_engine (set entries)" using dist by (metis (no_types, lifting) distinct_map inj_on_def)
    then show ?thesis using dist by (simp add: distinct_map)
  qed
  show "pe_engine ` set entries = set requests"
  proof -
    have "me \<in> pe_engine ` set entries" if "me \<in> set requests" for me
    proof -
      have "me \<in> (\<lambda>(r, me, t). me) ` set table" using that t by simp
      then obtain r tk where m: "(r, me, tk) \<in> set table" by auto
      then have "r \<in> set (sc_cached step)" using order(2) by force
      then obtain e where e: "e \<in> set entries" "pe_request_id e = r" unfolding ids [symmetric] by auto
      have "distinct (map fst table)" using t by blast
      from eq_key_imp_eq_value [OF this mem [OF e(1)]] have "(pe_engine e, pe_ticket e) = (me, tk)" using m e(2) by simp
      then show ?thesis using e(1) by auto
    qed
    moreover have "pe_engine e \<in> set requests" if e: "e \<in> set entries" for e
    proof -
      have "pe_engine e \<in> (\<lambda>(r, me, t). me) ` set table" using imageI [OF mem [OF e], of "\<lambda>(r, me, t). me"] by simp
      then show ?thesis using t by blast
    qed
    ultimately show ?thesis by blast
  qed
qed

subsection \<open>Tied records\<close>

text \<open>A bridge's record is what its session has emitted, unless the session is closed.\<close>

definition tied :: "('s, 'r) worker \<Rightarrow> bridge_id \<Rightarrow> bool" where
  "tied w = (\<lambda>(key, me, a, failed). \<exists>g. rig_at (wk_world w) me = Some g
     \<and> (s_phase (rg_session g) = Closed \<or> emitted g = recorded w a))"

text \<open>The bridges have one key, one engine and one record each.\<close>

definition skeleton_ok :: "bridge_id list \<Rightarrow> bool" where
  "skeleton_ok sk \<longleftrightarrow> distinct (map fst sk) \<and> distinct (map (\<lambda>(key, me, a, failed). me) sk)
     \<and> distinct (map (\<lambda>(key, me, a, failed). a) sk)"

lemma still_tied:
  assumes "still A w w'" and "a \<in> A" and "emitted_at (wk_world w) me = Some (recorded w a)"
  shows "emitted_at (wk_world w') me = Some (recorded w' a)"
  using assms by (simp add: still_def)

lemma tied_emitted:
  assumes "emitted_at (wk_world w) me = Some (recorded w a)"
  shows "tied w (key, me, a, failed)"
  using assms by (auto simp: tied_def emitted_at_def rig_at_def)

lemma prepared_emitted:
  assumes "tied w (key, me, a, failed)" and "check_rig me prepared_ticket (wk_world w) = Inr t"
  shows "emitted_at (wk_world w) me = Some (recorded w a)"
proof -
  obtain g where g: "rig_at (wk_world w) me = Some g" "s_phase (rg_session g) = Closed \<or> emitted g = recorded w a"
    using assms(1) by (auto simp: tied_def)
  have "s_phase (rg_session g) = Pending"
    using assms(2) prepared_ticket_Inr(5) [of g t] g(1) by (auto simp: check_rig_def)
  then show ?thesis using g emitted_at_rig [OF g(1)] by simp
qed

lemma each_still:
  assumes "\<And>x w u w'. m x w = (Inr u, w') \<Longrightarrow> still A w w'" and "each m xs w = (Inr us, w')"
  shows "still A w w'"
  using assms(2)
proof (induction xs arbitrary: w us)
  case (Cons x xs)
  then obtain u w1 us' where "m x w = (Inr u, w1)" "each m xs w1 = (Inr us', w')" by (auto simp: op_bind_Inr)
  then show ?case using assms(1) Cons.IH still_trans by blast
qed simp

text \<open>The packed decode up to the device step, the device step, and the records after it.\<close>

lemma packed_body_effect:
  assumes keep: "update_keeps host step A"
    and run: "packed_decode_body host device step entries w = (Inr ans, w')"
  obtains w1 w2 outs where "still A w w1" and "device entries (wk_world w1) = (Inr outs, w2)" and "wk_world w' = w2"
    and "skeleton w' = skeleton w" and "packed_model_runner_output outs = Inr ans" and "length outs = length entries"
    and "rec_gained w1 w' (\<lambda>a. concat (map (\<lambda>p. entry_record (skeleton w) p a) (zip entries outs)))"
proof -
  obtain us1 w0 u wa us2 w1 outs w2 us3 where
    s: "each (\<lambda>e. op_read (\<lambda>_. dv_storage host (pe_request_id e))) entries w = (Inr us1, w0)"
    and u: "in_runner (dv_update host step) w0 = (Inr u, wa)"
    and a: "each (admit_entry (dv_pages host) (length entries)) entries wa = (Inr us2, w1)"
    and d: "in_world (device entries) w1 = (Inr outs, w2)"
    and len: "length outs = length entries"
    and p: "each (apply_entry (length entries)) (zip entries outs) w2 = (Inr us3, w')"
    and ans: "packed_model_runner_output outs = Inr ans"
    using run by (auto simp: packed_decode_body_def Let_def op_returned)
  have "still A w w0" using each_still [OF _ s] by simp
  moreover have "still A w0 wa" by (rule still_update [OF keep u])
  moreover have "still A x x'" if "admit_entry (dv_pages host) (length entries) e x = (Inr v, x')" for e x v x'
    using that by (auto simp: admit_entry_def with_bridge_def op_returned still_refresh split: option.splits)
  from each_still [OF this a] have "still A wa w1" .
  ultimately have st: "still A w w1" using still_trans by blast
  obtain v where v: "device entries (wk_world w1) = (Inr outs, v)" "w2 = w1\<lparr>wk_world := v\<rparr>"
    using d by (auto simp: in_world_def split: prod.splits)
  note r = apply_entries_recorded [OF p]
  have sk: "skeleton w2 = skeleton w" using st by (simp add: v(2) still_def)
  show thesis
    by (rule that [OF st v(1) _ _ ans len])
      (use r sk in \<open>auto simp: v(2) rec_gained_def recorded_def\<close>)
qed

lemma quiet_request_id: "quiet_step s s' \<Longrightarrow> s_request_id s' = s_request_id s"
  by (induction rule: quiet_step.induct)
    (auto simp: begin_preparation_def finish_preparation_def fail_preparation_def session_propose_def session_narrow_def
      session_abort_def fail_verification_def session_close_def Let_def
      split: sum.splits option.splits callback.splits prod.splits if_splits)

lemma session_run_request_id: "session_run ok s0 s \<Longrightarrow> s_request_id s = s_request_id s0"
proof (induction rule: session_run.induct)
  case (commit s t mr preds r publish)
  have "s_request_id (snd (session_commit s r t preds publish mr)) = s_request_id s"
    by (auto simp: session_commit_def Let_def split: sum.splits option.splits callback.splits prod.splits)
  then show ?case using commit by simp
qed (simp_all add: quiet_request_id)

text \<open>A bridge's key is the id its request was asked under.\<close>

definition keyed :: "(nat \<Rightarrow> int list \<times> session) \<Rightarrow> bridge_id list \<Rightarrow> bool" where
  "keyed asked sk \<longleftrightarrow> (\<forall>(key, me, a, failed) \<in> set sk. key = s_request_id (snd (asked me)))"

lemma world_request_id:
  "world_ok f st asked w \<Longrightarrow> rig_at w me = Some g \<Longrightarrow> s_request_id (rg_session g) = s_request_id (snd (asked me))"
  using session_run_request_id rig_okD(1) [OF world_okD(2)] by blast

text \<open>The tokens a step's answer lists for a request.\<close>

definition sampled :: "runner_output \<Rightarrow> string \<Rightarrow> int list" where
  "sampled ans key = (case map_of (ro_index ans) key of None \<Rightarrow> [] | Some i \<Rightarrow> ro_sampled ans ! i)"

lemma sampled_output:
  assumes "packed_model_runner_output outs = Inr ans" and "i < length outs"
  shows "sampled ans (co_request_id (outs ! i)) = co_token_ids (outs ! i)"
proof -
  have d: "distinct (map co_request_id outs)"
    and ans: "ro_index ans = zip (map co_request_id outs) [0..<length outs]" "ro_sampled ans = map co_token_ids outs"
    using assms(1) by (auto simp: packed_model_runner_output_def Let_def split: if_splits)
  have "(co_request_id (outs ! i), i) \<in> set (zip (map co_request_id outs) [0..<length outs])"
    using assms(2) by (force simp: in_set_zip)
  then have "map_of (ro_index ans) (co_request_id (outs ! i)) = Some i"
    using d by (simp add: ans(1))
  then show ?thesis using assms(2) by (simp add: sampled_def ans(2))
qed

lemma entry_records_one:
  assumes "inj_on (record_of sk) (pe_request_id ` set es)" and "distinct (map pe_request_id es)" and "length outs = length es"
    and "i < length es" and "record_of sk (pe_request_id (es ! i)) = Some a"
  shows "concat (map (\<lambda>p. entry_record sk p a) (zip es outs)) = co_token_ids (outs ! i)"
proof -
  have "inj_on pe_request_id (set es)" using assms(2) by (simp add: distinct_map)
  then have "inj_on (record_of sk \<circ> pe_request_id) (set es)" using assms(1) comp_inj_on by blast
  then have "distinct (map (record_of sk \<circ> pe_request_id) es)" using assms(2) by (simp add: distinct_map)
  then have "distinct (map (record_of sk \<circ> pe_request_id \<circ> fst) (zip es outs))"
    using assms(3) by (simp flip: map_map)
  moreover have "(es ! i, outs ! i) \<in> set (zip es outs)" using assms(3,4) by (force simp: in_set_zip)
  ultimately show ?thesis
    using concat_one [of "record_of sk \<circ> pe_request_id \<circ> fst" "zip es outs" "(es ! i, outs ! i)" "\<lambda>p. co_token_ids (snd p)"] assms(5)
    by (simp add: entry_record_def case_prod_unfold)
qed

lemma tokens_for_one:
  assumes "distinct (map pe_engine es)" and "length outs = length es" and "i < length es"
  shows "tokens_for es outs (pe_engine (es ! i)) = co_token_ids (outs ! i)"
proof -
  have "distinct (map (pe_engine \<circ> fst) (zip es outs))" using assms(1,2) by (simp flip: map_map)
  moreover have "(es ! i, outs ! i) \<in> set (zip es outs)" using assms(2,3) by (force simp: in_set_zip)
  ultimately show ?thesis
    using concat_one [of "pe_engine \<circ> fst" "zip es outs" "(es ! i, outs ! i)" "\<lambda>p. co_token_ids (snd p)"]
    by (simp add: tokens_for_def case_prod_unfold)
qed

lemma record_of_mem:
  "distinct (map fst sk) \<Longrightarrow> (key, me, a, failed) \<in> set sk \<Longrightarrow> record_of sk key = Some a"
  by (simp add: record_of_def)

lemma record_of_inj:
  assumes "skeleton_ok sk"
  shows "inj_on (record_of sk) (fst ` set sk)"
proof (rule inj_onI)
  fix k k' assume "k \<in> fst ` set sk" "k' \<in> fst ` set sk" and eq: "record_of sk k = record_of sk k'"
  then obtain me a b me' a' b' where m: "(k, me, a, b) \<in> set sk" "(k', me', a', b') \<in> set sk" by force
  have "a = a'" using record_of_mem [of sk] assms m eq by (simp add: skeleton_ok_def)
  moreover have "inj_on (\<lambda>(key, me, a, failed). a) (set sk)" using assms by (simp add: skeleton_ok_def distinct_map)
  from inj_onD [OF this _ m] calculation have "(k, me, a, b) = (k', me', a', b')" by simp
  then show "k = k'" by simp
qed

subsection \<open>What a decode adds\<close>

definition addresses :: "bridge_id list \<Rightarrow> nat set" where
  "addresses sk = (\<lambda>(key, me, a, failed). a) ` set sk"

text \<open>A device step that adds to its entries exactly the tokens it answers for them.\<close>

definition gains_outputs :: "(packed_entry list \<Rightarrow> ('s, 'r, committed_output list) world_op) \<Rightarrow> bool" where
  "gains_outputs device \<longleftrightarrow> (\<forall>es w outs w'. distinct (map pe_engine es) \<longrightarrow> distinct (map pe_request_id es) \<longrightarrow>
     device es w = (Inr outs, w') \<longrightarrow> round_gain es w outs w')"

lemma packed_decode_gain:
  assumes w: "world_ok f st asked (wk_world w)" and sk: "skeleton_ok (skeleton w)" "keyed asked (skeleton w)"
    and tie: "\<forall>b \<in> set (skeleton w). tied w b"
    and keep: "update_keeps host step (addresses (skeleton w))" and dev: "gains_outputs device"
    and run: "execute_packed_decode host device step w = (Inr ans, w')"
  shows "skeleton w' = skeleton w"
    and "(key, me, a, failed) \<in> set (skeleton w) \<Longrightarrow> emitted_at (wk_world w') me = Some (recorded w' a)
      \<and> recorded w' a = recorded w a @ sampled ans key"
proof -
  have eng: "map (\<lambda>(_, br). br_engine br) (wk_bridges w) = map (\<lambda>(key, me, a, failed). me) (skeleton w)"
    by (simp add: skeleton_def case_prod_unfold)
  obtain entries where adm: "admit_packed_scheduler_output (map (\<lambda>(_, br). br_engine br) (wk_bridges w)) step (wk_world w) = Inr entries"
    and body: "packed_decode_body host device step entries w = (Inr ans, w')"
    using run by (auto simp: execute_packed_decode_def op_returned)
  note ad = admitted_entries [OF adm]
  obtain w1 w2 outs where st: "still (addresses (skeleton w)) w w1" and d: "device entries (wk_world w1) = (Inr outs, w2)"
    and w2: "wk_world w' = w2" and sk': "skeleton w' = skeleton w"
    and ans: "packed_model_runner_output outs = Inr ans" and len: "length outs = length entries"
    and rec: "rec_gained w1 w' (\<lambda>a. concat (map (\<lambda>p. entry_record (skeleton w) p a) (zip entries outs)))"
    using packed_body_effect [OF keep body] by metis
  show "skeleton w' = skeleton w" by (rule sk')
  have gain: "gained (wk_world w1) w2 (tokens_for entries outs)" and out: "answers entries outs"
    using dev [unfolded gains_outputs_def, rule_format, OF ad(2,1) d] by (simp_all add: round_gain_def)
  have idkey: "pe_request_id e = key" if "e \<in> set entries" "(key, pe_engine e, a, failed) \<in> set (skeleton w)" for e key a failed
  proof -
    have c: "check_rig (pe_engine e) prepared_ticket (wk_world w) = Inr (pe_ticket e)" "t_request_id (pe_ticket e) = pe_request_id e"
      using ad(4) [OF that(1)] by simp_all
    then obtain g where "rig_at (wk_world w) (pe_engine e) = Some g" "prepared_ticket g = Inr (pe_ticket e)"
      by (auto simp: check_rig_def split: option.splits)
    then have "pe_request_id e = s_request_id (snd (asked (pe_engine e)))"
      using c(2) prepared_ticket_Inr(2) world_request_id [OF w] by metis
    then show ?thesis using sk(2) that(2) by (auto simp: keyed_def)
  qed
  have "pe_request_id ` set entries \<subseteq> fst ` set (skeleton w)"
  proof
    fix r assume "r \<in> pe_request_id ` set entries"
    then obtain e where e: "e \<in> set entries" "r = pe_request_id e" by auto
    then have "pe_engine e \<in> set (map (\<lambda>(key, me, a, failed). me) (skeleton w))" using ad(3) by (auto simp flip: eng)
    then obtain key a failed where "(key, pe_engine e, a, failed) \<in> set (skeleton w)" by auto
    then show "r \<in> fst ` set (skeleton w)" using idkey [OF e(1)] e(2) by force
  qed
  then have inj: "inj_on (record_of (skeleton w)) (pe_request_id ` set entries)"
    by (rule inj_on_subset [OF record_of_inj [OF sk(1)]])
  assume mem: "(key, me, a, failed) \<in> set (skeleton w)"
  then have "me \<in> pe_engine ` set entries" using ad(3) by (force simp: eng)
  then obtain i where i: "i < length entries" "me = pe_engine (entries ! i)" by (auto simp: in_set_conv_nth)
  have key: "pe_request_id (entries ! i) = key" using idkey i mem by simp
  have rof: "record_of (skeleton w) key = Some a" using record_of_mem mem sk(1) by (simp add: skeleton_ok_def)
  have "emitted_at (wk_world w) me = Some (recorded w a)"
    using prepared_emitted tie mem ad(4) [of "entries ! i"] i by (metis nth_mem)
  moreover have "a \<in> addresses (skeleton w)" using mem by (force simp: addresses_def)
  ultimately have e1: "emitted_at (wk_world w1) me = Some (recorded w1 a)" "recorded w1 a = recorded w a"
    using still_tied [OF st] st by (simp_all add: still_def)
  have "recorded w' a = recorded w1 a @ co_token_ids (outs ! i)"
    using rec entry_records_one [OF inj ad(1) len i(1)] rof key by (simp add: rec_gained_def)
  moreover have "emitted_at (wk_world w') me = Some (recorded w1 a @ co_token_ids (outs ! i))"
    using gain e1(1) tokens_for_one [OF ad(2) len i(1)] i(2) w2 by (simp add: gained_def)
  moreover have "co_request_id (outs ! i) = key" using out key len i(1) unfolding answers_def by (metis nth_map)
  then have "sampled ans key = co_token_ids (outs ! i)" using sampled_output [OF ans, of i] len i(1) by simp
  ultimately show "emitted_at (wk_world w') me = Some (recorded w' a) \<and> recorded w' a = recorded w a @ sampled ans key"
    using e1(2) by simp
qed

end
