(* ===== verification/WorkerQuiet.thy ===== *)
theory WorkerQuiet
  imports WorkerDecode
begin

text \<open>
  The worker's operations that emit nothing: proposals, the discard of a stale ticket, closing. A session they
  do not close keeps its text, and a closed one stays closed.
\<close>

definition silent :: "('s, 'r, 'a) rig_op \<Rightarrow> bool" where
  "silent m \<longleftrightarrow> (\<forall>g. s_phase (rg_session (snd (m g))) = Closed
     \<or> emitted (snd (m g)) = emitted g \<and> s_phase (rg_session g) \<noteq> Closed)"

named_theorems silence

lemma silentD: "silent m \<Longrightarrow> m g = (r, g') \<Longrightarrow> s_phase (rg_session g') = Closed
    \<or> emitted g' = emitted g \<and> s_phase (rg_session g) \<noteq> Closed"
  unfolding silent_def by (metis snd_conv)

lemma silent_keeps: "keeps rg_session m \<Longrightarrow> silent m"
  unfolding silent_def keeps_def emitted_def by metis

lemma silent_read [silence]: "silent (op_read h)" "silent (op_return x)" "silent (op_refuse c e)"
    "silent (\<lambda>g. (r g, g))"
  by (auto simp: silent_def op_refuse_def)

lemma silent_update [silence]: "(\<And>g. rg_session (h g) = rg_session g) \<Longrightarrow> silent (op_update h)"
  by (simp add: silent_def emitted_def)

lemma silent_bind [silence]: "silent m \<Longrightarrow> (\<And>x. silent (k x)) \<Longrightarrow> silent (op_bind m k)"
  unfolding silent_def op_bind_def by (auto split: prod.splits sum.splits) (metis snd_conv)+

lemma silent_then [silence]: "silent m \<Longrightarrow> silent n \<Longrightarrow> silent (op_then m n)"
  by (simp add: op_then_def silent_bind)

lemma silent_finally [silence]: "silent m \<Longrightarrow> (\<And>g. rg_session (h g) = rg_session g) \<Longrightarrow> silent (op_finally m h)"
  unfolding silent_def op_finally_def emitted_def by (auto split: prod.splits) (metis snd_conv)+

lemma silent_if [silence]: "silent m \<Longrightarrow> silent n \<Longrightarrow> silent (\<lambda>g. if c g then m g else n g)"
  by (simp add: silent_def)

lemma silent_session [silence]:
  assumes "\<And>s. s_phase (snd (m s)) = Closed \<or> s_emitted (snd (m s)) = s_emitted s \<and> s_phase s \<noteq> Closed"
  shows "silent (on_session m)"
  unfolding silent_def
proof
  fix g
  show "s_phase (rg_session (snd (on_session m g))) = Closed
     \<or> emitted (snd (on_session m g)) = emitted g \<and> s_phase (rg_session g) \<noteq> Closed"
    using assms [of "rg_session g"] by (cases "m (rg_session g)") (auto simp: on_session_def emitted_def)
qed

lemma silent_reading: "(\<And>x. silent (m x)) \<Longrightarrow> silent (\<lambda>g. m (h g) g)"
  by (simp add: silent_def)

subsection \<open>Proposals and stale tickets\<close>

lemma fail_verification_silent:
  "s_phase (snd (fail_verification s r t)) = Closed \<or> s_emitted (snd (fail_verification s r t)) = s_emitted s \<and> s_phase s \<noteq> Closed"
  by (auto simp: fail_verification_def ticket_live_def)

lemma session_propose_silent:
  "s_phase (snd (session_propose s r rows sel)) = Closed
    \<or> s_emitted (snd (session_propose s r rows sel)) = s_emitted s \<and> s_phase s \<noteq> Closed"
  using quiet_step_frame [OF quiet_step.propose [of s r rows sel]] by auto

lemma propose_ticket_silent: "silent (propose_ticket dv r rows)"
  unfolding silent_def
proof
  fix g :: "('a, 'b) rig"
  obtain p g' where run: "propose_ticket dv r rows g = (p, g')" by force
  show "s_phase (rg_session (snd (propose_ticket dv r rows g))) = Closed
     \<or> emitted (snd (propose_ticket dv r rows g)) = emitted g \<and> s_phase (rg_session g) \<noteq> Closed"
    using session_propose_silent [of "with_drafter dv g" r rows "Some ''dflash2''"] propose_ticket_frame(3) [OF run] run
    by (simp add: emitted_def)
qed

lemma request_prepare_silent [silence]: "silent (request_prepare dv r packed)"
  unfolding request_prepare_def by (intro silence propose_ticket_silent) simp_all

lemma discard_stale_silent: "silent (discard_stale_ticket rows)"
  by (auto simp: silent_def discard_stale_ticket_def stale_ticket_def discard_proposal_def drop_pending_def emitted_def
      op_then_def op_bind_def split: option.splits)

lemma rig_drafts_silent: "silent (rig_drafts dv packed_rows)"
proof -
  have "silent (\<lambda>g. op_then (request_prepare dv (s_request_id (rg_session g)) packed_rows) (op_return ()) g)"
    by (rule silent_reading) (intro silence)
  then show ?thesis unfolding rig_drafts_def by (intro silence)
qed

subsection \<open>Closing\<close>

lemma cancel_pending_silent [silence]: "silent (cancel_pending r)"
  unfolding silent_def
proof
  fix g :: "('a, 'b) rig"
  show "s_phase (rg_session (snd (cancel_pending r g))) = Closed
     \<or> emitted (snd (cancel_pending r g)) = emitted g \<and> s_phase (rg_session g) \<noteq> Closed"
    using silent_session [of "\<lambda>s. fail_verification s r (the (s_pending (rg_session g)))"] fail_verification_silent
    by (cases "s_pending (rg_session g)") (auto simp: cancel_pending_def silent_def)
qed

lemma engine_release_silent: "silent (engine_close dv me)" "silent (park_or_close dv me)"
proof -
  have "keeps rg_session (engine_close dv me)" "keeps rg_session (engine_park dv me)"
    unfolding engine_close_def engine_park_def
    by (auto simp: keeps_def op_then_def op_bind_def op_refuse_def leave_slot_def split: sum.splits)
  then have s: "silent (engine_close dv me)" "silent (engine_park dv me)" by (simp_all add: silent_keeps)
  then show "silent (engine_close dv me)" by simp
  have "silent (if parked then op_return () else engine_close dv me)" for parked
    using s(1) silence by (cases parked) simp_all
  then show "silent (park_or_close dv me)" unfolding park_or_close_def by (rule silent_bind [OF s(2)])
qed

lemma session_close_silent:
  "s_phase (snd (session_close s r)) = Closed \<or> s_emitted (snd (session_close s r)) = s_emitted s \<and> s_phase s \<noteq> Closed"
  by (auto simp: session_close_def split: sum.splits)

lemma request_close_silent:
  assumes "\<And>m. release = Some m \<Longrightarrow> silent m"
  shows "silent (request_close dv me r release released)"
proof -
  have "silent (case release of None \<Rightarrow> engine_close dv me | Some m \<Rightarrow> m)"
    using assms engine_release_silent by (cases release) simp_all
  moreover have "silent (on_session (\<lambda>s. session_close s r))"
    by (rule silent_session) (rule session_close_silent)
  ultimately show ?thesis
    unfolding request_close_def by (intro silence) (simp_all add: session_close_silent)
qed

end
