(* ===== verification/ServingPolicy.thy ===== *)
theory ServingPolicy
  imports Complex_Main PackedBlock "HOL-Library.List_Lexorder" "HOL-Library.Char_ord"
begin

text \<open>
  The configuration contract of fast serving, \<open>scripts/ci/serving_fast_policy.py\<close>: its flags, the packed
  geometry, the engine configuration it admits and the sampling parameters a request may ask for.

  An environment is its list of names and values. Values that are not of the type the code asks for are
  left out, except where the code says what they mean. \<open>fast_config\<close> holds the fields of vLLM's configuration
  the code reads; the texts of the problems are left out and their kinds are kept.
\<close>

type_synonym environ = "(string \<times> string) list"

subsection \<open>Flags\<close>

definition env_value :: "environ \<Rightarrow> string \<Rightarrow> string \<Rightarrow> string" where
  "env_value env name otherwise = (case map_of env name of None \<Rightarrow> otherwise | Some v \<Rightarrow> v)"

definition binary_flag :: "string \<Rightarrow> environ \<Rightarrow> bool result" where
  "binary_flag name env =
     (let value = env_value env name ''0''
      in if value \<noteq> ''0'' \<and> value \<noteq> ''1'' then Inl ValueError else Inr (value = ''1''))"

definition any_request_enabled :: "environ \<Rightarrow> bool result" where
  "any_request_enabled = binary_flag ''QWEN_FAST_ANY_REQUEST''"

definition sticky_sessions_enabled :: "environ \<Rightarrow> bool result" where
  "sticky_sessions_enabled = binary_flag ''QWEN_FAST_STICKY_SESSIONS''"

definition extent_replay_enabled :: "environ \<Rightarrow> bool result" where
  "extent_replay_enabled = binary_flag ''QWEN_FAST_EXTENT_REPLAY''"

definition parked_engines_enabled :: "environ \<Rightarrow> bool result" where
  "parked_engines_enabled = binary_flag ''QWEN_FAST_PARKED_ENGINES''"

definition quick_win_flags :: "string list" where
  "quick_win_flags = [''QWEN_FAST_MEMORY_LEDGER_OFF'', ''QWEN_FAST_ENGINE_WARM_SKIP'']"

definition quick_win_enabled :: "string \<Rightarrow> environ \<Rightarrow> bool result" where
  "quick_win_enabled flag env = (if flag \<notin> set quick_win_flags then Inl ValueError else binary_flag flag env)"

definition engine_warm_skip_enabled :: "environ \<Rightarrow> bool result" where
  "engine_warm_skip_enabled = quick_win_enabled ''QWEN_FAST_ENGINE_WARM_SKIP''"

definition quick_win_problems :: "environ \<Rightarrow> string list" where
  "quick_win_problems env =
     filter (\<lambda>flag. case map_of env flag of None \<Rightarrow> False | Some v \<Rightarrow> v \<noteq> ''0'' \<and> v \<noteq> ''1'') quick_win_flags"

definition prefix_cache_admitted :: "string option \<Rightarrow> environ \<Rightarrow> bool result" where
  "prefix_cache_admitted algo env = rbind (sticky_sessions_enabled env) (\<lambda>sticky.
     Inr (sticky \<and> map_of env ''QWEN_PREFIX_REUSE'' = Some ''1'' \<and> algo = Some ''sha256''))"

text \<open>The output budget: unset or empty, a text that is no integer, or an integer.\<close>

definition output_budget :: "int option option \<Rightarrow> int result" where
  "output_budget setting =
     (case setting of
        None \<Rightarrow> Inr 256
      | Some parsed \<Rightarrow>
          (let budget = (case parsed of None \<Rightarrow> 0 | Some n \<Rightarrow> n)
           in if budget < 256 \<or> budget > 16384 \<or> budget mod 256 \<noteq> 0 then Inl ValueError else Inr budget))"

subsection \<open>Parked engines\<close>

datatype problem = Unknown_Name string | Bad_Flag string | Needs string string | Not_Four_Users int
  | Eager_Proposals | Gather_Experiment string | Bad_Value string string

definition parked_names :: "string list" where
  "parked_names = [''QWEN_FAST_PARKED_ENGINES'', ''QWEN_FAST_PARKED_PROJECT_ROWS'', ''QWEN_FAST_PARKED_AUDIT'',
     ''QWEN_FAST_PARKED_NEGATIVE'', ''QWEN_FAST_PARKED_FAULT'']"

definition parked_prefix :: string where
  "parked_prefix = ''QWEN_FAST_PARKED_''"

definition parked_needs :: "(string \<times> string) list" where
  "parked_needs = [(''QWEN_FAST_ANY_REQUEST'', ''1''), (''QWEN_FAST_EXTENT_REPLAY'', ''1''),
     (''QWEN_FAST_PACKED_STEP'', ''1''), (''QWEN_FAST_SHARED_CCL'', ''1''), (''QWEN_FAST_VERIFY_T1'', ''1'')]"

definition is_digit :: "char \<Rightarrow> bool" where
  "is_digit c \<longleftrightarrow> c \<in> set ''0123456789''"

definition decimal :: "string \<Rightarrow> int" where
  "decimal s = foldl (\<lambda>n c. n * 10 + (int (of_char c) - 48)) 0 s"

text \<open>\<open>rows.isdigit() and rows == str(int(rows))\<close>, on ASCII digits.\<close>

definition is_numeral :: "string \<Rightarrow> bool" where
  "is_numeral s \<longleftrightarrow> s \<noteq> [] \<and> list_all is_digit s \<and> (hd s \<noteq> CHR ''0'' \<or> length s = 1)"

definition rows_setting_ok :: "string \<Rightarrow> bool" where
  "rows_setting_ok s \<longleftrightarrow> is_numeral s \<and> (decimal s = 0 \<or> decimal s mod 32 = 0 \<and> decimal s \<le> 2048)"

definition choice_problem :: "environ \<Rightarrow> string \<Rightarrow> string list \<Rightarrow> problem list" where
  "choice_problem env name choices =
     (case map_of env name of
        None \<Rightarrow> [] | Some v \<Rightarrow> if v \<noteq> [] \<and> v \<notin> set choices then [Bad_Value name v] else [])"

definition parked_shape_problems :: "environ \<Rightarrow> int \<Rightarrow> problem list" where
  "parked_shape_problems env users =
     map (\<lambda>(name, wanted). Needs name wanted) (filter (\<lambda>(name, wanted). map_of env name \<noteq> Some wanted) parked_needs)
   @ (if users \<noteq> 4 then [Not_Four_Users users] else [])
   @ (if map_of env ''QWEN_FAST_EAGER_PROPOSAL'' = Some ''1'' then [Eager_Proposals] else [])
   @ map Gather_Experiment (filter (\<lambda>name. env_value env name ''0'' \<noteq> ''0'')
       [''QWEN_GDN_GROUPED_GATHER_ABBA'', ''QWEN_GDN_GATE_EXP_ABBA''])
   @ (if env_value env ''QWEN_FAST_PARKED_AUDIT'' ''0'' \<notin> {''0'', ''1''}
      then [Bad_Value ''QWEN_FAST_PARKED_AUDIT'' (env_value env ''QWEN_FAST_PARKED_AUDIT'' ''0'')] else [])
   @ (let rows = env_value env ''QWEN_FAST_PARKED_PROJECT_ROWS'' ''256''
      in if \<not> rows_setting_ok rows then [Bad_Value ''QWEN_FAST_PARKED_PROJECT_ROWS'' rows] else [])
   @ choice_problem env ''QWEN_FAST_PARKED_NEGATIVE'' [''carry'', ''drafter'']
   @ choice_problem env ''QWEN_FAST_PARKED_FAULT'' [''park'']"

definition parked_engine_problems :: "environ \<Rightarrow> int \<Rightarrow> problem list" where
  "parked_engine_problems env users =
     (let unknown = map Unknown_Name (filter (\<lambda>name. take (length parked_prefix) name = parked_prefix
                        \<and> name \<notin> set parked_names) (sort (map fst env)))
      in case parked_engines_enabled env of
           Inl _ \<Rightarrow> unknown @ [Bad_Flag ''QWEN_FAST_PARKED_ENGINES'']
         | Inr enabled \<Rightarrow> if enabled then unknown @ parked_shape_problems env users else unknown)"

subsection \<open>The packed geometry\<close>

definition NATIVE_GDN_SLOTS :: int where "NATIVE_GDN_SLOTS = 8"

record geometry =
  ge_users :: int
  ge_block_rows :: int
  ge_verifier_rows :: int
  ge_proposals_per_user :: int

definition packed_geometry :: "int \<Rightarrow> int \<Rightarrow> geometry result" where
  "packed_geometry users block_rows =
     (if block_rows \<notin> {32, 64} then Inl ValueError
      else if \<not> (1 \<le> users \<and> users \<le> NATIVE_GDN_SLOTS) \<or> block_rows mod users \<noteq> 0 then Inl ValueError
      else let rows = block_rows div users
           in if rows \<notin> {8, 16, 32} then Inl ValueError
              else Inr \<lparr>ge_users = users, ge_block_rows = rows, ge_verifier_rows = block_rows,
                        ge_proposals_per_user = rows - 1\<rparr>)"

subsection \<open>The engine's configuration\<close>

text \<open>\<open>additional_config\<close>: absent, no mapping, or its \<open>qwen_fast_t16\<close>, None when that is no boolean.\<close>

datatype extra_config = No_Extra | Not_A_Mapping | Fast_Entry "bool option"

record fast_config =
  fc_extra :: extra_config
  fc_max_num_seqs :: int
  fc_async :: bool
  fc_tensor_parallel :: int
  fc_pipeline_parallel :: int
  fc_data_parallel :: int
  fc_block_size :: int
  fc_prefix_caching :: bool
  fc_hash_algo :: "string option"
  fc_lora :: bool
  fc_model_len :: int
  fc_speculative :: "(string \<times> int \<times> string \<times> string) option"
  fc_scheduler_set :: bool

record fast_profile =
  fp_scheduler_requests :: int
  fp_native_gdn_slots :: int
  fp_verifier_rows :: int
  fp_physical_devices :: int
  fp_context_tokens :: int
  fp_output_budget :: int
  fp_max_model_len :: int

definition fast_requested :: "fast_config \<Rightarrow> bool result" where
  "fast_requested c = (case fc_extra c of
     No_Extra \<Rightarrow> Inr False | Not_A_Mapping \<Rightarrow> Inl ValueError
   | Fast_Entry None \<Rightarrow> Inl ValueError | Fast_Entry (Some b) \<Rightarrow> Inr b)"

definition minimum_model_len :: "int \<Rightarrow> int" where
  "minimum_model_len budget = 4096 + budget"

definition cache_problem :: "fast_config \<Rightarrow> environ \<Rightarrow> bool result" where
  "cache_problem c env =
     (if fc_block_size c \<noteq> 64 then Inr True
      else if fc_prefix_caching c then rbind (prefix_cache_admitted (fc_hash_algo c) env) (\<lambda>ok. Inr (\<not> ok))
      else Inr False)"

text \<open>The profile, and whether the one-in-flight scheduler is installed.\<close>

definition validate_fast_config :: "int \<Rightarrow> environ \<Rightarrow> fast_config \<Rightarrow> (fast_profile \<times> bool) result" where
  "validate_fast_config budget env c = rbind (fast_requested c) (\<lambda>fast.
     if \<not> fast then Inl ValueError
     else if \<not> (1 \<le> fc_max_num_seqs c \<and> fc_max_num_seqs c \<le> NATIVE_GDN_SLOTS) \<or> fc_async c
       \<or> fc_tensor_parallel c \<noteq> 1 \<or> fc_pipeline_parallel c \<noteq> 1 \<or> fc_data_parallel c \<noteq> 1 then Inl ValueError
     else rbind (cache_problem c env) (\<lambda>bad_cache.
       if bad_cache \<or> fc_lora c \<or> fc_model_len c < minimum_model_len budget \<or> fc_model_len c mod fc_block_size c \<noteq> 0
       then Inl ValueError
       else if fc_speculative c \<noteq> Some (''dflash'', 15, ''greedy'', ''standard'') then Inl ValueError
       else if parked_engine_problems env (fc_max_num_seqs c) \<noteq> [] then Inl ValueError
       else if quick_win_problems env \<noteq> [] then Inl ValueError
       else Inr (\<lparr>fp_scheduler_requests = fc_max_num_seqs c, fp_native_gdn_slots = NATIVE_GDN_SLOTS,
              fp_verifier_rows = 16, fp_physical_devices = 2, fp_context_tokens = fc_model_len c - budget,
              fp_output_budget = budget, fp_max_model_len = fc_model_len c\<rparr>,
            fc_max_num_seqs c > 1 \<and> \<not> fc_scheduler_set c)))"

definition internal_batch_capacity :: "int \<Rightarrow> environ \<Rightarrow> fast_config \<Rightarrow> int result" where
  "internal_batch_capacity budget env c = rbind (fast_requested c) (\<lambda>fast.
     if fast then rbind (validate_fast_config budget env c) (\<lambda>(profile, _). Inr (fp_native_gdn_slots profile))
     else Inr (fc_max_num_seqs c))"

subsection \<open>Sampling parameters\<close>

text \<open>vLLM's SamplingParams, the fields the contract reads; an absent list or mapping is the empty one.\<close>

record sampling =
  sp_temperature :: rat
  sp_n :: int
  sp_max_tokens :: int
  sp_min_tokens :: int
  sp_ignore_eos :: bool
  sp_logprobs :: "int option"
  sp_prompt_logprobs :: "int option"
  sp_presence_penalty :: rat
  sp_frequency_penalty :: rat
  sp_repetition_penalty :: rat
  sp_stop :: "string list"
  sp_structured :: bool
  sp_logit_bias :: "(int \<times> rat) list"
  sp_allowed_ids :: "int list"
  sp_bad_words :: "string list"
  sp_stop_ids :: "int list"
  sp_primary_eos :: "int option"

definition greedy_unpenalised :: "sampling \<Rightarrow> bool" where
  "greedy_unpenalised p \<longleftrightarrow> sp_temperature p = 0 \<and> sp_n p = 1 \<and> sp_min_tokens p = 0 \<and> sp_logprobs p = None
     \<and> sp_prompt_logprobs p = None \<and> sp_presence_penalty p = 0 \<and> sp_frequency_penalty p = 0
     \<and> sp_repetition_penalty p = 1 \<and> sp_stop p = [] \<and> \<not> sp_structured p \<and> sp_logit_bias p = []
     \<and> sp_allowed_ids p = [] \<and> sp_bad_words p = []"

definition validate_request_sampling :: "int \<Rightarrow> sampling \<Rightarrow> int \<Rightarrow> int list \<Rightarrow> unit result" where
  "validate_request_sampling budget p prompt_tokens eos_ids =
     (if (\<exists>t \<in> set eos_ids. t < 0) \<or> (\<exists>t \<in> set (sp_stop_ids p). t \<notin> set eos_ids)
         \<or> (case sp_primary_eos p of None \<Rightarrow> False | Some t \<Rightarrow> t \<notin> set eos_ids) then Inl ValueError
      else if prompt_tokens < 1 \<or> prompt_tokens > 2 ^ 20 \<or> \<not> greedy_unpenalised p
         \<or> \<not> (1 \<le> sp_max_tokens p \<and> sp_max_tokens p \<le> budget) then Inl ValueError
      else Inr ())"

end
