(* ===== verification/RequestFactory.thy ===== *)
theory RequestFactory
  imports ServingPolicy RunnerState PrefillAdmission
begin

text \<open>
  From a completed prefill to a request, \<open>scripts/ci/serving_request_factory.py\<close>: the host checks in their
  order, the budget, the adoption of the prefill's slot; and the drafter's proposal buckets
  (\<open>dflash_proposal_inputs.py\<close>). Building the engine and the drafter is device code, modelled in
  \<open>VerifierEngine\<close> and \<open>FastRequest\<close>; the attach-time source check is a flag, whether it has run.
\<close>

text \<open>\<open>host_refusals\<close>: a ValueError of the request's own terms ends the request alone.\<close>

definition host_refusals :: "bool \<Rightarrow> 'a result \<Rightarrow> 'a result" where
  "host_refusals enabled r =
     (case r of Inl ValueError \<Rightarrow> if enabled then Inl RequestRefused else Inl ValueError | _ \<Rightarrow> r)"

definition request_budget :: "int \<Rightarrow> int \<Rightarrow> int \<Rightarrow> int \<Rightarrow> int result" where
  "request_budget max_tokens prompt_tokens capacity server_max =
     (if max_tokens < 1 \<or> server_max < 1 \<or> \<not> (1 \<le> prompt_tokens \<and> prompt_tokens < capacity) then Inl ValueError
      else Inr (min max_tokens (min server_max (capacity - prompt_tokens))))"

definition REPLAY_MIN_ROWS :: int where "REPLAY_MIN_ROWS = 8"

definition sequential_captures :: "int option \<Rightarrow> bool" where
  "sequential_captures capture_rows \<longleftrightarrow> (case capture_rows of None \<Rightarrow> False | Some n \<Rightarrow> n < REPLAY_MIN_ROWS)"

subsection \<open>Proposal buckets\<close>

definition proposal_rungs :: "int list" where
  "proposal_rungs = [256, 512, 1024, 2048]"

definition rung_at_least :: "int \<Rightarrow> int result" where
  "rung_at_least n = (case filter (\<lambda>rows. rows \<ge> n) proposal_rungs of [] \<Rightarrow> Inl RuntimeError | rows # _ \<Rightarrow> Inr rows)"

definition proposal_contexts :: "int \<Rightarrow> int \<Rightarrow> int list result" where
  "proposal_contexts position max_new =
     (if \<not> (1 \<le> position \<and> position \<le> 262111) \<or> \<not> (1 \<le> max_new \<and> max_new \<le> 262144 - position - 32) then Inl ValueError
      else rbind (rung_at_least (min position 2048)) (\<lambda>first.
           rbind (rung_at_least (min 2048 (position + max_new))) (\<lambda>last.
           Inr (filter (\<lambda>rows. first \<le> rows \<and> rows \<le> last) proposal_rungs))))"

definition single_bucket_contexts :: "int \<Rightarrow> int \<Rightarrow> int list result" where
  "single_bucket_contexts position max_new = rbind (proposal_contexts position max_new) (\<lambda>_. Inr [2048])"

definition proposal_ladder :: "bool \<Rightarrow> int \<Rightarrow> int \<Rightarrow> int list result" where
  "proposal_ladder extent_replay position budget =
     (if extent_replay then single_bucket_contexts position budget else proposal_contexts position budget)"

subsection \<open>The prefill's slot\<close>

text \<open>Every layer's helper copies the slot and answers on how many chips it verified it.\<close>

definition adopt_prefill_slot :: "(nat \<Rightarrow> nat \<Rightarrow> int result) \<Rightarrow> nat \<Rightarrow> nat option \<Rightarrow> int option result" where
  "adopt_prefill_slot adopt layers slot =
     (case slot of
        None \<Rightarrow> Inr None
      | Some s \<Rightarrow> if s = 0 then Inr None
          else rbind (those_results (map (adopt s) [0..<layers])) (\<lambda>chips.
            case remdups chips of
              [n] \<Rightarrow> if n < 1 then Inl ValueError else Inr (Some n)
            | _ \<Rightarrow> Inl ValueError))"

subsection \<open>The host checks\<close>

text \<open>The seed of a prefill that has decoded nothing yet.\<close>

definition adopted_seed :: "int \<Rightarrow> int list \<Rightarrow> bool \<Rightarrow> nat \<Rightarrow> nat \<Rightarrow> req_state \<Rightarrow> int result" where
  "adopted_seed vocab eos_ids ignore_eos helpers prompt state =
     (case rq_output state of
        [seed] \<Rightarrow>
          if \<not> (0 \<le> rq_computed state \<and> rq_computed state < int prompt) \<or> helpers \<noteq> 48 then Inl ValueError
          else if \<not> (0 \<le> seed \<and> seed < vocab) then Inl ValueError
          else if seed \<in> set eos_ids \<and> \<not> ignore_eos then Inl ValueError
          else Inr seed
      | _ \<Rightarrow> Inl ValueError)"

record factory =
  fy_any_request :: bool
  fy_extent :: bool
  fy_source_checked :: bool
  fy_capture_rows :: "int option"
  fy_ceiling :: int
  fy_vocab :: int
  fy_eos :: "int list"
  fy_helpers :: nat

text \<open>What the request is built with: its prompt, seed, budget and EOS ids, and whether its engine captures
  only sequential widths.\<close>

record terms =
  te_prompt :: "int list"
  te_seed :: int
  te_budget :: int
  te_eos :: "int list"
  te_sequential :: bool

definition budget_terms :: "factory \<Rightarrow> sampling \<Rightarrow> int list list \<Rightarrow> int list \<Rightarrow> nat \<Rightarrow> int result" where
  "budget_terms fy p pages blocks prompt = host_refusals (fy_any_request fy)
     (rbind (if fy_any_request fy
             then request_budget (sp_max_tokens p) (int prompt) (int (length (hd pages)) * 64) (fy_ceiling fy)
             else Inr (fy_ceiling fy)) (\<lambda>budget.
      rbind (validate_initial_capture_pages pages blocks (int prompt) budget 16) (\<lambda>_. Inr budget)))"

text \<open>\<open>from_prefill\<close> before it touches the device; \<open>backstop\<close> is what the DRAM backstop answers.\<close>

definition prefill_terms ::
  "factory \<Rightarrow> sampling \<Rightarrow> int list list \<Rightarrow> req_state \<Rightarrow> int option result \<Rightarrow> terms result" where
  "prefill_terms fy p pages state backstop =
     (let sequential = fy_any_request fy \<and> sequential_captures (fy_capture_rows fy)
      in if sequential \<and> \<not> fy_source_checked fy then Inl ValueError
         else case rq_prompt state of
           None \<Rightarrow> Inl TypeError
         | Some prompt \<Rightarrow>
             rbind (host_refusals (fy_any_request fy)
                (validate_request_sampling (fy_ceiling fy) p (int (length prompt)) (fy_eos fy))) (\<lambda>_.
             rbind (adopted_seed (fy_vocab fy) (fy_eos fy) (sp_ignore_eos p) (fy_helpers fy) (length prompt) state) (\<lambda>seed.
             case rq_blocks state of
               [blocks] \<Rightarrow>
                 rbind (budget_terms fy p pages blocks (length prompt)) (\<lambda>budget.
                 rbind (if fy_extent fy then backstop else Inr None) (\<lambda>_.
                 Inr \<lparr>te_prompt = prompt, te_seed = seed, te_budget = budget,
                      te_eos = (if fy_any_request fy \<and> sp_ignore_eos p then [] else fy_eos fy),
                      te_sequential = sequential\<rparr>))
             | _ \<Rightarrow> Inl ValueError)))"

text \<open>The session a request is built with: sixteen verifier rows, no lookup, the drafter under its name.\<close>

definition factory_session ::
  "factory \<Rightarrow> string \<Rightarrow> (string \<rightharpoonup> adapter) \<Rightarrow> terms \<Rightarrow> session result" where
  "factory_session fy r neural t =
     session_init r (te_prompt t) (te_seed t) (fy_vocab fy) (te_budget t) (te_eos t) neural 16 False False"

end
