(* ===== verification/WorkerSystem.thy ===== *)
theory WorkerSystem
  imports WorkerQuiet RequestFactory
begin

text \<open>
  The worker as a transition system: requests attach with the seed of their own prefill, steps are routed to
  the native runner or decoded, drafts are proposed, requests are detached and the hook closed, while the
  other engines prefill, build and rebind. Every bridge that has not failed keeps the runner's record of its
  request equal to what its session has emitted.
\<close>

subsection \<open>One engine's operation\<close>

lemma tied_at_rig:
  assumes "silent m \<or> me \<noteq> me'" and "tied w (key, me', a, failed)"
  shows "tied (w\<lparr>wk_world := snd (at_rig me m (wk_world w))\<rparr>) (key, me', a, failed)"
proof -
  obtain g where g: "rig_at (wk_world w) me' = Some g" "s_phase (rg_session g) = Closed \<or> emitted g = recorded w a"
    using assms(2) by (auto simp: tied_def)
  show ?thesis
  proof (cases "rig_at (wk_world w) me")
    case None
    then show ?thesis using assms(2) by (simp add: at_rig_def tied_def recorded_def)
  next
    case (Some h)
    obtain r h' where m: "m h = (r, h')" by force
    show ?thesis
    proof (cases "me' = me")
      case True
      then have "s_phase (rg_session h') = Closed \<or> emitted h' = emitted h \<and> s_phase (rg_session h) \<noteq> Closed"
        using assms(1) silentD [of m h r h'] m by blast
      then show ?thesis using g Some m True by (auto simp: at_rig_def tied_def rig_at_put recorded_def)
    next
      case False
      then show ?thesis using g Some m
        by (auto simp: at_rig_def tied_def rig_at_put recorded_def emitted_def)
    qed
  qed
qed

lemma tied_in_world:
  assumes "silent m \<or> me \<noteq> me'" and "tied w (key, me', a, failed)" and "in_world (at_rig me m) w = (r, w')"
  shows "tied w' (key, me', a, failed)"
proof -
  have "w' = w\<lparr>wk_world := snd (at_rig me m (wk_world w))\<rparr>"
    using assms(3) by (auto simp: in_world_def split: prod.splits)
  then show ?thesis using tied_at_rig [OF assms(1,2)] by simp
qed

lemma in_world_skeleton: "in_world m w = (r, w') \<Longrightarrow> skeleton w' = skeleton w \<and> wk_runner w' = wk_runner w
    \<and> wk_bridges w' = wk_bridges w \<and> wk_closed w' = wk_closed w"
  by (auto simp: in_world_def skeleton_def split: prod.splits)

subsection \<open>The invariant\<close>

definition live_tied :: "('s, 'r) worker \<Rightarrow> bool" where
  "live_tied w \<longleftrightarrow> (\<forall>(key, me, a, failed) \<in> set (skeleton w). \<not> failed \<longrightarrow> tied w (key, me, a, failed))"

definition worker_ok ::
  "(int list \<Rightarrow> int) \<Rightarrow> (int list \<Rightarrow> 's) \<Rightarrow> (nat \<Rightarrow> int list \<times> session) \<times> ('s, 'r) worker \<Rightarrow> bool" where
  "worker_ok f st = (\<lambda>(asked, w). world_ok f st asked (wk_world w) \<and> skeleton_ok (skeleton w)
     \<and> keyed asked (skeleton w) \<and> live_tied w)"

lemma live_tiedD: "live_tied w \<Longrightarrow> (key, me, a, False) \<in> set (skeleton w) \<Longrightarrow> tied w (key, me, a, False)"
  by (auto simp: live_tied_def)

lemma live_tiedI:
  assumes "\<And>key me a. (key, me, a, False) \<in> set (skeleton w) \<Longrightarrow> tied w (key, me, a, False)"
  shows "live_tied w"
  using assms by (auto simp: live_tied_def)

lemma fail_all: "skeleton w' = map (\<lambda>(k, me, a, b). (k, me, a, True)) sk \<Longrightarrow> live_tied w'"
  by (auto simp: live_tied_def)

text \<open>Marking bridges as failed keeps their identities.\<close>

definition same_bridges :: "bridge_id list \<Rightarrow> bridge_id list \<Rightarrow> bool" where
  "same_bridges sk sk' \<longleftrightarrow> map (\<lambda>(k, me, a, b). (k, me, a)) sk' = map (\<lambda>(k, me, a, b). (k, me, a)) sk"

lemma same_bridges_refl [simp]: "same_bridges sk sk" by (simp add: same_bridges_def)

lemma same_bridges_fail:
  "same_bridges sk (map (\<lambda>(k, me, a, b). (k, me, a, h k b)) sk)"
  by (auto simp: same_bridges_def)

lemma same_bridges_ok:
  assumes "same_bridges sk sk'"
  shows "skeleton_ok sk' = skeleton_ok sk" and "keyed asked sk' = keyed asked sk"
proof -
  have eq: "map h (map (\<lambda>(k, me, a, b). (k, me, a)) sk') = map h (map (\<lambda>(k, me, a, b). (k, me, a)) sk)" for h :: "_ \<Rightarrow> 'x"
    using assms by (simp only: same_bridges_def)
  have "map fst sk' = map fst sk" using eq [of fst] by (simp add: comp_def case_prod_unfold)
  moreover have "map (\<lambda>(key, me, a, failed). me) sk' = map (\<lambda>(key, me, a, failed). me) sk"
    using eq [of "\<lambda>(k, me, a). me"] by (simp add: comp_def case_prod_unfold)
  moreover have "map (\<lambda>(key, me, a, failed). a) sk' = map (\<lambda>(key, me, a, failed). a) sk"
    using eq [of "\<lambda>(k, me, a). a"] by (simp add: comp_def case_prod_unfold)
  ultimately show "skeleton_ok sk' = skeleton_ok sk" by (simp add: skeleton_ok_def)
  have k: "keyed asked sk = list_all (\<lambda>b. b) (map (\<lambda>(k, me, a). k = s_request_id (snd (asked me))) (map (\<lambda>(k, me, a, b). (k, me, a)) sk))"
    for sk by (auto simp: keyed_def list_all_iff)
  show "keyed asked sk' = keyed asked sk" unfolding k using eq by metis
qed

subsection \<open>Decode steps\<close>

lemma request_step_id: "request_step dv me r first second g = (Inr out, g') \<Longrightarrow> co_request_id out = r"
  by (auto simp: request_step_def step_block_def op_returned output_of_def split: if_splits)

lemma device_step_gains:
  assumes "\<And>ks. packed = Over_Blocks ks \<Longrightarrow> distinct ks"
  shows "gains_outputs (device_step dv sentinels forced ca packed)"
  unfolding gains_outputs_def
proof (intro allI impI)
  fix es outs and w w' :: "('a, 'b) world"
  assume d: "distinct (map pe_engine es)" "distinct (map pe_request_id es)"
    and run: "device_step dv sentinels forced ca packed es w = (Inr outs, w')"
  show "round_gain es w outs w'"
  proof (cases packed)
    case (Over_Blocks ks)
    show ?thesis
    proof (cases "\<exists>k. ks = [k]")
      case True
      then show ?thesis using run Over_Blocks packed_device_step_gain by (auto simp: device_step_def packed_step_call_def)
    next
      case False
      then have "packed_device_rounds dv sentinels forced ca ks es w = (Inr outs, w')"
        using run Over_Blocks by (auto simp: device_step_def packed_step_call_def split: list.splits)
      then show ?thesis by (rule packed_device_rounds_gain [OF d assms [OF Over_Blocks]])
    qed
  qed (use run sequential_round_gain in \<open>auto simp: device_step_def\<close>)
qed

lemma execute_packed_Inl:
  assumes "execute_packed_decode host device step w = (Inl e, w')"
  shows "w' = w \<or> (\<exists>entries w1. packed_decode_body host device step entries w = (Inl e, w1) \<and> w' = fail_bridges w1)"
  using assms by (auto simp: execute_packed_decode_def op_raised op_returned)

lemma fail_bridges_parts: "wk_world (fail_bridges w) = wk_world w" "wk_world (fail_bridge key w) = wk_world w"
  "wk_runner (fail_bridge key w) = wk_runner w"
  by (simp_all add: fail_bridges_def fail_bridge_def set_bridge_def)

lemma execute_packed_ok:
  assumes ok: "worker_ok f st (asked, w)" and dev: "device_ok f st dv" and blocks: "packed_all f st dv (wk_world w)"
    and ks: "\<And>ks. packed = Over_Blocks ks \<Longrightarrow> distinct ks"
    and keep: "update_keeps host step (addresses (skeleton w))"
    and run: "execute_packed_decode host (device_step dv sentinels forced ca packed) step w = (r, w')"
  shows "worker_ok f st (asked, w')" and "same_bridges (skeleton w) (skeleton w')"
    and "r = Inr ans \<Longrightarrow> (key, me, a, failed) \<in> set (skeleton w) \<Longrightarrow> recorded w' a = recorded w a @ sampled ans key"
proof -
  let ?device = "device_step dv sentinels forced ca packed"
  have w: "world_ok f st asked (wk_world w)" and sk: "skeleton_ok (skeleton w)" "keyed asked (skeleton w)" "live_tied w"
    using ok by (simp_all add: worker_ok_def)
  have inv: "worker_inv f st dv asked (skeleton w) w" using w blocks by (simp add: worker_inv_def world_inv_def)
  have body: "preserves (worker_inv f st dv asked (skeleton w)) (packed_decode_body host ?device step entries)" for entries
    by (rule preserves_packed_body [OF device_step_inv [OF dev]])
  have "worker_ok f st (asked, w') \<and> same_bridges (skeleton w) (skeleton w')
    \<and> (\<forall>ans. r = Inr ans \<longrightarrow> (\<forall>(key, me, a, failed) \<in> set (skeleton w). recorded w' a = recorded w a @ sampled ans key))"
  proof (cases r)
    case (Inl e)
    from execute_packed_Inl [OF run [unfolded Inl]] show ?thesis
    proof (elim disjE exE conjE)
      fix entries w1 assume b: "packed_decode_body host ?device step entries w = (Inl e, w1)" and w': "w' = fail_bridges w1"
      from preservesD [OF body inv b] have i: "world_ok f st asked (wk_world w1)" "skeleton w1 = skeleton w"
        by (simp_all add: worker_inv_def world_inv_def)
      have s: "skeleton w' = map (\<lambda>(k, me, a, b). (k, me, a, True)) (skeleton w)" by (simp add: w' skeleton_fail i(2))
      then have sb: "same_bridges (skeleton w) (skeleton w')" using same_bridges_fail [of "skeleton w" "\<lambda>_ _. True"] by simp
      then show ?thesis
        using same_bridges_ok [OF sb] sk fail_all [OF s] i(1) Inl by (simp add: worker_ok_def w' fail_bridges_parts)
    qed (use ok Inl in simp)
  next
    case (Inr ans)
    note run = run [unfolded Inr]
    have nf: "\<not> failed" if "(k, me, a, failed) \<in> set (skeleton w)" for k me a failed
      using run that by (auto simp: execute_packed_decode_def op_returned skeleton_def)
    have "tied w (k, me, a, failed)" if "(k, me, a, failed) \<in> set (skeleton w)" for k me a failed
      using nf [OF that] live_tiedD [OF sk(3)] that by simp
    then have tie: "\<forall>b \<in> set (skeleton w). tied w b" by auto
    note gain = packed_decode_gain [OF w sk(1,2) tie keep device_step_gains [OF ks] run]
    obtain entries where b: "packed_decode_body host ?device step entries w = (Inr ans, w')"
      using run by (auto simp: execute_packed_decode_def op_returned)
    have "world_ok f st asked (wk_world w')" using preservesD [OF body inv b] by (simp add: worker_inv_def world_inv_def)
    moreover have "live_tied w'" by (rule live_tiedI) (use gain in \<open>auto intro!: tied_emitted\<close>)
    ultimately show ?thesis using sk gain Inr by (auto simp: worker_ok_def)
  qed
  then show "worker_ok f st (asked, w')" and "same_bridges (skeleton w) (skeleton w')"
    and "r = Inr ans \<Longrightarrow> (key, me, a, failed) \<in> set (skeleton w) \<Longrightarrow> recorded w' a = recorded w a @ sampled ans key"
    by auto
qed

text \<open>The step of a lone bridge.\<close>

lemma admit_single_Inr:
  assumes "admit_scheduler_output step g = Inr t"
  shows "prepared_ticket g = Inr t"
  using assms by (auto simp: admit_scheduler_output_def rbind_Inr_iff Let_def split: if_splits)

definition decode_body ::
  "('s, 'r) device \<Rightarrow> ('s, 'r) host \<Rightarrow> cancels \<Rightarrow> sched_step \<Rightarrow> string \<Rightarrow> bridge \<Rightarrow> block_ticket
     \<Rightarrow> ('s, 'r, runner_output) worker_op" where
  "decode_body dv host ca step key br ticket =
     (let r = t_request_id ticket
      in op_then (op_read (\<lambda>_. dv_storage host key))
       (op_then (in_runner (dv_update host step))
       (op_then (op_read (\<lambda>w. validate_runner_reservation (wk_runner w) (br_state br) ticket 1))
       (op_then (refresh_bridge (dv_pages host) key ticket)
       (op_bind (in_world (at_rig (br_engine br) (request_step dv (br_engine br) r (ca_first ca r) (ca_second ca r)))) (\<lambda>output.
        op_then (in_runner (apply_committed_output (br_state br) output 1))
        (op_return (model_runner_output output))))))))"

lemma execute_decode_cases:
  assumes "execute_decode dv host ca step key w = (r, w')"
  shows "w' = w \<and> (\<exists>e. r = Inl e) \<or> (\<exists>br ticket r' w1. map_of (wk_bridges w) key = Some br \<and> \<not> br_failed br
    \<and> check_rig (br_engine br) (admit_scheduler_output step) (wk_world w) = Inr ticket
    \<and> decode_body dv host ca step key br ticket w = (r', w1) \<and> r = r'
    \<and> w' = (case r' of Inl _ \<Rightarrow> fail_bridge key w1 | Inr _ \<Rightarrow> w1))"
proof (cases "map_of (wk_bridges w) key")
  case None
  then show ?thesis using assms by (auto simp: execute_decode_def with_bridge_def)
next
  case (Some br)
  show ?thesis
  proof (cases "br_failed br")
    case True
    then show ?thesis using assms Some by (auto simp: execute_decode_def with_bridge_def op_then_def op_bind_def op_refuse_def)
  next
    case False
    show ?thesis
    proof (cases "check_rig (br_engine br) (admit_scheduler_output step) (wk_world w)")
      case (Inl e)
      then show ?thesis using assms Some False
        by (auto simp: execute_decode_def with_bridge_def op_then_def op_bind_def op_refuse_def)
    next
      case (Inr ticket)
      have "op_except (decode_body dv host ca step key br ticket) (fail_bridge key) w = (r, w')"
        using assms Some False Inr
        by (simp add: execute_decode_def with_bridge_def op_then_def op_bind_def op_refuse_def decode_body_def Let_def)
      then show ?thesis using Some False Inr by (auto simp: op_except_def split: prod.splits sum.splits)
    qed
  qed
qed

lemma decode_body_inv:
  assumes "device_ok f st dv"
  shows "preserves (worker_inv f st dv asked sk) (decode_body dv host ca step key br ticket)"
  unfolding decode_body_def Let_def by (intro keep preserves_decode_body assms)

lemma decode_body_effect:
  assumes keep: "update_keeps host step A" and run: "decode_body dv host ca step key br ticket w = (Inr ans, w')"
  obtains w1 w2 out where "still A w w1"
    and "at_rig (br_engine br) (request_step dv (br_engine br) (t_request_id ticket) (ca_first ca (t_request_id ticket))
           (ca_second ca (t_request_id ticket))) (wk_world w1) = (Inr out, w2)"
    and "wk_world w' = w2" and "skeleton w' = skeleton w" and "ans = model_runner_output out"
    and "rec_gained w1 w' (\<lambda>a. if a = br_state br then co_token_ids out else [])"
proof -
  let ?step = "request_step dv (br_engine br) (t_request_id ticket) (ca_first ca (t_request_id ticket)) (ca_second ca (t_request_id ticket))"
  obtain w0 u wa v w1 out w2 x where u: "in_runner (dv_update host step) w = (Inr u, wa)"
    and a: "refresh_bridge (dv_pages host) key ticket wa = (Inr v, w1)"
    and d: "in_world (at_rig (br_engine br) ?step) w1 = (Inr out, w2)"
    and p: "in_runner (apply_committed_output (br_state br) out 1) w2 = (Inr x, w')"
    and ans: "ans = model_runner_output out"
    using run by (auto simp: decode_body_def Let_def op_returned)
  have st: "still A w w1" using still_trans [OF still_update [OF keep u] still_refresh [OF a]] .
  obtain y where y: "at_rig (br_engine br) ?step (wk_world w1) = (Inr out, y)" "w2 = w1\<lparr>wk_world := y\<rparr>"
    using d by (auto simp: in_world_def split: prod.splits)
  note i = in_runner_apply [OF p]
  show thesis
    by (rule that [OF st y(1) _ _ ans])
      (use i st y(2) in \<open>auto simp: still_def rec_gained_def recorded_def\<close>)
qed

lemma sampled_single: "sampled (model_runner_output out) (co_request_id out) = co_token_ids out"
  by (simp add: sampled_def model_runner_output_def)

lemma execute_decode_ok:
  assumes ok: "worker_ok f st (asked, w)" and dev: "device_ok f st dv" and blocks: "packed_all f st dv (wk_world w)"
    and one: "wk_bridges w = [(key, br0)]" and keep: "update_keeps host step (addresses (skeleton w))"
    and run: "execute_decode dv host ca step key w = (r, w')"
  shows "worker_ok f st (asked, w')" and "same_bridges (skeleton w) (skeleton w')"
    and "r = Inr ans \<Longrightarrow> (key', me, a, failed) \<in> set (skeleton w) \<Longrightarrow> recorded w' a = recorded w a @ sampled ans key'"
proof -
  have w: "world_ok f st asked (wk_world w)" and sk: "skeleton_ok (skeleton w)" "keyed asked (skeleton w)" "live_tied w"
    using ok by (simp_all add: worker_ok_def)
  have skel: "skeleton w = [(key, br_engine br0, br_state br0, br_failed br0)]" by (simp add: skeleton_def one)
  have "worker_ok f st (asked, w') \<and> same_bridges (skeleton w) (skeleton w')
    \<and> (\<forall>ans. r = Inr ans \<longrightarrow> recorded w' (br_state br0) = recorded w (br_state br0) @ sampled ans key)"
    using execute_decode_cases [OF run]
  proof (elim disjE exE conjE)
    fix br ticket r' w1 assume br: "map_of (wk_bridges w) key = Some br" "\<not> br_failed br"
      and adm: "check_rig (br_engine br) (admit_scheduler_output step) (wk_world w) = Inr ticket"
      and body: "decode_body dv host ca step key br ticket w = (r', w1)" and r: "r = r'"
      and w': "w' = (case r' of Inl _ \<Rightarrow> fail_bridge key w1 | Inr _ \<Rightarrow> w1)"
    have b0: "br = br0" using br(1) one by simp
    have "worker_inv f st dv asked (skeleton w) w" using w blocks by (simp add: worker_inv_def world_inv_def)
    from preservesD [OF decode_body_inv [OF dev] this body]
    have i: "world_ok f st asked (wk_world w1)" "skeleton w1 = skeleton w" by (simp_all add: worker_inv_def world_inv_def)
    show ?thesis
    proof (cases r')
      case (Inl e)
      then have s: "skeleton w' = map (\<lambda>(k, me, a, b). (k, me, a, True)) (skeleton w)"
        by (simp add: w' skeleton_fail i(2) skel)
      then have sb: "same_bridges (skeleton w) (skeleton w')" using same_bridges_fail [of "skeleton w" "\<lambda>_ _. True"] by simp
      then show ?thesis
        using same_bridges_ok [OF sb] sk fail_all [OF s] i(1) Inl r by (simp add: worker_ok_def w' fail_bridges_parts)
    next
      case (Inr ans)
      obtain g where g: "rig_at (wk_world w) (br_engine br) = Some g" "admit_scheduler_output step g = Inr ticket"
        using adm by (auto simp: check_rig_def split: option.splits)
      note prep = admit_single_Inr [OF g(2)]
      obtain wa wb out where st: "still (addresses (skeleton w)) w wa"
        and d: "at_rig (br_engine br) (request_step dv (br_engine br) (t_request_id ticket) (ca_first ca (t_request_id ticket))
           (ca_second ca (t_request_id ticket))) (wk_world wa) = (Inr out, wb)"
        and wb: "wk_world w1 = wb" and out: "ans = model_runner_output out"
        and rec: "rec_gained wa w1 (\<lambda>a. if a = br_state br then co_token_ids out else [])"
        using decode_body_effect [OF keep body [unfolded Inr]] by metis
      have tie: "tied w (key, br_engine br, br_state br, False)"
        using live_tiedD [OF sk(3)] br(2) by (simp add: skel b0)
      have "check_rig (br_engine br) prepared_ticket (wk_world w) = Inr ticket" using g(1) prep by (simp add: check_rig_def)
      from prepared_emitted [OF tie this] have "emitted_at (wk_world w) (br_engine br) = Some (recorded w (br_state br))" .
      then have e: "emitted_at (wk_world wa) (br_engine br) = Some (recorded wa (br_state br))"
        "recorded wa (br_state br) = recorded w (br_state br)"
        using still_tied [OF st] st by (simp_all add: still_def skel b0 addresses_def)
      have rec': "recorded w1 (br_state br) = recorded w (br_state br) @ co_token_ids out"
        using rec e(2) by (simp add: rec_gained_def)
      have "emitted_at (wk_world w1) (br_engine br) = Some (recorded w1 (br_state br))"
        using at_rig_gain [OF request_step_emits d] e rec' by (simp add: gained_def wb output_tokens_def)
      then have "live_tied w1" by (intro live_tiedI) (auto simp: i(2) skel b0 intro!: tied_emitted)
      moreover have "co_request_id out = key"
      proof -
        have "co_request_id out = t_request_id ticket"
          using d request_step_id by (auto simp: at_rig_def split: option.splits prod.splits)
        also have "\<dots> = s_request_id (snd (asked (br_engine br)))"
          using prepared_ticket_Inr(2) [OF prep] world_request_id [OF w g(1)] by simp
        finally show ?thesis using sk(2) by (simp add: keyed_def skel b0)
      qed
      then have "sampled ans key = co_token_ids out" using sampled_single [of out] out by simp
      ultimately show ?thesis using i sk rec' Inr r w' b0 by (auto simp: worker_ok_def)
    qed
  qed (use ok in auto)
  then show "worker_ok f st (asked, w')" and "same_bridges (skeleton w) (skeleton w')"
    and "r = Inr ans \<Longrightarrow> (key', me, a, failed) \<in> set (skeleton w) \<Longrightarrow> recorded w' a = recorded w a @ sampled ans key'"
    by (auto simp: skel)
qed

end
