(* ===== verification/WorkerServing.thy ===== *)
theory WorkerServing
  imports WorkerSystem ServingProps
begin

text \<open>
  The worker's handlers keep its invariant, whatever the device, the scheduler and the native runner do within
  what they document; and what follows for the text a client is streamed.
\<close>

subsection \<open>What is assumed of the host\<close>

text \<open>A scheduler's step: every cached request of it has tokens, a prefill step has no cached request, a
  bridged request that has tokens is cached, and a step without tokens has none for anybody. A step that names a held
  request beside one without tokens, which the hook passes through, is not covered.\<close>

definition sched_ok :: "('s, 'r) worker \<Rightarrow> sched_step \<Rightarrow> bool" where
  "sched_ok w step \<longleftrightarrow> (\<forall>r \<in> set (sc_cached step). carries_tokens step [r])
     \<and> (sc_new step \<noteq> [] \<longrightarrow> sc_cached step = [])
     \<and> (\<forall>(key, me, a, failed) \<in> set (skeleton w). carries_tokens step [key] \<longrightarrow> key \<in> set (sc_cached step))
     \<and> (sc_total step = 0 \<longrightarrow> (\<forall>r. \<not> carries_tokens step [r]))"

text \<open>The native runner: it appends only to requests with tokens, leaves the engines' objects alone, and what it
  writes to the native slot it notes.\<close>

definition native_ok :: "('s, 'r) host \<Rightarrow> sched_step \<Rightarrow> ('s, 'r) worker \<Rightarrow> bool" where
  "native_ok host step w \<longleftrightarrow> (let w' = snd (dv_native host step w)
     in skeleton w' = skeleton w \<and> wd_rigs (wk_world w') = wd_rigs (wk_world w)
        \<and> calm (wd_native (wk_world w)) (wd_native (wk_world w'))
        \<and> (\<forall>(key, me, a, failed) \<in> set (skeleton w). \<not> carries_tokens step [key] \<longrightarrow> recorded w' a = recorded w a))"

definition host_ok :: "('s, 'r) host \<Rightarrow> sched_step \<Rightarrow> ('s, 'r) worker \<Rightarrow> bool" where
  "host_ok host step w \<longleftrightarrow> update_keeps host step (addresses (skeleton w)) \<and> native_ok host step w"

subsection \<open>Steps\<close>

lemma worker_ok_recorded:
  assumes ok: "worker_ok f st (asked, w)" and sk: "skeleton w' = skeleton w"
    and world: "world_ok f st asked (wk_world w')"
    and rigs: "\<And>key me a failed. (key, me, a, failed) \<in> set (skeleton w) \<Longrightarrow> wd_rigs (wk_world w') me = wd_rigs (wk_world w) me"
    and rec: "\<And>key me a failed. (key, me, a, failed) \<in> set (skeleton w) \<Longrightarrow> recorded w' a = recorded w a"
  shows "worker_ok f st (asked, w')"
proof -
  have "live_tied w'"
  proof (rule live_tiedI)
    fix key me a assume m: "(key, me, a, False) \<in> set (skeleton w')"
    then have "tied w (key, me, a, False)" using ok live_tiedD sk by (auto simp: worker_ok_def)
    then show "tied w' (key, me, a, False)"
      using rigs [of key me a False] rec [of key me a False] m sk
      by (auto simp: tied_def rig_at_def emitted_def)
  qed
  then show ?thesis using ok sk world by (simp add: worker_ok_def)
qed

lemma native_step_ok:
  assumes ok: "worker_ok f st (asked, w)" and host: "native_ok host step w"
    and none: "\<And>key me a failed. (key, me, a, failed) \<in> set (skeleton w) \<Longrightarrow> \<not> carries_tokens step [key]"
    and run: "dv_native host step w = (r, w')"
  shows "worker_ok f st (asked, w')"
proof -
  have h: "skeleton w' = skeleton w" "wd_rigs (wk_world w') = wd_rigs (wk_world w)"
    "calm (wd_native (wk_world w)) (wd_native (wk_world w'))"
    "\<forall>(key, me, a, failed) \<in> set (skeleton w). \<not> carries_tokens step [key] \<longrightarrow> recorded w' a = recorded w a"
    using host run by (simp_all add: native_ok_def)
  have "wk_world w' = (wk_world w)\<lparr>wd_native := wd_native (wk_world w')\<rparr>" using h(2) by simp
  then have "world_ok f st asked (wk_world w')"
    using world_ok_calm [of f st asked "wk_world w" "wd_native (wk_world w')"] ok h(3) by (simp add: worker_ok_def)
  then show ?thesis using none h by (intro worker_ok_recorded [OF ok]) auto
qed

lemma skeleton_keys: "fst ` set (skeleton w) = fst ` set (wk_bridges w)"
  by (force simp: skeleton_def)

lemma unmixed_native:
  assumes sch: "sched_ok w step" and un: "unbridged_ids w step \<noteq> []" and mix: "\<not> mixed_step w step"
    and mem: "(key, me, a, failed) \<in> set (skeleton w)"
  shows "\<not> carries_tokens step [key]"
proof
  assume c: "carries_tokens step [key]"
  have cached: "key \<in> set (sc_cached step)" using sch mem c by (auto simp: sched_ok_def)
  have "key \<in> fst ` set (wk_bridges w)" using mem by (force simp flip: skeleton_keys)
  then have "map_of (wk_bridges w) key \<noteq> None" by (simp add: map_of_eq_None_iff)
  moreover obtain r where r: "r \<in> set (unbridged_ids w step)" using un by (cases "unbridged_ids w step") auto
  then have "carries_tokens step [r]" using sch by (auto simp: sched_ok_def unbridged_ids_def)
  then have "carries_tokens step (unbridged_ids w step)" using r by (auto simp: carries_tokens_def)
  ultimately show False using mix cached by (auto simp: mixed_step_def)
qed

text \<open>The step of an open hook.\<close>

definition hook_decode ::
  "('s, 'r) device \<Rightarrow> ('s, 'r) host \<Rightarrow> bool \<Rightarrow> int option \<Rightarrow> cancels \<Rightarrow> packed_config \<Rightarrow> sched_step
     \<Rightarrow> (string \<times> bridge) list \<Rightarrow> ('s, 'r, runner_output) worker_op" where
  "hook_decode dv host sentinels forced ca packed step bridges =
     (case (packed, bridges) of
        (No_Packed, [(key, _)]) \<Rightarrow> execute_decode dv host ca step key
      | (No_Packed, _) \<Rightarrow> op_raise ValueError
      | _ \<Rightarrow> execute_packed_decode host (device_step dv sentinels forced ca packed) step)"

lemma hook_decode_cases:
  obtains "hook_decode dv host sentinels forced ca packed step bridges
      = execute_packed_decode host (device_step dv sentinels forced ca packed) step"
  | "hook_decode dv host sentinels forced ca packed step bridges = op_raise ValueError"
  | key br where "bridges = [(key, br)]"
      "hook_decode dv host sentinels forced ca packed step bridges = execute_decode dv host ca step key"
  by (cases packed; cases bridges; cases "tl bridges"; cases "hd bridges") (auto simp: hook_decode_def split: list.splits)

lemma hook_execute_refused:
  "wk_closed w \<or> pending \<Longrightarrow> hook_execute dv host sentinels forced ca packed pending legacy step w = (Inl ValueError, w)"
  unfolding hook_execute_def Let_def op_then_def [of "op_refuse _ _"] op_bind_def op_refuse_def
  by (simp only: if_True sum.case prod.case)

lemma hook_execute_open:
  assumes "\<not> (wk_closed w \<or> pending)"
  shows "hook_execute dv host sentinels forced ca packed pending legacy step w =
     (if sc_new step \<noteq> [] then op_then (dv_native host step) (op_return Native) w
      else if unbridged_ids w step \<noteq> []
        then (if mixed_step w step \<and> \<not> legacy then (Inl ValueError, w) else op_then (dv_native host step) (op_return Native) w)
      else if sc_total step = 0 then op_then (dv_native host step) (op_return Native) w
      else op_bind (hook_decode dv host sentinels forced ca packed step (wk_bridges w)) (\<lambda>output. op_return (Served output)) w)"
  unfolding hook_execute_def Let_def op_then_def [of "op_refuse _ _"] op_bind_def [of "op_refuse _ _"] op_refuse_def
    hook_decode_def
  by (simp only: assms if_False sum.case prod.case)

lemma hook_execute_ok:
  assumes ok: "worker_ok f st (asked, w)" and dev: "device_ok f st dv" and blocks: "packed_all f st dv (wk_world w)"
    and ks: "\<And>ks. packed = Over_Blocks ks \<Longrightarrow> distinct ks" and sch: "sched_ok w step" and host: "host_ok host step w"
    and run: "hook_execute dv host sentinels forced ca packed pending False step w = (r, w')"
  shows "worker_ok f st (asked, w')"
    and "r = Inr (Served ans) \<Longrightarrow> (key, me, a, failed) \<in> set (skeleton w) \<Longrightarrow> recorded w' a = recorded w a @ sampled ans key"
proof -
  let ?native = "op_then (dv_native host step) (op_return Native)"
  have nat: "worker_ok f st (asked, w') \<and> (\<nexists>ans. r = Inr (Served ans))" if "?native w = (r, w')"
    and none: "\<And>key me a failed. (key, me, a, failed) \<in> set (skeleton w) \<Longrightarrow> \<not> carries_tokens step [key]"
  proof -
    obtain r0 w0 where n: "dv_native host step w = (r0, w0)" by force
    then have "w' = w0" "\<nexists>ans. r = Inr (Served ans)" using that(1) by (cases r0; auto simp: op_then_def op_bind_def)+
    then show ?thesis using native_step_ok [OF ok _ none n] host by (simp add: host_ok_def)
  qed
  have keep: "update_keeps host step (addresses (skeleton w))" using host by (simp add: host_ok_def)
  have "worker_ok f st (asked, w') \<and> (\<forall>ans. r = Inr (Served ans) \<longrightarrow>
      (\<forall>(key, me, a, failed) \<in> set (skeleton w). recorded w' a = recorded w a @ sampled ans key))"
  proof (cases "wk_closed w \<or> pending")
    case True
    then show ?thesis using run ok by (auto simp: hook_execute_refused)
  next
    case False
    note run = run [unfolded hook_execute_open [OF False]]
    consider "sc_new step \<noteq> []" | "sc_new step = []" "unbridged_ids w step \<noteq> []"
      | "sc_new step = []" "unbridged_ids w step = []" "sc_total step = 0"
      | "sc_new step = []" "unbridged_ids w step = []" "sc_total step \<noteq> 0" by blast
    then show ?thesis
    proof cases
      case 1
      then have "\<not> carries_tokens step [key]" if "(key, me, a, failed) \<in> set (skeleton w)" for key me a failed
        using sch that by (auto simp: sched_ok_def)
      then show ?thesis using nat run 1 by auto
    next
      case 2
      then show ?thesis using nat run unmixed_native [OF sch 2(2)] ok by (cases "mixed_step w step") auto
    next
      case 3
      then have "\<not> carries_tokens step [key]" for key using sch by (auto simp: sched_ok_def)
      then show ?thesis using nat run 3 by auto
    next
      case 4
      obtain r0 w0 where r0: "hook_decode dv host sentinels forced ca packed step (wk_bridges w) w = (r0, w0)" by force
      then have w0: "w' = w0" "r = (case r0 of Inl e \<Rightarrow> Inl e | Inr out \<Rightarrow> Inr (Served out))"
        using run 4 by (cases r0; simp add: op_bind_def)+
      consider "hook_decode dv host sentinels forced ca packed step (wk_bridges w)
          = execute_packed_decode host (device_step dv sentinels forced ca packed) step"
        | "hook_decode dv host sentinels forced ca packed step (wk_bridges w) = op_raise ValueError"
        | key br where "wk_bridges w = [(key, br)]"
            "hook_decode dv host sentinels forced ca packed step (wk_bridges w) = execute_decode dv host ca step key"
        by (rule hook_decode_cases)
      then show ?thesis
      proof cases
        case 1
        note e = execute_packed_ok [OF ok dev blocks ks keep r0 [unfolded 1]]
        then show ?thesis using w0 by (auto split: sum.splits)
      next
        case 2
        then show ?thesis using r0 w0 ok by auto
      next
        case (3 key br)
        note e = execute_decode_ok [OF ok dev blocks 3(1) keep r0 [unfolded 3(2)]]
        then show ?thesis using w0 by (auto split: sum.splits)
      qed
    qed
  qed
  then show "worker_ok f st (asked, w')"
    and "r = Inr (Served ans) \<Longrightarrow> (key, me, a, failed) \<in> set (skeleton w) \<Longrightarrow> recorded w' a = recorded w a @ sampled ans key"
    by auto
qed

end
