(* ===== verification/WorkerSteps.thy ===== *)
theory WorkerSteps
  imports WorkerServing
begin

text \<open>
  The worker as a transition system: its other handlers (drafts, detach, close, attach) and what the other
  engines and the runner do between its steps. In every reachable state a bridge that has not failed keeps
  the runner's record of its request equal to what its session has emitted.
\<close>

subsection \<open>Operations that emit nothing\<close>

abbreviation worker_inv_at :: "(int list \<Rightarrow> int) \<Rightarrow> (int list \<Rightarrow> 's) \<Rightarrow> (nat \<Rightarrow> int list \<times> session) \<Rightarrow> ('s, 'r) worker \<Rightarrow> bool" where
  "worker_inv_at f st asked \<equiv> \<lambda>w. worker_ok f st (asked, w)"

lemma preserves_silent:
  fixes m :: "nat \<Rightarrow> ('s, 'r, 'a) rig_op"
  assumes ok: "\<And>me. asked_ok (asked me) \<Longrightarrow> op_ok f st me (asked me) (m me)" and s: "\<And>me. silent (m me)"
  shows "preserves (worker_inv_at f st asked) (in_world (at_rig me (m me)))"
  unfolding preserves_def
proof (intro allI impI)
  fix w :: "('s, 'r) worker" assume w: "worker_ok f st (asked, w)"
  obtain r w' where run: "in_world (at_rig me (m me)) w = (r, w')" by force
  note sk = in_world_skeleton [OF run]
  have "wk_world w' = snd (at_rig me (m me) (wk_world w))" using run by (auto simp: in_world_def split: prod.splits)
  then have "world_ok f st asked (wk_world w')" using at_rig_ok [of f st asked "wk_world w" me "m me"] ok w by (simp add: worker_ok_def)
  moreover have "live_tied w'"
    using w sk s tied_in_world [OF _ _ run] by (intro live_tiedI) (auto simp: worker_ok_def live_tied_def)
  ultimately show "worker_ok f st (asked, snd (in_world (at_rig me (m me)) w))"
    using run sk w by (simp add: worker_ok_def)
qed

lemma discard_stale_op_ok: "op_ok f st me asked (discard_stale_ticket rows)"
proof (rule op_okI)
  fix g g' :: "('a, 'b) rig" and r assume ok: "rig_ok f st me asked g" and run: "discard_stale_ticket rows g = (r, g')"
  consider "g' = g" | "stale_ticket rows (rg_session g)" "rg_engine g' = rg_engine g" "rg_native g' = rg_native g"
      "rg_session g' = (rg_session g)\<lparr>s_pending := None, s_phase := Idle\<rparr>"
  proof (cases "stale_ticket rows (rg_session g)")
    case True
    then have "op_then discard_proposal (op_update drop_pending) g = (r, g')" using run by (simp add: discard_stale_ticket_def)
    then have "g' = g \<or> g' = drop_pending g \<or> (\<exists>h. g' = drop_pending (on_runtime h g))"
      by (cases r) (auto simp: op_returned op_raised discard_proposal_def split: if_splits)
    then show thesis
    proof (elim disjE exE)
      assume "g' = drop_pending g"
      then show thesis by (intro that(2) True) (simp_all add: drop_pending_def)
    next
      fix h assume "g' = drop_pending (on_runtime h g)"
      then show thesis by (intro that(2) True) (simp_all add: drop_pending_def)
    qed (rule that(1))
  qed (use run that(1) in \<open>simp add: discard_stale_ticket_def\<close>)
  then show "rig_ok f st me asked g' \<and> claims me (rg_native g) (rg_native g')"
  proof cases
    case 2
    then have p: "s_phase (rg_session g) = Pending" by (auto simp: stale_ticket_def split: option.splits)
    then have "session_run (target_verified f (fst asked)) (snd asked) (rg_session g')"
      using session_run.quiet [OF rig_okD(1) [OF ok] quiet_step.discard] 2(4) by simp
    from rig_ok_quiet [OF ok this, of g'] 2 p show ?thesis by simp
  qed (use ok in simp)
qed

lemma op_ok_return: "op_ok f st me asked (op_return x)"
  by (simp add: op_ok_def)

lemma op_ok_reading: "(\<And>x. op_ok f st me asked (m x)) \<Longrightarrow> op_ok f st me asked (\<lambda>g. m (h g) g)"
  by (simp add: op_ok_def)

lemma rig_drafts_op_ok:
  assumes "asked_ok asked"
  shows "op_ok f st me asked (rig_drafts dv packed_rows)"
proof -
  show ?thesis
    unfolding rig_drafts_def
    by (intro op_ok_then op_ok_bind op_ok_simple op_ok_if op_ok_return op_ok_reading [where m = "\<lambda>r. op_then (request_prepare dv r packed_rows) (op_return ())"]
        request_prepare_op_ok assms)
qed

subsection \<open>Drafts, detaching, closing\<close>

lemma preserves_discard_stale: "preserves (worker_inv_at f st asked) (discard_stale rows packed bridges)"
proof -
  have "preserves (worker_inv_at f st asked) ((\<lambda>(_, br). in_world (at_rig (br_engine br) (discard_stale_ticket rows))) b)"
    for b :: "string \<times> bridge"
    by (cases b) (simp add: preserves_silent [where m = "\<lambda>_. discard_stale_ticket rows"] discard_stale_op_ok discard_stale_silent)
  then have "preserves (worker_inv_at f st asked)
      (op_then (each (\<lambda>(_, br). in_world (at_rig (br_engine br) (discard_stale_ticket rows))) bridges) (op_return ()))"
    by (intro keep)
  moreover have "preserves (worker_inv_at f st asked) (op_return ())" by (intro keep)
  ultimately show ?thesis unfolding discard_stale_def by (cases packed) (simp_all only: packed_config.case)
qed

lemma preserves_bridge_drafts: "preserves (worker_inv_at f st asked) (bridge_drafts dv rows key)"
  unfolding bridge_drafts_def
  by (intro keep preserves_silent [where m = "\<lambda>_. rig_drafts dv rows"] rig_drafts_op_ok rig_drafts_silent)

lemma preserves_hook_case:
  assumes "preserves P m" and "\<And>key. preserves P (n key)"
  shows "preserves P (case (packed, bridges) of (No_Packed, [(key, _)]) \<Rightarrow> n key | _ \<Rightarrow> m)"
  using assms by (auto split: packed_config.splits list.splits)

lemma preserves_hook_drafts: "preserves (worker_inv_at f st asked) (hook_drafts dv sentinels packed)"
proof -
  have each: "preserves (worker_inv_at f st asked) ((\<lambda>(key, _). bridge_drafts dv rows key) b)"
    for b :: "string \<times> bridge" and rows
    by (cases b) (simp add: preserves_bridge_drafts)
  have many: "preserves (worker_inv_at f st asked) (op_bind (op_read (round_width sentinels packed)) (\<lambda>rows.
                 op_then (discard_stale rows packed bridges)
                  (op_bind (each (\<lambda>(key, _). bridge_drafts dv rows key) bridges) (\<lambda>ds.
                   op_return (merge_drafts ds)))))" for bridges
    by (intro keep each preserves_discard_stale)
  have "preserves (worker_inv_at f st asked) (op_then (op_refuse wk_closed ValueError)
        (case (packed, bridges) of
           (No_Packed, [(key, _)]) \<Rightarrow> bridge_drafts dv None key
         | _ \<Rightarrow> op_bind (op_read (round_width sentinels packed)) (\<lambda>rows.
                 op_then (discard_stale rows packed bridges)
                  (op_bind (each (\<lambda>(key, _). bridge_drafts dv rows key) bridges) (\<lambda>ds.
                   op_return (merge_drafts ds))))))" for bridges :: "(string \<times> bridge) list"
    by (intro preserves_then keep preserves_hook_case many preserves_bridge_drafts)
  then show ?thesis unfolding hook_drafts_def Let_def preserves_def by blast
qed

lemma bridge_close_op_ok:
  assumes "\<And>me. release me \<in> {None, Some (park_or_close dv me)}"
  shows "op_ok f st me asked (\<lambda>g. request_close dv me (s_request_id (rg_session g)) (release me) released g)"
    and "silent (\<lambda>g. request_close dv me (s_request_id (rg_session g)) (release me) released g)"
proof -
  have r: "release me = None \<or> release me = Some (park_or_close dv me)" using assms by simp
  have "op_ok f st me asked (request_close dv me k (release me) released)" for k
    by (rule request_close_ok) (use r park_or_close_ok in fastforce)
  then show "op_ok f st me asked (\<lambda>g. request_close dv me (s_request_id (rg_session g)) (release me) released g)"
    by (rule op_ok_reading)
  have "silent (request_close dv me k (release me) released)" for k
    by (rule request_close_silent) (use r engine_release_silent(2) in fastforce)
  then show "silent (\<lambda>g. request_close dv me (s_request_id (rg_session g)) (release me) released g)"
    by (rule silent_reading)
qed

lemma preserves_bridge_close:
  assumes "\<And>me. release me \<in> {None, Some (park_or_close dv me)}"
  shows "preserves (worker_inv_at f st asked) (bridge_close dv release released br)"
  unfolding bridge_close_def
  by (rule preserves_silent [where m = "\<lambda>me g. request_close dv me (s_request_id (rg_session g)) (release me) released g"])
    (intro bridge_close_op_ok assms)+

text \<open>Fewer bridges, and none.\<close>

lemma worker_ok_fewer:
  assumes ok: "worker_ok f st (asked, w)" and w: "wk_world w' = wk_world w" "wk_runner w' = wk_runner w"
    and sub: "wk_bridges w' = filter P (wk_bridges w)"
  shows "worker_ok f st (asked, w')"
proof -
  have sub: "set (skeleton w') \<subseteq> set (skeleton w)" by (auto simp: skeleton_def assms(4) image_iff)
  have "skeleton_ok (skeleton w')"
    using ok by (auto simp: worker_ok_def skeleton_ok_def skeleton_def assms(4) comp_def case_prod_unfold intro: distinct_map_filter)
  moreover have "keyed asked (skeleton w')" using ok sub by (auto simp: worker_ok_def keyed_def)
  moreover have "live_tied w'"
    using ok sub w by (intro live_tiedI) (auto simp: worker_ok_def live_tied_def tied_def recorded_def)
  ultimately show ?thesis using ok w by (simp add: worker_ok_def)
qed

lemma preserves_hook_detach:
  assumes "\<And>me. release me \<in> {None, Some (park_or_close dv me)}"
  shows "preserves (worker_inv_at f st asked) (hook_detach dv release released key)"
  unfolding preserves_def
proof (intro allI impI)
  fix w :: "('a, 'b) worker" assume w: "worker_ok f st (asked, w)"
  have "worker_ok f st (asked, w\<lparr>wk_bridges := dict_del key (wk_bridges w)\<rparr>)"
    by (rule worker_ok_fewer [OF w]) (simp_all add: dict_del_def)
  then show "worker_ok f st (asked, snd (hook_detach dv release released key w))"
    using preserves_bridge_close [OF assms] w unfolding hook_detach_def preserves_def
    by (cases "map_of (wk_bridges w) key") simp_all
qed

lemma preserves_hook_close:
  assumes "\<And>me. release me \<in> {None, Some (park_or_close dv me)}"
  shows "preserves (worker_inv_at f st asked) (hook_close dv release released)"
proof -
  have each: "preserves (worker_inv_at f st asked) ((\<lambda>(_, br). bridge_close dv release released br) b)" for b :: "string \<times> bridge"
    by (cases b) (simp add: preserves_bridge_close [OF assms])
  have "worker_ok f st (asked, w\<lparr>wk_bridges := [], wk_closed := True\<rparr>)" if "worker_ok f st (asked, w)"
    for w :: "('a, 'b) worker"
    by (rule worker_ok_fewer [OF that, where P = "\<lambda>_. False"]) simp_all
  then have "preserves (worker_inv_at f st asked)
      (op_then (each (\<lambda>(_, br). bridge_close dv release released br) bridges) (op_update (\<lambda>w. w\<lparr>wk_bridges := [], wk_closed := True\<rparr>)))"
    for bridges :: "(string \<times> bridge) list" by (intro keep each)
  then show ?thesis unfolding hook_close_def preserves_def by simp
qed

subsection \<open>A new bridge\<close>

text \<open>What the factory hands to the hook: the engine's request is the one the runner's prefill asked for, under its
  own id, its session has emitted its seed and no more, and engine and record are nobody else's.\<close>

definition fresh_bridge :: "(nat \<Rightarrow> int list \<times> session) \<Rightarrow> ('s, 'r) worker \<Rightarrow> string \<Rightarrow> bridge \<Rightarrow> bool" where
  "fresh_bridge asked w key br \<longleftrightarrow>
     bridge_init True key (br_engine br) (br_pages br) (wk_runner w) = Inr br
     \<and> (\<exists>fy p pages backstop t neural. prefill_terms fy p pages (rn_states (wk_runner w) (br_state br)) backstop = Inr t
          \<and> factory_session fy key neural t = Inr (snd (asked (br_engine br))))
     \<and> (\<exists>g. rig_at (wk_world w) (br_engine br) = Some g \<and> emitted g = s_emitted (snd (asked (br_engine br))))
     \<and> br_engine br \<notin> (\<lambda>(key, me, a, failed). me) ` set (skeleton w)
     \<and> br_state br \<notin> addresses (skeleton w)"

lemma bridge_init_live: "bridge_init synchronous r me pages rn = Inr br \<Longrightarrow> \<not> br_failed br"
  by (auto simp: bridge_init_def split: if_splits option.splits)

lemma prefill_terms_seed:
  assumes "prefill_terms fy p pages state backstop = Inr t"
  shows "rq_output state = [te_seed t]"
  using assms
  by (auto simp: prefill_terms_def adopted_seed_def rbind_Inr_iff Let_def split: if_splits option.splits list.splits)

lemma fresh_bridge_tied:
  assumes "fresh_bridge asked w key br"
  shows "key = s_request_id (snd (asked (br_engine br)))" and "\<not> br_failed br"
    and "tied w (key, br_engine br, br_state br, failed)"
proof -
  obtain fy p pages backstop t neural where t: "prefill_terms fy p pages (rn_states (wk_runner w) (br_state br)) backstop = Inr t"
    and s: "factory_session fy key neural t = Inr (snd (asked (br_engine br)))"
    using assms by (auto simp: fresh_bridge_def)
  note i = session_init_inv [OF s [unfolded factory_session_def]]
  show "key = s_request_id (snd (asked (br_engine br)))" using i(2) by simp
  show "\<not> br_failed br" using assms bridge_init_live unfolding fresh_bridge_def by blast
  show "tied w (key, br_engine br, br_state br, failed)"
    using assms prefill_terms_seed [OF t] i(6) by (auto simp: fresh_bridge_def tied_def recorded_def)
qed

lemma worker_ok_attach:
  assumes ok: "worker_ok f st (asked, w)" and fresh: "fresh_bridge asked w key br" and new: "map_of (wk_bridges w) key = None"
    and w': "wk_world w' = wk_world w" "wk_runner w' = wk_runner w" "wk_bridges w' = wk_bridges w @ [(key, br)]"
  shows "worker_ok f st (asked, w')"
proof -
  note t = fresh_bridge_tied [OF fresh]
  have sk: "skeleton w' = skeleton w @ [(key, br_engine br, br_state br, br_failed br)]" by (simp add: skeleton_def w'(3))
  have "key \<notin> fst ` set (skeleton w)" using new by (simp add: map_of_eq_None_iff skeleton_keys)
  then have "skeleton_ok (skeleton w')"
    using ok fresh by (auto simp: worker_ok_def skeleton_ok_def sk fresh_bridge_def addresses_def)
  moreover have "keyed asked (skeleton w')" using ok t(1) by (auto simp: worker_ok_def keyed_def sk)
  moreover have "tied w' (key', me, a, False)" if "(key', me, a, False) \<in> set (skeleton w')" for key' me a
  proof -
    have "tied w (key', me, a, False)" using that ok t(3) by (auto simp: sk worker_ok_def live_tied_def)
    then show ?thesis using w' by (simp add: tied_def recorded_def)
  qed
  ultimately show ?thesis using ok w' by (auto simp: worker_ok_def intro: live_tiedI)
qed

lemma hook_attach_ok:
  assumes ok: "worker_ok f st (asked, w)" and fresh: "fresh_bridge asked w key br"
  shows "worker_ok f st (asked, snd (hook_attach packed key br w))"
proof -
  obtain r w' where run: "hook_attach packed key br w = (r, w')" by force
  then have "w' = w \<or> map_of (wk_bridges w) key = None \<and> w' = w\<lparr>wk_bridges := wk_bridges w @ [(key, br)]\<rparr>"
    by (cases r) (auto simp: hook_attach_def op_returned op_raised)
  then show ?thesis using run ok worker_ok_attach [OF ok fresh, of w'] by auto
qed

lemma hook_init_ok:
  assumes ok: "worker_ok f st (asked, w)" and fresh: "fresh_bridge asked w key br" and none: "wk_bridges w = []"
    and run: "hook_init idle taken key br (wk_world w) (wk_runner w) = Inr w'"
  shows "worker_ok f st (asked, w')"
  by (rule worker_ok_attach [OF ok fresh]) (use none run in \<open>auto simp: hook_init_def split: if_splits\<close>)

subsection \<open>The system\<close>

text \<open>\<open>serve\<close> is anything the other engines do: prefills over the shared slot, builds, rebinds, steps of requests that
  are not bridged. \<open>runner\<close> is anything else the runner does to its own records between the hook's steps.\<close>

inductive worker_step ::
  "(int list \<Rightarrow> int) \<Rightarrow> (int list \<Rightarrow> 's) \<Rightarrow> (nat \<Rightarrow> int list \<times> session) \<times> ('s, 'r) worker
     \<Rightarrow> (nat \<Rightarrow> int list \<times> session) \<times> ('s, 'r) worker \<Rightarrow> bool"
  for f :: "int list \<Rightarrow> int" and st :: "int list \<Rightarrow> 's" where
  serve: "serving_step f st (a, wk_world w) (a', v) \<Longrightarrow>
    (\<forall>(key, me, x, failed) \<in> set (skeleton w). wd_rigs v me = wd_rigs (wk_world w) me \<and> a' me = a me) \<Longrightarrow>
    worker_step f st (a, w) (a', w\<lparr>wk_world := v\<rparr>)"
| runner: "(\<forall>(key, me, x, failed) \<in> set (skeleton w). rq_output (rn_states rn x) = recorded w x) \<Longrightarrow>
    worker_step f st (a, w) (a, w\<lparr>wk_runner := rn\<rparr>)"
| first: "wk_bridges w = [] \<Longrightarrow> fresh_bridge a w key br \<Longrightarrow>
    hook_init idle taken key br (wk_world w) (wk_runner w) = Inr w' \<Longrightarrow> worker_step f st (a, w) (a, w')"
| attach: "fresh_bridge a w key br \<Longrightarrow> worker_step f st (a, w) (a, snd (hook_attach packed key br w))"
| execute: "device_ok f st dv \<Longrightarrow> packed_all f st dv (wk_world w) \<Longrightarrow> (\<forall>ks. packed = Over_Blocks ks \<longrightarrow> distinct ks) \<Longrightarrow>
    sched_ok w step \<Longrightarrow> host_ok host step w \<Longrightarrow>
    worker_step f st (a, w) (a, snd (hook_execute dv host sentinels forced ca packed pending False step w))"
| drafts: "worker_step f st (a, w) (a, snd (hook_drafts dv sentinels packed w))"
| detach: "(\<And>me. release me \<in> {None, Some (park_or_close dv me)}) \<Longrightarrow>
    worker_step f st (a, w) (a, snd (hook_detach dv release released key w))"
| close: "(\<And>me. release me \<in> {None, Some (park_or_close dv me)}) \<Longrightarrow>
    worker_step f st (a, w) (a, snd (hook_close dv release released w))"

definition worker_start :: "(nat \<Rightarrow> int list \<times> session) \<times> ('s, 'r) worker \<Rightarrow> bool" where
  "worker_start = (\<lambda>(a, w). serving_start (a, wk_world w) \<and> wk_bridges w = [])"

lemma worker_serve_ok:
  assumes ok: "worker_ok f st (a, w)" and s: "serving_step f st (a, wk_world w) (a', v)"
    and rest: "\<forall>(key, me, x, failed) \<in> set (skeleton w). wd_rigs v me = wd_rigs (wk_world w) me \<and> a' me = a me"
  shows "worker_ok f st (a', w\<lparr>wk_world := v\<rparr>)"
proof -
  have w: "world_ok f st a' v" using serving_step_ok [OF s] ok by (simp add: serving_ok_def worker_ok_def)
  have "keyed a' (skeleton w)" using ok rest by (fastforce simp: worker_ok_def keyed_def)
  moreover have "live_tied (w\<lparr>wk_world := v\<rparr>)"
  proof (rule live_tiedI)
    fix key me x assume m: "(key, me, x, False) \<in> set (skeleton (w\<lparr>wk_world := v\<rparr>))"
    then have "tied w (key, me, x, False)" and "wd_rigs v me = wd_rigs (wk_world w) me"
      using ok live_tiedD rest by (auto simp: worker_ok_def)
    then show "tied (w\<lparr>wk_world := v\<rparr>) (key, me, x, False)"
      by (auto simp: tied_def rig_at_def emitted_def recorded_def)
  qed
  ultimately show ?thesis using ok w by (simp add: worker_ok_def)
qed

lemma worker_runner_ok:
  assumes ok: "worker_ok f st (a, w)"
    and rest: "\<forall>(key, me, x, failed) \<in> set (skeleton w). rq_output (rn_states rn x) = recorded w x"
  shows "worker_ok f st (a, w\<lparr>wk_runner := rn\<rparr>)"
  by (rule worker_ok_recorded [OF ok]) (use ok rest in \<open>auto simp: worker_ok_def recorded_def\<close>)

lemma worker_step_ok: "worker_step f st x y \<Longrightarrow> worker_ok f st x \<Longrightarrow> worker_ok f st y"
proof (induction rule: worker_step.induct)
  case (execute dv w packed step host a sentinels forced ca pending)
  then show ?case
    using hook_execute_ok(1) [of f st a w dv packed step host sentinels forced ca pending] by (metis prod.collapse)
next
  case (drafts a w dv sentinels packed)
  then show ?case using preserves_hook_drafts unfolding preserves_def by blast
next
  case (detach release dv a w released key)
  then show ?case using preserves_hook_detach [of release dv] unfolding preserves_def by blast
next
  case (close release dv a w released)
  then show ?case using preserves_hook_close [of release dv] unfolding preserves_def by blast
qed (blast intro: worker_serve_ok worker_runner_ok hook_init_ok hook_attach_ok)+

interpretation worker: invariant_system worker_start "worker_step f st" "worker_ok f st"
proof unfold_locales
  show "worker_start x \<Longrightarrow> worker_ok f st x" for x
    by (cases x) (simp add: worker_start_def serving_start_def worker_ok_def world_ok_def rig_at_def skeleton_def
        skeleton_ok_def keyed_def live_tied_def)
qed (rule worker_step_ok)

end
