(* ===== verification/WorkerDemo.thy ===== *)
theory WorkerDemo
  imports WorkerSteps
begin

text \<open>
  A worker of one request on the demonstration device: the factory's terms, the first bridge, its drafts and
  one decode step, evaluated part by part.
\<close>

definition demo_sampling :: sampling where
  "demo_sampling = \<lparr>sp_temperature = 0, sp_n = 1, sp_max_tokens = 8, sp_min_tokens = 0, sp_ignore_eos = False,
     sp_logprobs = None, sp_prompt_logprobs = None, sp_presence_penalty = 0, sp_frequency_penalty = 0,
     sp_repetition_penalty = 1, sp_stop = [], sp_structured = False, sp_logit_bias = [], sp_allowed_ids = [],
     sp_bad_words = [], sp_stop_ids = [], sp_primary_eos = None\<rparr>"

definition demo_factory :: factory where
  "demo_factory = \<lparr>fy_any_request = False, fy_extent = False, fy_source_checked = True, fy_capture_rows = None,
     fy_ceiling = 8, fy_vocab = 100, fy_eos = [], fy_helpers = 48\<rparr>"

definition asked_state :: req_state where
  "asked_state = \<lparr>rq_prompt = Some demo_prompt, rq_output = [0], rq_computed = 0, rq_blocks = [[1]], rq_max_tokens = Some 8\<rparr>"

definition demo_terms :: terms where
  "demo_terms = projr (prefill_terms demo_factory demo_sampling [replicate 68 1] asked_state (Inr None))"

definition asked_session :: session where
  "asked_session = projr (factory_session demo_factory ''r'' Map.empty demo_terms)"

lemma demo_terms: "prefill_terms demo_factory demo_sampling [replicate 68 1] asked_state (Inr None) = Inr demo_terms"
  unfolding demo_terms_def by (rule returned_projr) code_simp

lemma asked_session: "factory_session demo_factory ''r'' Map.empty demo_terms = Inr asked_session"
  unfolding asked_session_def by (rule returned_projr) code_simp

text \<open>The engine the request's prefill seeds, and the bridge's decode, rig by rig.\<close>

definition worker_started :: "unit result \<times> (int list, int list \<times> int list) rig" where
  "worker_started = engine_start demo_device (\<lambda>_. False) 0 asked_session (replicate 68 1) 48 1 None 16 None False
     (demo_rig\<lparr>rg_native := wd_native demo_world\<rparr>)"

definition worker_request :: "(int list, int list \<times> int list) rig" where
  "worker_request = projr (fast_request_init (snd worker_started) True)"

definition worker_ticketed :: "draft_ids option result \<times> (int list, int list \<times> int list) rig" where
  "worker_ticketed = rig_drafts demo_device None worker_request"

definition worker_ticket :: block_ticket where
  "worker_ticket = projr (prepared_ticket (snd worker_ticketed))"

definition worker_output :: "committed_output result \<times> (int list, int list \<times> int list) rig" where
  "worker_output = request_step demo_device 0 ''r'' (Inr False) (Inr False) (snd worker_ticketed)"

definition worker_pages :: page_binding where
  "worker_pages = \<lparr>pb_capacity = 68, pb_physical = 100, pb_blocks = [1], pb_failed = False\<rparr>"

definition worker_schedule :: sched_step where
  "worker_schedule = scheduled_for (\<lambda>_. 6) [] \<lparr>df_requests = [''r''], df_tokens = [tl (t_tokens worker_ticket)]\<rparr> [''r'']"

lemma worker_rigs:
  "fst worker_started = Inr ()" "returned (fast_request_init (snd worker_started) True)"
  "returned (fst worker_ticketed)" "prepared_ticket (snd worker_ticketed) = Inr worker_ticket"
  "s_emitted (rg_session worker_request) = [0]" "s_emitted asked_session = [0]" "s_request_id asked_session = ''r''"
  "t_request_id worker_ticket = ''r''" "t_position worker_ticket = 6" "length (t_tokens worker_ticket) = 4"
  "admit_scheduler_output worker_schedule (snd worker_ticketed) = Inr worker_ticket"
  "en_phase (rg_engine (snd worker_ticketed)) = E_Idle"
  by code_simp+

lemma worker_outputs:
  "fst worker_output = Inr \<lparr>co_request_id = ''r'', co_token_ids = [1, 2], co_position = 8, co_finished = False, co_cancelled = False\<rparr>"
  "s_phase (rg_session (snd worker_output)) = Idle"
  by code_simp+

subsection \<open>The worker\<close>

definition worker_runner :: runner where
  "worker_runner = \<lparr>rn_requests = [''r'' \<mapsto> 7], rn_states = (\<lambda>_. asked_state),
     rn_batch = \<lparr>bt_requests = 1, bt_row = [''r'' \<mapsto> 0], bt_outputs = [7], bt_num_tokens = [7], bt_computed = [6],
       bt_tokens = [demo_prompt @ replicate 10 0], bt_width = 16\<rparr>, rn_max_model_len = 16, rn_vocab = 100\<rparr>"

text \<open>The host's state update sets the request's computed tokens, as vLLM's does.\<close>

definition demo_host :: "(int list, int list \<times> int list) host" where
  "demo_host = \<lparr>dv_storage = (\<lambda>_. Inr ()), dv_pages = \<lparr>io_in_place = True, io_upload = Inr ()\<rparr>,
     dv_update = (\<lambda>step rn. (Inr (), put_state 7 (\<lambda>s. s\<lparr>rq_computed := 6\<rparr>) rn)), dv_native = (\<lambda>step w. (Inr (), w))\<rparr>"

definition worker_bridge :: bridge where
  "worker_bridge = \<lparr>br_engine = 0, br_state = 7, br_pages = worker_pages, br_failed = False\<rparr>"

definition worker_idle :: "(int list, int list \<times> int list) worker" where
  "worker_idle = \<lparr>wk_world = demo_world, wk_runner = worker_runner, wk_bridges = [], wk_closed = True\<rparr>"

definition worker_attached :: "(int list, int list \<times> int list) worker" where
  "worker_attached = \<lparr>wk_world = put_rig 0 worker_request demo_world, wk_runner = worker_runner,
     wk_bridges = [(''r'', worker_bridge)], wk_closed = False\<rparr>"

definition worker_drafted :: "(int list, int list \<times> int list) worker" where
  "worker_drafted = snd (hook_drafts demo_device True No_Packed worker_attached)"

definition demo_cancels :: cancels where
  "demo_cancels = \<lparr>ca_before = Inr False, ca_commit = (\<lambda>_. Inr False), ca_first = (\<lambda>_. Inr False), ca_second = (\<lambda>_. Inr False)\<rparr>"

definition worker_served :: "hook_answer result \<times> (int list, int list \<times> int list) worker" where
  "worker_served = hook_execute demo_device demo_host True None demo_cancels No_Packed False False worker_schedule worker_drafted"

lemma worker_drafted: "worker_drafted = worker_attached\<lparr>wk_world := put_rig 0 (snd worker_ticketed) (wk_world worker_attached)\<rparr>"
proof -
  have "rig_at (put_rig 0 worker_request demo_world) 0 = Some worker_request" by (simp add: rig_at_put)
  then show ?thesis
    by (simp add: worker_drafted_def worker_attached_def hook_drafts_def bridge_drafts_def with_bridge_def worker_bridge_def
        op_then_def op_bind_def op_refuse_def in_world_def at_rig_def case_prod_beta worker_ticketed_def [symmetric])
qed

lemma worker_schedule: "sc_new worker_schedule = []" "sc_cached worker_schedule = [''r'']" "sc_total worker_schedule = 4"
  "sc_counts worker_schedule = [(''r'', 4)]"
  using worker_rigs(10)
  by (simp_all add: worker_schedule_def scheduled_for_def drafts_of_def)

definition demo_answer :: committed_output where
  "demo_answer = \<lparr>co_request_id = ''r'', co_token_ids = [1, 2], co_position = 8, co_finished = False, co_cancelled = False\<rparr>"

lemma worker_decoded:
  "\<exists>w'. execute_decode demo_device demo_host demo_cancels worker_schedule ''r'' worker_drafted
     = (Inr (model_runner_output demo_answer), w') \<and> wk_bridges w' = [(''r'', worker_bridge)]
       \<and> wd_rigs (wk_world w') 0 = Some (snd worker_output)"
proof -
  let ?g = "snd worker_ticketed"
  let ?w = "put_rig 0 ?g (put_rig 0 worker_request demo_world)"
  let ?rn = "put_state 7 (\<lambda>s. s\<lparr>rq_computed := 6\<rparr>) worker_runner"
  have at: "rig_at (put_rig 0 g w) 0 = Some g" for g :: "(int list, int list \<times> int list) rig" and w by (simp add: rig_at_put)
  have r: "validate_runner_reservation ?rn 7 worker_ticket 1 = Inr ()" by code_simp
  have b: "binding_refresh \<lparr>io_in_place = True, io_upload = Inr ()\<rparr> [1] 6 4 (worker_pages, ?g) = (Inr False, worker_pages, ?g)"
    using worker_rigs(12)
    by (simp add: binding_refresh_def op_then_def op_bind_def op_refuse_def op_except_def validate_blocks_def blocks_refused_def
        refresh_refused_def worker_pages_def)
  have d: "request_step demo_device 0 ''r'' (Inr False) (Inr False) ?g = (Inr demo_answer, snd worker_output)"
    using worker_outputs(1) unfolding worker_output_def demo_answer_def by (metis prod.collapse)
  have a: "fst (apply_committed_output 7 demo_answer 1 ?rn) = Inr ()" by code_simp
  then obtain rn' where a: "apply_committed_output 7 demo_answer 1 ?rn = (Inr (), rn')" by (metis prod.collapse)
  have blocks: "rq_blocks (rn_states ?rn 7) = [[1]]" by (simp add: put_state_def worker_runner_def asked_state_def)
  have refresh: "refresh_bridge (dv_pages demo_host) ''r'' worker_ticket (w\<lparr>wk_runner := ?rn\<rparr>)
      = (Inr False, w\<lparr>wk_runner := ?rn, wk_world := put_rig 0 ?g (wk_world w)\<rparr>)" if w: "w = worker_drafted" for w
    using blocks b at worker_rigs(9,10)
    by (simp add: w worker_drafted worker_attached_def refresh_bridge_def with_bridge_def worker_bridge_def demo_host_def set_bridge_def)
  have body: "\<exists>w'. decode_body demo_device demo_host demo_cancels worker_schedule ''r'' worker_bridge worker_ticket worker_drafted
      = (Inr (model_runner_output demo_answer), w') \<and> wk_bridges w' = [(''r'', worker_bridge)]
       \<and> wd_rigs (wk_world w') 0 = Some (snd worker_output)"
    using r refresh [OF refl] d a at worker_rigs(8)
    by (simp add: decode_body_def Let_def op_then_def op_bind_def in_runner_def in_world_def at_rig_def demo_host_def
        worker_bridge_def demo_cancels_def worker_drafted worker_attached_def case_prod_beta put_rig_def)
  have "map_of (wk_bridges worker_drafted) ''r'' = Some worker_bridge" "\<not> br_failed worker_bridge"
    by (simp_all add: worker_drafted worker_attached_def worker_bridge_def)
  moreover have "check_rig 0 (admit_scheduler_output worker_schedule) (wk_world worker_drafted) = Inr worker_ticket"
    using worker_rigs(11) by (simp add: check_rig_def worker_drafted worker_attached_def at)
  ultimately show ?thesis
    using body by (auto simp: execute_decode_def with_bridge_def op_then_def [of "op_refuse _ _"] op_bind_def [of "op_read _"]
        op_bind_def [of "op_refuse _ _"] op_refuse_def op_except_def worker_bridge_def decode_body_def Let_def)
qed

end
