(* ===== verification/RoundFrame.thy ===== *)
theory RoundFrame
  imports BlocksEmission
begin

text \<open>
  What a round leaves alone: a packed step over some requests changes no other request's engine or session,
  however its groups are served, narrowed or refused and whether or not it answers.
\<close>

definition outside :: "nat set \<Rightarrow> ('s, 'r) world \<Rightarrow> nat \<Rightarrow> ('s, 'r) rig option" where
  "outside E w me = (if me \<in> E then None else wd_rigs w me)"

abbreviation engines :: "packed_entry list \<Rightarrow> nat set" where
  "engines entries \<equiv> pe_engine ` set entries"

text \<open>Operations that change no request outside \<open>E\<close>, whose results satisfy \<open>Q\<close>.\<close>

definition confined :: "nat set \<Rightarrow> ('a \<Rightarrow> bool) \<Rightarrow> ('s, 'r, 'a) world_op \<Rightarrow> bool" where
  "confined E Q m \<longleftrightarrow> (\<forall>w. outside E (snd (m w)) = outside E w \<and> (\<forall>x. fst (m w) = Inr x \<longrightarrow> Q x))"

lemma confined_keeps: "confined E Q m \<Longrightarrow> keeps (outside E) m"
  by (simp add: confined_def keeps_def)

lemma confined_any: "keeps (outside E) m \<Longrightarrow> confined E (\<lambda>_. True) m"
  by (simp add: confined_def keeps_def)

lemma confined_read: "(\<And>w x. g w = Inr x \<Longrightarrow> Q x) \<Longrightarrow> confined E Q (op_read g)"
  by (simp add: confined_def)

lemma confined_return: "Q x \<Longrightarrow> confined E Q (op_return x)"
  by (simp add: confined_def)

lemma confined_bind:
  assumes "confined E Q m" and "\<And>x. Q x \<Longrightarrow> confined E R (k x)"
  shows "confined E R (op_bind m k)"
  unfolding confined_def
proof
  fix w
  obtain r w1 where m: "m w = (r, w1)" by force
  have "outside E w1 = outside E w" "\<And>x. r = Inr x \<Longrightarrow> Q x"
    using assms(1) [unfolded confined_def, THEN spec, of w] by (simp_all add: m)
  then show "outside E (snd (op_bind m k w)) = outside E w \<and> (\<forall>x. fst (op_bind m k w) = Inr x \<longrightarrow> R x)"
    using assms(2) [unfolded confined_def] by (cases r) (auto simp: op_bind_def m)
qed

lemma confined_then: "keeps (outside E) m \<Longrightarrow> confined E R n \<Longrightarrow> confined E R (op_then m n)"
  unfolding op_then_def by (rule confined_bind [OF confined_any])

subsection \<open>One request, the block\<close>

lemma outside_native [simp]: "outside E (w\<lparr>wd_native := n\<rparr>) = outside E w"
  by (simp add: outside_def fun_eq_iff)

lemma keeps_at_rig_outside [keep]: "me \<in> E \<Longrightarrow> keeps (outside E) (at_rig me m)"
  by (auto simp: keeps_def at_rig_def put_rig_def outside_def fun_eq_iff split: option.splits prod.splits)

lemma update_rig_outside: "me \<in> E \<Longrightarrow> outside E (update_rig me h w) = outside E w"
  using keeps_at_rig_outside [of me E "op_update h"] unfolding update_rig_def keeps_def by simp

lemma fold_outside:
  "engines es \<subseteq> E \<Longrightarrow> outside E (fold (\<lambda>e. update_rig (pe_engine e) (h e)) es w) = outside E w"
  by (induction es arbitrary: w) (simp_all add: update_rig_outside)

lemma keeps_outside_world [keep]:
  "keeps (outside E) (block_replay_op dv inputs)" "keeps (outside E) (release_segment dv k segment)"
  "keeps (outside E) (op_update (on_block k h))" "keeps (outside E) (op_update world_packed_step)"
  by (auto simp: keeps_def block_replay_op_def release_segment_def on_block_def world_packed_step_def split: prod.splits)

lemma outside_each: "(\<And>x. x \<in> set xs \<Longrightarrow> keeps f (m x)) \<Longrightarrow> keeps f (each m xs)"
  by (induction xs) (auto intro!: keep)

lemma sequential_outside [keep]:
  "engines es \<subseteq> E \<Longrightarrow> keeps (outside E) (sequential_packed_step dv ca es)"
  unfolding sequential_packed_step_def by (intro keep outside_each) auto

lemma fold_release_outside:
  "outside E (fold (\<lambda>segment w. snd (release_segment dv k segment w)) ss w) = outside E w"
  using keeps_outside_world(2) [of E dv k] by (induction ss arbitrary: w) (simp_all add: keeps_def)

lemma fail_round_outside: "engines es \<subseteq> E \<Longrightarrow> outside E (fail_round dv k es w) = outside E w"
  by (simp add: fail_round_def Let_def fold_release_outside fold_outside)

lemma set_round_busy_outside: "engines es \<subseteq> E \<Longrightarrow> outside E (set_round_busy b es w) = outside E w"
  by (simp add: set_round_busy_def fold_outside)

lemma verify_failed_outside: "engines es \<subseteq> E \<Longrightarrow> outside E (verify_failed k es w) = outside E w"
  by (simp add: verify_failed_def fold_outside on_block_def)

lemma keeps_verify_device_outside: "keeps (outside E) (verify_device dv k segments idle carries users)"
  unfolding verify_device_def by (intro keep outside_each)

lemma keeps_block_verify_outside:
  assumes "engines entries \<subseteq> E"
  shows "keeps (outside E) (block_verify dv k entries)"
proof -
  have "keeps (outside E) (op_except (verify_device dv k segments idle carries users) (verify_failed k entries))"
    for segments idle carries users
    by (intro keep keeps_verify_device_outside verify_failed_outside assms)
  note this [keep]
  show ?thesis
    unfolding block_verify_def Let_def
    by (rule keeps_reading, rule keeps_def [THEN iffD1, THEN spec], intro keep)
qed

lemma run_verified_block_outside:
  assumes "engines entries \<subseteq> E"
  shows "keeps (outside E) (run_verified_block dv forced ca k entries)"
proof -
  note keeps_block_verify_outside [OF assms, keep]
  have "keeps (outside E) ((\<lambda>(e, segment, rows). at_rig (pe_engine e)
      (commit_entry dv forced k e segment rows (ca_commit ca (pe_request_id e)))) x)"
    if "x \<in> set (zip entries zs)" for x zs
    using set_zip_leftD assms that by (fastforce intro!: keep split: prod.splits)
  then have "keeps (outside E) (each (\<lambda>(e, segment, rows). at_rig (pe_engine e)
      (commit_entry dv forced k e segment rows (ca_commit ca (pe_request_id e)))) (zip entries zs))" for zs
    by (rule outside_each)
  note this [keep]
  show ?thesis
    unfolding run_verified_block_def
    by (intro keep) (auto simp: set_round_busy_outside fail_round_outside assms world_packed_step_def intro!: keep)
qed

subsection \<open>A block's round and the blocks'\<close>

lemma cut_entries_outside:
  assumes "engines (map fst xs) \<subseteq> E"
  shows "outside E (snd (cut_entries xs w)) = outside E w \<and> engines (fst (fst (cut_entries xs w))) \<subseteq> E"
  using assms
proof (induction xs arbitrary: w)
  case (Cons x xs)
  obtain e width where x: "x = (e, width)" by force
  show ?case
  proof (cases width)
    case None
    then show ?thesis using Cons.IH [of w] Cons.prems by (auto simp: x split: prod.splits)
  next
    case (Some rows)
    obtain r w1 where n: "at_rig (pe_engine e) (on_session (\<lambda>s. session_narrow s (pe_request_id e) (pe_ticket e) (int rows))) w = (r, w1)"
      by force
    have "outside E w1 = outside E w" using keepsD [OF keeps_at_rig_outside n] Cons.prems by (simp add: x)
    then show ?thesis using Cons.IH [of w1] Cons.prems n by (cases r) (auto simp: x Some split: prod.splits)
  qed
qed simp

lemma narrow_round_confined:
  assumes "engines entries \<subseteq> E"
  shows "confined E (\<lambda>(es, ok). engines es \<subseteq> E) (narrow_round entries)"
  unfolding confined_def
proof
  fix w
  show "outside E (snd (narrow_round entries w)) = outside E w
    \<and> (\<forall>x. fst (narrow_round entries w) = Inr x \<longrightarrow> (case x of (es, ok) \<Rightarrow> engines es \<subseteq> E))"
  proof (cases "those_results (map (\<lambda>e. check_rig (pe_engine e) (planned_width e) w) entries)")
    case (Inl e)
    then show ?thesis using assms by (simp add: narrow_round_def)
  next
    case (Inr widths)
    have "engines (map fst (zip entries widths)) \<subseteq> E" using assms set_zip_leftD by fastforce
    from cut_entries_outside [OF this, of w] show ?thesis
      by (auto simp: narrow_round_def Inr split: prod.splits)
  qed
qed

lemma refuse_round_outside: "engines es \<subseteq> E \<Longrightarrow> keeps (outside E) (refuse_round dv k es)"
  by (simp add: keeps_def refuse_round_def Let_def fail_round_outside)

definition stays_in :: "nat set \<Rightarrow> disposal \<Rightarrow> bool" where
  "stays_in E d \<longleftrightarrow> (case d of Step_Each es \<Rightarrow> engines es \<subseteq> E | _ \<Rightarrow> True)"

lemma dispose_round_confined:
  assumes "engines entries \<subseteq> E"
  shows "confined E (stays_in E) (dispose_round dv sentinels ca k entries)"
proof -
  have "confined E (stays_in E) (op_bind (narrow_round entries) (\<lambda>(entries, ok).
             if ok then op_return (Step_Each entries)
             else op_bind (refuse_round dv k entries) (\<lambda>outputs. op_return (Refused outputs))))"
    by (rule confined_bind [OF narrow_round_confined [OF assms]])
       (auto simp: stays_in_def intro!: confined_return confined_bind [OF confined_any [OF refuse_round_outside]])
  then show ?thesis
    unfolding dispose_round_def using assms
    by (intro confined_bind [OF confined_read [where Q = "\<lambda>_. True"]])
       (auto simp: stays_in_def split: option.splits
         intro!: confined_return confined_bind [OF confined_read [where Q = "\<lambda>_. True"]])
qed

lemma block_rounds_confined:
  assumes "\<And>k es. map_of groups k = Some es \<Longrightarrow> engines es \<subseteq> E" and "engines later \<subseteq> E"
  shows "confined E (\<lambda>(table, rest). engines rest \<subseteq> E) (block_rounds dv sentinels forced ca groups blocks table later)"
  using assms(2)
proof (induction blocks arbitrary: table later)
  case Nil
  then show ?case by (simp add: confined_def)
next
  case (Cons k blocks)
  show ?case
  proof (cases "map_of groups k")
    case None
    then show ?thesis using Cons by simp
  next
    case (Some es)
    note sub = assms(1) [OF Some]
    show ?thesis
      unfolding block_rounds.simps Some option.case
    proof (rule confined_bind [OF dispose_round_confined [OF sub]])
      fix d assume "stays_in E d"
      then show "confined E (\<lambda>(table, rest). engines rest \<subseteq> E) (case d of
            Serve \<Rightarrow> op_bind (run_verified_block dv forced ca k es) (\<lambda>done.
              block_rounds dv sentinels forced ca groups blocks (add_outputs done table) later)
          | Step_Each es \<Rightarrow> block_rounds dv sentinels forced ca groups blocks table (later @ es)
          | Refused done \<Rightarrow> block_rounds dv sentinels forced ca groups blocks (add_outputs done table) later)"
        using Cons.prems
        by (cases d) (simp_all add: stays_in_def Cons.IH image_Un
            confined_bind [OF confined_any [OF run_verified_block_outside [OF sub]]])
    qed
  qed
qed

lemma group_by_block_engines:
  assumes "group_by_block blocks w entries = (groups, unbound)"
  shows "engines unbound \<subseteq> engines entries" and "map_of groups k = Some es \<Longrightarrow> engines es \<subseteq> engines entries"
  using group_by_block_groups [OF assms] by (auto simp: group_of_def split: if_splits)

lemma packed_device_rounds_outside:
  "keeps (outside (engines entries)) (packed_device_rounds dv sentinels forced ca blocks entries)"
proof -
  let ?E = "engines entries"
  have grouped: "confined ?E (\<lambda>(groups :: (nat \<times> packed_entry list) list, unbound). engines unbound \<subseteq> ?E
      \<and> (\<forall>k es. map_of groups k = Some es \<longrightarrow> engines es \<subseteq> ?E)) (op_read (\<lambda>w. Inr (group_by_block blocks w entries)))"
    using group_by_block_engines by (intro confined_read) fastforce
  have "confined ?E (\<lambda>_. True) (op_bind (op_read (\<lambda>w. Inr (group_by_block blocks w entries))) (\<lambda>(groups, unbound).
      op_bind (block_rounds dv sentinels forced ca groups blocks [] unbound) (\<lambda>(outputs, later).
      op_bind (if later = [] then op_return []
               else sequential_packed_step dv ca (sort_key (entry_order entries) later)) (\<lambda>stepped.
      op_read (\<lambda>_. those_results (map (\<lambda>e. case map_of (add_outputs stepped outputs) (pe_request_id e) of
          None \<Rightarrow> Inl KeyError | Some output \<Rightarrow> Inr output) entries))))))"
  proof (rule confined_bind [OF grouped], clarify)
    fix groups :: "(nat \<times> packed_entry list) list" and unbound assume a: "engines unbound \<subseteq> ?E" "\<forall>k es. map_of groups k = Some es \<longrightarrow> engines es \<subseteq> ?E"
    have "confined ?E (\<lambda>(table, rest). engines rest \<subseteq> ?E) (block_rounds dv sentinels forced ca groups blocks [] unbound)"
      using a by (intro block_rounds_confined) blast+
    then show "confined ?E (\<lambda>_. True) (op_bind (block_rounds dv sentinels forced ca groups blocks [] unbound) (\<lambda>(outputs, later).
      op_bind (if later = [] then op_return []
               else sequential_packed_step dv ca (sort_key (entry_order entries) later)) (\<lambda>stepped.
      op_read (\<lambda>_. those_results (map (\<lambda>e. case map_of (add_outputs stepped outputs) (pe_request_id e) of
          None \<Rightarrow> Inl KeyError | Some output \<Rightarrow> Inr output) entries)))))"
      by (rule confined_bind) (auto intro!: confined_any keep simp: subset_iff)
  qed
  then show ?thesis
    unfolding packed_device_rounds_def by (intro keeps_then keeps_refuse keeps_read) (rule confined_keeps)
qed

text \<open>A round changes no request that is not among its entries, also when it fails.\<close>

lemma round_leaves_others:
  assumes "packed_device_rounds dv sentinels forced ca blocks entries w = (r, w')" and "me \<notin> engines entries"
  shows "wd_rigs w' me = wd_rigs w me"
  using keepsD [OF packed_device_rounds_outside assms(1), THEN fun_cong, of me] assms(2) by (simp add: outside_def)

end
