(* ===== verification/WorkerProps.thy ===== *)
theory WorkerProps
  imports WorkerDemo RoundFrame
begin

text \<open>
  What the worker promises: the record a client is streamed is serial greedy decoding's, and a step's answer
  is what it appended to each record.
\<close>

subsection \<open>The demonstration worker is reachable\<close>

definition demo_requests :: "nat \<Rightarrow> int list \<times> session" where
  "demo_requests = (\<lambda>_. (demo_prompt, asked_session))"

lemma demo_terms_fields: "te_prompt demo_terms = demo_prompt" "te_seed demo_terms = 0" "te_budget demo_terms = 8" "te_eos demo_terms = []"
  by code_simp+

lemma demo_requests_ok: "asked_ok (demo_prompt, asked_session)"
proof -
  show ?thesis using asked_session demo_terms_fields(1) unfolding asked_ok_def factory_session_def fst_conv snd_conv by metis
qed

lemma worker_fresh:
  "fresh_bridge demo_requests (worker_idle\<lparr>wk_world := put_rig 0 worker_request demo_world\<rparr>) ''r'' worker_bridge"
  unfolding fresh_bridge_def
proof (intro conjI)
  show "\<exists>fy p pages backstop t neural.
      prefill_terms fy p pages (rn_states (wk_runner (worker_idle\<lparr>wk_world := put_rig 0 worker_request demo_world\<rparr>)) (br_state worker_bridge))
        backstop = Inr t
      \<and> factory_session fy ''r'' neural t = Inr (snd (demo_requests (br_engine worker_bridge)))"
    using demo_terms asked_session by (fastforce simp: worker_idle_def worker_runner_def demo_requests_def)
qed (use worker_rigs(5,6) in \<open>auto simp: bridge_init_def worker_idle_def worker_runner_def worker_bridge_def skeleton_def
    addresses_def rig_at_put emitted_def demo_requests_def\<close>)

lemma worker_attached_reachable:
  "reachable worker_start (worker_step mod3 id) (demo_requests, worker_attached)"
proof -
  let ?w = "worker_idle\<lparr>wk_world := put_rig 0 worker_request demo_world\<rparr>"
  have start: "reachable worker_start (worker_step mod3 id) (demo_requests, worker_idle)"
    by (rule reachable.initial) (simp add: worker_start_def serving_start_def worker_idle_def demo_world_def)
  have s: "engine_start demo_device (\<lambda>_. False) 0 (snd (demo_prompt, asked_session)) (replicate 68 1) 48 1 None 16 None False
     (demo_rig\<lparr>rg_native := wd_native demo_world\<rparr>) = (Inr (), snd worker_started)"
    using worker_rigs(1) unfolding worker_started_def snd_conv by (metis prod.collapse)
  have r: "fast_request_init (snd worker_started) True = Inr worker_request"
    using returned_projr [OF worker_rigs(2)] by (simp add: worker_request_def)
  have "serving_step mod3 id (demo_requests, demo_world)
      (demo_requests(0 := (demo_prompt, asked_session)), put_rig 0 worker_request demo_world)"
    by (rule serving_step.attach [OF _ demo_device_ok demo_requests_ok _ s r]) (simp_all add: demo_world_def)
  then have "worker_step mod3 id (demo_requests, worker_idle) (demo_requests, ?w)"
    using worker_step.serve [of mod3 id demo_requests worker_idle] by (simp add: worker_idle_def demo_requests_def skeleton_def fun_upd_def)
  note s1 = reachable.step [OF start this]
  have "hook_init True False ''r'' worker_bridge (wk_world ?w) (wk_runner ?w) = Inr worker_attached"
    by (simp add: hook_init_def worker_idle_def worker_attached_def)
  then have "worker_step mod3 id (demo_requests, ?w) (demo_requests, worker_attached)"
    by (intro worker_step.first [OF _ worker_fresh]) (simp_all add: worker_idle_def)
  from reachable.step [OF s1 this] show ?thesis .
qed

lemma worker_drafted_reachable: "reachable worker_start (worker_step mod3 id) (demo_requests, worker_drafted)"
  unfolding worker_drafted_def by (rule reachable.step [OF worker_attached_reachable worker_step.drafts])

lemma worker_skeleton: "skeleton worker_drafted = [(''r'', 0, 7, False)]"
  by (simp add: skeleton_def worker_drafted worker_attached_def worker_bridge_def)

lemma demo_sched_ok: "sched_ok worker_drafted worker_schedule"
  by (simp add: sched_ok_def worker_schedule worker_skeleton carries_tokens_def)

lemma demo_host_ok: "host_ok demo_host worker_schedule w"
  by (simp add: host_ok_def update_keeps_def native_ok_def demo_host_def put_state_def calm_def)

lemma demo_blocks_ok: "packed_all mod3 id demo_device w"
  by (simp add: packed_all_def demo_packed_ok)

lemma worker_answers: "\<exists>w'. worker_served = (Inr (Served (model_runner_output demo_answer)), w')
    \<and> wk_bridges w' = [(''r'', worker_bridge)] \<and> wd_rigs (wk_world w') 0 = Some (snd worker_output)"
proof -
  have live: "\<not> (wk_closed worker_drafted \<or> False)" by (simp add: worker_drafted worker_attached_def)
  have "unbridged_ids worker_drafted worker_schedule = []"
    by (simp add: unbridged_ids_def worker_schedule worker_drafted worker_attached_def)
  moreover have "hook_decode demo_device demo_host True None demo_cancels No_Packed worker_schedule (wk_bridges worker_drafted)
      = execute_decode demo_device demo_host demo_cancels worker_schedule ''r''"
    by (simp add: hook_decode_def worker_drafted worker_attached_def)
  ultimately show ?thesis
    using worker_decoded by (auto simp: worker_served_def hook_execute_open [OF live] worker_schedule op_bind_def)
qed

lemma worker_served_parts:
  "hook_execute demo_device demo_host True None demo_cancels No_Packed False False worker_schedule worker_drafted
     = (Inr (Served (model_runner_output demo_answer)), snd worker_served)"
  "wk_bridges (snd worker_served) = [(''r'', worker_bridge)]" "wd_rigs (wk_world (snd worker_served)) 0 = Some (snd worker_output)"
  using worker_answers by (auto simp: worker_served_def)

lemma worker_served_reachable: "reachable worker_start (worker_step mod3 id) (demo_requests, snd worker_served)"
  unfolding worker_served_def
  by (rule reachable.step [OF worker_drafted_reachable worker_step.execute [OF demo_device_ok demo_blocks_ok _ demo_sched_ok demo_host_ok]])
    simp

lemma worker_seed: "rq_output (rn_states (wk_runner worker_drafted) 7) = [0]"
  by (simp add: worker_drafted worker_attached_def worker_runner_def asked_state_def)

lemma worker_bridge_at: "map_of (wk_bridges worker_drafted) ''r'' = Some worker_bridge"
  by (simp add: worker_drafted worker_attached_def)

subsection \<open>What is streamed\<close>

lemma reachable_tied:
  assumes "reachable worker_start (worker_step f st) (asked, w)" and "map_of (wk_bridges w) key = Some br" and "\<not> br_failed br"
  shows "tied w (key, br_engine br, br_state br, False)" and "world_ok f st asked (wk_world w)"
proof -
  have ok: "worker_ok f st (asked, w)" by (rule worker.inv_reachable [OF assms(1)])
  have "(key, br_engine br, br_state br, False) \<in> set (skeleton w)"
    using map_of_SomeD [OF assms(2)] assms(3) by (force simp: skeleton_def)
  then show "tied w (key, br_engine br, br_state br, False)" using ok live_tiedD by (auto simp: worker_ok_def)
  show "world_ok f st asked (wk_world w)" using ok by (simp add: worker_ok_def)
qed

text \<open>C3: what the worker streams is serial greedy decoding's text. Let requests be prefilled, built by the factory
  and attached to the hook, drafted for, decoded alone or in packed rounds, detached and closed, in any order
  and with any failure, while the native runner prefills others over the same slot and edits its records of
  requests the hook does not serve. At every point, for every bridge that has not failed and whose session is
  open, the output list the scheduler streams from holds the prefill's seed and exactly the tokens serial
  greedy decoding of the target emits after the request's own prompt, never more than its budget, and all
  of them once the session is finished.\<close>

theorem streamed_record_is_serial:
  assumes "reachable worker_start (worker_step f st) (asked, w)"
    and "map_of (wk_bridges w) key = Some br" and "\<not> br_failed br"
    and "wd_rigs (wk_world w) (br_engine br) = Some g" and "s_phase (rg_session g) \<noteq> Closed"
    and "session_init key (fst (asked (br_engine br))) seed v mx eos neural vr pfs le = Inr (snd (asked (br_engine br)))"
  shows "let out = rq_output (rn_states (wk_runner w) (br_state br)); prompt = fst (asked (br_engine br))
    in out = seed # serial f eos (prompt @ [seed]) (length out - 1) \<and> length out \<le> nat mx
       \<and> (s_finished (rg_session g) \<and> seed \<notin> set eos \<longrightarrow> out = seed # serial f eos (prompt @ [seed]) (nat mx - 1))"
proof -
  have at: "rig_at (wk_world w) (br_engine br) = Some (g\<lparr>rg_native := wd_native (wk_world w)\<rparr>)"
    using assms(4) by (simp add: rig_at_def)
  have em: "s_emitted (rg_session g) = rq_output (rn_states (wk_runner w) (br_state br))"
    using reachable_tied(1) [OF assms(1-3)] at assms(5) by (simp add: tied_def emitted_def recorded_def)
  have "session_run (target_verified f (fst (asked (br_engine br)))) (snd (asked (br_engine br))) (rg_session g)"
    using rig_okD(1) [OF world_okD(2) [OF reachable_tied(2) [OF assms(1-3)] at]] by simp
  from session_run_text [OF assms(6) this assms(5)] show ?thesis by (simp add: em Let_def)
qed

theorem streamed_record_is_serial_witness:
  "let out = rq_output (rn_states (wk_runner (snd worker_served)) 7)
   in out = 0 # serial mod3 [] [0, 1, 2, 0, 1, 2, 0] (length out - 1) \<and> length out \<le> 8"
proof -
  have s: "session_init ''r'' demo_prompt 0 100 8 [] Map.empty 16 False False = Inr asked_session"
    using demo_terms_fields asked_session by (simp add: factory_session_def demo_factory_def)
  have b: "map_of (wk_bridges (snd worker_served)) ''r'' = Some worker_bridge" by (simp add: worker_served_parts(2))
  show ?thesis
    using streamed_record_is_serial [OF worker_served_reachable b, of "snd worker_output" 0 100 8 "[]" Map.empty 16 False False]
      worker_served_parts(3) worker_outputs(2) s
    by (simp add: worker_bridge_def demo_requests_def demo_prompt_def Let_def)
qed

text \<open>C7: a served step's answer is what is appended to the records. For a scheduler's step the hook serves itself, the
  answer it gives vLLM holds, for each bridged request, exactly the tokens the step appended to that
  request's output list, whichever packed step the hook was given and however its round was split.\<close>

theorem answer_is_what_was_recorded:
  assumes "reachable worker_start (worker_step f st) (asked, w)"
    and "device_ok f st dv" and "packed_all f st dv (wk_world w)" and "\<forall>ks. packed = Over_Blocks ks \<longrightarrow> distinct ks"
    and "sched_ok w step" and "host_ok host step w"
    and "hook_execute dv host sentinels forced ca packed pending False step w = (Inr (Served ans), w')"
    and "map_of (wk_bridges w) key = Some br"
  shows "rq_output (rn_states (wk_runner w') (br_state br)) = rq_output (rn_states (wk_runner w) (br_state br)) @ sampled ans key"
proof -
  have "(key, br_engine br, br_state br, br_failed br) \<in> set (skeleton w)"
    using map_of_SomeD [OF assms(8)] by (force simp: skeleton_def)
  from hook_execute_ok(2) [OF worker.inv_reachable [OF assms(1)] assms(2,3) _ assms(5-7) refl this]
  show ?thesis using assms(4) by (simp add: recorded_def)
qed

theorem answer_is_what_was_recorded_witness:
  "rq_output (rn_states (wk_runner (snd worker_served)) 7) = [0, 1, 2]"
  using answer_is_what_was_recorded [OF worker_drafted_reachable demo_device_ok demo_blocks_ok _ demo_sched_ok demo_host_ok
      worker_served_parts(1) worker_bridge_at]
  by (simp add: worker_seed worker_bridge_def sampled_def model_runner_output_def demo_answer_def)

subsection \<open>A round over several blocks\<close>

text \<open>C8: a round answers each request its own tokens and touches no other request. Split a step's requests over the
  blocks they are bound to, serve, narrow, refuse or step each group, and step the unbound ones one at a
  time: when the round answers, the outputs follow the entries' order and every request of the step has
  emitted exactly its own output's tokens more, in whichever block and order it was served; and whether the
  round answers or raises, every request that is not among its entries is left as it was, its session, its
  engine and its flags included.\<close>

theorem round_answers_each_request:
  assumes "packed_device_rounds dv sentinels forced ca blocks entries w = (r, w')"
    and "distinct (map pe_engine entries)" and "distinct (map pe_request_id entries)" and "distinct blocks"
  shows "(\<forall>outs. r = Inr outs \<longrightarrow> map co_request_id outs = map pe_request_id entries
      \<and> (\<forall>i < length entries. emitted_at w' (pe_engine (entries ! i))
           = map_option (\<lambda>xs. xs @ co_token_ids (outs ! i)) (emitted_at w (pe_engine (entries ! i)))))
    \<and> (\<forall>me. me \<notin> pe_engine ` set entries \<longrightarrow> wd_rigs w' me = wd_rigs w me)"
proof (intro conjI allI impI)
  fix me assume "me \<notin> pe_engine ` set entries"
  with assms(1) show "wd_rigs w' me = wd_rigs w me" by (rule round_leaves_others)
next
  fix outs assume r: "r = Inr outs"
  have g: "gained w w' (tokens_for entries outs)" and ids: "map co_request_id outs = map pe_request_id entries"
    using packed_device_rounds_gain [OF assms(2-4) assms(1) [unfolded r]] by (simp_all add: round_gain_def answers_def)
  show "map co_request_id outs = map pe_request_id entries" by (fact ids)
  fix i assume i: "i < length entries"
  have "length outs = length entries" using arg_cong [OF ids, of length] by simp
  from tokens_for_one [OF assms(2) this i] show "emitted_at w' (pe_engine (entries ! i))
      = map_option (\<lambda>xs. xs @ co_token_ids (outs ! i)) (emitted_at w (pe_engine (entries ! i)))"
    using g by (simp add: gained_def)
qed

definition lone_entry :: packed_entry where
  "lone_entry = \<lparr>pe_engine = 0, pe_request_id = ''r'', pe_ticket = worker_ticket\<rparr>"

text \<open>The same request beside a block that lends it no segment.\<close>

definition lone_rig :: "(int list, int list \<times> int list) rig" where
  "lone_rig = on_native (\<lambda>n. n\<lparr>nv_blocks := (\<lambda>_. demo_block\<lparr>bl_owner := (\<lambda>_. None)\<rparr>)\<rparr>) (snd worker_ticketed)"

definition lone_world :: "(int list, int list \<times> int list) world" where
  "lone_world = put_rig 0 lone_rig demo_world"

lemma lone_values:
  "fst (request_step demo_device 0 ''r'' (Inr False) (Inr False) lone_rig) = Inr demo_answer"
  "entry_check lone_entry lone_rig = Inr ()" "s_emitted (rg_session lone_rig) = [0]"
  by code_simp+

lemma lone_at: "rig_at lone_world 0 = Some lone_rig" "wd_rigs lone_world 0 = Some lone_rig"
  by (simp_all add: lone_world_def rig_at_put) (simp add: put_rig_def)

lemma lone_unbound: "group_by_block [0] lone_world [lone_entry] = ([], [lone_entry])"
proof -
  have "\<not> returned (segment_of (block_at 0 lone_world) 0)"
    by (simp add: segment_of_def block_at_def lone_world_def put_rig_def lone_rig_def)
  then have "bound_block [0] lone_world 0 = None" by (simp add: bound_block_def)
  then show ?thesis by (simp add: group_by_block_def lone_entry_def)
qed

lemma lone_round: "\<exists>w'. packed_device_rounds demo_device True None demo_cancels [0] [lone_entry] lone_world = (Inr [demo_answer], w')"
proof -
  obtain g where "request_step demo_device 0 ''r'' (Inr False) (Inr False) lone_rig = (Inr demo_answer, g)"
    using lone_values(1) by (metis prod.collapse)
  then have step: "\<exists>w'. sequential_packed_step demo_device demo_cancels [lone_entry] lone_world = (Inr [demo_answer], w')"
    using worker_rigs(8) lone_at(1)
    by (simp add: sequential_packed_step_def op_then_def op_bind_def op_refuse_def at_rig_def lone_entry_def demo_cancels_def demo_answer_def)
  have valid: "validate_packed_entries [lone_entry] lone_world = Inr [()]"
    using lone_values(2) lone_at(1) by (simp add: validate_packed_entries_def check_rig_def lone_entry_def)
  have "sort_key (entry_order [lone_entry]) [lone_entry] = [lone_entry]" by simp
  then show ?thesis
    using step lone_unbound valid
    by (auto simp: packed_device_rounds_def op_then_def op_bind_def op_refuse_def add_outputs_def demo_answer_def lone_entry_def)
qed

theorem round_answers_each_request_witness:
  "emitted_at (snd (packed_device_rounds demo_device True None demo_cancels [0] [lone_entry] lone_world)) 0 = Some [0, 1, 2]
   \<and> wd_rigs (snd (packed_device_rounds demo_device True None demo_cancels [0] [lone_entry] lone_world)) 1 = wd_rigs lone_world 1"
proof -
  obtain w' where r: "packed_device_rounds demo_device True None demo_cancels [0] [lone_entry] lone_world = (Inr [demo_answer], w')"
    using lone_round by blast
  have "emitted_at lone_world 0 = Some [0]" by (simp add: emitted_at_def lone_at(2) emitted_def lone_values(3))
  then have "emitted_at w' 0 = Some [0, 1, 2] \<and> wd_rigs w' 1 = wd_rigs lone_world 1"
    using round_answers_each_request [OF r] by (simp add: lone_entry_def demo_answer_def)
  then show ?thesis by (simp only: r snd_conv)
qed

end
