(* ===== verification/DraftMask.thy ===== *)
theory DraftMask
  imports Complex_Main Prelude
begin

text \<open>
  The draft block's attention geometry: the masks of one user (\<open>scripts/ci/draft_attention.py\<close>,
  \<open>dflash_attention_mask.py\<close>), of a fixed-size bucket (\<open>dflash_proposal_inputs.py\<close>), of several users packed into
  one 32-row block (\<open>dflash_batched_mask.py\<close>), and the folded pair (\<open>pair_row_exact.py\<close>).

  A mk tensor of shape (1, 1, 32, K) is its 32 rows of K truth values, true where it holds zero and false where it
  holds minus infinity. A rotary table is the list of the absolute positions its rows are the angles of. Sizes
  are natural numbers: the refusals of a negative or a non-integer are left out.
\<close>

type_synonym mask_rows = "bool list list"

definition tabulate :: "nat \<Rightarrow> nat \<Rightarrow> (nat \<Rightarrow> nat \<Rightarrow> bool) \<Rightarrow> mask_rows" where
  "tabulate rows keys m = map (\<lambda>r. map (m r) [0..<keys]) [0..<rows]"

definition aligned :: "nat \<Rightarrow> nat \<Rightarrow> nat" where
  "aligned multiple n = (n + multiple - 1) div multiple * multiple"

subsection \<open>One user\<close>

text \<open>What the query at block row i sees of a key axis of its history and then its own block.\<close>

definition allowed :: "nat \<Rightarrow> nat \<Rightarrow> nat \<Rightarrow> nat \<Rightarrow> bool" where
  "allowed context block i key \<longleftrightarrow>
     key < context \<and> context + i - key < 2048 \<or> context \<le> key \<and> key < context + block"

definition draft_mask :: "nat \<Rightarrow> nat \<Rightarrow> nat \<Rightarrow> mask_rows result" where
  "draft_mask context block multiple =
     (if context > 262144 \<or> block \<notin> {1, 8, 32} \<or> multiple \<notin> {32, 128} then Inl ValueError
      else Inr (tabulate 32 (aligned multiple (context + block))
             (\<lambda>r key. if r < block then allowed context block r key else key = context)))"

definition t16_rows :: "nat \<Rightarrow> nat \<Rightarrow> bool list \<Rightarrow> bool list" where
  "t16_rows context r row =
     map (\<lambda>key. if r < 16 then row ! key \<and> key < context + 16 else key = context) [0..<length row]"

text \<open>The T16 mask: the 32-row mask cut to sixteen live rows.\<close>

definition draft_attention_mask :: "nat \<Rightarrow> nat \<Rightarrow> nat \<Rightarrow> mask_rows result" where
  "draft_attention_mask context block multiple =
     (if block \<noteq> 16 then draft_mask context block multiple
      else rbind (draft_mask context 32 multiple) (\<lambda>rows.
           let narrow = map (take (aligned multiple (context + block))) rows
           in Inr (map (\<lambda>r. t16_rows context r (narrow ! r)) [0..<length narrow])))"

subsection \<open>A bucket\<close>

definition rope_tables :: "nat \<Rightarrow> nat \<Rightarrow> nat list result" where
  "rope_tables start rows = (if rows < 1 \<or> start + rows > 262144 then Inl ValueError else Inr [start..<start + rows])"

text \<open>The inputs of a proposal in a bucket. A key that is neither history nor proposal has a zero rotary row, None.\<close>

record draft_inputs =
  di_identifiers :: "int list"
  di_mask :: mask_rows
  di_query :: "nat list"
  di_key :: "nat option list"

definition bucket_row :: "nat \<Rightarrow> nat \<Rightarrow> nat \<Rightarrow> bool list \<Rightarrow> bool list" where
  "bucket_row history block context row =
     map (\<lambda>key. if key < history then row ! key
                else if context \<le> key \<and> key < context + block then row ! (history + (key - context)) else False)
       [0..<context + 32]"

definition bucket_key_rope :: "nat \<Rightarrow> nat \<Rightarrow> nat \<Rightarrow> nat list \<Rightarrow> nat list \<Rightarrow> nat option list" where
  "bucket_key_rope history block context historical proposal =
     map (\<lambda>key. if context \<le> key \<and> key < context + block then Some (proposal ! (key - context))
                else if key < history then Some (historical ! key) else None) [0..<context + 32]"

definition proposal_inputs :: "int \<Rightarrow> nat \<Rightarrow> nat \<Rightarrow> nat \<Rightarrow> nat \<Rightarrow> draft_inputs result" where
  "proposal_inputs seed position history block context =
     (if \<not> (0 \<le> seed \<and> seed < 248320) \<or> \<not> (1 \<le> position \<and> position \<le> 262112)
         \<or> \<not> (1 \<le> history \<and> history \<le> min position 2048) \<or> block \<notin> {8, 16, 32}
         \<or> context \<notin> {256, 512, 1024, 2048} \<or> history > context then Inl ValueError
      else rbind (draft_attention_mask history block 32) (\<lambda>original.
           rbind (rope_tables position 32) (\<lambda>query.
           rbind (rope_tables (position - history) history) (\<lambda>historical.
           Inr \<lparr>di_identifiers = seed # replicate (block - 1) 248070,
                di_mask = map (bucket_row history block context) original, di_query = query,
                di_key = bucket_key_rope history block context historical query\<rparr>))))"

subsection \<open>Several users in one block\<close>

record segment =
  sg_user :: nat
  sg_context :: nat
  sg_offset :: nat
  sg_span :: nat

fun spans_from :: "nat \<Rightarrow> nat \<Rightarrow> nat \<Rightarrow> nat \<Rightarrow> nat list \<Rightarrow> segment list \<times> nat" where
  "spans_from block multiple user offset [] = ([], offset)"
| "spans_from block multiple user offset (c # cs) =
     (let sg = aligned multiple (c + block);
          (spans, total) = spans_from block multiple (user + 1) (offset + sg) cs
      in (\<lparr>sg_user = user, sg_context = c, sg_offset = offset, sg_span = sg\<rparr> # spans, total))"

definition segments :: "nat list \<Rightarrow> nat \<Rightarrow> nat \<Rightarrow> (segment list \<times> nat) result" where
  "segments contexts block multiple =
     (if block \<notin> {1, 8, 16, 32} \<or> multiple \<notin> {32, 128} then Inl ValueError
      else if contexts = [] \<or> length contexts * block > 32 \<or> (\<exists>c \<in> set contexts. c > 262144) then Inl ValueError
      else Inr (spans_from block multiple 0 0 contexts))"

definition in_rows :: "nat \<Rightarrow> segment \<Rightarrow> nat \<Rightarrow> bool" where
  "in_rows block sg r \<longleftrightarrow> sg_user sg * block \<le> r \<and> r < (sg_user sg + 1) * block"

definition in_keys :: "segment \<Rightarrow> nat \<Rightarrow> bool" where
  "in_keys sg key \<longleftrightarrow> sg_offset sg \<le> key \<and> key < sg_offset sg + sg_span sg"

text \<open>One user's rows over its own segment; then the rows past the packed users, which see the first user's anchor.\<close>

definition paint_span :: "nat \<Rightarrow> segment \<Rightarrow> (nat \<Rightarrow> nat \<Rightarrow> bool) \<Rightarrow> nat \<Rightarrow> nat \<Rightarrow> bool" where
  "paint_span block sg m = (\<lambda>r key. if in_rows block sg r \<and> in_keys sg key
     then allowed (sg_context sg) block (r - sg_user sg * block) (key - sg_offset sg) else m r key)"

definition paint_padding :: "nat \<Rightarrow> nat \<Rightarrow> (nat \<Rightarrow> nat \<Rightarrow> bool) \<Rightarrow> nat \<Rightarrow> nat \<Rightarrow> bool" where
  "paint_padding used anchor m = (\<lambda>r key. if used \<le> r then key = anchor else m r key)"

definition batched_attention_mask :: "nat list \<Rightarrow> nat \<Rightarrow> nat \<Rightarrow> mask_rows result" where
  "batched_attention_mask contexts block multiple = rbind (segments contexts block multiple) (\<lambda>(spans, keys).
     let m = fold (paint_span block) spans (\<lambda>_ _. False); used = length spans * block
     in Inr (tabulate 32 keys (if used < 32 then paint_padding used (sg_context (hd spans)) m else m)))"

definition visible_count :: "bool list \<Rightarrow> nat" where
  "visible_count row = length (filter id row)"

definition span_refused :: "nat \<Rightarrow> mask_rows \<Rightarrow> segment \<Rightarrow> bool" where
  "span_refused block mk sg \<longleftrightarrow>
     (\<exists>r \<in> set [sg_user sg * block..<(sg_user sg + 1) * block].
        visible_count (mk ! r) = 0 \<or> (\<exists>key \<in> set [0..<length (mk ! r)]. mk ! r ! key \<and> \<not> in_keys sg key))"

definition validate_batched_mask :: "mask_rows \<Rightarrow> nat list \<Rightarrow> nat \<Rightarrow> (segment list \<times> nat) result" where
  "validate_batched_mask mk contexts block = rbind (segments contexts block 32) (\<lambda>(spans, keys).
     if length mk \<noteq> 32 \<or> (\<exists>row \<in> set mk. length row \<noteq> keys) \<or> keys mod 32 \<noteq> 0 then Inl ValueError
     else if \<exists>sg \<in> set spans. span_refused block mk sg then Inl ValueError
     else if length spans * block < 32 \<and> (\<exists>row \<in> set (drop (length spans * block) mk). visible_count row \<noteq> 1) then Inl ValueError
     else Inr (spans, keys))"

text \<open>A packed user: its position and its history's length.\<close>

type_synonym draft_user = "nat \<times> nat"

definition user_contexts :: "draft_user list \<Rightarrow> nat list result" where
  "user_contexts users =
     (if \<exists>(position, history) \<in> set users. \<not> (1 \<le> history \<and> history \<le> 2048) \<or> position < history then Inl ValueError
      else Inr (map snd users))"

definition packed_rope_tables :: "draft_user list \<Rightarrow> nat \<Rightarrow> nat \<Rightarrow> (nat list \<times> nat list) result" where
  "packed_rope_tables users block multiple =
     rbind (user_contexts users) (\<lambda>contexts.
     rbind (segments contexts block multiple) (\<lambda>(spans, keys).
     rbind (those_results (map (\<lambda>((position, history), sg). rbind (rope_tables position block) (\<lambda>q.
              rbind (rope_tables (position - history) (sg_span sg)) (\<lambda>k. Inr (q, k)))) (zip users spans))) (\<lambda>parts.
     rbind (if length spans * block < 32 then rope_tables (fst (last users) + block) (32 - length spans * block)
            else Inr []) (\<lambda>padding.
     let query = concat (map fst parts) @ padding; key = concat (map snd parts)
     in if length query \<noteq> 32 \<or> length key \<noteq> keys then Inl AssertionError else Inr (query, key)))))"

text \<open>The ordered pieces of the packed key axis: user, and number of rows; a live piece's rows are the user's own of the
  proposal block.\<close>

datatype piece = Cached nat nat | Live nat nat | Pad nat nat

fun piece_rows :: "piece \<Rightarrow> nat" where
  "piece_rows (Cached user rows) = rows"
| "piece_rows (Live user rows) = rows"
| "piece_rows (Pad user rows) = rows"

definition span_pieces :: "nat \<Rightarrow> segment \<Rightarrow> piece list result" where
  "span_pieces block sg =
     (if sg_span sg < sg_context sg + block then Inl ValueError
      else let pad = sg_span sg - sg_context sg - block
           in Inr ([Cached (sg_user sg) (sg_context sg), Live (sg_user sg) block]
                   @ (if pad \<noteq> 0 then [Pad (sg_user sg) pad] else [])))"

definition key_value_plan :: "nat list \<Rightarrow> nat \<Rightarrow> nat \<Rightarrow> (piece list \<times> segment list \<times> nat) result" where
  "key_value_plan contexts block multiple = rbind (segments contexts block multiple) (\<lambda>(spans, keys).
     rbind (those_results (map (span_pieces block) spans)) (\<lambda>pieces.
     let plan = concat pieces
     in if sum_list (map piece_rows plan) \<noteq> keys then Inl AssertionError else Inr (plan, spans, keys)))"

definition live_parts :: "nat list \<Rightarrow> nat \<Rightarrow> segment list \<Rightarrow> nat list" where
  "live_parts table block spans =
     concat (map (\<lambda>sg. take block (drop (sg_offset sg + sg_context sg) table)) spans)
   @ (let used = length spans * block
      in if used < 32 then take (32 - used) (drop (sg_offset (last spans) + sg_context (last spans) + block) table) else [])"

definition live_key_rope_from :: "nat list \<Rightarrow> draft_user list \<Rightarrow> nat \<Rightarrow> nat \<Rightarrow> nat list result" where
  "live_key_rope_from table users block multiple =
     rbind (user_contexts users) (\<lambda>contexts.
     rbind (segments contexts block multiple) (\<lambda>(spans, keys).
     if length table \<noteq> keys then Inl ValueError
     else let packed = live_parts table block spans
          in if length packed \<noteq> 32 then Inl AssertionError else Inr packed))"

definition live_key_rope :: "draft_user list \<Rightarrow> nat \<Rightarrow> nat \<Rightarrow> nat list result" where
  "live_key_rope users block multiple =
     rbind (user_contexts users) (\<lambda>contexts.
     rbind (segments contexts block multiple) (\<lambda>(spans, keys).
     rbind (packed_rope_tables users block multiple) (\<lambda>(query, key).
     let packed = live_parts key block spans
     in if length packed \<noteq> 32 then Inl AssertionError else Inr packed)))"

subsection \<open>The folded pair\<close>

text \<open>A tensor of shape (1, heads, rows, 128) is its heads' rows.\<close>

definition folds :: "nat list \<Rightarrow> nat \<Rightarrow> bool" where
  "folds contexts block \<longleftrightarrow> block = 16 \<and> contexts = [2048, 2048]"

definition fold_mask :: "nat list \<Rightarrow> nat \<Rightarrow> mask_rows result" where
  "fold_mask contexts block =
     (if \<not> folds contexts block then Inl ValueError else batched_attention_mask [hd contexts] block 32)"

text \<open>Head h of the four key heads becomes two: the segments of the two users.\<close>

definition fold_keys :: "'k list list \<Rightarrow> 'k list list" where
  "fold_keys keys = concat (map (\<lambda>head. [take 2080 head, drop 2080 head]) keys)"

definition fold_query :: "'q list list \<Rightarrow> 'q list list" where
  "fold_query query =
     (let shifted = map (\<lambda>rows. drop 16 rows @ take 16 rows) query
      in concat (map (\<lambda>h. take 4 (drop (4 * h) query) @ take 4 (drop (4 * h) shifted)) [0..<4]))"

definition unfold_output :: "'o list list \<Rightarrow> 'o list list" where
  "unfold_output out = concat (map (\<lambda>h. map (\<lambda>j. take 16 (out ! (8 * h + j)) @ take 16 (out ! (8 * h + 4 + j))) [0..<4]) [0..<4])"

text \<open>The keys a row of a mask sees, in order.\<close>

definition seen :: "bool list \<Rightarrow> 'k list \<Rightarrow> 'k list" where
  "seen row keys = map snd (filter fst (zip row keys))"

text \<open>Masked attention with four query heads to a key head, as the device's kernel \<open>attend\<close> computes one row of it: from
  the row's place in the 32-row tile, the query row, and the whole key axis in place, a masked key's value
  being one it does not read (the docstring's point: the values of masked keys are irrelevant, but where the
  masked chunks lie, before or after the visible ones, is not). A key here is the pair of the K and V rows.\<close>

definition masked_keys :: "bool list \<Rightarrow> 'k list \<Rightarrow> 'k option list" where
  "masked_keys row keys = map (\<lambda>(visible, key). if visible then Some key else None) (zip row keys)"

definition sdpa :: "(nat \<Rightarrow> 'q \<Rightarrow> 'k option list \<Rightarrow> 'o) \<Rightarrow> 'q list list \<Rightarrow> 'k list list \<Rightarrow> mask_rows \<Rightarrow> 'o list list" where
  "sdpa attend query keys mk =
     map (\<lambda>n. map (\<lambda>(r, q, row). attend r q (masked_keys row (keys ! (n div 4)))) (zip [0..<length mk] (zip (query ! n) mk)))
       [0..<length query]"

definition fold_refused :: "'q list list \<Rightarrow> 'k list list \<Rightarrow> mask_rows \<Rightarrow> bool" where
  "fold_refused query keys mk \<longleftrightarrow> length query \<noteq> 16 \<or> (\<exists>rows \<in> set query. length rows \<noteq> 32)
     \<or> length keys \<noteq> 4 \<or> (\<exists>rows \<in> set keys. length rows \<noteq> 4160)
     \<or> length mk \<noteq> 32 \<or> (\<exists>row \<in> set mk. length row \<noteq> 2080)"

definition fold_attention ::
  "(nat \<Rightarrow> 'q \<Rightarrow> 'k option list \<Rightarrow> 'o) \<Rightarrow> 'q list list \<Rightarrow> 'k list list \<Rightarrow> mask_rows \<Rightarrow> bool \<Rightarrow> 'o list list result" where
  "fold_attention attend query keys mk validated =
     (if \<not> validated \<or> fold_refused query keys mk then Inl ValueError
      else Inr (unfold_output (sdpa attend (fold_query query) (fold_keys keys) mk)))"

end
