(* ===== verification/DraftProps.thy ===== *)
theory DraftProps
  imports DraftMask
begin

text \<open>
  What a draft query attends to: alone, in a bucket, packed with others and in the folded pair it sees the same
  keys in the same order, at their true absolute positions.
\<close>

lemma upt_append: "a \<le> b \<Longrightarrow> b \<le> c \<Longrightarrow> [a..<b] @ [b..<c] = [a..<c]"
  by (metis le_add_diff_inverse upt_add_eq_append)

subsection \<open>What a row of a mask sees\<close>

lemma seen_append: "length row = length ks \<Longrightarrow> seen (row @ row') (ks @ ks') = seen row ks @ seen row' ks'"
  by (simp add: seen_def)

lemma seen_none: "True \<notin> set row \<Longrightarrow> seen row ks = []"
  by (auto simp: seen_def filter_empty_conv dest: set_zip_leftD)

lemma seen_all: "False \<notin> set row \<Longrightarrow> length row = length ks \<Longrightarrow> seen row ks = ks"
proof -
  assume a: "False \<notin> set row" and l: "length row = length ks"
  have "x" if "(x, k) \<in> set (zip row ks)" for x k using set_zip_leftD [OF that] a by metis
  then have "filter fst (zip row ks) = zip row ks" by (auto simp: filter_id_conv)
  then show ?thesis using l by (simp add: seen_def)
qed

lemma seen_from:
  assumes "length ks = n"
  shows "seen (map (\<lambda>k. d \<le> k) [0..<n]) ks = drop d ks"
proof (cases "d \<le> n")
  case True
  have "[0..<n] = [0..<d] @ [d..<n]" using True upt_append [of 0 d n] by simp
  then have "seen (map (\<lambda>k. d \<le> k) [0..<n]) (take d ks @ drop d ks)
      = seen (map (\<lambda>k. d \<le> k) [0..<d]) (take d ks) @ seen (map (\<lambda>k. d \<le> k) [d..<n]) (drop d ks)"
    using True assms by (simp add: seen_append del: append_take_drop_id)
  also have "seen (map (\<lambda>k. d \<le> k) [0..<d]) (take d ks) = []" by (rule seen_none) auto
  also have "seen (map (\<lambda>k. d \<le> k) [d..<n]) (drop d ks) = drop d ks" by (rule seen_all) (use assms in auto)
  finally show ?thesis by simp
qed (use assms in \<open>auto intro: seen_none\<close>)

lemma map_upt_cong: "(\<And>k. a \<le> k \<Longrightarrow> k < b \<Longrightarrow> f k = g k) \<Longrightarrow> map f [a..<b] = map g [a..<b]"
  by simp

lemma map_upt_shift: "map f [a..<a + n] = map (\<lambda>k. f (a + k)) [0..<n]"
  by (rule nth_equalityI) simp_all

text \<open>A query over its own history, its own block and anything behind.\<close>

lemma own_segment:
  assumes "length cache = c" and "length live = b" and "i < b"
  shows "seen (map (allowed c b i) [0..<c + b + length tail]) (cache @ live @ tail) = drop (c + i - 2047) cache @ live"
proof -
  let ?n = "length tail"
  have split: "[0..<c + b + ?n] = [0..<c] @ [c..<c + b] @ [c + b..<c + b + ?n]"
    by (simp add: upt_append)
  have hist: "map (allowed c b i) [0..<c] = map (\<lambda>k. c + i - 2047 \<le> k) [0..<c]"
    by (rule map_upt_cong) (auto simp: allowed_def)
  have "seen (map (allowed c b i) [0..<c + b + ?n]) (cache @ live @ tail)
      = seen (map (allowed c b i) [0..<c]) cache @ seen (map (allowed c b i) [c..<c + b]) live
        @ seen (map (allowed c b i) [c + b..<c + b + ?n]) tail"
    unfolding split map_append using assms by (simp add: seen_append)
  also have "seen (map (allowed c b i) [c..<c + b]) live = live" by (rule seen_all) (use assms in \<open>auto simp: allowed_def\<close>)
  also have "seen (map (allowed c b i) [c + b..<c + b + ?n]) tail = []" by (rule seen_none) (auto simp: allowed_def)
  finally show ?thesis by (simp add: hist seen_from [OF assms(1)])
qed

lemma aligned_ge: "multiple > 0 \<Longrightarrow> n \<le> aligned multiple n"
proof -
  assume m: "multiple > 0"
  have "n + multiple - 1 < aligned multiple n + multiple"
    unfolding aligned_def using m by (metis add.commute dividend_less_div_times mult.commute)
  then show ?thesis using m by linarith
qed

lemma tabulate_row: "r < rows \<Longrightarrow> tabulate rows keys m ! r = map (m r) [0..<keys]"
  by (simp add: tabulate_def)

lemma tabulate_length [simp]: "length (tabulate rows keys m) = rows"
  by (simp add: tabulate_def)

subsection \<open>One user\<close>

lemma draft_mask_row:
  assumes "draft_mask context block multiple = Inr rows"
  shows "r < 32 \<Longrightarrow> rows ! r = map (\<lambda>key. if r < block then allowed context block r key else key = context)
      [0..<aligned multiple (context + block)]"
    and "length rows = 32" and "multiple \<in> {32, 128}"
  using assms by (auto simp: draft_mask_def tabulate_row split: if_splits)

lemma t16_row:
  assumes "draft_attention_mask context 16 multiple = Inr mk" and "r < 32"
  shows "mk ! r = map (\<lambda>key. if r < 16 then allowed context 16 r key else key = context) [0..<aligned multiple (context + 16)]"
    and "length mk = 32"
proof -
  let ?K = "aligned multiple (context + 16)" and ?wide = "aligned multiple (context + 32)"
  obtain rows where rows: "draft_mask context 32 multiple = Inr rows"
    and mk: "mk = map (\<lambda>r. t16_rows context r (map (take ?K) rows ! r)) [0..<length rows]"
    using assms(1) by (auto simp: draft_attention_mask_def rbind_Inr_iff Let_def)
  note tab = draft_mask_row [OF rows]
  have le: "?K \<le> ?wide" unfolding aligned_def by (intro mult_le_mono1 div_le_mono) simp
  show "length mk = 32" by (simp add: mk tab(2))
  have "map (take ?K) rows ! r = map (allowed context 32 r) [0..<?K]"
    using assms(2) le by (simp add: tab take_map)
  then have "mk ! r = map (\<lambda>key. if r < 16 then (map (allowed context 32 r) [0..<?K]) ! key \<and> key < context + 16 else key = context) [0..<?K]"
    using assms(2) by (simp add: mk tab(2) t16_rows_def)
  also have "\<dots> = map (\<lambda>key. if r < 16 then allowed context 16 r key else key = context) [0..<?K]"
    by (rule map_upt_cong) (auto simp: allowed_def)
  finally show "mk ! r = map (\<lambda>key. if r < 16 then allowed context 16 r key else key = context) [0..<?K]" .
qed

lemma own_row:
  assumes "draft_attention_mask context block multiple = Inr mk" and "r < 32"
  shows "mk ! r = map (\<lambda>key. if r < block then allowed context block r key else key = context) [0..<aligned multiple (context + block)]"
    and "length mk = 32"
proof -
  have "mk ! r = map (\<lambda>key. if r < block then allowed context block r key else key = context) [0..<aligned multiple (context + block)]
      \<and> length mk = 32"
  proof (cases "block = 16")
    case True
    then show ?thesis using t16_row [OF _ assms(2)] assms(1) by simp
  next
    case False
    then have m: "draft_mask context block multiple = Inr mk" using assms(1) by (simp add: draft_attention_mask_def)
    show ?thesis using draft_mask_row(1) [OF m assms(2)] draft_mask_row(2) [OF m] by simp
  qed
  then show "mk ! r = map (\<lambda>key. if r < block then allowed context block r key else key = context) [0..<aligned multiple (context + block)]"
    and "length mk = 32" by simp_all
qed

subsection \<open>The packed block\<close>

text \<open>The key axis assembled from its pieces: each user's cached rows, its rows of the proposal block, and whatever
  fills its span.\<close>

fun piece_keys :: "(nat \<Rightarrow> 'k list) \<Rightarrow> 'k list \<Rightarrow> (nat \<Rightarrow> 'k list) \<Rightarrow> piece \<Rightarrow> 'k list" where
  "piece_keys cache live fill (Cached user rows) = take rows (cache user)"
| "piece_keys cache live fill (Live user rows) = take rows (drop (user * rows) live)"
| "piece_keys cache live fill (Pad user rows) = take rows (fill user)"

definition packed_keys :: "(nat \<Rightarrow> 'k list) \<Rightarrow> 'k list \<Rightarrow> (nat \<Rightarrow> 'k list) \<Rightarrow> piece list \<Rightarrow> 'k list" where
  "packed_keys cache live fill plan = concat (map (piece_keys cache live fill) plan)"

lemma spans_from_nth:
  assumes "spans_from b m user offset cs = (spans, stop)"
  shows "length spans = length cs \<and> (\<forall>u < length cs. sg_user (spans ! u) = user + u \<and> sg_context (spans ! u) = cs ! u
      \<and> sg_span (spans ! u) = aligned m (cs ! u + b)
      \<and> sg_offset (spans ! u) = offset + sum_list (map (\<lambda>c. aligned m (c + b)) (take u cs)))
    \<and> stop = offset + sum_list (map (\<lambda>c. aligned m (c + b)) cs)"
  using assms
proof (induction cs arbitrary: user offset spans stop)
  case (Cons c cs)
  obtain rest where rest: "spans_from b m (user + 1) (offset + aligned m (c + b)) cs = (rest, stop)"
    and spans: "spans = \<lparr>sg_user = user, sg_context = c, sg_offset = offset, sg_span = aligned m (c + b)\<rparr> # rest"
    using Cons.prems by (auto simp: Let_def split: prod.splits)
  note ih = Cons.IH [OF rest]
  have "sg_user (spans ! u) = user + u \<and> sg_context (spans ! u) = (c # cs) ! u
      \<and> sg_span (spans ! u) = aligned m ((c # cs) ! u + b)
      \<and> sg_offset (spans ! u) = offset + sum_list (map (\<lambda>c. aligned m (c + b)) (take u (c # cs)))"
    if "u < length (c # cs)" for u using ih that by (cases u) (auto simp: spans)
  then show ?case using ih by (auto simp: spans)
qed simp

lemma paint_span_at: "paint_span b sg m r key = (if in_rows b sg r \<and> in_keys sg key
    then allowed (sg_context sg) b (r - sg_user sg * b) (key - sg_offset sg) else m r key)"
  by (simp add: paint_span_def)

lemma fold_paint:
  assumes "distinct (map sg_user spans)" and "sg \<in> set spans" and "in_rows b sg r"
  shows "fold (paint_span b) spans m r key
    = (if in_keys sg key then allowed (sg_context sg) b (r - sg_user sg * b) (key - sg_offset sg) else m r key)"
proof -
  have other: "\<not> in_rows b s r" if "sg_user s \<noteq> sg_user sg" for s
  proof
    assume i: "in_rows b s r"
    have "b > 0" using assms(3) by (auto simp: in_rows_def intro: ccontr)
    then have "r div b = sg_user s" "r div b = sg_user sg"
      using i assms(3) by (auto simp: in_rows_def intro!: div_nat_eqI simp: mult.commute)
    then show False using that by simp
  qed
  have none: "fold (paint_span b) ss m r key = m r key" if "sg_user sg \<notin> sg_user ` set ss" for ss m
    using that
  proof (induction ss arbitrary: m)
    case (Cons s ss)
    then show ?case using paint_span_at [of b s m r key] other [of s] by simp
  qed simp
  show ?thesis using assms(1,2)
  proof (induction spans arbitrary: m)
    case (Cons s ss)
    show ?case
    proof (cases "s = sg")
      case True
      then have "sg_user sg \<notin> sg_user ` set ss" using Cons.prems(1) by simp
      then show ?thesis using none [of ss "paint_span b s m"] paint_span_at [of b s m r key] assms(3) True by simp
    next
      case False
      then have "sg \<in> set ss" "sg_user s \<noteq> sg_user sg" using Cons.prems by auto
      then show ?thesis using Cons.IH [of "paint_span b s m"] Cons.prems(1) other [of s] paint_span_at [of b s m r key] by simp
    qed
  qed simp
qed

lemma segments_Inr:
  assumes "segments contexts b m = Inr (spans, keys)"
  shows "spans_from b m 0 0 contexts = (spans, keys)" and "m > 0" and "b > 0" and "length contexts * b \<le> 32" and "contexts \<noteq> []"
    and "b \<in> {1, 8, 16, 32}" and "m \<in> {32, 128}" and "c \<in> set contexts \<Longrightarrow> c \<le> 262144"
  using assms by (auto simp: segments_def split: if_splits)

lemma rows_fit: "u < n \<Longrightarrow> i < b \<Longrightarrow> n * b \<le> 32 \<Longrightarrow> u * b + i < n * b" for u n i b :: nat
proof -
  assume "u < n" "i < b"
  have "(u + 1) * b \<le> n * b" by (rule mult_le_mono1) (use \<open>u < n\<close> in simp)
  moreover have "u * b + i < (u + 1) * b" using \<open>i < b\<close> by simp
  ultimately show "u * b + i < n * b" by linarith
qed

text \<open>A user's row: nothing before its segment, its own rule over it, nothing behind.\<close>

lemma packed_row:
  assumes "batched_attention_mask contexts b m = Inr mk" and "u < length contexts" and "i < b"
  shows "mk ! (u * b + i) = replicate (sum_list (map (\<lambda>c. aligned m (c + b)) (take u contexts))) False
      @ map (allowed (contexts ! u) b i) [0..<aligned m (contexts ! u + b)]
      @ replicate (sum_list (map (\<lambda>c. aligned m (c + b)) (drop (u + 1) contexts))) False"
    and "length mk = 32" and "u * b + i < 32"
proof -
  obtain spans keys where seg: "segments contexts b m = Inr (spans, keys)"
    and mk: "mk = tabulate 32 keys (if length spans * b < 32 then paint_padding (length spans * b) (sg_context (hd spans))
        (fold (paint_span b) spans (\<lambda>_ _. False)) else fold (paint_span b) spans (\<lambda>_ _. False))"
    using assms(1) by (auto simp: batched_attention_mask_def rbind_Inr_iff Let_def split: prod.splits)
  note s = segments_Inr [OF seg] and n = spans_from_nth [OF segments_Inr(1) [OF seg]]
  let ?sum = "\<lambda>cs. sum_list (map (\<lambda>c. aligned m (c + b)) cs)"
  let ?o = "?sum (take u contexts)" and ?n = "aligned m (contexts ! u + b)" and ?t = "?sum (drop (u + 1) contexts)"
  have f: "sg_user (spans ! u) = u" "sg_context (spans ! u) = contexts ! u" "sg_span (spans ! u) = ?n" "sg_offset (spans ! u) = ?o"
    using n assms(2) by simp_all
  have keys: "keys = ?o + ?n + ?t"
    using n arg_cong [OF id_take_nth_drop [OF assms(2)], of ?sum] by simp
  have r: "u * b + i < length contexts * b" by (rule rows_fit [OF assms(2,3) s(4)])
  then show r32: "u * b + i < 32" using s(4) by simp
  show "length mk = 32" by (simp add: mk)
  have sg: "spans ! u \<in> set spans" "in_rows b (spans ! u) (u * b + i)" using n assms(2,3) by (auto simp: in_rows_def f)
  have "map sg_user spans = [0..<length contexts]" by (rule nth_equalityI) (use n in auto)
  then have d: "distinct (map sg_user spans)" by simp
  have "fold (paint_span b) spans (\<lambda>_ _. False) (u * b + i) key
      = (?o \<le> key \<and> key < ?o + ?n \<and> allowed (contexts ! u) b i (key - ?o))" for key
    by (auto simp: fold_paint [OF d sg] f in_keys_def)
  then have "mk ! (u * b + i) = map (\<lambda>key. ?o \<le> key \<and> key < ?o + ?n \<and> allowed (contexts ! u) b i (key - ?o)) [0..<keys]"
    using r n r32 by (auto simp: mk tabulate_row paint_padding_def)
  also have "\<dots> = replicate ?o False @ map (allowed (contexts ! u) b i) [0..<?n] @ replicate ?t False"
    by (rule nth_equalityI) (auto simp: keys nth_append)
  finally show "mk ! (u * b + i) = replicate ?o False @ map (allowed (contexts ! u) b i) [0..<?n] @ replicate ?t False" .
qed

lemma seen_within:
  assumes "length before = a" and "length own = length row"
  shows "seen (replicate a False @ row @ replicate n False) (before @ own @ behind) = seen row own"
  using assms by (simp add: seen_append seen_none)

text \<open>The assembled axis, segment by segment.\<close>

lemma span_keys:
  assumes "span_pieces b sg = Inr pieces"
  shows "packed_keys cache live fill pieces = take (sg_context sg) (cache (sg_user sg)) @ take b (drop (sg_user sg * b) live)
      @ take (sg_span sg - sg_context sg - b) (fill (sg_user sg))"
  using assms by (auto simp: span_pieces_def packed_keys_def Let_def split: if_splits)

lemma packed_keys_concat: "packed_keys cache live fill (concat pieces) = concat (map (packed_keys cache live fill) pieces)"
  by (induction pieces) (simp_all add: packed_keys_def)

lemma key_value_plan_Inr:
  assumes "key_value_plan contexts b m = Inr (plan, spans, keys)"
  shows "segments contexts b m = Inr (spans, keys)"
    and "packed_keys cache live fill plan = concat (map (\<lambda>sg. take (sg_context sg) (cache (sg_user sg))
      @ take b (drop (sg_user sg * b) live) @ take (sg_span sg - sg_context sg - b) (fill (sg_user sg))) spans)"
proof -
  obtain pieces where seg: "segments contexts b m = Inr (spans, keys)" and plan: "plan = concat pieces"
    and p: "those_results (map (span_pieces b) spans) = Inr pieces"
    using assms by (auto simp: key_value_plan_def rbind_Inr_iff Let_def split: prod.splits if_splits)
  show "segments contexts b m = Inr (spans, keys)" by (fact seg)
  have "map (span_pieces b) spans = map Inr pieces" using p by (simp add: those_results_Inr)
  then have "map (packed_keys cache live fill) pieces = map (\<lambda>sg. take (sg_context sg) (cache (sg_user sg))
      @ take b (drop (sg_user sg * b) live) @ take (sg_span sg - sg_context sg - b) (fill (sg_user sg))) spans"
  proof (induction spans arbitrary: pieces)
    case (Cons sg spans)
    then obtain ps rest where "pieces = ps # rest" "span_pieces b sg = Inr ps" by (cases pieces) auto
    then show ?case using Cons.IH [of rest] Cons.prems span_keys by simp
  qed simp
  then show "packed_keys cache live fill plan = concat (map (\<lambda>sg. take (sg_context sg) (cache (sg_user sg))
      @ take b (drop (sg_user sg * b) live) @ take (sg_span sg - sg_context sg - b) (fill (sg_user sg))) spans)"
    by (simp add: plan packed_keys_concat)
qed

lemma length_concat_map: "(\<And>x. x \<in> set xs \<Longrightarrow> length (f x) = g x) \<Longrightarrow> length (concat (map f xs)) = sum_list (map g xs)"
  by (induction xs) auto

text \<open>The keys of one user: its history, its own rows of the block, and what fills its span.\<close>

lemma packed_segment:
  assumes plan: "key_value_plan contexts b m = Inr (plan, spans, keys)" and u: "u < length contexts"
    and cache: "\<And>v. v < length contexts \<Longrightarrow> length (cache v) = contexts ! v"
    and live: "length contexts * b \<le> length live"
    and fill: "\<And>v. v < length contexts \<Longrightarrow> aligned m (contexts ! v + b) - contexts ! v - b \<le> length (fill v)"
  obtains before tail behind where "packed_keys cache live fill plan = before @ (cache u @ take b (drop (u * b) live) @ tail) @ behind"
    and "length before = sum_list (map (\<lambda>c. aligned m (c + b)) (take u contexts))"
    and "length (cache u @ take b (drop (u * b) live) @ tail) = aligned m (contexts ! u + b)"
proof -
  note k = key_value_plan_Inr [OF plan]
  note s = segments_Inr [OF k(1)] and n = spans_from_nth [OF segments_Inr(1) [OF k(1)]]
  let ?own = "\<lambda>v. cache v @ take b (drop (v * b) live) @ take (aligned m (contexts ! v + b) - contexts ! v - b) (fill v)"
  let ?part = "\<lambda>sg. take (sg_context sg) (cache (sg_user sg)) @ take b (drop (sg_user sg * b) live)
      @ take (sg_span sg - sg_context sg - b) (fill (sg_user sg))"
  have part: "?part (spans ! v) = ?own v" if "v < length contexts" for v using n cache that by simp
  have "map ?part spans = map ?own [0..<length contexts]" by (rule nth_equalityI) (use n part in auto)
  then have all: "packed_keys cache live fill plan = concat (map ?own [0..<length contexts])"
    using k(2) [of cache live fill] by (simp only:)
  have len: "length (?own v) = aligned m (contexts ! v + b)" if v: "v < length contexts" for v
  proof -
    have "v * b + (b - 1) < length contexts * b" by (rule rows_fit [OF v _ s(4)]) (use s(3) in simp)
    then have "length (take b (drop (v * b) live)) = b" using live s(3) by simp
    then show ?thesis using cache [OF v] fill [OF v] aligned_ge [OF s(2), of "contexts ! v + b"] by simp
  qed
  have "[0..<length contexts] = [0..<u] @ [u] @ [u + 1..<length contexts]"
    using u upt_append [of 0 u "length contexts"] by (simp add: upt_rec)
  then have "packed_keys cache live fill plan = concat (map ?own [0..<u]) @ ?own u @ concat (map ?own [u + 1..<length contexts])"
    by (simp add: all)
  moreover have "length (concat (map ?own [0..<u])) = sum_list (map (\<lambda>v. aligned m (contexts ! v + b)) [0..<u])"
    by (rule length_concat_map) (use len u in simp)
  moreover have "map (\<lambda>v. aligned m (contexts ! v + b)) [0..<u] = map (\<lambda>c. aligned m (c + b)) (take u contexts)"
    by (rule nth_equalityI) (use u in auto)
  ultimately show thesis
    by (rule_tac that [of "concat (map ?own [0..<u])" _ "concat (map ?own [u + 1..<length contexts])"])
      (simp_all only:, rule len [OF u])
qed

text \<open>A packed row over the assembled keys.\<close>

lemma packed_row_sees:
  assumes mk: "batched_attention_mask contexts b m = Inr mk" and plan: "key_value_plan contexts b m = Inr (plan, spans, keys)"
    and u: "u < length contexts" and i: "i < b"
    and cache: "\<And>v. v < length contexts \<Longrightarrow> length (cache v) = contexts ! v"
    and live: "length contexts * b \<le> length live"
    and fill: "\<And>v. v < length contexts \<Longrightarrow> aligned m (contexts ! v + b) - contexts ! v - b \<le> length (fill v)"
  shows "seen (mk ! (u * b + i)) (packed_keys cache live fill plan)
    = drop (contexts ! u + i - 2047) (cache u) @ take b (drop (u * b) live)"
proof -
  let ?live = "take b (drop (u * b) live)"
  note s = segments_Inr [OF key_value_plan_Inr(1) [OF plan]]
  obtain before tail behind where k: "packed_keys cache live fill plan = before @ (cache u @ ?live @ tail) @ behind"
    and len: "length before = sum_list (map (\<lambda>c. aligned m (c + b)) (take u contexts))"
      "length (cache u @ ?live @ tail) = aligned m (contexts ! u + b)"
    by (rule packed_segment [OF plan u cache live fill])
  have "u * b + (b - 1) < length contexts * b" by (rule rows_fit [OF u _ s(4)]) (use s(3) in simp)
  then have l: "length ?live = b" using live s(3) by simp
  have n: "aligned m (contexts ! u + b) = contexts ! u + b + length tail" using len(2) l cache [OF u] by simp
  have "seen (mk ! (u * b + i)) (packed_keys cache live fill plan)
      = seen (map (allowed (contexts ! u) b i) [0..<aligned m (contexts ! u + b)]) (cache u @ ?live @ tail)"
    unfolding k packed_row(1) [OF mk u i] by (rule seen_within) (use len in simp_all)
  then show ?thesis using own_segment [OF cache [OF u] l i, of tail] by (simp add: n)
qed

lemma own_row_sees:
  assumes mk: "draft_attention_mask c b m = Inr mk" and i: "i < b" "b \<le> 32"
    and len: "length cache = c" "length live = b" "c + b + length tail = aligned m (c + b)"
  shows "seen (mk ! i) (cache @ live @ tail) = drop (c + i - 2047) cache @ live"
proof -
  have "mk ! i = map (allowed c b i) [0..<c + b + length tail]" using own_row(1) [OF mk, of i] i len(3) by simp
  then show ?thesis using own_segment [OF len(1,2) i(1)] by simp
qed

subsection \<open>Packing isolates the users\<close>

text \<open>C10: a packed user attends exactly as it would alone. Pack users with any histories into the 32-row draft block and
  assemble the key axis by the plan, whatever fills the spans: the live row i of user u sees, in order, the
  last keys of its own history inside the 2048 window and its own rows of the block, and no key of another
  user or of a filler; and the mask that user is served alone shows it the same keys.\<close>

theorem packed_user_attends_alone:
  assumes "batched_attention_mask contexts b m = Inr mk" and "key_value_plan contexts b m = Inr (plan, spans, keys)"
    and "u < length contexts" and "i < b"
    and "\<And>v. v < length contexts \<Longrightarrow> length (cache v) = contexts ! v" and "length live = 32"
    and "\<And>v. v < length contexts \<Longrightarrow> aligned m (contexts ! v + b) - contexts ! v - b \<le> length (fill v)"
  shows "let own = take b (drop (u * b) live); sees = seen (mk ! (u * b + i)) (packed_keys cache live fill plan)
    in sees = drop (contexts ! u + i - 2047) (cache u) @ own
       \<and> (\<exists>alone. draft_attention_mask (contexts ! u) b m = Inr alone
            \<and> (\<forall>tail. contexts ! u + b + length tail = aligned m (contexts ! u + b)
                 \<longrightarrow> seen (alone ! i) (cache u @ own @ tail) = sees))"
proof -
  let ?own = "take b (drop (u * b) live)"
  have seg: "segments contexts b m = Inr (spans, keys)" by (rule key_value_plan_Inr(1) [OF assms(2)])
  note s = segments_Inr [OF seg]
  have l: "length contexts * b \<le> length live" using s(4) assms(6) by simp
  note sees = packed_row_sees [OF assms(1-5) l assms(7)]
  have "u * b + (b - 1) < length contexts * b" by (rule rows_fit [OF assms(3) _ s(4)]) (use s(3) in simp)
  then have own: "length ?own = b" and b: "b \<le> 32" using l s(3,4) by simp_all
  have "contexts ! u \<le> 262144" using s(8) assms(3) by simp
  then obtain alone where alone: "draft_attention_mask (contexts ! u) b m = Inr alone"
    using s(6,7) by (auto simp: draft_attention_mask_def draft_mask_def Let_def)
  show ?thesis
    using sees alone own_row_sees [OF alone assms(4) b assms(5) [OF assms(3)] own] by (simp add: Let_def)
qed

definition demo_history :: "nat \<Rightarrow> int list" where
  "demo_history u = map (\<lambda>k. 100 * int u + int k) [0..<[16, 40] ! u]"

theorem packed_user_attends_alone_witness:
  "seen (projr (batched_attention_mask [16, 40] 16 32) ! 17)
     (packed_keys demo_history (map int [0..<32]) (\<lambda>_. replicate 32 (- 1)) (fst (projr (key_value_plan [16, 40] 16 32))))
   = map (\<lambda>k. 100 + int k) [0..<40] @ map int [16..<32]"
proof -
  have "returned (batched_attention_mask [16, 40] 16 32)"
    by (simp add: batched_attention_mask_def segments_def returned_def Let_def)
  note m = returned_projr [OF this]
  have plan: "key_value_plan [16, 40] 16 32 = Inr ([Cached 0 16, Live 0 16, Cached 1 40, Live 1 16, Pad 1 8],
      fst (spans_from 16 32 0 0 [16, 40]), 96)"
    by (simp add: key_value_plan_def segments_def span_pieces_def aligned_def Let_def)
  have cache: "length (demo_history v) = [16, 40] ! v" for v by (simp add: demo_history_def)
  have fill: "aligned 32 ([16, 40] ! v + 16) - [16, 40] ! v - 16 \<le> length (replicate 32 (- 1 :: int))" if "v < length [16, 40 :: nat]" for v
    using that by (auto simp: less_Suc_eq aligned_def)
  have own: "take 16 (drop (1 * 16) (map int [0..<32])) = map int [16..<32]" by (simp add: take_map drop_map)
  have "drop ([16, 40] ! 1 + 1 - 2047) (demo_history 1) = map (\<lambda>k. 100 + int k) [0..<40]" by (simp add: demo_history_def)
  note hist = this
  have u: "1 < length [16, 40 :: nat]" "(1 :: nat) < 16" "length (map int [0..<32]) = 32" by simp_all
  note c = conjunct1 [OF packed_user_attends_alone [OF m plan u(1,2) cache u(3) fill, unfolded Let_def]]
  have row: "1 * 16 + 1 = (17 :: nat)" by simp
  show ?thesis using c unfolding plan sum.sel fst_conv hist own row .
qed

end
