(* ===== verification/DraftRope.thy ===== *)
theory DraftRope
  imports DraftProps
begin

text \<open>
  Where the keys a draft query sees stand: the rotary tables of a pack and of a bucket give each its absolute
  position; and the folded pair answers what the packed pair answers.
\<close>

subsection \<open>Positions in a pack\<close>

lemma nth_concat_uniform:
  assumes "\<And>xs. xs \<in> set xss \<Longrightarrow> length xs = b" and "u < length xss" and "i < b"
  shows "concat xss ! (u * b + i) = xss ! u ! i"
  using assms
proof (induction xss arbitrary: u)
  case (Cons xs xss)
  show ?case
  proof (cases u)
    case 0
    then show ?thesis using Cons.prems by (simp add: nth_append)
  next
    case (Suc v)
    have "length xs = b" using Cons.prems(1) by simp
    then have "concat (xs # xss) ! (u * b + i) = concat xss ! (v * b + i)"
      by (simp add: Suc nth_append add.assoc)
    also have "\<dots> = xss ! v ! i" by (rule Cons.IH) (use Cons.prems Suc in auto)
    finally show ?thesis by (simp add: Suc)
  qed
qed simp

lemma nth_concat_blocks:
  assumes "\<And>h. h < n \<Longrightarrow> length (f h) = b" and "h < n" and "i < b"
  shows "concat (map f [0..<n]) ! (h * b + i) = f h ! i"
proof -
  have "length xs = b" if "xs \<in> set (map f [0..<n])" for xs using that assms(1) by auto
  from nth_concat_uniform [of "map f [0..<n]" b h i, OF this] show ?thesis using assms(2,3) by simp
qed

lemma length_concat_uniform: "(\<And>xs. xs \<in> set xss \<Longrightarrow> length xs = b) \<Longrightarrow> length (concat xss) = length xss * b"
  by (induction xss) auto

lemma rope_tables_Inr: "rope_tables a n = Inr xs \<Longrightarrow> xs = [a..<a + n]"
  by (simp add: rope_tables_def split: if_splits)

lemma rope_part:
  assumes "rbind (rope_tables p b) (\<lambda>q. rbind (rope_tables a n) (\<lambda>k. Inr (q, k))) = Inr part"
  shows "part = ([p..<p + b], [a..<a + n])"
proof -
  obtain q k where "rope_tables p b = Inr q" "rope_tables a n = Inr k" "part = (q, k)"
    using assms by (auto simp: rbind_Inr_iff)
  then show ?thesis using rope_tables_Inr by simp
qed

lemma user_contexts_Inr: "user_contexts users = Inr cs \<Longrightarrow> (p, h) \<in> set users \<Longrightarrow> h \<le> p"
  by (force simp: user_contexts_def split: if_splits)

lemma packed_rope_parts:
  assumes "packed_rope_tables users b m = Inr (q, k)" and "segments (map snd users) b m = Inr (spans, keys)"
  obtains parts padding where "q = concat (map fst parts) @ padding" and "k = concat (map snd parts)" and "length parts = length users"
    and "\<And>u. u < length users \<Longrightarrow> parts ! u = ([fst (users ! u)..<fst (users ! u) + b],
           [fst (users ! u) - snd (users ! u)..<fst (users ! u) - snd (users ! u) + aligned m (snd (users ! u) + b)])"
    and "\<And>u. u < length users \<Longrightarrow> snd (users ! u) \<le> fst (users ! u)"
proof -
  let ?F = "\<lambda>((position, history), sg). rbind (rope_tables position b) (\<lambda>q.
              rbind (rope_tables (position - history) (sg_span sg)) (\<lambda>k. Inr (q, k)))"
  have uc: "user_contexts users = Inr (map snd users)"
    using assms(1) by (auto simp: packed_rope_tables_def rbind_Inr_iff user_contexts_def split: if_splits)
  obtain parts padding where p: "those_results (map ?F (zip users spans)) = Inr parts"
    and q: "q = concat (map fst parts) @ padding" "k = concat (map snd parts)"
    using assms uc by (auto simp: packed_rope_tables_def rbind_Inr_iff Let_def split: if_splits)
  note n = spans_from_nth [OF segments_Inr(1) [OF assms(2)]]
  have F: "map ?F (zip users spans) = map Inr parts" using p by (simp add: those_results_Inr)
  have len: "length parts = length users" using arg_cong [OF F, of length] n by simp
  show thesis
  proof (rule that [OF q len])
    fix u assume u: "u < length users"
    have "map ?F (zip users spans) ! u = ?F (users ! u, spans ! u)" using u n by simp
    moreover have "map Inr parts ! u = Inr (parts ! u)" using u len by simp
    ultimately have f: "?F (users ! u, spans ! u) = Inr (parts ! u)" using F by metis
    have n: "sg_span (spans ! u) = aligned m (snd (users ! u) + b)" using n u by simp
    obtain p h where ph: "users ! u = (p, h)" by force
    have "rbind (rope_tables p b) (\<lambda>q. rbind (rope_tables (p - h) (sg_span (spans ! u))) (\<lambda>k. Inr (q, k))) = Inr (parts ! u)"
      using f by (simp add: ph)
    from rope_part [OF this] show "parts ! u = ([fst (users ! u)..<fst (users ! u) + b],
           [fst (users ! u) - snd (users ! u)..<fst (users ! u) - snd (users ! u) + aligned m (snd (users ! u) + b)])"
      using n by (simp add: ph)
    have "users ! u \<in> set users" using u by simp
    then show "snd (users ! u) \<le> fst (users ! u)"
      using user_contexts_Inr [OF uc, of "fst (users ! u)" "snd (users ! u)"] by simp
  qed
qed

lemma concat_at: "u < n \<Longrightarrow> concat (map f [0..<n]) = concat (map f [0..<u]) @ f u @ concat (map f [u + 1..<n])"
proof -
  assume u: "u < n"
  then have "[0..<n] = [0..<u] @ [u] @ [u + 1..<n]" using upt_append [of 0 u n] by (simp add: upt_rec)
  then show ?thesis by simp
qed

lemma window_positions: "h \<le> p \<Longrightarrow> i \<le> 2047 \<Longrightarrow> drop (h + i - 2047) [p - h..<p] @ [p..<p + b] = [p - h + (h + i - 2047)..<p + b]"
  by (simp add: drop_upt upt_append)

text \<open>C12: every packed user attends at its true distances. The rotary position of the live query i of user u is its own
  absolute position plus i, and the positions of the keys it sees, in order, are the consecutive absolute
  positions of its own text from the start of its 2048 window to the end of its block, whatever users it is
  packed with.\<close>

theorem packed_positions_are_true:
  assumes "packed_rope_tables users b m = Inr (q, k)" and "batched_attention_mask (map snd users) b m = Inr mk"
    and "u < length users" and "i < b"
  shows "let (position, history) = users ! u
    in q ! (u * b + i) = position + i
       \<and> seen (mk ! (u * b + i)) k = [position - history + (history + i - 2047)..<position + b]"
proof -
  obtain spans keys where seg: "segments (map snd users) b m = Inr (spans, keys)"
    using assms(2) by (auto simp: batched_attention_mask_def rbind_Inr_iff)
  obtain parts padding where q: "q = concat (map fst parts) @ padding" and k: "k = concat (map snd parts)"
    and len: "length parts = length users"
    and part: "\<And>u. u < length users \<Longrightarrow> parts ! u = ([fst (users ! u)..<fst (users ! u) + b],
           [fst (users ! u) - snd (users ! u)..<fst (users ! u) - snd (users ! u) + aligned m (snd (users ! u) + b)])"
    and le: "\<And>u. u < length users \<Longrightarrow> snd (users ! u) \<le> fst (users ! u)"
    by (rule packed_rope_parts [OF assms(1) seg]) (rule that; simp)
  obtain p h where ph: "users ! u = (p, h)" by force
  have h: "h \<le> p" using le [OF assms(3)] by (simp add: ph)
  have row: "length xs = b" if "xs \<in> set (map fst parts)" for xs
    using that part len by (auto simp: in_set_conv_nth)
  have lr: "length (concat (map fst parts)) = length users * b"
    using length_concat_uniform [of "map fst parts" b] row len by simp
  have at: "u * b + i < length users * b"
    using rows_fit [OF _ assms(4), of u "length users"] segments_Inr(4) [OF seg] assms(3) by simp
  have q': "q ! (u * b + i) = p + i"
    using nth_concat_uniform [of "map fst parts" b u i] row part [OF assms(3)] assms(3,4) len at lr by (simp add: q ph nth_append)
  let ?f = "\<lambda>v. snd (parts ! v)"
  have "map snd parts = map ?f [0..<length users]" by (rule nth_equalityI) (simp_all add: len)
  then have k': "k = concat (map ?f [0..<u]) @ ?f u @ concat (map ?f [u + 1..<length users])"
    using concat_at [OF assms(3), of ?f] by (simp add: k)
  have own: "?f u = [p - h..<p] @ [p..<p + b] @ [p + b..<p - h + aligned m (h + b)]"
  proof -
    have "h + b \<le> aligned m (h + b)" by (rule aligned_ge) (rule segments_Inr(2) [OF seg])
    then show ?thesis using part [OF assms(3)] h by (simp add: ph upt_append)
  qed
  have before: "length (concat (map ?f [0..<u])) = sum_list (map (\<lambda>c. aligned m (c + b)) (take u (map snd users)))"
  proof -
    have "length (concat (map ?f [0..<u])) = sum_list (map (\<lambda>v. aligned m (snd (users ! v) + b)) [0..<u])"
      by (rule length_concat_map) (use part assms(3) in simp)
    also have "map (\<lambda>v. aligned m (snd (users ! v) + b)) [0..<u] = map (\<lambda>c. aligned m (c + b)) (take u (map snd users))"
      by (rule nth_equalityI) (use assms(3) in auto)
    finally show ?thesis .
  qed
  have n: "aligned m (h + b) = h + b + length [p + b..<p - h + aligned m (h + b)]"
    using aligned_ge [OF segments_Inr(2) [OF seg], of "h + b"] h by simp
  have "u < length (map snd users)" "map snd users ! u = h" using assms(3) ph by simp_all
  note mk = packed_row(1) [OF assms(2) this(1) assms(4), unfolded this(2)]
  have "seen (mk ! (u * b + i)) k = seen (map (allowed h b i) [0..<aligned m (h + b)]) (?f u)"
    unfolding k' mk by (rule seen_within) (use before part [OF assms(3)] ph in simp_all)
  also have "\<dots> = drop (h + i - 2047) [p - h..<p] @ [p..<p + b]"
    unfolding own using own_segment [of "[p - h..<p]" h "[p..<p + b]" b i "[p + b..<p - h + aligned m (h + b)]"] h assms(4) n by simp
  also have "\<dots> = [p - h + (h + i - 2047)..<p + b]"
    using h segments_Inr(6) [OF seg] assms(4) by (intro window_positions) auto
  finally show ?thesis using q' by (simp add: ph)
qed

definition demo_users :: "draft_user list" where
  "demo_users = [(5000, 16), (9000, 40)]"

theorem packed_positions_are_true_witness:
  "fst (projr (packed_rope_tables demo_users 16 32)) ! 17 = 9001
   \<and> seen (projr (batched_attention_mask [16, 40] 16 32) ! 17) (snd (projr (packed_rope_tables demo_users 16 32))) = [8960..<9016]"
proof -
  have "returned (batched_attention_mask [16, 40] 16 32)"
    by (simp add: batched_attention_mask_def segments_def returned_def Let_def)
  note m = returned_projr [OF this]
  have "returned (packed_rope_tables demo_users 16 32)"
    by (simp add: packed_rope_tables_def demo_users_def user_contexts_def segments_def rope_tables_def aligned_def Let_def returned_def)
  then obtain q k where r: "packed_rope_tables demo_users 16 32 = Inr (q, k)" using returned_projr by (metis prod.collapse)
  have u: "map snd demo_users = [16, 40]" "1 < length demo_users" "demo_users ! 1 = (9000, 40)" "(1 :: nat) < 16"
    by (simp_all add: demo_users_def)
  show ?thesis using packed_positions_are_true [OF r _ u(2,4), unfolded u(1,3), OF m] by (simp add: r)
qed

text \<open>A lone user whose span ends with its block has no rows left for the padding.\<close>

lemma live_key_rope_runs_out: "live_key_rope [(5000, 16)] 16 32 = Inl AssertionError"
  by (simp add: live_key_rope_def user_contexts_def segments_def packed_rope_tables_def rope_tables_def live_parts_def aligned_def Let_def)

subsection \<open>A bucket\<close>

lemma proposal_inputs_Inr:
  assumes "proposal_inputs seed position history block context = Inr d"
  obtains original where "draft_attention_mask history block 32 = Inr original"
    and "di_mask d = map (bucket_row history block context) original" and "di_query d = [position..<position + 32]"
    and "di_key d = bucket_key_rope history block context [position - history..<position] [position..<position + 32]"
    and "1 \<le> history" and "history \<le> position" and "history \<le> context" and "block \<in> {8, 16, 32}"
proof -
  obtain original query historical where o: "draft_attention_mask history block 32 = Inr original"
    and q: "rope_tables position 32 = Inr query" and h: "rope_tables (position - history) history = Inr historical"
    and d: "d = \<lparr>di_identifiers = seed # replicate (block - 1) 248070, di_mask = map (bucket_row history block context) original,
        di_query = query, di_key = bucket_key_rope history block context historical query\<rparr>"
    and b: "1 \<le> history" "history \<le> min position 2048" "history \<le> context" "block \<in> {8, 16, 32}"
    using assms by (auto simp: proposal_inputs_def rbind_Inr_iff split: if_splits)
  have "query = [position..<position + 32]" "historical = [position - history..<position]"
    using rope_tables_Inr [OF q] rope_tables_Inr [OF h] b(2) by simp_all
  then show thesis using that [OF o] d b by simp
qed

lemma bucket_row_split:
  assumes "history \<le> context" and "block \<le> 32"
  shows "bucket_row history block context row = map ((!) row) [0..<history] @ replicate (context - history) False
      @ map ((!) row) [history..<history + block] @ replicate (32 - block) False"
  using assms by (intro nth_equalityI) (auto simp: bucket_row_def nth_append)

lemma bucket_key_split:
  assumes "history \<le> context" and "block \<le> 32" and "history \<le> position"
  shows "bucket_key_rope history block context [position - history..<position] [position..<position + 32]
    = map Some [position - history..<position] @ replicate (context - history) None
      @ map Some [position..<position + block] @ replicate (32 - block) None"
  using assms by (intro nth_equalityI) (auto simp: bucket_key_rope_def nth_append)

lemma bucket_row_sees:
  assumes mk: "draft_attention_mask history block 32 = Inr original" and le: "history \<le> context" "block \<le> 32" "r < block"
    and len: "length hist = history" "length hole = context - history" "length live = block"
  shows "seen (bucket_row history block context (original ! r)) (hist @ hole @ live @ rest) = drop (history + r - 2047) hist @ live"
proof -
  let ?row = "original ! r"
  have row: "?row ! key = allowed history block r key" if "key < history + block" for key
    using own_row(1) [OF mk, of r] le that aligned_ge [of 32 "history + block"] by simp
  have h: "map ((!) ?row) [0..<history] = map (allowed history block r) [0..<history]" by (rule map_upt_cong) (simp add: row)
  have l: "map ((!) ?row) [history..<history + block] = map (allowed history block r) [history..<history + block]"
    by (rule map_upt_cong) (simp add: row)
  have "seen (bucket_row history block context ?row) (hist @ hole @ live @ rest)
      = seen (map (allowed history block r) [0..<history]) hist @ seen (map (allowed history block r) [history..<history + block]) live"
    unfolding bucket_row_split [OF le(1,2)] h l using len by (simp add: seen_append seen_none)
  also have "\<dots> = seen (map (allowed history block r) [0..<history + block]) (hist @ live)"
    using len upt_append [of 0 history "history + block"] by (simp flip: map_append seen_append)
  finally show ?thesis using own_segment [OF len(1,3) le(3), of "[]"] by simp
qed

text \<open>C14: a bucket changes nothing but the shape. In a bucket of any rung at least as wide as the history, whatever
  lies in the hole between history and block, the live query r sees exactly what it sees in the unpadded
  mask, which is its history inside the 2048 window and its own block; its own rotary position is its
  absolute position, and the keys it sees carry the consecutive absolute positions up to the end of the
  block.\<close>

theorem bucket_attends_as_unpadded:
  assumes "proposal_inputs seed position history block context = Inr d" and "r < block"
    and "length hist = history" and "length hole = context - history" and "length live = block"
    and "draft_attention_mask history block 32 = Inr own" and "history + block + length tail = aligned 32 (history + block)"
  shows "seen (di_mask d ! r) (hist @ hole @ live @ rest) = seen (own ! r) (hist @ live @ tail)
    \<and> seen (di_mask d ! r) (hist @ hole @ live @ rest) = drop (history + r - 2047) hist @ live
    \<and> di_query d ! r = position + r
    \<and> seen (di_mask d ! r) (di_key d) = map Some [position - history + (history + r - 2047)..<position + block]"
proof -
  obtain original where o: "draft_attention_mask history block 32 = Inr original"
    and mk: "di_mask d = map (bucket_row history block context) original" and q: "di_query d = [position..<position + 32]"
    and k: "di_key d = bucket_key_rope history block context [position - history..<position] [position..<position + 32]"
    and le: "1 \<le> history" "history \<le> position" "history \<le> context" "block \<in> {8, 16, 32}"
    by (rule proposal_inputs_Inr [OF assms(1)])
  have b: "block \<le> 32" using le(4) by auto
  have row: "di_mask d ! r = bucket_row history block context (original ! r)" using own_row(2) [OF o, of r] assms(2) b by (simp add: mk)
  note sees = bucket_row_sees [OF o le(3) b assms(2)]
  have own: "seen (own ! r) (hist @ live @ tail) = drop (history + r - 2047) hist @ live"
    by (rule own_row_sees [OF assms(6,2) b assms(3,5,7)])
  have "seen (di_mask d ! r) (di_key d) = drop (history + r - 2047) (map Some [position - history..<position])
      @ map Some [position..<position + block]"
    unfolding row k bucket_key_split [OF le(3) b le(2)] by (rule sees) (use le(2) in simp_all)
  also have "\<dots> = map Some [position - history + (history + r - 2047)..<position + block]"
    using window_positions [OF le(2), of r block] assms(2) b by (simp add: drop_map flip: map_append)
  finally show ?thesis using sees [OF assms(3-5)] own row q assms(2) b by simp
qed

theorem bucket_attends_as_unpadded_witness:
  "seen (di_mask (projr (proposal_inputs 7 5000 40 16 256)) ! 3) (di_key (projr (proposal_inputs 7 5000 40 16 256)))
   = map Some [4960..<5016]"
proof -
  have r: "returned (draft_attention_mask 40 16 32)"
    by (simp add: draft_attention_mask_def draft_mask_def Let_def returned_def)
  obtain mk where own: "draft_attention_mask 40 16 32 = Inr mk" using returned_projr [OF r] by blast
  have "returned (proposal_inputs 7 5000 40 16 256)"
    unfolding proposal_inputs_def own by (simp add: rope_tables_def returned_def)
  note d = returned_projr [OF this]
  have t: "40 + 16 + length (replicate 8 (0 :: int)) = aligned 32 (40 + 16)" by (simp add: aligned_def)
  show ?thesis
    using bucket_attends_as_unpadded [OF d _ _ _ _ own t, of 3 "replicate 40 1" "replicate 216 2" "replicate 16 3"] by simp
qed

subsection \<open>The folded pair\<close>

lemma fold_keys_nth:
  assumes "length keys = 4" and "h < 4"
  shows "fold_keys keys ! (2 * h) = take 2080 (keys ! h)" and "fold_keys keys ! (2 * h + 1) = drop 2080 (keys ! h)"
proof -
  let ?f = "\<lambda>head. [take 2080 head, drop 2080 head]"
  have len: "length xs = 2" if "xs \<in> set (map ?f keys)" for xs using that by auto
  have at: "fold_keys keys ! (h * 2 + i) = ?f (keys ! h) ! i" if "i < 2" for i
    using nth_concat_uniform [of "map ?f keys" 2 h i] len that assms by (simp add: fold_keys_def)
  show "fold_keys keys ! (2 * h) = take 2080 (keys ! h)" "fold_keys keys ! (2 * h + 1) = drop 2080 (keys ! h)"
    using at [of 0] at [of 1] by (simp_all add: mult.commute)
qed

lemma fold_query_nth:
  assumes "length query = 16" and "h < 4" and "j < 4"
  shows "fold_query query ! (8 * h + j) = query ! (4 * h + j)"
    and "fold_query query ! (8 * h + 4 + j) = drop 16 (query ! (4 * h + j)) @ take 16 (query ! (4 * h + j))"
proof -
  let ?s = "map (\<lambda>rows. drop 16 rows @ take 16 rows) query"
  let ?f = "\<lambda>h. take 4 (drop (4 * h) query) @ take 4 (drop (4 * h) ?s)"
  have at: "concat (map ?f [0..<4]) ! (h * 8 + i) = ?f h ! i" if "i < 8" for i
    by (rule nth_concat_blocks) (use that assms(1,2) in auto)
  have q: "fold_query query = concat (map ?f [0..<4])" by (simp only: fold_query_def Let_def)
  have l: "length (take 4 (drop (4 * h) query)) = 4" using assms(1,2) by simp
  show "fold_query query ! (8 * h + j) = query ! (4 * h + j)"
    using at [of j] assms l by (simp add: q mult.commute nth_append)
  show "fold_query query ! (8 * h + 4 + j) = drop 16 (query ! (4 * h + j)) @ take 16 (query ! (4 * h + j))"
    using at [of "4 + j"] assms l by (simp add: q mult.commute nth_append add.assoc)
qed

lemma unfold_nth:
  assumes "h < 4" and "j < 4"
  shows "unfold_output out ! (4 * h + j) = take 16 (out ! (8 * h + j)) @ take 16 (out ! (8 * h + 4 + j))"
proof -
  let ?f = "\<lambda>h. map (\<lambda>j. take 16 (out ! (8 * h + j)) @ take 16 (out ! (8 * h + 4 + j))) [0..<4]"
  have "concat (map ?f [0..<4]) ! (h * 4 + j) = ?f h ! j" by (rule nth_concat_blocks) (use assms in auto)
  then have "unfold_output out ! (4 * h + j) = ?f h ! j" by (simp only: unfold_output_def mult.commute)
  then show ?thesis using assms(2) by simp
qed

end
