(* ===== verification/DraftFold.thy ===== *)
theory DraftFold
  imports DraftRope
begin

text \<open>
  The folded pair: one key head per user's segment, the second user's rows moved up, the single-user mask. Each
  user's rows come out as from its own single-user call: the same query rows at the same places of the tile
  over the same key axis, chunk for chunk. The packed pair's two-segment call is not said to answer the same:
  its second user's rows lie lower in the tile and behind another user's masked chunks.
\<close>

lemma sdpa_at:
  assumes "n < length query" and "length (query ! n) = length mk" and "r < length mk"
  shows "sdpa attend query keys mk ! n ! r = attend r (query ! n ! r) (masked_keys (mk ! r) (keys ! (n div 4)))"
    and "length (sdpa attend query keys mk ! n) = length mk"
  using assms by (simp_all add: sdpa_def)

lemma fold_query_length:
  assumes "length query = 16" and "\<And>rows. rows \<in> set query \<Longrightarrow> length rows = 32"
  shows "length (fold_query query) = 32" and "m < 32 \<Longrightarrow> length (fold_query query ! m) = 32"
proof -
  let ?f = "\<lambda>h. take 4 (drop (4 * h) query) @ take 4 (drop (4 * h) (map (\<lambda>rows. drop 16 rows @ take 16 rows) query))"
  have q: "fold_query query = concat (map ?f [0..<4])" by (simp only: fold_query_def Let_def)
  have "length xs = 8" if "xs \<in> set (map ?f [0..<4])" for xs using that assms(1) by auto
  then have "length (concat (map ?f [0..<4])) = length (map ?f [0..<4]) * 8" by (rule length_concat_uniform)
  then show l: "length (fold_query query) = 32" unfolding q by simp
  have "length rows = 32" if "rows \<in> set (fold_query query)" for rows
    using that assms(2) by (auto simp: q dest!: in_set_takeD in_set_dropD)
  then show "length (fold_query query ! m) = 32" if "m < 32" using that l by simp
qed

lemma unfold_length: "length (unfold_output out) = 16"
proof -
  have "length xs = 4" if "xs \<in> set (map (\<lambda>h. map (\<lambda>j. take 16 (out ! (8 * h + j)) @ take 16 (out ! (8 * h + 4 + j))) [0..<4]) [0..<4])"
    for xs using that by auto
  then show ?thesis unfolding unfold_output_def by (subst length_concat_uniform) simp_all
qed

text \<open>The mask of a user at the full history, alone: the served bucket's rows and the fold's.\<close>

lemma single_row:
  assumes "batched_attention_mask [2048] 16 32 = Inr single" and "i < 16"
  shows "single ! i = map (allowed 2048 16 i) [0..<2080]" and "length single = 32"
  using packed_row(1) [OF assms(1), of 0 i] packed_row(2) [OF assms(1), of 0 i] assms(2) by (simp_all add: aligned_def)

lemma solo_row:
  assumes "proposal_inputs seed position 2048 16 2048 = Inr solo" and "i < 16"
  shows "di_mask solo ! i = map (allowed 2048 16 i) [0..<2080]" and "length (di_mask solo) = 32"
proof -
  obtain original where o: "draft_attention_mask 2048 16 32 = Inr original"
    and mk: "di_mask solo = map (bucket_row 2048 16 2048) original"
    by (rule proposal_inputs_Inr [OF assms(1)])
  have i: "i < 32" using assms(2) by simp
  have row: "original ! i = map (allowed 2048 16 i) [0..<2080]" and l: "length original = 32"
    using own_row [OF o i] assms(2) by (simp_all add: aligned_def)
  show "length (di_mask solo) = 32" by (simp add: mk l)
  have "di_mask solo ! i = bucket_row 2048 16 2048 (original ! i)" using l i by (simp add: mk)
  also have "\<dots> = map (allowed 2048 16 i) [0..<2080]"
    unfolding row bucket_row_def by (rule nth_equalityI) (auto simp: allowed_def)
  finally show "di_mask solo ! i = map (allowed 2048 16 i) [0..<2080]" .
qed

text \<open>A live row reads the history and its own sixteen rows; what fills the span is masked.\<close>

lemma masked_own:
  assumes "length keys = 2064" and "length tail = 16" and "length tail' = 16"
  shows "masked_keys (map (allowed 2048 16 i) [0..<2080]) (keys @ tail) = masked_keys (map (allowed 2048 16 i) [0..<2080]) (keys @ tail')"
  unfolding masked_keys_def
  by (rule nth_equalityI) (use assms in \<open>auto simp: nth_append allowed_def\<close>)

text \<open>The pair's key axis: each user's 2048 cached rows, its sixteen rows of the block, and sixteen filler rows.\<close>

definition segment_keys :: "(nat \<Rightarrow> 'k list) \<Rightarrow> 'k list \<Rightarrow> (nat \<Rightarrow> 'k list) \<Rightarrow> nat \<Rightarrow> 'k list" where
  "segment_keys cache live fill u = cache u @ take 16 (drop (16 * u) live) @ take 16 (fill u)"

lemma pair_keys:
  assumes "key_value_plan [2048, 2048] 16 32 = Inr (plan, spans, n)" and "length (cache 0) = 2048" and "length (cache 1) = 2048"
  shows "packed_keys cache live fill plan = segment_keys cache live fill 0 @ segment_keys cache live fill 1"
  using key_value_plan_Inr(1) [OF assms(1)] key_value_plan_Inr(2) [OF assms(1), of cache live fill] assms(2,3)
  by (auto simp: segments_def aligned_def segment_keys_def Let_def)

text \<open>A query row of the fold: user u's row i of a head, at place i of the tile, over the user's own segment.\<close>

lemma fold_row:
  assumes "fold_attention attend query keys single validated = Inr out" and "length single = 32"
    and "n < 16" and "u < 2" and "i < 16"
  shows "out ! n ! (16 * u + i) = attend i (query ! n ! (16 * u + i))
      (masked_keys (single ! i) (take 2080 (drop (2080 * u) (keys ! (n div 4)))))"
proof -
  let ?S = "sdpa attend (fold_query query) (fold_keys keys) single"
  have q: "length query = 16" "\<And>rows. rows \<in> set query \<Longrightarrow> length rows = 32"
    and k: "length keys = 4" "\<And>head. head \<in> set keys \<Longrightarrow> length head = 4160" and out: "out = unfold_output ?S"
    using assms(1) by (auto simp: fold_attention_def fold_refused_def split: if_splits)
  note fl = fold_query_length [OF q]
  obtain h j where hj: "n = 4 * h + j" "h < 4" "j < 4"
    by (rule that [of "n div 4" "n mod 4"]) (use assms(3) in auto)
  have qn: "length (query ! n) = 32" using q assms(3) by simp
  have kh: "length (keys ! h) = 4160" using k hj(2) by simp
  have m: "8 * h + j < 32" "8 * h + 4 + j < 32" "(8 * h + j) div 4 = 2 * h" "(8 * h + 4 + j) div 4 = 2 * h + 1" "n div 4 = h"
    using hj by auto
  note fq = fold_query_nth [OF q(1) hj(2,3)] and fk = fold_keys_nth [OF k(1) hj(2)]
  have S1: "?S ! (8 * h + j) ! i = attend i (query ! n ! i) (masked_keys (single ! i) (take 2080 (keys ! h)))"
    and l1: "length (?S ! (8 * h + j)) = 32"
    using sdpa_at [of "8 * h + j" "fold_query query" single i attend "fold_keys keys"] fl m fq fk assms(2,5) hj(1) qn by simp_all
  have S2: "?S ! (8 * h + 4 + j) ! i = attend i (query ! n ! (16 + i)) (masked_keys (single ! i) (drop 2080 (keys ! h)))"
    and l2: "length (?S ! (8 * h + 4 + j)) = 32"
    using sdpa_at [of "8 * h + 4 + j" "fold_query query" single i attend "fold_keys keys"] fl m fq fk assms(2,5) hj(1) qn
    by (simp_all add: nth_append)
  have row: "out ! n = take 16 (?S ! (8 * h + j)) @ take 16 (?S ! (8 * h + 4 + j))"
    unfolding out hj(1) by (rule unfold_nth [OF hj(2,3)])
  have "u = 0 \<or> u = 1" using assms(4) by auto
  then show ?thesis using S1 S2 l1 l2 assms(5) kh by (auto simp: row nth_append m(5))
qed

subsection \<open>The user alone\<close>

text \<open>A single-user call of user u: its sixteen query rows on top of the tile, its history and its own rows of the block
  on the key axis, whatever fills the rest.\<close>

definition alone_operands ::
  "nat \<Rightarrow> 'q list list \<Rightarrow> (nat \<Rightarrow> nat \<Rightarrow> 'k list) \<Rightarrow> (nat \<Rightarrow> 'k list) \<Rightarrow> 'q list list \<Rightarrow> 'k list list \<Rightarrow> bool" where
  "alone_operands u query cache live query' keys' \<longleftrightarrow> length query' = 16
     \<and> (\<forall>n < 16. length (query' ! n) = 32 \<and> take 16 (query' ! n) = take 16 (drop (16 * u) (query ! n)))
     \<and> (\<forall>h < 4. length (keys' ! h) = 2080
          \<and> take 2064 (keys' ! h) = cache h u @ take 16 (drop (16 * u) (live h)))"

text \<open>C17: the fold drafts each user as it drafts alone. Take the packed pair's operands - per head the keys assembled
  by the pair's plan from the two users' 2048 cached rows and the block's rows - and run the folded call:
  for each of the two users, every head and each of its sixteen rows, the unfolded output is what the
  single-user call answers over that user's own operands and the mask of its own served bucket, for
  any kernel that computes a row from its place in the tile, the query row and the key axis in place
  with the masked keys' values unread. Nothing of the other user and nothing of the fillers enters.\<close>

theorem fold_drafts_as_alone:
  assumes "fold_attention attend query keys single validated = Inr out" and "fold_mask [2048, 2048] 16 = Inr single"
    and "key_value_plan [2048, 2048] 16 32 = Inr (plan, spans, axis)"
    and "\<forall>h < 4. keys ! h = packed_keys (cache h) (live h) (fill h) plan
      \<and> length (cache h 0) = 2048 \<and> length (cache h 1) = 2048 \<and> length (live h) = 32
      \<and> 16 \<le> length (fill h 0) \<and> 16 \<le> length (fill h 1)"
    and "proposal_inputs seed position 2048 16 2048 = Inr solo" and "alone_operands u query cache live query' keys'"
    and "u < 2" and "n < 16" and "i < 16"
  shows "out ! n ! (16 * u + i) = sdpa attend query' keys' (di_mask solo) ! n ! i"
proof -
  let ?h = "n div 4" and ?row = "map (allowed 2048 16 i) [0..<2080]"
  have h: "?h < 4" using assms(8) by auto
  have s: "batched_attention_mask [2048] 16 32 = Inr single" using assms(2) by (simp add: fold_mask_def folds_def)
  note single = single_row [OF s assms(9)] and solo = solo_row [OF assms(5,9)]
  have len: "length (cache ?h 0) = 2048" "length (cache ?h 1) = 2048" "length (live ?h) = 32"
      "16 \<le> length (fill ?h 0)" "16 \<le> length (fill ?h 1)"
    and k: "keys ! ?h = packed_keys (cache ?h) (live ?h) (fill ?h) plan" using assms(4) h by blast+
  have u: "u = 0 \<or> u = 1" using assms(7) by auto
  have "keys ! ?h = segment_keys (cache ?h) (live ?h) (fill ?h) 0 @ segment_keys (cache ?h) (live ?h) (fill ?h) 1"
    unfolding k by (rule pair_keys [OF assms(3) len(1,2)])
  then have own: "take 2080 (drop (2080 * u) (keys ! ?h))
      = (cache ?h u @ take 16 (drop (16 * u) (live ?h))) @ take 16 (fill ?h u)"
    using u len by (auto simp: segment_keys_def)
  have q': "length query' = 16" "length (query' ! n) = 32" "take 16 (query' ! n) = take 16 (drop (16 * u) (query ! n))"
    and k': "length (keys' ! ?h) = 2080" "take 2064 (keys' ! ?h) = cache ?h u @ take 16 (drop (16 * u) (live ?h))"
    using assms(6,8) h by (simp_all add: alone_operands_def)
  have "query ! n \<in> set query" using assms(1,8) by (auto simp: fold_attention_def fold_refused_def split: if_splits)
  then have "length (query ! n) = 32" using assms(1) by (auto simp: fold_attention_def fold_refused_def split: if_splits)
  then have row: "query' ! n ! i = query ! n ! (16 * u + i)"
    using arg_cong [OF q'(3), of "\<lambda>xs. xs ! i"] assms(7,9) by simp
  have "masked_keys ?row (take 2064 (keys' ! ?h) @ drop 2064 (keys' ! ?h))
      = masked_keys ?row (take 2064 (keys' ! ?h) @ take 16 (fill ?h u))"
    by (rule masked_own) (use k'(1) len u in auto)
  then have "masked_keys ?row (keys' ! ?h) = masked_keys ?row (take 2080 (drop (2080 * u) (keys ! ?h)))"
    unfolding own k'(2) [symmetric] by simp
  then show ?thesis
    using sdpa_at(1) [of n query' "di_mask solo" i attend keys'] q'(1,2) assms(8,9) row solo
      fold_row [OF assms(1) single(2) assms(8,7,9)] single(1) by simp
qed

subsection \<open>Two users drafting\<close>

definition demo_query :: "int list list" where
  "demo_query = replicate 16 (map int [0..<32])"

definition demo_cache :: "nat \<Rightarrow> nat \<Rightarrow> int list" where
  "demo_cache h u = replicate 2048 (int u + 1)"

definition demo_fill :: "nat \<Rightarrow> nat \<Rightarrow> int list" where
  "demo_fill h u = replicate 16 (- 1)"

definition demo_live :: "nat \<Rightarrow> int list" where
  "demo_live h = map int [0..<32]"

definition demo_keys :: "int list list" where
  "demo_keys = map (\<lambda>h. segment_keys (demo_cache h) (demo_live h) (demo_fill h) 0
     @ segment_keys (demo_cache h) (demo_live h) (demo_fill h) 1) [0..<4]"

text \<open>The second user alone, with other rows under its own.\<close>

definition solo_query :: "int list list" where
  "solo_query = replicate 16 (map int [16..<32] @ replicate 16 0)"

definition solo_keys :: "int list list" where
  "solo_keys = map (\<lambda>h. demo_cache h 1 @ map int [16..<32] @ replicate 16 0) [0..<4]"

definition last_visible :: "nat \<Rightarrow> int \<Rightarrow> int option list \<Rightarrow> int" where
  "last_visible r q ks = int r + q + fold (\<lambda>k a. case k of None \<Rightarrow> a div 2 | Some x \<Rightarrow> x) ks 0"

theorem fold_drafts_as_alone_witness:
  "projr (fold_attention last_visible demo_query demo_keys (projr (fold_mask [2048, 2048] 16)) True) ! 5 ! 19
   = sdpa last_visible solo_query solo_keys (di_mask (projr (proposal_inputs 7 5000 2048 16 2048))) ! 5 ! 3"
proof -
  have "returned (fold_mask [2048, 2048] 16)"
    by (simp add: fold_mask_def folds_def batched_attention_mask_def segments_def returned_def Let_def)
  note single = returned_projr [OF this]
  have s: "batched_attention_mask [2048] 16 32 = Inr (projr (fold_mask [2048, 2048] 16))"
    using single by (simp add: fold_mask_def folds_def)
  have "returned (key_value_plan [2048, 2048] 16 32)"
    by (simp add: key_value_plan_def segments_def span_pieces_def aligned_def returned_def Let_def)
  then obtain plan spans axis where plan: "key_value_plan [2048, 2048] 16 32 = Inr (plan, spans, axis)"
    using returned_projr by (metis prod_cases3)
  have "returned (draft_attention_mask 2048 16 32)"
    by (simp add: draft_attention_mask_def draft_mask_def Let_def returned_def)
  then obtain own where own: "draft_attention_mask 2048 16 32 = Inr own" using returned_projr by blast
  have "returned (proposal_inputs 7 5000 2048 16 2048)"
    unfolding proposal_inputs_def own by (simp add: rope_tables_def returned_def)
  note solo = returned_projr [OF this]
  obtain spans' where mask: "tabulate 32 2080 spans' = projr (fold_mask [2048, 2048] 16)"
    using s by (auto simp: batched_attention_mask_def segments_def Let_def aligned_def)
  have "\<not> fold_refused demo_query demo_keys (projr (fold_mask [2048, 2048] 16))"
    unfolding mask [symmetric]
    by (auto simp: fold_refused_def demo_query_def demo_keys_def tabulate_def segment_keys_def demo_cache_def
        demo_live_def demo_fill_def)
  then have out: "fold_attention last_visible demo_query demo_keys (projr (fold_mask [2048, 2048] 16)) True
      = Inr (projr (fold_attention last_visible demo_query demo_keys (projr (fold_mask [2048, 2048] 16)) True))"
    by (simp add: fold_attention_def)
  have keys: "\<forall>h < 4. demo_keys ! h = packed_keys (demo_cache h) (demo_live h) (demo_fill h) plan
      \<and> length (demo_cache h 0) = 2048 \<and> length (demo_cache h 1) = 2048 \<and> length (demo_live h) = 32
      \<and> 16 \<le> length (demo_fill h 0) \<and> 16 \<le> length (demo_fill h 1)"
  proof (intro allI impI)
    fix h :: nat assume "h < 4"
    have len: "length (demo_cache h u) = 2048" for u by (simp add: demo_cache_def)
    show "demo_keys ! h = packed_keys (demo_cache h) (demo_live h) (demo_fill h) plan
      \<and> length (demo_cache h 0) = 2048 \<and> length (demo_cache h 1) = 2048 \<and> length (demo_live h) = 32
      \<and> 16 \<le> length (demo_fill h 0) \<and> 16 \<le> length (demo_fill h 1)"
      unfolding pair_keys [OF plan len len] using \<open>h < 4\<close>
      by (simp add: demo_keys_def len demo_live_def demo_fill_def)
  qed
  have alone: "alone_operands 1 demo_query demo_cache demo_live solo_query solo_keys"
    by (simp add: alone_operands_def demo_query_def demo_cache_def demo_live_def solo_query_def solo_keys_def take_map drop_map)
  show ?thesis using fold_drafts_as_alone [OF out single plan keys solo alone, of 5 3] by simp
qed

end
