(* ===== verification/PrefillCapture.thy ===== *)
theory PrefillCapture
  imports StateOps
begin

text \<open>
  The draft features kept of a prefill, \<open>scripts/ci/dflash_prefill_window.py\<close>: the tail window of a prompt,
  the ledger of native chunks, and \<open>PrefillWindowCapture\<close> over the segments of a suspended prefill; with the
  per-chunk layer capture of \<open>target_features.py\<close>.

  A layer's output is the list of its rows. The model's calls of the wrapped entry points during a segment
  are a list of \<open>native_call\<close>s; a call that raises ends the step. Tensor types, storage identities, the optional
  host comparison of snapshots and the failure of a release are left out.
\<close>

record window =
  wi_start :: int
  wi_end :: int
  wi_rows :: int

definition prefill_window :: "int \<Rightarrow> int \<Rightarrow> window result" where
  "prefill_window maximum position =
     (if \<not> (1 \<le> position \<and> position \<le> maximum) then Inl ValueError
      else Inr \<lparr>wi_start = max 0 (position - 2048), wi_end = position, wi_rows = min position 2048\<rparr>)"

definition chunk_window :: "int \<Rightarrow> int \<Rightarrow> int \<Rightarrow> int \<Rightarrow> window result" where
  "chunk_window maximum position chunk_start valid_rows = rbind (prefill_window maximum position) (\<lambda>w.
     if chunk_start < 0 \<or> valid_rows < 1 \<or> chunk_start + valid_rows > position then Inl ValueError
     else let first = max (wi_start w) chunk_start; last = min position (chunk_start + valid_rows)
          in Inr \<lparr>wi_start = first, wi_end = max first last, wi_rows = max 0 (last - first)\<rparr>)"

definition RESUME_CHUNK :: int where "RESUME_CHUNK = 2048"

definition resume_start :: "int \<Rightarrow> int \<Rightarrow> int result" where
  "resume_start position start =
     (if start < 0 \<or> start mod RESUME_CHUNK \<noteq> 0 \<or> (start \<noteq> 0 \<and> start > position - RESUME_CHUNK)
      then Inl ValueError else Inr start)"

text \<open>A recorded chunk.\<close>

record native_chunk =
  nc_start :: int
  nc_rows :: int
  nc_bucket :: int
  nc_retained :: int

definition chunk_refused :: "int \<Rightarrow> native_chunk \<Rightarrow> bool" where
  "chunk_refused cursor ch \<longleftrightarrow> nc_start ch \<noteq> cursor \<or> \<not> (32 \<le> nc_bucket ch \<and> nc_bucket ch \<le> 2048)
     \<or> nc_bucket ch mod 32 \<noteq> 0 \<or> \<not> (1 \<le> nc_rows ch \<and> nc_rows ch \<le> nc_bucket ch)"

fun chunk_pieces :: "int \<Rightarrow> int \<Rightarrow> int \<Rightarrow> native_chunk list \<Rightarrow> (int \<times> window list) result" where
  "chunk_pieces maximum position cursor [] = Inr (cursor, [])"
| "chunk_pieces maximum position cursor (ch # chs) =
     (if chunk_refused cursor ch then Inl ValueError
      else rbind (chunk_window maximum position (nc_start ch) (nc_rows ch)) (\<lambda>piece.
           if nc_retained ch \<noteq> wi_rows piece then Inl ValueError
           else rbind (chunk_pieces maximum position (cursor + nc_rows ch) chs) (\<lambda>(last, pieces).
                Inr (last, if wi_rows piece \<noteq> 0 then piece # pieces else pieces))))"

definition validate_prefill_chunks :: "int \<Rightarrow> int \<Rightarrow> native_chunk list \<Rightarrow> int \<Rightarrow> window list result" where
  "validate_prefill_chunks maximum position chunks start =
     rbind (resume_start position start) (\<lambda>first.
     rbind (chunk_pieces maximum position first chunks) (\<lambda>(last, pieces).
     rbind (prefill_window maximum position) (\<lambda>w.
     if last \<noteq> position \<or> sum_list (map wi_rows pieces) \<noteq> wi_rows w then Inl ValueError else Inr pieces)))"

subsection \<open>One chunk's features\<close>

definition snapshot_prefill_tail :: "int \<Rightarrow> int \<Rightarrow> int \<Rightarrow> int \<Rightarrow> 'f list \<Rightarrow> 'f list result" where
  "snapshot_prefill_tail maximum position chunk_start valid_rows rows =
     rbind (chunk_window maximum position chunk_start valid_rows) (\<lambda>w.
       if wi_rows w = 0 \<or> int (length rows) < valid_rows then Inl ValueError
       else Inr (slice (nat (wi_start w - chunk_start)) (nat (wi_end w - chunk_start)) rows))"

text \<open>\<open>LayerOutputCapture\<close> around one forward: every selected layer's output is kept once; the others pass.\<close>

fun layer_records ::
  "nat list \<Rightarrow> ('f list \<Rightarrow> 'f list result) \<Rightarrow> (nat \<times> 'f list) list \<Rightarrow> (nat \<times> 'f list) list
     \<Rightarrow> (nat \<times> 'f list) list result" where
  "layer_records taps snapshot records [] = Inr records"
| "layer_records taps snapshot records ((layer, rows) # forward) =
     (if layer \<notin> set taps then layer_records taps snapshot records forward
      else if map_of records layer \<noteq> None then Inl RuntimeError
      else rbind (snapshot rows) (\<lambda>kept. layer_records taps snapshot (dict_set layer kept records) forward))"

text \<open>\<open>outcome\<close> is whether the forward itself returned.\<close>

definition layer_outputs ::
  "nat \<Rightarrow> nat list \<Rightarrow> ('f list \<Rightarrow> 'f list result) \<Rightarrow> (nat \<times> 'f list) list \<Rightarrow> unit result \<Rightarrow> 'f list list result" where
  "layer_outputs layers taps snapshot forward outcome =
     (if taps = [] \<or> \<not> distinct taps \<or> \<not> list_all (\<lambda>i. i < layers) taps then Inl ValueError
      else rbind (layer_records taps snapshot [] forward) (\<lambda>records. rbind outcome (\<lambda>_.
           if set (map fst records) \<noteq> set taps then Inl AssertionError
           else Inr (map (\<lambda>tap. the (map_of records tap)) taps))))"

subsection \<open>The capture\<close>

text \<open>
  \<open>pc_children\<close> holds, per chunk with rows in the window, each tap's kept rows; \<open>pc_route\<close> is
  \<open>records_prefix_route\<close>, whether the prefix-reuse route is wrapped.
\<close>

record 'f prefill_capture =
  pc_position :: int
  pc_layers :: nat
  pc_taps :: "nat list"
  pc_start :: int
  pc_route :: bool
  pc_chunks :: "native_chunk list"
  pc_children :: "'f list list list"
  pc_result :: "'f list list option"
  pc_cursor :: int
  pc_started :: bool
  pc_active :: bool
  pc_complete :: bool
  pc_closed :: bool
  pc_segments :: nat
  pc_slot :: "int option"
  pc_segment_slot :: "int option"
  pc_segment_calls :: nat

type_synonym ('f, 'a) capture_op = "('f prefill_capture, 'a) op"

text \<open>\<open>callable_route\<close> says whether the model has the prefix-reuse route; that it has its chunk forward, which the
  constructor also checks, is taken for granted.\<close>

definition capture_init ::
  "int \<Rightarrow> nat \<Rightarrow> nat list \<Rightarrow> bool \<Rightarrow> int \<Rightarrow> int \<Rightarrow> bool \<Rightarrow> 'f prefill_capture result" where
  "capture_init maximum layers taps callable_route position start prefix_route =
     rbind (prefill_window maximum position) (\<lambda>_.
     rbind (resume_start position start) (\<lambda>first.
     let route = prefix_route \<and> callable_route
     in if first \<noteq> 0 \<and> \<not> route then Inl ValueError
        else Inr \<lparr>pc_position = position, pc_layers = layers, pc_taps = taps, pc_start = first, pc_route = route,
          pc_chunks = [], pc_children = [], pc_result = None, pc_cursor = first, pc_started = False, pc_active = False,
          pc_complete = False, pc_closed = False, pc_segments = 0, pc_slot = None, pc_segment_slot = None,
          pc_segment_calls = 0\<rparr>))"

text \<open>The factory the lifecycle is given: the route only with sticky sessions.\<close>

definition capture_factory ::
  "int \<Rightarrow> nat \<Rightarrow> nat list \<Rightarrow> bool \<Rightarrow> bool \<Rightarrow> int \<Rightarrow> int \<Rightarrow> 'f prefill_capture result" where
  "capture_factory maximum layers taps callable_route sticky position start =
     (if \<not> sticky then if start \<noteq> 0 then Inl ValueError else capture_init maximum layers taps callable_route position 0 False
      else capture_init maximum layers taps callable_route position start True)"

definition capture_close :: "('f, unit) capture_op" where
  "capture_close c =
     (if pc_active c then (Inl ValueError, c)
      else if pc_closed c then (Inr (), c)
      else (Inr (), c\<lparr>pc_closed := True, pc_children := [], pc_result := None\<rparr>))"

subsection \<open>The wrapped entry points\<close>

text \<open>The native chunk call: its features are kept if its rows reach the window. \<open>forward\<close> is the layers'
  outputs in the order they ran, \<open>outcome\<close> whether the call returned.\<close>

definition wrapped_chunk ::
  "int \<Rightarrow> int \<Rightarrow> int \<Rightarrow> int \<Rightarrow> (nat \<times> 'f list) list \<Rightarrow> unit result \<Rightarrow> ('f, unit) capture_op" where
  "wrapped_chunk maximum valid_len chunk_start bucket forward outcome c =
     (if \<not> pc_active c \<or> chunk_start \<noteq> pc_cursor c then (Inl ValueError, c)
      else case chunk_window maximum (pc_position c) chunk_start valid_len of
        Inl e \<Rightarrow> (Inl e, c)
      | Inr piece \<Rightarrow>
          if bucket mod 32 \<noteq> 0 \<or> \<not> (valid_len \<le> bucket \<and> bucket \<le> 2048) then (Inl ValueError, c)
          else case (if wi_rows piece = 0 then rbind outcome (\<lambda>_. Inr [])
                     else rbind (layer_outputs (pc_layers c) (pc_taps c)
                              (snapshot_prefill_tail maximum (pc_position c) chunk_start valid_len) forward outcome)
                            (\<lambda>outputs. Inr [outputs])) of
                 Inl e \<Rightarrow> (Inl e, c)
               | Inr children \<Rightarrow> (Inr (), c\<lparr>pc_children := pc_children c @ children,
                   pc_chunks := pc_chunks c @ [\<lparr>nc_start = chunk_start, nc_rows = valid_len, nc_bucket = bucket,
                     nc_retained = wi_rows piece\<rparr>],
                   pc_cursor := pc_cursor c + valid_len\<rparr>))"

text \<open>A batched call names one slot, and the absolute start it resumes at or None.\<close>

datatype batched_entry = Paged_Slots | Paged_Range | Prefix_Route

definition prefill_slot :: "int list \<Rightarrow> int result" where
  "prefill_slot slots = (case slots of [slot] \<Rightarrow> if slot < 0 then Inl ValueError else Inr slot | _ \<Rightarrow> Inl ValueError)"

definition resumed_start :: "int list option \<Rightarrow> int option" where
  "resumed_start starts = (case starts of Some [start] \<Rightarrow> Some start | _ \<Rightarrow> None)"

definition call_starts :: "batched_entry \<Rightarrow> bool \<Rightarrow> int list option \<Rightarrow> int list option result" where
  "call_starts entry positional starts = (if entry = Prefix_Route \<and> positional then Inl ValueError else Inr starts)"

definition check_resumed_call :: "'f prefill_capture \<Rightarrow> int \<Rightarrow> batched_entry \<Rightarrow> int list option \<Rightarrow> unit result" where
  "check_resumed_call c slot entry starts =
     (let moved = pc_slot c \<noteq> None \<and> pc_slot c \<noteq> Some slot
      in if entry = Prefix_Route
         then (if resumed_start starts \<noteq> Some (pc_cursor c) then Inl ValueError else Inr ())
         else if pc_start c \<noteq> 0 \<and> pc_cursor c = pc_start c then Inl ValueError
         else if pc_cursor c \<le> 0 \<and> \<not> moved then Inr ()
         else if entry = Paged_Range \<and> pc_cursor c > 0 \<and> resumed_start starts = Some (pc_cursor c) then Inr ()
         else Inl ValueError)"

definition wrapped_slots :: "batched_entry \<Rightarrow> int list \<Rightarrow> bool \<Rightarrow> int list option \<Rightarrow> ('f, unit) capture_op" where
  "wrapped_slots entry slots positional starts c =
     (if entry = Prefix_Route \<and> \<not> pc_route c then (Inr (), c)
      else if \<not> pc_active c \<or> pc_segment_calls c \<noteq> 0 then (Inl ValueError, c)
      else case rbind (prefill_slot slots) (\<lambda>slot. rbind (call_starts entry positional starts) (\<lambda>given.
                rbind (check_resumed_call c slot entry given) (\<lambda>_. Inr slot))) of
             Inl e \<Rightarrow> (Inl e, c)
           | Inr slot \<Rightarrow> (Inr (), c\<lparr>pc_segment_calls := pc_segment_calls c + 1, pc_slot := Some slot,
                                pc_segment_slot := Some slot\<rparr>))"

text \<open>What the model does during a segment.\<close>

datatype 'f native_call =
  Batched batched_entry "int list" bool "int list option"
| Chunk int int int "(nat \<times> 'f list) list" "unit result"

definition run_call :: "int \<Rightarrow> 'f native_call \<Rightarrow> ('f, unit) capture_op" where
  "run_call maximum call = (case call of
     Batched entry slots positional starts \<Rightarrow> wrapped_slots entry slots positional starts
   | Chunk valid_len chunk_start bucket forward outcome \<Rightarrow> wrapped_chunk maximum valid_len chunk_start bucket forward outcome)"

fun run_calls :: "int \<Rightarrow> 'f native_call list \<Rightarrow> ('f, unit) capture_op" where
  "run_calls maximum [] = op_return ()"
| "run_calls maximum (call # calls) = op_then (run_call maximum call) (run_calls maximum calls)"

subsection \<open>Segments\<close>

definition segment_end :: "int \<Rightarrow> ('f, unit) capture_op" where
  "segment_end maximum c =
     (if pc_cursor c < pc_position c then (Inr (), c)
      else case validate_prefill_chunks maximum (pc_position c) (pc_chunks c) (pc_start c) of
        Inl e \<Rightarrow> (Inl e, c)
      | Inr _ \<Rightarrow> if pc_slot c \<noteq> None \<and> pc_segment_slot c = None then (Inl ValueError, c)
                 else (Inr (), c\<lparr>pc_complete := True\<rparr>))"

text \<open>\<open>with capture.segment(): body\<close>, where the body also changes the rest of the state, \<open>'w\<close>; \<open>nested\<close>
  says that the model already carries a capture.\<close>

definition on_capture :: "('f, 'a) capture_op \<Rightarrow> ('f prefill_capture \<times> 'w, 'a) op" where
  "on_capture m = (\<lambda>(c, w). case m c of (r, c') \<Rightarrow> (r, (c', w)))"

definition run_segment ::
  "int \<Rightarrow> bool \<Rightarrow> ('f prefill_capture \<times> 'w, 'a) op \<Rightarrow> ('f prefill_capture \<times> 'w, 'a) op" where
  "run_segment maximum nested body = (\<lambda>(c, w).
     if pc_closed c \<or> pc_complete c \<or> nested then (Inl ValueError, (c, w))
     else case op_bind body (\<lambda>x. op_then (on_capture (segment_end maximum)) (op_return x))
            (c\<lparr>pc_started := True, pc_active := True, pc_segment_calls := 0, pc_segment_slot := None,
               pc_segments := pc_segments c + 1\<rparr>, w) of
       (Inl e, (c', w')) \<Rightarrow> (Inl e, (snd (capture_close (c'\<lparr>pc_active := False\<rparr>)), w'))
     | (Inr x, (c', w')) \<Rightarrow> (Inr x, (c'\<lparr>pc_active := False\<rparr>, w')))"

text \<open>\<open>capture()\<close>: the whole prompt in one segment.\<close>

definition capture_whole ::
  "int \<Rightarrow> bool \<Rightarrow> ('f prefill_capture \<times> 'w, 'a) op \<Rightarrow> ('f prefill_capture \<times> 'w, 'a) op" where
  "capture_whole maximum nested body =
     op_then (op_refuse (\<lambda>(c, w). pc_started c) ValueError)
     (op_bind (run_segment maximum nested body) (\<lambda>x (c, w).
        if pc_complete c then (Inr x, (c, w))
        else case validate_prefill_chunks maximum (pc_position c) (pc_chunks c) (pc_start c) of
               Inl e \<Rightarrow> (Inl e, (snd (capture_close c), w))
             | Inr _ \<Rightarrow> (Inr x, (c, w))))"

text \<open>The kept features of every tap, the chunks' joined in order.\<close>

definition capture_outputs :: "int \<Rightarrow> ('f, 'f list list) capture_op" where
  "capture_outputs maximum c =
     (if \<not> pc_complete c \<or> pc_active c \<or> pc_closed c then (Inl ValueError, c)
      else case pc_result c of
        Some result \<Rightarrow> (Inr result, c)
      | None \<Rightarrow>
          (case rbind (prefill_window maximum (pc_position c)) (\<lambda>w.
              let merged = map (\<lambda>index. concat (map (\<lambda>child. child ! index) (pc_children c))) [0..<length (pc_taps c)]
              in if list_all (\<lambda>rows. int (length rows) = wi_rows w) merged then Inr merged else Inl AssertionError) of
             Inl e \<Rightarrow> (Inl e, snd (capture_close c))
           | Inr merged \<Rightarrow> (Inr merged, c\<lparr>pc_result := Some merged\<rparr>)))"

end
