(* ===== verification/ServingLifecycle.thy ===== *)
theory ServingLifecycle
  imports WorkerHook RequestFactory PrefillCapture
begin

text \<open>
  From a prompt's prefill to its decoding, \<open>scripts/ci/serving_lifecycle.py\<close>: the routing of every step, the
  prefill gate, the prefill's capture over its chunks, and the four ways a sampled prefill ends; with the worker's
  side of the request quarantine (\<open>serving_request_quarantine.py\<close>).

  \<open>lc_worker\<close> is the worker under the hook; \<open>lc_hook\<close> says whether a hook serves it, and without one its list
  of bridges is empty. \<open>lc_quarantined\<close> is the pending list of the quarantine's holder. What vLLM and the model do in
  a step is given with the step: the new requests, the native calls, whether the sampler is deferred. Log lines,
  the fixture epochs of the prestage and the replacement of the worker's methods are left out.
\<close>

text \<open>vLLM's data of a new request; \<open>ar_extra\<close> is any multimodal feature, prompt embedding or LoRA.\<close>

record arrival =
  ar_prompt :: "int list option"
  ar_computed :: int
  ar_extra :: bool
  ar_sampling :: sampling

datatype quarantine_reason = Sampling_Contract | Bridge_Refused

record ('s, 'r, 'f) lifecycle =
  lc_request :: "string option"
  lc_gate :: "string option"
  lc_decoding :: "string option"
  lc_decoding_ids :: "string list"
  lc_capture :: "'f prefill_capture option"
  lc_hook :: bool
  lc_worker :: "('s, 'r) worker"
  lc_pending :: bool
  lc_failed :: bool
  lc_closed :: bool
  lc_ignore_eos :: bool
  lc_chunk :: bool
  lc_deferred :: "bool list"
  lc_refused :: bool
  lc_quarantined :: "(string \<times> quarantine_reason) list"

type_synonym ('s, 'r, 'f, 'a) lifecycle_op = "(('s, 'r, 'f) lifecycle, 'a) op"

text \<open>What the lifecycle is built with. \<open>sv_quarantine\<close>: the scheduler's consumer is installed.\<close>

record ('s, 'r, 'f) served_by =
  sv_any_request :: bool
  sv_sticky :: bool
  sv_quarantine :: bool
  sv_legacy :: bool
  sv_eos :: "int list"
  sv_ceiling :: int
  sv_model_len :: "int option"
  sv_maximum :: int
  sv_layers :: nat
  sv_taps :: "nat list"
  sv_route :: bool
  sv_packed :: packed_config
  sv_device :: "('s, 'r) device"
  sv_sentinels :: bool
  sv_forced :: "int option"
  sv_bridge :: "string \<Rightarrow> 'f prefill_capture \<Rightarrow> ('s, 'r, bridge) worker_op"
  sv_release :: "nat \<Rightarrow> ('s, 'r, unit) rig_op option"
  sv_idle :: "('s, 'r, unit) worker_op option"

text \<open>One step and what its surroundings answer.\<close>

record ('s, 'r, 'f) step_given =
  sg_step :: sched_step
  sg_arrival :: "string \<Rightarrow> arrival"
  sg_grant :: "string \<Rightarrow> int option"
  sg_host :: "('s, 'r) host"
  sg_cancels :: cancels
  sg_unsampled :: bool
  sg_mixed_ok :: bool
  sg_calls :: "'f native_call list"
  sg_deferred :: bool
  sg_nested :: bool
  sg_released :: "unit result"

subsection \<open>Parts of the lifecycle\<close>

definition in_worker :: "('s, 'r, 'a) worker_op \<Rightarrow> ('s, 'r, 'f, 'a) lifecycle_op" where
  "in_worker m lc = (case m (lc_worker lc) of (r, w) \<Rightarrow> (r, lc\<lparr>lc_worker := w\<rparr>))"

text \<open>The property \<open>request_id\<close>: its setter also moves the prefill gate.\<close>

definition set_request :: "string option \<Rightarrow> ('s, 'r, 'f) lifecycle \<Rightarrow> ('s, 'r, 'f) lifecycle" where
  "set_request r lc = lc\<lparr>lc_request := r, lc_gate := r\<rparr>"

definition lifecycle_check :: "('s, 'r, 'f, unit) lifecycle_op" where
  "lifecycle_check = op_refuse (\<lambda>lc. lc_failed lc \<or> lc_closed lc) ValueError"

definition displace_resident :: "('s, 'r) worker \<Rightarrow> ('s, 'r) worker" where
  "displace_resident w = w\<lparr>wk_world := (wk_world w)\<lparr>wd_native := note_prefill (wd_native (wk_world w))\<rparr>\<rparr>"

text \<open>\<open>self.capture.close(); self.capture = None\<close>.\<close>

definition close_capture :: "('s, 'r, 'f, unit) lifecycle_op" where
  "close_capture lc = (case lc_capture lc of
     None \<Rightarrow> (Inl TypeError, lc)
   | Some c \<Rightarrow> (case capture_close c of
        (Inl e, c') \<Rightarrow> (Inl e, lc\<lparr>lc_capture := Some c'\<rparr>)
      | (Inr _, c') \<Rightarrow> (Inr (), lc\<lparr>lc_capture := None\<rparr>)))"

text \<open>The worker's own \<open>execute_model\<close>: the hook's when one is installed, else the native runner's. None is a
  deferred sampler.\<close>

definition original_execute ::
  "('s, 'r, 'f) served_by \<Rightarrow> ('s, 'r, 'f) step_given \<Rightarrow> bool \<Rightarrow> ('s, 'r, hook_answer option) worker_op" where
  "original_execute sv sg live =
     op_bind (if live then hook_execute (sv_device sv) (sg_host sg) (sv_sentinels sv) (sv_forced sv) (sg_cancels sg)
                (sv_packed sv) (sg_unsampled sg) (sg_mixed_ok sg) (sg_step sg)
              else op_then (dv_native (sg_host sg) (sg_step sg)) (op_return Native))
       (\<lambda>answer. op_return (if answer = Native \<and> sg_deferred sg then None else Some answer))"

definition run_original :: "('s, 'r, 'f) served_by \<Rightarrow> ('s, 'r, 'f) step_given \<Rightarrow> ('s, 'r, 'f, hook_answer option) lifecycle_op" where
  "run_original sv sg lc = in_worker (original_execute sv sg (lc_hook lc)) lc"

subsection \<open>Finished requests\<close>

definition detach_decoder :: "('s, 'r, 'f) served_by \<Rightarrow> ('s, 'r, 'f) step_given \<Rightarrow> string \<Rightarrow> ('s, 'r, 'f, unit) lifecycle_op" where
  "detach_decoder sv sg r =
     op_then (op_update (\<lambda>lc. lc\<lparr>lc_decoding_ids := remove1 r (lc_decoding_ids lc)\<rparr>))
      (\<lambda>lc. if lc_hook lc \<and> length (wk_bridges (lc_worker lc)) > 1
        then op_then (in_worker (hook_detach (sv_device sv) (sv_release sv) (sg_released sg) r))
              (\<lambda>lc. if lc_decoding lc \<noteq> Some r then (Inr (), lc)
                else if lc_decoding_ids lc = [] then (Inl IndexError, lc)
                else (Inr (), lc\<lparr>lc_decoding := Some (last (lc_decoding_ids lc))\<rparr>)) lc
        else (Inr (), lc))"

definition detach_finished :: "('s, 'r, 'f) served_by \<Rightarrow> ('s, 'r, 'f) step_given \<Rightarrow> ('s, 'r, 'f, unit) lifecycle_op" where
  "detach_finished sv sg lc = op_then
     (each (detach_decoder sv sg) (filter (\<lambda>r. r \<in> set (sc_finished (sg_step sg))) (lc_decoding_ids lc))) (op_return ()) lc"

definition release_decoders :: "('s, 'r, 'f) served_by \<Rightarrow> ('s, 'r, 'f) step_given \<Rightarrow> ('s, 'r, 'f, unit) lifecycle_op" where
  "release_decoders sv sg =
     op_then (\<lambda>lc. if lc_hook lc
        then op_then (in_worker (hook_close (sv_device sv) (sv_release sv) (sg_released sg)))
              (op_update (\<lambda>lc. lc\<lparr>lc_hook := False\<rparr>)) lc
        else (Inr (), lc))
      (op_update (\<lambda>lc. lc\<lparr>lc_decoding := None, lc_decoding_ids := []\<rparr>))"

definition release_prefill :: "('s, 'r, 'f, unit) lifecycle_op" where
  "release_prefill =
     op_then (op_refuse lc_pending ValueError)
     (op_then (\<lambda>lc. if lc_capture lc \<noteq> None then close_capture lc else (Inr (), lc))
      (op_update (set_request None)))"

definition release_request :: "('s, 'r, 'f) served_by \<Rightarrow> ('s, 'r, 'f) step_given \<Rightarrow> ('s, 'r, 'f, unit) lifecycle_op" where
  "release_request sv sg =
     op_then (op_refuse lc_pending ValueError) (op_then (release_decoders sv sg) release_prefill)"

text \<open>The releases of a step: every decoder that finished, the hook after its last, and the prefill.\<close>

definition release_finished :: "('s, 'r, 'f) served_by \<Rightarrow> ('s, 'r, 'f) step_given \<Rightarrow> ('s, 'r, 'f, unit) lifecycle_op" where
  "release_finished sv sg =
     (let finished = set (sc_finished (sg_step sg))
      in op_then (detach_finished sv sg)
        (op_then (\<lambda>lc. if lc_decoding lc \<in> Some ` finished \<and> lc_decoding_ids lc = [] then release_decoders sv sg lc
                       else (Inr (), lc))
         (\<lambda>lc. if lc_request lc \<in> Some ` finished then release_prefill lc else (Inr (), lc))))"

subsection \<open>The quarantine, from the worker\<close>

definition quarantine_register :: "bool \<Rightarrow> string \<Rightarrow> quarantine_reason \<Rightarrow> ('s, 'r, 'f, unit) lifecycle_op" where
  "quarantine_register installed r reason =
     op_then (op_refuse (\<lambda>_. r = [] \<or> \<not> installed) ValueError)
       (op_update (\<lambda>lc. lc\<lparr>lc_quarantined := dict_set r reason (lc_quarantined lc)\<rparr>))"

text \<open>The registered requests a step still schedules; a registered one that finished otherwise is forgotten. Their
  order is left out.\<close>

definition stranded :: "sched_step \<Rightarrow> (string \<times> quarantine_reason) list \<Rightarrow> string list" where
  "stranded step pending = filter (\<lambda>r. r \<notin> set (sc_finished step) \<and> (r \<in> set (sc_cached step) \<or> r \<in> fst ` set (sc_counts step)))
     (map fst pending)"

definition unconsumed :: "('s, 'r, 'f) served_by \<Rightarrow> ('s, 'r, 'f) step_given \<Rightarrow> ('s, 'r, 'f, unit) lifecycle_op" where
  "unconsumed sv sg =
     (if \<not> sv_quarantine sv then op_return ()
      else op_then (op_update (\<lambda>lc. lc\<lparr>lc_quarantined :=
              filter (\<lambda>(r, _). r \<notin> set (sc_finished (sg_step sg))) (lc_quarantined lc)\<rparr>))
            (op_refuse (\<lambda>lc. stranded (sg_step sg) (lc_quarantined lc) \<noteq> []) ValueError))"

subsection \<open>A prefill's chunks\<close>

text \<open>The step under the capture: the worker's step, then the calls the model made in it.\<close>

definition on_rest :: "('w, 'a) op \<Rightarrow> ('c \<times> 'w, 'a) op" where
  "on_rest m = (\<lambda>(c, w). case m w of (r, w') \<Rightarrow> (r, (c, w')))"

definition prefill_body ::
  "('s, 'r, 'f) served_by \<Rightarrow> ('s, 'r, 'f) step_given \<Rightarrow> bool \<Rightarrow> ('f prefill_capture \<times> ('s, 'r) worker, hook_answer option) op" where
  "prefill_body sv sg live =
     op_bind (on_rest (original_execute sv sg live)) (\<lambda>answer.
       op_then (on_capture (run_calls (sv_maximum sv) (sg_calls sg))) (op_return answer))"

definition run_captured ::
  "('s, 'r, 'f) served_by \<Rightarrow> ('s, 'r, 'f) step_given \<Rightarrow> bool \<Rightarrow> ('s, 'r, 'f, hook_answer option) lifecycle_op" where
  "run_captured sv sg whole lc = (case lc_capture lc of
     None \<Rightarrow> (Inl TypeError, lc)
   | Some c \<Rightarrow> (case (if whole then capture_whole else run_segment) (sv_maximum sv) (sg_nested sg)
                    (prefill_body sv sg (lc_hook lc)) (c, lc_worker lc) of
        (r, (c', w)) \<Rightarrow> (r, lc\<lparr>lc_capture := Some c', lc_worker := w\<rparr>)))"

definition after_prefill_chunk :: "hook_answer option \<Rightarrow> bool \<Rightarrow> ('s, 'r, 'f, hook_answer option) lifecycle_op" where
  "after_prefill_chunk answer whole =
     (let deferred = answer = None
      in op_then (op_refuse (\<lambda>lc. lc_deferred lc \<noteq> [] \<and> deferred \<noteq> last (lc_deferred lc)) ValueError)
        (op_then (op_update (\<lambda>lc. lc\<lparr>lc_deferred := lc_deferred lc @ [deferred]\<rparr>))
         (\<lambda>lc. if \<not> whole \<and> \<not> (case lc_capture lc of None \<Rightarrow> False | Some c \<Rightarrow> pc_complete c)
           then (Inr answer, lc\<lparr>lc_chunk := True\<rparr>)
           else if \<not> deferred then (Inl ValueError, lc)
           else (Inr None, lc\<lparr>lc_chunk := False, lc_pending := True\<rparr>))))"

text \<open>A continuation that wrote GDN slot 0, or whose slot is not known, displaced the resident engine.\<close>

definition displace_after_continuation :: "('s, 'r, 'f) lifecycle \<Rightarrow> ('s, 'r, 'f) lifecycle" where
  "displace_after_continuation lc =
     (case Option.bind (lc_capture lc) pc_segment_slot of
        Some slot \<Rightarrow> if slot > 0 then lc else lc\<lparr>lc_worker := displace_resident (lc_worker lc)\<rparr>
      | None \<Rightarrow> lc\<lparr>lc_worker := displace_resident (lc_worker lc)\<rparr>)"

definition continue_prefill :: "('s, 'r, 'f) served_by \<Rightarrow> ('s, 'r, 'f) step_given \<Rightarrow> ('s, 'r, 'f, hook_answer option) lifecycle_op" where
  "continue_prefill sv sg =
     op_bind (run_captured sv sg False) (\<lambda>answer.
       op_then (op_update displace_after_continuation) (after_prefill_chunk answer False))"

definition is_continuation :: "sched_step \<Rightarrow> ('s, 'r, 'f) lifecycle \<Rightarrow> bool" where
  "is_continuation step lc \<longleftrightarrow> (case (lc_capture lc, lc_request lc) of
     (Some c, Some r) \<Rightarrow> \<not> pc_complete c \<and> sc_new step = [] \<and> sc_cached step = [r] \<and> sc_total step \<noteq> 0
   | _ \<Rightarrow> False)"

subsection \<open>Admission\<close>

text \<open>Where a new request's prefill resumes: at a granted prefix hit, or 0.\<close>

definition granted_resume :: "int option \<Rightarrow> arrival \<Rightarrow> int option \<Rightarrow> int result" where
  "granted_resume grant a chunk = (case ar_prompt a of
     None \<Rightarrow> Inr 0
   | Some prompt \<Rightarrow>
       if ar_computed a \<le> 0 then Inr 0
       else if grant \<noteq> Some (ar_computed a) \<or> ar_computed a mod RESUME_CHUNK \<noteq> 0
         \<or> ar_computed a > int (length prompt) - RESUME_CHUNK
         \<or> chunk \<noteq> Some (int (length prompt) - ar_computed a) then Inl ValueError
       else Inr (ar_computed a))"

definition not_one_prefill :: "sched_step \<Rightarrow> ('s, 'r, 'f) lifecycle \<Rightarrow> bool" where
  "not_one_prefill step lc \<longleftrightarrow> lc_request lc \<noteq> None \<or> length (sc_new step) \<noteq> 1 \<or> sc_cached step \<noteq> []
     \<or> sc_drafts step \<noteq> [] \<or> sc_structured step \<or> sc_encoder step"

text \<open>The prompt, the start and the length of the first chunk of a text-only prompt the step carries alone.\<close>

definition arrival_shape :: "sched_step \<Rightarrow> string \<Rightarrow> arrival \<Rightarrow> int \<Rightarrow> (int list \<times> int) result" where
  "arrival_shape step r a resume =
     (case (ar_prompt a, map_of (sc_counts step) r) of
        (Some prompt, Some chunk) \<Rightarrow>
          if ar_computed a \<noteq> resume \<or> ar_extra a \<or> set (map fst (sc_counts step)) \<noteq> {r}
             \<or> \<not> (1 \<le> chunk \<and> chunk \<le> int (length prompt) - resume) \<or> sc_total step \<noteq> chunk then Inl ValueError
          else Inr (prompt, chunk)
      | _ \<Rightarrow> Inl ValueError)"

text \<open>A sampling contract that is refused ends the engine, or with a quarantine the request at its first token.\<close>

definition sampling_refused :: "('s, 'r, 'f) served_by \<Rightarrow> arrival \<Rightarrow> int list \<Rightarrow> bool result" where
  "sampling_refused sv a prompt =
     (case validate_request_sampling (sv_ceiling sv) (ar_sampling a) (int (length prompt)) (sv_eos sv) of
        Inr _ \<Rightarrow> Inr False
      | Inl ValueError \<Rightarrow> if sv_quarantine sv then Inr True else Inl ValueError
      | Inl e \<Rightarrow> Inl e)"

definition open_capture :: "('s, 'r, 'f) served_by \<Rightarrow> int \<Rightarrow> int \<Rightarrow> ('s, 'r, 'f, unit) lifecycle_op" where
  "open_capture sv position resume lc =
     (case capture_factory (sv_maximum sv) (sv_layers sv) (sv_taps sv) (sv_route sv) (sv_sticky sv) position resume of
        Inl e \<Rightarrow> (Inl e, lc)
      | Inr c \<Rightarrow> (if resume \<noteq> 0 \<and> \<not> pc_route c then Inl ValueError else Inr (), lc\<lparr>lc_capture := Some c\<rparr>))"

definition admit_prefill :: "('s, 'r, 'f) served_by \<Rightarrow> ('s, 'r, 'f) step_given \<Rightarrow> ('s, 'r, 'f, hook_answer option) lifecycle_op" where
  "admit_prefill sv sg =
     (let step = sg_step sg; r = hd (sc_new step); a = sg_arrival sg r
      in op_then (op_refuse (not_one_prefill step) ValueError)
        (op_bind (op_read (\<lambda>_. if sv_sticky sv then granted_resume (sg_grant sg r) a (map_of (sc_counts step) r) else Inr 0)) (\<lambda>resume.
         op_bind (op_read (\<lambda>_. arrival_shape step r a resume)) (\<lambda>(prompt, chunk).
         op_bind (op_read (\<lambda>_. sampling_refused sv a prompt)) (\<lambda>refused.
         op_then (op_update (\<lambda>lc. set_request (Some r) (lc\<lparr>lc_ignore_eos := sp_ignore_eos (ar_sampling a), lc_refused := refused\<rparr>)))
         (op_then (open_capture sv (int (length prompt)) resume)
         (op_then (op_update (\<lambda>lc. lc\<lparr>lc_deferred := [], lc_chunk := False, lc_worker := displace_resident (lc_worker lc)\<rparr>))
          (let whole = resume + chunk = int (length prompt)
           in op_bind (run_captured sv sg whole) (\<lambda>answer. after_prefill_chunk answer whole)))))))))"

subsection \<open>A step\<close>

definition route_step :: "('s, 'r, 'f) served_by \<Rightarrow> ('s, 'r, 'f) step_given \<Rightarrow> ('s, 'r, 'f, hook_answer option) lifecycle_op" where
  "route_step sv sg lc =
     (let step = sg_step sg
      in (if \<not> sv_legacy sv \<and> is_continuation step lc then continue_prefill sv sg
          else if lc_hook lc \<and> \<not> (sc_new step \<noteq> [] \<and> sc_cached step = []) then run_original sv sg
          else if \<not> lc_hook lc \<and> sc_total step = 0 then run_original sv sg
          else if sv_legacy sv \<and> is_continuation step lc then continue_prefill sv sg
          else if sc_new step = [] then run_original sv sg
          else admit_prefill sv sg) lc)"

text \<open>The idle moment: nothing decodes, nothing is in its prefill and the step schedules nothing.\<close>

definition idle_moment :: "('s, 'r, 'f) served_by \<Rightarrow> ('s, 'r, 'f) step_given \<Rightarrow> ('s, 'r, 'f, unit) lifecycle_op" where
  "idle_moment sv sg lc = (case sv_idle sv of
     Some idle \<Rightarrow> if \<not> lc_hook lc \<and> lc_request lc = None \<and> sc_total (sg_step sg) = 0 then in_worker idle lc else (Inr (), lc)
   | None \<Rightarrow> (Inr (), lc))"

definition fail_lifecycle :: "('s, 'r, 'f) lifecycle \<Rightarrow> ('s, 'r, 'f) lifecycle" where
  "fail_lifecycle lc = lc\<lparr>lc_failed := True\<rparr>"

definition lifecycle_execute :: "('s, 'r, 'f) served_by \<Rightarrow> ('s, 'r, 'f) step_given \<Rightarrow> ('s, 'r, 'f, hook_answer option) lifecycle_op" where
  "lifecycle_execute sv sg =
     op_then lifecycle_check
      (op_except (op_then (op_refuse lc_pending ValueError)
                 (op_then (unconsumed sv sg)
                 (op_then (release_finished sv sg)
                 (op_then (idle_moment sv sg)
                  (route_step sv sg))))) fail_lifecycle)"

subsection \<open>A prefill's first token\<close>

text \<open>What a sampled step answers: the requests it names and their tokens; \<open>seed_of\<close> is the one of a prefill.\<close>

record sampled_step =
  sm_requests :: "string list"
  sm_tokens :: "int list list"

definition end_at_seed :: "('s, 'r, 'f, unit) lifecycle_op" where
  "end_at_seed = op_then close_capture (op_update (\<lambda>lc. set_request None (lc\<lparr>lc_refused := False\<rparr>)))"

definition quarantine_request :: "('s, 'r, 'f) served_by \<Rightarrow> quarantine_reason \<Rightarrow> ('s, 'r, 'f, unit) lifecycle_op" where
  "quarantine_request sv reason lc = (case lc_request lc of
     None \<Rightarrow> (Inl ValueError, lc)
   | Some r \<Rightarrow> op_then (quarantine_register (sv_quarantine sv) r reason) end_at_seed lc)"

definition terminal_at_seed :: "int option \<Rightarrow> req_state \<Rightarrow> bool" where
  "terminal_at_seed model_len state \<longleftrightarrow>
     (let emitted = int (length (rq_output state))
      in (case rq_max_tokens state of None \<Rightarrow> False | Some m \<Rightarrow> emitted \<ge> m)
       \<or> (case (rq_prompt state, model_len) of
            (Some prompt, Some n) \<Rightarrow> int (length prompt) + emitted \<ge> n | _ \<Rightarrow> False))"

text \<open>The seed, checked against the runner's record of the request.\<close>

definition sampled_seed :: "sampled_step option \<Rightarrow> ('s, 'r, 'f) lifecycle \<Rightarrow> (string \<times> req_state \<times> int) result" where
  "sampled_seed out lc = (case (out, lc_request lc) of
     (Some o1, Some r) \<Rightarrow>
       (case sm_tokens o1 of
          [[seed]] \<Rightarrow>
            if sm_requests o1 \<noteq> [r] then Inl ValueError
            else (case rn_requests (wk_runner (lc_worker lc)) r of
                    None \<Rightarrow> Inl KeyError
                  | Some a \<Rightarrow> let state = rn_states (wk_runner (lc_worker lc)) a
                              in if rq_output state \<noteq> [seed] then Inl ValueError else Inr (r, state, seed))
        | _ \<Rightarrow> Inl ValueError)
   | _ \<Rightarrow> Inl ValueError)"

text \<open>The request joins the hook, a fresh one if none serves; a bridge the hook refuses is closed.\<close>

definition join_hook :: "('s, 'r, 'f) served_by \<Rightarrow> ('s, 'r, 'f) step_given \<Rightarrow> bool \<Rightarrow> string \<Rightarrow> bridge \<Rightarrow> ('s, 'r, 'f, unit) lifecycle_op" where
  "join_hook sv sg idle r br lc =
     (let joined = (if lc_hook lc then in_worker (hook_attach (sv_packed sv) r br) lc
                    else case hook_init idle False r br (wk_world (lc_worker lc)) (wk_runner (lc_worker lc)) of
                           Inl e \<Rightarrow> (Inl e, lc)
                         | Inr w \<Rightarrow> (Inr (), lc\<lparr>lc_worker := w, lc_hook := True\<rparr>))
      in case joined of
           (Inr _, lc') \<Rightarrow> (Inr (), lc')
         | (Inl e, lc') \<Rightarrow> (case in_worker (bridge_close (sv_device sv) (sv_release sv) (sg_released sg) br) lc' of
                              (Inl e', lc'') \<Rightarrow> (Inl e', lc'')
                            | (Inr _, lc'') \<Rightarrow> (Inl e, lc'')))"

definition start_decoding :: "string \<Rightarrow> ('s, 'r, 'f) lifecycle \<Rightarrow> ('s, 'r, 'f) lifecycle" where
  "start_decoding r lc = set_request None (lc\<lparr>lc_decoding_ids := lc_decoding_ids lc @ [r], lc_decoding := Some r,
     lc_capture := None\<rparr>)"

definition bridge_request :: "('s, 'r, 'f) served_by \<Rightarrow> ('s, 'r, 'f) step_given \<Rightarrow> bool \<Rightarrow> string \<Rightarrow> ('s, 'r, 'f, unit) lifecycle_op" where
  "bridge_request sv sg idle r lc = (case lc_capture lc of
     None \<Rightarrow> (Inl TypeError, lc)
   | Some c \<Rightarrow>
       (case in_worker (sv_bridge sv r c) lc of
          (Inl e, lc') \<Rightarrow> if sv_quarantine sv \<and> e = RequestRefused then quarantine_request sv Bridge_Refused lc' else (Inl e, lc')
        | (Inr br, lc') \<Rightarrow> op_then (join_hook sv sg idle r br) (op_update (start_decoding r)) lc'))"

definition settle_seed :: "('s, 'r, 'f) served_by \<Rightarrow> ('s, 'r, 'f) step_given \<Rightarrow> bool \<Rightarrow> string \<times> req_state \<times> int \<Rightarrow> ('s, 'r, 'f, unit) lifecycle_op" where
  "settle_seed sv sg idle = (\<lambda>(r, state, seed) lc.
     (if seed \<in> set (sv_eos sv) \<and> \<not> lc_ignore_eos lc then op_then close_capture (op_update (set_request None))
      else if sv_any_request sv \<and> terminal_at_seed (sv_model_len sv) state then end_at_seed
      else if sv_any_request sv \<and> lc_refused lc then quarantine_request sv Sampling_Contract
      else bridge_request sv sg idle r) lc)"

text \<open>\<open>sampler\<close> is the worker's own \<open>sample_tokens\<close>, \<open>grammar\<close> says that a grammar output came with the call.\<close>

definition lifecycle_sample ::
  "('s, 'r, 'f) served_by \<Rightarrow> ('s, 'r, 'f) step_given \<Rightarrow> bool \<Rightarrow> ('s, 'r, sampled_step option) worker_op \<Rightarrow> bool
     \<Rightarrow> ('s, 'r, 'f, sampled_step option) lifecycle_op" where
  "lifecycle_sample sv sg idle sampler grammar =
     op_then lifecycle_check
      (op_except (\<lambda>lc. if lc_chunk lc then in_worker sampler lc
         else op_then (op_refuse (\<lambda>lc. \<not> lc_pending lc \<or> grammar) ValueError)
             (op_bind (in_worker sampler) (\<lambda>out.
              op_then (op_update (\<lambda>lc. lc\<lparr>lc_pending := False\<rparr>))
             (op_bind (op_read (sampled_seed out)) (\<lambda>seed.
              op_then (settle_seed sv sg idle seed) (op_return out))))) lc) fail_lifecycle)"

definition lifecycle_close :: "('s, 'r, 'f) served_by \<Rightarrow> ('s, 'r, 'f) step_given \<Rightarrow> ('s, 'r, 'f, unit) lifecycle_op" where
  "lifecycle_close sv sg lc =
     (if lc_closed lc then (Inr (), lc)
      else op_then (release_request sv sg) (op_update (\<lambda>lc. lc\<lparr>lc_closed := True\<rparr>)) lc)"

text \<open>\<open>driver\<close>: the worker drives the runner, no sample is pending and no other lifecycle has it.\<close>

definition lifecycle_init :: "int \<Rightarrow> environ \<Rightarrow> fast_config \<Rightarrow> bool \<Rightarrow> ('s, 'r) world \<Rightarrow> runner \<Rightarrow> ('s, 'r, 'f) lifecycle result" where
  "lifecycle_init budget env c driver v rn =
     rbind (validate_fast_config budget env c) (\<lambda>_.
       if \<not> driver then Inl ValueError
       else Inr \<lparr>lc_request = None, lc_gate = None, lc_decoding = None, lc_decoding_ids = [], lc_capture = None, lc_hook = False,
         lc_worker = \<lparr>wk_world = v, wk_runner = rn, wk_bridges = [], wk_closed = False\<rparr>, lc_pending = False, lc_failed = False,
         lc_closed = False, lc_ignore_eos = False, lc_chunk = False, lc_deferred = [], lc_refused = False, lc_quarantined = []\<rparr>)"

end
