(* ===== verification/LifecycleKeys.thy ===== *)
theory LifecycleKeys
  imports ServingLifecycle VerifySafety
begin

text \<open>
  Which requests the hook holds a bridge for and whether it is closed: no decode step or refresh changes them.
\<close>

definition hook_side :: "('s, 'r) worker \<Rightarrow> string list \<times> bool" where
  "hook_side w = (map fst (wk_bridges w), wk_closed w)"

lemma keys_with_bridge [keep]: "(\<And>br. keeps f (m br)) \<Longrightarrow> keeps f (with_bridge key m)"
  by (simp add: with_bridge_def keeps_def split: option.splits)

lemma keys_in_world [keep]: "keeps hook_side (WorkerHook.in_world m)"
  and keys_in_runner [keep]: "keeps hook_side (in_runner n)"
  by (simp_all add: in_world_def in_runner_def hook_side_def keeps_def split: prod.splits)

lemma keys_set_bridge [simp]: "hook_side (set_bridge key h w) = hook_side w"
  by (simp add: hook_side_def set_bridge_def case_prod_beta comp_def)

lemma keys_fail [simp]: "hook_side (fail_bridge key w) = hook_side w" "hook_side (fail_bridges w) = hook_side w"
  by (simp_all add: fail_bridge_def) (simp add: fail_bridges_def hook_side_def case_prod_beta comp_def)

lemma keys_refresh [keep]: "keeps hook_side (refresh_bridge io key ticket)"
  unfolding refresh_bridge_def
  by (intro keys_with_bridge) (auto simp: keeps_def set_bridge_def hook_side_def comp_def case_prod_beta split: list.splits option.splits prod.splits)

lemma keys_execute_decode [keep]: "keeps hook_side (execute_decode dv host ca step key)"
  unfolding execute_decode_def Let_def by (intro keep) simp_all

lemma keys_admit_entry [keep]: "keeps hook_side (admit_entry io users e)"
  unfolding admit_entry_def by (intro keep)

lemma keys_apply_entry [keep]: "keeps hook_side (apply_entry users x)"
  unfolding apply_entry_def by (cases x) (simp, intro keep)

lemma keys_packed_body [keep]: "keeps hook_side (packed_decode_body host packed_step step entries)"
  unfolding packed_decode_body_def Let_def by (intro keep)

lemma keys_execute_packed [keep]: "keeps hook_side (execute_packed_decode host packed_step step)"
  unfolding execute_packed_decode_def by (intro keep) simp

lemma keeps_bind_at: "(\<And>w. keeps f (m w)) \<Longrightarrow> (\<And>x. keeps f (k x)) \<Longrightarrow> keeps f (\<lambda>w. op_bind (m w) k w)"
  using keeps_bind [of f] unfolding keeps_def by blast

lemma keys_hook_execute:
  assumes "keeps hook_side (dv_native host step)"
  shows "keeps hook_side (hook_execute dv host sentinels forced ca packed pending_samples legacy step)"
proof -
  have "keeps hook_side (case (packed, bridges) of (No_Packed, [(key, _)]) \<Rightarrow> execute_decode dv host ca step key
      | (No_Packed, _) \<Rightarrow> op_raise ValueError | _ \<Rightarrow> execute_packed_decode host (device_step dv sentinels forced ca packed) step)"
    for bridges :: "(string \<times> bridge) list"
    by (auto split: packed_config.splits list.splits prod.splits intro!: keep)
  moreover have "keeps hook_side (op_then (dv_native host step) (op_return Native))" by (intro keep assms)
  ultimately show ?thesis unfolding hook_execute_def Let_def by (intro keep keeps_bind_at assms)
qed

lemma keys_original:
  assumes "keeps hook_side (dv_native (sg_host sg) (sg_step sg))"
  shows "keeps hook_side (original_execute sv sg live)"
  unfolding original_execute_def
  by (cases live) (auto intro!: keep assms keys_hook_execute simp del: op_simps)

end
