(* ===== verification/PrefillTail.thy ===== *)
theory PrefillTail
  imports PrefillCapture Transition
begin

text \<open>
  What a prefill capture holds: the features of exactly the prompt's last rows, each once and in order,
  however the prompt was cut into chunks and segments.
\<close>

text \<open>The first row of a prompt's tail.\<close>

definition tail_start :: "'f prefill_capture \<Rightarrow> int" where
  "tail_start c = max 0 (pc_position c - 2048)"

text \<open>The target computes \<open>feat layer i\<close> at layer \<open>layer\<close> of row \<open>i\<close>: a chunk's outputs are those of its rows.\<close>

definition faithful :: "(nat \<Rightarrow> int \<Rightarrow> 'f) \<Rightarrow> 'f native_call \<Rightarrow> bool" where
  "faithful feat call = (case call of
     Batched _ _ _ _ \<Rightarrow> True
   | Chunk valid_len chunk_start bucket forward outcome \<Rightarrow>
       list_all (\<lambda>(layer, rows). list_all (\<lambda>i. rows ! i = feat layer (chunk_start + int i))
         [0..<min (nat valid_len) (length rows)]) forward)"

definition tail_ledger :: "int \<Rightarrow> (nat \<Rightarrow> int \<Rightarrow> 'f) \<Rightarrow> 'f prefill_capture \<Rightarrow> bool" where
  "tail_ledger maximum feat c \<longleftrightarrow> pc_start c \<le> pc_cursor c \<and> pc_cursor c \<le> pc_position c
     \<and> (\<exists>pieces. chunk_pieces maximum (pc_position c) (pc_start c) (pc_chunks c) = Inr (pc_cursor c, pieces)
          \<and> sum_list (map wi_rows pieces) = max 0 (pc_cursor c - tail_start c))
     \<and> (\<forall>k < length (pc_taps c). concat (map (\<lambda>child. child ! k) (pc_children c))
          = map (feat (pc_taps c ! k)) [tail_start c..pc_cursor c - 1])
     \<and> (pc_segment_slot c \<noteq> None \<longrightarrow> pc_segment_slot c = pc_slot c)"

definition capture_bounds :: "int \<Rightarrow> 'f prefill_capture \<Rightarrow> bool" where
  "capture_bounds maximum c \<longleftrightarrow> 1 \<le> pc_position c \<and> pc_position c \<le> maximum
     \<and> resume_start (pc_position c) (pc_start c) = Inr (pc_start c)"

definition tail_features :: "(nat \<Rightarrow> int \<Rightarrow> 'f) \<Rightarrow> 'f prefill_capture \<Rightarrow> 'f list list" where
  "tail_features feat c = map (\<lambda>tap. map (feat tap) [tail_start c..pc_position c - 1]) (pc_taps c)"

definition capture_ok :: "int \<Rightarrow> (nat \<Rightarrow> int \<Rightarrow> 'f) \<Rightarrow> 'f prefill_capture \<Rightarrow> bool" where
  "capture_ok maximum feat c \<longleftrightarrow> capture_bounds maximum c \<and> \<not> pc_active c
     \<and> (pc_closed c \<or> tail_ledger maximum feat c)
     \<and> (pc_complete c \<longrightarrow> pc_closed c \<or> pc_cursor c = pc_position c \<and> (pc_slot c \<noteq> None \<longrightarrow> pc_segment_slot c = pc_slot c))
     \<and> (pc_result c \<in> {None, Some (tail_features feat c)}) \<and> (\<not> pc_complete c \<longrightarrow> pc_result c = None)"

text \<open>While a segment runs.\<close>

definition running_ok :: "int \<Rightarrow> (nat \<Rightarrow> int \<Rightarrow> 'f) \<Rightarrow> 'f prefill_capture \<Rightarrow> bool" where
  "running_ok maximum feat c \<longleftrightarrow> capture_bounds maximum c \<and> tail_ledger maximum feat c \<and> \<not> pc_complete c
     \<and> \<not> pc_closed c \<and> pc_result c = None"

subsection \<open>Windows\<close>

lemma prefill_window_Inr: "prefill_window maximum position = Inr w \<longleftrightarrow> 1 \<le> position \<and> position \<le> maximum
    \<and> w = \<lparr>wi_start = max 0 (position - 2048), wi_end = position, wi_rows = min position 2048\<rparr>"
  by (auto simp: prefill_window_def)

lemma chunk_window_Inr: "chunk_window maximum position s v = Inr w \<longleftrightarrow> 1 \<le> position \<and> position \<le> maximum \<and> 0 \<le> s \<and> 1 \<le> v
    \<and> s + v \<le> position \<and> w = (let first = max (max 0 (position - 2048)) s
         in \<lparr>wi_start = first, wi_end = max first (s + v), wi_rows = max 0 (s + v - first)\<rparr>)"
  by (auto simp: chunk_window_def rbind_Inr_iff prefill_window_Inr Let_def split: if_splits)

lemma resume_start_Inr: "resume_start position start = Inr s \<longleftrightarrow> s = start \<and> 0 \<le> start \<and> start mod 2048 = 0
    \<and> (start = 0 \<or> start \<le> position - 2048)"
  by (auto simp: resume_start_def RESUME_CHUNK_def)

lemma chunk_pieces_append:
  assumes "chunk_pieces maximum position cursor chs = Inr (now, pieces)"
    and "\<not> chunk_refused now ch" and "chunk_window maximum position now (nc_rows ch) = Inr w" and "nc_retained ch = wi_rows w"
  shows "chunk_pieces maximum position cursor (chs @ [ch])
    = Inr (now + nc_rows ch, pieces @ (if wi_rows w \<noteq> 0 then [w] else []))"
  using assms
proof (induction chs arbitrary: cursor pieces)
  case Nil
  then have "nc_start ch = now" by (auto simp: chunk_refused_def)
  then show ?case using Nil by (simp add: prod.case_eq_if)
next
  case (Cons c chs)
  obtain v ps where cut: "\<not> chunk_refused cursor c" "chunk_window maximum position (nc_start c) (nc_rows c) = Inr v"
      "nc_retained c = wi_rows v" "chunk_pieces maximum position (cursor + nc_rows c) chs = Inr (now, ps)"
    and "pieces = (if wi_rows v \<noteq> 0 then v # ps else ps)"
    using Cons.prems(1) by (auto simp: rbind_Inr_iff split: if_splits prod.splits)
  then show ?case using Cons.IH [OF cut(4) Cons.prems(2-4)] by (simp add: cut)
qed

subsection \<open>A chunk\<close>

lemma slice_features:
  assumes rows: "\<And>i. i < nat v \<Longrightarrow> i < length rows \<Longrightarrow> rows ! i = feat (s + int i)" and "v \<le> int (length rows)"
    and "s \<le> first" "first \<le> s + v"
  shows "slice (nat (first - s)) (nat (s + v - s)) rows = map feat [first..s + v - 1]"
proof (rule nth_equalityI)
  show "length (slice (nat (first - s)) (nat (s + v - s)) rows) = length (map feat [first..s + v - 1])"
    using assms by (simp add: length_slice)
next
  fix i assume i: "i < length (slice (nat (first - s)) (nat (s + v - s)) rows)"
  then have b: "nat (first - s) + i < nat v" using assms(3,4) by (auto simp: length_slice)
  then have "rows ! (nat (first - s) + i) = feat (s + int (nat (first - s) + i))" using rows assms(2) by auto
  then show "slice (nat (first - s)) (nat (s + v - s)) rows ! i = map feat [first..s + v - 1] ! i"
    using slice_nth [OF i] b assms(3) by (simp add: nth_upto add.assoc)
qed

lemma layer_records_values:
  assumes snap: "\<And>layer rows kept. (layer, rows) \<in> set forward \<Longrightarrow> snapshot rows = Inr kept \<Longrightarrow> kept = val layer"
    and "layer_records taps snapshot records forward = Inr result"
    and "\<forall>layer kept. map_of records layer = Some kept \<longrightarrow> kept = val layer"
  shows "\<forall>layer kept. map_of result layer = Some kept \<longrightarrow> kept = val layer"
  using assms
proof (induction forward arbitrary: records)
  case (Cons run forward)
  obtain l rows where run: "run = (l, rows)" by force
  have sub: "\<And>layer rows kept. (layer, rows) \<in> set forward \<Longrightarrow> snapshot rows = Inr kept \<Longrightarrow> kept = val layer"
    using Cons.prems(1) by auto
  show ?case
  proof (cases "l \<in> set taps")
    case False
    then show ?thesis using Cons.IH [OF sub _ Cons.prems(3)] Cons.prems(2) run by simp
  next
    case True
    then obtain k where k: "snapshot rows = Inr k" and rest: "layer_records taps snapshot (dict_set l k records) forward = Inr result"
      using Cons.prems(2) run by (auto simp: rbind_Inr_iff split: if_splits)
    have "k = val l" using Cons.prems(1) [of l rows k] k run by simp
    have "\<forall>layer kept. map_of (dict_set l k records) layer = Some kept \<longrightarrow> kept = val layer"
      unfolding map_of_dict_set fun_upd_apply using Cons.prems(3) \<open>k = val l\<close> by (metis option.inject)
    then show ?thesis using Cons.IH [OF _ rest] sub by blast
  qed
qed simp

lemma layer_outputs_features:
  assumes run: "layer_outputs layers taps (snapshot_prefill_tail maximum position s v) forward outcome = Inr outputs"
    and w: "chunk_window maximum position s v = Inr w"
    and f: "faithful feat (Chunk v s bucket forward outcome)"
  shows "outputs = map (\<lambda>tap. map (feat tap) [max (max 0 (position - 2048)) s..s + v - 1]) taps"
proof -
  let ?val = "\<lambda>tap. map (feat tap) [max (max 0 (position - 2048)) s..s + v - 1]"
  note c = w [unfolded chunk_window_Inr Let_def]
  have snap: "kept = ?val layer" if "(layer, rows) \<in> set forward" and k: "snapshot_prefill_tail maximum position s v rows = Inr kept"
    for layer rows kept
  proof -
    have n: "wi_rows w \<noteq> 0" "v \<le> int (length rows)"
      and kept: "kept = slice (nat (wi_start w - s)) (nat (wi_end w - s)) rows"
      using k w by (auto simp: snapshot_prefill_tail_def split: if_splits)
    have "\<And>i. i < nat v \<Longrightarrow> i < length rows \<Longrightarrow> rows ! i = feat layer (s + int i)"
      using f that(1) by (fastforce simp: faithful_def list_all_iff)
    moreover have "wi_start w = max (max 0 (position - 2048)) s" "wi_end w = s + v" using c n(1) by auto
    moreover have "wi_start w \<le> s + v" using c n(1) by auto
    ultimately show ?thesis unfolding kept
      using slice_features [of v rows "feat layer" s "wi_start w"] n(2) by simp
  qed
  obtain records where r: "layer_records taps (snapshot_prefill_tail maximum position s v) [] forward = Inr records"
    and all: "set (map fst records) = set taps" and o: "outputs = map (\<lambda>tap. the (map_of records tap)) taps"
    using run by (auto simp: layer_outputs_def rbind_Inr_iff split: if_splits)
  have "the (map_of records tap) = ?val tap" if "tap \<in> set taps" for tap
  proof -
    have "map_of records tap \<noteq> None" using that all by (auto simp: map_of_eq_None_iff)
    then obtain kept where "map_of records tap = Some kept" by auto
    then show ?thesis using layer_records_values [where val = ?val, OF snap r] by simp
  qed
  then show ?thesis by (simp add: o)
qed

lemma tail_joined:
  assumes "cursor \<le> s'" "s' = cursor + v" "1 \<le> v"
  shows "[tail..cursor - 1] @ (if s' \<le> tail then [] else [max tail cursor..s' - 1]) = [tail..s' - 1]"
proof (cases "tail \<le> cursor")
  case True
  then show ?thesis using upto_split1 [of tail cursor "s' - 1"] assms by (simp add: max_def)
qed (use assms in auto)

lemma wrapped_chunk_ok:
  assumes ok: "running_ok maximum feat c" and f: "faithful feat (Chunk v s bucket forward outcome)"
    and run: "wrapped_chunk maximum v s bucket forward outcome c = (r, c')"
  shows "running_ok maximum feat c'"
proof (cases r)
  case (Inl e)
  then show ?thesis using ok run by (auto simp: wrapped_chunk_def split: if_splits sum.splits)
next
  case (Inr u)
  then obtain w children where start: "s = pc_cursor c" and w: "chunk_window maximum (pc_position c) s v = Inr w"
    and bucket: "bucket mod 32 = 0" "v \<le> bucket" "bucket \<le> 2048"
    and kept: "(if wi_rows w = 0 then rbind outcome (\<lambda>_. Inr [])
        else rbind (layer_outputs (pc_layers c) (pc_taps c) (snapshot_prefill_tail maximum (pc_position c) s v) forward outcome)
          (\<lambda>outputs. Inr [outputs])) = Inr children"
    and c': "c' = c\<lparr>pc_children := pc_children c @ children,
        pc_chunks := pc_chunks c @ [\<lparr>nc_start = s, nc_rows = v, nc_bucket = bucket, nc_retained = wi_rows w\<rparr>],
        pc_cursor := pc_cursor c + v\<rparr>"
    using run by (auto simp: wrapped_chunk_def split: if_splits sum.splits)
  let ?ch = "\<lparr>nc_start = s, nc_rows = v, nc_bucket = bucket, nc_retained = wi_rows w\<rparr>"
  note cw = w [unfolded chunk_window_Inr Let_def]
  obtain pieces where pieces: "chunk_pieces maximum (pc_position c) (pc_start c) (pc_chunks c) = Inr (pc_cursor c, pieces)"
    and sum: "sum_list (map wi_rows pieces) = max 0 (pc_cursor c - tail_start c)"
    using ok by (auto simp: running_ok_def tail_ledger_def)
  have "1 \<le> bucket" using bucket(2) cw by linarith
  then have "32 \<le> bucket" using bucket(1) by presburger
  then have fits: "\<not> chunk_refused (pc_cursor c) ?ch" using bucket cw start by (simp add: chunk_refused_def)
  have rows: "wi_rows w = (if pc_cursor c + v \<le> tail_start c then 0 else pc_cursor c + v - max (tail_start c) (pc_cursor c))"
    using cw start by (auto simp: tail_start_def)
  have "chunk_pieces maximum (pc_position c) (pc_start c) (pc_chunks c @ [?ch])
      = Inr (pc_cursor c + v, pieces @ (if wi_rows w \<noteq> 0 then [w] else []))"
    using chunk_pieces_append [OF pieces fits] w start by simp
  moreover have "sum_list (map wi_rows (pieces @ (if wi_rows w \<noteq> 0 then [w] else []))) = max 0 (pc_cursor c + v - tail_start c)"
    using sum rows cw by (auto simp: max_def)
  moreover have "concat (map (\<lambda>child. child ! k) (pc_children c @ children))
      = map (feat (pc_taps c ! k)) [tail_start c..pc_cursor c + v - 1]" if k: "k < length (pc_taps c)" for k
  proof -
    have "concat (map (\<lambda>child. child ! k) children) = map (feat (pc_taps c ! k))
        (if pc_cursor c + v \<le> tail_start c then [] else [max (tail_start c) (pc_cursor c)..pc_cursor c + v - 1])"
    proof (cases "pc_cursor c + v \<le> tail_start c")
      case True
      then show ?thesis using kept rows by (auto simp: rbind_Inr_iff split: if_splits)
    next
      case False
      then have "wi_rows w \<noteq> 0" using rows cw by auto
      then obtain outputs where o: "children = [outputs]"
        and run: "layer_outputs (pc_layers c) (pc_taps c) (snapshot_prefill_tail maximum (pc_position c) s v) forward outcome = Inr outputs"
        using kept by (auto simp: rbind_Inr_iff)
      show ?thesis using layer_outputs_features [OF run w f] False k by (simp add: o tail_start_def start)
    qed
    moreover have "concat (map (\<lambda>child. child ! k) (pc_children c)) = map (feat (pc_taps c ! k)) [tail_start c..pc_cursor c - 1]"
      using ok k by (auto simp: running_ok_def tail_ledger_def)
    moreover have "[tail_start c..pc_cursor c - 1] @ (if pc_cursor c + v \<le> tail_start c then []
        else [max (tail_start c) (pc_cursor c)..pc_cursor c + v - 1]) = [tail_start c..pc_cursor c + v - 1]"
      using tail_joined [of "pc_cursor c" "pc_cursor c + v" v "tail_start c"] cw by simp
    ultimately show ?thesis by (metis concat_append map_append)
  qed
  ultimately show ?thesis
    using ok cw start by (auto simp: running_ok_def tail_ledger_def capture_bounds_def tail_start_def c')
qed

lemma wrapped_slots_ok:
  "running_ok maximum feat c \<Longrightarrow> running_ok maximum feat (snd (wrapped_slots entry slots positional starts c))"
  by (auto simp: wrapped_slots_def running_ok_def tail_ledger_def capture_bounds_def tail_start_def split: sum.splits)

lemma run_calls_ok: "list_all (faithful feat) calls \<Longrightarrow> preserves (running_ok maximum feat) (run_calls maximum calls)"
proof (induction calls)
  case (Cons call calls)
  have "preserves (running_ok maximum feat) (run_call maximum call)"
  proof (cases call)
    case (Batched entry slots positional starts)
    then show ?thesis using wrapped_slots_ok by (auto simp: run_call_def preserves_def)
  next
    case (Chunk v s bucket forward outcome)
    then have "running_ok maximum feat (snd (wrapped_chunk maximum v s bucket forward outcome c))" if "running_ok maximum feat c" for c
      using wrapped_chunk_ok [OF that, of v s bucket forward outcome] Cons.prems Chunk by (metis list.pred_inject(2) prod.collapse)
    then show ?thesis by (simp add: Chunk run_call_def preserves_def)
  qed
  with Cons show ?case by (auto intro: preserves_then)
qed (simp add: preserves_return)

subsection \<open>A segment\<close>

lemma preserves_on_capture:
  "preserves P m \<Longrightarrow> preserves (\<lambda>(c, w). P c) (on_capture m)"
  by (fastforce simp: preserves_def on_capture_def split: prod.splits)

lemma segment_end_ok:
  assumes "running_ok maximum feat c" and "segment_end maximum c = (Inr u, c')"
  shows "capture_ok maximum feat (c'\<lparr>pc_active := False\<rparr>)"
  using assms
  by (auto simp: segment_end_def running_ok_def capture_ok_def tail_ledger_def capture_bounds_def tail_start_def
      split: if_splits sum.splits)

lemma closed_ok:
  assumes "capture_bounds maximum c" and "\<not> pc_active c" "pc_closed c \<longrightarrow> pc_result c = None" "\<not> pc_complete c \<longrightarrow> pc_result c = None"
  shows "capture_ok maximum feat (snd (capture_close c))" and "pc_closed (snd (capture_close c))"
  using assms by (auto simp: capture_close_def capture_ok_def capture_bounds_def)

text \<open>A segment whose body leaves the running ledger in order leaves the capture in order, closed if it failed.\<close>

lemma segment_ok:
  assumes ok: "capture_ok maximum feat c" and body: "preserves (\<lambda>(c, w). running_ok maximum feat c) body"
    and run: "run_segment maximum nested body (c, w) = (r, (c', w'))"
  shows "capture_ok maximum feat c'"
proof (cases "pc_closed c \<or> pc_complete c \<or> nested")
  case True
  then show ?thesis using ok run by (auto simp: run_segment_def)
next
  case False
  let ?c = "c\<lparr>pc_started := True, pc_active := True, pc_segment_calls := 0, pc_segment_slot := None,
    pc_segments := pc_segments c + 1\<rparr>"
  have start: "running_ok maximum feat ?c"
    using ok False by (auto simp: capture_ok_def running_ok_def tail_ledger_def capture_bounds_def tail_start_def)
  obtain rb cb wb where b: "body (?c, w) = (rb, (cb, wb))" by (metis prod.collapse)
  then have mid: "running_ok maximum feat cb" using preservesD [OF body, of "(?c, w)"] start by simp
  then have bounds: "capture_bounds maximum (cb\<lparr>pc_active := False\<rparr>)" "pc_result cb = None"
    by (auto simp: running_ok_def capture_bounds_def)
  show ?thesis
  proof (cases rb)
    case (Inl e)
    then show ?thesis using run False b bounds closed_ok(1) [of maximum "cb\<lparr>pc_active := False\<rparr>" feat]
      by (auto simp: run_segment_def op_bind_def)
  next
    case (Inr x)
    obtain re ce where e: "segment_end maximum cb = (re, ce)" by force
    show ?thesis
    proof (cases re)
      case Inl': (Inl e')
      then have "ce = cb" using e by (auto simp: segment_end_def split: if_splits sum.splits)
      then show ?thesis using run False b Inr e Inl' bounds closed_ok(1) [of maximum "cb\<lparr>pc_active := False\<rparr>" feat]
        by (auto simp: run_segment_def op_bind_def op_then_def on_capture_def)
    next
      case Inr': (Inr u)
      then have "c' = ce\<lparr>pc_active := False\<rparr>"
        using run False b Inr e by (auto simp: run_segment_def op_bind_def op_then_def on_capture_def)
      then show ?thesis using segment_end_ok [OF mid] e Inr' by simp
    qed
  qed
qed

lemma segment_returns:
  assumes ok: "capture_ok maximum feat c" and body: "preserves (\<lambda>(c, w). running_ok maximum feat c) body"
    and run: "run_segment maximum nested body (c, w) = (Inr x, (c', w'))"
  shows "\<not> pc_closed c'" and "pc_complete c' \<longleftrightarrow> pc_cursor c' = pc_position c'"
proof -
  let ?c = "c\<lparr>pc_started := True, pc_active := True, pc_segment_calls := 0, pc_segment_slot := None,
    pc_segments := pc_segments c + 1\<rparr>"
  have open_c: "\<not> (pc_closed c \<or> pc_complete c \<or> nested)" using run by (auto simp: run_segment_def)
  then have start: "running_ok maximum feat ?c"
    using ok by (auto simp: capture_ok_def running_ok_def tail_ledger_def capture_bounds_def tail_start_def)
  obtain cb wb ce where b: "body (?c, w) = (Inr x, (cb, wb))" and e: "segment_end maximum cb = (Inr (), ce)"
    and c': "c' = ce\<lparr>pc_active := False\<rparr>"
    using run open_c by (auto simp: run_segment_def op_bind_def op_then_def on_capture_def split: prod.splits sum.splits)
  then have "running_ok maximum feat cb" using preservesD [OF body, of "(?c, w)"] start by simp
  then show "\<not> pc_closed c'" and "pc_complete c' \<longleftrightarrow> pc_cursor c' = pc_position c'"
    using e c' by (auto simp: segment_end_def running_ok_def tail_ledger_def split: if_splits sum.splits)
qed

lemma validate_complete:
  assumes bounds: "capture_bounds maximum c" and ledger: "tail_ledger maximum feat c"
  shows "(\<exists>pieces. validate_prefill_chunks maximum (pc_position c) (pc_chunks c) (pc_start c) = Inr pieces)
    \<longleftrightarrow> pc_cursor c = pc_position c"
proof -
  obtain pieces where p: "chunk_pieces maximum (pc_position c) (pc_start c) (pc_chunks c) = Inr (pc_cursor c, pieces)"
    and sum: "sum_list (map wi_rows pieces) = max 0 (pc_cursor c - tail_start c)"
    using ledger by (auto simp: tail_ledger_def)
  have "max 0 (pc_position c - tail_start c) = min (pc_position c) 2048"
    using bounds by (auto simp: tail_start_def capture_bounds_def)
  then show ?thesis using bounds p sum
    by (simp add: validate_prefill_chunks_def capture_bounds_def prefill_window_def)
qed

text \<open>An unsuspended prefill that returns is complete: the ledger of a shorter one is refused.\<close>

lemma capture_whole_ok:
  assumes ok: "capture_ok maximum feat c" and body: "preserves (\<lambda>(c, w). running_ok maximum feat c) body"
    and run: "capture_whole maximum nested body (c, w) = (r, (c', w'))"
  shows "capture_ok maximum feat c' \<and> (\<forall>x. r = Inr x \<longrightarrow> pc_complete c' \<and> \<not> pc_closed c')"
proof (cases "pc_started c")
  case True
  then show ?thesis using run ok by (auto simp: capture_whole_def op_then_def op_bind_def op_refuse_def)
next
  case False
  obtain rs cs ws where s: "run_segment maximum nested body (c, w) = (rs, (cs, ws))" by (metis prod.collapse)
  note k = segment_ok [OF ok body s]
  show ?thesis
  proof (cases rs)
    case (Inl e)
    then show ?thesis using run False s k by (auto simp: capture_whole_def op_then_def op_bind_def op_refuse_def)
  next
    case (Inr x)
    note ret = segment_returns [OF ok body s [unfolded Inr]]
    show ?thesis
    proof (cases "pc_complete cs")
      case True
      then show ?thesis using run False s k Inr ret by (auto simp: capture_whole_def op_then_def op_bind_def op_refuse_def)
    next
      case open_cs: False
      then have "capture_bounds maximum cs" "tail_ledger maximum feat cs" "pc_cursor cs \<noteq> pc_position cs" "\<not> pc_active cs"
          "pc_result cs = None"
        using k ret by (auto simp: capture_ok_def)
      then obtain e where "validate_prefill_chunks maximum (pc_position cs) (pc_chunks cs) (pc_start cs) = Inl e"
        and "capture_ok maximum feat (snd (capture_close cs))"
        using validate_complete [of maximum cs feat] closed_ok(1) [of maximum cs feat]
        by (cases "validate_prefill_chunks maximum (pc_position cs) (pc_chunks cs) (pc_start cs)") auto
      then show ?thesis using run False s Inr open_cs
        by (auto simp: capture_whole_def op_then_def op_bind_def op_refuse_def)
    qed
  qed
qed

lemma capture_close_ok: "capture_ok maximum feat c \<Longrightarrow> capture_ok maximum feat (snd (capture_close c))"
  by (auto simp: capture_close_def capture_ok_def capture_bounds_def)

lemma length_tail: "1 \<le> position \<Longrightarrow> int (length [max 0 (position - 2048)..position - 1]) = min position 2048"
  by auto

lemma complete_outputs:
  assumes ok: "capture_ok maximum feat c" and "pc_complete c" and "\<not> pc_closed c"
  shows "capture_outputs maximum c = (Inr (tail_features feat c), c\<lparr>pc_result := Some (tail_features feat c)\<rparr>)"
proof -
  let ?merged = "map (\<lambda>index. concat (map (\<lambda>child. child ! index) (pc_children c))) [0..<length (pc_taps c)]"
  have l: "tail_ledger maximum feat c" "pc_cursor c = pc_position c" "1 \<le> pc_position c" "pc_position c \<le> maximum"
      "\<not> pc_active c" "pc_result c = None \<or> pc_result c = Some (tail_features feat c)"
    using assms by (auto simp: capture_ok_def capture_bounds_def)
  have m: "?merged = tail_features feat c"
    by (rule nth_equalityI) (use l(1,2) in \<open>auto simp: tail_ledger_def tail_features_def\<close>)
  have "list_all (\<lambda>rows. int (length rows) = min (pc_position c) 2048) (tail_features feat c)"
    using length_tail [OF l(3)] by (auto simp: tail_features_def tail_start_def list_all_iff)
  then have fresh: "rbind (prefill_window maximum (pc_position c)) (\<lambda>w.
      if list_all (\<lambda>rows. int (length rows) = wi_rows w) ?merged then Inr ?merged else Inl AssertionError) = Inr (tail_features feat c)"
    unfolding m using l(3,4) by (simp add: prefill_window_def)
  show ?thesis using l(5,6) assms(2,3) fresh by (auto simp: capture_outputs_def Let_def)
qed

lemma tail_ledger_result: "tail_ledger maximum feat (c\<lparr>pc_result := x\<rparr>) = tail_ledger maximum feat c"
  by (simp add: tail_ledger_def tail_start_def)

lemma tail_features_result: "tail_features feat (c\<lparr>pc_result := x\<rparr>) = tail_features feat c"
  by (simp add: tail_features_def tail_start_def)

lemma capture_outputs_ok:
  assumes ok: "capture_ok maximum feat c"
  shows "capture_ok maximum feat (snd (capture_outputs maximum c))"
proof (cases "pc_complete c \<and> \<not> pc_closed c")
  case True
  have "capture_ok maximum feat (c\<lparr>pc_result := Some (tail_features feat c)\<rparr>)"
    using ok True by (simp add: capture_ok_def capture_bounds_def tail_ledger_result tail_features_result)
  then show ?thesis unfolding complete_outputs [OF ok True [THEN conjunct1] True [THEN conjunct2]] by simp
next
  case False
  then show ?thesis using ok by (auto simp: capture_outputs_def)
qed

subsection \<open>The capture as a transition system\<close>

text \<open>A prompt's chunks come over any segments, whole or suspended, with any calls of the model; \<open>outcome\<close> is
  whether the step around them returned.\<close>

definition segment_body :: "int \<Rightarrow> 'f native_call list \<Rightarrow> unit result \<Rightarrow> ('f prefill_capture \<times> unit, unit) op" where
  "segment_body maximum calls outcome = op_then (on_capture (run_calls maximum calls)) (op_read (\<lambda>_. outcome))"

inductive capture_step :: "int \<Rightarrow> (nat \<Rightarrow> int \<Rightarrow> 'f) \<Rightarrow> 'f prefill_capture \<Rightarrow> 'f prefill_capture \<Rightarrow> bool"
  for maximum :: int and feat :: "nat \<Rightarrow> int \<Rightarrow> 'f" where
  suspended: "list_all (faithful feat) calls \<Longrightarrow>
    run_segment maximum nested (segment_body maximum calls outcome) (c, ()) = (r, (c', ())) \<Longrightarrow> capture_step maximum feat c c'"
| whole: "list_all (faithful feat) calls \<Longrightarrow>
    capture_whole maximum nested (segment_body maximum calls outcome) (c, ()) = (r, (c', ())) \<Longrightarrow> capture_step maximum feat c c'"
| outputs: "capture_step maximum feat c (snd (capture_outputs maximum c))"
| close: "capture_step maximum feat c (snd (capture_close c))"

definition fresh_capture :: "int \<Rightarrow> 'f prefill_capture \<Rightarrow> bool" where
  "fresh_capture maximum c \<longleftrightarrow> (\<exists>layers taps callable_route sticky position start.
     capture_factory maximum layers taps callable_route sticky position start = Inr c)"

lemma segment_body_ok:
  "list_all (faithful feat) calls \<Longrightarrow> preserves (\<lambda>(c, w). running_ok maximum feat c) (segment_body maximum calls outcome)"
  unfolding segment_body_def by (intro preserves_then preserves_read preserves_on_capture run_calls_ok)

lemma fresh_capture_ok: "fresh_capture maximum c \<Longrightarrow> capture_ok maximum feat c"
  by (auto simp: fresh_capture_def capture_factory_def capture_init_def rbind_Inr_iff prefill_window_Inr resume_start_Inr
      capture_ok_def capture_bounds_def tail_ledger_def tail_start_def Let_def split: if_splits)

interpretation capture: invariant_system "fresh_capture maximum" "capture_step maximum feat" "capture_ok maximum feat"
proof unfold_locales
  fix c c' :: "'a prefill_capture" assume ok: "capture_ok maximum feat c" and "capture_step maximum feat c c'"
  from this(2) show "capture_ok maximum feat c'"
  proof cases
    case (suspended calls nested outcome r)
    then show ?thesis using segment_ok [OF ok segment_body_ok] by blast
  next
    case (whole calls nested outcome r)
    then show ?thesis using capture_whole_ok [OF ok segment_body_ok] by blast
  qed (use ok capture_outputs_ok capture_close_ok in auto)
qed (rule fresh_capture_ok)

end
