(* ===== verification/LifecycleInvariant.thy ===== *)
theory LifecycleInvariant
  imports LifecycleKeys PrefillTail
begin

text \<open>
  The lifecycle's invariant: the gate names the request whose capture is open, the hook serves exactly the decoding
  requests, and a prefill that waits for its first token has its whole prompt captured. Its decoding side and its
  prefill side change apart.
\<close>

definition decode_side :: "('s, 'r, 'f) lifecycle \<Rightarrow> string option \<times> string list \<times> bool \<times> string list \<times> bool" where
  "decode_side lc = (lc_decoding lc, lc_decoding_ids lc, lc_hook lc, hook_side (lc_worker lc))"

definition prefill_side :: "('s, 'r, 'f) lifecycle \<Rightarrow> string option \<times> string option \<times> 'f prefill_capture option \<times> bool \<times> bool" where
  "prefill_side lc = (lc_request lc, lc_gate lc, lc_capture lc, lc_pending lc, lc_chunk lc)"

definition decode_ok :: "('s, 'r, 'f) lifecycle \<Rightarrow> bool" where
  "decode_ok lc \<longleftrightarrow> fst (hook_side (lc_worker lc)) = lc_decoding_ids lc \<and> (lc_hook lc \<longrightarrow> \<not> snd (hook_side (lc_worker lc)))
     \<and> (lc_hook lc \<longleftrightarrow> lc_decoding_ids lc \<noteq> [])
     \<and> distinct (lc_decoding_ids lc)
     \<and> lc_decoding lc = (if lc_decoding_ids lc = [] then None else Some (last (lc_decoding_ids lc)))"

text \<open>\<open>feats\<close> is the target's features of a request's prompt, \<open>size\<close> its length.\<close>

definition prefill_ok ::
  "int \<Rightarrow> (string \<Rightarrow> nat \<Rightarrow> int \<Rightarrow> 'f) \<Rightarrow> (string \<Rightarrow> int) \<Rightarrow> ('s, 'r, 'f) lifecycle \<Rightarrow> bool" where
  "prefill_ok maximum feats prompt_size lc \<longleftrightarrow> lc_gate lc = lc_request lc
     \<and> (case (lc_request lc, lc_capture lc) of
          (None, None) \<Rightarrow> \<not> lc_pending lc
        | (Some r, Some c) \<Rightarrow> capture_ok maximum (feats r) c \<and> \<not> pc_closed c \<and> pc_position c = prompt_size r
            \<and> (lc_pending lc \<longrightarrow> pc_complete c \<and> \<not> lc_chunk lc)
        | _ \<Rightarrow> False)"

definition lifecycle_ok ::
  "int \<Rightarrow> (string \<Rightarrow> nat \<Rightarrow> int \<Rightarrow> 'f) \<Rightarrow> (string \<Rightarrow> int) \<Rightarrow> ('s, 'r, 'f) lifecycle \<Rightarrow> bool" where
  "lifecycle_ok maximum feats prompt_size lc \<longleftrightarrow> lc_failed lc \<or> decode_ok lc \<and> prefill_ok maximum feats prompt_size lc"

lemma decode_ok_side: "decode_side lc' = decode_side lc \<Longrightarrow> decode_ok lc' = decode_ok lc"
  by (auto simp: decode_side_def decode_ok_def)

lemma prefill_ok_side: "prefill_side lc' = prefill_side lc \<Longrightarrow> prefill_ok maximum feats prompt_size lc' = prefill_ok maximum feats prompt_size lc"
  by (simp add: prefill_side_def prefill_ok_def cong: option.case_cong)

subsection \<open>What each part leaves alone\<close>

lemma prefill_in_worker [keep]: "keeps prefill_side (in_worker m)"
  by (simp add: keeps_def in_worker_def prefill_side_def split: prod.splits)

lemma decode_in_worker: "keeps hook_side m \<Longrightarrow> keeps decode_side (in_worker m)"
  by (auto simp: keeps_def in_worker_def decode_side_def split: prod.splits) (metis snd_conv)

lemma prefill_detach [keep]: "keeps prefill_side (detach_decoder sv sg r)"
  unfolding detach_decoder_def
  by (intro keep) (auto simp: prefill_side_def keeps_def)

lemma prefill_release_decoders [keep]: "keeps prefill_side (release_decoders sv sg)"
  unfolding release_decoders_def by (intro keep) (auto simp: prefill_side_def keeps_def)

lemma keeps_at: "(\<And>w. keeps f (m w)) \<Longrightarrow> keeps f (\<lambda>w. m w w)"
  by (simp add: keeps_def)

lemma prefill_detach_finished [keep]: "keeps prefill_side (detach_finished sv sg)"
  unfolding detach_finished_def by (rule keeps_at) (intro keep)

lemma decode_close_capture [keep]: "keeps decode_side close_capture"
  by (auto simp: keeps_def close_capture_def decode_side_def split: option.splits prod.splits sum.splits)

lemma decode_set_request [simp]: "decode_side (set_request r lc) = decode_side lc"
  by (simp add: decode_side_def set_request_def)

lemma decode_release_prefill [keep]: "keeps decode_side release_prefill"
  unfolding release_prefill_def by (intro keep) simp

lemma hook_side_displace [simp]: "hook_side (displace_resident w) = hook_side w"
  by (simp add: hook_side_def displace_resident_def)

lemma keeps_rest_segment:
  assumes "keeps (\<lambda>(c, w). f w) body"
  shows "keeps (\<lambda>(c, w). f w) (run_segment maximum nested body)" and "keeps (\<lambda>(c, w). f w) (capture_whole maximum nested body)"
proof -
  have e: "keeps (\<lambda>(c, w). f w) (on_capture m)" for m
    by (auto simp: keeps_def on_capture_def split: prod.splits)
  have "keeps (\<lambda>(c, w). f w) (op_bind body (\<lambda>x. op_then (on_capture (segment_end maximum)) (op_return x)))"
    by (intro keep assms e)
  then have b: "f w' = f w" if "op_bind body (\<lambda>x. op_then (on_capture (segment_end maximum)) (op_return x)) (c, w) = (r, (c', w'))"
    for c c' w w' r using keepsD that by fastforce
  show s: "keeps (\<lambda>(c, w). f w) (run_segment maximum nested body)"
    by (auto simp: keeps_def run_segment_def dest: b split: prod.splits sum.splits)
  have "keeps (\<lambda>(c, w). f w) (\<lambda>(c, w). if pc_complete c then (Inr x, (c, w))
      else case validate_prefill_chunks maximum (pc_position c) (pc_chunks c) (pc_start c) of
             Inl e \<Rightarrow> (Inl e, (snd (capture_close c), w)) | Inr _ \<Rightarrow> (Inr x, (c, w)))" for x
    by (auto simp: keeps_def split: sum.splits)
  then show "keeps (\<lambda>(c, w). f w) (capture_whole maximum nested body)"
    unfolding capture_whole_def by (intro keep s)
qed

lemma keeps_on_rest: "keeps f m \<Longrightarrow> keeps (\<lambda>(c, w). f w) (on_rest m)"
  by (auto simp: keeps_def on_rest_def split: prod.splits) (metis snd_conv)

lemma keeps_rest_on_capture: "keeps (\<lambda>(c, w). f w) (on_capture m)"
  by (auto simp: keeps_def on_capture_def split: prod.splits)

lemma prefill_body_keys:
  assumes "keeps hook_side (dv_native (sg_host sg) (sg_step sg))"
  shows "keeps (\<lambda>(c, w). hook_side w) (prefill_body sv sg live)"
  unfolding prefill_body_def by (intro keep keeps_rest_on_capture keeps_on_rest keys_original assms)

lemma decode_run_captured:
  assumes "keeps hook_side (dv_native (sg_host sg) (sg_step sg))"
  shows "keeps decode_side (run_captured sv sg whole)"
proof -
  note k = keeps_rest_segment [OF prefill_body_keys [OF assms, where sv = sv]]
  have "hook_side w' = hook_side w"
    if "capture_whole (sv_maximum sv) (sg_nested sg) (prefill_body sv sg live) (c, w) = (r, (c', w'))"
    for live c c' w w' r using keepsD [OF k(2) that] by simp
  moreover have "hook_side w' = hook_side w"
    if "run_segment (sv_maximum sv) (sg_nested sg) (prefill_body sv sg live) (c, w) = (r, (c', w'))"
    for live c c' w w' r using keepsD [OF k(1) that] by simp
  ultimately show ?thesis
    by (auto simp: keeps_def run_captured_def decode_side_def split: option.splits prod.splits if_splits)
qed

lemma decode_after_chunk [keep]: "keeps decode_side (after_prefill_chunk answer whole)"
  unfolding after_prefill_chunk_def Let_def
  by (intro keep) (auto simp: decode_side_def keeps_def)

subsection \<open>Decoders that finish\<close>

lemma hook_in_world [simp]: "hook_side (snd (WorkerHook.in_world m w)) = hook_side w"
  by (simp add: in_world_def hook_side_def split: prod.splits)

lemma hook_detach_keys:
  assumes "hook_detach dv release released key w = (Inr u, w')"
  shows "hook_side w' = (filter (\<lambda>k. k \<noteq> key) (fst (hook_side w)), snd (hook_side w))"
proof -
  obtain br where "bridge_close dv release released br (w\<lparr>wk_bridges := dict_del key (wk_bridges w)\<rparr>) = (Inr u, w')"
    using assms by (auto simp: hook_detach_def split: option.splits)
  then have "w' = snd (bridge_close dv release released br (w\<lparr>wk_bridges := dict_del key (wk_bridges w)\<rparr>))" by simp
  then have "hook_side w' = hook_side (w\<lparr>wk_bridges := dict_del key (wk_bridges w)\<rparr>)" unfolding bridge_close_def by simp
  then show ?thesis by (simp add: hook_side_def dict_del_def filter_map comp_def case_prod_unfold)
qed

lemma hook_close_keys:
  "hook_close dv release released w = (Inr u, w') \<Longrightarrow> \<not> snd (hook_side w) \<Longrightarrow> fst (hook_side w') = []"
  by (auto simp: hook_close_def hook_side_def op_returned)

text \<open>Midway: the finished decoders are gone, but the last one's bridge stays with the hook.\<close>

definition detached :: "string set \<Rightarrow> ('s, 'r, 'f) lifecycle \<Rightarrow> bool" where
  "detached finished lc \<longleftrightarrow> decode_ok lc
     \<or> lc_hook lc \<and> \<not> snd (hook_side (lc_worker lc)) \<and> lc_decoding_ids lc = [] \<and> lc_decoding lc \<in> Some ` finished"

lemma last_remove1: "last xs \<noteq> r \<Longrightarrow> last (remove1 r xs) = last xs"
proof (induction xs)
  case (Cons x xs)
  have "remove1 r xs \<noteq> []" if "xs \<noteq> []" "last xs \<noteq> r"
  proof -
    have "last xs \<in> set (remove1 r xs)" using that by (simp add: in_set_remove1)
    then show ?thesis by auto
  qed
  with Cons show ?case by (auto split: if_splits)
qed simp

lemma detach_decoder_ok:
  assumes ok: "decode_ok lc" and r: "r \<in> set (lc_decoding_ids lc)" and run: "detach_decoder sv sg r lc = (Inr u, lc')"
  shows "lc_decoding_ids lc' = remove1 r (lc_decoding_ids lc)
    \<and> (decode_ok lc' \<or> lc_decoding_ids lc = [r] \<and> lc_hook lc' \<and> \<not> snd (hook_side (lc_worker lc')) \<and> lc_decoding lc' = Some r)"
proof -
  let ?ids = "lc_decoding_ids lc"
  let ?lc = "lc\<lparr>lc_decoding_ids := remove1 r ?ids\<rparr>"
  have live: "lc_hook lc" "fst (hook_side (lc_worker lc)) = ?ids" "\<not> snd (hook_side (lc_worker lc))" "distinct ?ids"
      "lc_decoding lc = Some (last ?ids)"
    using ok r by (auto simp: decode_ok_def)
  have len: "length (wk_bridges (lc_worker lc)) = length ?ids" using live(2) unfolding hook_side_def by (metis fst_conv length_map)
  show ?thesis
  proof (cases "length ?ids > 1")
    case True
    then obtain w where d: "hook_detach (sv_device sv) (sv_release sv) (sg_released sg) r (lc_worker lc) = (Inr (), w)"
      and t: "lc' = (if lc_decoding lc \<noteq> Some r then ?lc\<lparr>lc_worker := w\<rparr>
            else ?lc\<lparr>lc_worker := w, lc_decoding := Some (last (remove1 r ?ids))\<rparr>)"
      using run live(1) len by (auto simp: detach_decoder_def op_returned in_worker_def split: prod.splits if_splits)
    have ne: "remove1 r ?ids \<noteq> []" using True r by (metis One_nat_def Suc_pred length_remove1 length_pos_if_in_set less_numeral_extra(3) list.size(3) zero_less_diff)
    have lst: "last (remove1 r ?ids) = last ?ids" if "last ?ids \<noteq> r"
      using that by (rule last_remove1)
    have fl: "filter (\<lambda>k. k \<noteq> r) ?ids = remove1 r ?ids"
      unfolding distinct_remove1_removeAll [OF live(4)] removeAll_filter_not_eq by (auto intro: filter_cong)
    show ?thesis
      using hook_detach_keys [OF d, unfolded live(2) fl] live t ne lst by (auto simp: decode_ok_def)
  next
    case False
    then have "?ids = [r]" using r by (cases ?ids) auto
    then show ?thesis using run live len by (auto simp: detach_decoder_def op_returned)
  qed
qed

lemma detach_all_ok:
  assumes "decode_ok lc" and "set rs \<subseteq> set (lc_decoding_ids lc)" and "distinct rs"
    and "each (detach_decoder sv sg) rs lc = (Inr us, lc')"
  shows "detached (set rs) lc'"
  using assms
proof (induction rs arbitrary: lc us)
  case Nil
  then show ?case by (simp add: detached_def)
next
  case (Cons r rs)
  then obtain u us' mid where d: "detach_decoder sv sg r lc = (Inr u, mid)" and rest: "each (detach_decoder sv sg) rs mid = (Inr us', lc')"
    by (auto simp: op_returned)
  have r: "r \<in> set (lc_decoding_ids lc)" using Cons.prems by simp
  note k = detach_decoder_ok [OF Cons.prems(1) r d]
  show ?case
  proof (cases "decode_ok mid")
    case True
    have "distinct (lc_decoding_ids lc)" using Cons.prems(1) by (simp add: decode_ok_def)
    then have "set rs \<subseteq> set (lc_decoding_ids mid)" using k Cons.prems(2,3) by auto
    then show ?thesis using Cons.IH [OF True _ _ rest] Cons.prems(3) by (auto simp: detached_def)
  next
    case False
    then have "lc_decoding_ids lc = [r]" and m: "lc_hook mid" "lc_decoding mid = Some r" "\<not> snd (hook_side (lc_worker mid))" using k by auto
    then have "rs = []" using Cons.prems(2,3) by (cases rs) auto
    then show ?thesis using rest m k \<open>lc_decoding_ids lc = [r]\<close> by (auto simp: detached_def)
  qed
qed

lemma release_decoders_ok:
  assumes live: "lc_hook lc \<longrightarrow> \<not> snd (hook_side (lc_worker lc))" "lc_hook lc \<or> fst (hook_side (lc_worker lc)) = []"
    and run: "release_decoders sv sg lc = (Inr u, lc')"
  shows "decode_ok lc' \<and> lc_decoding_ids lc' = []"
proof (cases "lc_hook lc")
  case True
  then obtain w where "hook_close (sv_device sv) (sv_release sv) (sg_released sg) (lc_worker lc) = (Inr (), w)"
    and "lc' = lc\<lparr>lc_worker := w, lc_hook := False, lc_decoding := None, lc_decoding_ids := []\<rparr>"
    using run by (auto simp: release_decoders_def op_returned in_worker_def split: prod.splits)
  then show ?thesis using hook_close_keys live True by (auto simp: decode_ok_def)
next
  case False
  then show ?thesis using run live by (auto simp: release_decoders_def op_returned decode_ok_def)
qed

lemma release_finished_decode:
  assumes ok: "decode_ok lc" and run: "release_finished sv sg lc = (Inr u, lc')"
  shows "decode_ok lc'"
proof -
  let ?F = "set (sc_finished (sg_step sg))"
  obtain u1 m1 u2 m2 where d: "detach_finished sv sg lc = (Inr u1, m1)"
    and r: "(if lc_decoding m1 \<in> Some ` ?F \<and> lc_decoding_ids m1 = [] then release_decoders sv sg m1 else (Inr (), m1)) = (Inr u2, m2)"
    and p: "(if lc_request m2 \<in> Some ` ?F then release_prefill m2 else (Inr (), m2)) = (Inr u, lc')"
    using run unfolding release_finished_def Let_def op_then_Inr by blast
  let ?rs = "filter (\<lambda>r. r \<in> ?F) (lc_decoding_ids lc)"
  obtain us where "each (detach_decoder sv sg) ?rs lc = (Inr us, m1)" using d by (auto simp: detach_finished_def op_returned)
  moreover have "distinct ?rs" using ok by (simp add: decode_ok_def)
  ultimately have m: "detached (set ?rs) m1" using detach_all_ok [OF ok, of ?rs] by auto
  have "decode_ok m2"
  proof (cases "decode_ok m1")
    case True
    then show ?thesis using r release_decoders_ok [of m1 sv sg u2 m2] by (auto simp: decode_ok_def split: if_splits)
  next
    case False
    then have "lc_hook m1" "lc_decoding_ids m1 = []" "lc_decoding m1 \<in> Some ` ?F" "\<not> snd (hook_side (lc_worker m1))" using m by (auto simp: detached_def)
    then show ?thesis using r release_decoders_ok [of m1 sv sg u2 m2] by auto
  qed
  moreover have "decode_side lc' = decode_side m2"
    using p keepsD [OF decode_release_prefill] by (auto split: if_splits)
  ultimately show ?thesis using decode_ok_side by blast
qed

end
