(* ===== verification/LifecycleSteps.thy ===== *)
theory LifecycleSteps
  imports LifecycleInvariant
begin

text \<open>
  Every call of the lifecycle keeps its invariant or fails it: admission and continuation of a prefill, the routing of
  a step, the four ways a sampled prefill ends, and closing.
\<close>

subsection \<open>A chunk under the capture\<close>

lemma position_run_calls: "keeps pc_position (run_calls maximum calls)"
proof (induction calls)
  case (Cons call calls)
  have "keeps pc_position (run_call maximum call)"
    by (cases call) (auto simp: keeps_def run_call_def wrapped_slots_def wrapped_chunk_def split: sum.splits)
  with Cons show ?case by (simp add: keeps_then)
qed (simp add: keeps_def)

lemma position_on_capture: "keeps pc_position m \<Longrightarrow> keeps (\<lambda>(c, w). pc_position c) (on_capture m)"
  by (auto simp: keeps_def on_capture_def split: prod.splits) (metis snd_conv)

lemma position_on_rest: "keeps (\<lambda>(c, w). pc_position c) (on_rest m)"
  by (auto simp: keeps_def on_rest_def split: prod.splits)

lemma position_close: "pc_position (snd (capture_close c)) = pc_position c"
  by (simp add: capture_close_def)

lemma position_prefill_body: "keeps (\<lambda>(c, w). pc_position c) (prefill_body sv sg live)"
  unfolding prefill_body_def by (intro keep position_on_rest position_on_capture position_run_calls)

lemma position_segment:
  assumes body: "keeps (\<lambda>(c, w). pc_position c) body"
  shows "keeps (\<lambda>(c, w). pc_position c) (run_segment maximum nested body)"
    and "keeps (\<lambda>(c, w). pc_position c) (capture_whole maximum nested body)"
proof -
  have "keeps pc_position (segment_end maximum)" by (auto simp: keeps_def segment_end_def split: sum.splits)
  then have "keeps (\<lambda>(c, w). pc_position c) (op_bind body (\<lambda>x. op_then (on_capture (segment_end maximum)) (op_return x)))"
    by (intro keep assms position_on_capture)
  then have b: "pc_position c' = pc_position c"
    if "op_bind body (\<lambda>x. op_then (on_capture (segment_end maximum)) (op_return x)) (c, w) = (r, (c', w'))"
    for c c' w w' r using keepsD that by fastforce
  show s: "keeps (\<lambda>(c, w). pc_position c) (run_segment maximum nested body)"
    by (auto simp: keeps_def run_segment_def position_close dest: b split: prod.splits sum.splits)
  have "keeps (\<lambda>(c, w). pc_position c) (\<lambda>(c, w). if pc_complete c then (Inr x, (c, w))
      else case validate_prefill_chunks maximum (pc_position c) (pc_chunks c) (pc_start c) of
             Inl e \<Rightarrow> (Inl e, (snd (capture_close c), w)) | Inr _ \<Rightarrow> (Inr x, (c, w)))" for x
    by (auto simp: keeps_def position_close split: sum.splits)
  then show "keeps (\<lambda>(c, w). pc_position c) (capture_whole maximum nested body)"
    unfolding capture_whole_def by (intro keep s)
qed

lemma preserves_on_rest: "preserves (\<lambda>(c, w). P c) (on_rest m)"
  by (auto simp: preserves_def on_rest_def split: prod.splits)

lemma prefill_body_running:
  "list_all (faithful feat) (sg_calls sg) \<Longrightarrow> preserves (\<lambda>(c, w). running_ok (sv_maximum sv) feat c) (prefill_body sv sg live)"
  unfolding prefill_body_def
  by (intro preserves_bind preserves_then preserves_return preserves_on_rest preserves_on_capture run_calls_ok)

text \<open>A chunk that returns leaves the capture open and in order, and complete if it carried the whole prompt.\<close>

lemma run_captured_ok:
  assumes calls: "list_all (faithful feat) (sg_calls sg)" and ok: "capture_ok (sv_maximum sv) feat c" and c: "lc_capture lc = Some c"
    and run: "run_captured sv sg whole lc = (Inr a, lc')"
  shows "\<exists>c' w. lc' = lc\<lparr>lc_capture := Some c', lc_worker := w\<rparr> \<and> capture_ok (sv_maximum sv) feat c' \<and> \<not> pc_closed c'
    \<and> pc_position c' = pc_position c \<and> (whole \<longrightarrow> pc_complete c')"
proof -
  note body = prefill_body_running [OF calls, where sv = sv and live = "lc_hook lc"]
  obtain c' w where r: "(if whole then capture_whole else run_segment) (sv_maximum sv) (sg_nested sg) (prefill_body sv sg (lc_hook lc)) (c, lc_worker lc)
      = (Inr a, (c', w))" and lc': "lc' = lc\<lparr>lc_capture := Some c', lc_worker := w\<rparr>"
    using run c by (auto simp: run_captured_def split: prod.splits)
  show ?thesis
  proof (cases whole)
    case True
    then show ?thesis
      using r lc' capture_whole_ok [OF ok body] keepsD [OF position_segment(2) [OF position_prefill_body]] by fastforce
  next
    case False
    then show ?thesis
      using r lc' segment_ok [OF ok body] segment_returns(1) [OF ok body] keepsD [OF position_segment(1) [OF position_prefill_body]]
      by fastforce
  qed
qed

lemma after_chunk_ok:
  assumes "lc_gate lc = lc_request lc" "lc_request lc = Some r" "lc_capture lc = Some c" "\<not> lc_pending lc"
    and "capture_ok maximum (feats r) c" "\<not> pc_closed c" "pc_position c = prompt_size r" "whole \<longrightarrow> pc_complete c"
    and run: "after_prefill_chunk answer whole lc = (Inr a, lc')"
  shows "prefill_ok maximum feats prompt_size lc'"
  using assms by (auto simp: after_prefill_chunk_def Let_def op_returned prefill_ok_def split: if_splits)

subsection \<open>A step\<close>

text \<open>What a step is trusted for: the native runner leaves the hook's registry alone, a new request carries its own
  prompt, and the model's calls compute the features of the prompt the step prefills.\<close>

definition given_ok ::
  "(string \<Rightarrow> nat \<Rightarrow> int \<Rightarrow> 'f) \<Rightarrow> (string \<Rightarrow> int) \<Rightarrow> ('s, 'r, 'f) step_given \<Rightarrow> bool" where
  "given_ok feats prompt_size sg \<longleftrightarrow> keeps hook_side (dv_native (sg_host sg) (sg_step sg))
     \<and> (\<forall>r prompt. ar_prompt (sg_arrival sg r) = Some prompt \<longrightarrow> prompt_size r = int (length prompt))
     \<and> list_all (faithful (feats (hd (sc_new (sg_step sg) @ sc_cached (sg_step sg))))) (sg_calls sg)"

lemma continue_ok:
  assumes g: "given_ok feats prompt_size sg" and ok: "prefill_ok (sv_maximum sv) feats prompt_size lc" and p: "\<not> lc_pending lc"
    and cont: "is_continuation (sg_step sg) lc" and run: "continue_prefill sv sg lc = (Inr a, lc')"
  shows "prefill_ok (sv_maximum sv) feats prompt_size lc'"
proof -
  obtain c r where c: "lc_capture lc = Some c" "lc_request lc = Some r" "lc_gate lc = Some r" "capture_ok (sv_maximum sv) (feats r) c"
      "pc_position c = prompt_size r" and s: "sc_new (sg_step sg) = []" "sc_cached (sg_step sg) = [r]"
    using cont ok by (auto simp: is_continuation_def prefill_ok_def split: option.splits)
  have "list_all (faithful (feats r)) (sg_calls sg)" using g s by (simp add: given_ok_def)
  moreover obtain answer m where m: "run_captured sv sg False lc = (Inr answer, m)"
    and after: "after_prefill_chunk answer False (displace_after_continuation m) = (Inr a, lc')"
    using run by (auto simp: continue_prefill_def op_returned)
  ultimately obtain c' w where lc1: "m = lc\<lparr>lc_capture := Some c', lc_worker := w\<rparr>"
    and c': "capture_ok (sv_maximum sv) (feats r) c'" "\<not> pc_closed c'" "pc_position c' = pc_position c"
    using run_captured_ok c(1,4) by blast
  have "\<exists>w'. displace_after_continuation (lc\<lparr>lc_capture := Some c', lc_worker := w\<rparr>) = lc\<lparr>lc_capture := Some c', lc_worker := w'\<rparr>"
    by (cases "pc_segment_slot c'") (auto simp: displace_after_continuation_def)
  then obtain w' where "displace_after_continuation (lc\<lparr>lc_capture := Some c', lc_worker := w\<rparr>) = lc\<lparr>lc_capture := Some c', lc_worker := w'\<rparr>" ..
  with after lc1 have "after_prefill_chunk answer False (lc\<lparr>lc_capture := Some c', lc_worker := w'\<rparr>) = (Inr a, lc')" by simp
  then show ?thesis by (rule after_chunk_ok [where r = r and c = c', rotated -1]) (use c p c' in simp_all)
qed

lemma capture_factory_fresh:
  assumes "capture_factory maximum layers taps route sticky position start = Inr c"
  shows "capture_ok maximum feat c \<and> \<not> pc_closed c \<and> pc_position c = position"
proof -
  have "fresh_capture maximum c" using assms unfolding fresh_capture_def by blast
  then have "capture_ok maximum feat c" by (rule fresh_capture_ok)
  moreover have "\<not> pc_closed c \<and> pc_position c = position"
    using assms by (auto simp: capture_factory_def capture_init_def rbind_Inr_iff Let_def split: if_splits)
  ultimately show ?thesis by blast
qed

lemma admit_ok:
  assumes g: "given_ok feats prompt_size sg" and p: "\<not> lc_pending lc" and run: "admit_prefill sv sg lc = (Inr a, lc')"
  shows "prefill_ok (sv_maximum sv) feats prompt_size lc'"
proof -
  let ?step = "sg_step sg" and ?r = "hd (sc_new (sg_step sg))"
  obtain resume prompt chunk refused m1 m2 answer where one: "\<not> not_one_prefill ?step lc"
    and shape: "arrival_shape ?step ?r (sg_arrival sg ?r) resume = Inr (prompt, chunk)"
    and cap: "open_capture sv (int (length prompt)) resume
        (set_request (Some ?r) (lc\<lparr>lc_ignore_eos := sp_ignore_eos (ar_sampling (sg_arrival sg ?r)), lc_refused := refused\<rparr>)) = (Inr (), m1)"
    and chunk: "run_captured sv sg (resume + chunk = int (length prompt))
        (m1\<lparr>lc_deferred := [], lc_chunk := False, lc_worker := displace_resident (lc_worker m1)\<rparr>) = (Inr answer, m2)"
    and after: "after_prefill_chunk answer (resume + chunk = int (length prompt)) m2 = (Inr a, lc')"
    using run by (auto simp: admit_prefill_def Let_def op_returned split: prod.splits)
  obtain c where c: "capture_factory (sv_maximum sv) (sv_layers sv) (sv_taps sv) (sv_route sv) (sv_sticky sv) (int (length prompt)) resume = Inr c"
    and m1: "lc_capture m1 = Some c" "lc_request m1 = Some ?r" "lc_gate m1 = Some ?r" "lc_pending m1 = lc_pending lc"
    using cap by (auto simp: open_capture_def set_request_def split: sum.splits if_splits)
  have "ar_prompt (sg_arrival sg ?r) = Some prompt"
    using shape by (auto simp: arrival_shape_def split: option.splits if_splits)
  then have size: "prompt_size ?r = int (length prompt)" using g by (simp add: given_ok_def)
  have new: "sc_new ?step \<noteq> []" using one by (auto simp: not_one_prefill_def)
  then have calls: "list_all (faithful (feats ?r)) (sg_calls sg)" using g by (simp add: given_ok_def)
  note fresh = capture_factory_fresh [OF c, of "feats ?r"]
  have "\<exists>c' w. m2 = m1\<lparr>lc_deferred := [], lc_chunk := False, lc_capture := Some c', lc_worker := w\<rparr>
      \<and> capture_ok (sv_maximum sv) (feats ?r) c' \<and> \<not> pc_closed c' \<and> pc_position c' = pc_position c
      \<and> (resume + chunk = int (length prompt) \<longrightarrow> pc_complete c')"
    using run_captured_ok [OF calls _ _ chunk] fresh m1(1) by fastforce
  then show ?thesis using after_chunk_ok [OF _ _ _ _ _ _ _ _ after] m1 p fresh size by fastforce
qed

subsection \<open>Routing\<close>

lemma decode_displace: "decode_side (displace_after_continuation lc) = decode_side lc"
  by (simp add: displace_after_continuation_def decode_side_def split: option.splits)

lemma decode_open_capture: "keeps decode_side (open_capture sv position resume)"
  by (simp add: keeps_def open_capture_def decode_side_def split: sum.splits)

lemma decode_continue:
  "keeps hook_side (dv_native (sg_host sg) (sg_step sg)) \<Longrightarrow> keeps decode_side (continue_prefill sv sg)"
  unfolding continue_prefill_def by (intro keep decode_run_captured decode_displace)

lemma decode_run_original:
  assumes "keeps hook_side (dv_native (sg_host sg) (sg_step sg))"
  shows "keeps decode_side (run_original sv sg)"
proof -
  have "keeps decode_side (in_worker (original_execute sv sg live))" for live
    by (rule decode_in_worker [OF keys_original [OF assms]])
  then show ?thesis unfolding keeps_def run_original_def by blast
qed

lemma keeps_case_prod: "(\<And>p c. keeps f (m p c)) \<Longrightarrow> keeps f (case x of (p, c) \<Rightarrow> m p c)"
  by (cases x) simp

lemma decode_admit:
  "keeps hook_side (dv_native (sg_host sg) (sg_step sg)) \<Longrightarrow> keeps decode_side (admit_prefill sv sg)"
  unfolding admit_prefill_def Let_def
  by (intro keep keeps_case_prod decode_open_capture decode_run_captured) (simp_all, simp_all add: decode_side_def)

lemma prefill_run_original: "keeps prefill_side (run_original sv sg)"
  by (simp add: keeps_def run_original_def in_worker_def prefill_side_def split: prod.splits)

lemma route_ok:
  assumes g: "given_ok feats prompt_size sg" and ok: "decode_ok lc" "prefill_ok (sv_maximum sv) feats prompt_size lc"
    and p: "\<not> lc_pending lc" and run: "route_step sv sg lc = (Inr a, lc')"
  shows "decode_ok lc' \<and> prefill_ok (sv_maximum sv) feats prompt_size lc'"
proof -
  have n: "keeps hook_side (dv_native (sg_host sg) (sg_step sg))" using g by (simp add: given_ok_def)
  consider (native) "run_original sv sg lc = (Inr a, lc')"
    | (continue) "is_continuation (sg_step sg) lc" "continue_prefill sv sg lc = (Inr a, lc')"
    | (admit) "admit_prefill sv sg lc = (Inr a, lc')"
    using run by (auto simp: route_step_def Let_def split: if_splits)
  then show ?thesis
  proof cases
    case native
    then show ?thesis
      using decode_ok_side prefill_ok_side keepsD [OF decode_run_original [OF n]] keepsD [OF prefill_run_original] ok by metis
  next
    case continue
    then show ?thesis using decode_ok_side keepsD [OF decode_continue [OF n]] ok(1) continue_ok [OF g ok(2) p] by metis
  next
    case admit
    then show ?thesis using decode_ok_side keepsD [OF decode_admit [OF n]] ok(1) admit_ok [OF g p] by metis
  qed
qed

subsection \<open>A step of the lifecycle\<close>

lemma keeps_pending_release: "keeps lc_pending (op_update (set_request r))"
  by (simp add: keeps_def set_request_def)

lemma release_prefill_ok:
  assumes "release_prefill lc = (Inr u, lc')"
  shows "prefill_ok maximum feats prompt_size lc' \<and> \<not> lc_pending lc'"
  using assms
  by (auto simp: release_prefill_def op_returned close_capture_def set_request_def prefill_ok_def split: if_splits option.splits prod.splits sum.splits)

lemma release_finished_prefill:
  assumes ok: "prefill_ok maximum feats prompt_size lc" "\<not> lc_pending lc" and run: "release_finished sv sg lc = (Inr u, lc')"
  shows "prefill_ok maximum feats prompt_size lc' \<and> \<not> lc_pending lc'"
proof -
  let ?F = "set (sc_finished (sg_step sg))"
  obtain u1 m1 u2 m2 where d: "detach_finished sv sg lc = (Inr u1, m1)"
    and r: "(if lc_decoding m1 \<in> Some ` ?F \<and> lc_decoding_ids m1 = [] then release_decoders sv sg m1 else (Inr (), m1)) = (Inr u2, m2)"
    and p: "(if lc_request m2 \<in> Some ` ?F then release_prefill m2 else (Inr (), m2)) = (Inr u, lc')"
    using run unfolding release_finished_def Let_def op_then_Inr by blast
  have "prefill_side m1 = prefill_side lc" by (rule keepsD [OF prefill_detach_finished d])
  moreover have "prefill_side m2 = prefill_side m1"
    using r keepsD [OF prefill_release_decoders] by (auto split: if_splits)
  ultimately have side: "prefill_side m2 = prefill_side lc" by simp
  then have "prefill_ok maximum feats prompt_size m2 \<and> \<not> lc_pending m2"
    using prefill_ok_side [OF side] ok by (simp add: prefill_side_def)
  then show ?thesis using p release_prefill_ok [of m2 u lc' maximum feats prompt_size] by (auto split: if_splits)
qed

lemma lifecycle_execute_ok:
  assumes g: "given_ok feats prompt_size sg" and idle: "\<forall>m. sv_idle sv = Some m \<longrightarrow> keeps hook_side m"
    and ok: "lifecycle_ok (sv_maximum sv) feats prompt_size lc"
  shows "lifecycle_ok (sv_maximum sv) feats prompt_size (snd (lifecycle_execute sv sg lc))"
proof -
  obtain r lc' where run: "lifecycle_execute sv sg lc = (r, lc')" by force
  have "lifecycle_ok (sv_maximum sv) feats prompt_size lc'"
  proof (cases "lc_failed lc \<or> lc_closed lc")
    case True
    then show ?thesis using run ok by (auto simp: lifecycle_execute_def lifecycle_check_def op_then_def op_bind_def op_refuse_def)
  next
    case False
    then have start: "decode_ok lc" "prefill_ok (sv_maximum sv) feats prompt_size lc" using ok by (auto simp: lifecycle_ok_def)
    show ?thesis
    proof (cases r)
      case (Inl e)
      then have "lc_failed lc'"
        using run False by (auto simp: lifecycle_execute_def lifecycle_check_def op_raised fail_lifecycle_def)
      then show ?thesis by (simp add: lifecycle_ok_def)
    next
      case (Inr a)
      then obtain u1 m1 u2 m2 u3 m3 where p: "\<not> lc_pending lc" and m1: "unconsumed sv sg lc = (Inr u1, m1)"
        and m2: "release_finished sv sg m1 = (Inr u2, m2)" and m3: "idle_moment sv sg m2 = (Inr u3, m3)"
        and route: "route_step sv sg m3 = (Inr a, lc')"
        using run by (auto simp: lifecycle_execute_def lifecycle_check_def op_returned)
      have s1: "decode_side m1 = decode_side lc" "prefill_side m1 = prefill_side lc"
        using m1 by (auto simp: unconsumed_def op_returned decode_side_def prefill_side_def split: if_splits)
      have k2: "decode_ok m2" "prefill_ok (sv_maximum sv) feats prompt_size m2 \<and> \<not> lc_pending m2"
        using release_finished_decode [OF _ m2] release_finished_prefill [OF _ _ m2] decode_ok_side [OF s1(1)]
          prefill_ok_side [OF s1(2)] s1(2) start p by (auto simp: prefill_side_def)
      have s3: "decode_side m3 = decode_side m2" "prefill_side m3 = prefill_side m2"
        using m3 idle keepsD [OF decode_in_worker] keepsD [OF prefill_in_worker]
        by (auto simp: idle_moment_def split: option.splits if_splits)
      have "decode_ok m3" "prefill_ok (sv_maximum sv) feats prompt_size m3" "\<not> lc_pending m3"
        using decode_ok_side [OF s3(1)] prefill_ok_side [OF s3(2)] s3(2) k2 by (auto simp: prefill_side_def)
      then show ?thesis using route_ok [OF g _ _ _ route] by (simp add: lifecycle_ok_def)
    qed
  qed
  then show ?thesis by (simp add: run)
qed

subsection \<open>The first token\<close>

text \<open>The three ways a prefill that was sampled leaves the prefill phase.\<close>

definition ended :: "('s, 'r, 'f) lifecycle \<Rightarrow> ('s, 'r, 'f) lifecycle \<Rightarrow> bool" where
  "ended lc lc' \<longleftrightarrow> decode_side lc' = decode_side lc \<and> lc_quarantined lc' = lc_quarantined lc"

definition quarantined :: "string \<Rightarrow> ('s, 'r, 'f) lifecycle \<Rightarrow> ('s, 'r, 'f) lifecycle \<Rightarrow> bool" where
  "quarantined r lc lc' \<longleftrightarrow> decode_side lc' = decode_side lc
     \<and> (\<exists>reason. lc_quarantined lc' = dict_set r reason (lc_quarantined lc))"

definition decoding :: "string \<Rightarrow> ('s, 'r, 'f) lifecycle \<Rightarrow> ('s, 'r, 'f) lifecycle \<Rightarrow> bool" where
  "decoding r lc lc' \<longleftrightarrow> lc_hook lc' \<and> r \<notin> set (lc_decoding_ids lc) \<and> lc_decoding_ids lc' = lc_decoding_ids lc @ [r]
     \<and> map fst (wk_bridges (lc_worker lc')) = lc_decoding_ids lc' \<and> lc_decoding lc' = Some r \<and> \<not> wk_closed (lc_worker lc')
     \<and> lc_quarantined lc' = lc_quarantined lc"

text \<open>The prefill phase is over.\<close>

definition phase_over :: "('s, 'r, 'f) lifecycle \<Rightarrow> bool" where
  "phase_over lc \<longleftrightarrow> lc_request lc = None \<and> lc_gate lc = None \<and> lc_capture lc = None \<and> \<not> lc_pending lc"

lemma end_at_seed_outcome:
  assumes "end_at_seed lc = (Inr u, lc')" and "\<not> lc_pending lc"
  shows "phase_over lc' \<and> ended lc lc'"
  using assms
  by (auto simp: end_at_seed_def close_capture_def op_returned set_request_def phase_over_def ended_def decode_side_def
      split: option.splits prod.splits sum.splits)

lemma quarantine_outcome:
  assumes run: "quarantine_request sv reason lc = (Inr u, lc')" and p: "\<not> lc_pending lc" and r: "lc_request lc = Some r"
  shows "phase_over lc' \<and> quarantined r lc lc'"
proof -
  let ?m = "lc\<lparr>lc_quarantined := dict_set r reason (lc_quarantined lc)\<rparr>"
  have "end_at_seed ?m = (Inr u, lc')"
    using run r by (auto simp: quarantine_request_def quarantine_register_def op_returned)
  then have "phase_over lc' \<and> ended ?m lc'" using end_at_seed_outcome p by force
  then show ?thesis by (auto simp: ended_def quarantined_def decode_side_def)
qed

lemma join_hook_outcome:
  assumes ok: "decode_ok lc" and run: "join_hook sv sg idle r br lc = (Inr u, lc')"
  shows "r \<notin> set (lc_decoding_ids lc) \<and> \<not> wk_closed (lc_worker lc')
    \<and> map fst (wk_bridges (lc_worker lc')) = lc_decoding_ids lc @ [r]
    \<and> lc' = lc\<lparr>lc_worker := lc_worker lc', lc_hook := True\<rparr>"
proof (cases "lc_hook lc")
  case True
  then have live: "map fst (wk_bridges (lc_worker lc)) = lc_decoding_ids lc" "\<not> wk_closed (lc_worker lc)"
    using ok by (simp_all add: decode_ok_def hook_side_def)
  have lc': "r \<notin> fst ` set (wk_bridges (lc_worker lc))"
      "lc' = lc\<lparr>lc_worker := (lc_worker lc)\<lparr>wk_bridges := wk_bridges (lc_worker lc) @ [(r, br)]\<rparr>\<rparr>"
    using run True by (auto simp: join_hook_def Let_def in_worker_def hook_attach_def op_returned map_of_None_keys
        split: sum.splits prod.splits)
  moreover have "set (lc_decoding_ids lc) = fst ` set (wk_bridges (lc_worker lc))" using live(1) by (metis set_map)
  ultimately show ?thesis using live True by simp
next
  case False
  then show ?thesis using ok run
    by (auto simp: join_hook_def Let_def hook_init_def decode_ok_def split: if_splits sum.splits prod.splits)
qed

text \<open>What the factory and the sampler are trusted for: they leave the hook's registry alone.\<close>

lemma settle_seed_outcome:
  assumes factory: "\<And>r c. keeps hook_side (sv_bridge sv r c)" and ok: "decode_ok lc" and p: "\<not> lc_pending lc"
    and r: "lc_request lc = Some r" and run: "settle_seed sv sg idle (r, state, seed) lc = (Inr u, lc')"
  shows "phase_over lc' \<and> (ended lc lc' \<or> quarantined r lc lc' \<or> decoding r lc lc')"
proof -
  consider (eos) "op_then close_capture (op_update (set_request None)) lc = (Inr u, lc')" | (seed) "end_at_seed lc = (Inr u, lc')"
    | (refused) "quarantine_request sv Sampling_Contract lc = (Inr u, lc')" | (bridge) "bridge_request sv sg idle r lc = (Inr u, lc')"
    using run by (auto simp: settle_seed_def split: if_splits)
  then show ?thesis
  proof cases
    case eos
    then have "end_at_seed lc = (Inr u, lc'\<lparr>lc_refused := False\<rparr>)"
      by (auto simp: end_at_seed_def op_returned set_request_def)
    then have "phase_over (lc'\<lparr>lc_refused := False\<rparr>) \<and> ended lc (lc'\<lparr>lc_refused := False\<rparr>)"
      using end_at_seed_outcome p by blast
    then show ?thesis by (simp add: phase_over_def ended_def decode_side_def)
  next
    case seed
    then show ?thesis using end_at_seed_outcome p by blast
  next
    case refused
    then show ?thesis using quarantine_outcome p r by blast
  next
    case bridge
    then obtain c rb m where b: "in_worker (sv_bridge sv r c) lc = (rb, m)"
      and rest: "(case rb of Inl e \<Rightarrow> if sv_quarantine sv \<and> e = RequestRefused then quarantine_request sv Bridge_Refused m else (Inl e, m)
          | Inr br \<Rightarrow> op_then (join_hook sv sg idle r br) (op_update (start_decoding r)) m) = (Inr u, lc')"
      by (auto simp: bridge_request_def split: option.splits prod.splits sum.splits)
    obtain w where m: "m = lc\<lparr>lc_worker := w\<rparr>" using b by (auto simp: in_worker_def split: prod.splits)
    have side: "decode_side m = decode_side lc" by (rule keepsD [OF decode_in_worker [OF factory] b])
    show ?thesis
    proof (cases rb)
      case (Inl e)
      then have "quarantine_request sv Bridge_Refused m = (Inr u, lc')" using rest by (auto split: if_splits)
      then have "phase_over lc' \<and> quarantined r m lc'" using quarantine_outcome p r m by force
      then show ?thesis using side m by (auto simp: quarantined_def)
    next
      case (Inr br)
      then obtain u' j where j: "join_hook sv sg idle r br m = (Inr u', j)" and lc': "lc' = start_decoding r j"
        using rest by (auto simp: op_returned)
      have "decode_ok m" using decode_ok_side [OF side] ok by simp
      note out = join_hook_outcome [OF this j]
      have ids: "lc_decoding_ids m = lc_decoding_ids lc" by (simp add: m)
      obtain v where jv: "j = m\<lparr>lc_worker := v, lc_hook := True\<rparr>" using out by blast
      have "map fst (wk_bridges v) = lc_decoding_ids lc @ [r]" "r \<notin> set (lc_decoding_ids lc)" "\<not> wk_closed v"
        using out ids by (simp_all add: jv)
      then show ?thesis using p
        by (simp add: lc' jv m start_decoding_def set_request_def phase_over_def decoding_def)
    qed
  qed
qed

lemma sample_outcome:
  assumes factory: "\<And>r c. keeps hook_side (sv_bridge sv r c)" and sampler: "keeps hook_side sampler"
    and ok: "decode_ok lc" "prefill_ok maximum feats prompt_size lc" and p: "lc_pending lc"
    and run: "lifecycle_sample sv sg idle sampler grammar lc = (Inr out, lc')"
  shows "\<exists>r seed. lc_request lc = Some r \<and> out = Some \<lparr>sm_requests = [r], sm_tokens = [[seed]]\<rparr>
    \<and> phase_over lc' \<and> (ended lc lc' \<or> quarantined r lc lc' \<or> decoding r lc lc')"
proof -
  have chunk: "\<not> lc_chunk lc" using ok(2) p by (auto simp: prefill_ok_def split: option.splits)
  obtain m x where m: "in_worker sampler lc = (Inr out, m)" and x: "sampled_seed out (m\<lparr>lc_pending := False\<rparr>) = Inr x"
    and settle: "settle_seed sv sg idle x (m\<lparr>lc_pending := False\<rparr>) = (Inr (), lc')"
    using run chunk by (auto simp: lifecycle_sample_def lifecycle_check_def op_returned split: if_splits)
  obtain w where w: "m = lc\<lparr>lc_worker := w\<rparr>" using m by (auto simp: in_worker_def split: prod.splits)
  let ?m = "m\<lparr>lc_pending := False\<rparr>"
  have side: "decode_side ?m = decode_side lc"
    using keepsD [OF decode_in_worker [OF sampler] m] by (simp add: decode_side_def)
  obtain r state seed where r: "lc_request lc = Some r" and xs: "x = (r, state, seed)"
    and o: "out = Some \<lparr>sm_requests = [r], sm_tokens = [[seed]]\<rparr>"
    using x w by (auto simp: sampled_seed_def Let_def split: option.splits list.splits if_splits)
  have "phase_over lc' \<and> (ended ?m lc' \<or> quarantined r ?m lc' \<or> decoding r ?m lc')"
    by (rule settle_seed_outcome [OF factory _ _ _ settle [unfolded xs]]) (use decode_ok_side [OF side] ok(1) r w in simp_all)
  moreover have "ended ?m lc' \<Longrightarrow> ended lc lc'" "quarantined r ?m lc' \<Longrightarrow> quarantined r lc lc'" "decoding r ?m lc' \<Longrightarrow> decoding r lc lc'"
    using side w by (auto simp: ended_def quarantined_def decoding_def)
  ultimately show ?thesis using r o by blast
qed

lemma outcome_ok:
  assumes "decode_ok lc" and "phase_over lc'" and "ended lc lc' \<or> quarantined r lc lc' \<or> decoding r lc lc'"
  shows "decode_ok lc' \<and> prefill_ok maximum feats prompt_size lc'"
proof
  show "prefill_ok maximum feats prompt_size lc'" using assms(2) by (simp add: phase_over_def prefill_ok_def)
  show "decode_ok lc'" using assms(3)
  proof (elim disjE)
    assume "decoding r lc lc'"
    then show ?thesis using assms(1) by (auto simp: decoding_def decode_ok_def hook_side_def)
  next
    assume "ended lc lc'"
    then have "decode_side lc' = decode_side lc" by (simp add: ended_def)
    then show ?thesis using decode_ok_side [of lc' lc] assms(1) by simp
  next
    assume "quarantined r lc lc'"
    then have "decode_side lc' = decode_side lc" by (simp add: quarantined_def)
    then show ?thesis using decode_ok_side [of lc' lc] assms(1) by simp
  qed
qed

lemma lifecycle_sample_ok:
  assumes factory: "\<And>r c. keeps hook_side (sv_bridge sv r c)" and sampler: "keeps hook_side sampler"
    and ok: "lifecycle_ok maximum feats prompt_size lc"
  shows "lifecycle_ok maximum feats prompt_size (snd (lifecycle_sample sv sg idle sampler grammar lc))"
proof -
  obtain r lc' where run: "lifecycle_sample sv sg idle sampler grammar lc = (r, lc')" by force
  have "lifecycle_ok maximum feats prompt_size lc'"
  proof (cases "lc_failed lc \<or> lc_closed lc")
    case True
    then show ?thesis using run ok by (auto simp: lifecycle_sample_def lifecycle_check_def op_then_def op_bind_def op_refuse_def)
  next
    case False
    then have start: "decode_ok lc" "prefill_ok maximum feats prompt_size lc" using ok by (auto simp: lifecycle_ok_def)
    show ?thesis
    proof (cases r)
      case (Inl e)
      then have "lc_failed lc'"
        using run False by (auto simp: lifecycle_sample_def lifecycle_check_def op_raised fail_lifecycle_def)
      then show ?thesis by (simp add: lifecycle_ok_def)
    next
      case (Inr out)
      show ?thesis
      proof (cases "lc_chunk lc")
        case True
        then have "in_worker sampler lc = (Inr out, lc')"
          using run Inr by (auto simp: lifecycle_sample_def lifecycle_check_def op_returned)
        then have "decode_side lc' = decode_side lc" "prefill_side lc' = prefill_side lc"
          using keepsD [OF decode_in_worker [OF sampler]] keepsD [OF prefill_in_worker] by auto
        then show ?thesis using decode_ok_side [of lc' lc] prefill_ok_side [of lc' lc] start by (simp add: lifecycle_ok_def)
      next
        case chunk: False
        then have "lc_pending lc" using run Inr by (auto simp: lifecycle_sample_def lifecycle_check_def op_returned)
        then show ?thesis
          using sample_outcome [OF factory sampler start _ run [unfolded Inr]] outcome_ok [OF start(1)]
          unfolding lifecycle_ok_def by blast
      qed
    qed
  qed
  then show ?thesis by (simp add: run)
qed

subsection \<open>Closing\<close>

lemma release_decoders_hook:
  assumes "decode_ok lc" and "release_decoders sv sg lc = (Inl e, lc')"
  shows "decode_ok lc'"
proof -
  obtain w where w: "hook_close (sv_device sv) (sv_release sv) (sg_released sg) (lc_worker lc) = (Inl e, w)" "lc_hook lc"
    and lc': "lc' = lc\<lparr>lc_worker := w\<rparr>"
    using assms(2) by (auto simp: release_decoders_def op_raised in_worker_def split: prod.splits if_splits)
  have "keeps hook_side (each (\<lambda>(_, br). bridge_close dv release released br) bridges)"
    for dv :: "('a, 'b) device" and release released and bridges :: "(string \<times> bridge) list"
  proof (rule keeps_each)
    fix e :: "string \<times> bridge"
    show "keeps hook_side (case e of (_, br) \<Rightarrow> bridge_close dv release released br)"
      by (cases e) (simp add: keeps_def bridge_close_def)
  qed
  then have "hook_side w = hook_side (lc_worker lc)"
    using w(1) keepsD by (fastforce simp: hook_close_def op_raised split: if_splits)
  then show ?thesis using assms(1) lc' decode_ok_side [of lc' lc] by (simp add: decode_side_def)
qed

lemma release_prefill_returns:
  assumes "prefill_ok maximum feats prompt_size lc" and "\<not> lc_pending lc"
  shows "\<exists>lc'. release_prefill lc = (Inr (), lc')"
proof (cases "lc_capture lc")
  case None
  then show ?thesis using assms by (simp add: release_prefill_def op_then_def op_bind_def op_refuse_def)
next
  case (Some c)
  then have "\<not> pc_active c" using assms by (auto simp: prefill_ok_def capture_ok_def split: option.splits)
  then have "\<exists>m. close_capture lc = (Inr (), m)" using Some by (auto simp: close_capture_def capture_close_def)
  then show ?thesis using assms Some by (auto simp: release_prefill_def op_then_def op_bind_def op_refuse_def)
qed

lemma lifecycle_close_ok:
  assumes ok: "lifecycle_ok maximum feats prompt_size lc"
  shows "lifecycle_ok maximum feats prompt_size (snd (lifecycle_close sv sg lc))"
proof (cases "lc_failed lc")
  case True
  have "keeps lc_failed (lifecycle_close sv sg)"
  proof -
    have "keeps lc_failed (release_decoders sv sg)"
      unfolding release_decoders_def by (intro keep) (simp_all add: keeps_def in_worker_def split: prod.splits)
    moreover have "keeps lc_failed release_prefill" unfolding release_prefill_def
      by (intro keep) (auto simp: keeps_def close_capture_def set_request_def split: option.splits prod.splits sum.splits)
    ultimately have "keeps lc_failed (op_then (release_request sv sg) (op_update (\<lambda>lc. lc\<lparr>lc_closed := True\<rparr>)))"
      unfolding release_request_def by (intro keep) simp_all
    then show ?thesis by (simp add: keeps_def lifecycle_close_def)
  qed
  then show ?thesis using True by (simp add: lifecycle_ok_def keeps_def)
next
  case False
  then have start: "decode_ok lc" "prefill_ok maximum feats prompt_size lc" using ok by (auto simp: lifecycle_ok_def)
  show ?thesis
  proof (cases "lc_closed lc \<or> lc_pending lc")
    case True
    then show ?thesis using ok
      by (auto simp: lifecycle_close_def release_request_def op_then_def op_bind_def op_refuse_def)
  next
    case going: False
    obtain rd m where d: "release_decoders sv sg lc = (rd, m)" by force
    have side: "prefill_side m = prefill_side lc" by (rule keepsD [OF prefill_release_decoders d])
    then have pm: "prefill_ok maximum feats prompt_size m" "\<not> lc_pending m"
      using prefill_ok_side [OF side] start going by (auto simp: prefill_side_def)
    show ?thesis
    proof (cases rd)
      case (Inl e)
      then have "decode_ok m" using release_decoders_hook start(1) d by blast
      then show ?thesis using Inl going d pm
        by (simp add: lifecycle_close_def release_request_def op_then_def op_bind_def op_refuse_def lifecycle_ok_def)
    next
      case (Inr u)
      then have dm: "decode_ok m" using release_decoders_ok [of lc sv sg u m] start(1) d by (auto simp: decode_ok_def)
      obtain t where t: "release_prefill m = (Inr (), t)" using release_prefill_returns [OF pm] by blast
      have "decode_side t = decode_side m" by (rule keepsD [OF decode_release_prefill t])
      then have "decode_ok t" "prefill_ok maximum feats prompt_size t"
        using decode_ok_side dm release_prefill_ok [OF t] by metis+
      then have "decode_ok (t\<lparr>lc_closed := True\<rparr>)" "prefill_ok maximum feats prompt_size (t\<lparr>lc_closed := True\<rparr>)"
        using decode_ok_side [of "t\<lparr>lc_closed := True\<rparr>" t] prefill_ok_side [of "t\<lparr>lc_closed := True\<rparr>" t]
        by (simp_all add: decode_side_def prefill_side_def)
      then show ?thesis using Inr going d t
        by (simp add: lifecycle_close_def release_request_def op_then_def op_bind_def op_refuse_def lifecycle_ok_def)
    qed
  qed
qed

end
