(* ===== verification/PrefillProps.thy ===== *)
theory PrefillProps
  imports PrefillTail
begin

text \<open>
  What a completed prefill hands to the drafter: the exact tail of its prompt.
\<close>

text \<open>C6: Whatever segments and chunks a prompt was prefilled in, and whatever else the model called in between, a
  complete open capture answers, for every tap, the target's features of exactly the prompt's last 2048 rows (or all
  of a shorter prompt), each once and in order. Its recorded chunks cover the prompt from its start, and the slot it
  names for adoption is the one its last segment wrote.\<close>

theorem prefill_keeps_exact_tail:
  assumes reach: "reachable (fresh_capture maximum) (capture_step maximum feat) c"
    and complete: "pc_complete c" and "\<not> pc_closed c"
  shows "fst (capture_outputs maximum c)
      = Inr (map (\<lambda>tap. map (feat tap) [max 0 (pc_position c - 2048)..pc_position c - 1]) (pc_taps c))
    \<and> (\<exists>pieces. validate_prefill_chunks maximum (pc_position c) (pc_chunks c) (pc_start c) = Inr pieces)
    \<and> (pc_slot c \<noteq> None \<longrightarrow> pc_segment_slot c = pc_slot c)"
proof -
  note ok = capture.inv_reachable [OF reach]
  then have "capture_bounds maximum c" "tail_ledger maximum feat c" "pc_cursor c = pc_position c"
      "pc_slot c \<noteq> None \<longrightarrow> pc_segment_slot c = pc_slot c"
    using assms(2,3) by (auto simp: capture_ok_def)
  then show ?thesis using complete_outputs [OF ok assms(2,3)] validate_complete [of maximum c feat]
    by (simp add: tail_features_def tail_start_def)
qed

text \<open>A prompt of 40 rows in two segments, over a slot that moves in between.\<close>

definition demo_open_capture :: "int prefill_capture" where
  "demo_open_capture = projr (capture_factory 65504 3 [1] False False 40 0)"

definition demo_layers :: "int \<Rightarrow> int \<Rightarrow> (nat \<times> int list) list" where
  "demo_layers from_row to_row = map (\<lambda>layer. (layer, map (\<lambda>i. 100 * int layer + i) [from_row..to_row])) [0..<3]"

definition demo_first :: "int native_call list" where
  "demo_first = [Batched Paged_Slots [2] False None, Chunk 32 0 32 (demo_layers 0 31) (Inr ())]"

definition demo_second :: "int native_call list" where
  "demo_second = [Batched Paged_Range [0] True (Some [32]), Chunk 8 32 32 (demo_layers 32 39) (Inr ())]"

definition demo_segment :: "int native_call list \<Rightarrow> int prefill_capture \<Rightarrow> int prefill_capture" where
  "demo_segment calls c = fst (snd (run_segment 65504 False (segment_body 65504 calls (Inr ())) (c, ())))"

definition demo_prefilled :: "int prefill_capture" where
  "demo_prefilled = demo_segment demo_second (demo_segment demo_first demo_open_capture)"

lemma demo_segment_step:
  assumes "list_all (faithful feat) calls"
  shows "capture_step 65504 feat c (demo_segment calls c)"
  by (rule capture_step.suspended [OF assms, where nested = False and outcome = "Inr ()"])
    (simp add: demo_segment_def prod_eq_iff)

lemma demo_prefilled_reachable:
  "reachable (fresh_capture 65504) (capture_step 65504 (\<lambda>layer i. 100 * int layer + i)) demo_prefilled"
proof -
  have "capture_factory 65504 3 [1] False False 40 0 = Inr demo_open_capture"
    by (simp add: demo_open_capture_def capture_factory_def capture_init_def prefill_window_def resume_start_def Let_def)
  then have "fresh_capture 65504 demo_open_capture" unfolding fresh_capture_def by blast
  moreover have "list_all (faithful (\<lambda>layer i. 100 * int layer + i)) demo_first"
      "list_all (faithful (\<lambda>layer i. 100 * int layer + i)) demo_second" by code_simp+
  ultimately show ?thesis unfolding demo_prefilled_def
    by (blast intro: reachable.intros demo_segment_step)
qed

lemma demo_prefilled_complete:
  "pc_complete demo_prefilled \<and> \<not> pc_closed demo_prefilled \<and> pc_position demo_prefilled = 40
    \<and> pc_taps demo_prefilled = [1] \<and> pc_slot demo_prefilled = Some 0" by code_simp

theorem prefill_keeps_exact_tail_witness:
  "fst (capture_outputs 65504 demo_prefilled) = Inr [map (\<lambda>i. 100 + i) [0..39]] \<and> pc_segment_slot demo_prefilled = Some 0"
  using prefill_keeps_exact_tail [OF demo_prefilled_reachable] demo_prefilled_complete by simp

end
