(* ===== verification/FactoryProps.thy ===== *)
theory FactoryProps
  imports RequestFactory DraftRope
begin

text \<open>
  What the configuration and the factory promise of a request they admit: room for its text in its pages and
  in the context, the shapes of the packed step, and a proposal bucket for every draft it will make.
\<close>

subsection \<open>Pages\<close>

lemma host_refusals_Inr: "host_refusals b r = Inr x \<longleftrightarrow> r = Inr x"
  by (auto simp: host_refusals_def split: sum.splits py_error.splits)

lemma prefill_terms_Inr:
  assumes "prefill_terms fy p pages state backstop = Inr t"
  obtains blocks where "rq_prompt state = Some (te_prompt t)" and "rq_blocks state = [blocks]"
    and "validate_request_sampling (fy_ceiling fy) p (int (length (te_prompt t))) (fy_eos fy) = Inr ()"
    and "adopted_seed (fy_vocab fy) (fy_eos fy) (sp_ignore_eos p) (fy_helpers fy) (length (te_prompt t)) state = Inr (te_seed t)"
    and "budget_terms fy p pages blocks (length (te_prompt t)) = Inr (te_budget t)"
    and "te_eos t = (if fy_any_request fy \<and> sp_ignore_eos p then [] else fy_eos fy)"
proof -
  let ?seq = "fy_any_request fy \<and> sequential_captures (fy_capture_rows fy)"
  have ok: "\<not> (?seq \<and> \<not> fy_source_checked fy)" using assms by (cases "fy_source_checked fy") (simp_all add: prefill_terms_def Let_def split: if_splits)
  obtain prompt where prompt: "rq_prompt state = Some prompt"
    using assms ok by (cases "rq_prompt state") (auto simp: prefill_terms_def Let_def)
  have run: "rbind (host_refusals (fy_any_request fy)
                (validate_request_sampling (fy_ceiling fy) p (int (length prompt)) (fy_eos fy))) (\<lambda>_.
             rbind (adopted_seed (fy_vocab fy) (fy_eos fy) (sp_ignore_eos p) (fy_helpers fy) (length prompt) state) (\<lambda>seed.
             case rq_blocks state of
               [blocks] \<Rightarrow>
                 rbind (budget_terms fy p pages blocks (length prompt)) (\<lambda>budget.
                 rbind (if fy_extent fy then backstop else Inr None) (\<lambda>_.
                 Inr \<lparr>te_prompt = prompt, te_seed = seed, te_budget = budget,
                      te_eos = (if fy_any_request fy \<and> sp_ignore_eos p then [] else fy_eos fy),
                      te_sequential = ?seq\<rparr>))
             | _ \<Rightarrow> Inl ValueError)) = Inr t"
    using assms unfolding prefill_terms_def Let_def if_not_P [OF ok] prompt option.case .
  obtain blocks where blocks: "rq_blocks state = [blocks]"
    using run by (cases "rq_blocks state"; cases "tl (rq_blocks state)") (auto simp: rbind_Inr_iff)
  show thesis
    by (rule that) (use run blocks prompt in \<open>auto simp: rbind_Inr_iff host_refusals_Inr\<close>)
qed

lemma adopted_seed_Inr:
  "adopted_seed vocab eos ignore helpers prompt state = Inr seed \<Longrightarrow>
     rq_output state = [seed] \<and> 0 \<le> seed \<and> seed < vocab \<and> (seed \<in> set eos \<longrightarrow> ignore)"
  by (auto simp: adopted_seed_def split: list.splits if_splits)

lemma initial_pages_Inr:
  assumes "validate_initial_capture_pages pages blocks position budget rows = Inr u"
  obtains "values" where "pages = [values]" and "2 \<le> budget" and "1 \<le> position" and "distinct blocks" and "blocks \<noteq> []"
    and "position + budget - 1 \<le> int (length values) * 64"
    and "position + min rows (budget - 1) \<le> int (length blocks) * 64"
    and "length blocks \<le> length values" and "take (length blocks) values = blocks" and "set values \<subseteq> set blocks"
  using assms
  by (auto simp: validate_initial_capture_pages_def split: if_splits list.splits)

text \<open>C22: an admitted prefill has room. The terms \<open>from_prefill\<close> builds a request with are its own prompt and its
  prefill's one token, inside the vocabulary and no end token unless the request ignores them; the budget is
  at least two and within the server's and, for any-request serving, the request's own limit; the page table
  covers every position of prompt and budget; and every row of the prompt and of the first block is mapped
  to the scheduler's own block for it, no two rows of different pages to the same one.\<close>

theorem admitted_prefill_has_room:
  assumes "prefill_terms fy p pages state backstop = Inr t"
  shows "let prompt = length (te_prompt t)
    in rq_prompt state = Some (te_prompt t) \<and> rq_output state = [te_seed t]
       \<and> 0 \<le> te_seed t \<and> te_seed t < fy_vocab fy \<and> te_seed t \<notin> set (te_eos t) - (if sp_ignore_eos p then set (fy_eos fy) else {})
       \<and> 2 \<le> te_budget t \<and> te_budget t \<le> fy_ceiling fy \<and> (fy_any_request fy \<longrightarrow> te_budget t \<le> sp_max_tokens p)
       \<and> (\<exists>values blocks. pages = [values] \<and> rq_blocks state = [blocks] \<and> distinct blocks
            \<and> int prompt + te_budget t - 1 \<le> 64 * int (length values) \<and> set values \<subseteq> set blocks
            \<and> (\<forall>row < nat (int prompt + min 16 (te_budget t - 1)). row div 64 < length blocks \<and> values ! (row div 64) = blocks ! (row div 64)))"
proof -
  obtain blocks where pr: "rq_prompt state = Some (te_prompt t)" and bl: "rq_blocks state = [blocks]"
    and seed: "adopted_seed (fy_vocab fy) (fy_eos fy) (sp_ignore_eos p) (fy_helpers fy) (length (te_prompt t)) state = Inr (te_seed t)"
    and budget: "budget_terms fy p pages blocks (length (te_prompt t)) = Inr (te_budget t)"
    and eos: "te_eos t = (if fy_any_request fy \<and> sp_ignore_eos p then [] else fy_eos fy)"
    by (rule prefill_terms_Inr [OF assms])
  obtain u where b: "validate_initial_capture_pages pages blocks (int (length (te_prompt t))) (te_budget t) 16 = Inr u"
    and lim: "te_budget t \<le> fy_ceiling fy" "fy_any_request fy \<Longrightarrow> te_budget t \<le> sp_max_tokens p"
    using budget by (auto simp: budget_terms_def host_refusals_Inr rbind_Inr_iff request_budget_def split: if_splits)
  obtain vals where v: "pages = [vals]" "2 \<le> te_budget t" "distinct blocks"
      "int (length (te_prompt t)) + te_budget t - 1 \<le> int (length vals) * 64"
      "int (length (te_prompt t)) + min 16 (te_budget t - 1) \<le> int (length blocks) * 64"
      "take (length blocks) vals = blocks" "set vals \<subseteq> set blocks"
    by (rule initial_pages_Inr [OF b]) (rule that; assumption)
  have rows: "row div 64 < length blocks \<and> vals ! (row div 64) = blocks ! (row div 64)"
    if "row < nat (int (length (te_prompt t)) + min 16 (te_budget t - 1))" for row
  proof -
    have "row < length blocks * 64" using that v(5) by linarith
    then have r: "row div 64 < length blocks" by (simp add: less_mult_imp_div_less)
    then have "take (length blocks) vals ! (row div 64) = vals ! (row div 64)" by simp
    then show ?thesis using r v(6) by simp
  qed
  show ?thesis
    using pr bl adopted_seed_Inr [OF seed] eos lim v rows by (auto simp: Let_def)
qed

definition demo_wish :: sampling where
  "demo_wish = \<lparr>sp_temperature = 0, sp_n = 1, sp_max_tokens = 8, sp_min_tokens = 0, sp_ignore_eos = True,
     sp_logprobs = None, sp_prompt_logprobs = None, sp_presence_penalty = 0, sp_frequency_penalty = 0,
     sp_repetition_penalty = 1, sp_stop = [], sp_structured = False, sp_logit_bias = [], sp_allowed_ids = [],
     sp_bad_words = [], sp_stop_ids = [], sp_primary_eos = None\<rparr>"

definition any_factory :: factory where
  "any_factory = \<lparr>fy_any_request = True, fy_extent = True, fy_source_checked = True, fy_capture_rows = Some 4,
     fy_ceiling = 256, fy_vocab = 100, fy_eos = [5], fy_helpers = 48\<rparr>"

definition prefilled :: req_state where
  "prefilled = \<lparr>rq_prompt = Some [3, 1, 2, 4], rq_output = [5], rq_computed = 0, rq_blocks = [[9]], rq_max_tokens = Some 8\<rparr>"

theorem admitted_prefill_has_room_witness:
  "te_budget (projr (prefill_terms any_factory demo_wish [[9, 9]] prefilled (Inr None))) = 8
   \<and> te_budget (projr (prefill_terms any_factory demo_wish [[9, 9]] prefilled (Inr None))) \<le> sp_max_tokens demo_wish"
proof -
  have r: "returned (prefill_terms any_factory demo_wish [[9, 9]] prefilled (Inr None))"
    "te_budget (projr (prefill_terms any_factory demo_wish [[9, 9]] prefilled (Inr None))) = 8" by code_simp+
  show ?thesis
    using admitted_prefill_has_room [OF returned_projr [OF r(1)]] r(2) by (simp add: Let_def any_factory_def)
qed

subsection \<open>Shapes\<close>

lemma geometry_cases:
  shows "serving_shape users width = Inr (Some s) \<Longrightarrow>
      packed_geometry users (ps_block_rows s) = Inr \<lparr>ge_users = ps_users s, ge_block_rows = ps_rows_per_user s,
        ge_verifier_rows = ps_block_rows s, ge_proposals_per_user = 15\<rparr>
      \<and> segment_rows s (users - 1) = Inr (ps_block_rows s - ps_rows_per_user s, ps_block_rows s)"
    and "packed_geometry users block = Inr g \<Longrightarrow>
      ge_users g * ge_block_rows g = block \<and> ge_verifier_rows g = block \<and> ge_proposals_per_user g = ge_block_rows g - 1
      \<and> ge_block_rows g \<in> {8, 16, 32} \<and> 1 \<le> ge_users g \<and> ge_users g \<le> NATIVE_GDN_SLOTS"
proof -
  assume "serving_shape users width = Inr (Some s)"
  then have s: "users = ps_users s \<and> ps_rows_per_user s = 16 \<and> (users = 2 \<and> ps_block_rows s = 32 \<or> users = 4 \<and> ps_block_rows s = 64)"
    and ok: "validate_shape s = Inr s"
    by (auto simp: serving_shape_def m1_shape_def m3_shape_def validate_shape_def rbind_Inr_iff split: if_splits)
  show "packed_geometry users (ps_block_rows s) = Inr \<lparr>ge_users = ps_users s, ge_block_rows = ps_rows_per_user s,
        ge_verifier_rows = ps_block_rows s, ge_proposals_per_user = 15\<rparr>
      \<and> segment_rows s (users - 1) = Inr (ps_block_rows s - ps_rows_per_user s, ps_block_rows s)"
    using s ok by (auto simp: packed_geometry_def segment_rows_def NATIVE_GDN_SLOTS_def)
next
  assume g: "packed_geometry users block = Inr g"
  then have "users * (block div users) = block" by (auto simp: packed_geometry_def split: if_splits)
  with g show "ge_users g * ge_block_rows g = block \<and> ge_verifier_rows g = block \<and> ge_proposals_per_user g = ge_block_rows g - 1
      \<and> ge_block_rows g \<in> {8, 16, 32} \<and> 1 \<le> ge_users g \<and> ge_users g \<le> NATIVE_GDN_SLOTS"
    by (auto simp: packed_geometry_def Let_def split: if_splits)
qed

text \<open>The configuration's geometry is the serving shape's. Wherever the packed step has a shape for a number of users,
  the policy's packed geometry accepts that block for them and gives the same rows to each, all of them but
  the anchor proposals; and every geometry the policy accepts fills its block exactly, with at most the
  native GDN slots' users and a supported share for each.\<close>

lemma geometry_is_the_serving_shape:
  "(serving_shape users width = Inr (Some s) \<longrightarrow>
      packed_geometry users (ps_block_rows s) = Inr \<lparr>ge_users = ps_users s, ge_block_rows = ps_rows_per_user s,
        ge_verifier_rows = ps_block_rows s, ge_proposals_per_user = 15\<rparr>
      \<and> segment_rows s (users - 1) = Inr (ps_block_rows s - ps_rows_per_user s, ps_block_rows s))
   \<and> (packed_geometry users block = Inr g \<longrightarrow>
      ge_users g * ge_block_rows g = block \<and> ge_verifier_rows g = block \<and> ge_proposals_per_user g = ge_block_rows g - 1
      \<and> ge_block_rows g \<in> {8, 16, 32} \<and> 1 \<le> ge_users g \<and> ge_users g \<le> NATIVE_GDN_SLOTS)"
  by (intro conjI impI geometry_cases(1) geometry_cases(2))

subsection \<open>The configuration\<close>

lemma validate_fast_config_Inr:
  assumes "validate_fast_config budget env c = Inr (profile, install)"
  shows "profile = \<lparr>fp_scheduler_requests = fc_max_num_seqs c, fp_native_gdn_slots = NATIVE_GDN_SLOTS,
              fp_verifier_rows = 16, fp_physical_devices = 2, fp_context_tokens = fc_model_len c - budget,
              fp_output_budget = budget, fp_max_model_len = fc_model_len c\<rparr>"
    and "install \<longleftrightarrow> fc_max_num_seqs c > 1 \<and> \<not> fc_scheduler_set c"
    and "1 \<le> fc_max_num_seqs c" and "fc_max_num_seqs c \<le> NATIVE_GDN_SLOTS" and "fc_block_size c = 64"
    and "minimum_model_len budget \<le> fc_model_len c" and "fc_model_len c mod 64 = 0"
    and "parked_engine_problems env (fc_max_num_seqs c) = []"
    and "fc_prefix_caching c \<Longrightarrow> prefix_cache_admitted (fc_hash_algo c) env = Inr True"
  using assms
  by (auto simp: validate_fast_config_def rbind_Inr_iff cache_problem_def split: if_splits)

text \<open>a configuration the server starts with holds every request it admits. The context and the output budget fill
  the model length, which is whole pages; so a request whose sampling parameters are accepted and whose
  prompt fits the context ends inside the model length; prefix caching runs only with sticky sessions,
  prefix reuse and sha256; and parked engines only with any-request serving, the extent block and exactly
  four users, whose packed block is the 64-row one of sixteen rows each.\<close>

lemma started_config_holds_requests:
  assumes "validate_fast_config budget env c = Inr (profile, install)"
  shows "fp_context_tokens profile + fp_output_budget profile = fp_max_model_len profile
    \<and> 4096 \<le> fp_context_tokens profile \<and> 64 dvd fp_max_model_len profile
    \<and> (validate_request_sampling budget p prompt eos = Inr () \<and> prompt \<le> fp_context_tokens profile
         \<longrightarrow> prompt + sp_max_tokens p \<le> fp_max_model_len profile)
    \<and> (fc_prefix_caching c \<longrightarrow> sticky_sessions_enabled env = Inr True \<and> fc_hash_algo c = Some ''sha256'')
    \<and> (parked_engines_enabled env = Inr True \<longrightarrow> any_request_enabled env = Inr True \<and> extent_replay_enabled env = Inr True
         \<and> (\<exists>g. packed_geometry (fc_max_num_seqs c) 64 = Inr g \<and> ge_users g = 4 \<and> ge_block_rows g = 16))"
proof -
  note i = validate_fast_config_Inr [OF assms]
  have cache: "sticky_sessions_enabled env = Inr True \<and> fc_hash_algo c = Some ''sha256''" if "fc_prefix_caching c"
    using i(9) [OF that] by (auto simp: prefix_cache_admitted_def rbind_Inr_iff)
  have parked: "any_request_enabled env = Inr True \<and> extent_replay_enabled env = Inr True \<and> fc_max_num_seqs c = 4"
    if "parked_engines_enabled env = Inr True"
    using i(8) that by (auto simp: parked_engine_problems_def parked_shape_problems_def parked_needs_def any_request_enabled_def
        extent_replay_enabled_def binary_flag_def env_value_def Let_def split: if_splits)
  show ?thesis
    using i(1,6,7) cache parked
    by (auto simp: minimum_model_len_def validate_request_sampling_def packed_geometry_def NATIVE_GDN_SLOTS_def
        mod_0_imp_dvd split: if_splits)
qed

definition demo_config :: fast_config where
  "demo_config = \<lparr>fc_extra = Fast_Entry (Some True), fc_max_num_seqs = 4, fc_async = False, fc_tensor_parallel = 1,
     fc_pipeline_parallel = 1, fc_data_parallel = 1, fc_block_size = 64, fc_prefix_caching = True,
     fc_hash_algo = Some ''sha256'', fc_lora = False, fc_model_len = 8192,
     fc_speculative = Some (''dflash'', 15, ''greedy'', ''standard''), fc_scheduler_set = False\<rparr>"

definition demo_env :: environ where
  "demo_env = [(''QWEN_FAST_STICKY_SESSIONS'', ''1''), (''QWEN_PREFIX_REUSE'', ''1''), (''QWEN_FAST_PARKED_ENGINES'', ''1''),
     (''QWEN_FAST_ANY_REQUEST'', ''1''), (''QWEN_FAST_EXTENT_REPLAY'', ''1''), (''QWEN_FAST_PACKED_STEP'', ''1''),
     (''QWEN_FAST_SHARED_CCL'', ''1''), (''QWEN_FAST_VERIFY_T1'', ''1'')]"

lemma started_config_holds_requests_witness:
  "fp_context_tokens (fst (projr (validate_fast_config 256 demo_env demo_config))) + 256 = 8192
   \<and> sticky_sessions_enabled demo_env = Inr True \<and> any_request_enabled demo_env = Inr True"
proof -
  have "returned (validate_fast_config 256 demo_env demo_config)" by code_simp
  from returned_projr [OF this] obtain profile install where v: "validate_fast_config 256 demo_env demo_config = Inr (profile, install)"
    by (metis prod.collapse)
  have p: "parked_engines_enabled demo_env = Inr True" "fc_prefix_caching demo_config" by code_simp+
  have f: "fp_output_budget profile = 256 \<and> fp_max_model_len profile = 8192"
    using validate_fast_config_Inr(1) [OF v] by (simp add: demo_config_def)
  show ?thesis using started_config_holds_requests [OF v, of demo_wish 1 "[]"] p f by (simp add: v)
qed

subsection \<open>Proposal buckets\<close>

lemma rung_at_least_Inr: "rung_at_least n = Inr r \<Longrightarrow> r \<in> set proposal_rungs \<and> n \<le> r \<and> (\<forall>r' \<in> set proposal_rungs. n \<le> r' \<longrightarrow> r \<le> r')"
  by (auto simp: rung_at_least_def proposal_rungs_def split: if_splits)

lemma ladder_covers:
  assumes "proposal_contexts position max_new = Inr rungs" and "0 \<le> n" and "n \<le> max_new"
  shows "\<exists>rung \<in> set rungs. min (position + n) 2048 \<le> rung"
proof -
  obtain first last where f: "rung_at_least (min position 2048) = Inr first" and l: "rung_at_least (min 2048 (position + max_new)) = Inr last"
    and r: "rungs = filter (\<lambda>rows. first \<le> rows \<and> rows \<le> last) proposal_rungs"
    using assms(1) by (auto simp: proposal_contexts_def rbind_Inr_iff split: if_splits)
  note f = rung_at_least_Inr [OF f] and l = rung_at_least_Inr [OF l]
  have "first \<le> last" using f l assms(2,3) by (auto simp: min_def split: if_splits)
  then have "last \<in> set rungs" using l r by simp
  moreover have "min (position + n) 2048 \<le> last" using l assms(3) by (auto simp: min_def split: if_splits)
  ultimately show ?thesis by blast
qed

lemma proposal_contexts_bounds:
  assumes "proposal_contexts position max_new = Inr rungs"
  shows "1 \<le> position" and "position + max_new \<le> 262112" and "set rungs \<subseteq> set proposal_rungs"
  using assms by (auto simp: proposal_contexts_def rbind_Inr_iff split: if_splits)

lemma proposal_inputs_returns:
  assumes "draft_attention_mask h b 32 = Inr mk" and "0 \<le> seed" "seed < 248320" and "1 \<le> p" "p \<le> 262112"
    and "1 \<le> h" "h \<le> min p 2048" and "b \<in> {8, 16, 32}" and "c \<in> {256, 512, 1024, 2048}" and "h \<le> c"
  shows "returned (proposal_inputs seed p h b c)"
proof -
  have "rope_tables p 32 = Inr [p..<p + 32]" "rope_tables (p - h) h = Inr [p - h..<p - h + h]"
    using assms(4-7) by (simp_all add: rope_tables_def)
  moreover have "\<not> (\<not> (0 \<le> seed \<and> seed < 248320) \<or> \<not> (1 \<le> p \<and> p \<le> 262112) \<or> \<not> (1 \<le> h \<and> h \<le> min p 2048)
      \<or> b \<notin> {8, 16, 32} \<or> c \<notin> {256, 512, 1024, 2048} \<or> h > c)" using assms by linarith
  ultimately show ?thesis unfolding proposal_inputs_def by (simp only: if_False assms(1) rbind_simps returned_simps)
qed

text \<open>C24: every draft of an admitted request has its bucket. Build the ladder for a request at its prefilled position with
  its budget, or the single 2048 bucket of the extent path: at every position the request may draft from,
  some bucket of the ladder is at least as wide as the committed history, and the proposal's inputs in that
  bucket are built, with no refusal of position, history, width or rotary range.\<close>

theorem ladder_serves_every_draft:
  assumes "proposal_ladder single position budget = Inr rungs" and "0 \<le> n" and "n \<le> budget"
    and "0 \<le> seed" and "seed < 248320" and "block \<in> {8, 16, 32}"
  shows "\<exists>rung \<in> set rungs. min (position + n) 2048 \<le> rung
    \<and> returned (proposal_inputs seed (nat (position + n)) (nat (min (position + n) 2048)) block (nat rung))"
proof -
  obtain ladder where l: "proposal_contexts position budget = Inr ladder" and r: "rungs = (if single then [2048] else ladder)"
    using assms(1) by (auto simp: proposal_ladder_def single_bucket_contexts_def rbind_Inr_iff split: if_splits)
  note b = proposal_contexts_bounds [OF l]
  obtain rung where rung: "rung \<in> set rungs" "min (position + n) 2048 \<le> rung" "rung \<in> set proposal_rungs"
    using ladder_covers [OF l assms(2,3)] b(3) r by (cases single) (auto simp: proposal_rungs_def)
  have "returned (draft_attention_mask (nat (min (position + n) 2048)) block 32)"
    using assms(6) by (auto simp: draft_attention_mask_def draft_mask_def Let_def returned_def)
  then obtain mk where "draft_attention_mask (nat (min (position + n) 2048)) block 32 = Inr mk" using returned_projr by blast
  moreover have "1 \<le> nat (position + n)" "nat (position + n) \<le> 262112" "1 \<le> nat (min (position + n) 2048)"
    "nat (min (position + n) 2048) \<le> min (nat (position + n)) 2048" "nat (min (position + n) 2048) \<le> nat rung"
    using b(1,2) assms(2,3) rung(2) by linarith+
  moreover have "nat rung \<in> {256, 512, 1024, 2048}" using rung(3) by (auto simp: proposal_rungs_def)
  ultimately have "returned (proposal_inputs seed (nat (position + n)) (nat (min (position + n) 2048)) block (nat rung))"
    using assms(4-6) by (intro proposal_inputs_returns)
  then show ?thesis using rung by blast
qed

theorem ladder_serves_every_draft_witness:
  "\<exists>rung \<in> set [256, 512]. min (200 + 100) 2048 \<le> rung
     \<and> returned (proposal_inputs 7 (nat (200 + 100)) (nat (min (200 + 100) 2048)) 16 (nat rung))"
proof -
  have "proposal_ladder False 200 300 = Inr [256, 512]" by code_simp
  from ladder_serves_every_draft [OF this, of 100 7 16] show ?thesis by simp
qed

end
