(* ===== verification/LifecycleProps.thy ===== *)
theory LifecycleProps
  imports LifecycleSteps PrefillProps FactoryProps WorkerDemo
begin

text \<open>
  What the lifecycle promises: one prefill at a time behind its gate, the hook serving exactly the decoding requests, a
  prefill's exact tail at the moment its request is bridged, and one way out of the prefill phase.
\<close>

text \<open>Any order of steps, samples and closings; \<open>aborted\<close> is the scheduler's update, which empties the pending list.\<close>

inductive lifecycle_step ::
  "('s, 'r, 'f) served_by \<Rightarrow> (string \<Rightarrow> nat \<Rightarrow> int \<Rightarrow> 'f) \<Rightarrow> (string \<Rightarrow> int) \<Rightarrow> ('s, 'r, 'f) lifecycle \<Rightarrow> ('s, 'r, 'f) lifecycle \<Rightarrow> bool"
  for sv :: "('s, 'r, 'f) served_by" and feats :: "string \<Rightarrow> nat \<Rightarrow> int \<Rightarrow> 'f" and prompt_size :: "string \<Rightarrow> int" where
  execute: "given_ok feats prompt_size sg \<Longrightarrow> lifecycle_step sv feats prompt_size lc (snd (lifecycle_execute sv sg lc))"
| sample: "keeps hook_side sampler \<Longrightarrow>
    lifecycle_step sv feats prompt_size lc (snd (lifecycle_sample sv sg idle sampler grammar lc))"
| close: "lifecycle_step sv feats prompt_size lc (snd (lifecycle_close sv sg lc))"
| aborted: "lifecycle_step sv feats prompt_size lc (lc\<lparr>lc_quarantined := []\<rparr>)"

definition lifecycle_start :: "('s, 'r, 'f) served_by \<Rightarrow> ('s, 'r, 'f) lifecycle \<Rightarrow> bool" where
  "lifecycle_start sv lc \<longleftrightarrow> (\<exists>budget env c driver v rn. lifecycle_init budget env c driver v rn = Inr lc)
     \<and> (\<forall>r c. keeps hook_side (sv_bridge sv r c)) \<and> (\<forall>m. sv_idle sv = Some m \<longrightarrow> keeps hook_side m)"

text \<open>The callbacks the lifecycle is given leave the hook's registry alone.\<close>

definition lifecycle_inv ::
  "('s, 'r, 'f) served_by \<Rightarrow> (string \<Rightarrow> nat \<Rightarrow> int \<Rightarrow> 'f) \<Rightarrow> (string \<Rightarrow> int) \<Rightarrow> ('s, 'r, 'f) lifecycle \<Rightarrow> bool" where
  "lifecycle_inv sv feats prompt_size lc \<longleftrightarrow> lifecycle_ok (sv_maximum sv) feats prompt_size lc
     \<and> (\<forall>r c. keeps hook_side (sv_bridge sv r c)) \<and> (\<forall>m. sv_idle sv = Some m \<longrightarrow> keeps hook_side m)"

lemma lifecycle_start_ok: "lifecycle_start sv lc \<Longrightarrow> lifecycle_inv sv feats prompt_size lc"
  by (auto simp: lifecycle_start_def lifecycle_inv_def lifecycle_init_def rbind_Inr_iff lifecycle_ok_def decode_ok_def
      prefill_ok_def hook_side_def split: if_splits)

lemma aborted_ok: "lifecycle_ok maximum feats prompt_size lc \<Longrightarrow> lifecycle_ok maximum feats prompt_size (lc\<lparr>lc_quarantined := []\<rparr>)"
  using decode_ok_side [of "lc\<lparr>lc_quarantined := []\<rparr>" lc] prefill_ok_side [of "lc\<lparr>lc_quarantined := []\<rparr>" lc]
  by (auto simp: lifecycle_ok_def decode_side_def prefill_side_def)

interpretation lifecycle: invariant_system "lifecycle_start sv" "lifecycle_step sv feats prompt_size" "lifecycle_inv sv feats prompt_size"
proof unfold_locales
  fix lc lc' :: "('a, 'b, 'c) lifecycle"
  assume inv: "lifecycle_inv sv feats prompt_size lc" and "lifecycle_step sv feats prompt_size lc lc'"
  from this(2) have "lifecycle_ok (sv_maximum sv) feats prompt_size lc'"
  proof cases
    case execute
    then show ?thesis using lifecycle_execute_ok inv by (auto simp: lifecycle_inv_def)
  next
    case (sample sampler sg idle grammar)
    then show ?thesis using lifecycle_sample_ok [of sv sampler "sv_maximum sv" feats prompt_size lc sg idle grammar] inv
      by (simp add: lifecycle_inv_def)
  next
    case close
    then show ?thesis using lifecycle_close_ok inv by (auto simp: lifecycle_inv_def)
  next
    case aborted
    then show ?thesis using aborted_ok inv by (auto simp: lifecycle_inv_def)
  qed
  then show "lifecycle_inv sv feats prompt_size lc'" using inv by (simp add: lifecycle_inv_def)
qed (rule lifecycle_start_ok)

text \<open>C5: In every reachable state of a lifecycle that has not failed, the prefill gate names the request in its prefill
  phase; the hook serves a bridge for exactly the decoding requests, each once, in their order of arrival, and is there
  exactly while one decodes; and a prefill waiting for its first token has its whole prompt captured: the drafter is
  handed the target's features of exactly the last 2048 rows of that request's own prompt, whatever other requests
  prefilled, decoded or finished between its chunks.\<close>

theorem gate_hook_and_capture_agree:
  assumes reach: "reachable (lifecycle_start sv) (lifecycle_step sv feats prompt_size) lc" and live: "\<not> lc_failed lc"
  shows "lc_gate lc = lc_request lc \<and> map fst (wk_bridges (lc_worker lc)) = lc_decoding_ids lc \<and> distinct (lc_decoding_ids lc)
    \<and> (lc_hook lc \<longleftrightarrow> lc_decoding_ids lc \<noteq> [])
    \<and> (lc_pending lc \<longrightarrow> (\<exists>r c. lc_request lc = Some r \<and> lc_capture lc = Some c
         \<and> fst (capture_outputs (sv_maximum sv) c)
             = Inr (map (\<lambda>tap. map (feats r tap) [max 0 (prompt_size r - 2048)..prompt_size r - 1]) (pc_taps c))))"
proof -
  have "lifecycle_inv sv feats prompt_size lc" by (rule lifecycle.inv_reachable [OF reach])
  then have ok: "decode_ok lc" "prefill_ok (sv_maximum sv) feats prompt_size lc"
    using live by (simp_all add: lifecycle_inv_def lifecycle_ok_def)
  have "\<exists>r c. lc_request lc = Some r \<and> lc_capture lc = Some c \<and> fst (capture_outputs (sv_maximum sv) c)
      = Inr (map (\<lambda>tap. map (feats r tap) [max 0 (prompt_size r - 2048)..prompt_size r - 1]) (pc_taps c))" if p: "lc_pending lc"
  proof -
    obtain r c where "lc_request lc = Some r" "lc_capture lc = Some c" and c: "capture_ok (sv_maximum sv) (feats r) c"
        "pc_complete c" "\<not> pc_closed c" and "pc_position c = prompt_size r"
      using ok(2) p by (auto simp: prefill_ok_def split: option.splits)
    then show ?thesis using complete_outputs [OF c] by (simp add: tail_features_def tail_start_def)
  qed
  then show ?thesis using ok by (simp add: decode_ok_def hook_side_def prefill_ok_def)
qed

text \<open>One request on the demonstration worker: its whole prompt of six rows in one step, then its first token.\<close>

definition demo_lifecycle :: "(int list, int list \<times> int list, int) lifecycle" where
  "demo_lifecycle = projr (lifecycle_init 256 demo_env demo_config True demo_world worker_runner)"

definition demo_serving :: "(int list, int list \<times> int list, int) served_by" where
  "demo_serving = \<lparr>sv_any_request = True, sv_sticky = False, sv_quarantine = True, sv_legacy = False, sv_eos = [],
     sv_ceiling = 256, sv_model_len = Some 8192, sv_maximum = 65504, sv_layers = 3, sv_taps = [1], sv_route = False,
     sv_packed = Each_Alone, sv_device = demo_device, sv_sentinels = False, sv_forced = None,
     sv_bridge = (\<lambda>r c. op_return worker_bridge), sv_release = (\<lambda>_. None), sv_idle = None\<rparr>"

definition demo_step :: sched_step where
  "demo_step = \<lparr>sc_new = [''r''], sc_finished = [], sc_preempted = [], sc_structured = False, sc_encoder = False, sc_cached = [],
     sc_resumed = [], sc_computed = [], sc_counts = [(''r'', 6)], sc_total = 6, sc_drafts = []\<rparr>"

definition demo_given :: "(int list, int list \<times> int list, int) step_given" where
  "demo_given = \<lparr>sg_step = demo_step,
     sg_arrival = (\<lambda>_. \<lparr>ar_prompt = Some demo_prompt, ar_computed = 0, ar_extra = False, ar_sampling = demo_sampling\<rparr>),
     sg_grant = (\<lambda>_. None), sg_host = demo_host, sg_cancels = demo_cancels, sg_unsampled = False, sg_mixed_ok = False,
     sg_calls = [Batched Paged_Slots [0] False None, Chunk 6 0 32 (demo_layers 0 5) (Inr ())], sg_deferred = True,
     sg_nested = False, sg_released = Inr ()\<rparr>"

definition demo_feats :: "string \<Rightarrow> nat \<Rightarrow> int \<Rightarrow> int" where
  "demo_feats r layer i = 100 * int layer + i"

definition demo_waiting :: "(int list, int list \<times> int list, int) lifecycle" where
  "demo_waiting = snd (lifecycle_execute demo_serving demo_given demo_lifecycle)"

definition demo_sampler :: "(int list, int list \<times> int list, sampled_step option) worker_op" where
  "demo_sampler = op_return (Some \<lparr>sm_requests = [''r''], sm_tokens = [[0]]\<rparr>)"

definition demo_decoding :: "sampled_step option result \<times> (int list, int list \<times> int list, int) lifecycle" where
  "demo_decoding = lifecycle_sample demo_serving demo_given True demo_sampler False demo_waiting"

lemma demo_given_ok: "given_ok demo_feats (\<lambda>_. 6) demo_given"
proof -
  have "list_all (faithful (demo_feats ''r'')) (sg_calls demo_given)" by code_simp
  then show ?thesis by (simp add: given_ok_def keeps_def demo_given_def demo_host_def demo_step_def demo_prompt_def)
qed

lemma demo_lifecycle_start: "lifecycle_start demo_serving demo_lifecycle"
proof -
  have "returned (lifecycle_init 256 demo_env demo_config True demo_world worker_runner :: (int list, int list \<times> int list, int) lifecycle result)"
    by code_simp
  then have "lifecycle_init 256 demo_env demo_config True demo_world worker_runner = Inr demo_lifecycle"
    unfolding demo_lifecycle_def by (rule returned_projr)
  then have "\<exists>budget env c driver v rn. lifecycle_init budget env c driver v rn = Inr demo_lifecycle" by blast
  then show ?thesis by (simp add: lifecycle_start_def demo_serving_def keeps_return)
qed

lemma demo_waiting_reachable: "reachable (lifecycle_start demo_serving) (lifecycle_step demo_serving demo_feats (\<lambda>_. 6)) demo_waiting"
proof -
  have "reachable (lifecycle_start demo_serving) (lifecycle_step demo_serving demo_feats (\<lambda>_. 6)) demo_lifecycle"
    by (rule reachable.initial) (rule demo_lifecycle_start)
  then show ?thesis unfolding demo_waiting_def by (rule reachable.step) (rule lifecycle_step.execute [OF demo_given_ok])
qed

lemma demo_waiting_values:
  "lc_pending demo_waiting \<and> \<not> lc_failed demo_waiting \<and> lc_request demo_waiting = Some ''r''
    \<and> map_option pc_taps (lc_capture demo_waiting) = Some [1]"
  by code_simp

lemma demo_decoding_values: "fst demo_decoding = Inr (Some \<lparr>sm_requests = [''r''], sm_tokens = [[0]]\<rparr>)
    \<and> lc_decoding_ids (snd demo_decoding) = [''r'']"
  by code_simp

theorem gate_hook_and_capture_agree_witness:
  "lc_gate demo_waiting = Some ''r''
    \<and> (\<exists>c. lc_capture demo_waiting = Some c \<and> fst (capture_outputs 65504 c) = Inr [map (\<lambda>i. 100 + i) [0..5]])"
  using gate_hook_and_capture_agree [OF demo_waiting_reachable] demo_waiting_values
  by (auto simp: demo_serving_def demo_feats_def)

text \<open>C23: A prefill that is sampled leaves the prefill phase in one of three ways. The answer names that request and its one
  seed, the gate and the capture are released, and the request has either ended at its seed, or is registered with the
  quarantine, or decodes: appended to the decoding requests with a bridge of the hook. No decoding request is touched in the
  first two ways, and none is detached in the third.\<close>

theorem sampled_prefill_leaves_its_phase:
  assumes reach: "reachable (lifecycle_start sv) (lifecycle_step sv feats prompt_size) lc" and pending: "lc_pending lc"
    and sampler: "keeps hook_side sampler" and run: "lifecycle_sample sv sg idle sampler grammar lc = (Inr out, lc')"
  shows "\<exists>r seed. lc_request lc = Some r \<and> out = Some \<lparr>sm_requests = [r], sm_tokens = [[seed]]\<rparr> \<and> phase_over lc'
    \<and> (ended lc lc' \<or> quarantined r lc lc' \<or> decoding r lc lc') \<and> \<not> (decoding r lc lc' \<and> (ended lc lc' \<or> quarantined r lc lc'))"
proof -
  have inv: "lifecycle_inv sv feats prompt_size lc" by (rule lifecycle.inv_reachable [OF reach])
  have "\<not> lc_failed lc" using run by (auto simp: lifecycle_sample_def lifecycle_check_def op_returned)
  then have ok: "decode_ok lc" "prefill_ok (sv_maximum sv) feats prompt_size lc" and factory: "\<And>r c. keeps hook_side (sv_bridge sv r c)"
    using inv by (simp_all add: lifecycle_inv_def lifecycle_ok_def)
  have "\<not> (decoding r lc lc' \<and> (ended lc lc' \<or> quarantined r lc lc'))" for r
    by (auto simp: decoding_def ended_def quarantined_def decode_side_def)
  then show ?thesis using sample_outcome [OF factory sampler ok pending run] by blast
qed

theorem sampled_prefill_leaves_its_phase_witness:
  "phase_over (snd demo_decoding) \<and> decoding ''r'' demo_waiting (snd demo_decoding)"
proof -
  have run: "lifecycle_sample demo_serving demo_given True demo_sampler False demo_waiting
      = (Inr (Some \<lparr>sm_requests = [''r''], sm_tokens = [[0]]\<rparr>), snd demo_decoding)"
    using demo_decoding_values unfolding demo_decoding_def by (metis prod.collapse)
  have "keeps hook_side demo_sampler" by (simp add: demo_sampler_def keeps_return)
  from sampled_prefill_leaves_its_phase [OF demo_waiting_reachable _ this run] demo_waiting_values
  have "phase_over (snd demo_decoding) \<and> (ended demo_waiting (snd demo_decoding)
      \<or> quarantined ''r'' demo_waiting (snd demo_decoding) \<or> decoding ''r'' demo_waiting (snd demo_decoding))" by auto
  moreover have "lc_decoding_ids demo_waiting = []" by code_simp
  ultimately show ?thesis using demo_decoding_values by (auto simp: ended_def quarantined_def decode_side_def)
qed

end
