(* ===== verification/Quarantine.thy ===== *)
theory Quarantine
  imports ServingLifecycle
begin

text \<open>
  The scheduler's side of the request quarantine, \<open>scripts/ci/serving_request_quarantine.py\<close>: after every
  \<open>update_from_output\<close> the registered requests are finished as aborted and their outputs marked.

  The scheduler is vLLM's and not code of the repository: \<open>client\<close> is its lookup of a live request's client
  index and \<open>finish\<close> its \<open>finish_requests\<close> with FINISHED_ABORTED. Log lines and the import of vLLM's types are left out.
\<close>

datatype finish_reason = STOP | LENGTH | ABORT

record engine_output =
  eo_request :: string
  eo_tokens :: "int list"
  eo_finish :: "finish_reason option"

text \<open>EngineCoreOutputs per client index, or of the one client.\<close>

datatype core_outputs = Per_Client "(int \<times> engine_output list) list" | One_Client "engine_output list"

fun mark_aborted :: "string \<Rightarrow> engine_output list \<Rightarrow> engine_output list" where
  "mark_aborted r [] = [\<lparr>eo_request = r, eo_tokens = [], eo_finish = Some ABORT\<rparr>]"
| "mark_aborted r (out # outs) =
     (if eo_request out = r then out\<lparr>eo_finish := Some ABORT\<rparr> # outs else out # mark_aborted r outs)"

definition client_batch :: "int \<Rightarrow> core_outputs \<Rightarrow> engine_output list" where
  "client_batch client outs = (case outs of
     Per_Client d \<Rightarrow> (case map_of d client of None \<Rightarrow> [] | Some batch \<Rightarrow> batch) | One_Client batch \<Rightarrow> batch)"

definition set_batch :: "int \<Rightarrow> engine_output list \<Rightarrow> core_outputs \<Rightarrow> core_outputs" where
  "set_batch client batch outs = (case outs of
     Per_Client d \<Rightarrow> Per_Client (dict_set client batch d) | One_Client _ \<Rightarrow> One_Client batch)"

text \<open>One registered request; one the scheduler no longer knows has finished already.\<close>

definition abort_one ::
  "('v \<Rightarrow> string \<Rightarrow> int option) \<Rightarrow> (string \<Rightarrow> 'v \<Rightarrow> 'v) \<Rightarrow> string \<Rightarrow> 'v \<times> core_outputs \<Rightarrow> 'v \<times> core_outputs" where
  "abort_one client finish r = (\<lambda>(v, outs). case client v r of
     None \<Rightarrow> (v, outs)
   | Some c \<Rightarrow> (finish r v, set_batch c (mark_aborted r (client_batch c outs)) outs))"

text \<open>The state after, and the pending list, which is emptied.\<close>

definition abort_quarantined ::
  "('v \<Rightarrow> string \<Rightarrow> int option) \<Rightarrow> (string \<Rightarrow> 'v \<Rightarrow> 'v) \<Rightarrow> (string \<times> quarantine_reason) list \<Rightarrow> 'v \<times> core_outputs
     \<Rightarrow> ('v \<times> core_outputs) \<times> (string \<times> quarantine_reason) list" where
  "abort_quarantined client finish pending vo = (fold (abort_one client finish) (map fst pending) vo, [])"

text \<open>The wrapped \<open>update_from_output\<close>; \<open>original\<close> is the scheduler's own.\<close>

definition update_from_output ::
  "('v \<Rightarrow> string \<Rightarrow> int option) \<Rightarrow> (string \<Rightarrow> 'v \<Rightarrow> 'v) \<Rightarrow> ('v \<Rightarrow> 'v \<times> core_outputs) \<Rightarrow> (string \<times> quarantine_reason) list \<Rightarrow> 'v
     \<Rightarrow> ('v \<times> core_outputs) \<times> (string \<times> quarantine_reason) list" where
  "update_from_output client finish original pending v = abort_quarantined client finish pending (original v)"

subsection \<open>What an abort does\<close>

definition outputs_of :: "string \<Rightarrow> int \<Rightarrow> core_outputs \<Rightarrow> engine_output list" where
  "outputs_of r c outs = filter (\<lambda>out. eo_request out = r) (client_batch c outs)"

lemma mark_aborted_others: "r' \<noteq> r \<Longrightarrow> filter (\<lambda>out. eo_request out = r') (mark_aborted r outs) = filter (\<lambda>out. eo_request out = r') outs"
  by (induction outs) auto

lemma mark_aborted_head: "\<exists>out rest. filter (\<lambda>out. eo_request out = r) (mark_aborted r outs) = out # rest \<and> eo_finish out = Some ABORT
    \<and> eo_tokens out = (case filter (\<lambda>out. eo_request out = r) outs of [] \<Rightarrow> [] | first # _ \<Rightarrow> eo_tokens first)"
  by (induction outs) (auto split: list.splits)

lemma batch_set: "client_batch c' (set_batch c batch outs) = (if c' = c \<or> (\<exists>b. outs = One_Client b) then batch else client_batch c' outs)"
  by (auto simp: client_batch_def set_batch_def map_of_dict_set split: core_outputs.splits)

text \<open>vLLM's \<open>finish_requests\<close> takes the request out of the live ones and no other.\<close>

definition finishes :: "('v \<Rightarrow> string \<Rightarrow> int option) \<Rightarrow> (string \<Rightarrow> 'v \<Rightarrow> 'v) \<Rightarrow> bool" where
  "finishes client finish \<longleftrightarrow> (\<forall>r v r'. client (finish r v) r' = (if r' = r then None else client v r'))"

text \<open>What the first output of an aborted request says.\<close>

definition aborted_output :: "engine_output list \<Rightarrow> engine_output list \<Rightarrow> bool" where
  "aborted_output before after \<longleftrightarrow> (\<exists>out rest. after = out # rest \<and> eo_finish out = Some ABORT
     \<and> eo_tokens out = (case before of [] \<Rightarrow> [] | first # _ \<Rightarrow> eo_tokens first))"

lemma abort_one_effect:
  assumes law: "finishes client finish" and run: "abort_one client finish r (v, outs) = (v', outs')"
  shows "client v' r' = (if r' = r then None else client v r')"
    and "r' \<noteq> r \<Longrightarrow> outputs_of r' c outs' = outputs_of r' c outs"
    and "client v r = Some c \<Longrightarrow> aborted_output (outputs_of r c outs) (outputs_of r c outs')"
    and "client v r = None \<Longrightarrow> outputs_of r c outs' = outputs_of r c outs"
proof -
  show "client v' r' = (if r' = r then None else client v r')"
    using law run by (auto simp: abort_one_def finishes_def split: option.splits)
  show "outputs_of r' c outs' = outputs_of r' c outs" if ne: "r' \<noteq> r"
  proof (cases "client v r")
    case (Some d)
    have o: "outs' = set_batch d (mark_aborted r (client_batch d outs)) outs" using run Some by (simp add: abort_one_def)
    show ?thesis
    proof (cases outs)
      case (One_Client b)
      then show ?thesis using mark_aborted_others [OF ne] by (simp add: o outputs_of_def client_batch_def set_batch_def)
    qed (use mark_aborted_others [OF ne] in \<open>simp add: o outputs_of_def batch_set\<close>)
  qed (use run in \<open>simp add: abort_one_def\<close>)
  show "aborted_output (outputs_of r c outs) (outputs_of r c outs')" if "client v r = Some c"
    using that run mark_aborted_head [of r "client_batch c outs"]
    by (auto simp: abort_one_def outputs_of_def batch_set aborted_output_def)
  show "outputs_of r c outs' = outputs_of r c outs" if "client v r = None"
    using that run by (simp add: abort_one_def)
qed

lemma abort_fold_effect:
  assumes law: "finishes client finish" and "fold (abort_one client finish) rs (v, outs) = (v', outs')"
  shows "client v' r = (if r \<in> set rs then None else client v r)
    \<and> (r \<notin> set rs \<or> client v r = None \<longrightarrow> outputs_of r c outs' = outputs_of r c outs)
    \<and> (r \<in> set rs \<and> client v r = Some c \<longrightarrow> aborted_output (outputs_of r c outs) (outputs_of r c outs'))"
  using assms(2)
proof (induction rs arbitrary: v outs)
  case (Cons x rs)
  obtain v1 o1 where one: "abort_one client finish x (v, outs) = (v1, o1)" by force
  note e = abort_one_effect [OF law one]
  have "fold (abort_one client finish) rs (v1, o1) = (v', outs')" using Cons.prems one by simp
  note ih = Cons.IH [OF this]
  show ?case
  proof (cases "r = x")
    case True
    then have "client v1 r = None" using e(1) [of r] by simp
    then show ?thesis using ih e(3,4) True by auto
  next
    case False
    then show ?thesis using ih e(1,2) by simp
  qed
qed simp

text \<open>C25: The scheduler's update ends exactly the requests the worker registered. Each of them that the scheduler still
  knows is live no longer and its first output of the step is marked aborted, keeping the tokens it had (or, where the step
  answered none, added with none); every other request stays as live as it was with its outputs untouched, and nothing is
  left registered.\<close>

theorem update_ends_registered_requests:
  assumes law: "finishes client finish"
    and run: "update_from_output client finish original pending v = ((v', outs'), remaining)" and "original v = (v0, outs)"
  shows "remaining = []
    \<and> (\<forall>r. client v' r = (if r \<in> fst ` set pending then None else client v0 r))
    \<and> (\<forall>r c. r \<notin> fst ` set pending \<or> client v0 r = None \<longrightarrow> outputs_of r c outs' = outputs_of r c outs)
    \<and> (\<forall>r c. r \<in> fst ` set pending \<and> client v0 r = Some c \<longrightarrow> aborted_output (outputs_of r c outs) (outputs_of r c outs'))"
proof -
  have f: "fold (abort_one client finish) (map fst pending) (v0, outs) = (v', outs')" and "remaining = []"
    using run assms(3) by (simp_all add: update_from_output_def abort_quarantined_def)
  then show ?thesis using abort_fold_effect [OF law f] by simp
qed

text \<open>Two live requests of one client: the first is registered and answered a token, the second decodes on.\<close>

definition demo_outputs :: core_outputs where
  "demo_outputs = Per_Client [(0, [\<lparr>eo_request = ''a'', eo_tokens = [7], eo_finish = None\<rparr>,
     \<lparr>eo_request = ''b'', eo_tokens = [8, 9], eo_finish = None\<rparr>])]"

theorem update_ends_registered_requests_witness:
  "finishes (\<lambda>v. v) (\<lambda>r v. v(r := None))
    \<and> outputs_of ''b'' 0 (snd (fst (update_from_output (\<lambda>v. v) (\<lambda>r v. v(r := None)) (\<lambda>v. (v, demo_outputs))
         [(''a'', Bridge_Refused)] [''a'' \<mapsto> 0, ''b'' \<mapsto> 0]))) = outputs_of ''b'' 0 demo_outputs"
proof -
  have law: "finishes (\<lambda>v. v) (\<lambda>r (v :: string \<Rightarrow> int option). v(r := None))" by (simp add: finishes_def)
  let ?u = "update_from_output (\<lambda>v. v) (\<lambda>r v. v(r := None)) (\<lambda>v. (v, demo_outputs)) [(''a'', Bridge_Refused)] [''a'' \<mapsto> 0, ''b'' \<mapsto> (0::int)]"
  obtain v' outs' remaining where u: "?u = ((v', outs'), remaining)" by (metis prod.collapse)
  show ?thesis using law update_ends_registered_requests [OF law u] u by simp
qed

end
