(* ===== verification/ChunkGroups.thy ===== *)
theory ChunkGroups
  imports CapturePlan
begin

text \<open>
  How the rows of a verify block are grouped for the replay readers: \<open>chunk_groups\<close> and \<open>parallel_groups\<close> of
  \<open>scripts/ci/attention_head_fold.py\<close>, and the chunk families of \<open>pooled_attention_replay.py\<close> whose page tables
  the serving pool holds. Rows of one group share their native chunk size and capacity; a bundle is at most three
  groups of one shape.
\<close>

record chunk_group =
  cg_offset :: int
  cg_rows :: int
  cg_signature :: "int \<times> int"

text \<open>\<open>n.bit_length()\<close>.\<close>

fun bit_length :: "nat \<Rightarrow> nat" where
  "bit_length 0 = 0"
| "bit_length (Suc n) = Suc (bit_length (Suc n div 2))"

definition chunk_signature :: "int \<Rightarrow> int \<Rightarrow> int \<times> int" where
  "chunk_signature max_tiles position =
     (let tiles = position div 32 + 1;
          chunk_size = min max_tiles (2 ^ bit_length (nat (tiles - 1))) * 32
      in (chunk_size, ((position + 1 + chunk_size - 1) div chunk_size) * chunk_size))"

text \<open>One row of the loop: it joins the last group of its signature that has room, or opens one.\<close>

definition add_row :: "int \<Rightarrow> int \<Rightarrow> int \<Rightarrow> chunk_group list \<Rightarrow> int \<Rightarrow> chunk_group list" where
  "add_row start max_tiles max_rows groups offset =
     (let signature = chunk_signature max_tiles (start + offset)
      in if groups \<noteq> [] \<and> cg_signature (last groups) = signature \<and> cg_rows (last groups) < max_rows
         then butlast groups @ [(last groups)\<lparr>cg_rows := cg_rows (last groups) + 1\<rparr>]
         else groups @ [\<lparr>cg_offset = offset, cg_rows = 1, cg_signature = signature\<rparr>])"

definition chunk_groups :: "int \<Rightarrow> int \<Rightarrow> int \<Rightarrow> int \<Rightarrow> chunk_group list result" where
  "chunk_groups start rows max_tiles max_rows =
     (if start < 0 \<or> \<not> (1 \<le> rows \<and> rows \<le> 32) \<or> max_tiles \<notin> {4, 8} \<or> \<not> (1 \<le> max_rows \<and> max_rows \<le> 32)
      then Inl ValueError
      else Inr (foldl (add_row start max_tiles max_rows) [] (py_range 0 rows 1)))"

text \<open>One group of the bundling loop.\<close>

definition group_shape :: "chunk_group \<Rightarrow> int \<times> int \<times> int" where
  "group_shape g = (cg_rows g, cg_signature g)"

definition add_group :: "int \<Rightarrow> chunk_group list list \<Rightarrow> chunk_group \<Rightarrow> chunk_group list list" where
  "add_group max_batches bundles g =
     (if bundles \<noteq> [] \<and> int (length (last bundles)) < max_batches
         \<and> group_shape (hd (last bundles)) = group_shape g
      then butlast bundles @ [last bundles @ [g]]
      else bundles @ [[g]])"

definition parallel_groups :: "int \<Rightarrow> int \<Rightarrow> int \<Rightarrow> int \<Rightarrow> chunk_group list list result" where
  "parallel_groups start rows max_batches max_rows =
     (if \<not> (1 \<le> max_batches \<and> max_batches \<le> 3) then Inl ValueError
      else if max_rows \<notin> {4, 8} then Inl ValueError
      else rbind (chunk_groups start rows 8 max_rows) (\<lambda>groups. Inr (foldl (add_group max_batches) [] groups)))"

subsection \<open>The families a reader can be captured in\<close>

definition MAX_FAMILY_CAPACITY :: int where "MAX_FAMILY_CAPACITY = 262400"

definition family_start :: "bool \<Rightarrow> int \<Rightarrow> int" where
  "family_start short_context capacity = (if short_context then max 128 (capacity - 256) else capacity - 256)"

definition family_capacities :: "replay_env \<Rightarrow> bool \<Rightarrow> int option \<Rightarrow> int list result" where
  "family_capacities env short_context page_width =
     (if (case page_width of None \<Rightarrow> False | Some w \<Rightarrow> w < 1) then Inl ValueError
      else Inr (filter (\<lambda>capacity. returned (validate_ticket env (family_start short_context capacity) 8 capacity short_context))
                 (takeWhile (\<lambda>capacity. case page_width of None \<Rightarrow> True | Some w \<Rightarrow> capacity div 64 \<le> w)
                   (py_range 256 (MAX_FAMILY_CAPACITY + 1) 256))))"

definition bundle_batches :: "int \<Rightarrow> int \<Rightarrow> int \<Rightarrow> bool \<Rightarrow> nat list result" where
  "bundle_batches rows capacity max_rows short_context =
     rbind (parallel_groups (family_start short_context capacity) rows 3 max_rows) (\<lambda>bundles. Inr (map length bundles))"

subsection \<open>The groups partition the rows\<close>

text \<open>A group's rows, in order; and what each row may be grouped with.\<close>

definition group_rows :: "chunk_group \<Rightarrow> int list" where
  "group_rows g = map (\<lambda>i. cg_offset g + int i) [0..<nat (cg_rows g)]"

definition group_ok :: "int \<Rightarrow> int \<Rightarrow> int \<Rightarrow> chunk_group \<Rightarrow> bool" where
  "group_ok start max_tiles max_rows g \<longleftrightarrow> 1 \<le> cg_rows g \<and> cg_rows g \<le> max_rows
     \<and> (\<forall>r \<in> set (group_rows g). chunk_signature max_tiles (start + r) = cg_signature g)"

lemma group_rows_Suc:
  "0 \<le> cg_rows g \<Longrightarrow> group_rows (g\<lparr>cg_rows := cg_rows g + 1\<rparr>) = group_rows g @ [cg_offset g + cg_rows g]"
  by (simp add: group_rows_def nat_add_distrib)

lemma length_group_rows: "0 \<le> cg_rows g \<Longrightarrow> int (length (group_rows g)) = cg_rows g"
  by (simp add: group_rows_def)

lemma add_row_ok:
  assumes "list_all (group_ok start max_tiles max_rows) groups" and "concat (map group_rows groups) = map int [0..<n]"
    and "1 \<le> max_rows"
  shows "list_all (group_ok start max_tiles max_rows) (add_row start max_tiles max_rows groups (int n))"
    and "concat (map group_rows (add_row start max_tiles max_rows groups (int n))) = map int [0..<Suc n]"
proof -
  let ?g = "last groups"
  have joined: "list_all (group_ok start max_tiles max_rows) (butlast groups @ [?g\<lparr>cg_rows := cg_rows ?g + 1\<rparr>])
      \<and> concat (map group_rows (butlast groups @ [?g\<lparr>cg_rows := cg_rows ?g + 1\<rparr>])) = map int [0..<Suc n]"
    if j: "groups \<noteq> []" "cg_signature ?g = chunk_signature max_tiles (start + int n)" "cg_rows ?g < max_rows"
  proof -
    have split: "groups = butlast groups @ [?g]" using j(1) by simp
    have ok: "list_all (group_ok start max_tiles max_rows) (butlast groups)" "group_ok start max_tiles max_rows ?g"
      using assms(1) by (subst (asm) split, simp)+
    have all: "concat (map group_rows (butlast groups)) @ group_rows ?g = map int [0..<n]"
      using assms(2) by (subst (asm) split, simp)
    have pos: "0 \<le> cg_rows ?g" "group_rows ?g \<noteq> []" using ok(2) by (auto simp: group_ok_def group_rows_def)
    have some: "1 \<le> cg_rows ?g" using ok(2) by (simp add: group_ok_def)
    have "last (map int [0..<n]) = last (group_rows ?g)" by (subst all [symmetric]) (simp add: pos(2))
    also have "\<dots> = cg_offset ?g + (cg_rows ?g - 1)" using some by (simp add: group_rows_def last_map of_nat_diff nat_diff_distrib)
    finally have "last (map int [0..<n]) = cg_offset ?g + (cg_rows ?g - 1)" .
    moreover have "map int [0..<n] \<noteq> []" using pos(2) by (subst all [symmetric]) simp
    then have "0 < n" by (cases n) simp_all
    then have "last (map int [0..<n]) = int n - 1" by (simp add: last_map last_conv_nth of_nat_diff)
    ultimately have next_row: "cg_offset ?g + cg_rows ?g = int n" by linarith
    have "group_ok start max_tiles max_rows (?g\<lparr>cg_rows := cg_rows ?g + 1\<rparr>)"
      using ok(2) j(2,3) next_row unfolding group_ok_def by (simp add: group_rows_Suc)
    then show ?thesis using ok(1) all by (simp add: group_rows_Suc pos(1) next_row flip: append_assoc)
  qed
  have opened: "group_ok start max_tiles max_rows \<lparr>cg_offset = int n, cg_rows = 1,
      cg_signature = chunk_signature max_tiles (start + int n)\<rparr>"
    using assms(3) by (simp add: group_ok_def group_rows_def)
  show "list_all (group_ok start max_tiles max_rows) (add_row start max_tiles max_rows groups (int n))"
    using joined opened assms(1) by (auto simp: add_row_def Let_def)
  show "concat (map group_rows (add_row start max_tiles max_rows groups (int n))) = map int [0..<Suc n]"
    using joined assms(2) by (auto simp: add_row_def Let_def group_rows_def)
qed

lemma py_range_one: "py_range 0 (int n) 1 = map int [0..<n]"
  by (simp add: py_range_def)

lemma chunk_groups_partition:
  assumes "chunk_groups start rows max_tiles max_rows = Inr groups"
  shows "list_all (group_ok start max_tiles max_rows) groups" and "concat (map group_rows groups) = py_range 0 rows 1"
proof -
  have g: "groups = foldl (add_row start max_tiles max_rows) [] (py_range 0 rows 1)" "1 \<le> max_rows" "1 \<le> rows"
    using assms by (auto simp: chunk_groups_def split: if_splits)
  have loop: "list_all (group_ok start max_tiles max_rows) (foldl (add_row start max_tiles max_rows) [] (map int [0..<n]))
      \<and> concat (map group_rows (foldl (add_row start max_tiles max_rows) [] (map int [0..<n]))) = map int [0..<n]" for n
  proof (induction n)
    case (Suc n)
    then show ?case using add_row_ok [of start max_tiles max_rows _ n] g(2) by simp
  qed simp
  obtain n where "rows = int n" using g(3) by (metis nonneg_int_cases order.trans zero_le_one)
  then show "list_all (group_ok start max_tiles max_rows) groups" "concat (map group_rows groups) = py_range 0 rows 1"
    using loop [of n] g(1) by (simp_all add: py_range_one)
qed

text \<open>A bundle holds one to three groups of one shape, and the bundles are the groups in order.\<close>

definition bundle_ok :: "int \<Rightarrow> chunk_group list \<Rightarrow> bool" where
  "bundle_ok max_batches b \<longleftrightarrow> b \<noteq> [] \<and> int (length b) \<le> max_batches
     \<and> (\<forall>g \<in> set b. group_shape g = group_shape (hd b))"

lemma add_group_ok:
  assumes "list_all (bundle_ok m) bundles" and "1 \<le> m"
  shows "list_all (bundle_ok m) (add_group m bundles g)" and "concat (add_group m bundles g) = concat bundles @ [g]"
proof -
  have split: "bundles \<noteq> [] \<Longrightarrow> bundles = butlast bundles @ [last bundles]" by simp
  have "bundles \<noteq> [] \<Longrightarrow> list_all (bundle_ok m) (butlast bundles) \<and> bundle_ok m (last bundles)"
    using assms(1) by (auto simp: list_all_iff dest: in_set_butlastD)
  then show "list_all (bundle_ok m) (add_group m bundles g)"
    using assms by (auto simp: add_group_def bundle_ok_def)
  have "concat (butlast bundles @ [last bundles @ [g]]) = concat bundles @ [g]" if "bundles \<noteq> []"
    using split [OF that] by (metis append_assoc concat.simps(1,2) concat_append append_Nil2)
  then show "concat (add_group m bundles g) = concat bundles @ [g]" by (auto simp: add_group_def)
qed

lemma parallel_groups_bundle:
  assumes "parallel_groups start rows m max_rows = Inr bundles"
  shows "list_all (bundle_ok m) bundles" and "concat (map group_rows (concat bundles)) = py_range 0 rows 1"
    and "list_all (group_ok start 8 max_rows) (concat bundles)"
proof -
  obtain groups where g: "chunk_groups start rows 8 max_rows = Inr groups" "bundles = foldl (add_group m) [] groups" "1 \<le> m"
    using assms by (auto simp: parallel_groups_def rbind_Inr_iff split: if_splits)
  have loop: "list_all (bundle_ok m) (foldl (add_group m) bs gs) \<and> concat (foldl (add_group m) bs gs) = concat bs @ gs"
    if "list_all (bundle_ok m) bs" for bs gs
    using that by (induction gs arbitrary: bs) (use g(3) in \<open>simp_all add: add_group_ok\<close>)
  show "list_all (bundle_ok m) bundles" "concat (map group_rows (concat bundles)) = py_range 0 rows 1"
    "list_all (group_ok start 8 max_rows) (concat bundles)"
    using loop [of "[]" groups] chunk_groups_partition [OF g(1)] g(2) by simp_all
qed

end
