(* ===== verification/BufferPool.thy ===== *)
theory BufferPool
  imports ChunkGroups ServingPolicy StateOps
begin

text \<open>
  The storage requests borrow, \<open>scripts/ci/serving_buffer_pool.py\<close>: allocated before any request's trace, lent a
  slot at a time and zeroed on every loan. A tensor is named by the order it was allocated in; where it lies on each
  chip, and what the memory there holds, are the device's. The shapes the GDN helpers and the rotary builder
  allocate are given by them; the data types, log lines and the report \<open>describe\<close> writes are left out.
\<close>

subsection \<open>Shapes and sizes\<close>

definition tensor_bytes :: "int list \<Rightarrow> int \<Rightarrow> int" where
  "tensor_bytes shape itemsize = itemsize * prod_list shape"

definition tile_bytes :: "int list \<Rightarrow> int \<Rightarrow> int result" where
  "tile_bytes shape itemsize =
     (case rev shape of
        columns # rows # outer \<Rightarrow>
          Inr (tensor_bytes (rev outer @ [((rows + 31) div 32) * 32, ((columns + 31) div 32) * 32]) itemsize)
      | _ \<Rightarrow> Inl ValueError)"

definition HISTORY_SHAPE :: "int list" where "HISTORY_SHAPE = [1, 1, 2048, 5120]"
definition KV_SHAPE :: "int list" where "KV_SHAPE = [1, 4, 2048, 128]"
definition QUERY_SHAPE :: "int list" where "QUERY_SHAPE = [1, 1, 32, 2048]"
definition FEATURE_WIDTH :: int where "FEATURE_WIDTH = 5120"
definition DRAFT_LAYERS :: nat where "DRAFT_LAYERS = 5"
definition GDN_LAYERS :: nat where "GDN_LAYERS = 48"
definition PACKED_REPLAY_SHAPES :: "(int \<times> int) list" where "PACKED_REPLAY_SHAPES = [(2, 16), (4, 16)]"
definition EXTENT_LAYOUT_START :: int where "EXTENT_LAYOUT_START = 256"
definition EXTENT_GROUP_ROWS :: int where "EXTENT_GROUP_ROWS = 8"
definition EXTENT_BUNDLE_ENTRIES :: nat where "EXTENT_BUNDLE_ENTRIES = 2"

definition extent_bundle_batches :: "int \<Rightarrow> int \<Rightarrow> nat list result" where
  "extent_bundle_batches rows group_width =
     rbind (parallel_groups EXTENT_LAYOUT_START rows 3 group_width) (\<lambda>bundles. Inr (map length bundles))"

definition default_packed_shapes :: "int \<Rightarrow> (int \<times> int) list" where
  "default_packed_shapes users = filter (\<lambda>shape. fst shape \<le> users) PACKED_REPLAY_SHAPES"

definition validate_packed_shapes :: "(int \<times> int) list \<Rightarrow> (int \<times> int) list result" where
  "validate_packed_shapes shapes =
     (if \<not> distinct shapes
         \<or> list_ex (\<lambda>(users, rows). users < 1 \<or> rows \<notin> {8, 16, 32} \<or> users * rows \<notin> {2, 4, 8, 16, 32, 64}) shapes
      then Inl ValueError else Inr shapes)"

text \<open>A group of pool slots in increasing order.\<close>

definition slot_group :: "int \<Rightarrow> int list \<Rightarrow> bool" where
  "slot_group users slots \<longleftrightarrow> list_all (\<lambda>slot. 0 \<le> slot \<and> slot < users) slots \<and> sorted_wrt (<) slots"

definition shape4 :: "int list \<Rightarrow> bool" where
  "shape4 shape \<longleftrightarrow> length shape = 4 \<and> list_all (\<lambda>size. 1 \<le> size) shape"

definition validate_draft_masks :: "(int list \<times> int list) list \<Rightarrow> int \<Rightarrow> (int list \<times> int list) list result" where
  "validate_draft_masks masks users =
     (if list_ex (\<lambda>(slots, shape). length slots < 2 \<or> \<not> slot_group users slots \<or> \<not> shape4 shape) masks
      then Inl ValueError else Inr masks)"

record output_spec =
  os_chunks :: "(int \<times> int) list"
  os_head :: "int list"
  os_projected :: "int list"

definition validate_draft_outputs :: "(int list \<times> output_spec) list \<Rightarrow> int \<Rightarrow> (int list \<times> output_spec) list result" where
  "validate_draft_outputs specs users =
     (if list_ex (\<lambda>(slots, spec). slots = [] \<or> \<not> slot_group users slots \<or> os_chunks spec = []
           \<or> list_ex (\<lambda>(start, stop). \<not> (0 \<le> start \<and> start < stop)) (os_chunks spec)
           \<or> \<not> shape4 (os_head spec) \<or> \<not> shape4 (os_projected spec)) specs
      then Inl ValueError else Inr specs)"

subsection \<open>What a slot holds\<close>

type_synonym place = "int \<times> int"

definition overlaps :: "place \<Rightarrow> place \<Rightarrow> bool" where
  "overlaps p q \<longleftrightarrow> fst p = fst q \<or> snd p = snd q"

record batch_inputs =
  bi_tokens :: nat
  bi_positions :: nat
  bi_pages :: nat
  bi_singleton_pages :: nat
  bi_singleton_positions :: "nat list"
  bi_replay_pages :: "(int \<times> nat list) list"
  bi_cos :: nat
  bi_sin :: nat

record bucket_slot =
  bu_rows :: int
  bu_checkpoints :: "nat list"
  bu_features :: "nat list"
  bu_hidden :: "nat option"
  bu_batch :: batch_inputs
  bu_taken :: bool

definition of_option :: "'a option \<Rightarrow> 'a list" where
  "of_option m = (case m of None \<Rightarrow> [] | Some x \<Rightarrow> [x])"

definition replay_tables :: "batch_inputs \<Rightarrow> nat list" where
  "replay_tables b = concat (map snd (sort_key fst (bi_replay_pages b)))"

definition batch_tensors :: "batch_inputs \<Rightarrow> nat list" where
  "batch_tensors b = [bi_tokens b, bi_positions b, bi_pages b, bi_singleton_pages b, bi_cos b, bi_sin b]
     @ bi_singleton_positions b @ replay_tables b"

definition bucket_tensors :: "bucket_slot \<Rightarrow> nat list" where
  "bucket_tensors b = bu_checkpoints b @ bu_features b @ of_option (bu_hidden b) @ batch_tensors (bu_batch b)"

definition bucket_zeroed :: "bucket_slot \<Rightarrow> nat list" where
  "bucket_zeroed b = bu_checkpoints b @ bu_features b @ of_option (bu_hidden b)
     @ [bi_cos (bu_batch b), bi_sin (bu_batch b)]"

record verifier_slot =
  vs_initial :: "nat list"
  vs_carry :: "nat list"
  vs_buckets :: "bucket_slot list"

record pool_slot =
  ps_index :: nat
  ps_history :: nat
  ps_spare :: nat
  ps_kv :: "nat list"
  ps_query :: "nat option"
  ps_verifier :: "verifier_slot option"
  ps_bytes :: int
  ps_addresses :: "place list"
  ps_lent :: bool
  ps_owner :: "string option"

definition ps_tensors :: "pool_slot \<Rightarrow> nat list" where
  "ps_tensors s = ps_history s # ps_spare s # ps_kv s @ of_option (ps_query s)
     @ (case ps_verifier s of None \<Rightarrow> []
        | Some v \<Rightarrow> vs_initial v @ vs_carry v @ concat (map bucket_tensors (vs_buckets v)))"

definition ps_zeroed :: "pool_slot \<Rightarrow> nat list" where
  "ps_zeroed s = ps_history s # ps_spare s # ps_kv s @ of_option (ps_query s)
     @ (case ps_verifier s of None \<Rightarrow> []
        | Some v \<Rightarrow> vs_initial v @ vs_carry v @ concat (map bucket_zeroed (vs_buckets v)))"

text \<open>The page tables of a packed block (\<open>PackedReplayTables\<close>, \<open>PackedExtentStorage\<close>): lent once.\<close>

record lent_tables =
  lt_tensors :: "nat list"
  lt_taken :: bool

record 'c buffer_pool =
  pl_closed :: bool
  pl_users :: int
  pl_slots :: "pool_slot list"
  pl_extent_replay :: bool
  pl_packed :: "((int \<times> int) \<times> lent_tables list) list"
  pl_extent :: "((int \<times> int) \<times> lent_tables list) list"
  pl_masks :: "(int list \<times> (int list \<times> nat)) list"
  pl_outputs :: "(int list \<times> nat list) list"
  pl_outputs_refused :: bool
  pl_place :: "nat \<Rightarrow> place"
  pl_memory :: "bool \<Rightarrow> int \<Rightarrow> 'c"

subsection \<open>Lending\<close>

type_synonym ('c, 'a) pool_op = "('c buffer_pool, 'a) op"

text \<open>A tensor's memory on each chip; \<open>full_like(value, 0.0)\<close> writes both.\<close>

definition write_tensor :: "nat \<Rightarrow> 'c \<Rightarrow> 'c buffer_pool \<Rightarrow> 'c buffer_pool" where
  "write_tensor t v p = p\<lparr>pl_memory := (pl_memory p)(False := (pl_memory p False)(fst (pl_place p t) := v),
      True := (pl_memory p True)(snd (pl_place p t) := v))\<rparr>"

definition read_tensor :: "'c buffer_pool \<Rightarrow> nat \<Rightarrow> 'c \<times> 'c" where
  "read_tensor p t = (pl_memory p False (fst (pl_place p t)), pl_memory p True (snd (pl_place p t)))"

definition slot_verify :: "pool_slot \<Rightarrow> ('c, unit) pool_op" where
  "slot_verify s = op_refuse (\<lambda>p. map (pl_place p) (ps_tensors s) \<noteq> ps_addresses s) AssertionError"

definition zero_slot :: "'c \<Rightarrow> pool_slot \<Rightarrow> ('c, unit) pool_op" where
  "zero_slot zero s = op_update (\<lambda>p. fold (\<lambda>t. write_tensor t zero) (ps_zeroed s) p)"

definition verifier_reset :: "pool_slot \<Rightarrow> pool_slot" where
  "verifier_reset s = s\<lparr>ps_verifier := map_option
     (\<lambda>v. v\<lparr>vs_buckets := map (\<lambda>b. b\<lparr>bu_taken := False\<rparr>) (vs_buckets v)\<rparr>) (ps_verifier s)\<rparr>"

definition set_slot :: "nat \<Rightarrow> pool_slot \<Rightarrow> ('c, unit) pool_op" where
  "set_slot i s = op_update (\<lambda>p. p\<lparr>pl_slots := (pl_slots p)[i := s]\<rparr>)"

definition pool_open :: "('c, unit) pool_op" where
  "pool_open = op_refuse pl_closed ValueError"

definition first_unlent :: "'c buffer_pool \<Rightarrow> pool_slot option" where
  "first_unlent p = find (\<lambda>s. \<not> ps_lent s) (pl_slots p)"

definition pool_acquire :: "'c \<Rightarrow> string \<Rightarrow> ('c, nat) pool_op" where
  "pool_acquire zero owner =
     op_then pool_open
     (op_bind (op_read (\<lambda>p. case first_unlent p of None \<Rightarrow> Inl ValueError | Some s \<Rightarrow> Inr s)) (\<lambda>s.
      op_then (slot_verify s)
     (op_then (zero_slot zero s)
     (op_then (set_slot (ps_index s) ((verifier_reset s)\<lparr>ps_lent := True, ps_owner := Some owner\<rparr>))
      (op_return (ps_index s))))))"

text \<open>A slot handle is its index; the code's check that the slot is one of this pool's is its range.\<close>

definition the_slot :: "nat \<Rightarrow> ('c, pool_slot) pool_op" where
  "the_slot i = op_read (\<lambda>p. if i < length (pl_slots p) then Inr (pl_slots p ! i) else Inl ValueError)"

definition pool_rezero :: "'c \<Rightarrow> nat \<Rightarrow> ('c, unit) pool_op" where
  "pool_rezero zero i =
     op_then pool_open (op_bind (the_slot i) (\<lambda>s. op_then (slot_verify s) (zero_slot zero s)))"

definition pool_release :: "nat \<Rightarrow> ('c, unit) pool_op" where
  "pool_release i =
     op_then pool_open
     (op_bind (the_slot i) (\<lambda>s.
      op_then (op_refuse (\<lambda>_. \<not> ps_lent s) ValueError)
     (op_then (slot_verify s)
      (set_slot i ((verifier_reset s)\<lparr>ps_lent := False, ps_owner := None\<rparr>)))))"

text \<open>\<open>VerifierSlot.take\<close>: the first free bucket of exactly the width.\<close>

fun take_bucket :: "int \<Rightarrow> bucket_slot list \<Rightarrow> (bucket_slot \<times> bucket_slot list) option" where
  "take_bucket rows [] = None"
| "take_bucket rows (b # bs) =
     (if bu_rows b = rows \<and> \<not> bu_taken b then Some (b\<lparr>bu_taken := True\<rparr>, b\<lparr>bu_taken := True\<rparr> # bs)
      else map_option (\<lambda>(x, bs). (x, b # bs)) (take_bucket rows bs))"

definition verifier_take :: "nat \<Rightarrow> int \<Rightarrow> ('c, bucket_slot) pool_op" where
  "verifier_take i rows =
     op_bind (the_slot i) (\<lambda>s.
     case ps_verifier s of
       None \<Rightarrow> op_raise TypeError
     | Some v \<Rightarrow> (case take_bucket rows (vs_buckets v) of
         None \<Rightarrow> op_raise ValueError
       | Some (b, bs) \<Rightarrow> op_then (set_slot i (s\<lparr>ps_verifier := Some (v\<lparr>vs_buckets := bs\<rparr>)\<rparr>)) (op_return b)))"

text \<open>The tables lent to a packed block: the first untaken set, else the last, whose \<open>take()\<close> refuses.\<close>

definition lend_from :: "lent_tables list \<Rightarrow> nat" where
  "lend_from sets = (case find (\<lambda>i. \<not> lt_taken (sets ! i)) [0..<length sets] of
     None \<Rightarrow> length sets - 1 | Some i \<Rightarrow> i)"

definition packed_replay :: "(int \<times> int) \<Rightarrow> ('c, nat) pool_op" where
  "packed_replay shape =
     op_then pool_open
     (op_then (op_refuse pl_extent_replay ValueError)
      (op_read (\<lambda>p. case map_of (pl_packed p) shape of
         None \<Rightarrow> Inl ValueError | Some [] \<Rightarrow> Inl ValueError | Some sets \<Rightarrow> Inr (lend_from sets))))"

definition packed_extent :: "(int \<times> int) \<Rightarrow> ('c, nat) pool_op" where
  "packed_extent shape =
     op_then pool_open
     (op_then (op_refuse (\<lambda>p. \<not> pl_extent_replay p) ValueError)
      (op_read (\<lambda>p. case map_of (pl_extent p) shape of
         None \<Rightarrow> Inl ValueError | Some [] \<Rightarrow> Inl ValueError | Some sets \<Rightarrow> Inr (lend_from sets))))"

definition tables_take :: "lent_tables \<Rightarrow> lent_tables result" where
  "tables_take t = (if lt_taken t then Inl ValueError else Inr (t\<lparr>lt_taken := True\<rparr>))"

definition tables_release :: "lent_tables \<Rightarrow> lent_tables" where
  "tables_release t = t\<lparr>lt_taken := False\<rparr>"

definition pool_draft_mask :: "int list \<Rightarrow> int list \<Rightarrow> 'c buffer_pool \<Rightarrow> nat option" where
  "pool_draft_mask slots shape p =
     (if pl_closed p then None
      else case map_of (pl_masks p) slots of
             None \<Rightarrow> None | Some (held, t) \<Rightarrow> if held \<noteq> shape then None else Some t)"

definition draft_output :: "int list \<Rightarrow> 'c buffer_pool \<Rightarrow> nat list option" where
  "draft_output slots p = (if pl_closed p then None else map_of (pl_outputs p) slots)"

definition pool_close :: "unit result \<Rightarrow> ('c, unit) pool_op" where
  "pool_close synchronize p =
     (if pl_closed p then (Inr (), p)
      else (let lent = filter ps_lent (pl_slots p)
            in op_then (op_update (\<lambda>p. p\<lparr>pl_closed := True\<rparr>))
              (op_then (op_read (\<lambda>_. synchronize))
              (op_then (op_update (\<lambda>p. p\<lparr>pl_slots := [], pl_packed := [], pl_extent := [], pl_masks := [],
                                        pl_outputs := []\<rparr>))
               (op_refuse (\<lambda>_. lent \<noteq> []) ValueError))) p))"

end
