(* ===== verification/PoolBuild.thy ===== *)
theory PoolBuild
  imports BufferPool
begin

text \<open>
  The pool's construction, \<open>ServingBufferPool.__init__\<close>: the checks of its geometry, then every buffer in its
  order, each on chip storage no earlier one holds. \<open>place\<close> says where the n-th buffer lies, or that the device
  refuses it.
\<close>

subsection \<open>The checks\<close>

text \<open>\<open>helpers\<close> gives the shapes each GDN helper's \<open>allocate()\<close> returns, \<open>rope\<close> the shapes of a width's rotary
  tables; \<open>admission\<close> is what \<open>require_admitted\<close> answers.\<close>

record pool_config =
  pc_users :: int
  pc_helpers :: "int list list list option"
  pc_page_width :: "int option"
  pc_bucket_rows :: "int list"
  pc_feature_taps :: int
  pc_rope :: "(int \<Rightarrow> int list \<times> int list) option"
  pc_mtp_hidden :: bool
  pc_group_rows :: int
  pc_capacities :: "int list option"
  pc_packed_shapes :: "(int \<times> int) list option"
  pc_replicas :: "((int \<times> int) \<times> int) list"
  pc_packed_group_rows :: "int option"
  pc_extent :: bool
  pc_admission :: "unit result"
  pc_draft_masks :: "(int list \<times> int list) list"
  pc_draft_outputs :: "(int list \<times> output_spec) list"

record verifier_geometry =
  vg_helpers :: "int list list list"
  vg_page_width :: int
  vg_rope :: "int \<Rightarrow> int list \<times> int list"
  vg_packed_shapes :: "(int \<times> int) list"
  vg_packed_group_rows :: int
  vg_capacities :: "int list"

definition helper_checks :: "pool_config \<Rightarrow> int list list list \<Rightarrow> (int \<times> (int \<Rightarrow> int list \<times> int list)) result" where
  "helper_checks c helpers =
     (case (pc_page_width c, pc_rope c) of
        (Some width, Some rope) \<Rightarrow>
          if length helpers \<noteq> GDN_LAYERS \<or> width < 1 \<or> pc_bucket_rows c = []
             \<or> list_ex (\<lambda>rows. rows \<notin> {1, 2, 4, 8, 16, 32}) (pc_bucket_rows c) \<or> pc_feature_taps c < 0
          then Inl ValueError else Inr (width, rope)
      | _ \<Rightarrow> Inl ValueError)"

text \<open>The page tables' families: the one full width of the extent readers, or the admitted families.\<close>

definition extent_families :: "pool_config \<Rightarrow> int \<Rightarrow> int \<Rightarrow> (int \<times> int) list \<Rightarrow> int list result" where
  "extent_families c width packed_group_rows shapes =
     (if width mod 4 \<noteq> 0 then Inl ValueError
      else if (case pc_capacities c of None \<Rightarrow> False | Some cs \<Rightarrow> cs \<noteq> [width * 64]) then Inl ValueError
      else if list_ex (\<lambda>rows. rows \<ge> 8) (pc_bucket_rows c) then Inl ValueError
      else if packed_group_rows \<noteq> EXTENT_GROUP_ROWS then Inl ValueError
      else rbind (those_results (map (\<lambda>(_, rows). extent_bundle_batches rows EXTENT_GROUP_ROWS) shapes)) (\<lambda>bs.
        if list_ex (\<lambda>b. set b \<noteq> {EXTENT_BUNDLE_ENTRIES}) bs then Inl ValueError else Inr [width * 64]))"

definition replay_families :: "replay_env \<Rightarrow> pool_config \<Rightarrow> int \<Rightarrow> int list result" where
  "replay_families env c width =
     rbind (family_capacities env False (Some width)) (\<lambda>admitted.
     let capacities = (case pc_capacities c of None \<Rightarrow> admitted | Some cs \<Rightarrow> cs)
     in if \<not> distinct capacities \<or> \<not> set capacities \<subseteq> set admitted then Inl ValueError else Inr capacities)"

definition verifier_checks :: "replay_env \<Rightarrow> pool_config \<Rightarrow> int list list list \<Rightarrow> verifier_geometry result" where
  "verifier_checks env c helpers =
     rbind (validate_packed_shapes (case pc_packed_shapes c of
              None \<Rightarrow> default_packed_shapes (pc_users c) | Some shapes \<Rightarrow> shapes)) (\<lambda>shapes.
     if list_ex (\<lambda>(shape, count). shape \<notin> set shapes \<or> count < 1) (pc_replicas c) then Inl ValueError
     else rbind (helper_checks c helpers) (\<lambda>(width, rope).
     if pc_group_rows c \<notin> {4, 8} then Inl ValueError
     else rbind (case pc_packed_group_rows c of
              None \<Rightarrow> Inr (pc_group_rows c)
            | Some rows \<Rightarrow> if rows \<notin> {4, 8} then Inl ValueError else Inr rows) (\<lambda>packed_rows.
     rbind (if pc_extent c then extent_families c width packed_rows shapes else replay_families env c width) (\<lambda>capacities.
     Inr \<lparr>vg_helpers = helpers, vg_page_width = width, vg_rope = rope, vg_packed_shapes = shapes,
       vg_packed_group_rows = packed_rows, vg_capacities = capacities\<rparr>))))"

definition bare_checks :: "pool_config \<Rightarrow> unit result" where
  "bare_checks c =
     (if pc_page_width c \<noteq> None \<or> pc_bucket_rows c \<noteq> [] \<or> pc_feature_taps c \<noteq> 0 \<or> pc_rope c \<noteq> None
         \<or> pc_mtp_hidden c \<or> pc_group_rows c \<noteq> 4 \<or> pc_capacities c \<noteq> None
         \<or> (case pc_packed_shapes c of None \<Rightarrow> False | Some shapes \<Rightarrow> shapes \<noteq> []) \<or> pc_replicas c \<noteq> []
         \<or> pc_packed_group_rows c \<noteq> None \<or> pc_extent c
      then Inl ValueError else Inr ())"

definition pool_checks ::
  "replay_env \<Rightarrow> pool_config \<Rightarrow>
     (verifier_geometry option \<times> (int list \<times> int list) list \<times> (int list \<times> output_spec) list) result" where
  "pool_checks env c =
     rbind (if pc_extent c then pc_admission c else Inr ()) (\<lambda>_.
     if \<not> (1 \<le> pc_users c \<and> pc_users c \<le> NATIVE_GDN_SLOTS) then Inl ValueError
     else rbind (validate_draft_masks (pc_draft_masks c) (pc_users c)) (\<lambda>masks.
     rbind (validate_draft_outputs (pc_draft_outputs c) (pc_users c)) (\<lambda>outputs.
     rbind (case pc_helpers c of
              None \<Rightarrow> rbind (bare_checks c) (\<lambda>_. Inr None)
            | Some helpers \<Rightarrow> rbind (verifier_checks env c helpers) (\<lambda>g. Inr (Some g))) (\<lambda>geometry.
     Inr (geometry, masks, outputs)))))"

subsection \<open>The buffers\<close>

datatype host_type = Host_Int32 | Host_Int16

record alloc =
  al_places :: "place list"
  al_bytes :: int
  al_hosts :: "host_type list"

type_synonym 'a alloc_op = "(alloc, 'a) op"
type_synonym placing = "nat \<Rightarrow> place result"

text \<open>A buffer is the next one; it must share no chip's address with an earlier one (\<open>adopt\<close>). The code's
  \<open>owned\<close> and \<open>protected\<close> differ by the buffer that was refused.\<close>

definition allocate :: "placing \<Rightarrow> int \<Rightarrow> int list \<Rightarrow> nat alloc_op" where
  "allocate place itemsize shape a =
     (let n = length (al_places a)
      in case place n of
           Inl e \<Rightarrow> (Inl e, a)
         | Inr p \<Rightarrow> if list_ex (overlaps p) (al_places a) then (Inl ValueError, a)
                   else (Inr n, a\<lparr>al_places := al_places a @ [p], al_bytes := al_bytes a + tensor_bytes shape itemsize\<rparr>))"

fun op_each :: "('x \<Rightarrow> ('st, 'a) op) \<Rightarrow> 'x list \<Rightarrow> ('st, 'a list) op" where
  "op_each f [] = op_return []"
| "op_each f (x # xs) = op_bind (f x) (\<lambda>y. op_bind (op_each f xs) (\<lambda>ys. op_return (y # ys)))"

definition snapshot_set :: "placing \<Rightarrow> verifier_geometry \<Rightarrow> nat list alloc_op" where
  "snapshot_set place g = op_each (allocate place 2) (concat (vg_helpers g))"

text \<open>The page tables of one reader, or of one packed user: a table per bundle of each family.\<close>

definition family_tables :: "placing \<Rightarrow> int \<Rightarrow> int \<Rightarrow> int \<Rightarrow> nat list alloc_op" where
  "family_tables place rows width capacity =
     op_bind (op_read (\<lambda>_. bundle_batches rows capacity width False)) (\<lambda>batches.
       op_each (\<lambda>b. allocate place 4 [int b, capacity div 64]) batches)"

definition build_batch :: "placing \<Rightarrow> pool_config \<Rightarrow> verifier_geometry \<Rightarrow> int \<Rightarrow> batch_inputs alloc_op" where
  "build_batch place c g rows =
     op_bind (allocate place 4 [rows, 1]) (\<lambda>tokens.
     op_bind (allocate place 4 [rows]) (\<lambda>positions.
     op_bind (allocate place 4 [rows, vg_page_width g]) (\<lambda>pages.
     op_bind (allocate place 4 [1, vg_page_width g]) (\<lambda>singleton.
     op_bind (op_each (\<lambda>_. allocate place 4 [1]) (replicate (nat rows) ())) (\<lambda>singletons.
     op_bind (op_each (\<lambda>capacity. op_bind (family_tables place rows (pc_group_rows c) capacity) (\<lambda>tables.
                 op_return (capacity, tables))) (if rows \<ge> 8 then vg_capacities g else [])) (\<lambda>replay.
     op_bind (allocate place 2 (fst (vg_rope g rows))) (\<lambda>cos.
     op_bind (allocate place 2 (snd (vg_rope g rows))) (\<lambda>sin.
     op_return \<lparr>bi_tokens = tokens, bi_positions = positions, bi_pages = pages, bi_singleton_pages = singleton,
       bi_singleton_positions = singletons, bi_replay_pages = replay, bi_cos = cos, bi_sin = sin\<rparr>))))))))"

definition build_bucket :: "placing \<Rightarrow> pool_config \<Rightarrow> verifier_geometry \<Rightarrow> int \<Rightarrow> bucket_slot alloc_op" where
  "build_bucket place c g rows =
     op_bind (snapshot_set place g) (\<lambda>checkpoints.
     op_bind (op_each (\<lambda>_. allocate place 2 [1, 1, rows, FEATURE_WIDTH]) (replicate (nat (pc_feature_taps c)) ())) (\<lambda>features.
     op_bind (if pc_mtp_hidden c then op_bind (allocate place 2 [1, 1, rows, FEATURE_WIDTH]) (\<lambda>h. op_return (Some h))
              else op_return None) (\<lambda>hidden.
     op_bind (build_batch place c g rows) (\<lambda>batch.
     op_return \<lparr>bu_rows = rows, bu_checkpoints = checkpoints, bu_features = features,
       bu_hidden = hidden, bu_batch = batch, bu_taken = False\<rparr>))))"

definition build_verifier :: "placing \<Rightarrow> pool_config \<Rightarrow> verifier_geometry \<Rightarrow> verifier_slot alloc_op" where
  "build_verifier place c g =
     op_bind (snapshot_set place g) (\<lambda>initial.
     op_bind (snapshot_set place g) (\<lambda>carry.
     op_bind (op_each (build_bucket place c g) (pc_bucket_rows c)) (\<lambda>buckets.
     op_return \<lparr>vs_initial = initial, vs_carry = carry, vs_buckets = buckets\<rparr>)))"

definition build_slot :: "placing \<Rightarrow> pool_config \<Rightarrow> verifier_geometry option \<Rightarrow> nat \<Rightarrow> pool_slot alloc_op" where
  "build_slot place c geometry index =
     op_then (op_update (\<lambda>a. a\<lparr>al_bytes := 0\<rparr>))
     (op_bind (allocate place 2 HISTORY_SHAPE) (\<lambda>history.
      op_bind (allocate place 2 HISTORY_SHAPE) (\<lambda>spare.
      op_bind (op_each (\<lambda>_. allocate place 2 KV_SHAPE) (replicate (DRAFT_LAYERS * 4) ())) (\<lambda>kv.
      op_bind (case geometry of
                 None \<Rightarrow> op_return (None, None)
               | Some g \<Rightarrow> op_bind (allocate place 2 QUERY_SHAPE) (\<lambda>query.
                   op_bind (build_verifier place c g) (\<lambda>verifier. op_return (Some query, Some verifier)))) (\<lambda>(query, verifier).
      op_bind (op_read (\<lambda>a. Inr a)) (\<lambda>a.
       let slot = \<lparr>ps_index = index, ps_history = history, ps_spare = spare, ps_kv = kv, ps_query = query,
             ps_verifier = verifier, ps_bytes = al_bytes a, ps_addresses = [], ps_lent = False, ps_owner = None\<rparr>
       in op_return (slot\<lparr>ps_addresses := map (\<lambda>t. al_places a ! t) (ps_tensors slot)\<rparr>)))))))"

definition replicas :: "pool_config \<Rightarrow> int \<times> int \<Rightarrow> unit list" where
  "replicas c shape = replicate (nat (case map_of (pc_replicas c) shape of None \<Rightarrow> 1 | Some n \<Rightarrow> n)) ()"

definition build_extent :: "placing \<Rightarrow> verifier_geometry \<Rightarrow> int \<times> int \<Rightarrow> lent_tables alloc_op" where
  "build_extent place g shape =
     op_bind (op_read (\<lambda>_. extent_bundle_batches (snd shape) (vg_packed_group_rows g))) (\<lambda>batches.
     op_bind (op_each (\<lambda>_. op_each (\<lambda>entries. op_bind (allocate place 4 [int entries, vg_page_width g]) (\<lambda>t.
                 op_bind (allocate place 4 [int entries]) (\<lambda>c. op_return [t, c]))) batches) (replicate (nat (fst shape)) ())) (\<lambda>per_user.
     op_return \<lparr>lt_tensors = concat (concat per_user), lt_taken = False\<rparr>))"

definition build_tables :: "placing \<Rightarrow> verifier_geometry \<Rightarrow> int \<times> int \<Rightarrow> lent_tables alloc_op" where
  "build_tables place g shape =
     op_bind (op_each (\<lambda>capacity. op_bind (op_each (\<lambda>_. family_tables place (snd shape) (vg_packed_group_rows g) capacity)
                 (replicate (nat (fst shape)) ())) (\<lambda>per_user. op_return (capacity, concat per_user))) (vg_capacities g)) (\<lambda>families.
     op_return \<lparr>lt_tensors = concat (map snd (sort_key fst families)), lt_taken = False\<rparr>)"

definition build_packed ::
  "placing \<Rightarrow> pool_config \<Rightarrow> verifier_geometry option \<Rightarrow> ((int \<times> int) \<times> lent_tables list) list alloc_op" where
  "build_packed place c geometry =
     (case geometry of
        None \<Rightarrow> op_return []
      | Some g \<Rightarrow> op_each (\<lambda>shape. op_bind (op_each (\<lambda>_. if pc_extent c then build_extent place g shape
             else build_tables place g shape) (replicas c shape)) (\<lambda>sets. op_return (shape, sets))) (vg_packed_shapes g))"

definition build_masks :: "placing \<Rightarrow> (int list \<times> int list) list \<Rightarrow> (int list \<times> (int list \<times> nat)) list alloc_op" where
  "build_masks place masks =
     op_each (\<lambda>(slots, shape). op_bind (allocate place 2 shape) (\<lambda>t. op_return (slots, (shape, t)))) (sort_key fst masks)"

text \<open>The UINT16 indices: from the first host type the runtime converts, for this buffer and every later one.
  \<open>converts\<close> says whether it converts a host type for the n-th buffer.\<close>

fun allocate_indices :: "placing \<Rightarrow> (host_type \<Rightarrow> nat \<Rightarrow> bool) \<Rightarrow> int list \<Rightarrow> host_type list \<Rightarrow> nat alloc_op" where
  "allocate_indices place converts shape [] a = (Inl IndexError, a)"
| "allocate_indices place converts shape (host # hosts) a =
     (if converts host (length (al_places a)) then allocate place 2 shape (a\<lparr>al_hosts := host # hosts\<rparr>)
      else if hosts = [] then (Inl CallbackError, a\<lparr>al_hosts := [host]\<rparr>)
      else allocate_indices place converts shape hosts a)"

definition build_output ::
  "placing \<Rightarrow> (host_type \<Rightarrow> nat \<Rightarrow> bool) \<Rightarrow> int list \<times> output_spec \<Rightarrow> (int list \<times> nat list) alloc_op" where
  "build_output place converts = (\<lambda>(slots, spec).
     op_bind (op_each (\<lambda>_. op_bind (allocate place 2 (os_head spec)) (\<lambda>values.
                op_bind (\<lambda>a. allocate_indices place converts (os_head spec) (al_hosts a) a) (\<lambda>indices.
                  op_return [values, indices]))) (os_chunks spec)) (\<lambda>chunks.
     op_bind (allocate place 2 (os_projected spec)) (\<lambda>projected. op_return (slots, concat chunks @ [projected]))))"

text \<open>A failure here refuses the sets and not the attach.\<close>

definition build_outputs ::
  "placing \<Rightarrow> (host_type \<Rightarrow> nat \<Rightarrow> bool) \<Rightarrow> (int list \<times> output_spec) list
     \<Rightarrow> ((int list \<times> nat list) list \<times> bool) alloc_op" where
  "build_outputs place converts outputs a =
     (case op_each (build_output place converts) (sort_key fst outputs) a of
        (Inl _, a') \<Rightarrow> (Inr ([], True), a')
      | (Inr sets, a') \<Rightarrow> (Inr (sets, False), a'))"

definition build_pool ::
  "placing \<Rightarrow> (host_type \<Rightarrow> nat \<Rightarrow> bool) \<Rightarrow> unit result \<Rightarrow> (bool \<Rightarrow> int \<Rightarrow> 'c) \<Rightarrow> pool_config
     \<Rightarrow> verifier_geometry option \<Rightarrow> (int list \<times> int list) list \<Rightarrow> (int list \<times> output_spec) list
     \<Rightarrow> 'c buffer_pool alloc_op" where
  "build_pool place converts synchronize memory c geometry masks outputs =
     op_bind (op_each (build_slot place c geometry) [0..<nat (pc_users c)]) (\<lambda>slots.
     op_bind (build_packed place c geometry) (\<lambda>packed.
     op_bind (build_masks place masks) (\<lambda>masks.
     op_bind (build_outputs place converts outputs) (\<lambda>(sets, refused).
     op_then (op_read (\<lambda>_. synchronize))
     (op_read (\<lambda>a. Inr \<lparr>pl_closed = False, pl_users = pc_users c, pl_slots = slots, pl_extent_replay = pc_extent c,
       pl_packed = (if pc_extent c then [] else packed), pl_extent = (if pc_extent c then packed else []),
       pl_masks = masks, pl_outputs = sets, pl_outputs_refused = refused,
       pl_place = (\<lambda>t. al_places a ! t), pl_memory = memory\<rparr>))))))"

definition fresh_alloc :: alloc where
  "fresh_alloc = \<lparr>al_places = [], al_bytes = 0, al_hosts = [Host_Int32, Host_Int16]\<rparr>"

definition pool_init ::
  "replay_env \<Rightarrow> placing \<Rightarrow> (host_type \<Rightarrow> nat \<Rightarrow> bool) \<Rightarrow> unit result \<Rightarrow> (bool \<Rightarrow> int \<Rightarrow> 'c) \<Rightarrow> pool_config
     \<Rightarrow> 'c buffer_pool result" where
  "pool_init env place converts synchronize memory c =
     rbind (pool_checks env c) (\<lambda>(geometry, masks, outputs).
       fst (build_pool place converts synchronize memory c geometry masks outputs fresh_alloc))"

end
