(* ===== verification/PoolLoans.thy ===== *)
theory PoolLoans
  imports PoolBuild Transition "HOL-Library.Multiset"
begin

text \<open>
  What the pool promises its borrowers: its buffers share no chip storage, a slot is lent to one holder at a time,
  and a loan begins zeroed with every bucket free.
\<close>

subsection \<open>The buffers are apart\<close>

definition apart :: "place list \<Rightarrow> bool" where
  "apart ps \<longleftrightarrow> sorted_wrt (\<lambda>p q. \<not> overlaps q p) ps"

definition grown :: "alloc \<Rightarrow> alloc \<Rightarrow> bool" where
  "grown a a' \<longleftrightarrow> (\<exists>new. al_places a' = al_places a @ new) \<and> (apart (al_places a) \<longrightarrow> apart (al_places a'))"

definition taken_between :: "alloc \<Rightarrow> alloc \<Rightarrow> nat multiset" where
  "taken_between a a' = mset [length (al_places a)..<length (al_places a')]"

text \<open>\<open>gives h acc m\<close>: what \<open>m\<close> answers owns, by \<open>h\<close>, what \<open>acc\<close> had and every buffer \<open>m\<close> allocated.\<close>

definition gives :: "('a \<Rightarrow> nat list) \<Rightarrow> nat multiset \<Rightarrow> 'a alloc_op \<Rightarrow> bool" where
  "gives h acc m \<longleftrightarrow> (\<forall>a r a'. m a = (r, a') \<longrightarrow> grown a a' \<and>
     (\<forall>x. r = Inr x \<longrightarrow> mset (h x) = acc + taken_between a a'))"

lemma grown_refl [simp]: "grown a a"
  by (simp add: grown_def)

lemma grown_trans: "grown a b \<Longrightarrow> grown b c \<Longrightarrow> grown a c"
  by (auto simp: grown_def)

lemma grown_length: "grown a b \<Longrightarrow> length (al_places a) \<le> length (al_places b)"
  by (auto simp: grown_def)

lemma taken_between_join: "grown a b \<Longrightarrow> grown b c \<Longrightarrow> taken_between a c = taken_between a b + taken_between b c"
  unfolding taken_between_def by (metis grown_length mset_append upt_add_eq_append le_add_diff_inverse)

lemma taken_between_refl [simp]: "taken_between a a = {#}"
  by (simp add: taken_between_def)

lemma givesD:
  "gives h acc m \<Longrightarrow> m a = (r, a') \<Longrightarrow> grown a a'"
  "gives h acc m \<Longrightarrow> m a = (Inr x, a') \<Longrightarrow> mset (h x) = acc + taken_between a a'"
  by (auto simp: gives_def)

lemma gives_return: "mset (h x) = acc \<Longrightarrow> gives h acc (op_return x)"
  by (auto simp: gives_def)

lemma gives_bind:
  assumes "gives f {#} m" and "\<And>x. gives h (acc + mset (f x)) (k x)"
  shows "gives h acc (op_bind m k)"
  unfolding gives_def
proof (intro allI impI)
  fix a r a' assume run: "op_bind m k a = (r, a')"
  obtain r1 a1 where m: "m a = (r1, a1)" by (cases "m a")
  show "grown a a' \<and> (\<forall>y. r = Inr y \<longrightarrow> mset (h y) = acc + taken_between a a')"
  proof (cases r1)
    case (Inl e)
    then show ?thesis using run m givesD(1) [OF assms(1) m] by (auto simp: op_bind_def)
  next
    case (Inr x)
    then have k: "k x a1 = (r, a')" using run m by (simp add: op_bind_def)
    have g: "grown a a1" "grown a1 a'" using givesD(1) [OF assms(1) m] givesD(1) [OF assms(2) k] by simp_all
    have f: "mset (f x) = taken_between a a1" using givesD(2) [OF assms(1)] m Inr by force
    have "mset (h y) = acc + taken_between a a'" if "r = Inr y" for y
      using givesD(2) [OF assms(2), of x a1 y a'] k that by (simp add: f taken_between_join [OF g] add.assoc)
    then show ?thesis using grown_trans [OF g] by simp
  qed
qed

lemma gives_read: "(\<And>x. gives h acc (k x)) \<Longrightarrow> gives h acc (op_bind (op_read f) k)"
  unfolding gives_def by (auto simp: op_bind_def split: sum.splits)

lemma gives_update:
  assumes m: "gives h acc m" and f: "\<And>a. al_places (f a) = al_places a"
  shows "gives h acc (op_then (op_update f) m)"
  unfolding gives_def
proof (intro allI impI)
  fix a r a' assume "op_then (op_update f) m a = (r, a')"
  then have "m (f a) = (r, a')" by (simp add: op_then_def op_bind_def)
  then show "grown a a' \<and> (\<forall>x. r = Inr x \<longrightarrow> mset (h x) = acc + taken_between a a')"
    using m f [of a] unfolding gives_def grown_def taken_between_def by metis
qed

lemma op_then_update: "op_then (op_update f) m = (\<lambda>a. m (f a))"
  by (rule ext) (simp add: op_then_def op_bind_def)

lemma gives_each:
  assumes "\<And>x. gives f {#} (m x)" shows "gives (\<lambda>ys. concat (map f ys)) {#} (op_each m xs)"
proof (induction xs)
  case Nil
  then show ?case by (simp add: gives_return del: op_simps)
next
  case (Cons x xs)
  show ?case
    by (simp del: op_simps, rule gives_bind [OF assms], rule gives_bind [OF Cons.IH]) (simp add: gives_return del: op_simps)
qed

lemma gives_each_list:
  assumes "\<And>x. gives (\<lambda>ids. ids) {#} (m x)" shows "gives concat {#} (op_each m xs)"
  using gives_each [of "\<lambda>ids. ids" m xs] assms by simp

lemma gives_allocate: "gives (\<lambda>n. [n]) {#} (allocate place itemsize shape)"
  by (auto simp: gives_def allocate_def Let_def grown_def taken_between_def apart_def sorted_wrt_append list_ex_iff
      split: sum.splits if_splits)

lemmas gives_rules = gives_bind [OF gives_allocate] gives_read

lemma gives_each_one: "gives (\<lambda>ids. ids) {#} (op_each (\<lambda>x. allocate place b (sh x)) xs)"
  using gives_each [of "\<lambda>n. [n]" "\<lambda>x. allocate place b (sh x)" xs] gives_allocate by simp

lemma gives_snapshot: "gives (\<lambda>ids. ids) {#} (snapshot_set place g)"
  using gives_each_one [of place 2 "\<lambda>s. s" "concat (vg_helpers g)"] by (simp add: snapshot_set_def)

lemma gives_family_tables: "gives (\<lambda>ids. ids) {#} (family_tables place rows w capacity)"
  unfolding family_tables_def by (rule gives_read) (rule gives_each_one)

lemma mset_sort_concat: "mset (concat (map snd (sort_key fst xs))) = mset (concat (map snd xs))"
  by (simp add: mset_concat flip: sum_mset_sum_list)

lemma gives_batch: "gives batch_tensors {#} (build_batch place c g rows)"
  unfolding build_batch_def
  apply (rule gives_rules)+
  apply (rule gives_bind [OF gives_each_one])
  apply (rule gives_bind [where f = "\<lambda>xs. concat (map snd xs)"])
   apply (rule gives_each [where f = snd])
   apply (rule gives_bind [OF gives_family_tables])
   apply (rule gives_return, simp)
  apply (rule gives_rules)+
  apply (rule gives_return)
  apply (simp add: batch_tensors_def replay_tables_def mset_sort_concat)
  done

lemma gives_hidden:
  "gives of_option {#} (if hidden then op_bind (allocate place b shape) (\<lambda>h. op_return (Some h)) else op_return None)"
  by (auto simp: of_option_def simp del: op_simps intro!: gives_return gives_bind [OF gives_allocate])

lemma gives_bucket: "gives bucket_tensors {#} (build_bucket place c g rows)"
  unfolding build_bucket_def
  apply (rule gives_bind [OF gives_snapshot])
  apply (rule gives_bind [OF gives_each_one])
  apply (rule gives_bind [OF gives_hidden])
  apply (rule gives_bind [OF gives_batch])
  apply (rule gives_return)
  apply (simp add: bucket_tensors_def)
  done

definition verifier_tensors :: "verifier_slot \<Rightarrow> nat list" where
  "verifier_tensors v = vs_initial v @ vs_carry v @ concat (map bucket_tensors (vs_buckets v))"

lemma gives_verifier: "gives verifier_tensors {#} (build_verifier place c g)"
  unfolding build_verifier_def
  apply (rule gives_bind [OF gives_snapshot])
  apply (rule gives_bind [OF gives_snapshot])
  apply (rule gives_bind [OF gives_each [OF gives_bucket]])
  apply (rule gives_return)
  apply (simp add: verifier_tensors_def)
  done

lemma ps_tensors_parts:
  "ps_tensors s = ps_history s # ps_spare s # ps_kv s @ of_option (ps_query s)
     @ concat (map verifier_tensors (of_option (ps_verifier s)))"
  by (simp add: ps_tensors_def of_option_def verifier_tensors_def split: option.splits)

lemma gives_parts:
  "gives (\<lambda>(query, verifier). of_option query @ concat (map verifier_tensors (of_option verifier))) {#}
     (case geometry of None \<Rightarrow> op_return (None, None)
      | Some g \<Rightarrow> op_bind (allocate place 2 QUERY_SHAPE) (\<lambda>query.
          op_bind (build_verifier place c g) (\<lambda>verifier. op_return (Some query, Some verifier))))"
proof (cases geometry)
  case None
  then show ?thesis by (simp add: gives_return of_option_def del: op_simps)
next
  case (Some g)
  show ?thesis unfolding Some option.case
    by (rule gives_bind [OF gives_allocate], rule gives_bind [OF gives_verifier], rule gives_return) (simp add: of_option_def)
qed

lemma gives_slot: "gives ps_tensors {#} (build_slot place c geometry i)"
  unfolding build_slot_def
  apply (rule gives_update)
   apply (rule gives_rules)+
   apply (rule gives_bind [OF gives_each_one])
   apply (rule gives_bind [OF gives_parts])
   apply (clarsimp simp del: op_simps)
   apply (rule gives_read)
   apply (rule gives_return)
   apply (simp add: ps_tensors_parts)
  apply simp
  done

lemma build_slot_fields:
  assumes "build_slot place c geometry i a = (Inr s, a')"
  shows "ps_index s = i" and "ps_addresses s = map (\<lambda>t. al_places a' ! t) (ps_tensors s)" and "\<not> ps_lent s"
  using assms by (auto simp: build_slot_def op_returned Let_def ps_tensors_def split: prod.splits)

subsection \<open>The pool as it is built\<close>

lemma op_each_run:
  assumes "\<And>x. gives h {#} (f x)" and "op_each f xs a = (Inr ys, a')"
  shows "length ys = length xs" and "\<And>k. k < length xs \<Longrightarrow> \<exists>b b'. f (xs ! k) b = (Inr (ys ! k), b') \<and> grown b' a'"
proof -
  have "length ys = length xs \<and> (\<forall>k < length xs. \<exists>b b'. f (xs ! k) b = (Inr (ys ! k), b') \<and> grown b' a')"
    using assms(2)
  proof (induction xs arbitrary: a ys)
    case Nil
    then show ?case by simp
  next
    case (Cons x xs)
    obtain y zs a1 where y: "f x a = (Inr y, a1)" and zs: "op_each f xs a1 = (Inr zs, a')" and ys: "ys = y # zs"
      using Cons.prems by (auto simp: op_bind_Inr)
    have "grown a1 a'" using givesD(1) [OF gives_each [of h f xs, OF assms(1)] zs] .
    then show ?case using Cons.IH [OF zs] y by (auto simp: ys nth_Cons split: nat.splits)
  qed
  then show "length ys = length xs" "\<And>k. k < length xs \<Longrightarrow> \<exists>b b'. f (xs ! k) b = (Inr (ys ! k), b') \<and> grown b' a'"
    by blast+
qed

definition sets_tensors :: "('k \<times> lent_tables list) list \<Rightarrow> nat list" where
  "sets_tensors d = concat (map (\<lambda>(_, sets). concat (map lt_tensors sets)) d)"

lemma concat_of_concat: "concat (concat xs) = concat (map concat xs)"
  by (induction xs) simp_all

lemma gives_extent: "gives lt_tensors {#} (build_extent place g shape)"
  unfolding build_extent_def
proof (rule gives_read, rule gives_bind)
  show "gives (\<lambda>xs. concat (map concat xs)) {#} (op_each (\<lambda>_. op_each (\<lambda>entries. op_bind (allocate place 4 [int entries, vg_page_width g])
      (\<lambda>t. op_bind (allocate place 4 [int entries]) (\<lambda>c. op_return [t, c]))) batches) us)" for batches and us :: "unit list"
    by (rule gives_each, rule gives_each_list, (rule gives_bind [OF gives_allocate])+, rule gives_return) simp
qed (auto intro: gives_return simp: concat_of_concat simp del: op_simps)

lemma gives_tables: "gives lt_tensors {#} (build_tables place g shape)"
  unfolding build_tables_def
proof (rule gives_bind)
  show "gives (\<lambda>xs. concat (map snd xs)) {#} (op_each (\<lambda>capacity. op_bind (op_each (\<lambda>_. family_tables place (snd shape)
      (vg_packed_group_rows g) capacity) us) (\<lambda>per_user. op_return (capacity, concat per_user))) cs)" for us :: "unit list" and cs
    by (rule gives_each, rule gives_bind, rule gives_each_list, rule gives_family_tables, rule gives_return) simp
qed (auto intro!: gives_return simp: mset_sort_concat simp del: op_simps)

lemma gives_packed: "gives sets_tensors {#} (build_packed place c geometry)"
proof (cases geometry)
  case None
  then show ?thesis by (simp add: build_packed_def sets_tensors_def gives_return del: op_simps)
next
  case (Some g)
  have one: "gives lt_tensors {#} (if pc_extent c then build_extent place g shape else build_tables place g shape)" for shape
    by (simp add: gives_extent gives_tables)
  show ?thesis unfolding build_packed_def Some option.case sets_tensors_def
    by (rule gives_each, rule gives_bind, rule gives_each, rule one, rule gives_return) simp
qed

definition masks_tensors :: "('k \<times> ('s \<times> nat)) list \<Rightarrow> nat list" where
  "masks_tensors d = map (\<lambda>(_, (_, t)). t) d"

lemma gives_masks: "gives masks_tensors {#} (build_masks place masks)"
proof -
  have "gives (\<lambda>(_, (_, t)). [t]) {#} ((\<lambda>(slots, shape). op_bind (allocate place 2 shape) (\<lambda>t. op_return (slots, (shape, t)))) m)"
    for m :: "int list \<times> int list"
    by (cases m, simp del: op_simps, rule gives_bind [OF gives_allocate], rule gives_return) simp
  then have "gives (\<lambda>ys. concat (map (\<lambda>(_, (_, t)). [t]) ys)) {#} (build_masks place masks)"
    unfolding build_masks_def by (rule gives_each)
  moreover have "concat (map (\<lambda>(_, (_, t)). [t]) ys) = masks_tensors ys" for ys :: "(int list \<times> int list \<times> nat) list"
    by (induction ys) (auto simp: masks_tensors_def)
  ultimately show ?thesis by simp
qed

lemma gives_cases:
  assumes "\<And>a. \<exists>m. gives h acc m \<and> n a = m a" shows "gives h acc n"
  unfolding gives_def
proof (intro allI impI)
  fix a r a' assume run: "n a = (r, a')"
  obtain m where "gives h acc m" "n a = m a" using assms by blast
  then show "grown a a' \<and> (\<forall>x. r = Inr x \<longrightarrow> mset (h x) = acc + taken_between a a')"
    using run unfolding gives_def by metis
qed

lemma gives_raise: "(\<And>a. al_places (f a) = al_places a) \<Longrightarrow> gives h acc (\<lambda>a. (Inl e, f a))"
  by (simp add: gives_def grown_def)

lemma gives_indices: "gives (\<lambda>n. [n]) {#} (allocate_indices place converts shape hosts)"
proof (induction hosts)
  case Nil
  then show ?case by (simp add: gives_def)
next
  case (Cons host hosts)
  have here: "gives (\<lambda>n. [n]) {#} (\<lambda>a. allocate place 2 shape (a\<lparr>al_hosts := host # hosts\<rparr>))"
    using gives_update [OF gives_allocate, of "\<lambda>a. a\<lparr>al_hosts := host # hosts\<rparr>" place 2 shape]
    by (simp add: op_then_update)
  have refused: "gives (\<lambda>n. [n]) {#} (\<lambda>a. (Inl CallbackError, a\<lparr>al_hosts := [host]\<rparr>))"
    by (rule gives_raise) simp
  show ?case
  proof (rule gives_cases)
    fix a
    show "\<exists>m. gives (\<lambda>n. [n]) {#} m \<and> allocate_indices place converts shape (host # hosts) a = m a"
    proof (cases "converts host (length (al_places a))")
      case True
      then show ?thesis using here by (intro exI conjI) auto
    next
      case False
      then show ?thesis using refused Cons by (cases "hosts = []") (intro exI conjI, assumption, simp)+
    qed
  qed
qed

definition outputs_tensors :: "('k \<times> nat list) list \<Rightarrow> nat list" where
  "outputs_tensors d = concat (map snd d)"

lemma gives_output: "gives snd {#} (build_output place converts m)"
proof -
  obtain slots spec where m: "m = (slots, spec)" by (cases m)
  have i: "gives (\<lambda>n. [n]) {#} (\<lambda>a. allocate_indices place converts (os_head spec) (al_hosts a) a)"
    using gives_indices [of place converts "os_head spec"] unfolding gives_def by metis
  have "gives (\<lambda>ids. ids) {#} (op_bind (allocate place 2 (os_head spec)) (\<lambda>values.
      op_bind (\<lambda>a. allocate_indices place converts (os_head spec) (al_hosts a) a) (\<lambda>indices. op_return [values, indices])))"
    by (rule gives_bind [OF gives_allocate], rule gives_bind [OF i], rule gives_return) simp
  then have "gives concat {#} (op_each (\<lambda>_. op_bind (allocate place 2 (os_head spec)) (\<lambda>values.
      op_bind (\<lambda>a. allocate_indices place converts (os_head spec) (al_hosts a) a) (\<lambda>indices. op_return [values, indices]))) cs)"
    for cs :: "(int \<times> int) list" by (rule gives_each_list)
  then show ?thesis unfolding m build_output_def
    by (simp del: op_simps, rule_tac gives_bind) (auto intro!: gives_bind [OF gives_allocate] gives_return simp del: op_simps)
qed

lemma build_outputs_run:
  assumes "build_outputs place converts outputs a = (Inr (sets, refused), a')"
  shows "grown a a'" and "mset (outputs_tensors sets) \<subseteq># taken_between a a'"
proof -
  have g: "gives outputs_tensors {#} (op_each (build_output place converts) xs)" for xs
    unfolding outputs_tensors_def by (rule gives_each) (rule gives_output)
  obtain r b where r: "op_each (build_output place converts) (sort_key fst outputs) a = (r, b)" by fastforce
  show "grown a a'" using givesD(1) [OF g r] r assms by (auto simp: build_outputs_def split: sum.splits)
  show "mset (outputs_tensors sets) \<subseteq># taken_between a a'"
    using givesD(2) [OF g, of _ a] r assms by (auto simp: build_outputs_def outputs_tensors_def split: sum.splits)
qed

subsection \<open>The invariant\<close>

definition pool_tensors :: "'c buffer_pool \<Rightarrow> nat list" where
  "pool_tensors p = concat (map ps_tensors (pl_slots p)) @ sets_tensors (pl_packed p) @ sets_tensors (pl_extent p)
     @ masks_tensors (pl_masks p) @ outputs_tensors (pl_outputs p)"

definition pool_ok :: "'c buffer_pool \<Rightarrow> bool" where
  "pool_ok p \<longleftrightarrow> distinct (pool_tensors p)
     \<and> (\<forall>t \<in> set (pool_tensors p). \<forall>u \<in> set (pool_tensors p). t \<noteq> u \<longrightarrow> \<not> overlaps (pl_place p t) (pl_place p u))
     \<and> (\<forall>i < length (pl_slots p). ps_index (pl_slots p ! i) = i
          \<and> ps_addresses (pl_slots p ! i) = map (pl_place p) (ps_tensors (pl_slots p ! i)))"

lemma taken_below: "t \<in># taken_between a a' \<Longrightarrow> t < length (al_places a')"
  by (simp add: taken_between_def)

lemma apart_nth:
  assumes "apart ps" and "t < length ps" and "u < length ps" and "t \<noteq> u"
  shows "\<not> overlaps (ps ! t) (ps ! u)"
proof -
  have "\<not> overlaps (ps ! u) (ps ! t)" if "t < u" "u < length ps" for t u
    using assms(1) that by (auto simp: apart_def sorted_wrt_iff_nth_less)
  moreover have "overlaps p q = overlaps q p" for p q by (auto simp: overlaps_def)
  ultimately show ?thesis using assms by (metis linorder_neqE_nat)
qed

lemma distinct_of_count:
  assumes "\<And>t. count (mset xs) t \<le> 1" shows "distinct xs"
proof (unfold distinct_count_atmost_1, rule allI)
  fix t
  show "count (mset xs) t = (if t \<in> set xs then 1 else 0)"
  proof (cases "t \<in> set xs")
    case True
    then have "count (mset xs) t \<noteq> 0" by simp
    then have "count (mset xs) t = 1" using assms [of t] by linarith
    then show ?thesis using True by (simp only: if_True)
  next
    case False
    then show ?thesis by (simp only: if_False count_mset_0_iff not_False_eq_True)
  qed
qed

lemma build_pool_ok:
  assumes "build_pool place converts synchronize memory c geometry masks outputs fresh_alloc = (Inr p, a)"
  shows "pool_ok p" and "\<not> pl_closed p" and "length (pl_slots p) = nat (pc_users c)"
    and "\<forall>s \<in> set (pl_slots p). \<not> ps_lent s"
proof -
  obtain slots a1 packed a2 ms a3 sets refused where
    s: "op_each (build_slot place c geometry) [0..<nat (pc_users c)] fresh_alloc = (Inr slots, a1)"
    and pk: "build_packed place c geometry a1 = (Inr packed, a2)" and m: "build_masks place masks a2 = (Inr ms, a3)"
    and o: "build_outputs place converts outputs a3 = (Inr (sets, refused), a)"
    and p: "p = \<lparr>pl_closed = False, pl_users = pc_users c, pl_slots = slots, pl_extent_replay = pc_extent c,
            pl_packed = (if pc_extent c then [] else packed), pl_extent = (if pc_extent c then packed else []),
            pl_masks = ms, pl_outputs = sets, pl_outputs_refused = refused,
            pl_place = (\<lambda>t. al_places a ! t), pl_memory = memory\<rparr>"
    using assms by (auto simp: build_pool_def op_returned)
  note g = givesD(1) [OF gives_each [OF gives_slot] s] givesD(1) [OF gives_packed pk] givesD(1) [OF gives_masks m]
    build_outputs_run(1) [OF o]
  have a1: "grown a1 a" using g by (metis grown_trans)
  have "pool_tensors p = concat (map ps_tensors slots) @ sets_tensors packed @ masks_tensors ms @ outputs_tensors sets"
    by (auto simp: pool_tensors_def p sets_tensors_def)
  moreover have "taken_between fresh_alloc a
      = taken_between fresh_alloc a1 + (taken_between a1 a2 + (taken_between a2 a3 + taken_between a3 a))"
    using g by (metis taken_between_join grown_trans)
  ultimately have "mset (pool_tensors p) \<subseteq># taken_between fresh_alloc a"
    using givesD(2) [OF gives_each [OF gives_slot] s] givesD(2) [OF gives_packed pk] givesD(2) [OF gives_masks m]
      build_outputs_run(2) [OF o] by (simp add: subset_mset.add_mono)
  then have sub: "mset (pool_tensors p) \<subseteq># mset [0..<length (al_places a)]"
    by (simp add: taken_between_def fresh_alloc_def)
  have once: "count (mset [0..<n]) t \<le> 1" for n t by (simp add: count_mset_set')
  have dist: "distinct (pool_tensors p)"
    by (rule distinct_of_count) (rule order.trans [OF mset_subset_eq_count [OF sub] once])
  have below: "t < length (al_places a)" if "t \<in> set (pool_tensors p)" for t
    using set_mset_mono [OF sub] that by auto
  have "apart (al_places a)"
    using grown_trans [OF g(1) a1] by (simp add: grown_def fresh_alloc_def apart_def)
  then have far: "\<not> overlaps (pl_place p t) (pl_place p u)"
    if "t \<in> set (pool_tensors p)" "u \<in> set (pool_tensors p)" "t \<noteq> u" for t u
    using apart_nth below that by (simp add: p)
  have field: "ps_index (slots ! i) = i" "ps_addresses (slots ! i) = map (pl_place p) (ps_tensors (slots ! i))"
      "\<not> ps_lent (slots ! i)" if i: "i < length slots" for i
  proof -
    note r = op_each_run [OF gives_slot s]
    obtain b b' where b: "build_slot place c geometry i b = (Inr (slots ! i), b')" "grown b' a1"
      using r(2) [of i] i r(1) by auto
    note f = build_slot_fields [OF b(1)]
    show "ps_index (slots ! i) = i" "\<not> ps_lent (slots ! i)" using f by simp_all
    have "t < length (al_places b')" if "t \<in> set (ps_tensors (slots ! i))" for t
      using givesD(2) [OF gives_slot b(1)] that by (metis add_0 set_mset_mset taken_below)
    moreover have "grown b' a" using b(2) a1 by (rule grown_trans)
    ultimately have "al_places b' ! t = al_places a ! t" if "t \<in> set (ps_tensors (slots ! i))" for t
      using that by (auto simp: grown_def nth_append)
    then show "ps_addresses (slots ! i) = map (pl_place p) (ps_tensors (slots ! i))" using f(2) by (simp add: p)
  qed
  show "pool_ok p" using dist far field by (simp add: pool_ok_def p)
  show "\<not> pl_closed p" "length (pl_slots p) = nat (pc_users c)"
    using op_each_run(1) [OF gives_slot s] by (simp_all add: p)
  show "\<forall>s \<in> set (pl_slots p). \<not> ps_lent s" using field(3) by (auto simp: p in_set_conv_nth)
qed

lemma pool_init_ok:
  assumes "pool_init env place converts synchronize memory c = Inr p"
  shows "pool_ok p" and "\<not> pl_closed p" and "length (pl_slots p) = nat (pc_users c)"
    and "\<forall>s \<in> set (pl_slots p). \<not> ps_lent s" and "1 \<le> pc_users c" and "pc_users c \<le> NATIVE_GDN_SLOTS"
proof -
  obtain geometry masks outputs where chk: "pool_checks env c = Inr (geometry, masks, outputs)"
    and run: "fst (build_pool place converts synchronize memory c geometry masks outputs fresh_alloc) = Inr p"
    using assms unfolding pool_init_def by (auto elim!: rbind_InrE)
  then obtain a where "build_pool place converts synchronize memory c geometry masks outputs fresh_alloc = (Inr p, a)"
    by (metis prod.collapse)
  from build_pool_ok [OF this]
  show "pool_ok p" "\<not> pl_closed p" "length (pl_slots p) = nat (pc_users c)" "\<forall>s \<in> set (pl_slots p). \<not> ps_lent s" .
  show "1 \<le> pc_users c" "pc_users c \<le> NATIVE_GDN_SLOTS"
    using chk by (auto simp: pool_checks_def rbind_Inr_iff split: if_splits)
qed

subsection \<open>What the operations keep\<close>

lemma ps_tensors_flags [simp]:
  "ps_tensors (s\<lparr>ps_lent := l\<rparr>) = ps_tensors s" "ps_tensors (s\<lparr>ps_owner := w\<rparr>) = ps_tensors s"
  "ps_zeroed (s\<lparr>ps_lent := l\<rparr>) = ps_zeroed s" "ps_zeroed (s\<lparr>ps_owner := w\<rparr>) = ps_zeroed s"
  by (simp_all add: ps_tensors_def ps_zeroed_def)

lemma bucket_tensors_taken [simp]:
  "bucket_tensors (b\<lparr>bu_taken := x\<rparr>) = bucket_tensors b" "bucket_zeroed (b\<lparr>bu_taken := x\<rparr>) = bucket_zeroed b"
  by (simp_all add: bucket_tensors_def bucket_zeroed_def)

lemma verifier_reset_flags [simp]:
  "ps_tensors (verifier_reset s) = ps_tensors s" "ps_zeroed (verifier_reset s) = ps_zeroed s"
  "ps_index (verifier_reset s) = ps_index s" "ps_addresses (verifier_reset s) = ps_addresses s"
  by (auto simp: verifier_reset_def ps_tensors_def ps_zeroed_def comp_def split: option.splits)

lemma zeroed_owned: "set (ps_zeroed s) \<subseteq> set (ps_tensors s)"
  by (auto simp: ps_tensors_def ps_zeroed_def bucket_tensors_def bucket_zeroed_def batch_tensors_def split: option.splits)

lemma take_bucket_tensors:
  "take_bucket rows bs = Some (b, bs') \<Longrightarrow> map bucket_tensors bs' = map bucket_tensors bs \<and> b \<in> set bs' \<and> bu_rows b = rows"
  by (induction bs arbitrary: bs') (auto split: if_splits)

lemma pool_ok_memory: "pool_ok (p\<lparr>pl_memory := m\<rparr>) = pool_ok p"
  by (simp add: pool_ok_def pool_tensors_def)

lemma write_keeps [simp]:
  "pl_slots (write_tensor t v p) = pl_slots p" "pl_place (write_tensor t v p) = pl_place p"
  "pl_closed (write_tensor t v p) = pl_closed p" "pool_ok (write_tensor t v p) = pool_ok p"
  by (simp_all add: write_tensor_def pool_ok_memory)

lemma writes_keep [simp]:
  "pl_slots (fold (\<lambda>t. write_tensor t v) ts p) = pl_slots p" "pl_place (fold (\<lambda>t. write_tensor t v) ts p) = pl_place p"
  "pl_closed (fold (\<lambda>t. write_tensor t v) ts p) = pl_closed p" "pool_ok (fold (\<lambda>t. write_tensor t v) ts p) = pool_ok p"
  by (induction ts arbitrary: p) simp_all

lemma read_write_other:
  "\<not> overlaps (pl_place p t) (pl_place p u) \<Longrightarrow> read_tensor (write_tensor t v p) u = read_tensor p u"
  by (auto simp: read_tensor_def write_tensor_def overlaps_def)

lemma read_write_same [simp]: "read_tensor (write_tensor t v p) t = (v, v)"
  by (simp add: read_tensor_def write_tensor_def)

lemma read_writes_other:
  "\<forall>t \<in> set ts. \<not> overlaps (pl_place p t) (pl_place p u) \<Longrightarrow>
     read_tensor (fold (\<lambda>t. write_tensor t v) ts p) u = read_tensor p u"
  by (induction ts arbitrary: p) (simp_all add: read_write_other)

text \<open>Equal values may be written over each other in any order.\<close>

lemma read_write_kept: "read_tensor p u = (v, v) \<Longrightarrow> read_tensor (write_tensor t v p) u = (v, v)"
  by (auto simp: read_tensor_def write_tensor_def)

lemma read_writes_kept: "read_tensor p u = (v, v) \<Longrightarrow> read_tensor (fold (\<lambda>t. write_tensor t v) ts p) u = (v, v)"
  by (induction ts arbitrary: p) (simp_all add: read_write_kept)

lemma read_zeroed: "t \<in> set ts \<Longrightarrow> read_tensor (fold (\<lambda>t. write_tensor t v) ts p) t = (v, v)"
  by (induction ts arbitrary: p) (auto simp: read_writes_kept)

lemma pool_ok_slot:
  assumes ok: "pool_ok p" and i: "i < length (pl_slots p)"
    and same: "ps_tensors s = ps_tensors (pl_slots p ! i)" "ps_index s = ps_index (pl_slots p ! i)"
      "ps_addresses s = ps_addresses (pl_slots p ! i)"
  shows "pool_ok (p\<lparr>pl_slots := (pl_slots p)[i := s]\<rparr>)"
proof -
  have "map ps_tensors ((pl_slots p)[i := s]) = map ps_tensors (pl_slots p)"
    using same(1) by (metis list_update_id map_update)
  then have t: "pool_tensors (p\<lparr>pl_slots := (pl_slots p)[i := s]\<rparr>) = pool_tensors p" by (simp add: pool_tensors_def)
  show ?thesis using ok i same unfolding pool_ok_def t by (auto simp: nth_list_update)
qed

lemma slot_tensors_owned: "i < length (pl_slots p) \<Longrightarrow> t \<in> set (ps_tensors (pl_slots p ! i)) \<Longrightarrow> t \<in> set (pool_tensors p)"
  by (auto simp: pool_tensors_def dest: nth_mem)

lemma distinct_concat_apart:
  "distinct (concat xss) \<Longrightarrow> i < length xss \<Longrightarrow> j < length xss \<Longrightarrow> i \<noteq> j \<Longrightarrow> x \<in> set (xss ! i) \<Longrightarrow> x \<notin> set (xss ! j)"
proof (induction xss arbitrary: i j)
  case (Cons xs xss)
  have inside: "k < length xss \<Longrightarrow> y \<in> set (xss ! k) \<Longrightarrow> y \<in> set (concat xss)" for k y by (auto dest: nth_mem)
  show ?case
  proof (cases i)
    case 0
    with Cons.prems obtain k where "j = Suc k" by (cases j) simp_all
    then show ?thesis using Cons.prems 0 inside [of k x] by auto
  next
    case (Suc k)
    show ?thesis
    proof (cases j)
      case 0
      then show ?thesis using Cons.prems Suc inside [of k x] by auto
    next
      case (Suc l)
      then show ?thesis using Cons.prems Cons.IH [of k l] \<open>i = Suc k\<close> by simp
    qed
  qed
qed simp

lemma slots_apart:
  assumes "pool_ok p" and "i < length (pl_slots p)" and "j < length (pl_slots p)" and "i \<noteq> j"
    and "t \<in> set (ps_tensors (pl_slots p ! i))" and "u \<in> set (ps_tensors (pl_slots p ! j))"
  shows "\<not> overlaps (pl_place p t) (pl_place p u)"
proof -
  have "t \<notin> set (ps_tensors (pl_slots p ! j))"
    using distinct_concat_apart [of "map ps_tensors (pl_slots p)" i j t] assms by (simp add: pool_ok_def pool_tensors_def)
  then have "t \<noteq> u" using assms(6) by auto
  then show ?thesis
    using assms(1) slot_tensors_owned [OF assms(2,5)] slot_tensors_owned [OF assms(3,6)] by (simp add: pool_ok_def)
qed

lemma slot_verify_Inr: "pool_ok p \<Longrightarrow> i < length (pl_slots p) \<Longrightarrow> slot_verify (pl_slots p ! i) p = (Inr (), p)"
  by (simp add: slot_verify_def op_refuse_def pool_ok_def)

lemma first_unlent_Some:
  "pool_ok p \<Longrightarrow> first_unlent p = Some s \<longleftrightarrow>
     ps_index s < length (pl_slots p) \<and> s = pl_slots p ! ps_index s \<and> \<not> ps_lent s \<and> (\<forall>j < ps_index s. ps_lent (pl_slots p ! j))"
  (is "_ \<Longrightarrow> _ = ?r")
proof
  assume ok: "pool_ok p"
  have index: "k < length (pl_slots p) \<Longrightarrow> ps_index (pl_slots p ! k) = k" for k using ok by (simp add: pool_ok_def)
  show ?r if f: "first_unlent p = Some s"
  proof -
    obtain k where "k < length (pl_slots p)" "\<not> ps_lent (pl_slots p ! k)" "s = pl_slots p ! k"
      "\<forall>j < k. ps_lent (pl_slots p ! j)" using f unfolding first_unlent_def find_Some_iff by blast
    then show ?r using index [of k] by simp
  qed
  show "first_unlent p = Some s" if ?r
    unfolding first_unlent_def find_Some_iff using that by (intro exI [of _ "ps_index s"]) auto
qed

lemma first_unlent_None: "first_unlent p = None \<longleftrightarrow> (\<forall>j < length (pl_slots p). ps_lent (pl_slots p ! j))"
  by (auto simp: first_unlent_def find_None_iff in_set_conv_nth)

text \<open>A slot as \<open>acquire\<close> hands it out.\<close>

definition lend :: "string \<Rightarrow> pool_slot \<Rightarrow> pool_slot" where
  "lend owner s = (verifier_reset s)\<lparr>ps_lent := True, ps_owner := Some owner\<rparr>"

definition take_back :: "pool_slot \<Rightarrow> pool_slot" where
  "take_back s = (verifier_reset s)\<lparr>ps_lent := False, ps_owner := None\<rparr>"

lemma lend_flags [simp]:
  "ps_tensors (lend w s) = ps_tensors s" "ps_zeroed (lend w s) = ps_zeroed s" "ps_index (lend w s) = ps_index s"
  "ps_addresses (lend w s) = ps_addresses s" "ps_lent (lend w s)"
  "ps_tensors (take_back s) = ps_tensors s" "ps_zeroed (take_back s) = ps_zeroed s" "ps_index (take_back s) = ps_index s"
  "ps_addresses (take_back s) = ps_addresses s" "\<not> ps_lent (take_back s)"
  by (simp_all add: lend_def take_back_def)

lemma pool_acquire_cases:
  assumes "pool_ok p"
  shows "pool_acquire zero owner p =
    (if pl_closed p then (Inl ValueError, p)
     else case first_unlent p of None \<Rightarrow> (Inl ValueError, p)
       | Some s \<Rightarrow> (Inr (ps_index s), (fold (\<lambda>t. write_tensor t zero) (ps_zeroed s) p)
           \<lparr>pl_slots := (pl_slots p)[ps_index s := lend owner s]\<rparr>))"
proof (cases "first_unlent p")
  case None
  then show ?thesis by (simp add: pool_acquire_def pool_open_def op_refuse_def op_then_def op_bind_def)
next
  case (Some s)
  then have "ps_index s < length (pl_slots p)" "s = pl_slots p ! ps_index s" using first_unlent_Some [OF assms] by simp_all
  then have "slot_verify s p = (Inr (), p)" using slot_verify_Inr [OF assms] by metis
  then show ?thesis using Some
    by (simp add: pool_acquire_def pool_open_def op_refuse_def op_then_def op_bind_def zero_slot_def set_slot_def lend_def)
qed

lemma pool_release_cases:
  assumes "pool_ok p"
  shows "pool_release i p =
    (if pl_closed p \<or> length (pl_slots p) \<le> i \<or> \<not> ps_lent (pl_slots p ! i) then (Inl ValueError, p)
     else (Inr (), p\<lparr>pl_slots := (pl_slots p)[i := take_back (pl_slots p ! i)]\<rparr>))"
  using slot_verify_Inr [OF assms, of i]
  by (simp add: pool_release_def pool_open_def the_slot_def op_refuse_def op_then_def op_bind_def set_slot_def take_back_def)

lemma pool_rezero_cases:
  assumes "pool_ok p"
  shows "pool_rezero zero i p =
    (if pl_closed p \<or> length (pl_slots p) \<le> i then (Inl ValueError, p)
     else (Inr (), fold (\<lambda>t. write_tensor t zero) (ps_zeroed (pl_slots p ! i)) p))"
  using slot_verify_Inr [OF assms, of i]
  by (simp add: pool_rezero_def pool_open_def the_slot_def op_refuse_def op_then_def op_bind_def zero_slot_def)

end
