(* ===== verification/PoolProps.thy ===== *)
theory PoolProps
  imports PoolLoans
begin

text \<open>
  The pool as a transition system: its own operations, and what the holder of a slot writes. A label names the slot
  a step is about.
\<close>

inductive pool_step :: "'c \<Rightarrow> nat option \<Rightarrow> 'c buffer_pool \<Rightarrow> 'c buffer_pool \<Rightarrow> bool" for zero where
  acquire: "pool_acquire zero owner p = (Inr i, p') \<Longrightarrow> pool_step zero (Some i) p p'"
| refuse: "pool_acquire zero owner p = (Inl e, p') \<Longrightarrow> pool_step zero None p p'"
| release: "pool_step zero (Some i) p (snd (pool_release i p))"
| rezero: "pool_step zero (Some i) p (snd (pool_rezero zero i p))"
| take: "pool_step zero (Some i) p (snd (verifier_take i rows p))"
| hold: "i < length (pl_slots p) \<Longrightarrow> ps_lent (pl_slots p ! i) \<Longrightarrow> t \<in> set (ps_tensors (pl_slots p ! i)) \<Longrightarrow>
    pool_step zero (Some i) p (write_tensor t v p)"
| shut: "pool_step zero None p (snd (pool_close synchronize p))"

inductive_cases pool_stepE: "pool_step zero l p p'"

definition pool_start :: "'c buffer_pool \<Rightarrow> bool" where
  "pool_start p \<longleftrightarrow> (\<exists>env place converts synchronize memory c. pool_init env place converts synchronize memory c = Inr p)"

definition pool_moves :: "'c \<Rightarrow> 'c buffer_pool \<Rightarrow> 'c buffer_pool \<Rightarrow> bool" where
  "pool_moves zero p p' \<longleftrightarrow> (\<exists>l. pool_step zero l p p')"

lemma pool_ok_writes_slot:
  assumes ok: "pool_ok p" and i: "i < length (pl_slots p)"
    and same: "ps_tensors s = ps_tensors (pl_slots p ! i)" "ps_index s = ps_index (pl_slots p ! i)"
      "ps_addresses s = ps_addresses (pl_slots p ! i)"
  shows "pool_ok ((fold (\<lambda>t. write_tensor t v) ts p)\<lparr>pl_slots := (pl_slots p)[i := s]\<rparr>)"
  using pool_ok_slot [of "fold (\<lambda>t. write_tensor t v) ts p" i s] assms by simp

lemma pool_close_run:
  "pool_close synchronize p = (r, p') \<Longrightarrow> p' = p \<or> pl_closed p' \<and> (p' = p\<lparr>pl_closed := True\<rparr>
     \<or> p' = p\<lparr>pl_closed := True, pl_slots := [], pl_packed := [], pl_extent := [], pl_masks := [], pl_outputs := []\<rparr>)"
  by (auto simp: pool_close_def Let_def op_then_def op_bind_def op_refuse_def split: if_splits sum.splits)

lemma verifier_take_run:
  assumes "verifier_take i rows p = (r, p')"
  shows "p' = p \<or> (i < length (pl_slots p) \<and> (\<exists>v b bs. ps_verifier (pl_slots p ! i) = Some v
    \<and> take_bucket rows (vs_buckets v) = Some (b, bs) \<and> r = Inr b
    \<and> p' = p\<lparr>pl_slots := (pl_slots p)[i := (pl_slots p ! i)\<lparr>ps_verifier := Some (v\<lparr>vs_buckets := bs\<rparr>)\<rparr>]\<rparr>))"
  using assms by (auto simp: verifier_take_def the_slot_def op_bind_def op_then_def set_slot_def
      split: if_splits option.splits prod.splits)

lemma taken_tensors:
  assumes "ps_verifier s = Some v" and "take_bucket rows (vs_buckets v) = Some (b, bs)"
  shows "ps_tensors (s\<lparr>ps_verifier := Some (v\<lparr>vs_buckets := bs\<rparr>)\<rparr>) = ps_tensors s"
  using assms(1) take_bucket_tensors [OF assms(2)] by (simp add: ps_tensors_def)

text \<open>What a step does to the pool, whatever its label.\<close>

lemma pool_step_shape:
  assumes ok: "pool_ok p" and step: "pool_step zero l p p'"
  shows "p' = p \<or> (l = None \<and> pl_closed p' \<and> (p' = p\<lparr>pl_closed := True\<rparr>
       \<or> p' = p\<lparr>pl_closed := True, pl_slots := [], pl_packed := [], pl_extent := [], pl_masks := [], pl_outputs := []\<rparr>))
    \<or> (\<exists>i s v ts. l = Some i \<and> i < length (pl_slots p) \<and> ps_tensors s = ps_tensors (pl_slots p ! i)
        \<and> ps_index s = ps_index (pl_slots p ! i) \<and> ps_addresses s = ps_addresses (pl_slots p ! i)
        \<and> set ts \<subseteq> set (ps_tensors (pl_slots p ! i))
        \<and> p' = (fold (\<lambda>t. write_tensor t v) ts p)\<lparr>pl_slots := (pl_slots p)[i := s]\<rparr>)"
    (is "_ \<or> _ \<or> ?slot")
  using step
proof cases
  case (acquire owner i)
  then obtain s where s: "first_unlent p = Some s" "i = ps_index s"
      "p' = (fold (\<lambda>t. write_tensor t zero) (ps_zeroed s) p)\<lparr>pl_slots := (pl_slots p)[i := lend owner s]\<rparr>"
    by (auto simp: pool_acquire_cases [OF ok] split: if_splits option.splits)
  have i: "i < length (pl_slots p)" "s = pl_slots p ! i" using s(1,2) first_unlent_Some [OF ok] by auto
  have ?slot by (rule exI [of _ i], rule exI [of _ "lend owner s"], rule exI [of _ zero], rule exI [of _ "ps_zeroed s"])
    (use acquire(1) i s(3) zeroed_owned in auto)
  then show ?thesis by blast
next
  case (refuse owner e)
  then show ?thesis by (auto simp: pool_acquire_cases [OF ok] split: if_splits option.splits)
next
  case (release i)
  show ?thesis
  proof (cases "pl_closed p \<or> length (pl_slots p) \<le> i \<or> \<not> ps_lent (pl_slots p ! i)")
    case False
    then have ?slot by (intro exI [of _ i] exI [of _ "take_back (pl_slots p ! i)"] exI [of _ zero] exI [of _ "[]"])
      (use release in \<open>simp add: pool_release_cases [OF ok]\<close>)
    then show ?thesis by blast
  qed (use release in \<open>simp add: pool_release_cases [OF ok]\<close>)
next
  case (rezero i)
  show ?thesis
  proof (cases "pl_closed p \<or> length (pl_slots p) \<le> i")
    case False
    then have ?slot by (intro exI [of _ i] exI [of _ "pl_slots p ! i"] exI [of _ zero] exI [of _ "ps_zeroed (pl_slots p ! i)"])
      (use rezero zeroed_owned in \<open>simp add: pool_rezero_cases [OF ok]\<close>)
    then show ?thesis by blast
  qed (use rezero in \<open>auto simp: pool_rezero_cases [OF ok]\<close>)
next
  case (take i rows)
  obtain r q where run: "verifier_take i rows p = (r, q)" by fastforce
  then have q: "p' = q" using take by simp
  from verifier_take_run [OF run] show ?thesis
  proof
    assume "i < length (pl_slots p) \<and> (\<exists>v b bs. ps_verifier (pl_slots p ! i) = Some v
      \<and> take_bucket rows (vs_buckets v) = Some (b, bs) \<and> r = Inr b
      \<and> q = p\<lparr>pl_slots := (pl_slots p)[i := (pl_slots p ! i)\<lparr>ps_verifier := Some (v\<lparr>vs_buckets := bs\<rparr>)\<rparr>]\<rparr>)"
    then obtain v b bs where i: "i < length (pl_slots p)" and v: "ps_verifier (pl_slots p ! i) = Some v"
        "take_bucket rows (vs_buckets v) = Some (b, bs)"
      and q': "q = p\<lparr>pl_slots := (pl_slots p)[i := (pl_slots p ! i)\<lparr>ps_verifier := Some (v\<lparr>vs_buckets := bs\<rparr>)\<rparr>]\<rparr>" by blast
    have ?slot
      by (intro exI [of _ i] exI [of _ "(pl_slots p ! i)\<lparr>ps_verifier := Some (v\<lparr>vs_buckets := bs\<rparr>)\<rparr>"] exI [of _ zero] exI [of _ "[]"])
        (use take(1) i q q' taken_tensors [OF v] in simp)
    then show ?thesis by blast
  qed (simp add: q)
next
  case (hold i t v)
  have ?slot by (intro exI [of _ i] exI [of _ "pl_slots p ! i"] exI [of _ v] exI [of _ "[t]"]) (use hold in simp)
  then show ?thesis by blast
next
  case (shut synchronize)
  obtain r q where run: "pool_close synchronize p = (r, q)" by fastforce
  then show ?thesis using pool_close_run [OF run] shut by auto
qed

lemma pool_ok_shut: "pool_ok p \<Longrightarrow> pool_ok (p\<lparr>pl_closed := True\<rparr>)"
  "pool_ok (p\<lparr>pl_closed := True, pl_slots := [], pl_packed := [], pl_extent := [], pl_masks := [], pl_outputs := []\<rparr>)"
  by (simp_all add: pool_ok_def pool_tensors_def sets_tensors_def masks_tensors_def outputs_tensors_def)

lemma pool_step_ok:
  assumes ok: "pool_ok p" and step: "pool_step zero l p p'"
  shows "pool_ok p'"
proof -
  from pool_step_shape [OF ok step] consider "p' = p" | "p' = p\<lparr>pl_closed := True\<rparr>"
    | "p' = p\<lparr>pl_closed := True, pl_slots := [], pl_packed := [], pl_extent := [], pl_masks := [], pl_outputs := []\<rparr>"
    | i s v ts where "i < length (pl_slots p)" "ps_tensors s = ps_tensors (pl_slots p ! i)"
        "ps_index s = ps_index (pl_slots p ! i)" "ps_addresses s = ps_addresses (pl_slots p ! i)"
        "p' = (fold (\<lambda>t. write_tensor t v) ts p)\<lparr>pl_slots := (pl_slots p)[i := s]\<rparr>"
    by blast
  then show ?thesis
    by cases (use ok in \<open>simp_all only: pool_ok_shut pool_ok_writes_slot\<close>)
qed

interpretation pool: invariant_system pool_start "pool_moves zero" pool_ok
  by unfold_locales (auto simp: pool_start_def pool_moves_def pool_init_ok(1) intro: pool_step_ok)

subsection \<open>What a borrower may rely on\<close>

text \<open>Slots keep their number while the pool is open; a slot is changed by the steps about it.\<close>

lemma step_leaves_others:
  assumes ok: "pool_ok p" and step: "pool_step zero l p p'" and l: "l \<noteq> Some j" and open': "\<not> pl_closed p'"
    and j: "j < length (pl_slots p)"
  shows "pl_slots p' ! j = pl_slots p ! j" and "length (pl_slots p') = length (pl_slots p)"
    and "u \<in> set (ps_tensors (pl_slots p ! j)) \<Longrightarrow> read_tensor p' u = read_tensor p u"
proof -
  have shape: "p' = p \<or> (\<exists>i s v ts. i \<noteq> j \<and> i < length (pl_slots p) \<and> set ts \<subseteq> set (ps_tensors (pl_slots p ! i))
      \<and> p' = (fold (\<lambda>t. write_tensor t v) ts p)\<lparr>pl_slots := (pl_slots p)[i := s]\<rparr>)"
    using pool_step_shape [OF ok step] l open' by blast
  have out: "read_tensor (q\<lparr>pl_slots := xs\<rparr>) u = read_tensor q u" for q :: "'a buffer_pool" and xs u
    by (simp add: read_tensor_def)
  show "pl_slots p' ! j = pl_slots p ! j" "length (pl_slots p') = length (pl_slots p)"
    using shape by auto
  show "read_tensor p' u = read_tensor p u" if u: "u \<in> set (ps_tensors (pl_slots p ! j))"
  proof (cases "p' = p")
    case False
    then obtain i s v ts where i: "i \<noteq> j" "i < length (pl_slots p)" "set ts \<subseteq> set (ps_tensors (pl_slots p ! i))"
      and p': "p' = (fold (\<lambda>t. write_tensor t v) ts p)\<lparr>pl_slots := (pl_slots p)[i := s]\<rparr>" using shape by blast
    have "\<forall>t \<in> set ts. \<not> overlaps (pl_place p t) (pl_place p u)"
      using slots_apart [OF ok i(2) j i(1)] i(3) u by blast
    then show ?thesis by (simp add: p' out read_writes_other)
  qed simp
qed

text \<open>C20: A slot of the buffer pool belongs to whoever holds it. In every reachable state of the pool, a step about
  another slot (a loan, a return, a re-zeroing, a bucket taken, or another holder writing any tensor it was lent)
  leaves the slot's record and the contents of every tensor of it, on both chips, as they were.\<close>

theorem loans_are_isolated:
  assumes "reachable pool_start (pool_moves zero) p" and "pool_step zero l p p'" and "l \<noteq> Some j"
    and "\<not> pl_closed p'" and "j < length (pl_slots p)"
  shows "pl_slots p' ! j = pl_slots p ! j
    \<and> list_all (\<lambda>u. read_tensor p' u = read_tensor p u) (ps_tensors (pl_slots p ! j))"
proof -
  have "pool_ok p" by (rule pool.inv_reachable [OF assms(1)])
  note * = step_leaves_others [OF this assms(2-5)]
  show ?thesis using *(1,3) by (simp add: list_all_iff)
qed

text \<open>C21: A loan is of the lowest free slot, zeroed on both chips, with its owner recorded and every verifier bucket
  free; it is refused exactly when the pool is closed or every slot is lent, and then nothing changes.\<close>

theorem acquired_slot_is_lowest_and_clean:
  assumes "reachable pool_start (pool_moves zero) p"
  shows "case pool_acquire zero owner p of
      (Inl e, p') \<Rightarrow> e = ValueError \<and> p' = p \<and> (pl_closed p \<or> list_all ps_lent (pl_slots p))
    | (Inr i, p') \<Rightarrow> \<not> pl_closed p \<and> i < length (pl_slots p) \<and> \<not> ps_lent (pl_slots p ! i)
        \<and> list_all ps_lent (take i (pl_slots p))
        \<and> ps_lent (pl_slots p' ! i) \<and> ps_owner (pl_slots p' ! i) = Some owner
        \<and> list_all (\<lambda>t. read_tensor p' t = (zero, zero)) (ps_zeroed (pl_slots p' ! i))
        \<and> (case ps_verifier (pl_slots p' ! i) of None \<Rightarrow> True
           | Some v \<Rightarrow> list_all (\<lambda>b. \<not> bu_taken b) (vs_buckets v))"
proof -
  have ok: "pool_ok p" by (rule pool.inv_reachable [OF assms])
  show ?thesis
  proof (cases "pl_closed p")
    case True
    then show ?thesis by (simp add: pool_acquire_cases [OF ok])
  next
    case False
    show ?thesis
    proof (cases "first_unlent p")
      case None
      then have "list_all ps_lent (pl_slots p)" by (simp add: first_unlent_None list_all_length)
      then show ?thesis using False None by (simp add: pool_acquire_cases [OF ok])
    next
      case (Some s)
      then have s: "ps_index s < length (pl_slots p)" "s = pl_slots p ! ps_index s" "\<not> ps_lent s"
          "\<forall>j < ps_index s. ps_lent (pl_slots p ! j)" using first_unlent_Some [OF ok] by auto
      have before: "list_all ps_lent (take (ps_index s) (pl_slots p))" using s(4) by (simp add: list_all_length)
      have clean: "read_tensor (q\<lparr>pl_slots := xs\<rparr>) u = read_tensor q u" for q :: "'a buffer_pool" and xs u
        by (simp add: read_tensor_def)
      have free: "case ps_verifier (lend owner s) of None \<Rightarrow> True | Some v \<Rightarrow> list_all (\<lambda>b. \<not> bu_taken b) (vs_buckets v)"
        by (simp add: lend_def verifier_reset_def list_all_iff split: option.splits)
      show ?thesis
        using False Some s before free by (simp add: pool_acquire_cases [OF ok] clean list_all_iff read_zeroed) (simp add: lend_def)
    qed
  qed
qed

subsection \<open>A pool of two slots\<close>

definition demo_config :: pool_config where
  "demo_config = \<lparr>pc_users = 2, pc_helpers = None, pc_page_width = None, pc_bucket_rows = [], pc_feature_taps = 0,
     pc_rope = None, pc_mtp_hidden = False, pc_group_rows = 4, pc_capacities = None, pc_packed_shapes = None,
     pc_replicas = [], pc_packed_group_rows = None, pc_extent = False, pc_admission = Inr (),
     pc_draft_masks = [([0, 1], [1, 1, 32, 2048])], pc_draft_outputs = []\<rparr>"

definition demo_pool :: "int buffer_pool" where
  "demo_pool = projr (pool_init plain_env (\<lambda>n. Inr (int n, 100 + int n)) (\<lambda>_ _. True) (Inr ()) (\<lambda>_ _. 7) demo_config)"

definition demo_lent :: "int buffer_pool" where
  "demo_lent = snd (pool_acquire 0 ''b'' (snd (pool_acquire 0 ''a'' demo_pool)))"

lemma demo_built: "returned (pool_init plain_env (\<lambda>n. Inr (int n, 100 + int n)) (\<lambda>_ _. True) (Inr ()) (\<lambda>_ _. 7 :: int) demo_config)"
  by code_simp

lemma demo_pool_init:
  "pool_init plain_env (\<lambda>n. Inr (int n, 100 + int n)) (\<lambda>_ _. True) (Inr ()) (\<lambda>_ _. 7) demo_config = Inr demo_pool"
  using returned_projr [OF demo_built] by (simp add: demo_pool_def)

lemma demo_pool_start: "reachable pool_start (pool_moves zero) demo_pool"
  by (rule reachable.initial, unfold pool_start_def, intro exI) (rule demo_pool_init)

lemma pool_acquire_moves: "reachable pool_start (pool_moves zero) p \<Longrightarrow>
    reachable pool_start (pool_moves zero) (snd (pool_acquire zero owner p))"
proof (rule reachable.step [of _ _ p])
  obtain r q where "pool_acquire zero owner p = (r, q)" by fastforce
  then show "pool_moves zero p (snd (pool_acquire zero owner p))" unfolding pool_moves_def
    by (cases r) (auto intro: pool_step.acquire [of zero owner p _ q] pool_step.refuse [of zero owner p _ q])
qed

lemma demo_lent_reached: "reachable pool_start (pool_moves 0) demo_lent"
  unfolding demo_lent_def by (intro pool_acquire_moves demo_pool_start)

lemma acquire_at:
  assumes "pool_ok p" and "\<not> pl_closed p" and "k < length (pl_slots p)" and "\<not> ps_lent (pl_slots p ! k)"
    and "\<forall>j < k. ps_lent (pl_slots p ! j)"
  shows "pool_acquire zero owner p = (Inr k, (fold (\<lambda>t. write_tensor t zero) (ps_zeroed (pl_slots p ! k)) p)
           \<lparr>pl_slots := (pl_slots p)[k := lend owner (pl_slots p ! k)]\<rparr>)"
proof -
  have k: "ps_index (pl_slots p ! k) = k" using assms(1,3) by (simp add: pool_ok_def)
  then have "first_unlent p = Some (pl_slots p ! k)" using first_unlent_Some [OF assms(1)] assms(3-5) by simp
  then show ?thesis using k assms(2) by (simp add: pool_acquire_cases [OF assms(1)])
qed

lemma demo_pool_facts: "pool_ok demo_pool" "\<not> pl_closed demo_pool" "length (pl_slots demo_pool) = 2"
    "k < 2 \<Longrightarrow> \<not> ps_lent (pl_slots demo_pool ! k)"
  using pool_init_ok [OF demo_pool_init] by (auto simp: demo_config_def)

lemma demo_first: "pool_acquire 0 ''a'' demo_pool = (Inr 0, (fold (\<lambda>t. write_tensor t 0) (ps_zeroed (pl_slots demo_pool ! 0)) demo_pool)
    \<lparr>pl_slots := (pl_slots demo_pool)[0 := lend ''a'' (pl_slots demo_pool ! 0)]\<rparr>)"
  by (rule acquire_at) (use demo_pool_facts in simp_all)

lemma demo_lent_facts: "\<not> pl_closed demo_lent" "length (pl_slots demo_lent) = 2" "ps_lent (pl_slots demo_lent ! 1)"
proof -
  define p where "p = snd (pool_acquire 0 ''a'' demo_pool)"
  have ok: "pool_ok p" unfolding p_def by (rule pool.inv_reachable [OF pool_acquire_moves [OF demo_pool_start]])
  have p: "\<not> pl_closed p" "length (pl_slots p) = 2" "\<not> ps_lent (pl_slots p ! 1)" "ps_lent (pl_slots p ! 0)"
    using demo_pool_facts by (simp_all add: demo_first p_def)
  have "pool_acquire 0 ''b'' p = (Inr 1, (fold (\<lambda>t. write_tensor t 0) (ps_zeroed (pl_slots p ! 1)) p)
      \<lparr>pl_slots := (pl_slots p)[1 := lend ''b'' (pl_slots p ! 1)]\<rparr>)"
    by (rule acquire_at [OF ok]) (use p in \<open>simp_all add: less_Suc_eq\<close>)
  then have eq: "demo_lent = (fold (\<lambda>t. write_tensor t 0) (ps_zeroed (pl_slots p ! 1)) p)
      \<lparr>pl_slots := (pl_slots p)[1 := lend ''b'' (pl_slots p ! 1)]\<rparr>" by (simp add: demo_lent_def p_def)
  show "\<not> pl_closed demo_lent" "length (pl_slots demo_lent) = 2" "ps_lent (pl_slots demo_lent ! 1)"
    unfolding eq using p by simp_all
qed

theorem loans_are_isolated_witness:
  "pl_slots (write_tensor (ps_history (pl_slots demo_lent ! 1)) (9 :: int) demo_lent) ! 0 = pl_slots demo_lent ! 0
    \<and> list_all (\<lambda>u. read_tensor (write_tensor (ps_history (pl_slots demo_lent ! 1)) 9 demo_lent) u = read_tensor demo_lent u)
        (ps_tensors (pl_slots demo_lent ! 0))"
proof (rule loans_are_isolated [OF demo_lent_reached, of "Some 1"])
  show "pool_step 0 (Some 1) demo_lent (write_tensor (ps_history (pl_slots demo_lent ! 1)) 9 demo_lent)"
    by (rule pool_step.hold) (use demo_lent_facts in \<open>simp_all add: ps_tensors_def\<close>)
qed (use demo_lent_facts in simp_all)

theorem acquired_slot_is_lowest_and_clean_witness:
  "case pool_acquire 0 ''a'' demo_pool of (Inl e, p') \<Rightarrow> False
    | (Inr i, p') \<Rightarrow> i = 0 \<and> ps_owner (pl_slots p' ! i) = Some ''a''
        \<and> list_all (\<lambda>t. read_tensor p' t = (0, 0)) (ps_zeroed (pl_slots p' ! i))"
proof -
  note t = acquired_slot_is_lowest_and_clean [OF demo_pool_start, where zero = 0 and owner = "''a''", unfolded demo_first prod.case sum.case]
  show ?thesis unfolding demo_first prod.case sum.case using t by blast
qed

end
