(* ===== verification/DraftDevice.thy ===== *)
theory DraftDevice
  imports PoolBuild PrefillCapture RequestFactory
begin

text \<open>
  The drafter of one request, \<open>DFlashDevice\<close> of \<open>scripts/ci/dflash_device.py\<close>: what its constructor seeds over a
  slot of the pool, what its close gives back, and the windowed projection, the park and the rebind of a drafter
  that is kept for its slot's next request (\<open>scripts/ci/serving_parked_engines.py\<close>). Serving defers the capture of the
  proposal from the constructor to \<open>prepare_proposal\<close>, which the engine calls before its own captures.

  The projection of one 32-row chunk, the cache rows of a layer and the tensors' contents are the device's; every
  device operation may raise. The options of the model, the sets of checked mask addresses, the audit's reporters, names
  and log lines are left out.
\<close>

text \<open>\<open>ds_chunk\<close> projects 32 rows of the five taps, \<open>ds_history\<close> is a tensor holding the rows it is given, and
  \<open>ds_bank\<close> the cache of a layer's keys (0) or values (1) from history rows, their first position and the query.\<close>

record ('f, 'r, 'c) draft_side =
  ds_chunk :: "'f list \<Rightarrow> 'r list"
  ds_blank :: 'f
  ds_zero_row :: 'r
  ds_history :: "'r list \<Rightarrow> 'c"
  ds_bank :: "nat \<Rightarrow> nat \<Rightarrow> 'r list \<Rightarrow> int \<Rightarrow> 'c \<times> 'c \<Rightarrow> 'c"
  ds_zero :: 'c
  ds_fence :: "unit result"
  ds_project :: "unit result"
  ds_copy :: "unit result"
  ds_lend_weights :: "unit result"
  ds_capture :: "unit result"
  ds_discard :: "unit result"
  ds_close_capture :: "unit result"
  ds_close_kv :: "unit result"
  ds_release_weights :: "unit result"
  ds_free :: "unit result"

text \<open>The cache's host state; \<open>kv_id\<close> tells one cache from the next. A capture reads one cache, in its buckets.\<close>

record draft_kv =
  kv_id :: nat
  kv_position :: int
  kv_rows :: int
  kv_pending :: bool
  kv_projection :: bool
  kv_closed :: bool

record draft_capture =
  cap_kv :: nat
  cap_buckets :: "int list"
  cap_pending :: bool

text \<open>\<open>proposal_capture\<close>: none, the device's own, or a pair's view over what is left of its own.\<close>

datatype proposal_capture = No_Capture | Own draft_capture | View "draft_capture option"

record draft_device =
  dd_closed :: bool
  dd_slot :: "nat option"
  dd_weights :: bool
  dd_position :: int
  dd_rows :: int
  dd_cache_history :: bool
  dd_kv :: "draft_kv option"
  dd_pending :: bool
  dd_capture :: proposal_capture
  dd_released :: bool
  dd_generation :: nat
  dd_calls :: nat
  dd_published :: nat
  dd_digest :: "int option"
  dd_checks :: "int list"
  dd_stale :: bool

definition single_capture :: "draft_device \<Rightarrow> draft_capture option" where
  "single_capture d = (case dd_capture d of No_Capture \<Rightarrow> None | Own c \<Rightarrow> Some c | View c \<Rightarrow> c)"

subsection \<open>The projection\<close>

definition project_chunk :: "('f, 'r, 'c) draft_side \<Rightarrow> 'f list \<Rightarrow> int \<Rightarrow> int \<Rightarrow> 'r list" where
  "project_chunk ds taps start rows =
     take (nat rows) (ds_chunk ds (slice (nat start) (nat (start + rows)) taps @ replicate (nat (32 - rows)) (ds_blank ds)))"

definition project_features :: "('f, 'r, 'c) draft_side \<Rightarrow> 'f list \<Rightarrow> int \<Rightarrow> int \<Rightarrow> 'r list result" where
  "project_features ds taps amount offset =
     (if amount < 1 \<or> offset < 0 \<or> int (length taps) < offset + amount then Inl ValueError
      else rbind (ds_project ds) (\<lambda>_.
        Inr (concat (map (\<lambda>start. project_chunk ds taps (offset + start) (min 32 (amount - start))) (py_range 0 amount 32)))))"

definition PROJECTION_CHUNK_ROWS :: int where "PROJECTION_CHUNK_ROWS = 32"
definition HISTORY_ROWS :: int where "HISTORY_ROWS = 2048"

definition project_window :: "('f, 'r, 'c) draft_side \<Rightarrow> 'f list \<Rightarrow> int \<Rightarrow> int \<Rightarrow> int \<Rightarrow> 'r list result" where
  "project_window ds taps base amount window =
     (if window < 0 \<or> window mod PROJECTION_CHUNK_ROWS \<noteq> 0 \<or> window > HISTORY_ROWS then Inl ValueError
      else if window = 0 \<or> window \<ge> amount then project_features ds taps amount base
      else rbind (those_results (map (\<lambda>start. project_features ds taps (min window (amount - start)) (base + start))
                    (py_range 0 amount window))) (\<lambda>parts. Inr (concat parts)))"

subsection \<open>The history and its cache\<close>

record 'c bench =
  bn_pool :: "'c buffer_pool"
  bn_device :: draft_device

type_synonym ('c, 'a) bench_op = "('c bench, 'a) op"

definition on_device :: "(draft_device \<Rightarrow> draft_device) \<Rightarrow> ('c, unit) bench_op" where
  "on_device f = op_update (\<lambda>b. b\<lparr>bn_device := f (bn_device b)\<rparr>)"

definition in_pool :: "('c, 'a) pool_op \<Rightarrow> ('c, 'a) bench_op" where
  "in_pool m b = (case m (bn_pool b) of (r, p) \<Rightarrow> (r, b\<lparr>bn_pool := p\<rparr>))"

text \<open>The rows, padded to the history's length, into the slot's history tensor.\<close>

definition write_history :: "('f, 'r, 'c) draft_side \<Rightarrow> nat \<Rightarrow> 'r list \<Rightarrow> 'c buffer_pool \<Rightarrow> 'c buffer_pool" where
  "write_history ds i rows p =
     write_tensor (ps_history (pl_slots p ! i))
       (ds_history ds (rows @ replicate (nat (HISTORY_ROWS - int (length rows))) (ds_zero_row ds))) p"

definition query_content :: "('f, 'r, 'c) draft_side \<Rightarrow> nat \<Rightarrow> 'c buffer_pool \<Rightarrow> 'c \<times> 'c" where
  "query_content ds i p = (case ps_query (pl_slots p ! i) of
     None \<Rightarrow> (ds_zero ds, ds_zero ds) | Some q \<Rightarrow> read_tensor p q)"

text \<open>The active banks of every layer, keys then values; a slot lists active k, active v, spare k, spare v by layer.\<close>

definition seed_banks :: "('f, 'r, 'c) draft_side \<Rightarrow> nat \<Rightarrow> 'r list \<Rightarrow> int \<Rightarrow> 'c buffer_pool \<Rightarrow> 'c buffer_pool" where
  "seed_banks ds i rows start p =
     fold (\<lambda>(layer, head) p. write_tensor (ps_kv (pl_slots p ! i) ! (4 * layer + head))
             (ds_bank ds layer head rows start (query_content ds i p)) p)
       (List.product [0..<DRAFT_LAYERS] [0, 1]) p"

text \<open>\<open>DraftKVHistory.__init__\<close> over a slot's banks.\<close>

definition kv_new :: "('f, 'r, 'c) draft_side \<Rightarrow> nat \<Rightarrow> nat \<Rightarrow> 'r list \<Rightarrow> int \<Rightarrow> int \<Rightarrow> ('c, draft_kv) pool_op" where
  "kv_new ds ident i rows position history_rows =
     op_then (op_refuse (\<lambda>_. \<not> (1 \<le> position \<and> position \<le> 262112) \<or> history_rows \<noteq> min position 2048) ValueError)
     (op_then (op_update (seed_banks ds i rows (position - history_rows)))
     (op_then (op_read (\<lambda>_. ds_fence ds))
      (op_return \<lparr>kv_id = ident, kv_position = position, kv_rows = history_rows, kv_pending = False,
         kv_projection = False, kv_closed = False\<rparr>)))"

subsection \<open>Close\<close>

definition discard_publication :: "('c, unit) bench_op" where
  "discard_publication b =
     (let d = bn_device b
      in case dd_kv d of
           None \<Rightarrow> (Inr (), b\<lparr>bn_device := d\<lparr>dd_pending := False\<rparr>\<rparr>)
         | Some kv \<Rightarrow> if kv_closed kv \<or> \<not> kv_pending kv then (Inl ValueError, b)
             else (Inr (), b\<lparr>bn_device := d\<lparr>dd_pending := False, dd_kv := Some (kv\<lparr>kv_pending := False\<rparr>)\<rparr>\<rparr>))"

definition close_kv :: "('f, 'r, 'c) draft_side \<Rightarrow> ('c, unit) bench_op" where
  "close_kv ds b =
     (case dd_kv (bn_device b) of
        None \<Rightarrow> (Inr (), b)
      | Some kv \<Rightarrow> if kv_closed kv then (Inr (), b)
          else op_then (on_device (\<lambda>d. d\<lparr>dd_kv := Some (kv\<lparr>kv_pending := False\<rparr>)\<rparr>))
              (op_then (op_read (\<lambda>_. ds_close_kv ds))
               (on_device (\<lambda>d. d\<lparr>dd_kv := Some (kv\<lparr>kv_pending := False, kv_closed := True\<rparr>)\<rparr>))) b)"

definition return_slot :: "('c, unit) bench_op" where
  "return_slot b =
     (case dd_slot (bn_device b) of
        None \<Rightarrow> (Inr (), b)
      | Some i \<Rightarrow> op_then (in_pool (pool_release i)) (on_device (\<lambda>d. d\<lparr>dd_slot := None\<rparr>)) b)"

definition return_weights :: "('f, 'r, 'c) draft_side \<Rightarrow> ('c, unit) bench_op" where
  "return_weights ds b =
     (if dd_weights (bn_device b)
      then op_then (op_read (\<lambda>_. ds_release_weights ds)) (on_device (\<lambda>d. d\<lparr>dd_weights := False\<rparr>)) b
      else (Inr (), b))"

definition device_close :: "('f, 'r, 'c) draft_side \<Rightarrow> ('c, unit) bench_op" where
  "device_close ds b =
     (if dd_closed (bn_device b) then (Inr (), b)
      else op_then (op_read (\<lambda>_. ds_fence ds))
          (op_then (op_read (\<lambda>b. if single_capture (bn_device b) = None then Inr () else ds_close_capture ds))
          (op_then (\<lambda>b. if dd_pending (bn_device b) then discard_publication b else (Inr (), b))
          (op_then (close_kv ds)
          (op_then return_slot
          (op_then (return_weights ds)
          (op_then (op_read (\<lambda>_. ds_free ds))
           (on_device (\<lambda>d. d\<lparr>dd_closed := True\<rparr>)))))))) b)"

subsection \<open>The constructor\<close>

record draft_options =
  do_target :: bool
  do_feature_start :: int
  do_block_rows :: int
  do_proposal_capture :: bool
  do_max_new :: int
  do_defer :: bool
  do_cache_history :: bool
  do_projection_capture :: bool
  do_live_qk :: bool
  do_native :: bool

definition draft_checks :: "draft_options \<Rightarrow> window \<Rightarrow> 'f list \<Rightarrow> unit result" where
  "draft_checks opt w taps =
     (if \<not> do_target opt \<or> do_feature_start opt \<noteq> wi_start w \<or> int (length taps) \<noteq> wi_rows w
         \<or> do_block_rows opt \<notin> {8, 16, 32} \<or> (do_defer opt \<and> \<not> do_proposal_capture opt)
         \<or> (do_cache_history opt \<and> (\<not> do_proposal_capture opt \<or> do_block_rows opt \<notin> {8, 16}))
         \<or> (do_projection_capture opt \<and> \<not> do_cache_history opt)
         \<or> (do_live_qk opt \<and> (\<not> do_proposal_capture opt \<or> do_block_rows opt \<noteq> 8))
         \<or> (do_native opt \<and> (\<not> do_proposal_capture opt \<or> \<not> do_cache_history opt \<or> do_block_rows opt \<notin> {8, 16}
              \<or> do_live_qk opt \<or> do_projection_capture opt))
      then Inl ValueError else Inr ())"

definition new_device :: "draft_options \<Rightarrow> int \<Rightarrow> int \<Rightarrow> draft_device" where
  "new_device opt position rows =
     \<lparr>dd_closed = False, dd_slot = None, dd_weights = False, dd_position = position, dd_rows = rows,
      dd_cache_history = do_cache_history opt, dd_kv = None, dd_pending = False, dd_capture = No_Capture, dd_released = False,
      dd_generation = 0, dd_calls = 0, dd_published = 0, dd_digest = None, dd_checks = [], dd_stale = False\<rparr>"

text \<open>A capture of the single-user proposal over the device's cache: a bucket for every context of the ladder, or under
  \<open>single_proposal_bucket\<close> the one of 2048 rows.\<close>

definition capture_proposal :: "('f, 'r, 'c) draft_side \<Rightarrow> bool \<Rightarrow> int \<Rightarrow> ('c, unit) bench_op" where
  "capture_proposal ds single max_new =
     op_bind (op_read (\<lambda>b. proposal_ladder single (dd_position (bn_device b)) max_new)) (\<lambda>buckets.
     op_then (op_read (\<lambda>_. ds_capture ds))
      (on_device (\<lambda>d. d\<lparr>dd_capture := Own \<lparr>cap_kv = (case dd_kv d of None \<Rightarrow> 0 | Some kv \<Rightarrow> kv_id kv),
         cap_buckets = buckets, cap_pending = False\<rparr>\<rparr>)))"

definition install_cache :: "('f, 'r, 'c) draft_side \<Rightarrow> nat \<Rightarrow> nat \<Rightarrow> 'r list \<Rightarrow> int \<Rightarrow> int \<Rightarrow> ('c, unit) bench_op" where
  "install_cache ds ident i rows position history_rows =
     op_bind (in_pool (kv_new ds ident i rows position history_rows)) (\<lambda>kv. on_device (\<lambda>d. d\<lparr>dd_kv := Some kv\<rparr>))"

definition seed_device :: "('f, 'r, 'c) draft_side \<Rightarrow> draft_options \<Rightarrow> 'f list \<Rightarrow> string \<Rightarrow> int \<Rightarrow> int \<Rightarrow> ('c, unit) bench_op" where
  "seed_device ds opt taps owner position rows =
     op_bind (in_pool (pool_acquire (ds_zero ds) owner)) (\<lambda>i.
     op_then (on_device (\<lambda>d. d\<lparr>dd_slot := Some i\<rparr>))
     (op_then (op_read (\<lambda>_. ds_lend_weights ds))
     (op_then (on_device (\<lambda>d. d\<lparr>dd_weights := True\<rparr>))
     (op_bind (op_read (\<lambda>_. project_features ds taps rows 0)) (\<lambda>projected.
      op_then (op_read (\<lambda>_. ds_copy ds))
     (op_then (in_pool (op_update (write_history ds i projected)))
     (op_then (op_read (\<lambda>_. ds_fence ds))
     (op_then (if do_cache_history opt then install_cache ds 0 i projected position rows else op_return ())
      (if do_proposal_capture opt \<and> \<not> do_defer opt then capture_proposal ds False (do_max_new opt) else op_return ())))))))))"

text \<open>A failed constructor closes what it made; when that fails too, its exception is the one that leaves.\<close>

definition close_and_raise :: "('st, unit) op \<Rightarrow> ('st, 'a) op \<Rightarrow> ('st, 'a) op" where
  "close_and_raise cleanup m s =
     (case m s of
        (Inr x, s') \<Rightarrow> (Inr x, s')
      | (Inl e, s') \<Rightarrow> (case cleanup s' of (Inl e', s'') \<Rightarrow> (Inl e', s'') | (Inr _, s'') \<Rightarrow> (Inl e, s'')))"

definition device_build ::
  "('f, 'r, 'c) draft_side \<Rightarrow> int \<Rightarrow> draft_options \<Rightarrow> 'f list \<Rightarrow> string \<Rightarrow> int \<Rightarrow> ('c, draft_device) pool_op" where
  "device_build ds maximum opt taps owner position p =
     (case rbind (prefill_window maximum position) (\<lambda>w. rbind (draft_checks opt w taps) (\<lambda>_. Inr w)) of
        Inl e \<Rightarrow> (Inl e, p)
      | Inr w \<Rightarrow>
          (case close_and_raise (device_close ds) (seed_device ds opt taps owner position (wi_rows w))
                  \<lparr>bn_pool = p, bn_device = new_device opt position (wi_rows w)\<rparr> of
             (Inl e, b) \<Rightarrow> (Inl e, bn_pool b)
           | (Inr _, b) \<Rightarrow> (Inr (bn_device b), bn_pool b)))"

text \<open>A request's drafter: the device, then its proposal's capture. When that raises, the request's scope closes the
  device. \<open>eager\<close> is \<open>QWEN_FAST_EAGER_PROPOSAL\<close>, which leaves the capture out.\<close>

definition prepare_proposal :: "('f, 'r, 'c) draft_side \<Rightarrow> bool \<Rightarrow> bool \<Rightarrow> int \<Rightarrow> ('c, unit) bench_op" where
  "prepare_proposal ds eager single budget =
     op_then (op_refuse (\<lambda>b. dd_capture (bn_device b) \<noteq> No_Capture) ValueError)
      (if eager then op_return () else capture_proposal ds single budget)"

definition drafter_build ::
  "('f, 'r, 'c) draft_side \<Rightarrow> int \<Rightarrow> draft_options \<Rightarrow> bool \<Rightarrow> bool \<Rightarrow> int \<Rightarrow> 'f list \<Rightarrow> string \<Rightarrow> int \<Rightarrow> ('c, draft_device) pool_op"
where
  "drafter_build ds maximum opt eager single budget taps owner position p =
     (case device_build ds maximum opt taps owner position p of
        (Inl e, q) \<Rightarrow> (Inl e, q)
      | (Inr d, q) \<Rightarrow>
          (case close_and_raise (device_close ds) (prepare_proposal ds eager single budget) \<lparr>bn_pool = q, bn_device = d\<rparr> of
             (Inl e, b) \<Rightarrow> (Inl e, bn_pool b)
           | (Inr _, b) \<Rightarrow> (Inr (bn_device b), bn_pool b)))"

subsection \<open>Park and rebind\<close>

datatype park_reason =
    Unfit | Injected_Fault | Engine_Unfit | Device_Closed | Publication_Pending | No_Cache | Cache_Pending | Slot_Moved
  | Rebind_Failed

text \<open>\<open>discard_pending\<close> of the device's own capture.\<close>

definition drop_proposal :: "('f, 'r, 'c) draft_side \<Rightarrow> ('c, unit) bench_op" where
  "drop_proposal ds b =
     (case single_capture (bn_device b) of
        None \<Rightarrow> (Inr (), b)
      | Some c \<Rightarrow> op_then (on_device (\<lambda>d. d\<lparr>dd_capture :=
            (case dd_capture d of View _ \<Rightarrow> View (Some (c\<lparr>cap_pending := False\<rparr>)) | _ \<Rightarrow> Own (c\<lparr>cap_pending := False\<rparr>))\<rparr>))
          (op_read (\<lambda>_. if cap_pending c then ds_discard ds else Inr ())) b)"

definition park_refusal :: "'c bench \<Rightarrow> park_reason option" where
  "park_refusal b =
     (let d = bn_device b
      in if dd_closed d then Some Device_Closed
         else if dd_pending d then Some Publication_Pending
         else case (dd_kv d, dd_slot d) of
             (Some kv, Some i) \<Rightarrow>
               if kv_pending kv then Some Cache_Pending
               else (case slot_verify (pl_slots (bn_pool b) ! i) (bn_pool b) of
                       (Inl _, _) \<Rightarrow> Some Slot_Moved | (Inr _, _) \<Rightarrow> None)
           | _ \<Rightarrow> Some No_Cache)"

definition park_device :: "('f, 'r, 'c) draft_side \<Rightarrow> ('c, park_reason option) bench_op" where
  "park_device ds =
     op_then (op_read (\<lambda>_. ds_fence ds)) (op_then (drop_proposal ds) (op_read (\<lambda>b. Inr (park_refusal b))))"

text \<open>What a rebind requires before it writes anything.\<close>

definition rebind_guards :: "('c, nat) bench_op" where
  "rebind_guards = op_read (\<lambda>b. let d = bn_device b
     in case (dd_slot d, dd_kv d) of
          (Some i, Some kv) \<Rightarrow>
            if dd_closed d \<or> \<not> dd_cache_history d then Inl ValueError
            else if kv_projection kv then Inl ValueError else Inr i
        | _ \<Rightarrow> Inl ValueError)"

definition rebind_idle :: "('f, 'r, 'c) draft_side \<Rightarrow> ('c, unit) bench_op" where
  "rebind_idle ds =
     op_then (\<lambda>b. if single_capture (bn_device b) \<noteq> None then drop_proposal ds b
                  else op_refuse (\<lambda>b. \<not> dd_released (bn_device b)) ValueError b)
      (op_refuse (\<lambda>b. dd_pending (bn_device b)
          \<or> (case dd_kv (bn_device b) of None \<Rightarrow> False | Some kv \<Rightarrow> kv_pending kv)) ValueError)"

text \<open>The host state of a fresh device, and the capture over the new cache, rebuilt with the single bucket when it was
  released (\<open>build_single_capture\<close>).\<close>

definition reset_device :: "int \<Rightarrow> int \<Rightarrow> draft_device \<Rightarrow> draft_device" where
  "reset_device position rows d = d\<lparr>dd_position := position, dd_rows := rows, dd_pending := False, dd_calls := 0,
     dd_published := 0, dd_digest := None, dd_checks := [], dd_stale := False, dd_generation := Suc (dd_generation d)\<rparr>"

definition rebind_capture :: "('f, 'r, 'c) draft_side \<Rightarrow> ('c, bool) bench_op" where
  "rebind_capture ds b =
     (case single_capture (bn_device b) of
        Some c \<Rightarrow> op_then (on_device (\<lambda>d. d\<lparr>dd_capture :=
            Own (c\<lparr>cap_kv := (case dd_kv d of None \<Rightarrow> 0 | Some kv \<Rightarrow> kv_id kv)\<rparr>)\<rparr>)) (op_return False) b
      | None \<Rightarrow> op_then (on_device (\<lambda>d. d\<lparr>dd_capture := No_Capture\<rparr>))
          (op_then (capture_proposal ds True 1) (op_then (on_device (\<lambda>d. d\<lparr>dd_released := False\<rparr>)) (op_return True))) b)"

definition rebind_device ::
  "('f, 'r, 'c) draft_side \<Rightarrow> int \<Rightarrow> 'f list \<Rightarrow> int \<Rightarrow> int \<Rightarrow> int \<Rightarrow> ('c, bool) bench_op" where
  "rebind_device ds maximum taps base position window =
     op_bind rebind_guards (\<lambda>i.
     op_bind (op_read (\<lambda>_. prefill_window maximum position)) (\<lambda>w.
     op_then (op_read (\<lambda>_. ds_fence ds))
     (op_then (rebind_idle ds)
     (op_then (in_pool (pool_rezero (ds_zero ds) i))
     (op_bind (op_read (\<lambda>_. project_window ds taps base (wi_rows w) window)) (\<lambda>projected.
      op_then (op_read (\<lambda>_. ds_copy ds))
     (op_then (in_pool (op_update (write_history ds i projected)))
     (op_then (op_read (\<lambda>_. ds_fence ds))
     (op_bind (op_read (\<lambda>b. Inr (Suc (dd_generation (bn_device b))))) (\<lambda>ident.
      op_then (install_cache ds ident i projected position (wi_rows w))
     (op_then (on_device (reset_device position (wi_rows w)))
      (rebind_capture ds))))))))))))"

end
