(* ===== verification/RebindExact.thy ===== *)
theory RebindExact
  imports DraftDevice PoolProps
begin

text \<open>
  A parked drafter rebound to a request is the drafter a fresh build would make for it: the windowed projection is the
  whole one, the same values are written to the same places of its slot, whatever the last request left there, and the
  capture reads the new cache in the same bucket.
\<close>

subsection \<open>The windowed projection\<close>

lemma upt_blocks: "concat (map (\<lambda>j. [j * k..<min (Suc j * k) n]) [0..<m]) = [0..<min (m * k) n]"
proof (induction m)
  case (Suc m)
  have "[0..<min (m * k) n] @ [m * k..<min (Suc m * k) n] = [0..<min (Suc m * k) n]"
  proof (cases "m * k \<le> n")
    case True
    have "m * k \<le> min (Suc m * k) n" using True by simp
    then have "[0..<m * k] @ [m * k..<min (Suc m * k) n] = [0..<min (Suc m * k) n]"
      by (metis le_add_diff_inverse upt_add_eq_append zero_le)
    then show ?thesis using True by (simp add: min_absorb1)
  qed (simp add: min_def)
  then show ?case using Suc by simp
qed simp

definition chunks_of :: "int \<Rightarrow> int \<Rightarrow> nat" where
  "chunks_of n step = nat ((n + step - 1) div step)"

lemma py_range_chunks: "py_range 0 n step = map (\<lambda>i. int i * step) [0..<chunks_of n step]"
  by (simp add: py_range_def chunks_of_def)

lemma chunks_of_min: "0 < s \<Longrightarrow> chunks_of (min a b) s = min (chunks_of a s) (chunks_of b s)"
proof -
  assume s: "0 < s"
  have mono: "x \<le> y \<Longrightarrow> chunks_of x s \<le> chunks_of y s" for x y
    using s by (auto simp: chunks_of_def intro!: nat_mono zdiv_mono1)
  show ?thesis using mono [of a b] mono [of b a] by (cases "a \<le> b") (simp_all add: min_def antisym)
qed

lemma chunks_of_shift: "chunks_of (n - 32 * int m) 32 = chunks_of n 32 - m"
proof -
  have "(n - 32 * int m + 32 - 1) div 32 = (n + 32 - 1) div 32 - int m" by linarith
  then have "chunks_of (n - 32 * int m) 32 = nat ((n + 32 - 1) div 32 - int m)" by (simp only: chunks_of_def)
  also have "\<dots> = chunks_of n 32 - m" unfolding chunks_of_def by linarith
  finally show ?thesis .
qed

lemma chunks_of_whole: "chunks_of (32 * int m) 32 = m"
  by (simp add: chunks_of_def)

lemma chunks_of_part: "chunks_of (min (32 * int k) (n - int j * (32 * int k))) 32 = min k (chunks_of n 32 - j * k)"
proof -
  have "n - int j * (32 * int k) = n - 32 * int (j * k)" by simp
  then show ?thesis by (simp only: chunks_of_min chunks_of_whole chunks_of_shift)
qed

lemma chunks_of_cover:
  assumes "0 < k" shows "chunks_of n 32 \<le> chunks_of n (32 * int k) * k"
proof -
  have "(n + 31) div 32 \<le> ((n + 32 * int k - 1) div (32 * int k)) * int k"
  proof -
    let ?d = "(n + 32 * int k - 1) div (32 * int k)"
    have pos: "0 < 32 * int k" using assms by simp
    have "n + 32 * int k - 1 < (?d + 1) * (32 * int k)"
      using div_mult_mod_eq [of "n + 32 * int k - 1" "32 * int k"] pos_mod_bound [OF pos, of "n + 32 * int k - 1"]
      by (simp add: distrib_right)
    then have "n - 1 < ?d * (32 * int k)" by (simp add: distrib_right)
    then have "n + 31 < (?d * int k + 1) * 32" by (simp add: algebra_simps)
    then show ?thesis by (simp add: div_less_iff_less_mult flip: zle_add1_eq_le)
  qed
  then have "nat ((n + 32 - 1) div 32) \<le> nat (((n + 32 * int k - 1) div (32 * int k)) * int k)" by (simp add: nat_mono)
  moreover have "nat (x * int k) = nat x * k" for x
    by (cases "0 \<le> x") (simp_all add: nat_mult_distrib mult_nonpos_nonneg)
  ultimately show ?thesis by (simp only: chunks_of_def)
qed


lemma upt_from_zero: "[a..<b] = map (\<lambda>i. a + i) [0..<b - a]"
  by (rule nth_equalityI) simp_all

lemma range_in_windows:
  assumes "0 < k"
  shows "concat (map (\<lambda>start. map (\<lambda>t. start + t) (py_range 0 (min (32 * int k) (n - start)) 32)) (py_range 0 n (32 * int k)))
    = py_range 0 n 32"
proof -
  have "concat (map (\<lambda>j. map (\<lambda>t. int j * (32 * int k) + t) (py_range 0 (min (32 * int k) (n - int j * (32 * int k))) 32))
      [0..<chunks_of n (32 * int k)])
    = concat (map (\<lambda>j. map (\<lambda>i. int i * 32) [j * k..<min (Suc j * k) (chunks_of n 32)]) [0..<chunks_of n (32 * int k)])"
  proof (rule arg_cong [where f = concat], rule map_cong [OF refl])
    fix j
    have "[j * k..<min (Suc j * k) (chunks_of n 32)] = map (\<lambda>i. j * k + i) [0..<min k (chunks_of n 32 - j * k)]"
      by (subst upt_from_zero) (simp flip: min_diff)
    then show "map (\<lambda>t. int j * (32 * int k) + t) (py_range 0 (min (32 * int k) (n - int j * (32 * int k))) 32)
        = map (\<lambda>i. int i * 32) [j * k..<min (Suc j * k) (chunks_of n 32)]"
      unfolding py_range_chunks chunks_of_part by (simp add: algebra_simps)
  qed
  also have "\<dots> = map (\<lambda>i. int i * 32) [0..<min (chunks_of n (32 * int k) * k) (chunks_of n 32)]"
    by (simp only: upt_blocks [symmetric] map_concat map_map comp_def)
  also have "\<dots> = py_range 0 n 32" using chunks_of_cover [OF assms, of n] by (simp add: py_range_chunks min_absorb2)
  finally show ?thesis by (simp add: py_range_chunks [of n "32 * int k"] comp_def)
qed


lemma project_chunk_shift: "project_chunk ds taps (base + start + t) r = project_chunk ds taps (base + (start + t)) r"
  by (simp add: add.assoc)

lemma py_range_memD: "x \<in> set (py_range 0 n step) \<Longrightarrow> \<exists>i. x = int i * step \<and> i < nat ((n + step - 1) div step)"
  by (auto simp: py_range_def)

lemma those_results_map: "those_results (map (\<lambda>x. Inr (f x)) xs) = Inr (map f xs)"
  by (induction xs) simp_all

lemma those_results_raise: "xs \<noteq> [] \<Longrightarrow> those_results (map (\<lambda>_. Inl e) xs) = Inl e"
  by (cases xs) simp_all

text \<open>Projecting the taps window by window gives the rows of the one whole call.\<close>

lemma windowed_projection_is_whole:
  assumes "0 \<le> window" and "window mod PROJECTION_CHUNK_ROWS = 0" and "window \<le> HISTORY_ROWS"
    and "0 \<le> base" and "base + amount \<le> int (length taps)"
  shows "project_window ds taps base amount window = project_features ds taps amount base"
proof (cases "window = 0 \<or> window \<ge> amount")
  case True
  then show ?thesis using assms by (simp add: project_window_def)
next
  case False
  obtain k where k: "window = 32 * int k" "0 < k"
    using assms(1,2) False unfolding PROJECTION_CHUNK_ROWS_def
    by (metis dvd_eq_mod_eq_0 dvdE gr0I mult_zero_right nonneg_int_cases of_nat_0 zero_less_mult_iff zero_le_mult_iff
        zero_less_numeral not_le)
  let ?chunk = "\<lambda>start. project_chunk ds taps (base + start) (min 32 (amount - start))"
  let ?starts = "py_range 0 amount window"
  have starts: "0 \<le> start \<and> start < amount" if s: "start \<in> set ?starts" for start
  proof -
    obtain i where i: "start = int i * window" "i < nat ((amount + window - 1) div window)"
      using py_range_memD [OF s] by blast
    then have "int i + 1 \<le> (amount + window - 1) div window" by linarith
    then have "(int i + 1) * window \<le> ((amount + window - 1) div window) * window" using k by (simp add: mult_right_mono)
    also have "\<dots> \<le> amount + window - 1" using div_mult_mod_eq [of "amount + window - 1" window] pos_mod_sign [of window "amount + window - 1"] k
      by linarith
    finally have "int i * window < amount" by (simp add: algebra_simps)
    then show ?thesis using i(1) k by simp
  qed
  have part: "project_features ds taps (min window (amount - start)) (base + start)
      = rbind (ds_project ds) (\<lambda>_. Inr (concat (map (\<lambda>t. ?chunk (start + t)) (py_range 0 (min window (amount - start)) 32))))"
    if s: "start \<in> set ?starts" for start
  proof -
    have "project_chunk ds taps (base + start + t) (min 32 (min window (amount - start) - t)) = ?chunk (start + t)"
      if t: "t \<in> set (py_range 0 (min window (amount - start)) 32)" for t
    proof -
      obtain i where i: "t = int i * 32" "i < nat ((min window (amount - start) + 32 - 1) div 32)"
        using py_range_memD [OF t] by blast
      then have "t < min window (amount - start)" by linarith
      then have "t + 32 \<le> window" using i(1) k by simp
      then have "min 32 (min window (amount - start) - t) = min 32 (amount - (start + t))" by linarith
      then show ?thesis by (simp add: add.assoc)
    qed
    then have rows: "map (\<lambda>t. project_chunk ds taps (base + start + t) (min 32 (min window (amount - start) - t)))
          (py_range 0 (min window (amount - start)) 32)
        = map (\<lambda>t. ?chunk (start + t)) (py_range 0 (min window (amount - start)) 32)"
      by (rule map_cong [OF refl])
    have "\<not> (min window (amount - start) < 1 \<or> base + start < 0
        \<or> int (length taps) < base + start + min window (amount - start))"
      using starts [OF s] assms(4,5) k by linarith
    then show ?thesis by (simp only: project_features_def rows if_False)
  qed
  have "window div window \<le> (amount + window - 1) div window" using False k by (intro zdiv_mono1) simp_all
  then have "1 \<le> (amount + window - 1) div window" using k by simp
  then have "?starts \<noteq> []" by (simp add: py_range_def)
  then have "rbind (those_results (map (\<lambda>start. project_features ds taps (min window (amount - start)) (base + start)) ?starts))
      (\<lambda>parts. Inr (concat parts))
    = rbind (ds_project ds) (\<lambda>_. Inr (concat (map (\<lambda>start. concat (map (\<lambda>t. ?chunk (start + t))
        (py_range 0 (min window (amount - start)) 32))) ?starts)))"
    by (cases "ds_project ds") (simp_all add: part those_results_map those_results_raise cong: map_cong)
  also have "concat (map (\<lambda>start. concat (map (\<lambda>t. ?chunk (start + t)) (py_range 0 (min window (amount - start)) 32))) ?starts)
      = concat (map ?chunk (py_range 0 amount 32))"
    unfolding k(1)
    by (subst range_in_windows [OF k(2), of amount, symmetric]) (simp add: map_concat concat_of_concat comp_def)
  finally show ?thesis using False assms k by (simp add: project_window_def project_features_def)
qed

subsection \<open>What is written to a slot\<close>

definition working :: "('f, 'r, 'c) draft_side \<Rightarrow> bool" where
  "working ds \<longleftrightarrow> list_all (\<lambda>r. r = Inr ()) [ds_fence ds, ds_project ds, ds_copy ds, ds_lend_weights ds, ds_capture ds,
     ds_discard ds, ds_close_capture ds, ds_close_kv ds, ds_release_weights ds, ds_free ds]"

text \<open>Two pools that hold the same bytes at the same places, and name the same tensors in a slot.\<close>

definition alike :: "nat \<Rightarrow> 'c buffer_pool \<Rightarrow> 'c buffer_pool \<Rightarrow> bool" where
  "alike i p q \<longleftrightarrow> pl_memory p = pl_memory q \<and> pl_place p = pl_place q
     \<and> ps_history (pl_slots p ! i) = ps_history (pl_slots q ! i) \<and> ps_kv (pl_slots p ! i) = ps_kv (pl_slots q ! i)
     \<and> ps_query (pl_slots p ! i) = ps_query (pl_slots q ! i)"

lemma alike_write: "alike i p q \<Longrightarrow> alike i (write_tensor t v p) (write_tensor t v q)"
  by (simp add: alike_def write_tensor_def)

lemma alike_writes: "alike i p q \<Longrightarrow> alike i (fold (\<lambda>t. write_tensor t v) ts p) (fold (\<lambda>t. write_tensor t v) ts q)"
  by (induction ts arbitrary: p q) (simp_all add: alike_write)

lemma alike_history: "alike i p q \<Longrightarrow> alike i (write_history ds i rows p) (write_history ds i rows q)"
  using alike_write [of i p q] by (simp add: write_history_def alike_def)

lemma alike_query: "alike i p q \<Longrightarrow> query_content ds i p = query_content ds i q"
  by (auto simp: alike_def query_content_def read_tensor_def split: option.splits)

definition seed_bank :: "('f, 'r, 'c) draft_side \<Rightarrow> nat \<Rightarrow> 'r list \<Rightarrow> int \<Rightarrow> nat \<times> nat \<Rightarrow> 'c buffer_pool \<Rightarrow> 'c buffer_pool" where
  "seed_bank ds i rows start = (\<lambda>(layer, head) p. write_tensor (ps_kv (pl_slots p ! i) ! (4 * layer + head))
             (ds_bank ds layer head rows start (query_content ds i p)) p)"

lemma alike_bank: "alike i p q \<Longrightarrow> alike i (seed_bank ds i rows start lh p) (seed_bank ds i rows start lh q)"
proof (cases lh)
  case (Pair layer head)
  assume a: "alike i p q"
  then have "ps_kv (pl_slots p ! i) = ps_kv (pl_slots q ! i)" by (simp add: alike_def)
  then show ?thesis using alike_write [OF a] alike_query [OF a, of ds] Pair by (simp add: seed_bank_def)
qed

lemma alike_banks: "alike i p q \<Longrightarrow> alike i (seed_banks ds i rows start p) (seed_banks ds i rows start q)"
proof -
  have "alike i p q \<Longrightarrow> alike i (fold (seed_bank ds i rows start) lhs p) (fold (seed_bank ds i rows start) lhs q)" for lhs
    by (induction lhs arbitrary: p q) (simp_all add: alike_bank)
  then show "alike i p q \<Longrightarrow> ?thesis" by (simp add: seed_banks_def seed_bank_def)
qed

text \<open>A slot seeded for a request: zeroed, its history written, its banks filled.\<close>

definition seeded :: "('f, 'r, 'c) draft_side \<Rightarrow> nat \<Rightarrow> 'r list \<Rightarrow> int \<Rightarrow> pool_slot \<Rightarrow> 'c buffer_pool \<Rightarrow> 'c buffer_pool" where
  "seeded ds i rows start s p = seed_banks ds i rows start (write_history ds i rows
     (fold (\<lambda>t. write_tensor t (ds_zero ds)) (ps_zeroed s) p))"

lemma alike_seeded: "alike i p q \<Longrightarrow> alike i (seeded ds i rows start s p) (seeded ds i rows start s q)"
  by (simp add: seeded_def alike_banks alike_history alike_writes)

subsection \<open>A fresh drafter\<close>

definition new_kv :: "nat \<Rightarrow> int \<Rightarrow> draft_kv" where
  "new_kv ident position = \<lparr>kv_id = ident, kv_position = position, kv_rows = min position 2048, kv_pending = False,
     kv_projection = False, kv_closed = False\<rparr>"

lemma kv_new_run:
  "working ds \<Longrightarrow> 1 \<le> position \<Longrightarrow> position \<le> 262112 \<Longrightarrow>
     kv_new ds ident i rows position (min position 2048) p
       = (Inr (new_kv ident position), seed_banks ds i rows (position - min position 2048) p)"
  by (simp add: kv_new_def working_def op_then_def op_bind_def op_refuse_def new_kv_def)

lemma install_run:
  assumes "working ds" and "1 \<le> position" and "position \<le> 262112"
  shows "install_cache ds ident i rows position (min position 2048) b
    = (Inr (), b\<lparr>bn_pool := seed_banks ds i rows (position - min position 2048) (bn_pool b),
                 bn_device := (bn_device b)\<lparr>dd_kv := Some (new_kv ident position)\<rparr>\<rparr>)"
  by (simp add: install_cache_def op_bind_def in_pool_def on_device_def kv_new_run [OF assms])

text \<open>A device its constructor seeded, and with the capture of its request.\<close>

definition seeded_device :: "nat \<Rightarrow> int \<Rightarrow> draft_device \<Rightarrow> draft_device" where
  "seeded_device i position d = d\<lparr>dd_slot := Some i, dd_weights := True, dd_kv := Some (new_kv 0 position)\<rparr>"

definition built_device :: "nat \<Rightarrow> int \<Rightarrow> draft_device \<Rightarrow> draft_device" where
  "built_device i position d = (seeded_device i position d)
     \<lparr>dd_capture := Own \<lparr>cap_kv = 0, cap_buckets = [2048], cap_pending = False\<rparr>\<rparr>"

lemma seed_run:
  assumes ds: "working ds" and position: "1 \<le> position" "position \<le> 262112"
    and acquired: "pool_acquire (ds_zero ds) owner p = (Inr i, q)"
    and projected: "project_features ds taps (min position 2048) 0 = Inr rows"
    and opt: "do_cache_history opt" "do_defer opt"
  shows "seed_device ds opt taps owner position (min position 2048) \<lparr>bn_pool = p, bn_device = d\<rparr>
    = (Inr (), \<lparr>bn_pool = seed_banks ds i rows (position - min position 2048) (write_history ds i rows q),
        bn_device = seeded_device i position d\<rparr>)"
proof -
  have calls: "ds_lend_weights ds = Inr ()" "ds_copy ds = Inr ()" "ds_fence ds = Inr ()"
    using ds by (simp_all add: working_def)
  show ?thesis
    by (simp add: seed_device_def op_then_def op_bind_def in_pool_def on_device_def acquired calls projected opt
        install_run [OF ds position] seeded_device_def)
qed

text \<open>The ladder of a single bucket admits what the full one does.\<close>

lemma single_ladder:
  assumes "proposal_ladder True position budget = Inr rungs"
  shows "rungs = [2048]" and "1 \<le> position" and "position \<le> 262111"
  using assms by (auto simp: proposal_ladder_def single_bucket_contexts_def proposal_contexts_def rbind_Inr_iff split: if_splits)

lemma rung_at_least_top: "n \<le> 2048 \<Longrightarrow> \<exists>rows. rung_at_least n = Inr rows"
  by (auto simp: rung_at_least_def proposal_rungs_def split: list.splits if_splits)

lemma single_ladder_again:
  assumes "1 \<le> position" and "position \<le> 262111" and "1 \<le> budget" and "budget \<le> 262144 - position - 32"
  shows "proposal_ladder True position budget = Inr [2048]"
  using rung_at_least_top [of "min position 2048"] rung_at_least_top [of "min 2048 (position + budget)"] assms
  by (auto simp: proposal_ladder_def single_bucket_contexts_def proposal_contexts_def)

lemma capture_run:
  assumes "working ds" and "proposal_ladder single (dd_position (bn_device b)) budget = Inr buckets" and "dd_kv (bn_device b) = Some kv"
  shows "capture_proposal ds single budget b
    = (Inr (), b\<lparr>bn_device := (bn_device b)\<lparr>dd_capture := Own \<lparr>cap_kv = kv_id kv, cap_buckets = buckets, cap_pending = False\<rparr>\<rparr>\<rparr>)"
  using assms by (simp add: capture_proposal_def op_then_def op_bind_def on_device_def working_def)

subsection \<open>A parked drafter\<close>

definition idle_device :: "draft_device \<Rightarrow> draft_device" where
  "idle_device d = (case single_capture d of
     None \<Rightarrow> d
   | Some c \<Rightarrow> d\<lparr>dd_capture := (case dd_capture d of View _ \<Rightarrow> View (Some (c\<lparr>cap_pending := False\<rparr>))
                                       | _ \<Rightarrow> Own (c\<lparr>cap_pending := False\<rparr>))\<rparr>)"

lemma drop_run: "working ds \<Longrightarrow> drop_proposal ds b = (Inr (), b\<lparr>bn_device := idle_device (bn_device b)\<rparr>)"
  by (auto simp: drop_proposal_def idle_device_def working_def op_then_def op_bind_def on_device_def split: option.splits)

lemma idle_capture: "single_capture (idle_device d) = map_option (\<lambda>c. c\<lparr>cap_pending := False\<rparr>) (single_capture d)"
  by (auto simp: idle_device_def single_capture_def split: option.splits proposal_capture.splits)

lemma idle_fields [simp]:
  "dd_closed (idle_device d) = dd_closed d" "dd_slot (idle_device d) = dd_slot d" "dd_weights (idle_device d) = dd_weights d"
  "dd_cache_history (idle_device d) = dd_cache_history d" "dd_kv (idle_device d) = dd_kv d"
  "dd_pending (idle_device d) = dd_pending d" "dd_released (idle_device d) = dd_released d"
  by (simp_all add: idle_device_def split: option.splits)

text \<open>What the set of parked engines keeps: a drafter over a lent slot, with its cache and its capture of one bucket, unless
  a pair released that.\<close>

definition kept_drafter :: "draft_device \<Rightarrow> nat \<Rightarrow> bool" where
  "kept_drafter d i \<longleftrightarrow> dd_slot d = Some i \<and> dd_weights d \<and> dd_cache_history d
     \<and> (case dd_kv d of None \<Rightarrow> False | Some kv \<Rightarrow> \<not> kv_closed kv \<and> \<not> kv_projection kv)
     \<and> dd_released d = (single_capture d = None)
     \<and> (case single_capture d of None \<Rightarrow> True | Some c \<Rightarrow> cap_buckets c = [2048])"

definition parked_device :: "draft_device \<Rightarrow> nat \<Rightarrow> bool" where
  "parked_device d i \<longleftrightarrow> kept_drafter d i \<and> \<not> dd_closed d \<and> \<not> dd_pending d
     \<and> (case dd_kv d of None \<Rightarrow> False | Some kv \<Rightarrow> \<not> kv_pending kv)
     \<and> (case single_capture d of None \<Rightarrow> True | Some c \<Rightarrow> \<not> cap_pending c)"

lemma parks:
  assumes "working ds" and "kept_drafter (bn_device b) i" and "park_device ds b = (Inr None, b')"
  shows "bn_pool b' = bn_pool b" and "parked_device (bn_device b') i"
proof -
  have fence: "ds_fence ds = Inr ()" using assms(1) by (simp add: working_def)
  have b': "b' = b\<lparr>bn_device := idle_device (bn_device b)\<rparr>" "park_refusal b' = None"
    using assms(3) by (auto simp: park_device_def op_then_def op_bind_def fence drop_run [OF assms(1)])
  show "bn_pool b' = bn_pool b" by (simp add: b'(1))
  have "\<not> dd_closed (bn_device b')" "\<not> dd_pending (bn_device b')" "case dd_kv (bn_device b') of None \<Rightarrow> False | Some kv \<Rightarrow> \<not> kv_pending kv"
    using b'(2) by (auto simp: park_refusal_def Let_def split: if_splits option.splits)
  moreover have "kept_drafter (bn_device b') i"
    using assms(2) by (cases "single_capture (bn_device b)") (simp_all add: b'(1) kept_drafter_def idle_capture)
  ultimately show "parked_device (bn_device b') i"
    by (auto simp: parked_device_def b'(1) idle_capture split: option.splits)
qed

text \<open>The host state of a drafter. A cache's name and the count of the rebinds are not part of it; that the capture reads
  the device's own cache, and in which buckets, is.\<close>

definition host_state :: "draft_device \<Rightarrow> (bool \<times> nat option \<times> bool \<times> int \<times> int \<times> bool \<times> bool \<times> bool)
    \<times> (nat \<times> nat \<times> int option \<times> int list \<times> bool) \<times> (int \<times> int \<times> bool \<times> bool \<times> bool) option \<times> (bool \<times> int list \<times> bool) option" where
  "host_state d = ((dd_closed d, dd_slot d, dd_weights d, dd_position d, dd_rows d, dd_cache_history d, dd_pending d, dd_released d),
     (dd_calls d, dd_published d, dd_digest d, dd_checks d, dd_stale d),
     map_option (\<lambda>kv. (kv_position kv, kv_rows kv, kv_pending kv, kv_projection kv, kv_closed kv)) (dd_kv d),
     map_option (\<lambda>c. (map_option kv_id (dd_kv d) = Some (cap_kv c), cap_buckets c, cap_pending c)) (single_capture d))"

lemma rebind_run:
  assumes ds: "working ds" and position: "1 \<le> position" "position \<le> maximum" "position \<le> 262111"
    and parked: "parked_device (bn_device b) i" and ok: "pool_ok (bn_pool b)" and p: "\<not> pl_closed (bn_pool b)" "i < length (pl_slots (bn_pool b))"
    and projected: "project_window ds taps 0 (min position 2048) window = Inr rows"
    and opt: "do_cache_history opt"
  shows "\<exists>r b'. rebind_device ds maximum taps 0 position window b = (Inr r, b')
    \<and> bn_pool b' = seeded ds i rows (position - min position 2048) (pl_slots (bn_pool b) ! i) (bn_pool b)
    \<and> host_state (bn_device b') = host_state (built_device i position (new_device opt position (min position 2048)))"
proof -
  obtain kv where kv: "dd_kv (bn_device b) = Some kv" "\<not> kv_pending kv" "\<not> kv_projection kv" "\<not> kv_closed kv"
    using parked by (auto simp: parked_device_def kept_drafter_def split: option.splits)
  have d: "dd_slot (bn_device b) = Some i" "dd_weights (bn_device b)" "dd_cache_history (bn_device b)" "\<not> dd_closed (bn_device b)"
      "\<not> dd_pending (bn_device b)" "dd_released (bn_device b) = (single_capture (bn_device b) = None)"
    using parked by (simp_all add: parked_device_def kept_drafter_def)
  have calls: "ds_copy ds = Inr ()" "ds_fence ds = Inr ()" using ds by (simp_all add: working_def)
  have ladder: "proposal_ladder True position 1 = Inr [2048]" by (rule single_ladder_again) (use position in simp_all)
  have window: "prefill_window maximum position = Inr \<lparr>wi_start = max 0 (position - 2048), wi_end = position, wi_rows = min position 2048\<rparr>"
    using position by (simp add: prefill_window_def)
  let ?b = "b\<lparr>bn_device := idle_device (bn_device b)\<rparr>"
  have guards: "rebind_guards b = (Inr i, b)" using d kv by (simp add: rebind_guards_def Let_def)
  have idle: "rebind_idle ds b = (Inr (), ?b)"
    using d kv by (cases "single_capture (bn_device b)")
      (simp_all add: rebind_idle_def op_then_def op_bind_def op_refuse_def drop_run [OF ds] idle_device_def)
  have zeroed: "pool_rezero (ds_zero ds) i (bn_pool b) = (Inr (), fold (\<lambda>t. write_tensor t (ds_zero ds)) (ps_zeroed (pl_slots (bn_pool b) ! i)) (bn_pool b))"
    using p by (simp add: pool_rezero_cases [OF ok])
  have install: "install_cache ds ident i rows position (min position 2048) b
    = (Inr (), b\<lparr>bn_pool := seed_banks ds i rows (position - min position 2048) (bn_pool b),
                 bn_device := (bn_device b)\<lparr>dd_kv := Some (new_kv ident position)\<rparr>\<rparr>)" for ident b
    by (rule install_run [OF ds position(1)]) (use position in simp)
  show ?thesis
  proof (cases "single_capture (bn_device b)")
    case None
    then show ?thesis
      unfolding rebind_device_def op_then_def op_bind_def
      using d kv
      by (auto simp: guards window calls idle in_pool_def zeroed projected install on_device_def rebind_capture_def op_then_def op_bind_def
          capture_run [OF ds, where single = True and buckets = "[2048]"] ladder reset_device_def seeded_def host_state_def
          built_device_def seeded_device_def new_device_def new_kv_def opt single_capture_def idle_device_def split: proposal_capture.splits)
  next
    case (Some c)
    moreover have "cap_buckets c = [2048]" using parked Some by (simp add: parked_device_def kept_drafter_def)
    ultimately show ?thesis
      unfolding rebind_device_def op_then_def op_bind_def
      using d kv idle_capture [of "bn_device b"]
      by (auto simp: guards window calls idle in_pool_def zeroed projected install on_device_def rebind_capture_def op_then_def op_bind_def
          reset_device_def seeded_def host_state_def built_device_def seeded_device_def new_device_def new_kv_def opt
          single_capture_def split: proposal_capture.splits)
  qed
qed

lemma close_run:
  assumes ds: "working ds" and parked: "parked_device (bn_device b) i" and ok: "pool_ok (bn_pool b)"
    and p: "\<not> pl_closed (bn_pool b)" "i < length (pl_slots (bn_pool b))" "ps_lent (pl_slots (bn_pool b) ! i)"
  shows "bn_pool (snd (device_close ds b)) = (bn_pool b)\<lparr>pl_slots := (pl_slots (bn_pool b))[i := take_back (pl_slots (bn_pool b) ! i)]\<rparr>"
proof -
  obtain kv where kv: "dd_kv (bn_device b) = Some kv" "\<not> kv_closed kv"
    using parked by (auto simp: parked_device_def kept_drafter_def split: option.splits)
  have d: "dd_slot (bn_device b) = Some i" "dd_weights (bn_device b)" "\<not> dd_closed (bn_device b)" "\<not> dd_pending (bn_device b)"
    using parked by (simp_all add: parked_device_def kept_drafter_def)
  have calls: "ds_fence ds = Inr ()" "ds_close_capture ds = Inr ()" "ds_close_kv ds = Inr ()" "ds_release_weights ds = Inr ()" "ds_free ds = Inr ()"
    using ds by (simp_all add: working_def)
  have released: "pool_release i (bn_pool b) = (Inr (), (bn_pool b)\<lparr>pl_slots := (pl_slots (bn_pool b))[i := take_back (pl_slots (bn_pool b) ! i)]\<rparr>)"
    using p by (simp add: pool_release_cases [OF ok])
  show ?thesis
    using d kv by (simp add: device_close_def op_then_def op_bind_def calls close_kv_def on_device_def return_slot_def
        in_pool_def released return_weights_def)
qed

lemma build_run:
  assumes ds: "working ds" and w: "prefill_window maximum position = Inr w"
    and checks: "draft_checks opt w taps = Inr ()" and opt: "do_cache_history opt" "do_defer opt"
    and ladder: "proposal_ladder True position budget = Inr rungs"
    and projected: "project_features ds taps (min position 2048) 0 = Inr rows"
    and acquired: "pool_acquire (ds_zero ds) owner p = (Inr i, q)"
  shows "drafter_build ds maximum opt False True budget taps owner position p
    = (Inr (built_device i position (new_device opt position (min position 2048))),
       seed_banks ds i rows (position - min position 2048) (write_history ds i rows q))"
proof -
  note position = single_ladder [OF ladder]
  have rows: "wi_rows w = min position 2048" using w by (auto simp: prefill_window_def split: if_splits)
  let ?d = "seeded_device i position (new_device opt position (min position 2048))"
  have "device_build ds maximum opt taps owner position p
      = (Inr ?d, seed_banks ds i rows (position - min position 2048) (write_history ds i rows q))"
    using seed_run [OF ds position(2) _ acquired projected opt] position
    by (simp add: device_build_def w checks rows close_and_raise_def)
  moreover have "capture_proposal ds True budget \<lparr>bn_pool = p, bn_device = ?d\<rparr>
      = (Inr (), \<lparr>bn_pool = p, bn_device = built_device i position (new_device opt position (min position 2048))\<rparr>)" for p :: "'c buffer_pool"
    using capture_run [OF ds, of True "\<lparr>bn_pool = p, bn_device = ?d\<rparr>" budget "[2048]" "new_kv 0 position"] ladder position(1)
    by (simp add: seeded_device_def new_device_def new_kv_def built_device_def)
  ultimately show ?thesis
    by (simp add: drafter_build_def prepare_proposal_def close_and_raise_def op_then_def op_bind_def op_refuse_def
        seeded_device_def new_device_def)
qed

text \<open>C19: Where serving keeps one 2048-row bucket, a parked drafter rebound to a request is the drafter that closing it and
  building a fresh one, its proposal captured after the constructor, would give: the host state modelled comes out the same,
  the capture's cache and bucket included, and so does every byte of the pool's memory on both chips, although the rebind
  keeps its slot and projects the history in windows of a multiple of 32 rows. The drafter parked with its cache, and with
  its capture unless a pair released it; the pool is open and every slot below its own is lent, so that the fresh build is
  lent the same slot; the device's calls succeed, and the fresh build's own checks and its ladder admit the request.\<close>

theorem rebound_drafter_is_fresh:
  assumes pool: "reachable pool_start (pool_moves (ds_zero ds)) (bn_pool b)" and ds: "working ds"
    and parked: "kept_drafter (bn_device b) i" "park_device ds b = (Inr None, parked)"
    and slot: "\<not> pl_closed (bn_pool b)" "i < length (pl_slots (bn_pool b))" "list_all ps_lent (take (Suc i) (pl_slots (bn_pool b)))"
    and w: "prefill_window maximum position = Inr w"
    and checks: "draft_checks opt w taps = Inr ()" "do_cache_history opt" "do_defer opt"
    and ladder: "proposal_ladder True position budget = Inr rungs"
    and window: "0 \<le> window" "window mod PROJECTION_CHUNK_ROWS = 0" "window \<le> HISTORY_ROWS"
  shows "\<exists>rebuilt rebound fresh p.
      rebind_device ds maximum taps 0 position window parked = (Inr rebuilt, rebound)
    \<and> drafter_build ds maximum opt False True budget taps owner position (bn_pool (snd (device_close ds parked))) = (Inr fresh, p)
    \<and> host_state (bn_device rebound) = host_state fresh
    \<and> pl_memory (bn_pool rebound) = pl_memory p \<and> pl_place (bn_pool rebound) = pl_place p"
proof -
  let ?p = "bn_pool b"
  let ?closed = "?p\<lparr>pl_slots := (pl_slots ?p)[i := take_back (pl_slots ?p ! i)]\<rparr>"
  let ?lent = "(fold (\<lambda>t. write_tensor t (ds_zero ds)) (ps_zeroed (pl_slots ?p ! i)) ?closed)
    \<lparr>pl_slots := (pl_slots ?closed)[i := lend owner (take_back (pl_slots ?p ! i))]\<rparr>"
  have ok: "pool_ok ?p" by (rule pool.inv_reachable [OF pool])
  have lent: "ps_lent (pl_slots ?p ! j)" if "j \<le> i" for j
    using slot(2,3) that by (simp add: list_all_length less_Suc_eq_le)
  have b': "bn_pool parked = ?p" "parked_device (bn_device parked) i" using parks [OF ds parked] by simp_all
  have position: "1 \<le> position" "position \<le> maximum" and rows: "wi_rows w = min position 2048"
    using w by (auto simp: prefill_window_def split: if_splits)
  have taps: "int (length taps) = min position 2048" using checks(1) rows by (auto simp: draft_checks_def split: if_splits)
  have "\<exists>history. project_features ds taps (min position 2048) 0 = Inr history"
    using ds taps position by (auto simp: project_features_def working_def)
  then obtain history where history: "project_features ds taps (min position 2048) 0 = Inr history" by blast
  then have windowed: "project_window ds taps 0 (min position 2048) window = Inr history"
    using windowed_projection_is_whole [OF window, of 0 "min position 2048" taps ds] taps by simp
  obtain rebuilt rebound where rebound: "rebind_device ds maximum taps 0 position window parked = (Inr rebuilt, rebound)"
      "bn_pool rebound = seeded ds i history (position - min position 2048) (pl_slots ?p ! i) ?p"
      "host_state (bn_device rebound) = host_state (built_device i position (new_device opt position (min position 2048)))"
    using rebind_run [OF ds position single_ladder(3) [OF ladder] b'(2), where window = window and taps = taps and rows = history and opt = opt] ok slot windowed checks(2) b'(1) by auto
  have closed: "bn_pool (snd (device_close ds parked)) = ?closed"
    using close_run [OF ds b'(2)] ok slot lent [of i] b'(1) by simp
  have "pool_step (ds_zero ds) (Some i) ?p ?closed"
    using pool_step.release [of "ds_zero ds" i ?p] slot(1,2) lent [of i] by (simp add: pool_release_cases [OF ok])
  then have ok': "pool_ok ?closed" by (rule pool_step_ok [OF ok])
  have acquired: "pool_acquire (ds_zero ds) owner ?closed = (Inr i, ?lent)"
    using acquire_at [OF ok', of i "ds_zero ds" owner] slot lent by (simp add: take_back_def)
  let ?zeroed = "fold (\<lambda>t. write_tensor t (ds_zero ds)) (ps_zeroed (pl_slots ?p ! i)) ?p"
  have "alike i ?zeroed (fold (\<lambda>t. write_tensor t (ds_zero ds)) (ps_zeroed (pl_slots ?p ! i)) ?closed)"
    by (rule alike_writes) (use slot(2) in \<open>simp add: alike_def take_back_def verifier_reset_def\<close>)
  then have "alike i ?zeroed ?lent"
    using slot(2) by (simp add: alike_def take_back_def lend_def verifier_reset_def)
  then have same: "alike i (bn_pool rebound) (seed_banks ds i history (position - min position 2048) (write_history ds i history ?lent))"
    unfolding rebound(2) seeded_def by (intro alike_banks alike_history)
  have fresh: "drafter_build ds maximum opt False True budget taps owner position ?closed
      = (Inr (built_device i position (new_device opt position (min position 2048))),
         seed_banks ds i history (position - min position 2048) (write_history ds i history ?lent))"
    by (rule build_run [OF ds w checks ladder history acquired])
  show ?thesis
    using rebound(1,3) fresh same by (simp add: closed alike_def)
qed

subsection \<open>A drafter parked and rebound\<close>

definition demo_side :: "(int, int, int) draft_side" where
  "demo_side = \<lparr>ds_chunk = map (\<lambda>x. x * x + 1), ds_blank = 0, ds_zero_row = 0, ds_history = sum_list,
     ds_bank = (\<lambda>layer head rows start q. int layer + int head + start + sum_list rows + fst q), ds_zero = 0, ds_fence = Inr (),
     ds_project = Inr (), ds_copy = Inr (), ds_lend_weights = Inr (), ds_capture = Inr (), ds_discard = Inr (),
     ds_close_capture = Inr (), ds_close_kv = Inr (), ds_release_weights = Inr (), ds_free = Inr ()\<rparr>"

definition demo_options :: draft_options where
  "demo_options = \<lparr>do_target = True, do_feature_start = 0, do_block_rows = 16, do_proposal_capture = True, do_max_new = 16, do_defer = True,
     do_cache_history = True, do_projection_capture = False, do_live_qk = False, do_native = True\<rparr>"

definition demo_bench :: "int bench" where
  "demo_bench = \<lparr>bn_pool = snd (pool_acquire 0 ''a'' demo_pool), bn_device = built_device 0 3 (new_device demo_options 3 3)\<rparr>"

lemma demo_side_working: "working demo_side" and demo_side_zero: "ds_zero demo_side = 0"
  by (simp_all add: working_def demo_side_def)

lemma demo_bench_facts: "\<not> pl_closed (bn_pool demo_bench)" "length (pl_slots (bn_pool demo_bench)) = 2"
    "ps_lent (pl_slots (bn_pool demo_bench) ! 0)" "kept_drafter (bn_device demo_bench) 0"
  using demo_pool_facts
  by (simp_all add: demo_bench_def demo_first kept_drafter_def built_device_def seeded_device_def new_device_def demo_options_def new_kv_def
      single_capture_def)

lemma demo_bench_reached: "reachable pool_start (pool_moves 0) (bn_pool demo_bench)"
  by (simp add: demo_bench_def pool_acquire_moves demo_pool_start)

lemma demo_bench_parks: "park_device demo_side demo_bench = (Inr None, demo_bench\<lparr>bn_device := idle_device (bn_device demo_bench)\<rparr>)"
proof -
  have "pool_ok (bn_pool demo_bench)" by (rule pool.inv_reachable [OF demo_bench_reached])
  then have "slot_verify (pl_slots (bn_pool demo_bench) ! 0) (bn_pool demo_bench) = (Inr (), bn_pool demo_bench)"
    by (rule slot_verify_Inr) (simp add: demo_bench_facts)
  moreover have "bn_device demo_bench = built_device 0 3 (new_device demo_options 3 3)" by (simp add: demo_bench_def)
  ultimately show ?thesis using demo_side_working
    by (simp add: park_device_def op_then_def op_bind_def drop_run [OF demo_side_working] park_refusal_def working_def
        built_device_def seeded_device_def new_device_def new_kv_def)
qed

theorem rebound_drafter_is_fresh_witness:
  "\<exists>rebuilt rebound fresh p.
      rebind_device demo_side 65504 (map int [7..<47]) 0 40 32 (demo_bench\<lparr>bn_device := idle_device (bn_device demo_bench)\<rparr>)
        = (Inr rebuilt, rebound)
    \<and> drafter_build demo_side 65504 demo_options False True 16 (map int [7..<47]) ''b'' 40
        (bn_pool (snd (device_close demo_side (demo_bench\<lparr>bn_device := idle_device (bn_device demo_bench)\<rparr>)))) = (Inr fresh, p)
    \<and> host_state (bn_device rebound) = host_state fresh
    \<and> pl_memory (bn_pool rebound) = pl_memory p \<and> pl_place (bn_pool rebound) = pl_place p"
proof (rule rebound_drafter_is_fresh)
  show "reachable pool_start (pool_moves (ds_zero demo_side)) (bn_pool demo_bench)"
    unfolding demo_side_zero by (rule demo_bench_reached)
  show "park_device demo_side demo_bench = (Inr None, demo_bench\<lparr>bn_device := idle_device (bn_device demo_bench)\<rparr>)"
    by (rule demo_bench_parks)
  show "proposal_ladder True 40 16 = Inr [2048]" by (rule single_ladder_again) simp_all
  show "prefill_window 65504 40 = Inr \<lparr>wi_start = 0, wi_end = 40, wi_rows = 40\<rparr>" by (simp add: prefill_window_def)
  show "list_all ps_lent (take (Suc 0) (pl_slots (bn_pool demo_bench)))"
    using demo_bench_facts(2,3) by (cases "pl_slots (bn_pool demo_bench)") simp_all
qed (simp_all add: demo_side_working demo_bench_facts demo_options_def draft_checks_def PROJECTION_CHUNK_ROWS_def HISTORY_ROWS_def)

end
