(* ===== verification/Spec2Isabelle.thy ===== *)
theory Spec2Isabelle
  imports LookupScore PrefixProps SchedulerProps CapturePlan ServingProps PackedProps RunnerProps ContractProps
    WorkerProps DraftFold LifecycleProps Quarantine PoolProps RebindExact
begin

text \<open>
  The serving path of the Qwen3 27B port to Tenstorrent Blackhole: the host logic that decides which requests are
  prefilled and decoded, drafts and verifies their tokens speculatively, reuses the prefixes of earlier
  conversations and lends the device's buffers. The code is Python under \<open>src/scripts/ci/\<close> and
  \<open>src/speculative-decoding/harness/\<close>; definitions keep its names. What the device computes (the target model, the
  drafter, the recurrent states in its native slots), what vLLM's scheduler and runner do and where a buffer lies are
  arguments of the definitions; what is relied on of them is stated by named predicates (\<open>device_ok\<close>, \<open>pass_ok\<close> and
  the side conditions of the step relations).

  THE PARTS. A request is waiting until \<open>serving_prefill_admission.py\<close> lets one fresh prompt into a prefill step. The
  prefix registry may restore a checkpoint of its first tokens. \<open>serving_lifecycle.py\<close> routes every step in the
  worker: a prefill is captured chunk by chunk, and with its first token the request becomes a bridge of the worker
  hook. From then on each decode step verifies a ticket of drafts, alone or with others in a packed block, commits
  the longest prefix the target agrees with and appends it to the runner's record. The engines share one native
  recurrent slot, so each restores its own state before it verifies. The drafter and the verifier borrow their
  tensors from a pool that is built before any request.

  CONVENTIONS (\<open>Prelude\<close>, \<open>StateOps\<close>, \<open>Transition\<close>). A function that may raise answers \<open>py_error + 'a\<close>; a method is a
  function from the state to a result and the state after it, also after an exception, so that what a failed call
  leaves behind is visible. Python's unbounded integers are \<open>int\<close>, dictionaries are association lists where their
  order matters. A component with a life of its own is a step relation; its invariant is interpreted in the locale
  \<open>invariant_system\<close> (\<open>latched_system\<close> for a state that is never left), and what holds in every reachable state comes
  from the locale. \<open>capped_pass\<close> is the contract of a prefill pass under a cap, interpreted for the wrapper and for
  the older subclass.

  SPECULATIVE DECODING. \<open>GreedyVerify\<close>, \<open>LookupDraft\<close>, \<open>HybridDraft\<close> and \<open>GreedySession\<close> are the harness's
  \<open>greedy_verify.py\<close>, \<open>lookup_draft.py\<close>, \<open>hybrid_draft.py\<close> and \<open>greedy_session.py\<close>; \<open>SessionInvariant\<close> shows that a
  session is well formed in every phase and emits what serial greedy decoding of the target emits. \<open>LookupScore\<close> is
  \<open>score_lookup\<close> of \<open>lookup_acceptance.py\<close>: its loop is a partial function, and on a valid run it is shown to return.

  PREFIX REUSE. \<open>PrefixRegistry\<close> is \<open>qwen_prefix_registry.py\<close> and \<open>PrefixGraft\<close> the \<open>SchedulerGraft\<close> of
  \<open>qwen_prefix_scheduler_patch.py\<close>. \<open>RegistryInvariant\<close> has the byte and pin accounts and the eviction's choice,
  \<open>PrefixExact\<close> that a restored state is the state of exactly the request's own tokens, \<open>PrefixProps\<close> the pins, the
  plan, the trim and the kill switch.

  ADMISSION. \<open>PrefillAdmission\<close> and \<open>SchedulerGate\<close> are \<open>serving_prefill_admission.py\<close>, the older subclass of
  \<open>serving_one_in_flight.py\<close> and the backstop of \<open>serving_request_factory.py\<close>. \<open>SchedulerProps\<close> shows one fresh prompt
  at a time, no request lost, no hold that can stall, and how far free memory may fall between a prompt's admission and
  its engine's build before the backstop refuses it.

  VERIFY ENGINES AND ROUNDS. \<open>CapturePlan\<close> is \<open>attention_request_plan.py\<close> with the pool's bucket widths of
  \<open>verifier_engine.py\<close>; \<open>ServingState\<close>, \<open>VerifierEngine\<close> and \<open>FastRequest\<close> are the engine, \<open>dflash_request_runtime.py\<close>
  and \<open>serving_fast_request.py\<close>; \<open>PackedBlock\<close>, \<open>RoundPolicy\<close> and \<open>PackedRound\<close> are \<open>packed_verifier.py\<close>,
  \<open>packed_shapes.py\<close>, \<open>verify_trace_t2.py\<close>'s guard, \<open>serving_packed_step.py\<close> and \<open>serving_sequential_step.py\<close>.
  \<open>SlotSharing\<close>, \<open>RigInvariant\<close>, \<open>RigSteps\<close>, \<open>PackedSafety\<close>, \<open>WorldInvariant\<close>, \<open>RoundSafety\<close>, \<open>VerifySafety\<close> and
  \<open>RoundSteps\<close> show that every operation keeps the invariant of every request sharing the slot; \<open>Serving\<close> is the
  system of all of them, \<open>ServingProps\<close> the exactness of its text and \<open>PackedProps\<close> the block's own checks and that
  every commit of a round stays inside its block's family.

  THE WORKER. \<open>SchedulerContract\<close>, \<open>RunnerState\<close> and \<open>WorkerHook\<close> are \<open>serving_vllm_contract.py\<close>,
  \<open>serving_vllm_packed.py\<close>, \<open>serving_vllm_state.py\<close>, \<open>serving_page_binding.py\<close>, \<open>serving_runner_bridge.py\<close>,
  \<open>serving_packed_bridge.py\<close> and \<open>serving_worker_hook.py\<close>; \<open>ContractProps\<close> has the round trip of the drafts through
  the scheduler, \<open>RunnerProps\<close> the record and the pages. \<open>Emission\<close>, \<open>RoundEmission\<close> and \<open>BlocksEmission\<close> say what each
  step adds to a request and \<open>RoundFrame\<close> that a round touches no other; \<open>WorkerInvariant\<close>, \<open>WorkerDecode\<close>, \<open>WorkerQuiet\<close>, \<open>WorkerSystem\<close>, \<open>WorkerServing\<close> and
  \<open>WorkerSteps\<close> carry it through the handlers, \<open>WorkerDemo\<close> runs one and \<open>WorkerProps\<close> states it of the record that
  is streamed. \<open>ServingPolicy\<close> and \<open>RequestFactory\<close> are \<open>serving_fast_policy.py\<close> and the host checks of
  \<open>serving_request_factory.py\<close>, with \<open>FactoryProps\<close>.

  THE LIFECYCLE. \<open>PrefillCapture\<close> is \<open>dflash_prefill_window.py\<close> with \<open>target_features.py\<close>, \<open>ServingLifecycle\<close> is
  \<open>serving_lifecycle.py\<close> and \<open>Quarantine\<close> is \<open>serving_request_quarantine.py\<close>. \<open>PrefillTail\<close> and \<open>PrefillProps\<close> show
  that a completed capture holds the prompt's exact tail however it was cut; \<open>LifecycleKeys\<close>, \<open>LifecycleInvariant\<close>,
  \<open>LifecycleSteps\<close> and \<open>LifecycleProps\<close> that the gate, the hook and the capture agree at every moment.

  DRAFTING. \<open>DraftMask\<close> has the masks, rotary tables and key layouts of \<open>draft_attention.py\<close>,
  \<open>dflash_attention_mask.py\<close>, \<open>dflash_proposal_inputs.py\<close> and \<open>dflash_batched_mask.py\<close>, and \<open>pair_row_exact.py\<close>'s fold;
  \<open>DraftProps\<close>, \<open>DraftRope\<close> and \<open>DraftFold\<close> show that a packed, bucketed or folded user attends with the keys, positions and mask it has alone.

  STORAGE. \<open>ChunkGroups\<close> groups a block's rows (\<open>attention_head_fold.py\<close>) and lists the families of
  \<open>pooled_attention_replay.py\<close>. \<open>BufferPool\<close> and \<open>PoolBuild\<close> are \<open>serving_buffer_pool.py\<close>: a tensor is named by the
  order it was allocated in, a placement says where it lies on each chip, and memory is by address, so that two
  tensors that overlap would share their contents. \<open>PoolLoans\<close> shows that the constructor's buffers are apart,
  \<open>PoolProps\<close> that no step about one slot changes another's. \<open>DraftDevice\<close> is the host side of
  \<open>dflash_device.py\<close>'s drafter over a slot, its capture in \<open>serving_request_factory.py\<close>, and its park and rebind in
  \<open>serving_parked_engines.py\<close>. \<open>RebindExact\<close> shows that, with the one bucket of the shared memory profile, a parked
  drafter rebound to a request is what closing it and building a fresh one over the same slot gives: the same host state,
  capture included, and the same memory on both chips, the windowed projection being the whole one.

  BOUNDS AND FUEL. No definition has fuel. Loops over ranges are structural recursions over the range, the
  prompt-lookup search is a measure recursion, and \<open>score_loop\<close> is the one partial function. Reachability is over
  step relations of any length. The demonstrations that evaluate a run use small prompts and a device that counts.

  NOT MODELLED. Tensor programs and kernels, traces and their capture (a capture is an operation that may fail),
  publications' copies, the packed and quad drafts' captures, the set that holds parked engines, timing, log
  lines, digests and audits, the texts of errors, environment parsing beyond the flags named in \<open>ServingPolicy\<close>,
  the attachment to vLLM's classes, and the gates, probes and reports of the test rig. Threads are not
  modelled: the worker handles one step at a time.
\<close>

end
